(* ===== verification/Prelude.thy ===== *)
theory Prelude
  imports
    Main
    "HOL-Library.Word"
    "HOL-Library.Sublist"
    "HOL-Library.List_Lexorder"
    "HOL-Library.Char_ord"
    "HOL-Library.Finite_Map"
begin

text \<open>
  Shared vocabulary of the development: byte strings, 64-bit integers, the error values of the
  registry, the result monad that stands for Rust's \<open>?\<close> operator, and the generic facts the
  component theories use. A Rust \<open>&str\<close> or \<open>&[u8]\<close> is a list of \<open>char\<close>, one \<open>char\<close> per byte;
  \<open>u64\<close> is a 64-bit word; a \<open>usize\<close> that counts bytes or rows held in memory is a \<open>nat\<close>.
\<close>

named_theorems res_simps \<open>evaluation and inversion of the result monad\<close>
named_theorems u64_simps \<open>bounds and comparisons of 64-bit arithmetic\<close>
named_theorems table_simps \<open>reads after writes on ordered tables\<close>

section \<open>Basic types\<close>

type_synonym bytes = "char list"
type_synonym u64 = "64 word"

abbreviation NUL :: char where
  "NUL \<equiv> CHR 0x00"

text \<open>
  The failures a registry call can return. \<open>Bail\<close> carries the fixed text of an
  \<open>anyhow::ensure!\<close> or \<open>bail!\<close>; the other constructors are the errors that \<open>?\<close> propagates from
  the key check, from decoding and from number parsing. \<open>Panic\<close> is a Rust panic, and
  \<open>Context m e\<close> the error \<open>e\<close> reported again behind the message \<open>m\<close>.
\<close>

datatype error =
    KeyEmpty string
  | KeyContains string string
  | JsonError
  | Utf8Error
  | ParseIntError
  | Bail string
  | Panic
  | Context string error

type_synonym 'a res = "error + 'a"

section \<open>The result monad\<close>

definition bindR :: "'e + 'a \<Rightarrow> ('a \<Rightarrow> 'e + 'b) \<Rightarrow> 'e + 'b" where
  "bindR m f = (case m of Inl e \<Rightarrow> Inl e | Inr x \<Rightarrow> f x)"

definition ensure :: "bool \<Rightarrow> 'e \<Rightarrow> 'e + unit" where
  "ensure b e = (if b then Inr () else Inl e)"

definition ok_or :: "'a option \<Rightarrow> 'e \<Rightarrow> 'e + 'a" where
  "ok_or x e = (case x of None \<Rightarrow> Inl e | Some v \<Rightarrow> Inr v)"

text \<open>\<open>Option::map(f).transpose()\<close>: an absent value stays absent, a present one must succeed.\<close>

definition transposeR :: "('a \<Rightarrow> 'e + 'b) \<Rightarrow> 'a option \<Rightarrow> 'e + 'b option" where
  "transposeR f x = (case x of None \<Rightarrow> Inr None
     | Some v \<Rightarrow> (case f v of Inl e \<Rightarrow> Inl e | Inr w \<Rightarrow> Inr (Some w)))"

text \<open>Collecting a list of fallible results stops at the first failure.\<close>

fun traverseR :: "('a \<Rightarrow> 'e + 'b) \<Rightarrow> 'a list \<Rightarrow> 'e + 'b list" where
  "traverseR f [] = Inr []"
| "traverseR f (x # xs) = (case f x of Inl e \<Rightarrow> Inl e
     | Inr y \<Rightarrow> (case traverseR f xs of Inl e \<Rightarrow> Inl e | Inr ys \<Rightarrow> Inr (y # ys)))"

lemma bindR_simps [simp, res_simps]:
  "bindR (Inl e) f = Inl e"
  "bindR (Inr x) f = f x"
  by (simp_all add: bindR_def)

lemma bindR_eq_Inr [simp, res_simps]:
  "bindR m f = Inr y \<longleftrightarrow> (\<exists>x. m = Inr x \<and> f x = Inr y)"
  by (auto simp: bindR_def split: sum.splits)

lemma bindR_eq_Inl [res_simps]:
  "bindR m f = Inl e \<longleftrightarrow> m = Inl e \<or> (\<exists>x. m = Inr x \<and> f x = Inl e)"
  by (auto simp: bindR_def split: sum.splits)

lemma ensure_simps [simp, res_simps]:
  "ensure b e = Inr u \<longleftrightarrow> b"
  "ensure b e = Inl e' \<longleftrightarrow> \<not> b \<and> e = e'"
  "ensure True e = Inr ()"
  "ensure False e = Inl e"
  by (auto simp: ensure_def)

lemma ok_or_simps [simp, res_simps]:
  "ok_or None e = Inl e"
  "ok_or (Some v) e = Inr v"
  "ok_or x e = Inr w \<longleftrightarrow> x = Some w"
  "ok_or x e = Inl e' \<longleftrightarrow> x = None \<and> e = e'"
  by (auto simp: ok_or_def split: option.splits)

lemma transposeR_simps [simp, res_simps]:
  "transposeR f None = Inr None"
  "transposeR f (Some v) = bindR (f v) (\<lambda>w. Inr (Some w))"
  "transposeR f x = Inr None \<longleftrightarrow> x = None"
  "transposeR f x = Inr (Some w) \<longleftrightarrow> (\<exists>v. x = Some v \<and> f v = Inr w)"
  by (auto simp: transposeR_def bindR_def split: option.splits sum.splits)

lemma transposeR_Inr_D:
  assumes "transposeR f x = Inr r"
  shows "(x = None \<and> r = None) \<or> (\<exists>v w. x = Some v \<and> f v = Inr w \<and> r = Some w)"
  using assms by (cases x; cases r) auto

lemma traverseR_Inr_iff:
  "traverseR f xs = Inr ys \<longleftrightarrow> list_all2 (\<lambda>x y. f x = Inr y) xs ys"
proof (induction xs arbitrary: ys)
  case (Cons x xs)
  have "traverseR f (x # xs) = Inr ys
    \<longleftrightarrow> (\<exists>y zs. f x = Inr y \<and> traverseR f xs = Inr zs \<and> ys = y # zs)"
    by (simp split: sum.split) auto
  then show ?case unfolding Cons.IH list_all2_Cons1 by blast
qed auto

lemma traverseR_map_Inr:
  assumes "\<And>x. x \<in> set xs \<Longrightarrow> f x = Inr (g x)"
  shows "traverseR f xs = Inr (map g xs)"
  using assms by (induction xs) auto

lemma distinct_remdups_adj_sort:
  fixes xs :: "'a::linorder list"
  shows "distinct (remdups_adj (sort xs))"
proof -
  have "sorted_wrt (<) (remdups_adj ys)" if "sorted ys" for ys :: "'a list"
    using that by (induction ys rule: remdups_adj.induct) (auto simp: order.order_iff_strict)
  from this [of "sort xs"] show ?thesis by (simp add: strict_sorted_iff)
qed

lemma traverseR_set:
  assumes "traverseR f xs = Inr ys"
  shows "y \<in> set ys \<longleftrightarrow> (\<exists>x \<in> set xs. f x = Inr y)" and "x \<in> set xs \<Longrightarrow> \<exists>y. f x = Inr y"
  using assms by (induction xs arbitrary: ys) (auto split: sum.splits)

section \<open>Generic facts on lists and options\<close>

text \<open>
  A composite key joins its parts with a separator that no part contains, so it splits back
  uniquely.
\<close>

lemma sep_append_inj:
  assumes "c \<notin> set p" and "c \<notin> set q"
  shows "p @ c # k = q @ c # l \<longleftrightarrow> p = q \<and> k = l"
proof
  assume eq: "p @ c # k = q @ c # l"
  have tw: "takeWhile (\<lambda>x. x \<noteq> c) (r @ c # m) = r" if "c \<notin> set r" for r m
    using that by (induction r) auto
  from tw [OF assms(1), of k] tw [OF assms(2), of l] eq show "p = q \<and> k = l" by auto
qed simp

lemma sep_prefix_iff:
  assumes "c \<notin> set p" and "c \<notin> set q"
  shows "prefix (p @ [c]) (q @ c # l) \<longleftrightarrow> p = q"
  using sep_append_inj [OF assms(2,1)] by (auto simp: prefix_def)

lemma takeWhile_eq_filter_sorted:
  assumes "sorted_wrt R xs" and "\<And>x y. R x y \<Longrightarrow> P y \<Longrightarrow> P x"
  shows "takeWhile P xs = filter P xs"
  using assms(1)
proof (induction xs)
  case (Cons x xs)
  then have IH: "takeWhile P xs = filter P xs" and le: "\<forall>y \<in> set xs. R x y" by simp_all
  show ?case
  proof (cases "P x")
    case False
    with le assms(2) have "\<forall>y \<in> set xs. \<not> P y" by blast
    with False show ?thesis by (simp add: filter_empty_conv)
  qed (simp add: IH)
qed simp

lemma dropWhile_eq_filter_sorted:
  assumes "sorted_wrt R xs" and "\<And>x y. R x y \<Longrightarrow> Q x \<Longrightarrow> Q y"
  shows "dropWhile (\<lambda>x. \<not> Q x) xs = filter Q xs"
  using assms(1)
proof (induction xs)
  case (Cons x xs)
  then have IH: "dropWhile (\<lambda>x. \<not> Q x) xs = filter Q xs" and le: "\<forall>y \<in> set xs. R x y" by simp_all
  show ?case
  proof (cases "Q x")
    case True
    with le assms(2) have "\<forall>y \<in> set xs. Q y" by blast
    with True show ?thesis by simp
  qed (simp add: IH)
qed simp

lemma fold_fmdrop_lookup [table_simps]:
  "fmlookup (fold fmdrop ks t) k = (if k \<in> set ks then None else fmlookup t k)"
  by (induction ks arbitrary: t) auto

lemma find_SomeD: "find P xs = Some x \<Longrightarrow> x \<in> set xs \<and> P x"
  by (induction xs) (auto split: if_splits)

end
