(* ===== verification/U64.thy ===== *)
theory U64
  imports Prelude
begin

text \<open>
  The integer operations of Rust's standard library that the code uses on \<open>u64\<close>: checked,
  saturating and wrapping arithmetic, decimal printing (\<open>to_string\<close>) and parsing
  (\<open>str::parse\<close>), and little-endian byte encodings. The round trips between the encodings and
  the values are what the durable formats of the registry rest on.
\<close>

section \<open>Arithmetic\<close>

definition U64_MAX :: u64 where
  "U64_MAX = 18446744073709551615"

definition checked_add :: "u64 \<Rightarrow> u64 \<Rightarrow> u64 option" where
  "checked_add a b = (if unat a + unat b < 2 ^ 64 then Some (a + b) else None)"

definition saturating_add :: "u64 \<Rightarrow> u64 \<Rightarrow> u64" where
  "saturating_add a b = (if unat a + unat b < 2 ^ 64 then a + b else U64_MAX)"

definition saturating_sub :: "u64 \<Rightarrow> u64 \<Rightarrow> u64" where
  "saturating_sub a b = (if a < b then 0 else a - b)"

lemma unat_u64_less [u64_simps]: "unat (x :: u64) < 18446744073709551616"
  using unsigned_less [of x] by simp

lemma unat_U64_MAX [simp, u64_simps]: "unat U64_MAX = 18446744073709551615"
  by (simp add: U64_MAX_def)

lemma le_U64_MAX [simp, u64_simps]: "x \<le> U64_MAX"
  using unat_u64_less [of x] by (simp add: word_le_nat_alt)

lemma unat_add_no_overflow:
  assumes "unat (a :: u64) + unat b < 2 ^ 64"
  shows "unat (a + b) = unat a + unat b"
  using assms by (simp add: unat_word_ariths)

lemma checked_add_Some [u64_simps]:
  "checked_add a b = Some c \<longleftrightarrow> unat a + unat b < 2 ^ 64 \<and> c = a + b"
  by (auto simp: checked_add_def)

lemma checked_add_unat:
  "checked_add a b = Some c \<Longrightarrow> unat c = unat a + unat b"
  by (auto simp: checked_add_Some intro: unat_add_no_overflow)

lemma checked_succ_gt:
  assumes "checked_add a 1 = Some c"
  shows "a < c"
  using checked_add_unat [OF assms] by (simp add: word_less_nat_alt)

lemma checked_succ_None_iff: "checked_add a 1 = None \<longleftrightarrow> a = U64_MAX"
proof -
  have "unat a + 1 < 2 ^ 64 \<longleftrightarrow> unat a \<noteq> unat U64_MAX"
    using unat_u64_less [of a] by (simp add: less_le)
  then show ?thesis by (auto simp: checked_add_def word_unat_eq_iff)
qed

lemma unat_saturating_add:
  "unat (saturating_add a b) = min (unat a + unat b) 18446744073709551615"
  using unat_u64_less [of a] unat_u64_less [of b]
  by (auto simp: saturating_add_def unat_add_no_overflow min_def)

lemma unat_saturating_sub: "unat (saturating_sub a b) = unat a - unat b"
  by (auto simp: saturating_sub_def word_less_nat_alt unat_sub_if')

section \<open>Decimal text\<close>

definition digit_char :: "nat \<Rightarrow> char" where
  "digit_char d = char_of (48 + d)"

fun show_nat :: "nat \<Rightarrow> string" where
  "show_nat n = (if n < 10 then [digit_char n] else show_nat (n div 10) @ [digit_char (n mod 10)])"

declare show_nat.simps [simp del]

definition show_u64 :: "u64 \<Rightarrow> string" where
  "show_u64 n = show_nat (unat n)"

definition is_digit :: "char \<Rightarrow> bool" where
  "is_digit c \<longleftrightarrow> 48 \<le> (of_char c :: nat) \<and> (of_char c :: nat) \<le> 57"

definition digit_val :: "char \<Rightarrow> nat" where
  "digit_val c = of_char c - 48"

text \<open>The digit loop of \<open>u64::from_str\<close>: each multiplication and addition is checked.\<close>

fun parse_digits :: "nat \<Rightarrow> string \<Rightarrow> nat option" where
  "parse_digits acc [] = Some acc"
| "parse_digits acc (c # cs) =
     (if \<not> is_digit c then None
      else if 2 ^ 64 \<le> acc * 10 then None
      else if 2 ^ 64 \<le> acc * 10 + digit_val c then None
      else parse_digits (acc * 10 + digit_val c) cs)"

definition parse_u64 :: "string \<Rightarrow> u64 option" where
  "parse_u64 s =
     (let t = (case s of c # cs \<Rightarrow> if c = CHR ''+'' then cs else s | [] \<Rightarrow> [])
      in if t = [] then None else map_option of_nat (parse_digits 0 t))"

lemma is_digit_digit_char [simp]: "d < 10 \<Longrightarrow> is_digit (digit_char d)"
  by (simp add: is_digit_def digit_char_def)

lemma digit_val_digit_char [simp]: "d < 10 \<Longrightarrow> digit_val (digit_char d) = d"
  by (simp add: digit_val_def digit_char_def)

lemma show_nat_not_Nil [simp]: "show_nat n \<noteq> []"
  by (subst show_nat.simps) simp

lemma show_nat_digits: "c \<in> set (show_nat n) \<Longrightarrow> is_digit c"
proof (induction n rule: show_nat.induct)
  case (1 n)
  then show ?case by (subst (asm) show_nat.simps) (auto split: if_splits)
qed

lemma show_nat_no_sign: "CHR ''+'' \<notin> set (show_nat n)"
  using show_nat_digits [of "CHR ''+''" n] by (auto simp: is_digit_def)

lemma parse_digits_append:
  "parse_digits acc (xs @ ys) = Option.bind (parse_digits acc xs) (\<lambda>a. parse_digits a ys)"
  by (induction xs arbitrary: acc) auto

lemma parse_digits_show_nat:
  "n < 2 ^ 64 \<Longrightarrow> parse_digits 0 (show_nat n) = Some n"
proof (induction n rule: show_nat.induct)
  case (1 n)
  show ?case
  proof (cases "n < 10")
    case True
    then show ?thesis by (subst show_nat.simps) simp
  next
    case False
    with 1 have "parse_digits 0 (show_nat (n div 10)) = Some (n div 10)" by simp
    moreover have "n div 10 * 10 + n mod 10 = n" "n div 10 * 10 \<le> n" by simp_all
    ultimately show ?thesis using False "1.prems"
      by (subst show_nat.simps) (simp add: parse_digits_append)
  qed
qed

theorem parse_show_u64 [simp]: "parse_u64 (show_u64 n) = Some n"
proof -
  have "unat n < 2 ^ 64" using unat_u64_less [of n] by simp
  then have p: "parse_digits 0 (show_nat (unat n)) = Some (unat n)" by (rule parse_digits_show_nat)
  obtain c cs where cs: "show_nat (unat n) = c # cs"
    using show_nat_not_Nil by (meson neq_Nil_conv)
  have "c \<noteq> CHR ''+''" using show_nat_no_sign [of "unat n"] by (auto simp: cs)
  with p cs show ?thesis by (simp add: parse_u64_def show_u64_def)
qed

lemma show_u64_inj [simp]: "show_u64 a = show_u64 b \<longleftrightarrow> a = b"
  using parse_show_u64 by (metis option.inject)

lemma show_nat_length: "n < 10 ^ Suc k \<Longrightarrow> length (show_nat n) \<le> Suc k"
proof (induction k arbitrary: n)
  case 0
  then show ?case by (subst show_nat.simps) simp
next
  case (Suc k)
  show ?case
  proof (cases "n < 10")
    case False
    from Suc.prems have "n div 10 < 10 ^ Suc k" by (simp add: less_mult_imp_div_less)
    from Suc.IH [OF this] False show ?thesis by (subst show_nat.simps) simp
  qed (subst show_nat.simps, simp)
qed

text \<open>A decimal \<open>u64\<close> fits the twenty-byte budget that the metadata readers enforce.\<close>

lemma show_u64_length: "length (show_u64 n) \<le> 20"
proof -
  have "unat n < 10 ^ Suc 19" using unat_u64_less [of n] by simp
  from show_nat_length [OF this] show ?thesis by (simp add: show_u64_def)
qed

section \<open>Little-endian bytes\<close>

fun nat_le_bytes :: "nat \<Rightarrow> nat \<Rightarrow> bytes" where
  "nat_le_bytes 0 n = []"
| "nat_le_bytes (Suc k) n = char_of (n mod 256) # nat_le_bytes k (n div 256)"

fun nat_of_le_bytes :: "bytes \<Rightarrow> nat" where
  "nat_of_le_bytes [] = 0"
| "nat_of_le_bytes (c # cs) = of_char c + 256 * nat_of_le_bytes cs"

definition u64_to_le_bytes :: "u64 \<Rightarrow> bytes" where
  "u64_to_le_bytes n = nat_le_bytes 8 (unat n)"

definition u64_from_le_bytes :: "bytes \<Rightarrow> u64" where
  "u64_from_le_bytes bs = of_nat (nat_of_le_bytes bs)"

lemma length_nat_le_bytes [simp]: "length (nat_le_bytes k n) = k"
  by (induction k arbitrary: n) auto

lemma length_u64_to_le_bytes [simp]: "length (u64_to_le_bytes n) = 8"
  by (simp add: u64_to_le_bytes_def)

lemma nat_of_le_bytes_le_bytes: "n < 256 ^ k \<Longrightarrow> nat_of_le_bytes (nat_le_bytes k n) = n"
proof (induction k arbitrary: n)
  case (Suc k)
  then have "n div 256 < 256 ^ k" by (simp add: less_mult_imp_div_less mult.commute)
  with Suc.IH show ?case by simp
qed simp

lemma u64_from_to_le_bytes [simp]: "u64_from_le_bytes (u64_to_le_bytes n) = n"
  using unat_u64_less [of n]
  by (simp add: u64_from_le_bytes_def u64_to_le_bytes_def nat_of_le_bytes_le_bytes del: nat_le_bytes.simps)

section \<open>\<open>usize\<close> sums\<close>

text \<open>\<open>usize::checked_add\<close> on a 64-bit target, for lengths kept as natural numbers.\<close>

definition usize_add :: "nat \<Rightarrow> nat \<Rightarrow> nat option" where
  "usize_add a b = (if a + b < 2 ^ 64 then Some (a + b) else None)"

lemma usize_add_Some [simp]: "usize_add a b = Some c \<longleftrightarrow> c = a + b \<and> a + b < 2 ^ 64"
  by (auto simp: usize_add_def)

end
