(* ===== verification/Utf8.thy ===== *)
theory Utf8
  imports U64
begin

text \<open>
  UTF-8 as Rust's standard library sees it: which byte sequences \<open>std::str::from_utf8\<close> accepts
  (the well-formed sequences of Unicode's table 3-7), where a \<open>&str\<close> may be sliced, and the
  slicing expression \<open>&s[..n]\<close>, which panics when \<open>n\<close> is not on a character boundary.
\<close>

abbreviation byte :: "char \<Rightarrow> nat" where
  "byte c \<equiv> of_char c"

definition cont_byte :: "char \<Rightarrow> bool" where
  "cont_byte c \<longleftrightarrow> 128 \<le> byte c \<and> byte c \<le> 191"

definition second_of_three :: "nat \<Rightarrow> char \<Rightarrow> bool" where
  "second_of_three a c \<longleftrightarrow>
     (if a = 224 then 160 else 128) \<le> byte c \<and> byte c \<le> (if a = 237 then 159 else 191)"

definition second_of_four :: "nat \<Rightarrow> char \<Rightarrow> bool" where
  "second_of_four a c \<longleftrightarrow>
     (if a = 240 then 144 else 128) \<le> byte c \<and> byte c \<le> (if a = 244 then 143 else 191)"

fun utf8_valid :: "bytes \<Rightarrow> bool" where
  "utf8_valid [] = True"
| "utf8_valid (c # cs) =
     (if byte c < 128 then utf8_valid cs
      else if 194 \<le> byte c \<and> byte c \<le> 223 then
        (case cs of c1 # r \<Rightarrow> cont_byte c1 \<and> utf8_valid r | _ \<Rightarrow> False)
      else if 224 \<le> byte c \<and> byte c \<le> 239 then
        (case cs of c1 # c2 # r \<Rightarrow> second_of_three (byte c) c1 \<and> cont_byte c2 \<and> utf8_valid r
         | _ \<Rightarrow> False)
      else if 240 \<le> byte c \<and> byte c \<le> 244 then
        (case cs of c1 # c2 # c3 # r \<Rightarrow>
           second_of_four (byte c) c1 \<and> cont_byte c2 \<and> cont_byte c3 \<and> utf8_valid r
         | _ \<Rightarrow> False)
      else False)"

definition from_utf8 :: "bytes \<Rightarrow> string res" where
  "from_utf8 bs = (if utf8_valid bs then Inr bs else Inl Utf8Error)"

lemma from_utf8_Inr [simp]: "from_utf8 bs = Inr s \<longleftrightarrow> utf8_valid bs \<and> s = bs"
  by (auto simp: from_utf8_def)

lemma utf8_valid_ascii: "(\<And>c. c \<in> set s \<Longrightarrow> byte c < 128) \<Longrightarrow> utf8_valid s"
  by (induction s) auto

lemma utf8_valid_show_u64 [simp]: "utf8_valid (show_u64 n)"
proof (rule utf8_valid_ascii)
  fix c assume "c \<in> set (show_u64 n)"
  then have "is_digit c" by (auto simp: show_u64_def dest: show_nat_digits)
  then show "byte c < 128" by (simp add: is_digit_def)
qed

section \<open>Slicing\<close>

text \<open>\<open>str::is_char_boundary\<close>: the ends, or an index whose byte does not continue a character.\<close>

definition is_char_boundary :: "string \<Rightarrow> nat \<Rightarrow> bool" where
  "is_char_boundary s i \<longleftrightarrow>
     i = 0 \<or> i = length s \<or> (i < length s \<and> \<not> cont_byte (s ! i))"

text \<open>\<open>&s[..n]\<close>.\<close>

definition slice_to :: "string \<Rightarrow> nat \<Rightarrow> string res" where
  "slice_to s n = (if is_char_boundary s n then Inr (take n s) else Inl Panic)"

lemma slice_to_ascii:
  assumes "\<And>c. c \<in> set s \<Longrightarrow> byte c < 128" and "n \<le> length s"
  shows "slice_to s n = Inr (take n s)"
  using assms(2) assms(1) [of "s ! n"]
  by (auto simp: slice_to_def is_char_boundary_def cont_byte_def le_less)

end
