(* ===== verification/Table.thy ===== *)
theory Table
  imports Utf8
begin

text \<open>
  The tables of the durable store. A table is the finite map of its rows, and iteration visits
  the rows in ascending key order, as redb documents for \<open>iter\<close> and \<open>range\<close>. Most list and
  delete operations of the registry read a range that starts at a key prefix and stop at the
  first key without that prefix; the main fact of this theory is that such a scan visits
  exactly the rows whose key has the prefix, because the keys with a common prefix are
  contiguous in the lexicographic order.
\<close>

type_synonym 'v tbl = "(string, 'v) fmap"
type_synonym table = "bytes tbl"

definition iter :: "('k::linorder, 'v) fmap \<Rightarrow> ('k \<times> 'v) list" where
  "iter t = sorted_list_of_fmap t"

definition range_from :: "'k \<Rightarrow> ('k::linorder, 'v) fmap \<Rightarrow> ('k \<times> 'v) list" where
  "range_from start t = dropWhile (\<lambda>kv. fst kv < start) (iter t)"

text \<open>\<open>for r in t.range(prefix..)? { if !k.starts_with(prefix) { break; } ... }\<close>\<close>

definition prefix_scan :: "string \<Rightarrow> 'v tbl \<Rightarrow> (string \<times> 'v) list" where
  "prefix_scan p t = takeWhile (\<lambda>kv. prefix p (fst kv)) (range_from p t)"

definition remove_keys :: "'k list \<Rightarrow> ('k, 'v) fmap \<Rightarrow> ('k, 'v) fmap" where
  "remove_keys ks t = fold fmdrop ks t"

section \<open>Iteration\<close>

lemma map_of_iter [simp, table_simps]: "map_of (iter t) = fmlookup t"
  by (simp add: iter_def)

lemma map_fst_iter: "map fst (iter t) = sorted_list_of_fset (fmdom t)"
  by (simp add: iter_def sorted_list_of_fmap_def comp_def)

lemma distinct_iter [simp]: "distinct (map fst (iter t))"
  by (simp add: map_fst_iter sorted_list_of_fset.rep_eq)

lemma sorted_iter [simp]: "sorted (map fst (iter t))"
  by (simp add: map_fst_iter sorted_list_of_fset.rep_eq)

lemma set_iter [table_simps]: "(k, v) \<in> set (iter t) \<longleftrightarrow> fmlookup t k = Some v"
  by (metis distinct_iter map_of_iter map_of_eq_Some_iff)

lemma length_iter: "length (iter t) = fcard (fmdom t)"
proof -
  have "length (iter t) = length (map fst (iter t))" by simp
  also have "\<dots> = fcard (fmdom t)"
    unfolding map_fst_iter by (simp add: sorted_list_of_fset.rep_eq fcard.rep_eq)
  finally show ?thesis .
qed

lemma map_of_pair_list:
  assumes "distinct (map fst xs)"
  shows "xs = map (\<lambda>k. (k, the (map_of xs k))) (map fst xs)"
proof -
  have "map (\<lambda>kv. (fst kv, the (map_of xs (fst kv)))) xs = map id xs"
    using assms by (intro map_cong) auto
  then show ?thesis by (simp add: comp_def)
qed

lemma pair_list_eqI:
  fixes xs ys :: "('k::linorder \<times> 'v) list"
  assumes "sorted (map fst xs)" "distinct (map fst xs)"
    and "sorted (map fst ys)" "distinct (map fst ys)" and "map_of xs = map_of ys"
  shows "xs = ys"
proof -
  have "set (map fst xs) = set (map fst ys)"
    using arg_cong [OF assms(5), of dom] by (simp add: dom_map_of_conv_image_fst)
  with assms have "map fst xs = map fst ys" by (simp add: sorted_distinct_set_unique)
  with assms(5) map_of_pair_list [OF assms(2)] map_of_pair_list [OF assms(4)] show ?thesis
    by metis
qed

lemma iter_cong: "fmlookup t = fmlookup u \<Longrightarrow> iter t = iter u"
  by (metis fmap_ext)

lemma remove_keys_lookup [simp, table_simps]:
  "fmlookup (remove_keys ks t) k = (if k \<in> set ks then None else fmlookup t k)"
  by (simp add: remove_keys_def fold_fmdrop_lookup)

section \<open>Prefix scans\<close>

lemma prefix_imp_le:
  fixes p k :: string
  assumes "prefix p k"
  shows "p \<le> k"
  using assms by (induction p arbitrary: k) (auto simp: prefix_def)

text \<open>Keys between a prefix and a key that has the prefix have the prefix too.\<close>

lemma prefix_convex:
  fixes p k l :: string
  assumes "p \<le> k" and "k \<le> l" and "prefix p l"
  shows "prefix p k"
  using assms
proof (induction p arbitrary: k l)
  case (Cons c p)
  then obtain l' where l: "l = c # l'" "prefix p l'" by (auto simp: prefix_def)
  from Cons.prems(1) obtain d k' where k: "k = d # k'" by (cases k) auto
  from Cons.prems l k have "d = c" by auto
  with Cons.prems l k have "p \<le> k'" "k' \<le> l'" by auto
  with Cons.IH l \<open>d = c\<close> k show ?case by auto
qed simp

lemma sorted_wrt_iter: "sorted_wrt (\<lambda>x y. fst x \<le> fst y) (iter t)"
  using sorted_iter [of t] by (simp add: sorted_map)

lemma range_from_filter: "range_from s t = filter (\<lambda>kv. s \<le> fst kv) (iter t)"
  unfolding range_from_def not_le [symmetric]
  by (rule dropWhile_eq_filter_sorted [OF sorted_wrt_iter]) auto

theorem prefix_scan_filter: "prefix_scan p t = filter (\<lambda>kv. prefix p (fst kv)) (iter t)"
proof -
  have sw: "sorted_wrt (\<lambda>x y. p \<le> fst x \<and> fst x \<le> fst y) (range_from p t)"
    unfolding range_from_filter
    by (rule sorted_wrt_mono_rel [OF _ sorted_wrt_filter [OF sorted_wrt_iter]]) auto
  have "prefix_scan p t = filter (\<lambda>kv. prefix p (fst kv)) (range_from p t)"
    unfolding prefix_scan_def
    by (rule takeWhile_eq_filter_sorted [OF sw]) (auto intro: prefix_convex)
  also have "\<dots> = filter (\<lambda>kv. prefix p (fst kv)) (iter t)"
    unfolding range_from_filter filter_filter
    by (rule filter_cong) (auto dest: prefix_imp_le)
  finally show ?thesis .
qed

lemma set_prefix_scan [table_simps]:
  "(k, v) \<in> set (prefix_scan p t) \<longleftrightarrow> fmlookup t k = Some v \<and> prefix p k"
  by (auto simp: prefix_scan_filter set_iter)

lemma distinct_prefix_scan: "distinct (map fst (prefix_scan p t))"
  by (simp add: prefix_scan_filter distinct_map_filter)

lemma prefix_scan_fmfilter: "prefix_scan p t = iter (fmfilter (prefix p) t)"
proof (rule pair_list_eqI)
  show "sorted (map fst (prefix_scan p t))"
    using sorted_wrt_filter [OF sorted_wrt_iter]
    by (simp add: prefix_scan_filter sorted_map)
  show "map_of (prefix_scan p t) = map_of (iter (fmfilter (prefix p) t))"
  proof (rule ext)
    fix k
    show "map_of (prefix_scan p t) k = map_of (iter (fmfilter (prefix p) t)) k"
    proof (cases "map_of (prefix_scan p t) k")
      case (Some v)
      then have "(k, v) \<in> set (prefix_scan p t)" by (rule map_of_SomeD)
      with Some show ?thesis by (simp add: set_prefix_scan)
    next
      case None
      then have "\<And>v. (k, v) \<notin> set (prefix_scan p t)"
        by (auto simp: map_of_eq_None_iff image_iff)
      then have "prefix p k \<longrightarrow> fmlookup t k = None"
        by (cases "fmlookup t k") (auto simp: set_prefix_scan)
      with None show ?thesis by simp
    qed
  qed
qed (simp_all add: distinct_prefix_scan)

lemma prefix_scan_cong:
  assumes "\<And>k. prefix p k \<Longrightarrow> fmlookup t k = fmlookup u k"
  shows "prefix_scan p t = prefix_scan p u"
proof -
  have "fmfilter (prefix p) t = fmfilter (prefix p) u"
    by (rule fmap_ext) (simp add: assms)
  then show ?thesis by (simp add: prefix_scan_fmfilter)
qed

text \<open>Removing the scanned keys removes exactly the rows under the prefix.\<close>

lemma remove_prefix_lookup:
  "fmlookup (remove_keys (map fst (prefix_scan p t)) t) k
     = (if prefix p k then None else fmlookup t k)"
proof -
  have "k \<in> set (map fst (prefix_scan p t)) \<longleftrightarrow> prefix p k \<and> fmlookup t k \<noteq> None"
    using set_prefix_scan [of k _ p t]
    by (cases "fmlookup t k") (auto intro: image_eqI [where x = "(k, the (fmlookup t k))"])
  then show ?thesis by auto
qed

section \<open>Weighing tables\<close>

abbreviation table_len :: "('k, 'v) fmap \<Rightarrow> nat" where
  "table_len t \<equiv> fcard (fmdom t)"

definition table_weight :: "('k \<Rightarrow> 'v \<Rightarrow> nat) \<Rightarrow> ('k, 'v) fmap \<Rightarrow> nat" where
  "table_weight w t = (\<Sum>k \<in> fmdom' t. w k (the (fmlookup t k)))"

lemma table_weight_empty [simp]: "table_weight w fmempty = 0"
  by (simp add: table_weight_def)

lemma table_weight_drop:
  assumes "fmlookup t k = Some v"
  shows "table_weight w t = w k v + table_weight w (fmdrop k t)"
proof -
  have "k \<in> fmdom' t" using assms by (simp add: fmlookup_dom'_iff)
  then have "table_weight w t = w k v + (\<Sum>x \<in> fmdom' t - {k}. w x (the (fmlookup t x)))"
    using assms by (simp add: table_weight_def sum.remove)
  also have "(\<Sum>x \<in> fmdom' t - {k}. w x (the (fmlookup t x))) = table_weight w (fmdrop k t)"
    unfolding table_weight_def by (rule sum.cong) auto
  finally show ?thesis .
qed

lemma table_weight_upd: "table_weight w (fmupd k v t) = w k v + table_weight w (fmdrop k t)"
proof -
  have "fmdrop k (fmupd k v t) = fmdrop k t" by (intro fmap_ext) auto
  with table_weight_drop [of "fmupd k v t" k v w] show ?thesis by simp
qed

lemma table_weight_new:
  assumes "fmlookup t k = None"
  shows "table_weight w (fmupd k v t) = w k v + table_weight w t"
proof -
  have "fmdrop k t = t" using assms by (intro fmap_ext) auto
  then show ?thesis by (simp add: table_weight_upd)
qed

lemma table_len_drop:
  assumes "fmlookup t k = Some v"
  shows "table_len t = Suc (table_len (fmdrop k t))"
proof -
  have "k |\<in>| fmdom t" using assms by (simp add: fmlookup_dom_iff)
  then show ?thesis by (metis fmdom_drop fcard_Suc_fminus1)
qed

lemma table_len_upd:
  "fcard (finsert k (fmdom t)) = (if fmlookup t k = None then Suc (table_len t) else table_len t)"
proof (cases "fmlookup t k")
  case None
  then have "k |\<notin>| fmdom t" by (simp add: fmlookup_dom_iff)
  with None show ?thesis by (simp add: fcard_finsert_disjoint)
next
  case (Some w)
  then have "k |\<in>| fmdom t" by (simp add: fmlookup_dom_iff)
  then have "finsert k (fmdom t) = fmdom t" by blast
  with Some show ?thesis by simp
qed

lemma sum_list_iter: "sum_list (map (\<lambda>(k, v). w k v) (iter t)) = table_weight w t"
proof -
  have "sum_list (map (\<lambda>(k, v). w k v) (iter t)) = (\<Sum>kv \<in> set (iter t). w (fst kv) (snd kv))"
    using distinct_iter [of t] by (simp add: sum_list_distinct_conv_sum_set distinct_map case_prod_beta)
  also have "set (iter t) = (\<lambda>k. (k, the (fmlookup t k))) ` fmdom' t"
    by (auto simp: set_iter fmlookup_dom'_iff image_iff)
  also have "(\<Sum>kv \<in> (\<lambda>k. (k, the (fmlookup t k))) ` fmdom' t. w (fst kv) (snd kv)) = table_weight w t"
    unfolding table_weight_def by (subst sum.reindex) (auto simp: inj_on_def)
  finally show ?thesis .
qed

section \<open>Writing several rows\<close>

lemma fold_fmupd_lookup:
  "fmlookup (fold (\<lambda>(k, v). fmupd k v) rows t) k
     = (case map_of (rev rows) k of Some v \<Rightarrow> Some v | None \<Rightarrow> fmlookup t k)"
  by (induction rows arbitrary: t) (auto simp: map_add_def split: option.splits)

lemma fold_fmupd_lookup_distinct:
  "distinct (map fst rows) \<Longrightarrow> fmlookup (fold (\<lambda>(k, v). fmupd k v) rows t) k
     = (case map_of rows k of Some v \<Rightarrow> Some v | None \<Rightarrow> fmlookup t k)"
  using map_of_inject_set [of "rev rows" rows] by (simp add: fold_fmupd_lookup flip: rev_map)

lemma fold_fmupd_fmap_of_list:
  assumes "distinct (map fst rows)"
  shows "fold (\<lambda>(k, v). fmupd k v) rows fmempty = fmap_of_list rows"
  using assms by (intro fmap_ext) (simp add: fold_fmupd_lookup_distinct fmlookup_of_list split: option.split)

lemma table_len_of_list:
  "distinct (map fst rows) \<Longrightarrow> table_len (fmap_of_list rows) = length rows"
proof (induction rows)
  case (Cons kv rows)
  obtain k v where kv: "kv = (k, v)" by (cases kv)
  with Cons.prems have "fmlookup (fmap_of_list rows) k = None"
    by (simp add: fmlookup_of_list map_of_eq_None_iff)
  then have "table_len (fmupd k v (fmap_of_list rows)) = Suc (table_len (fmap_of_list rows))"
    using table_len_upd [of k "fmap_of_list rows"] by (simp only: fmdom_fmupd if_P refl)
  with Cons kv show ?case by (simp only: fmap_of_list_simps) simp
qed (simp add: fcard_fempty)

section \<open>Empty and one-row tables\<close>

lemma iter_empty [simp]: "iter fmempty = []" "prefix_scan p fmempty = []"
  by (simp_all add: iter_def prefix_scan_fmfilter sorted_list_of_fmap_def sorted_list_of_fset.rep_eq)

lemma iter_singleton [simp]: "iter (fmupd k v fmempty) = [(k, v)]"
  by (simp add: iter_def sorted_list_of_fmap_def sorted_list_of_fset.rep_eq)

lemma table_len_singleton [simp]: "fcard {|k|} = 1"
  by (simp add: fcard.rep_eq)

lemma table_weight_of_list:
  "distinct (map fst rows) \<Longrightarrow> table_weight w (fmap_of_list rows) = sum_list (map (\<lambda>(k, v). w k v) rows)"
proof (induction rows)
  case (Cons kv rows)
  obtain k v where kv: "kv = (k, v)" by (cases kv)
  with Cons.prems have "fmlookup (fmap_of_list rows) k = None"
    by (simp add: fmlookup_of_list map_of_eq_None_iff)
  then have "table_weight w (fmupd k v (fmap_of_list rows)) = w k v + table_weight w (fmap_of_list rows)"
    by (rule table_weight_new)
  with Cons kv show ?case by simp
qed simp

lemma sum_list_iter_of_list:
  "distinct (map fst rows) \<Longrightarrow> sum_list (map (\<lambda>(k, v). w k v :: nat) (iter (fmap_of_list rows))) = sum_list (map (\<lambda>(k, v). w k v) rows)"
  using sum_list_iter [of w "fmap_of_list rows"] table_weight_of_list [of rows w] by simp

end
