(* ===== verification/Security.thy ===== *)
theory Security
  imports Table
begin

text \<open>
  Path and key validation (\<open>engram_core/src/security.rs\<close>): composite-key components, the
  lexical guard \<open>safe_join\<close>, the no-follow open, and \<open>PathContext\<close>, which confines every path
  to the allowed roots. A \<open>Path\<close> is the list of its components, which is how Rust compares,
  joins and prefix-tests paths; the operating system is the parameter \<open>fs\<close>. The model is the
  non-Windows configuration: paths have no drive prefix and \<open>strip_unc_prefix\<close> is the identity.
\<close>

section \<open>Errors and composite-key components\<close>

datatype engram_error =
    Config string
  | PathNotAllowed string
  | Io
  | Serde string
  | Internal string
  | SlicePanic

text \<open>
  The error text of a rejected component quotes \<open>&value[..value.len().min(80)]\<close>, which panics
  when byte 80 is inside a character.
\<close>

definition key_contains_error :: "string \<Rightarrow> string \<Rightarrow> string \<Rightarrow> unit res" where
  "key_contains_error name label v =
     bindR (slice_to v (min 80 (length v))) (\<lambda>_. Inl (KeyContains name label))"

definition validate_key_component :: "string \<Rightarrow> string \<Rightarrow> unit res" where
  "validate_key_component name v =
     (if v = [] then Inl (KeyEmpty name)
      else if NUL \<in> set v then key_contains_error name ''NUL byte'' v
      else if CHR 0x0A \<in> set v then key_contains_error name ''newline'' v
      else if CHR 0x0D \<in> set v then key_contains_error name ''carriage-return'' v
      else Inr ())"

definition key_ok :: "string \<Rightarrow> bool" where
  "key_ok v \<longleftrightarrow> v \<noteq> [] \<and> NUL \<notin> set v \<and> CHR 0x0A \<notin> set v \<and> CHR 0x0D \<notin> set v"

lemma key_contains_error_not_Inr [simp]: "key_contains_error n l v \<noteq> Inr u"
  by (simp add: key_contains_error_def)

lemma validate_key_Inr [simp]: "validate_key_component n v = Inr u \<longleftrightarrow> key_ok v"
  by (auto simp: validate_key_component_def key_ok_def)

lemma key_okD: "key_ok v \<Longrightarrow> NUL \<notin> set v" "key_ok v \<Longrightarrow> v \<noteq> []"
  by (simp_all add: key_ok_def)

section \<open>Paths as component lists\<close>

datatype component = RootDir | CurDir | ParentDir | Normal string

type_synonym path = "component list"

text \<open>\<open>str::split\<close> on one separator: always at least one segment.\<close>

fun split_on :: "char \<Rightarrow> string \<Rightarrow> string list" where
  "split_on c [] = [[]]"
| "split_on c (x # xs) =
     (if x = c then [] # split_on c xs
      else (case split_on c xs of [] \<Rightarrow> [[x]] | s # ss \<Rightarrow> (x # s) # ss))"

fun segment_component :: "string \<Rightarrow> component list" where
  "segment_component s =
     (if s = [] \<or> s = ''.'' then [] else if s = ''..'' then [ParentDir] else [Normal s])"

text \<open>\<open>Path::components\<close> on Unix: repeated separators and inner \<open>.\<close> segments vanish.\<close>

definition components :: "string \<Rightarrow> path" where
  "components s =
     (let segs = concat (map segment_component (split_on CHR ''/'' s))
      in case s of
           [] \<Rightarrow> []
         | c # _ \<Rightarrow> if c = CHR ''/'' then RootDir # segs
                    else if hd (split_on CHR ''/'' s) = ''.'' then CurDir # segs
                    else segs)"

text \<open>\<open>PathBuf::push\<close>/\<open>Path::join\<close>: an absolute path replaces, a relative one is appended.\<close>

definition push_path :: "path \<Rightarrow> path \<Rightarrow> path" where
  "push_path base p =
     (case p of RootDir # _ \<Rightarrow> p
      | _ \<Rightarrow> if base = [] then p else base @ filter (\<lambda>c. c \<noteq> CurDir) p)"

definition parent :: "path \<Rightarrow> path option" where
  "parent p = (case rev p of [] \<Rightarrow> None | RootDir # _ \<Rightarrow> None | _ # r \<Rightarrow> Some (rev r))"

definition file_name :: "path \<Rightarrow> string option" where
  "file_name p = (case rev p of Normal s # _ \<Rightarrow> Some s | _ \<Rightarrow> None)"

lemma split_on_not_Nil [simp]: "split_on c s \<noteq> []"
  by (induction s) (auto split: list.splits)

lemma split_on_append: "split_on c (a @ c # b) = split_on c a @ split_on c b"
  by (induction a) (auto split: list.splits)

lemma split_on_segment: "seg \<in> set (split_on c s) \<Longrightarrow> c \<notin> set seg"
  by (induction s arbitrary: seg) (auto split: if_splits list.splits)

lemma Normal_components: "Normal s \<in> set (components p) \<Longrightarrow> CHR ''/'' \<notin> set s \<and> s \<noteq> [] \<and> s \<noteq> ''.'' \<and> s \<noteq> ''..''"
  by (auto simp: components_def Let_def split: list.splits if_splits dest: split_on_segment)

lemma set_split_on: "seg \<in> set (split_on c s) \<Longrightarrow> set seg \<subseteq> set s"
proof (induction s arbitrary: seg)
  case (Cons x s)
  then show ?case
    by (cases "split_on c s") (fastforce split: if_splits dest: Cons.IH)+
qed simp

lemma Normal_components_subset: "Normal s \<in> set (components p) \<Longrightarrow> set s \<subseteq> set p"
  by (auto simp: components_def Let_def split: list.splits if_splits dest!: set_split_on)

section \<open>The file system and the guards over it\<close>

datatype lstat = IsSymlink | NotSymlink | NotFound | StatError

text \<open>The operating system calls, for handles of type \<open>'h\<close>.\<close>

record 'h fs =
  canonicalize :: "path \<Rightarrow> path option"
  symlink_metadata :: "path \<Rightarrow> lstat"
  open_no_follow :: "path \<Rightarrow> 'h option"
  handle_is_symlink :: "'h \<Rightarrow> bool option"
  read_to_string :: "'h \<Rightarrow> string option"

definition to_ascii_uppercase :: "string \<Rightarrow> string" where
  "to_ascii_uppercase s =
     map (\<lambda>c. if 97 \<le> byte c \<and> byte c \<le> 122 then char_of (byte c - 32) else c) s"

definition reserved_names :: "string list" where
  "reserved_names = [''CON'', ''PRN'', ''AUX'', ''NUL'',
     ''COM0'', ''COM1'', ''COM2'', ''COM3'', ''COM4'', ''COM5'', ''COM6'', ''COM7'', ''COM8'', ''COM9'',
     ''LPT0'', ''LPT1'', ''LPT2'', ''LPT3'', ''LPT4'', ''LPT5'', ''LPT6'', ''LPT7'', ''LPT8'', ''LPT9'']"

definition is_windows_reserved_name :: "string \<Rightarrow> bool" where
  "is_windows_reserved_name name \<longleftrightarrow>
     to_ascii_uppercase (hd (split_on CHR ''.'' name)) \<in> set reserved_names"

text \<open>The lexical pass over the components of a relative path.\<close>

fun check_components :: "path \<Rightarrow> engram_error + unit" where
  "check_components [] = Inr ()"
| "check_components (c # cs) = (case c of
     ParentDir \<Rightarrow> Inl (PathNotAllowed ''path traversal via .. not allowed'')
   | Normal name \<Rightarrow>
       if is_windows_reserved_name name
       then Inl (PathNotAllowed ''Windows reserved device name not allowed'')
       else check_components cs
   | _ \<Rightarrow> check_components cs)"

text \<open>
  The symlink walk shared in shape by \<open>safe_join\<close> and \<open>resolve_path\<close>: each prefix is pushed and
  examined with one \<open>lstat\<close>; a missing component is fine, any other failure closes the door.
\<close>

fun check_symlinks :: "'h fs \<Rightarrow> path \<Rightarrow> path \<Rightarrow> engram_error + unit" where
  "check_symlinks F partial [] = Inr ()"
| "check_symlinks F partial (c # cs) =
     (let partial' = push_path partial [c]
      in case symlink_metadata F partial' of
           IsSymlink \<Rightarrow> Inl (PathNotAllowed ''symlink not allowed in path'')
         | StatError \<Rightarrow> Inl (PathNotAllowed ''cannot verify path component'')
         | _ \<Rightarrow> check_symlinks F partial' cs)"

definition starts_with :: "string \<Rightarrow> string \<Rightarrow> bool" where
  "starts_with s p \<longleftrightarrow> prefix p s"

definition nul_error :: "string \<Rightarrow> engram_error" where
  "nul_error s = (case slice_to s (min 80 (length s)) of
     Inl _ \<Rightarrow> SlicePanic | Inr _ \<Rightarrow> PathNotAllowed ''path contains NUL byte'')"

definition safe_join :: "'h fs \<Rightarrow> path \<Rightarrow> string \<Rightarrow> engram_error + path" where
  "safe_join F base_dir sub_path =
     (if NUL \<in> set sub_path then Inl (nul_error sub_path)
      else if starts_with sub_path ''/'' \<or> starts_with sub_path [CHR 0x5C]
        then Inl (PathNotAllowed ''absolute path not allowed'')
      else bindR (check_components (components sub_path)) (\<lambda>_.
           bindR (check_symlinks F base_dir (components sub_path)) (\<lambda>_.
           Inr (push_path base_dir (components sub_path)))))"

definition safe_open_read :: "'h fs \<Rightarrow> path \<Rightarrow> string \<Rightarrow> engram_error + 'h" where
  "safe_open_read F base_dir sub_path =
     bindR (safe_join F base_dir sub_path) (\<lambda>p.
     bindR (ok_or (open_no_follow F p) (PathNotAllowed ''cannot open'')) (\<lambda>h.
     bindR (ok_or (handle_is_symlink F h) (PathNotAllowed ''cannot stat open handle'')) (\<lambda>is_link.
     if is_link then Inl (PathNotAllowed ''symlink detected via handle metadata'') else Inr h)))"

definition safe_read_to_string :: "'h fs \<Rightarrow> path \<Rightarrow> string \<Rightarrow> engram_error + string" where
  "safe_read_to_string F base_dir sub_path =
     bindR (safe_open_read F base_dir sub_path) (\<lambda>h.
     ok_or (read_to_string F h) (PathNotAllowed ''read error''))"

section \<open>Allowed roots\<close>

record path_context =
  allowed_roots :: "path list"

text \<open>Unreachable roots are dropped; an empty result is a configuration error.\<close>

definition path_context_new :: "'h fs \<Rightarrow> path list \<Rightarrow> engram_error + path_context" where
  "path_context_new F roots =
     (if roots = [] then Inl (Config ''allowed_roots cannot be empty'')
      else let usable = List.map_filter (canonicalize F) roots
           in if usable = [] then Inl (Config ''no usable allowed root remains'')
              else Inr \<lparr> allowed_roots = usable \<rparr>)"

definition MAX_ANCESTOR_DEPTH :: nat where "MAX_ANCESTOR_DEPTH = 128"
definition MAX_CANONICAL_DEPTH :: nat where "MAX_CANONICAL_DEPTH = 128"

text \<open>What the ancestor walk does once an existing ancestor is found.\<close>

definition attach_suffix :: "'h fs \<Rightarrow> path \<Rightarrow> path \<Rightarrow> engram_error + path" where
  "attach_suffix F canon_ancestor sfx =
     (if ParentDir \<in> set sfx then Inl (PathNotAllowed ''path traversal via .. detected'')
      else bindR (check_symlinks F canon_ancestor sfx) (\<lambda>_.
           Inr (push_path canon_ancestor sfx)))"

text \<open>
  The ancestor walk; \<open>fuel\<close> is the number of levels left before \<open>MAX_ANCESTOR_DEPTH\<close> is
  exceeded, so the bound is the code's own.
\<close>

fun ancestor_walk :: "'h fs \<Rightarrow> nat \<Rightarrow> path \<Rightarrow> path \<Rightarrow> engram_error + path" where
  "ancestor_walk F 0 ancestor sfx = Inl (PathNotAllowed ''ancestor walk exceeded 128 levels'')"
| "ancestor_walk F (Suc fuel) ancestor sfx =
     (case parent ancestor of
        None \<Rightarrow> Inl (PathNotAllowed ''no existing ancestor directory found'')
      | Some up \<Rightarrow>
          (let sfx' = (case file_name ancestor of Some name \<Rightarrow> push_path [Normal name] sfx
                          | None \<Rightarrow> sfx)
           in case canonicalize F up of
                Some canon_ancestor \<Rightarrow> attach_suffix F canon_ancestor sfx'
              | None \<Rightarrow> ancestor_walk F fuel up sfx'))"

definition resolve_path :: "'h fs \<Rightarrow> path_context \<Rightarrow> path \<Rightarrow> engram_error + path" where
  "resolve_path F ctx input =
     bindR (case canonicalize F input of Some c \<Rightarrow> Inr c
            | None \<Rightarrow> ancestor_walk F MAX_ANCESTOR_DEPTH input []) (\<lambda>canon.
     if MAX_CANONICAL_DEPTH < length canon
       then Inl (PathNotAllowed ''exceeding the maximum allowed depth'')
     else if \<exists>root \<in> set (allowed_roots ctx). prefix root canon then Inr canon
     else Inl (PathNotAllowed ''outside allowed_roots''))"

section \<open>What the guards guarantee\<close>

lemma check_components_Inr:
  "check_components cs = Inr u \<longleftrightarrow>
     ParentDir \<notin> set cs \<and> (\<forall>name. Normal name \<in> set cs \<longrightarrow> \<not> is_windows_reserved_name name)"
  by (induction cs) (auto split: component.splits if_splits)

text \<open>The prefixes a symlink walk visits.\<close>

fun walk_prefixes :: "path \<Rightarrow> path \<Rightarrow> path list" where
  "walk_prefixes partial [] = []"
| "walk_prefixes partial (c # cs) = push_path partial [c] # walk_prefixes (push_path partial [c]) cs"

lemma check_symlinks_Inr:
  "check_symlinks F partial cs = Inr u \<longleftrightarrow>
     (\<forall>q \<in> set (walk_prefixes partial cs). symlink_metadata F q \<in> {NotSymlink, NotFound})"
  by (induction cs arbitrary: partial) (auto simp: Let_def split: lstat.splits)

lemma components_relative:
  "\<not> prefix ''/'' s \<Longrightarrow> RootDir \<notin> set (components s)"
  by (auto simp: components_def Let_def split: list.splits if_splits)

lemma push_path_relative:
  assumes "RootDir \<notin> set p"
  shows "push_path base p = (if base = [] then p else base @ filter (\<lambda>c. c \<noteq> CurDir) p)"
  using assms by (cases p) (auto simp: push_path_def split: component.splits)

lemma walk_prefixes_last:
  assumes "RootDir \<notin> set cs" and "base \<noteq> []" and "cs \<noteq> []"
  shows "last (walk_prefixes base cs) = push_path base cs"
  using assms
proof (induction cs arbitrary: base)
  case (Cons c cs)
  have one: "push_path base [c] \<noteq> []" and r: "RootDir \<notin> set [c]" "RootDir \<notin> set cs"
    using Cons.prems by (auto simp: push_path_relative)
  show ?case
  proof (cases "cs = []")
    case False
    have "last (walk_prefixes base (c # cs)) = last (walk_prefixes (push_path base [c]) cs)"
      using False by (cases cs) auto
    also have "\<dots> = push_path (push_path base [c]) cs"
      using Cons.IH [OF r(2) one False] .
    also have "\<dots> = push_path base (c # cs)"
      using Cons.prems one r by (simp add: push_path_relative)
    finally show ?thesis .
  qed simp
qed simp

lemma prefixes_in_walk:
  assumes "RootDir \<notin> set cs" and "base \<noteq> []"
    and "strict_prefix base q" and "prefix q (push_path base cs)"
  shows "q \<in> set (walk_prefixes base cs)"
  using assms
proof (induction cs arbitrary: base)
  case Nil
  then have "prefix q base" by (simp add: push_path_relative)
  with Nil.prems(3) show ?case by (meson prefix_order.less_le_not_le)
next
  case (Cons c cs)
  let ?b = "push_path base [c]"
  have r: "RootDir \<notin> set [c]" "RootDir \<notin> set cs" and b: "?b \<noteq> []" and bs: "prefix base ?b"
    using Cons.prems by (auto simp: push_path_relative)
  have eq: "push_path base (c # cs) = push_path ?b cs"
    using Cons.prems b r by (simp add: push_path_relative)
  have "prefix ?b (push_path ?b cs)" using b r by (simp add: push_path_relative)
  with Cons.prems(4) eq have "prefix q ?b \<or> prefix ?b q"
    by (metis prefix_same_cases)
  moreover have "q = ?b" if "prefix q ?b" "q \<noteq> ?b"
    using that Cons.prems(2,3) r
    by (cases "c = CurDir") (auto simp: push_path_relative strict_prefix_def prefix_snoc)
  ultimately consider "q = ?b" | "strict_prefix ?b q" by (auto simp: strict_prefix_def)
  then show ?case
    using Cons.IH [OF r(2) b] Cons.prems(4) eq by cases auto
qed

text \<open>The suffix that the ancestor walk collects consists of file names only.\<close>

definition names_only :: "path \<Rightarrow> bool" where
  "names_only p \<longleftrightarrow> (\<forall>c \<in> set p. \<exists>s. c = Normal s)"

lemma names_only_Cons:
  assumes "names_only sfx"
  shows "push_path [Normal n] sfx = Normal n # sfx"
  using assms by (cases sfx) (auto simp: push_path_def names_only_def filter_id_conv)

lemma names_only_simps [simp]:
  "names_only []" "names_only (c # p) \<longleftrightarrow> (\<exists>s. c = Normal s) \<and> names_only p"
  by (auto simp: names_only_def)

lemma names_only_noParent: "names_only p \<Longrightarrow> ParentDir \<notin> set p"
  by (auto simp: names_only_def)

lemma check_symlinks_error:
  "check_symlinks F partial cs = Inl e \<Longrightarrow>
     e \<in> {PathNotAllowed ''symlink not allowed in path'', PathNotAllowed ''cannot verify path component''}"
  by (induction cs arbitrary: partial) (auto simp: Let_def split: lstat.splits)

lemma ancestor_walk_no_traversal_error:
  assumes "names_only sfx"
  shows "ancestor_walk F fuel ancestor sfx \<noteq> Inl (PathNotAllowed ''path traversal via .. detected'')"
  using assms
proof (induction fuel arbitrary: ancestor sfx)
  case (Suc fuel)
  let ?s = "case file_name ancestor of Some name \<Rightarrow> push_path [Normal name] sfx | None \<Rightarrow> sfx"
  have "names_only ?s"
    using Suc.prems by (auto simp: names_only_Cons split: option.splits)
  with Suc.IH show ?case
    by (auto simp: Let_def attach_suffix_def bindR_eq_Inl names_only_noParent
        dest: check_symlinks_error split: option.splits)
qed simp

lemma ancestor_walk_Inr:
  assumes "ancestor_walk F fuel ancestor sfx = Inr p" and "names_only sfx"
  shows "\<exists>anc c names. canonicalize F anc = Some c \<and> names_only names \<and> p = push_path c names
     \<and> check_symlinks F c names = Inr ()"
  using assms
proof (induction fuel arbitrary: ancestor sfx)
  case (Suc fuel)
  let ?s = "case file_name ancestor of Some name \<Rightarrow> push_path [Normal name] sfx | None \<Rightarrow> sfx"
  have ns: "names_only ?s"
    using Suc.prems by (auto simp: names_only_Cons split: option.splits)
  obtain up where up: "parent ancestor = Some up"
    using Suc.prems(1) by (auto split: option.splits)
  show ?case
  proof (cases "canonicalize F up")
    case None
    with Suc.prems(1) up have "ancestor_walk F fuel up ?s = Inr p" by (simp add: Let_def)
    from Suc.IH [OF this ns] show ?thesis .
  next
    case (Some c)
    with Suc.prems(1) up have "attach_suffix F c ?s = Inr p" by (simp add: Let_def)
    with Some ns show ?thesis by (auto simp: attach_suffix_def split: if_splits)
  qed
qed simp

section \<open>Properties\<close>

text \<open>
  C31. A path that \<open>safe_join\<close> accepts stays below its base directory: it is the base followed
  by components none of which is \<open>..\<close> or a reserved device name, and no prefix of it below the
  base, itself included, was a symbolic link when it was examined.
\<close>

theorem safe_join_confined:
  assumes "safe_join F base_dir sub_path = Inr p" and "base_dir \<noteq> []"
  shows "\<exists>rest. p = base_dir @ rest \<and> ParentDir \<notin> set rest \<and> RootDir \<notin> set rest
     \<and> (\<forall>name. Normal name \<in> set rest \<longrightarrow> \<not> is_windows_reserved_name name \<and> NUL \<notin> set name)
     \<and> (\<forall>q. strict_prefix base_dir q \<and> prefix q p \<longrightarrow>
            symlink_metadata F q \<in> {NotSymlink, NotFound})"
proof -
  let ?cs = "components sub_path"
  from assms(1) have nn: "NUL \<notin> set sub_path" and rel: "\<not> prefix ''/'' sub_path"
    and lex: "check_components ?cs = Inr ()" and sym: "check_symlinks F base_dir ?cs = Inr ()"
    and p: "p = push_path base_dir ?cs"
    by (auto simp: safe_join_def starts_with_def split: if_splits)
  have root: "RootDir \<notin> set ?cs" by (rule components_relative [OF rel])
  have "NUL \<notin> set name" if "Normal name \<in> set ?cs" for name
    using that nn by (auto dest!: Normal_components_subset)
  moreover have "symlink_metadata F q \<in> {NotSymlink, NotFound}"
    if "strict_prefix base_dir q \<and> prefix q p" for q
    using prefixes_in_walk [OF root assms(2)] that sym p by (auto simp: check_symlinks_Inr)
  ultimately show ?thesis
    using p assms(2) root lex by (auto simp: push_path_relative check_components_Inr)
qed

text \<open>A file system in which every path exists as itself and nothing is a symbolic link.\<close>

definition plain_fs :: "unit fs" where
  "plain_fs = \<lparr> canonicalize = Some, symlink_metadata = (\<lambda>_. NotSymlink),
     open_no_follow = (\<lambda>_. Some ()), handle_is_symlink = (\<lambda>_. Some False),
     read_to_string = (\<lambda>_. Some []) \<rparr>"

lemma safe_join_plain_fs:
  "safe_join plain_fs [RootDir, Normal ''proj''] ''src/./main.rs''
     = Inr [RootDir, Normal ''proj'', Normal ''src'', Normal ''main.rs'']"
  by code_simp

theorem safe_join_confined_witness:
  "\<exists>rest. [RootDir, Normal ''proj'', Normal ''src'', Normal ''main.rs'']
       = [RootDir, Normal ''proj''] @ rest \<and> ParentDir \<notin> set rest"
  using safe_join_confined [OF safe_join_plain_fs] by auto

text \<open>
  C32. Every path that \<open>resolve_path\<close> returns lies below one of the allowed roots, has at most
  128 components, and is a canonical path of the file system extended by plain file names, none
  of which was a symbolic link when examined. So when canonical paths contain no \<open>..\<close>, neither
  does the result.
\<close>

theorem resolve_path_confined:
  assumes "resolve_path F ctx input = Inr p"
    and "\<And>q c. canonicalize F q = Some c \<Longrightarrow> c \<noteq> [] \<and> ParentDir \<notin> set c"
  shows "(\<exists>root \<in> set (allowed_roots ctx). prefix root p) \<and> length p \<le> 128 \<and> ParentDir \<notin> set p
    \<and> (\<exists>q c names. canonicalize F q = Some c \<and> names_only names \<and> p = c @ names
         \<and> (\<forall>r. strict_prefix c r \<and> prefix r p \<longrightarrow> symlink_metadata F r \<in> {NotSymlink, NotFound}))"
proof -
  have root: "\<exists>root \<in> set (allowed_roots ctx). prefix root p" and len: "length p \<le> 128"
    using assms(1) by (auto simp: resolve_path_def MAX_CANONICAL_DEPTH_def split: if_splits)
  have "\<exists>q c names. canonicalize F q = Some c \<and> names_only names \<and> p = push_path c names
     \<and> check_symlinks F c names = Inr ()"
  proof (cases "canonicalize F input")
    case (Some c)
    with assms have "p = push_path c []"
      by (auto simp: resolve_path_def push_path_def split: if_splits)
    with Some show ?thesis by (intro exI [of _ input] exI [of _ c] exI [of _ "[]"]) simp
  next
    case None
    with assms(1) have "ancestor_walk F MAX_ANCESTOR_DEPTH input [] = Inr p"
      by (auto simp: resolve_path_def split: if_splits)
    then show ?thesis by (rule ancestor_walk_Inr) simp
  qed
  then obtain q c names where q: "canonicalize F q = Some c" "names_only names"
    and p: "p = push_path c names" and s: "check_symlinks F c names = Inr ()" by blast
  from q assms(2) have c: "c \<noteq> []" "ParentDir \<notin> set c" by blast+
  have nr: "RootDir \<notin> set names" and f: "filter (\<lambda>x. x \<noteq> CurDir) names = names"
    using q(2) by (auto simp: names_only_def filter_id_conv)
  from p c nr f have pc: "p = c @ names" by (simp add: push_path_relative)
  have "symlink_metadata F r \<in> {NotSymlink, NotFound}" if "strict_prefix c r \<and> prefix r p" for r
    using prefixes_in_walk [OF nr c(1)] that s p by (auto simp: check_symlinks_Inr)
  with root len q pc c names_only_noParent [OF q(2)] show ?thesis by auto
qed

lemma resolve_plain_fs:
  "resolve_path plain_fs \<lparr> allowed_roots = [[RootDir, Normal ''w'']] \<rparr> [RootDir, Normal ''w'', Normal ''a'']
     = Inr [RootDir, Normal ''w'', Normal ''a'']"
  by code_simp

text \<open>A file system in which only \<open>/w\<close> exists.\<close>

definition sparse_fs :: "unit fs" where
  "sparse_fs = plain_fs \<lparr> canonicalize := (\<lambda>p. if p = [RootDir, Normal ''w''] then Some p else None),
     symlink_metadata := (\<lambda>_. NotFound) \<rparr>"

lemma resolve_sparse_fs:
  "resolve_path sparse_fs \<lparr> allowed_roots = [[RootDir, Normal ''w'']] \<rparr>
       [RootDir, Normal ''w'', Normal ''a'', Normal ''b'']
     = Inr [RootDir, Normal ''w'', Normal ''a'', Normal ''b'']"
  by code_simp

theorem resolve_path_confined_witness:
  "ParentDir \<notin> set [RootDir, Normal ''w'', Normal ''a'', Normal ''b'']
   \<and> (\<exists>root \<in> {[RootDir, Normal ''w'']}. prefix root [RootDir, Normal ''w'', Normal ''a'', Normal ''b''])"
  using resolve_path_confined [OF resolve_sparse_fs]
  by (auto simp: sparse_fs_def split: if_splits)

text \<open>
  The check for \<open>..\<close> in the unresolved suffix can never fire: the ancestor walk adds to the
  suffix only components that have a file name, and \<open>..\<close> has none, so a \<open>..\<close> below a missing
  directory is dropped instead of rejected.
\<close>

theorem resolve_path_traversal_check_unreachable:
  "resolve_path F ctx input \<noteq> Inl (PathNotAllowed ''path traversal via .. detected'')
   \<and> resolve_path sparse_fs \<lparr> allowed_roots = [[RootDir, Normal ''w'']] \<rparr>
       [RootDir, Normal ''w'', Normal ''x'', ParentDir, ParentDir, Normal ''etc'']
     = Inr [RootDir, Normal ''w'', Normal ''x'', Normal ''etc'']"
proof
  show "resolve_path F ctx input \<noteq> Inl (PathNotAllowed ''path traversal via .. detected'')"
    using ancestor_walk_no_traversal_error [of "[]" F MAX_ANCESTOR_DEPTH input]
    by (auto simp: resolve_path_def bindR_eq_Inl split: option.splits if_splits)
qed code_simp

end
