(* ===== verification/Registry_Data.thy ===== *)
theory Registry_Data
  imports Security
begin

text \<open>
  The records the registry stores and the state of its database
  (\<open>engram_core/src/registry.rs\<close>). The six tables are ordered maps from string keys to bytes.
  JSON encoding is done by \<open>serde_json\<close>, which is not part of the repository: a \<open>codec\<close> is a
  parameter of every operation that reads or writes JSON, and the properties that depend on it
  assume only that decoding an encoded value gives the value back (\<open>codecs_ok\<close>).
\<close>

section \<open>Records\<close>

record project_record =
  project_id :: string
  project_name :: string
  project_type :: string
  directory :: string
  project_created_at_ms :: u64
  project_updated_at_ms :: u64
  reindex_required_since_ms :: "u64 option"

record memory_section =
  section_id :: string
  section_title :: string
  section_content :: string
  section_updated_at_ms :: u64
  section_created_at_ms :: u64
  section_author :: "string option"
  section_kind :: "string option"
  review_after_ms :: "u64 option"
  section_tags :: "string list"
  related_files :: "string list"

record repo_rule =
  rule_id :: string
  file_pattern :: string
  rule_text :: string
  rule_priority :: "32 word"
  rule_updated_at_ms :: u64
  introduced_at :: "string option"
  provenance :: "string option"

record watch_record =
  watch_id :: string
  watch_directory :: string
  watch_enabled :: bool
  watch_updated_at_ms :: u64

record job_record =
  job_id :: string
  job_kind :: string
  job_project_id :: "string option"
  job_status :: string
  job_message :: string
  progress_pct :: "8 word"
  estimated_time_remaining_ms :: "u64 option"
  job_created_at_ms :: u64
  job_updated_at_ms :: u64

section \<open>Recovery requirements\<close>

datatype reindex_reason = Source | Vector | Unknown

text \<open>The reasons are ordered as the enum declares them.\<close>

fun reason_rank :: "reindex_reason \<Rightarrow> nat" where
  "reason_rank Source = 0" | "reason_rank Vector = 1" | "reason_rank Unknown = 2"

lemma reason_rank_inj: "reason_rank a = reason_rank b \<longleftrightarrow> a = b"
  by (cases a; cases b) simp_all

instantiation reindex_reason :: linorder
begin

definition less_eq_reindex_reason :: "reindex_reason \<Rightarrow> reindex_reason \<Rightarrow> bool" where
  "less_eq_reindex_reason a b \<longleftrightarrow> reason_rank a \<le> reason_rank b"

definition less_reindex_reason :: "reindex_reason \<Rightarrow> reindex_reason \<Rightarrow> bool" where
  "less_reindex_reason a b \<longleftrightarrow> reason_rank a < reason_rank b"

instance
  by standard (auto simp: less_eq_reindex_reason_def less_reindex_reason_def reason_rank_inj
      intro: reason_rank_inj [THEN iffD1])

end

record requirement =
  since_ms_of :: u64
  revision_of :: u64

record requirements =
  req_revision :: u64
  pending :: "(reindex_reason, requirement) fmap"

section \<open>Codecs\<close>

record 'a codec =
  to_vec :: "'a \<Rightarrow> bytes"
  from_slice :: "bytes \<Rightarrow> 'a option"

definition codec_ok :: "'a codec \<Rightarrow> bool" where
  "codec_ok c \<longleftrightarrow> (\<forall>x. from_slice c (to_vec c x) = Some x)"

definition decode :: "'a codec \<Rightarrow> bytes \<Rightarrow> 'a res" where
  "decode c bs = ok_or (from_slice c bs) JsonError"

lemma decode_Inr [simp]: "decode c bs = Inr x \<longleftrightarrow> from_slice c bs = Some x"
  by (simp add: decode_def)

lemma decode_to_vec [simp]: "codec_ok c \<Longrightarrow> decode c (to_vec c x) = Inr x"
  by (simp add: codec_ok_def)

record codecs =
  project_json :: "project_record codec"
  requirements_json :: "requirements codec"
  u64_json :: "u64 codec"
  memory_json :: "memory_section codec"
  watch_json :: "watch_record codec"
  job_json :: "job_record codec"

definition codecs_ok :: "codecs \<Rightarrow> bool" where
  "codecs_ok J \<longleftrightarrow> codec_ok (project_json J) \<and> codec_ok (requirements_json J) \<and> codec_ok (u64_json J)
     \<and> codec_ok (memory_json J) \<and> codec_ok (watch_json J) \<and> codec_ok (job_json J)"

lemma codecs_ok_roundtrip [simp]:
  assumes "codecs_ok J"
  shows "from_slice (project_json J) (to_vec (project_json J) p) = Some p"
    and "from_slice (requirements_json J) (to_vec (requirements_json J) r) = Some r"
    and "from_slice (u64_json J) (to_vec (u64_json J) n) = Some n"
    and "from_slice (memory_json J) (to_vec (memory_json J) m) = Some m"
    and "from_slice (watch_json J) (to_vec (watch_json J) w) = Some w"
    and "from_slice (job_json J) (to_vec (job_json J) j) = Some j"
  using assms by (simp_all add: codecs_ok_def codec_ok_def)

section \<open>The database\<close>

record db =
  projects :: table
  memory_bank :: table
  repo_rules :: table
  watches :: table
  jobs :: table
  meta :: table

definition empty_db :: db where
  "empty_db = \<lparr> projects = fmempty, memory_bank = fmempty, repo_rules = fmempty, watches = fmempty,
     jobs = fmempty, meta = fmempty \<rparr>"

text \<open>
  A registry call runs in one transaction. A failed call drops its transaction, so the state a
  caller sees afterwards is the one before; \<open>commit_or_drop\<close> is that state.
\<close>

type_synonym 'a tx = "db \<Rightarrow> ('a \<times> db) res"

definition commit_or_drop :: "'a tx \<Rightarrow> db \<Rightarrow> db" where
  "commit_or_drop op s = (case op s of Inl _ \<Rightarrow> s | Inr (_, s') \<Rightarrow> s')"

abbreviation put_meta :: "string \<Rightarrow> bytes \<Rightarrow> db \<Rightarrow> db" where
  "put_meta k v s \<equiv> s\<lparr>meta := fmupd k v (meta s)\<rparr>"

text \<open>\<open>vk\<close> and the composite key \<open>{project}\0{key}\<close>.\<close>

definition vk :: "string \<Rightarrow> string \<Rightarrow> unit res" where
  "vk name v = validate_key_component name v"

definition composite :: "string \<Rightarrow> string \<Rightarrow> string" where
  "composite project k = project @ NUL # k"

lemma vk_Inr [simp]: "vk n v = Inr u \<longleftrightarrow> key_ok v"
  by (simp add: vk_def)

lemma vk_ok [simp]: "key_ok v \<Longrightarrow> vk n v = Inr ()"
  by simp

text \<open>Composite keys of valid projects are equal only for the same project and the same key.\<close>

lemma composite_inj [simp]:
  assumes "key_ok p" "key_ok q"
  shows "composite p k = composite q l \<longleftrightarrow> p = q \<and> k = l"
  using assms by (simp add: composite_def sep_append_inj key_okD)

lemma composite_inj_key [simp]: "composite p k = composite p l \<longleftrightarrow> k = l"
  by (simp add: composite_def)

lemma composite_prefix [simp]:
  assumes "key_ok p" "key_ok q"
  shows "prefix (p @ [NUL]) (composite q l) \<longleftrightarrow> p = q"
  using assms by (simp add: composite_def sep_prefix_iff key_okD)

text \<open>\<open>t.get(project_id)?.map(serde_json::from_slice).transpose()?\<close> on the project table.\<close>

definition read_project :: "codecs \<Rightarrow> string \<Rightarrow> db \<Rightarrow> project_record option res" where
  "read_project J pid s = transposeR (decode (project_json J)) (fmlookup (projects s) pid)"

end
