(* ===== verification/Reindex.thy ===== *)
theory Reindex
  imports Registry_Data
begin

text \<open>
  Durable recovery reasons and their revision-checked settlement
  (\<open>engram_core/src/registry/reindex.rs\<close>). Each pending reason of a project carries a revision
  drawn from one database-wide sequence; a repair captures a token with that revision and can
  settle the reason only while the revision is unchanged.
\<close>

section \<open>The requirement set\<close>

definition REINDEX_KEY :: string where
  "REINDEX_KEY = ''reindex_requirements_v1''"

definition REVISION_SEQUENCE :: string where
  "REVISION_SEQUENCE = NUL # ''reindex_revision_sequence_v1''"

record reindex_token =
  tok_project_id :: string
  tok_reason :: reindex_reason
  tok_revision :: u64

definition requirements_default :: requirements where
  "requirements_default = \<lparr> req_revision = 0, pending = fmempty \<rparr>"

text \<open>\<open>values().map(since_ms).min()\<close>.\<close>

fun min_option :: "u64 list \<Rightarrow> u64 option" where
  "min_option [] = None"
| "min_option (x # xs) = Some (foldl min x xs)"

definition since_ms :: "requirements \<Rightarrow> u64 option" where
  "since_ms r = min_option (map (since_ms_of \<circ> snd) (iter (pending r)))"

definition legacy :: "u64 option \<Rightarrow> requirements" where
  "legacy since = (case since of
     None \<Rightarrow> requirements_default
   | Some ms \<Rightarrow> \<lparr> req_revision = 1,
       pending = fmupd Unknown \<lparr> since_ms_of = ms, revision_of = 1 \<rparr> fmempty \<rparr>)"

definition token :: "requirements \<Rightarrow> string \<Rightarrow> reindex_reason \<Rightarrow> reindex_token option" where
  "token r pid reason = map_option
     (\<lambda>q. \<lparr> tok_project_id = pid, tok_reason = reason, tok_revision = revision_of q \<rparr>)
     (fmlookup (pending r) reason)"

section \<open>Transaction steps\<close>

definition reindex_key :: "string \<Rightarrow> string" where
  "reindex_key pid = composite pid REINDEX_KEY"

definition read_requirements :: "codecs \<Rightarrow> string \<Rightarrow> db \<Rightarrow> requirements option res" where
  "read_requirements J pid s =
     transposeR (decode (requirements_json J)) (fmlookup (meta s) (reindex_key pid))"

definition next_revision :: "codecs \<Rightarrow> u64 \<Rightarrow> u64 tx" where
  "next_revision J flr s =
     bindR (transposeR (decode (u64_json J)) (fmlookup (meta s) REVISION_SEQUENCE)) (\<lambda>stored.
     bindR (ok_or (checked_add (max (case stored of None \<Rightarrow> 0 | Some v \<Rightarrow> v) flr) 1)
              (Bail ''Recovery requirement revision exhausted'')) (\<lambda>next.
     Inr (next, put_meta REVISION_SEQUENCE (to_vec (u64_json J) next) s)))"

definition requirements_for_project_write :: "codecs \<Rightarrow> project_record \<Rightarrow> requirements option tx" where
  "requirements_for_project_write J incoming s =
     bindR (read_requirements J (project_id incoming) s) (\<lambda>existing.
     case existing of Some r \<Rightarrow> Inr (Some r, s)
     | None \<Rightarrow>
         bindR (read_project J (project_id incoming) s) (\<lambda>current.
         case (case Option.bind current reindex_required_since_ms of
                 Some ms \<Rightarrow> Some ms | None \<Rightarrow> reindex_required_since_ms incoming) of
           None \<Rightarrow> Inr (None, s)
         | Some ms \<Rightarrow>
             bindR (next_revision J 1 s) (\<lambda>(rev, s1).
             let r = \<lparr> req_revision = rev,
                       pending = fmupd Unknown \<lparr> since_ms_of = ms, revision_of = rev \<rparr> fmempty \<rparr>
             in Inr (Some r, put_meta (reindex_key (project_id incoming))
                                (to_vec (requirements_json J) r) s1))))"

definition clear_pending_on_delete :: "codecs \<Rightarrow> string \<Rightarrow> unit tx" where
  "clear_pending_on_delete J pid s =
     bindR (read_project J pid s) (\<lambda>project.
     bindR (case project of
              Some p \<Rightarrow> requirements_for_project_write J p s
            | None \<Rightarrow> bindR (read_requirements J pid s) (\<lambda>r. Inr (r, s))) (\<lambda>(reqs, s1).
     case reqs of None \<Rightarrow> Inr ((), s1)
     | Some r \<Rightarrow>
         bindR (next_revision J (req_revision r) s1) (\<lambda>(rev, s2).
         Inr ((), put_meta (reindex_key pid)
           (to_vec (requirements_json J) (r\<lparr>req_revision := rev, pending := fmempty\<rparr>)) s2))))"

text \<open>Both representations become visible in the same commit.\<close>

definition write_requirements :: "codecs \<Rightarrow> project_record \<Rightarrow> requirements \<Rightarrow> db \<Rightarrow> db" where
  "write_requirements J project r s =
     (let project' = project\<lparr>reindex_required_since_ms := since_ms r\<rparr>
      in s\<lparr>meta := fmupd (reindex_key (project_id project)) (to_vec (requirements_json J) r) (meta s),
           projects := fmupd (project_id project) (to_vec (project_json J) project') (projects s)\<rparr>)"

section \<open>Registry operations\<close>

definition reindex_reasons :: "codecs \<Rightarrow> string \<Rightarrow> db \<Rightarrow> reindex_reason list res" where
  "reindex_reasons J pid s =
     bindR (vk ''project_id'' pid) (\<lambda>_.
     bindR (read_project J pid s) (\<lambda>project.
     case project of None \<Rightarrow> Inr []
     | Some p \<Rightarrow>
         bindR (read_requirements J pid s) (\<lambda>stored.
         let r = (case stored of Some r \<Rightarrow> r | None \<Rightarrow> legacy (reindex_required_since_ms p))
         in Inr (map fst (iter (pending r))))))"

definition record_reindex_requirement ::
  "codecs \<Rightarrow> string \<Rightarrow> reindex_reason \<Rightarrow> u64 \<Rightarrow> bool \<Rightarrow> (reindex_token \<times> bool) option tx" where
  "record_reindex_requirement J pid reason since only_if_absent s =
     bindR (vk ''project_id'' pid) (\<lambda>_.
     bindR (read_project J pid s) (\<lambda>project.
     case project of None \<Rightarrow> Inr (None, s)
     | Some p \<Rightarrow>
         bindR (requirements_for_project_write J p s) (\<lambda>(stored, s1).
         let r = (case stored of Some r \<Rightarrow> r | None \<Rightarrow> requirements_default)
         in case (if only_if_absent then token r pid reason else None) of
              Some t \<Rightarrow> Inr (Some (t, False), s1)
            | None \<Rightarrow>
                bindR (next_revision J (req_revision r) s1) (\<lambda>(rev, s2).
                let since' = (case fmlookup (pending r) reason of
                                None \<Rightarrow> since | Some q \<Rightarrow> min (since_ms_of q) since);
                    r' = r\<lparr>req_revision := rev,
                           pending := fmupd reason \<lparr> since_ms_of = since', revision_of = rev \<rparr> (pending r)\<rparr>;
                    p' = p\<lparr>project_updated_at_ms := max (project_updated_at_ms p) since'\<rparr>
                in Inr (map_option (\<lambda>t. (t, True)) (token r' pid reason),
                        write_requirements J p' r' s2)))))"

definition require_reindex ::
  "codecs \<Rightarrow> string \<Rightarrow> reindex_reason \<Rightarrow> u64 \<Rightarrow> reindex_token option tx" where
  "require_reindex J pid reason since s =
     bindR (record_reindex_requirement J pid reason since False s) (\<lambda>(r, s').
     Inr (map_option fst r, s'))"

definition begin_reindex_repair ::
  "codecs \<Rightarrow> string \<Rightarrow> reindex_reason \<Rightarrow> u64 \<Rightarrow> (reindex_token \<times> bool) option tx" where
  "begin_reindex_repair J pid reason since s = record_reindex_requirement J pid reason since True s"

definition reindex_requirement_token ::
  "codecs \<Rightarrow> string \<Rightarrow> reindex_reason \<Rightarrow> db \<Rightarrow> reindex_token option res" where
  "reindex_requirement_token J pid reason s =
     bindR (vk ''project_id'' pid) (\<lambda>_.
     bindR (read_project J pid s) (\<lambda>project.
     case project of None \<Rightarrow> Inr None
     | Some p \<Rightarrow>
         bindR (read_requirements J pid s) (\<lambda>stored.
         let r = (case stored of Some r \<Rightarrow> r | None \<Rightarrow> legacy (reindex_required_since_ms p))
         in Inr (token r pid reason))))"

definition settle_reindex_requirement :: "codecs \<Rightarrow> reindex_token \<Rightarrow> bool tx" where
  "settle_reindex_requirement J tok s =
     bindR (vk ''project_id'' (tok_project_id tok)) (\<lambda>_.
     bindR (read_project J (tok_project_id tok) s) (\<lambda>project.
     case project of None \<Rightarrow> Inr (False, s)
     | Some p \<Rightarrow>
         bindR (read_requirements J (tok_project_id tok) s) (\<lambda>stored.
         let r = (case stored of Some r \<Rightarrow> r | None \<Rightarrow> legacy (reindex_required_since_ms p))
         in if token r (tok_project_id tok) (tok_reason tok) \<noteq> Some tok then Inr (False, s)
            else Inr (True, write_requirements J p
                   (r\<lparr>pending := fmdrop (tok_reason tok) (pending r)\<rparr>) s))))"

definition dismiss_reindex_requirements :: "codecs \<Rightarrow> string \<Rightarrow> unit tx" where
  "dismiss_reindex_requirements J pid s =
     bindR (vk ''project_id'' pid) (\<lambda>_.
     bindR (read_project J pid s) (\<lambda>project.
     case project of None \<Rightarrow> Inr ((), s)
     | Some p \<Rightarrow>
         bindR (read_requirements J pid s) (\<lambda>stored.
         let r = (case stored of Some r \<Rightarrow> r | None \<Rightarrow> legacy (reindex_required_since_ms p))
         in if pending r = fmempty then Inr ((), s)
            else Inr ((), write_requirements J p (r\<lparr>pending := fmempty\<rparr>) s))))"

end
