(* ===== verification/Source_Head.thy ===== *)
theory Source_Head
  imports Reindex
begin

text \<open>
  Exact, lifecycle-aware publication of source generations
  (\<open>engram_core/src/registry/source_head.rs\<close>). The head of a project is its published source
  generation; a captured token records the raw head, its revision, the identity epoch and the
  project's source identity, and a publication succeeds only while all of them are unchanged.
  Recovery tokens and reservations repair a damaged head.
\<close>

section \<open>Metadata keys\<close>

definition REVISION :: string where "REVISION = ''source_head_revision_v1''"
definition HEAD :: string where "HEAD = ''active_generation''"
definition REQUIRED :: string where "REQUIRED = ''source_head_required_v1''"
definition MANAGED :: string where "MANAGED = ''source_snapshots_required_v1''"
definition LEGACY_ATTESTED :: string where "LEGACY_ATTESTED = ''source_legacy_absence_attested_v1''"
definition IDENTITY_VERIFIED :: string where "IDENTITY_VERIFIED = ''source_identity_verified_v1''"
definition IDENTITY_EPOCH :: string where "IDENTITY_EPOCH = ''source_identity_epoch_v1''"
definition RECOVERY_HEAD_BYTES :: nat where "RECOVERY_HEAD_BYTES = 4096"

lemmas source_keys = REVISION_def HEAD_def REQUIRED_def MANAGED_def LEGACY_ATTESTED_def
  IDENTITY_VERIFIED_def IDENTITY_EPOCH_def REINDEX_KEY_def

definition revision_key :: "string \<Rightarrow> string" where "revision_key p = composite p REVISION"
definition head_key :: "string \<Rightarrow> string" where "head_key p = composite p HEAD"
definition flag_key :: "string \<Rightarrow> string \<Rightarrow> string" where "flag_key p flag = composite p flag"

section \<open>Tokens\<close>

record recovery_metadata =
  rm_raw_head :: "bytes option"
  rm_required :: "bytes option"
  rm_verified :: "bytes option"
  rm_legacy_attested :: "bytes option"
  rm_managed :: "bytes option"
  rm_revision :: u64
  rm_identity_epoch :: u64

record recovery_token =
  rt_project_id :: string
  rt_metadata :: recovery_metadata
  rt_directory :: string
  rt_project_type :: string

record recovery_reservation =
  rr_base :: recovery_token
  rr_generation :: u64

record head_token =
  ht_project_id :: string
  ht_raw_head :: "string option"
  ht_managed :: "bytes option"
  ht_generation :: u64
  ht_revision :: u64
  ht_identity_epoch :: u64
  ht_directory :: string
  ht_project_type :: string

datatype snapshot_requirement = Managed | Unproven | AttestedLegacy | Unpublished

definition matches_source_identity :: "string \<Rightarrow> string \<Rightarrow> project_record \<Rightarrow> bool" where
  "matches_source_identity dir ty p \<longleftrightarrow> dir = directory p \<and> ty = project_type p"

section \<open>Reading the metadata\<close>

definition validate_managed :: "bytes option \<Rightarrow> unit res" where
  "validate_managed v = ensure (v = None \<or> v = Some ''1'')
     (Bail ''Invalid source snapshot requirement metadata'')"

definition check_presence :: "string option \<Rightarrow> bytes option \<Rightarrow> unit res" where
  "check_presence raw required = (case required of None \<Rightarrow> Inr ()
     | Some r \<Rightarrow>
         bindR (ensure (r = ''1'') (Bail ''Invalid source head presence metadata'')) (\<lambda>_.
         ensure (raw \<noteq> None) (Bail ''Authoritative source generation metadata is missing; source recovery is required'')))"

definition generation :: "string \<Rightarrow> string option \<Rightarrow> u64 res" where
  "generation pid raw = (case raw of None \<Rightarrow> Inr 1
     | Some v \<Rightarrow> ok_or (parse_u64 v) (Bail (''Invalid active_generation metadata for project '' @ [CHR 0x27] @ pid @ [CHR 0x27] @ ''; source generation cannot be determined'')))"

definition bounded_text :: "bytes \<Rightarrow> string res" where
  "bounded_text bs =
     bindR (ensure (length bs \<le> 20) (Bail ''Source head metadata exceeds read budget'')) (\<lambda>_.
     from_utf8 bs)"

definition revision :: "bytes \<Rightarrow> u64 res" where
  "revision bs =
     bindR (bounded_text bs) (\<lambda>t.
     bindR (ok_or (parse_u64 t) ParseIntError) (\<lambda>v.
     bindR (ensure (v \<noteq> 0) (Bail ''Invalid source head revision'')) (\<lambda>_. Inr v)))"

definition identity_verified :: "bytes option \<Rightarrow> bool res" where
  "identity_verified v =
     (if v = None \<or> v = Some ''0'' then Inr False
      else if v = Some ''1'' then Inr True
      else Inl (Bail ''Invalid source identity verification metadata''))"

text \<open>\<open>meta.get(key)?.map(|v| revision(v.value())).transpose()?\<close>\<close>

definition read_revision :: "string \<Rightarrow> db \<Rightarrow> u64 option res" where
  "read_revision k s = transposeR revision (fmlookup (meta s) k)"

definition read_head :: "string \<Rightarrow> db \<Rightarrow> string option res" where
  "read_head p s = transposeR bounded_text (fmlookup (meta s) (head_key p))"

section \<open>Advancing the revision and the epoch\<close>

definition mark_head_required :: "string \<Rightarrow> db \<Rightarrow> db" where
  "mark_head_required p s = put_meta (flag_key p REQUIRED) ''1'' s"

definition advance_revision :: "codecs \<Rightarrow> string \<Rightarrow> u64 tx" where
  "advance_revision J p s =
     bindR (read_revision (revision_key p) s) (\<lambda>previous.
     bindR (read_revision (flag_key p IDENTITY_EPOCH) s) (\<lambda>epoch.
     bindR (next_revision J (max (case previous of None \<Rightarrow> 0 | Some v \<Rightarrow> v)
                                 (case epoch of None \<Rightarrow> 0 | Some v \<Rightarrow> v)) s) (\<lambda>(next, s1).
     Inr (next, put_meta (revision_key p) (show_u64 next) s1))))"

definition mark_identity_unverified :: "codecs \<Rightarrow> string \<Rightarrow> u64 tx" where
  "mark_identity_unverified J p s =
     bindR (advance_revision J p s) (\<lambda>(epoch, s1).
     Inr (epoch, put_meta (flag_key p IDENTITY_VERIFIED) ''0''
                   (put_meta (flag_key p IDENTITY_EPOCH) (show_u64 epoch) s1)))"

section \<open>Recovery\<close>

text \<open>The bounded reader that \<open>recovery_metadata\<close> receives as a closure.\<close>

definition read_bounded :: "string \<Rightarrow> nat \<Rightarrow> db \<Rightarrow> bytes option res" where
  "read_bounded k limit s = transposeR
     (\<lambda>v. bindR (ensure (length v \<le> limit) (Bail ''Source recovery metadata exceeds read budget'')) (\<lambda>_. Inr v))
     (fmlookup (meta s) k)"

definition read_recovery_metadata :: "codecs \<Rightarrow> string \<Rightarrow> db \<Rightarrow> (recovery_metadata \<times> u64) res" where
  "read_recovery_metadata J p s =
     bindR (read_bounded (head_key p) RECOVERY_HEAD_BYTES s) (\<lambda>raw_head.
     bindR (read_bounded (flag_key p REQUIRED) 1 s) (\<lambda>required.
     bindR (ensure (required = None \<or> required = Some ''1'')
              (Bail ''Invalid source head presence metadata'')) (\<lambda>_.
     bindR (read_bounded (flag_key p IDENTITY_VERIFIED) 1 s) (\<lambda>verified.
     bindR (identity_verified verified) (\<lambda>_.
     bindR (read_bounded (flag_key p LEGACY_ATTESTED) 1 s) (\<lambda>legacy_attested.
     bindR (ensure (legacy_attested = None \<or> legacy_attested = Some ''1'')
              (Bail ''Invalid legacy source head attestation'')) (\<lambda>_.
     bindR (read_bounded (flag_key p MANAGED) 1 s) (\<lambda>managed.
     bindR (validate_managed managed) (\<lambda>_.
     bindR (bindR (read_bounded (revision_key p) 20 s)
              (\<lambda>v. ok_or v (Bail ''Source recovery requires an existing head revision''))) (\<lambda>rev_raw.
     bindR (revision rev_raw) (\<lambda>rev.
     bindR (bindR (read_bounded (flag_key p IDENTITY_EPOCH) 20 s)
              (\<lambda>v. ok_or v (Bail ''Source recovery requires an existing identity epoch''))) (\<lambda>epoch_raw.
     bindR (revision epoch_raw) (\<lambda>epoch.
     bindR (ensure (epoch \<le> rev) (Bail ''Source recovery identity epoch exceeds head revision'')) (\<lambda>_.
     bindR (bindR (read_bounded REVISION_SEQUENCE 20 s)
              (\<lambda>v. ok_or v (Bail ''Source recovery requires an existing durable revision allocator''))) (\<lambda>seq_raw.
     bindR (decode (u64_json J) seq_raw) (\<lambda>sequence.
     bindR (ensure (max rev epoch \<le> sequence)
              (Bail ''Source recovery revision allocator is behind source authority'')) (\<lambda>_.
     Inr (\<lparr> rm_raw_head = raw_head, rm_required = required, rm_verified = verified,
            rm_legacy_attested = legacy_attested, rm_managed = managed,
            rm_revision = rev, rm_identity_epoch = epoch \<rparr>, sequence))))))))))))))))))"

definition recovery_matches :: "codecs \<Rightarrow> recovery_token \<Rightarrow> db \<Rightarrow> u64 option res" where
  "recovery_matches J base s =
     bindR (read_project J (rt_project_id base) s) (\<lambda>project.
     case project of None \<Rightarrow> Inr None
     | Some p \<Rightarrow>
         if \<not> matches_source_identity (rt_directory base) (rt_project_type base) p then Inr None
         else bindR (read_recovery_metadata J (rt_project_id base) s) (\<lambda>(current, sequence).
              Inr (if current = rt_metadata base then Some sequence else None)))"

definition capture_source_recovery :: "codecs \<Rightarrow> string \<Rightarrow> db \<Rightarrow> recovery_token res" where
  "capture_source_recovery J pid s =
     bindR (vk ''project_id'' pid) (\<lambda>_.
     bindR (bindR (read_project J pid s) (\<lambda>p. ok_or p (Bail ''Source project is not registered''))) (\<lambda>project.
     bindR (read_recovery_metadata J pid s) (\<lambda>(metadata, _).
     bindR (case rm_raw_head metadata of
              None \<Rightarrow> ensure (rm_legacy_attested metadata = None \<or> rm_required metadata \<noteq> None
                              \<or> rm_managed metadata \<noteq> None)
                        (Bail ''An attested legacy source requires ordinary source publication'')
            | Some bs \<Rightarrow>
                (let parsed = bindR (bounded_text bs) (\<lambda>v. generation pid (Some v))
                 in ensure ((\<exists>e. parsed = Inl e) \<or> (rm_managed metadata \<noteq> None \<and> parsed = Inr 0))
                      (Bail ''Healthy source heads require ordinary source publication''))) (\<lambda>_.
     Inr \<lparr> rt_project_id = pid, rt_metadata = metadata,
           rt_directory = directory project, rt_project_type = project_type project \<rparr>))))"

definition reserve_source_recovery ::
  "codecs \<Rightarrow> recovery_token \<Rightarrow> u64 \<Rightarrow> recovery_reservation option tx" where
  "reserve_source_recovery J base observed_floor s =
     bindR (recovery_matches J base s) (\<lambda>matched.
     case matched of None \<Rightarrow> Inr (None, s)
     | Some sequence \<Rightarrow>
         (let numeric_head = (case Option.bind (rm_raw_head (rt_metadata base))
                                (\<lambda>bs. if utf8_valid bs then parse_u64 bs else None) of
                                None \<Rightarrow> 0 | Some v \<Rightarrow> v);
              flr = max (max sequence observed_floor) numeric_head
          in bindR (ensure (flr < U64_MAX - 1)
                      (Bail ''Source recovery generation allocation exhausted'')) (\<lambda>_.
             bindR (next_revision J flr s) (\<lambda>(gen, s1).
             Inr (Some \<lparr> rr_base = base, rr_generation = gen \<rparr>, s1)))))"

definition publish_source_recovery :: "codecs \<Rightarrow> recovery_reservation \<Rightarrow> bool tx" where
  "publish_source_recovery J reservation s =
     (let base = rr_base reservation; pid = rt_project_id base
      in bindR (recovery_matches J base s) (\<lambda>matched.
         case matched of None \<Rightarrow> Inr (False, s)
         | Some sequence \<Rightarrow>
             bindR (ensure (rr_generation reservation \<le> sequence)
                      (Bail ''Source recovery revision allocator lost its durable reservation'')) (\<lambda>_.
             bindR (advance_revision J pid s) (\<lambda>(_, s1).
             Inr (True,
               put_meta (head_key pid) (show_u64 (rr_generation reservation))
                 (put_meta (flag_key pid IDENTITY_VERIFIED) ''1''
                   (put_meta (flag_key pid MANAGED) ''1'' (mark_head_required pid s1))))))))"

section \<open>Registration and plain reads\<close>

definition register_source_project :: "codecs \<Rightarrow> project_record \<Rightarrow> unit tx" where
  "register_source_project J project s =
     (let pid = project_id project
      in bindR (vk ''project_id'' pid) (\<lambda>_.
         bindR (ensure (fmlookup (projects s) pid = None)
                  (Bail ''Source project is already registered'')) (\<lambda>_.
         let s1 = s\<lparr>projects := fmupd pid (to_vec (project_json J) project) (projects s)\<rparr>;
             s2 = put_meta (head_key pid) ''0'' s1
         in bindR (advance_revision J pid s2) (\<lambda>(_, s3).
            bindR (mark_identity_unverified J pid (mark_head_required pid s3)) (\<lambda>(_, s4).
            Inr ((), s4))))))"

definition source_generation_metadata :: "string \<Rightarrow> db \<Rightarrow> u64 option res" where
  "source_generation_metadata pid s =
     bindR (vk ''project_id'' pid) (\<lambda>_.
     bindR (read_head pid s) (\<lambda>raw.
     bindR (check_presence raw (fmlookup (meta s) (flag_key pid REQUIRED))) (\<lambda>_.
     let managed = fmlookup (meta s) (flag_key pid MANAGED) in
     bindR (validate_managed managed) (\<lambda>_.
     bindR (ensure (managed = None \<or> raw \<noteq> None)
              (Bail ''Managed source head metadata is missing; explicit full source recovery required'')) (\<lambda>_.
     bindR (if managed = None then Inr () else
              bindR (generation pid raw) (\<lambda>g.
              ensure (g \<noteq> 0) (Bail ''Managed source head is contradictory zero; explicit source recovery required''))) (\<lambda>_.
     case raw of None \<Rightarrow> Inr None
     | Some v \<Rightarrow> bindR (generation pid (Some v)) (\<lambda>g. Inr (Some g))))))))"

definition source_snapshot_requirement :: "string \<Rightarrow> db \<Rightarrow> (u64 \<times> snapshot_requirement) res" where
  "source_snapshot_requirement pid s =
     bindR (vk ''project_id'' pid) (\<lambda>_.
     bindR (ensure (fmlookup (projects s) pid \<noteq> None) (Bail ''Source project is not registered'')) (\<lambda>_.
     bindR (read_head pid s) (\<lambda>raw.
     let required = fmlookup (meta s) (flag_key pid REQUIRED);
         managed = fmlookup (meta s) (flag_key pid MANAGED);
         legacy = fmlookup (meta s) (flag_key pid LEGACY_ATTESTED) in
     bindR (check_presence raw required) (\<lambda>_.
     bindR (validate_managed managed) (\<lambda>_.
     bindR (ensure (managed = None \<or> raw \<noteq> None)
              (Bail ''Managed source head metadata is missing; explicit full source recovery required'')) (\<lambda>_.
     bindR (ensure (legacy = None \<or> legacy = Some ''1'')
              (Bail ''Invalid legacy source head attestation'')) (\<lambda>_.
     bindR (generation pid raw) (\<lambda>gen.
     bindR (ensure (managed = None \<or> gen \<noteq> 0)
              (Bail ''Managed source head is contradictory zero; explicit source recovery required'')) (\<lambda>_.
     Inr (gen,
       if managed \<noteq> None then Managed
       else if gen = 0 then Unpublished
       else if raw = None \<and> required = None \<and> legacy \<noteq> None then AttestedLegacy
       else Unproven))))))))))"

definition active_source_generation :: "string \<Rightarrow> db \<Rightarrow> u64 res" where
  "active_source_generation pid s =
     bindR (source_generation_metadata pid s) (\<lambda>g. Inr (case g of None \<Rightarrow> 1 | Some v \<Rightarrow> v))"

section \<open>Capturing the head\<close>

text \<open>
  Capture first reads in a snapshot and returns when revision and epoch exist. Otherwise a write
  transaction, which other callers may precede, re-reads everything and allocates what is
  missing. The two transactions are separate definitions.
\<close>

definition capture_read :: "codecs \<Rightarrow> string \<Rightarrow> db \<Rightarrow> head_token option res" where
  "capture_read J pid s =
     bindR (vk ''project_id'' pid) (\<lambda>_.
     bindR (bindR (read_project J pid s) (\<lambda>p. ok_or p (Bail ''Source project is not registered''))) (\<lambda>project.
     bindR (read_head pid s) (\<lambda>raw_head.
     bindR (generation pid raw_head) (\<lambda>gen.
     bindR (check_presence raw_head (fmlookup (meta s) (flag_key pid REQUIRED))) (\<lambda>_.
     let managed = fmlookup (meta s) (flag_key pid MANAGED) in
     bindR (validate_managed managed) (\<lambda>_.
     bindR (ensure (managed = None \<or> raw_head \<noteq> None)
              (Bail ''Managed source head metadata is missing; explicit full source recovery required'')) (\<lambda>_.
     bindR (ensure (managed = None \<or> gen \<noteq> 0)
              (Bail ''Managed source head is contradictory zero; explicit source recovery required'')) (\<lambda>_.
     bindR (read_revision (flag_key pid IDENTITY_EPOCH) s) (\<lambda>epoch.
     bindR (read_revision (revision_key pid) s) (\<lambda>rev.
     Inr (case (rev, epoch) of
            (Some r, Some e) \<Rightarrow> Some \<lparr> ht_project_id = pid, ht_raw_head = raw_head, ht_managed = managed,
              ht_generation = gen, ht_revision = r, ht_identity_epoch = e,
              ht_directory = directory project, ht_project_type = project_type project \<rparr>
          | _ \<Rightarrow> None)))))))))))"

definition capture_write :: "codecs \<Rightarrow> string \<Rightarrow> head_token tx" where
  "capture_write J pid s =
     bindR (bindR (read_project J pid s) (\<lambda>p. ok_or p (Bail ''Source project is not registered''))) (\<lambda>project.
     bindR (read_head pid s) (\<lambda>raw_head.
     bindR (check_presence raw_head (fmlookup (meta s) (flag_key pid REQUIRED))) (\<lambda>_.
     let managed = fmlookup (meta s) (flag_key pid MANAGED) in
     bindR (validate_managed managed) (\<lambda>_.
     bindR (ensure (managed = None \<or> raw_head \<noteq> None)
              (Bail ''Managed source head metadata is missing; explicit full source recovery required'')) (\<lambda>_.
     bindR (read_revision (revision_key pid) s) (\<lambda>existing_revision.
     bindR (read_revision (flag_key pid IDENTITY_EPOCH) s) (\<lambda>existing_epoch.
     bindR (generation pid raw_head) (\<lambda>gen.
     bindR (ensure (managed = None \<or> gen \<noteq> 0)
              (Bail ''Managed source head is contradictory zero; explicit source recovery required'')) (\<lambda>_.
     bindR (case existing_revision of Some r \<Rightarrow> Inr (r, s) | None \<Rightarrow> advance_revision J pid s) (\<lambda>(rev, s1).
     bindR (case existing_epoch of Some e \<Rightarrow> Inr ((rev, e), s1)
            | None \<Rightarrow> bindR (mark_identity_unverified J pid s1) (\<lambda>(e, s2). Inr ((e, e), s2)))
       (\<lambda>((rev', epoch), s3).
     Inr (\<lparr> ht_project_id = pid, ht_raw_head = raw_head, ht_managed = managed,
            ht_generation = gen, ht_revision = rev', ht_identity_epoch = epoch,
            ht_directory = directory project, ht_project_type = project_type project \<rparr>, s3))))))))))))"

definition capture_source_head :: "codecs \<Rightarrow> string \<Rightarrow> head_token tx" where
  "capture_source_head J pid s =
     bindR (capture_read J pid s) (\<lambda>r.
     case r of Some t \<Rightarrow> Inr (t, s) | None \<Rightarrow> capture_write J pid s)"

section \<open>Attestation and verification state\<close>

definition source_stat_cache_state :: "string \<Rightarrow> db \<Rightarrow> (bool \<times> u64 option) res" where
  "source_stat_cache_state pid s =
     bindR (vk ''project_id'' pid) (\<lambda>_.
     bindR (read_revision (flag_key pid IDENTITY_EPOCH) s) (\<lambda>epoch.
     bindR (identity_verified (fmlookup (meta s) (flag_key pid IDENTITY_VERIFIED))) (\<lambda>v.
     Inr (\<not> v, epoch))))"

definition source_identity_needs_verification :: "string \<Rightarrow> db \<Rightarrow> bool res" where
  "source_identity_needs_verification pid s =
     bindR (source_stat_cache_state pid s) (\<lambda>(needs, _). Inr needs)"

definition source_identity_epoch :: "string \<Rightarrow> db \<Rightarrow> u64 option res" where
  "source_identity_epoch pid s =
     bindR (vk ''project_id'' pid) (\<lambda>_. read_revision (flag_key pid IDENTITY_EPOCH) s)"

definition source_head_is_current :: "codecs \<Rightarrow> head_token \<Rightarrow> db \<Rightarrow> bool res" where
  "source_head_is_current J base s =
     (let pid = ht_project_id base
      in bindR (read_project J pid s) (\<lambda>project.
         case project of None \<Rightarrow> Inr False
         | Some p \<Rightarrow>
             if \<not> matches_source_identity (ht_directory base) (ht_project_type base) p then Inr False
             else bindR (read_revision (revision_key pid) s) (\<lambda>rev.
                  if rev \<noteq> Some (ht_revision base) then Inr False
                  else bindR (read_revision (flag_key pid IDENTITY_EPOCH) s) (\<lambda>epoch.
                       Inr (epoch = Some (ht_identity_epoch base)
                            \<and> fmlookup (meta s) (head_key pid) = ht_raw_head base
                            \<and> fmlookup (meta s) (flag_key pid MANAGED) = ht_managed base)))))"

text \<open>
  The check that \<open>attest_unchanged_source_identity\<close> makes once on a snapshot and again in its
  write transaction: \<open>Some b\<close> returns \<open>b\<close>, \<open>None\<close> goes on.
\<close>

definition attest_check :: "codecs \<Rightarrow> head_token \<Rightarrow> db \<Rightarrow> bool option res" where
  "attest_check J base s =
     (let pid = ht_project_id base
      in bindR (read_project J pid s) (\<lambda>project.
         case project of None \<Rightarrow> Inr (Some False)
         | Some p \<Rightarrow>
             if \<not> matches_source_identity (ht_directory base) (ht_project_type base) p then Inr (Some False)
             else bindR (read_revision (revision_key pid) s) (\<lambda>rev.
                  bindR (read_revision (flag_key pid IDENTITY_EPOCH) s) (\<lambda>epoch.
                  if epoch \<noteq> Some (ht_identity_epoch base) \<or> rev \<noteq> Some (ht_revision base)
                     \<or> fmlookup (meta s) (flag_key pid MANAGED) \<noteq> ht_managed base
                     \<or> fmlookup (meta s) (head_key pid) \<noteq> ht_raw_head base
                  then Inr (Some False)
                  else bindR (identity_verified (fmlookup (meta s) (flag_key pid IDENTITY_VERIFIED))) (\<lambda>v.
                       Inr (if v then Some True else None))))))"

definition attest_unchanged_write :: "codecs \<Rightarrow> head_token \<Rightarrow> bool tx" where
  "attest_unchanged_write J base s =
     bindR (attest_check J base s) (\<lambda>r. case r of Some b \<Rightarrow> Inr (b, s)
     | None \<Rightarrow>
         bindR (advance_revision J (ht_project_id base) s) (\<lambda>(_, s1).
         Inr (True, put_meta (flag_key (ht_project_id base) IDENTITY_VERIFIED) ''1'' s1)))"

definition attest_unchanged_source_identity :: "codecs \<Rightarrow> head_token \<Rightarrow> bool tx" where
  "attest_unchanged_source_identity J base s =
     bindR (attest_check J base s) (\<lambda>r. case r of Some b \<Rightarrow> Inr (b, s)
     | None \<Rightarrow> attest_unchanged_write J base s)"

definition attest_legacy_source_head :: "codecs \<Rightarrow> head_token \<Rightarrow> bool tx" where
  "attest_legacy_source_head J base s =
     (let pid = ht_project_id base
      in bindR (ensure (ht_raw_head base = None)
                  (Bail ''Legacy absence attestation needs an absent head'')) (\<lambda>_.
         bindR (read_project J pid s) (\<lambda>project.
         case project of None \<Rightarrow> Inr (False, s)
         | Some p \<Rightarrow>
             if \<not> matches_source_identity (ht_directory base) (ht_project_type base) p then Inr (False, s)
             else bindR (read_revision (flag_key pid IDENTITY_EPOCH) s) (\<lambda>epoch.
                  if epoch \<noteq> Some (ht_identity_epoch base)
                     \<or> fmlookup (meta s) (flag_key pid MANAGED) \<noteq> ht_managed base
                     \<or> ht_managed base \<noteq> None
                     \<or> fmlookup (meta s) (head_key pid) \<noteq> None
                     \<or> fmlookup (meta s) (flag_key pid REQUIRED) \<noteq> None
                  then Inr (False, s)
                  else bindR (read_revision (revision_key pid) s) (\<lambda>rev.
                       if rev \<noteq> Some (ht_revision base) then Inr (False, s)
                       else case fmlookup (meta s) (flag_key pid LEGACY_ATTESTED) of
                              Some flag \<Rightarrow>
                                bindR (ensure (flag = ''1'') (Bail ''Invalid legacy source head attestation'')) (\<lambda>_.
                                Inr (True, s))
                            | None \<Rightarrow> Inr (True, put_meta (flag_key pid LEGACY_ATTESTED) ''1'' s))))))"

section \<open>Publication\<close>

definition publish_source_head :: "codecs \<Rightarrow> head_token \<Rightarrow> u64 \<Rightarrow> bool tx" where
  "publish_source_head J base next s =
     (let pid = ht_project_id base
      in bindR (ensure (ht_generation base < next)
                  (Bail ''Source generation must advance its base'')) (\<lambda>_.
         bindR (read_project J pid s) (\<lambda>project.
         case project of None \<Rightarrow> Inr (False, s)
         | Some p \<Rightarrow>
             if \<not> matches_source_identity (ht_directory base) (ht_project_type base) p then Inr (False, s)
             else bindR (read_revision (revision_key pid) s) (\<lambda>current_revision.
                  bindR (read_revision (flag_key pid IDENTITY_EPOCH) s) (\<lambda>epoch.
                  if epoch \<noteq> Some (ht_identity_epoch base)
                     \<or> current_revision \<noteq> Some (ht_revision base)
                     \<or> fmlookup (meta s) (flag_key pid MANAGED) \<noteq> ht_managed base
                     \<or> fmlookup (meta s) (head_key pid) \<noteq> ht_raw_head base
                  then Inr (False, s)
                  else bindR (advance_revision J pid s) (\<lambda>(_, s1).
                       Inr (True,
                         put_meta (head_key pid) (show_u64 next)
                           (put_meta (flag_key pid IDENTITY_VERIFIED) ''1''
                             (put_meta (flag_key pid MANAGED) ''1'' (mark_head_required pid s1))))))))))"

end
