(* ===== verification/Registry.thy ===== *)
theory Registry
  imports Source_Head
begin

text \<open>
  The registry's operations on projects, the memory bank, watches, jobs and metadata
  (\<open>engram_core/src/registry.rs\<close>). Every operation is one transaction, except
  \<open>cleanup_orphaned_jobs\<close>, whose read preflight and write transaction are two definitions.
\<close>

section \<open>Projects\<close>

definition put_project :: "codecs \<Rightarrow> project_record \<Rightarrow> unit tx" where
  "put_project J rec s =
     (let pid = project_id rec
      in bindR (vk ''project_id'' pid) (\<lambda>_.
         bindR (read_project J pid s) (\<lambda>previous.
         let changes_source_identity = (case previous of None \<Rightarrow> True
               | Some old \<Rightarrow> directory old \<noteq> directory rec \<or> project_type old \<noteq> project_type rec)
         in bindR (if changes_source_identity
                   then bindR (advance_revision J pid s) (\<lambda>(_, s1).
                        bindR (mark_identity_unverified J pid s1) (\<lambda>(_, s2). Inr ((), s2)))
                   else Inr ((), s)) (\<lambda>(_, s3).
            bindR (requirements_for_project_write J rec s3) (\<lambda>(reqs, s4).
            let rec' = (case reqs of None \<Rightarrow> rec
                        | Some r \<Rightarrow> rec\<lparr>reindex_required_since_ms := since_ms r\<rparr>)
            in Inr ((), s4\<lparr>projects := fmupd pid (to_vec (project_json J) rec') (projects s4)\<rparr>))))))"

definition get_project :: "codecs \<Rightarrow> string \<Rightarrow> db \<Rightarrow> project_record option res" where
  "get_project J pid s = bindR (vk ''project_id'' pid) (\<lambda>_. read_project J pid s)"

definition set_reindex_required :: "codecs \<Rightarrow> string \<Rightarrow> u64 \<Rightarrow> unit tx" where
  "set_reindex_required J pid since s =
     bindR (require_reindex J pid Unknown since s) (\<lambda>(_, s'). Inr ((), s'))"

definition clear_reindex_required :: "codecs \<Rightarrow> string \<Rightarrow> unit tx" where
  "clear_reindex_required J pid s = dismiss_reindex_requirements J pid s"

definition list_projects :: "codecs \<Rightarrow> db \<Rightarrow> project_record list res" where
  "list_projects J s =
     bindR (traverseR (decode (project_json J)) (map snd (iter (projects s)))) (\<lambda>out.
     Inr (sort_key project_name out))"

definition delete_project :: "codecs \<Rightarrow> string \<Rightarrow> unit tx" where
  "delete_project J pid s =
     bindR (vk ''project_id'' pid) (\<lambda>_.
     bindR (clear_pending_on_delete J pid s) (\<lambda>(_, s1).
     Inr ((), s1\<lparr>projects := fmdrop pid (projects s1)\<rparr>)))"

text \<open>The loop shared by four tables: collect the keys under the prefix, then remove them.\<close>

definition remove_prefix :: "string \<Rightarrow> table \<Rightarrow> table" where
  "remove_prefix p t = remove_keys (map fst (prefix_scan p t)) t"

definition delete_all_for_project :: "codecs \<Rightarrow> string \<Rightarrow> unit tx" where
  "delete_all_for_project J pid s =
     bindR (vk ''project_id'' pid) (\<lambda>_.
     let p = pid @ [NUL] in
     bindR (clear_pending_on_delete J pid s) (\<lambda>(_, s1).
     let s2 = s1\<lparr>projects := fmdrop pid (projects s1),
                 memory_bank := remove_prefix p (memory_bank s1),
                 repo_rules := remove_prefix p (repo_rules s1),
                 watches := remove_prefix p (watches s1)\<rparr> in
     bindR (traverseR (\<lambda>(k, v). bindR (decode (job_json J) v) (\<lambda>j. Inr (k, j))) (iter (jobs s2))) (\<lambda>rows.
     let job_ids = map fst (filter (\<lambda>(k, j). job_project_id j = Some pid) rows) in
     Inr ((), s2\<lparr>jobs := remove_keys job_ids (jobs s2), meta := remove_prefix p (meta s2)\<rparr>))))"

section \<open>Memory bank\<close>

definition put_memory_section :: "codecs \<Rightarrow> string \<Rightarrow> memory_section \<Rightarrow> unit tx" where
  "put_memory_section J pid sec s =
     bindR (vk ''project_id'' pid) (\<lambda>_.
     bindR (vk ''section_id'' (section_id sec)) (\<lambda>_.
     Inr ((), s\<lparr>memory_bank := fmupd (composite pid (section_id sec)) (to_vec (memory_json J) sec)
                                 (memory_bank s)\<rparr>)))"

definition list_memory_sections :: "codecs \<Rightarrow> string \<Rightarrow> db \<Rightarrow> memory_section list res" where
  "list_memory_sections J pid s =
     bindR (vk ''project_id'' pid) (\<lambda>_.
     bindR (traverseR (decode (memory_json J)) (map snd (prefix_scan (pid @ [NUL]) (memory_bank s)))) (\<lambda>out.
     Inr (sort_key section_title out)))"

definition get_memory_section :: "codecs \<Rightarrow> string \<Rightarrow> string \<Rightarrow> db \<Rightarrow> memory_section option res" where
  "get_memory_section J pid sid s =
     bindR (vk ''project_id'' pid) (\<lambda>_.
     bindR (vk ''section_id'' sid) (\<lambda>_.
     transposeR (decode (memory_json J)) (fmlookup (memory_bank s) (composite pid sid))))"

definition delete_memory_section :: "string \<Rightarrow> string \<Rightarrow> unit tx" where
  "delete_memory_section pid sid s =
     bindR (vk ''project_id'' pid) (\<lambda>_.
     bindR (vk ''section_id'' sid) (\<lambda>_.
     Inr ((), s\<lparr>memory_bank := fmdrop (composite pid sid) (memory_bank s)\<rparr>)))"

section \<open>Watches\<close>

definition put_watch :: "codecs \<Rightarrow> string \<Rightarrow> watch_record \<Rightarrow> unit tx" where
  "put_watch J pid w s =
     bindR (vk ''project_id'' pid) (\<lambda>_.
     bindR (vk ''watch_id'' (watch_id w)) (\<lambda>_.
     Inr ((), s\<lparr>watches := fmupd (composite pid (watch_id w)) (to_vec (watch_json J) w) (watches s)\<rparr>)))"

definition list_watches :: "codecs \<Rightarrow> string \<Rightarrow> db \<Rightarrow> watch_record list res" where
  "list_watches J pid s =
     bindR (vk ''project_id'' pid) (\<lambda>_.
     traverseR (decode (watch_json J)) (map snd (prefix_scan (pid @ [NUL]) (watches s))))"

section \<open>Jobs\<close>

definition put_job :: "codecs \<Rightarrow> job_record \<Rightarrow> unit tx" where
  "put_job J j s =
     bindR (vk ''job_id'' (job_id j)) (\<lambda>_.
     Inr ((), s\<lparr>jobs := fmupd (job_id j) (to_vec (job_json J) j) (jobs s)\<rparr>))"

definition get_job :: "codecs \<Rightarrow> string \<Rightarrow> db \<Rightarrow> job_record option res" where
  "get_job J jid s =
     bindR (vk ''job_id'' jid) (\<lambda>_. transposeR (decode (job_json J)) (fmlookup (jobs s) jid))"

text \<open>Most recently updated first; rows with equal times keep the key order.\<close>

definition list_jobs :: "codecs \<Rightarrow> string option \<Rightarrow> db \<Rightarrow> job_record list res" where
  "list_jobs J pid s =
     bindR (case pid of None \<Rightarrow> Inr () | Some p \<Rightarrow> vk ''project_id'' p) (\<lambda>_.
     bindR (traverseR (decode (job_json J)) (map snd (iter (jobs s)))) (\<lambda>rows.
     Inr (sort_key (\<lambda>j. - int (unat (job_updated_at_ms j)))
            (filter (\<lambda>j. pid = None \<or> job_project_id j = pid) rows))))"

definition delete_job :: "string \<Rightarrow> unit tx" where
  "delete_job jid s =
     bindR (vk ''job_id'' jid) (\<lambda>_. Inr ((), s\<lparr>jobs := fmdrop jid (jobs s)\<rparr>))"

definition RUNNING :: string where "RUNNING = ''running''"
definition ABORTED :: string where "ABORTED = ''aborted''"

definition abort_job :: "u64 \<Rightarrow> job_record \<Rightarrow> job_record" where
  "abort_job now j = j\<lparr>job_status := ABORTED,
     job_message := ''Job aborted due to system restart.'', job_updated_at_ms := now\<rparr>"

definition has_orphans :: "codecs \<Rightarrow> db \<Rightarrow> bool res" where
  "has_orphans J s =
     bindR (traverseR (decode (job_json J)) (map snd (iter (jobs s)))) (\<lambda>rows.
     Inr (\<exists>j \<in> set rows. job_status j = RUNNING))"

text \<open>\<open>clock k\<close> is the reading of the system clock taken for row \<open>k\<close>, \<open>None\<close> if it precedes 1970.\<close>

fun collect_orphans ::
  "codecs \<Rightarrow> (string \<Rightarrow> u64 option) \<Rightarrow> (string \<times> bytes) list \<Rightarrow> (string \<times> job_record) list res" where
  "collect_orphans J clock [] = Inr []"
| "collect_orphans J clock ((k, v) # rows) =
     bindR (decode (job_json J) v) (\<lambda>j.
     if job_status j = RUNNING
     then bindR (ok_or (clock k) (Bail ''system time before the epoch'')) (\<lambda>now.
          bindR (collect_orphans J clock rows) (\<lambda>rest. Inr ((k, abort_job now j) # rest)))
     else collect_orphans J clock rows)"

definition cleanup_write :: "codecs \<Rightarrow> (string \<Rightarrow> u64 option) \<Rightarrow> nat tx" where
  "cleanup_write J clock s =
     bindR (collect_orphans J clock (iter (jobs s))) (\<lambda>to_update.
     Inr (length to_update,
          s\<lparr>jobs := fold (\<lambda>(k, j) t. fmupd k (to_vec (job_json J) j) t) to_update (jobs s)\<rparr>))"

definition cleanup_orphaned_jobs :: "codecs \<Rightarrow> (string \<Rightarrow> u64 option) \<Rightarrow> nat tx" where
  "cleanup_orphaned_jobs J clock s =
     bindR (has_orphans J s) (\<lambda>found.
     if \<not> found then Inr (0, s) else cleanup_write J clock s)"

section \<open>Metadata\<close>

definition GLOBAL :: string where "GLOBAL = ''__global__''"

definition set_global_flag :: "string \<Rightarrow> string \<Rightarrow> unit tx" where
  "set_global_flag key v s =
     bindR (vk ''key'' key) (\<lambda>_. Inr ((), put_meta (composite GLOBAL key) v s))"

definition get_global_flag :: "string \<Rightarrow> db \<Rightarrow> string option res" where
  "get_global_flag key s =
     bindR (vk ''key'' key) (\<lambda>_. transposeR from_utf8 (fmlookup (meta s) (composite GLOBAL key)))"

definition ADP_KILL_SWITCH :: string where "ADP_KILL_SWITCH = ''adp_kill_switch''"

definition set_adp_kill_switch :: "bool \<Rightarrow> unit tx" where
  "set_adp_kill_switch enabled s =
     set_global_flag ADP_KILL_SWITCH (if enabled then ''true'' else ''false'') s"

definition get_adp_kill_switch :: "db \<Rightarrow> bool res" where
  "get_adp_kill_switch s =
     bindR (get_global_flag ADP_KILL_SWITCH s) (\<lambda>v. Inr (v = Some ''true''))"

definition set_meta :: "codecs \<Rightarrow> string \<Rightarrow> string \<Rightarrow> string \<Rightarrow> unit tx" where
  "set_meta J pid key v s =
     bindR (vk ''project_id'' pid) (\<lambda>_.
     bindR (vk ''key'' key) (\<lambda>_.
     let k = composite pid key in
     bindR (if key = HEAD \<and> fmlookup (meta s) k \<noteq> Some v
            then bindR (advance_revision J pid s) (\<lambda>(_, s1). mark_identity_unverified J pid s1)
            else Inr (0, s)) (\<lambda>(_, s2).
     let s3 = (if key = HEAD then mark_head_required pid s2 else s2)
     in Inr ((), put_meta k v s3))))"

definition compare_exchange_meta :: "codecs \<Rightarrow> string \<Rightarrow> string \<Rightarrow> string option \<Rightarrow> string \<Rightarrow> bool tx" where
  "compare_exchange_meta J pid key expected v s =
     bindR (vk ''project_id'' pid) (\<lambda>_.
     bindR (vk ''key'' key) (\<lambda>_.
     let k = composite pid key in
     if fmlookup (meta s) k \<noteq> expected then Inr (False, s)
     else bindR (if key = HEAD \<and> expected \<noteq> Some v
                 then bindR (advance_revision J pid s) (\<lambda>(_, s1). mark_identity_unverified J pid s1)
                 else Inr (0, s)) (\<lambda>(_, s2).
          let s3 = (if key = HEAD then mark_head_required pid s2 else s2)
          in Inr (True, put_meta k v s3))))"

definition compare_exchange_meta_with_companion ::
  "string \<Rightarrow> string \<Rightarrow> string option \<Rightarrow> string \<Rightarrow> string \<Rightarrow> string \<Rightarrow> bool tx" where
  "compare_exchange_meta_with_companion pid key expected v companion_key companion_value s =
     bindR (vk ''project_id'' pid) (\<lambda>_.
     bindR (vk ''key'' key) (\<lambda>_.
     bindR (vk ''companion_key'' companion_key) (\<lambda>_.
     bindR (ensure (key \<noteq> companion_key \<and> key \<noteq> HEAD \<and> companion_key \<noteq> HEAD)
              (Bail ''invalid companion metadata keys'')) (\<lambda>_.
     bindR (ensure (length v \<le> 1048576 \<and> length companion_value \<le> 4096)
              (Bail ''companion metadata write exceeds budget'')) (\<lambda>_.
     let k = composite pid key; c = composite pid companion_key in
     if fmlookup (meta s) k \<noteq> expected then Inr (False, s)
     else if (\<exists>x. fmlookup (meta s) c = Some x \<and> x \<noteq> companion_value) then Inr (False, s)
     else Inr (True, put_meta c companion_value (put_meta k v s)))))))"

definition map_meta_bounded :: "string \<Rightarrow> string \<Rightarrow> nat \<Rightarrow> (bytes \<Rightarrow> 'a res) \<Rightarrow> db \<Rightarrow> 'a option res" where
  "map_meta_bounded pid key max_bytes inspect s =
     bindR (vk ''project_id'' pid) (\<lambda>_.
     bindR (vk ''key'' key) (\<lambda>_.
     transposeR (\<lambda>v. bindR (ensure (length v \<le> max_bytes) (Bail ''metadata value exceeds read budget'')) (\<lambda>_.
                     inspect v))
       (fmlookup (meta s) (composite pid key))))"

definition get_meta_bounded :: "string \<Rightarrow> string \<Rightarrow> nat \<Rightarrow> db \<Rightarrow> string option res" where
  "get_meta_bounded pid key max_bytes s = map_meta_bounded pid key max_bytes from_utf8 s"

definition get_meta :: "string \<Rightarrow> string \<Rightarrow> db \<Rightarrow> string option res" where
  "get_meta pid key s = get_meta_bounded pid key (2 ^ 64 - 1) s"

definition legacy_source_head_attested :: "string \<Rightarrow> db \<Rightarrow> bool res" where
  "legacy_source_head_attested pid s =
     bindR (get_meta_bounded pid LEGACY_ATTESTED 1 s) (\<lambda>flag.
     bindR (ensure (flag = None \<or> flag = Some ''1'') (Bail ''Invalid legacy source head attestation'')) (\<lambda>_.
     Inr (flag \<noteq> None)))"

subsection \<open>Bounded prefix pages\<close>

record meta_prefix_page =
  entries :: "(string \<times> string) list"
  inspected :: nat
  omitted_values :: nat
  has_more :: bool

text \<open>
  The loop over the borrowed rows; \<open>n\<close> is the length of the project prefix, \<open>retained\<close> the bytes
  copied so far. \<open>checked_add\<close> on \<open>usize\<close> refuses sums of \<open>2 ^ 64\<close> and more.
\<close>

definition admitted :: "nat \<Rightarrow> nat \<Rightarrow> nat \<Rightarrow> string \<Rightarrow> bytes \<Rightarrow> bool" where
  "admitted max_value max_total retained local_key v \<longleftrightarrow>
     length local_key \<le> 1024 \<and> length v \<le> max_value
     \<and> length local_key + length v < 2 ^ 64 \<and> retained + (length local_key + length v) < 2 ^ 64
     \<and> retained + (length local_key + length v) \<le> max_total"

fun page_loop ::
  "string \<Rightarrow> nat \<Rightarrow> nat \<Rightarrow> nat \<Rightarrow> nat \<Rightarrow> nat \<Rightarrow> meta_prefix_page \<Rightarrow> (string \<times> bytes) list \<Rightarrow> meta_prefix_page" where
  "page_loop p n max_entries max_value max_total retained page [] = page"
| "page_loop p n max_entries max_value max_total retained page ((k, v) # rows) =
     (if \<not> prefix p k then page
      else if inspected page = max_entries then page\<lparr>has_more := True\<rparr>
      else let page1 = page\<lparr>inspected := inspected page + 1\<rparr>; local_key = drop n k
           in if \<not> admitted max_value max_total retained local_key v \<or> \<not> utf8_valid v
              then page_loop p n max_entries max_value max_total retained
                     (page1\<lparr>omitted_values := omitted_values page1 + 1\<rparr>) rows
              else page_loop p n max_entries max_value max_total
                     (retained + length local_key + length v)
                     (page1\<lparr>entries := entries page1 @ [(local_key, v)]\<rparr>) rows)"

definition list_meta_prefix_bounded ::
  "string \<Rightarrow> string \<Rightarrow> nat \<Rightarrow> nat \<Rightarrow> nat \<Rightarrow> db \<Rightarrow> meta_prefix_page res" where
  "list_meta_prefix_bounded pid key_prefix max_entries max_value max_total s =
     bindR (vk ''project_id'' pid) (\<lambda>_.
     bindR (vk ''key_prefix'' key_prefix) (\<lambda>_.
     bindR (ensure (length pid \<le> 512 \<and> length key_prefix \<le> 512
                    \<and> 1 \<le> max_entries \<and> max_entries \<le> 256 \<and> 0 < max_value
                    \<and> max_value \<le> max_total \<and> max_total \<le> 1048576)
              (Bail ''invalid metadata prefix inspection budget'')) (\<lambda>_.
     let p = composite pid key_prefix in
     Inr (page_loop p (length pid + 1) max_entries max_value max_total 0
            \<lparr> entries = [], inspected = 0, omitted_values = 0, has_more = False \<rparr>
            (range_from p (meta s))))))"

end
