(* ===== verification/Ratchet.thy ===== *)
theory Ratchet
  imports Registry
begin

text \<open>
  The argument behind every revision-checked token of the registry, stated once for an abstract
  step relation (the locale \<open>ratchet\<close>) and then interpreted on the registry's own steps: the
  stored head revision, the stored identity epoch and the revision of each pending recovery
  reason are cells that a step leaves alone, erases, or sets to a value above everything the
  sequence has issued. A token that names another value than the cell holds is therefore stale
  for ever, across publications, edits, deletion and re-creation of the project.
\<close>

section \<open>The abstract argument\<close>

definition moved :: "'c::linorder \<Rightarrow> 'c option \<Rightarrow> 'c option \<Rightarrow> bool" where
  "moved clock old new \<longleftrightarrow> new = None \<or> new = old \<or> (\<exists>v. new = Some v \<and> clock < v)"

lemma moved_simps [simp]:
  "moved c x None" "moved c x x" "moved c x (Some v) \<longleftrightarrow> x = Some v \<or> c < v"
  by (auto simp: moved_def)

lemma moved_trans:
  assumes "moved c x y" and "moved d y z" and "c \<le> d"
  shows "moved c x z"
  using assms by (auto simp: moved_def)

locale ratchet =
  fixes step :: "'s \<Rightarrow> 's \<Rightarrow> bool"
    and inv :: "'s \<Rightarrow> bool"
    and clock :: "'s \<Rightarrow> 'c::linorder"
    and cell :: "'s \<Rightarrow> 'c option"
  assumes inv_step: "inv s \<Longrightarrow> step s t \<Longrightarrow> inv t"
    and clock_step: "inv s \<Longrightarrow> step s t \<Longrightarrow> clock s \<le> clock t"
    and cell_le: "inv s \<Longrightarrow> cell s = Some v \<Longrightarrow> v \<le> clock s"
    and cell_step: "inv s \<Longrightarrow> step s t \<Longrightarrow> moved (clock s) (cell s) (cell t)"
begin

lemma inv_reach: "step\<^sup>*\<^sup>* s t \<Longrightarrow> inv s \<Longrightarrow> inv t \<and> clock s \<le> clock t"
proof (induction rule: rtranclp_induct)
  case (step t u)
  then show ?case using inv_step clock_step by (meson order_trans)
qed simp

lemma cell_reach: "step\<^sup>*\<^sup>* s t \<Longrightarrow> inv s \<Longrightarrow> moved (clock s) (cell s) (cell t)"
proof (induction rule: rtranclp_induct)
  case (step t u)
  then have "inv t" "clock s \<le> clock t" using inv_reach by blast+
  with step cell_step show ?case by (blast intro: moved_trans)
qed simp

text \<open>A value the cell does not hold, and that was issued before, is never held again.\<close>

lemma stale_forever:
  assumes "step\<^sup>*\<^sup>* s t" and "inv s" and "cell s \<noteq> Some v" and "v \<le> clock s"
  shows "cell t \<noteq> Some v"
  using cell_reach [OF assms(1,2)] assms(3,4) by (auto simp: moved_def)

text \<open>Whatever the cell holds was issued, so a held value that changes is stale for ever.\<close>

lemma changed_forever:
  assumes "step\<^sup>*\<^sup>* s t" "step\<^sup>*\<^sup>* t u" and "inv s" and "cell s = Some v" and "cell t \<noteq> Some v"
  shows "cell u \<noteq> Some v"
proof -
  have "inv t" "v \<le> clock t"
    using inv_reach [OF assms(1,3)] cell_le [OF assms(3,4)] by auto
  with stale_forever [OF assms(2)] assms(5) show ?thesis by blast
qed

end

section \<open>The cells of the registry\<close>

definition seq :: "codecs \<Rightarrow> db \<Rightarrow> u64" where
  "seq J s = (case fmlookup (meta s) REVISION_SEQUENCE of None \<Rightarrow> 0
     | Some b \<Rightarrow> (case from_slice (u64_json J) b of None \<Rightarrow> 0 | Some v \<Rightarrow> v))"

definition rev_cell :: "string \<Rightarrow> db \<Rightarrow> u64 option" where
  "rev_cell k s = (case fmlookup (meta s) k of None \<Rightarrow> None
     | Some b \<Rightarrow> (case revision b of Inl _ \<Rightarrow> None | Inr v \<Rightarrow> Some v))"

definition head_cell :: "string \<Rightarrow> db \<Rightarrow> u64 option" where
  "head_cell p s = (if key_ok p then rev_cell (revision_key p) s else None)"

definition epoch_cell :: "string \<Rightarrow> db \<Rightarrow> u64 option" where
  "epoch_cell p s = (if key_ok p then rev_cell (flag_key p IDENTITY_EPOCH) s else None)"

definition stored_requirements :: "codecs \<Rightarrow> string \<Rightarrow> db \<Rightarrow> requirements option" where
  "stored_requirements J p s = Option.bind (fmlookup (meta s) (reindex_key p)) (from_slice (requirements_json J))"

definition reason_cell :: "codecs \<Rightarrow> string \<Rightarrow> reindex_reason \<Rightarrow> db \<Rightarrow> u64 option" where
  "reason_cell J p reason s = (if key_ok p
     then Option.bind (stored_requirements J p s) (\<lambda>r. map_option revision_of (fmlookup (pending r) reason))
     else None)"

text \<open>Every stored revision decodes and was issued by the sequence.\<close>

definition reqs_bounded :: "u64 \<Rightarrow> requirements \<Rightarrow> bool" where
  "reqs_bounded c r \<longleftrightarrow> req_revision r \<le> c
     \<and> (\<forall>reason q. fmlookup (pending r) reason = Some q \<longrightarrow> revision_of q \<le> req_revision r)"

definition rinv :: "codecs \<Rightarrow> db \<Rightarrow> bool" where
  "rinv J s \<longleftrightarrow> codecs_ok J
     \<and> (\<forall>b. fmlookup (meta s) REVISION_SEQUENCE = Some b \<longrightarrow> from_slice (u64_json J) b \<noteq> None)
     \<and> (\<forall>p k b. key_ok p \<longrightarrow> k \<in> {REVISION, IDENTITY_EPOCH} \<longrightarrow>
          fmlookup (meta s) (composite p k) = Some b \<longrightarrow> (\<exists>v. revision b = Inr v \<and> v \<le> seq J s))
     \<and> (\<forall>p b. key_ok p \<longrightarrow> fmlookup (meta s) (reindex_key p) = Some b \<longrightarrow>
          (\<exists>r. from_slice (requirements_json J) b = Some r \<and> reqs_bounded (seq J s) r))"

definition ratchets :: "codecs \<Rightarrow> db \<Rightarrow> db \<Rightarrow> bool" where
  "ratchets J s t \<longleftrightarrow> (rinv J s \<longrightarrow> rinv J t \<and> seq J s \<le> seq J t
     \<and> (\<forall>p. moved (seq J s) (head_cell p s) (head_cell p t))
     \<and> (\<forall>p. moved (seq J s) (epoch_cell p s) (epoch_cell p t))
     \<and> (\<forall>p reason. moved (seq J s) (reason_cell J p reason s) (reason_cell J p reason t)))"

lemma ratchets_refl [simp]: "ratchets J s s"
  by (simp add: ratchets_def)

lemma ratchets_trans: "ratchets J s t \<Longrightarrow> ratchets J t u \<Longrightarrow> ratchets J s u"
  unfolding ratchets_def by (blast intro: moved_trans order_trans)

section \<open>Key facts\<close>

lemma composite_ne_sequence [simp]:
  assumes "key_ok p"
  shows "composite p k \<noteq> REVISION_SEQUENCE" "REVISION_SEQUENCE \<noteq> composite p k"
  using assms by (cases p; auto simp: composite_def REVISION_SEQUENCE_def key_ok_def)+

lemmas meta_keys = revision_key_def head_key_def flag_key_def reindex_key_def

lemma source_keys_distinct [simp]:
  "REVISION \<noteq> IDENTITY_EPOCH" "REVISION \<noteq> REINDEX_KEY" "IDENTITY_EPOCH \<noteq> REINDEX_KEY"
  "IDENTITY_EPOCH \<noteq> REVISION" "REINDEX_KEY \<noteq> REVISION" "REINDEX_KEY \<noteq> IDENTITY_EPOCH"
  "HEAD \<noteq> REVISION" "HEAD \<noteq> IDENTITY_EPOCH" "HEAD \<noteq> REINDEX_KEY"
  "REVISION \<noteq> HEAD" "IDENTITY_EPOCH \<noteq> HEAD" "REINDEX_KEY \<noteq> HEAD"
  "REQUIRED \<noteq> REVISION" "REQUIRED \<noteq> IDENTITY_EPOCH" "REQUIRED \<noteq> REINDEX_KEY" "REQUIRED \<noteq> HEAD"
  "REVISION \<noteq> REQUIRED" "IDENTITY_EPOCH \<noteq> REQUIRED" "REINDEX_KEY \<noteq> REQUIRED" "HEAD \<noteq> REQUIRED"
  "MANAGED \<noteq> REVISION" "MANAGED \<noteq> IDENTITY_EPOCH" "MANAGED \<noteq> REINDEX_KEY" "MANAGED \<noteq> HEAD"
  "REVISION \<noteq> MANAGED" "IDENTITY_EPOCH \<noteq> MANAGED" "REINDEX_KEY \<noteq> MANAGED" "HEAD \<noteq> MANAGED"
  "IDENTITY_VERIFIED \<noteq> REVISION" "IDENTITY_VERIFIED \<noteq> IDENTITY_EPOCH" "IDENTITY_VERIFIED \<noteq> REINDEX_KEY"
  "REVISION \<noteq> IDENTITY_VERIFIED" "IDENTITY_EPOCH \<noteq> IDENTITY_VERIFIED" "REINDEX_KEY \<noteq> IDENTITY_VERIFIED"
  "IDENTITY_VERIFIED \<noteq> HEAD" "HEAD \<noteq> IDENTITY_VERIFIED" "IDENTITY_VERIFIED \<noteq> MANAGED" "MANAGED \<noteq> IDENTITY_VERIFIED"
  "IDENTITY_VERIFIED \<noteq> REQUIRED" "REQUIRED \<noteq> IDENTITY_VERIFIED" "MANAGED \<noteq> REQUIRED" "REQUIRED \<noteq> MANAGED"
  "LEGACY_ATTESTED \<noteq> REVISION" "LEGACY_ATTESTED \<noteq> IDENTITY_EPOCH" "LEGACY_ATTESTED \<noteq> REINDEX_KEY"
  "REVISION \<noteq> LEGACY_ATTESTED" "IDENTITY_EPOCH \<noteq> LEGACY_ATTESTED" "REINDEX_KEY \<noteq> LEGACY_ATTESTED"
  "LEGACY_ATTESTED \<noteq> HEAD" "LEGACY_ATTESTED \<noteq> REQUIRED" "LEGACY_ATTESTED \<noteq> MANAGED"
  "HEAD \<noteq> LEGACY_ATTESTED" "REQUIRED \<noteq> LEGACY_ATTESTED" "MANAGED \<noteq> LEGACY_ATTESTED"
  "LEGACY_ATTESTED \<noteq> IDENTITY_VERIFIED" "IDENTITY_VERIFIED \<noteq> LEGACY_ATTESTED"
  by (simp_all add: source_keys)

text \<open>The metadata keys whose values carry revisions.\<close>

definition bookkeeping :: "string set" where
  "bookkeeping = {REVISION, IDENTITY_EPOCH, REINDEX_KEY}"

definition guarded :: "string \<Rightarrow> bool" where
  "guarded k \<longleftrightarrow> k = REVISION_SEQUENCE \<or> (\<exists>p b. key_ok p \<and> b \<in> bookkeeping \<and> k = composite p b)"

lemma guarded_sequence [simp]: "guarded REVISION_SEQUENCE"
  by (simp add: guarded_def)

lemma guarded_composite [simp]: "key_ok p \<Longrightarrow> guarded (composite p k) \<longleftrightarrow> k \<in> bookkeeping"
  by (auto simp: guarded_def)

lemma revision_show_u64 [simp]: "n \<noteq> 0 \<Longrightarrow> revision (show_u64 n) = Inr n"
  by (simp add: revision_def bounded_text_def show_u64_length)

section \<open>Frame rules\<close>

text \<open>
  The general rule: the sequence does not go back, and each guarded value is kept, erased, or
  replaced by one whose revisions are fresh.
\<close>

lemma ratchetsI:
  assumes seq: "rinv J s \<Longrightarrow> seq J s \<le> seq J t"
    and dec: "\<And>b. rinv J s \<Longrightarrow> fmlookup (meta t) REVISION_SEQUENCE = Some b \<Longrightarrow> from_slice (u64_json J) b \<noteq> None"
    and rev: "\<And>p k b. rinv J s \<Longrightarrow> key_ok p \<Longrightarrow> k = REVISION \<or> k = IDENTITY_EPOCH \<Longrightarrow>
      fmlookup (meta t) (composite p k) = Some b \<Longrightarrow>
      fmlookup (meta s) (composite p k) = Some b \<or> (\<exists>v. revision b = Inr v \<and> seq J s < v \<and> v \<le> seq J t)"
    and req: "\<And>p b. rinv J s \<Longrightarrow> key_ok p \<Longrightarrow> fmlookup (meta t) (reindex_key p) = Some b \<Longrightarrow>
      fmlookup (meta s) (reindex_key p) = Some b \<or>
      (\<exists>r. from_slice (requirements_json J) b = Some r \<and> reqs_bounded (seq J t) r \<and>
         (\<forall>reason q. fmlookup (pending r) reason = Some q \<longrightarrow>
            reason_cell J p reason s = Some (revision_of q) \<or> seq J s < revision_of q))"
  shows "ratchets J s t"
  unfolding ratchets_def
proof (intro impI conjI allI)
  assume r: "rinv J s"
  note le = seq [OF r]
  have rv: "\<exists>v. revision b = Inr v \<and> v \<le> seq J s"
    if "key_ok p" "k = REVISION \<or> k = IDENTITY_EPOCH" "fmlookup (meta s) (composite p k) = Some b" for p k b
    using r that by (auto simp: rinv_def)
  have rq: "\<exists>r. from_slice (requirements_json J) b = Some r \<and> reqs_bounded (seq J s) r"
    if "key_ok p" "fmlookup (meta s) (reindex_key p) = Some b" for p b
    using r that by (auto simp: rinv_def)
  have bounded: "reqs_bounded (seq J t) q" if "reqs_bounded (seq J s) q" for q
    using that le by (auto simp: reqs_bounded_def)
  show "rinv J t"
    unfolding rinv_def
  proof (intro conjI allI impI)
    show "codecs_ok J" using r by (simp add: rinv_def)
  next
    fix p k b assume "key_ok p" "k \<in> {REVISION, IDENTITY_EPOCH}" "fmlookup (meta t) (composite p k) = Some b"
    with rev [OF r, of p k b] rv [of p k b] le show "\<exists>v. revision b = Inr v \<and> v \<le> seq J t" by auto
  next
    fix p b assume "key_ok p" "fmlookup (meta t) (reindex_key p) = Some b"
    with req [OF r, of p b] rq [of p b] bounded
    show "\<exists>r. from_slice (requirements_json J) b = Some r \<and> reqs_bounded (seq J t) r" by blast
  qed (use dec [OF r] in blast)
  show "seq J s \<le> seq J t" by (rule le)
  have cell: "moved (seq J s) (rev_cell (composite p k) s) (rev_cell (composite p k) t)"
    if "key_ok p" "k = REVISION \<or> k = IDENTITY_EPOCH" for p k
    using rev [OF r that] rv [OF that]
    by (cases "fmlookup (meta t) (composite p k)") (force simp: rev_cell_def)+
  show "moved (seq J s) (head_cell p s) (head_cell p t)" for p
    using cell [of p REVISION] by (simp add: head_cell_def revision_key_def)
  show "moved (seq J s) (epoch_cell p s) (epoch_cell p t)" for p
    using cell [of p IDENTITY_EPOCH] by (simp add: epoch_cell_def flag_key_def)
  show "moved (seq J s) (reason_cell J p reason s) (reason_cell J p reason t)" for p reason
  proof (cases "key_ok p \<and> reason_cell J p reason t \<noteq> None")
    case True
    then obtain b r' q where t: "key_ok p" "fmlookup (meta t) (reindex_key p) = Some b"
      "from_slice (requirements_json J) b = Some r'" "fmlookup (pending r') reason = Some q"
      "reason_cell J p reason t = Some (revision_of q)"
      by (auto simp: reason_cell_def stored_requirements_def bind_eq_Some_conv split: if_splits)
    from req [OF r t(1,2)] show ?thesis
      using t by (auto simp: reason_cell_def stored_requirements_def)
  qed (auto simp: reason_cell_def)
qed

text \<open>Keeping or erasing guarded values, with the sequence unchanged.\<close>

lemma ratchets_erase:
  assumes "fmlookup (meta t) REVISION_SEQUENCE = fmlookup (meta s) REVISION_SEQUENCE"
    and "\<And>p b. key_ok p \<Longrightarrow> b \<in> bookkeeping \<Longrightarrow>
           fmlookup (meta t) (composite p b) = None
           \<or> fmlookup (meta t) (composite p b) = fmlookup (meta s) (composite p b)"
  shows "ratchets J s t"
proof (rule ratchetsI)
  show "from_slice (u64_json J) b \<noteq> None"
    if "rinv J s" "fmlookup (meta t) REVISION_SEQUENCE = Some b" for b
    using that assms(1) by (simp add: rinv_def)
next
  fix p k b
  assume "key_ok p" "k = REVISION \<or> k = IDENTITY_EPOCH" "fmlookup (meta t) (composite p k) = Some b"
  with assms(2) [of p k]
  show "fmlookup (meta s) (composite p k) = Some b \<or> (\<exists>v. revision b = Inr v \<and> seq J s < v \<and> v \<le> seq J t)"
    by (auto simp: bookkeeping_def)
next
  fix p b
  assume "key_ok p" "fmlookup (meta t) (reindex_key p) = Some b"
  with assms(2) [of p REINDEX_KEY]
  have "fmlookup (meta s) (reindex_key p) = Some b" by (auto simp: bookkeeping_def reindex_key_def)
  then show "fmlookup (meta s) (reindex_key p) = Some b \<or>
      (\<exists>r. from_slice (requirements_json J) b = Some r \<and> reqs_bounded (seq J t) r \<and>
         (\<forall>reason q. fmlookup (pending r) reason = Some q \<longrightarrow>
            reason_cell J p reason s = Some (revision_of q) \<or> seq J s < revision_of q))" ..
qed (simp add: seq_def assms(1))

lemma ratchets_frame:
  assumes "\<And>k. guarded k \<Longrightarrow> fmlookup (meta t) k = fmlookup (meta s) k"
  shows "ratchets J s t"
  by (rule ratchets_erase) (auto simp: assms)

lemma ratchets_put_meta [intro]:
  assumes "\<not> guarded k"
  shows "ratchets J s (put_meta k v s)"
  by (rule ratchets_frame) (use assms in auto)

lemma ratchets_same_meta [intro]: "meta t = meta s \<Longrightarrow> ratchets J s t"
  by (rule ratchets_frame) simp

section \<open>Allocation steps\<close>

lemma next_revision_InrE:
  assumes "next_revision J flr s = Inr (n, t)"
  shows "t = put_meta REVISION_SEQUENCE (to_vec (u64_json J) n) s" and "seq J s < n" and "flr < n"
    and "n \<noteq> 0"
proof -
  obtain stored where st: "transposeR (decode (u64_json J)) (fmlookup (meta s) REVISION_SEQUENCE) = Inr stored"
    and n: "checked_add (max (case stored of None \<Rightarrow> 0 | Some v \<Rightarrow> v) flr) 1 = Some n"
    and t: "t = put_meta REVISION_SEQUENCE (to_vec (u64_json J) n) s"
    using assms by (auto simp: next_revision_def)
  have "seq J s = (case stored of None \<Rightarrow> 0 | Some v \<Rightarrow> v)"
    using transposeR_Inr_D [OF st] by (auto simp: seq_def)
  with checked_succ_gt [OF n] show "seq J s < n" "flr < n" by auto
  then show "n \<noteq> 0" by auto
  show "t = put_meta REVISION_SEQUENCE (to_vec (u64_json J) n) s" by (rule t)
qed

lemma seq_put_sequence [simp]:
  "codecs_ok J \<Longrightarrow> seq J (put_meta REVISION_SEQUENCE (to_vec (u64_json J) n) s) = n"
  by (simp add: seq_def)

lemma seq_put_other [simp]:
  "k \<noteq> REVISION_SEQUENCE \<Longrightarrow> seq J (put_meta k v s) = seq J s"
  by (simp add: seq_def)

lemma ratchets_next_revision:
  assumes "next_revision J flr s = Inr (n, t)"
  shows "ratchets J s t"
  by (rule ratchetsI)
    (use next_revision_InrE [OF assms] in \<open>auto simp: rinv_def reindex_key_def\<close>)

lemma advance_revision_InrE:
  assumes "advance_revision J p s = Inr (n, t)"
  shows "t = put_meta (revision_key p) (show_u64 n)
               (put_meta REVISION_SEQUENCE (to_vec (u64_json J) n) s)"
    and "seq J s < n" and "n \<noteq> 0"
    and "\<And>v. rev_cell (revision_key p) s = Some v \<Longrightarrow> v < n"
    and "\<And>v. rev_cell (flag_key p IDENTITY_EPOCH) s = Some v \<Longrightarrow> v < n"
proof -
  obtain prev epoch t1 where prev: "read_revision (revision_key p) s = Inr prev"
    and epoch: "read_revision (flag_key p IDENTITY_EPOCH) s = Inr epoch"
    and nr: "next_revision J (max (case prev of None \<Rightarrow> 0 | Some v \<Rightarrow> v)
                                  (case epoch of None \<Rightarrow> 0 | Some v \<Rightarrow> v)) s = Inr (n, t1)"
    and t: "t = put_meta (revision_key p) (show_u64 n) t1"
    using assms by (auto simp: advance_revision_def)
  note E = next_revision_InrE [OF nr]
  show "t = put_meta (revision_key p) (show_u64 n)
          (put_meta REVISION_SEQUENCE (to_vec (u64_json J) n) s)" "seq J s < n" "n \<noteq> 0"
    using t E by simp_all
  show "v < n" if "rev_cell (revision_key p) s = Some v" for v
    using that prev E(3)
    by (auto simp: rev_cell_def read_revision_def split: option.splits sum.splits dest!: transposeR_Inr_D)
  show "v < n" if "rev_cell (flag_key p IDENTITY_EPOCH) s = Some v" for v
    using that epoch E(3)
    by (auto simp: rev_cell_def read_revision_def split: option.splits sum.splits dest!: transposeR_Inr_D)
qed

text \<open>A fresh revision may be written to the head revision and to the identity epoch.\<close>

lemma ratchets_fresh:
  assumes "seq J s < n" and "n \<noteq> 0"
    and "fmlookup (meta t) REVISION_SEQUENCE = Some (to_vec (u64_json J) n)"
    and "\<And>p k. key_ok p \<Longrightarrow> k = REVISION \<or> k = IDENTITY_EPOCH \<Longrightarrow>
      fmlookup (meta t) (composite p k) = fmlookup (meta s) (composite p k)
      \<or> fmlookup (meta t) (composite p k) = Some (show_u64 n)"
    and "\<And>p. key_ok p \<Longrightarrow> fmlookup (meta t) (reindex_key p) = fmlookup (meta s) (reindex_key p)"
  shows "ratchets J s t"
proof (rule ratchetsI)
  have st: "seq J t = n" if "rinv J s" using that assms(3) by (simp add: seq_def rinv_def)
  show "rinv J s \<Longrightarrow> seq J s \<le> seq J t" using st assms(1) by simp
  show "from_slice (u64_json J) b \<noteq> None"
    if "rinv J s" "fmlookup (meta t) REVISION_SEQUENCE = Some b" for b
    using that assms(3) by (auto simp: rinv_def)
  fix p k b
  assume r: "rinv J s" and "key_ok p" "k = REVISION \<or> k = IDENTITY_EPOCH"
    and b: "fmlookup (meta t) (composite p k) = Some b"
  with assms(4) [of p k] assms(1,2) st [OF r]
  show "fmlookup (meta s) (composite p k) = Some b \<or> (\<exists>v. revision b = Inr v \<and> seq J s < v \<and> v \<le> seq J t)"
    by auto
qed (simp add: assms(5))

lemma ratchets_advance_revision:
  assumes "advance_revision J p s = Inr (n, t)" and "key_ok p"
  shows "ratchets J s t"
  using advance_revision_InrE(1-3) [OF assms(1)] assms(2)
  by (intro ratchets_fresh [of J s n]) (auto simp: meta_keys)

lemma mark_identity_unverified_InrE:
  assumes "mark_identity_unverified J p s = Inr (n, t)"
  shows "t = put_meta (flag_key p IDENTITY_VERIFIED) ''0''
          (put_meta (flag_key p IDENTITY_EPOCH) (show_u64 n)
            (put_meta (revision_key p) (show_u64 n)
               (put_meta REVISION_SEQUENCE (to_vec (u64_json J) n) s)))"
    and "seq J s < n" and "n \<noteq> 0"
  using assms advance_revision_InrE(1-3) [of J p s n]
  by (auto simp: mark_identity_unverified_def)

lemma ratchets_mark_identity_unverified:
  assumes "mark_identity_unverified J p s = Inr (n, t)" and "key_ok p"
  shows "ratchets J s t"
  using mark_identity_unverified_InrE [OF assms(1)] assms(2)
  by (intro ratchets_fresh [of J s n]) (auto simp: meta_keys)

section \<open>Requirement steps\<close>

text \<open>
  Writing a requirement set whose pending revisions are stored already or fresh, after an
  allocation or without one.
\<close>

lemma ratchets_put_requirements:
  assumes "key_ok p"
    and "rinv J s \<Longrightarrow> seq J s \<le> seq J t \<and> reqs_bounded (seq J t) r"
    and "\<And>reason q. rinv J s \<Longrightarrow> fmlookup (pending r) reason = Some q \<Longrightarrow>
       reason_cell J p reason s = Some (revision_of q) \<or> seq J s < revision_of q"
    and "\<And>b. rinv J s \<Longrightarrow> fmlookup (meta t) REVISION_SEQUENCE = Some b \<Longrightarrow> from_slice (u64_json J) b \<noteq> None"
    and "\<And>q k. key_ok q \<Longrightarrow> composite q k \<noteq> reindex_key p \<Longrightarrow>
       fmlookup (meta t) (composite q k) = fmlookup (meta s) (composite q k)"
    and "fmlookup (meta t) (reindex_key p) = Some (to_vec (requirements_json J) r)"
  shows "ratchets J s t"
proof (rule ratchetsI)
  fix q k b
  assume "key_ok q" "k = REVISION \<or> k = IDENTITY_EPOCH" "fmlookup (meta t) (composite q k) = Some b"
  with assms(5) [of q k] assms(1)
  show "fmlookup (meta s) (composite q k) = Some b \<or> (\<exists>v. revision b = Inr v \<and> seq J s < v \<and> v \<le> seq J t)"
    by (auto simp: reindex_key_def)
next
  fix q b
  assume r: "rinv J s" and q: "key_ok q" "fmlookup (meta t) (reindex_key q) = Some b"
  have C: "codecs_ok J" using r by (simp add: rinv_def)
  show "fmlookup (meta s) (reindex_key q) = Some b \<or>
      (\<exists>r. from_slice (requirements_json J) b = Some r \<and> reqs_bounded (seq J t) r \<and>
         (\<forall>reason x. fmlookup (pending r) reason = Some x \<longrightarrow>
            reason_cell J q reason s = Some (revision_of x) \<or> seq J s < revision_of x))"
  proof (cases "q = p")
    case True
    then show ?thesis using q C assms(2,3) [OF r] assms(6) by auto
  next
    case False
    then show ?thesis using q assms(1) assms(5) [of q REINDEX_KEY] by (auto simp: reindex_key_def)
  qed
qed (use assms(2,4) in auto)

lemma ratchets_alloc_requirements:
  assumes "next_revision J flr s = Inr (n, s1)" and "key_ok p" and "reqs_bounded n r"
    and "\<And>reason q. rinv J s \<Longrightarrow> fmlookup (pending r) reason = Some q \<Longrightarrow>
       reason_cell J p reason s = Some (revision_of q) \<or> seq J s < revision_of q"
    and "meta t = fmupd (reindex_key p) (to_vec (requirements_json J) r) (meta s1)"
  shows "ratchets J s t"
proof -
  note E = next_revision_InrE [OF assms(1)]
  have lk: "fmlookup (meta t) REVISION_SEQUENCE = Some (to_vec (u64_json J) n)"
    using assms(2,5) E(1) by (simp add: reindex_key_def)
  have sq: "seq J t = n" if "rinv J s"
    using that lk by (simp add: seq_def rinv_def)
  show ?thesis
  proof (rule ratchets_put_requirements [OF assms(2)])
    show "seq J s \<le> seq J t \<and> reqs_bounded (seq J t) r" if "rinv J s"
      using sq [OF that] E(2) assms(3) by simp
    show "from_slice (u64_json J) b \<noteq> None" if "rinv J s" "fmlookup (meta t) REVISION_SEQUENCE = Some b" for b
      using that lk by (auto simp: rinv_def)
  qed (use assms(2,4,5) E(1) in auto)
qed

text \<open>Dropping pending reasons without an allocation.\<close>

lemma ratchets_drop_requirements:
  assumes "key_ok p" and "rinv J s \<Longrightarrow> reqs_bounded (seq J s) r"
    and "\<And>reason q. rinv J s \<Longrightarrow> fmlookup (pending r) reason = Some q \<Longrightarrow>
       reason_cell J p reason s = Some (revision_of q)"
    and "meta t = fmupd (reindex_key p) (to_vec (requirements_json J) r) (meta s)"
  shows "ratchets J s t"
proof (rule ratchets_put_requirements [OF assms(1)])
  have sq: "seq J t = seq J s" using assms(1,4) by (simp add: seq_def reindex_key_def)
  then show "seq J s \<le> seq J t \<and> reqs_bounded (seq J t) r" if "rinv J s"
    using assms(2) [OF that] by simp
  show "from_slice (u64_json J) b \<noteq> None" if "rinv J s" "fmlookup (meta t) REVISION_SEQUENCE = Some b" for b
    using that assms(1,4) by (simp add: rinv_def reindex_key_def)
qed (use assms in auto)

lemma reqs_bounded_mono: "reqs_bounded c r \<Longrightarrow> c \<le> d \<Longrightarrow> reqs_bounded d r"
  by (auto simp: reqs_bounded_def)

lemma rinv_stored:
  assumes "rinv J s" and "key_ok p" and "read_requirements J p s = Inr (Some r)"
  shows "reqs_bounded (seq J s) r" and "stored_requirements J p s = Some r"
  using assms by (force simp: rinv_def read_requirements_def stored_requirements_def)+

lemma ratchets_requirements_for_project_write:
  assumes "requirements_for_project_write J rec s = Inr (reqs, t)" and "key_ok (project_id rec)"
  shows "ratchets J s t"
proof (cases "read_requirements J (project_id rec) s = Inr None")
  case False
  with assms(1) have "t = s" by (auto simp: requirements_for_project_write_def split: option.splits)
  then show ?thesis by simp
next
  case None: True
  show ?thesis
  proof (cases reqs)
    case None
    with assms(1) \<open>read_requirements J (project_id rec) s = Inr None\<close> have "t = s"
      by (auto simp: requirements_for_project_write_def Let_def split: option.splits)
    then show ?thesis by simp
  next
    case (Some r)
    with assms(1) None obtain ms n t1 where n: "next_revision J 1 s = Inr (n, t1)"
      and r: "r = \<lparr> req_revision = n, pending = fmupd Unknown \<lparr> since_ms_of = ms, revision_of = n \<rparr> fmempty \<rparr>"
      and t: "t = put_meta (reindex_key (project_id rec)) (to_vec (requirements_json J) r) t1"
      by (auto simp: requirements_for_project_write_def Let_def split: option.splits)
    show ?thesis
      by (rule ratchets_alloc_requirements [OF n assms(2), of r])
        (use t r next_revision_InrE(2) [OF n] in \<open>auto simp: reqs_bounded_def split: if_splits\<close>)
  qed
qed

lemma requirements_for_project_write_Some:
  assumes "requirements_for_project_write J rec s = Inr (Some r, t)" and "key_ok (project_id rec)"
    and "rinv J s"
  shows "stored_requirements J (project_id rec) t = Some r" and "reqs_bounded (seq J t) r"
proof -
  have t: "rinv J t" using ratchets_requirements_for_project_write [OF assms(1,2)] assms(3)
    by (simp add: ratchets_def)
  have C: "codecs_ok J" using assms(3) by (simp add: rinv_def)
  have "fmlookup (meta t) (reindex_key (project_id rec)) \<noteq> None
     \<and> read_requirements J (project_id rec) t = Inr (Some r)"
    using assms(1) C
    by (auto simp: requirements_for_project_write_def read_requirements_def Let_def split: option.splits)
  with rinv_stored [OF t assms(2)] show "stored_requirements J (project_id rec) t = Some r"
    "reqs_bounded (seq J t) r" by blast+
qed

lemma requirements_for_project_write_None:
  assumes "requirements_for_project_write J rec s = Inr (None, t)"
  shows "t = s" and "fmlookup (meta s) (reindex_key (project_id rec)) = None"
  using assms
  by (auto simp: requirements_for_project_write_def read_requirements_def Let_def split: option.splits)

lemma ratchets_clear_pending_on_delete:
  assumes "clear_pending_on_delete J p s = Inr (u, t)" and "key_ok p"
    and "\<And>rec. read_project J p s = Inr (Some rec) \<Longrightarrow> project_id rec = p"
  shows "ratchets J s t"
proof -
  obtain project reqs s1 where pr: "read_project J p s = Inr project"
    and w: "(case project of Some rec \<Rightarrow> requirements_for_project_write J rec s
             | None \<Rightarrow> bindR (read_requirements J p s) (\<lambda>r. Inr (r, s))) = Inr (reqs, s1)"
    and t: "(case reqs of None \<Rightarrow> Inr ((), s1)
     | Some r \<Rightarrow>
         bindR (next_revision J (req_revision r) s1) (\<lambda>(rev, s2).
         Inr ((), put_meta (reindex_key p)
           (to_vec (requirements_json J) (r\<lparr>req_revision := rev, pending := fmempty\<rparr>)) s2))) = Inr (u, t)"
    using assms(1) by (auto simp: clear_pending_on_delete_def)
  have 1: "ratchets J s s1"
  proof (cases project)
    case None
    with w show ?thesis by auto
  next
    case (Some rec)
    with w assms(2,3) pr show ?thesis by (auto intro: ratchets_requirements_for_project_write)
  qed
  have "ratchets J s1 t"
  proof (cases reqs)
    case None
    with t show ?thesis by simp
  next
    case (Some r)
    with t obtain n s2 where n: "next_revision J (req_revision r) s1 = Inr (n, s2)"
      and t: "t = put_meta (reindex_key p)
           (to_vec (requirements_json J) (r\<lparr>req_revision := n, pending := fmempty\<rparr>)) s2"
      by auto
    show ?thesis
      by (rule ratchets_alloc_requirements [OF n assms(2)]) (simp_all add: t reqs_bounded_def)
  qed
  with 1 show ?thesis by (rule ratchets_trans)
qed

end
