(* ===== verification/Registry_Steps.thy ===== *)
theory Registry_Steps
  imports Ratchet
begin

text \<open>
  The registry as a state machine. \<open>reg_step\<close> has one rule per operation that changes projects,
  recovery requirements or source metadata, each exactly the operation's definition applied to
  the current state, and one rule for everything else: any change that leaves the project table
  and the guarded metadata alone (memory bank, rules, watches, jobs, captures, caches, and plain
  metadata). The generic metadata writers are assumed not to be called with the three
  bookkeeping keys, which only the registry itself writes. \<open>reg_inv\<close> is the invariant of the
  reachable states.
\<close>

section \<open>The invariant\<close>

definition project_row :: "codecs \<Rightarrow> string \<Rightarrow> db \<Rightarrow> project_record option" where
  "project_row J p s = Option.bind (fmlookup (projects s) p) (from_slice (project_json J))"

definition rows_ok :: "codecs \<Rightarrow> db \<Rightarrow> bool" where
  "rows_ok J s \<longleftrightarrow> (\<forall>p b. fmlookup (projects s) p = Some b \<longrightarrow>
     (\<exists>rec. from_slice (project_json J) b = Some rec \<and> project_id rec = p \<and> key_ok p))"

text \<open>The flag of a project row is the earliest pending requirement of the stored set.\<close>

definition mirror :: "codecs \<Rightarrow> string \<Rightarrow> db \<Rightarrow> bool" where
  "mirror J p s \<longleftrightarrow>
     Option.bind (project_row J p s) reindex_required_since_ms = Option.bind (stored_requirements J p s) since_ms"

definition minv :: "codecs \<Rightarrow> db \<Rightarrow> bool" where
  "minv J s \<longleftrightarrow> rows_ok J s \<and> (\<forall>p. key_ok p \<longrightarrow> mirror J p s)"

definition reg_inv :: "codecs \<Rightarrow> db \<Rightarrow> bool" where
  "reg_inv J s \<longleftrightarrow> rinv J s \<and> minv J s"

lemma reg_inv_empty: "codecs_ok J \<Longrightarrow> reg_inv J empty_db"
  by (simp add: reg_inv_def rinv_def minv_def rows_ok_def mirror_def empty_db_def project_row_def
      stored_requirements_def)

section \<open>The earliest requirement\<close>

lemma foldl_min_le: "foldl min (a :: u64) xs \<le> a \<and> (\<forall>x \<in> set xs. foldl min a xs \<le> x)
    \<and> foldl min a xs \<in> insert a (set xs)"
  by (induction xs arbitrary: a) (auto simp: min_def le_less_trans, force+)

lemma min_option_None [simp]: "min_option xs = None \<longleftrightarrow> xs = []"
  by (cases xs) auto

lemma min_option_Some: "min_option xs = Some m \<longleftrightarrow> m \<in> set xs \<and> (\<forall>x \<in> set xs. m \<le> x)"
proof (cases xs)
  case (Cons a ys)
  have "foldl min a ys = m \<longleftrightarrow> m \<in> set xs \<and> (\<forall>x \<in> set xs. m \<le> x)"
    using foldl_min_le [of a ys] by (auto simp: Cons intro: order_antisym)
  then show ?thesis by (simp add: Cons)
qed simp

lemma iter_Nil [simp]: "iter t = [] \<longleftrightarrow> t = fmempty"
proof
  assume "iter t = []"
  then have "fmlookup t k = None" for k using set_iter [of k _ t] by (cases "fmlookup t k") auto
  then show "t = fmempty" by (intro fmap_ext) simp
qed (simp add: iter_def sorted_list_of_fmap_def sorted_list_of_fset.rep_eq)

lemma since_ms_None [simp]: "since_ms r = None \<longleftrightarrow> pending r = fmempty"
  by (simp add: since_ms_def)

text \<open>\<open>since_ms\<close> is the least time of a pending requirement.\<close>

lemma since_ms_Some:
  "since_ms r = Some m \<longleftrightarrow>
     (\<exists>reason q. fmlookup (pending r) reason = Some q \<and> since_ms_of q = m)
     \<and> (\<forall>reason q. fmlookup (pending r) reason = Some q \<longrightarrow> m \<le> since_ms_of q)"
  unfolding since_ms_def min_option_Some
  by (auto simp: set_iter image_iff Bex_def Ball_def comp_def)

section \<open>Preserving the mirror\<close>

lemma stored_requirements_cong:
  "fmlookup (meta t) (reindex_key p) = fmlookup (meta s) (reindex_key p) \<Longrightarrow>
     stored_requirements J p t = stored_requirements J p s"
  by (simp add: stored_requirements_def)

lemma minv_frame:
  assumes "minv J s" and "projects t = projects s"
    and "\<And>p. key_ok p \<Longrightarrow> fmlookup (meta t) (reindex_key p) = fmlookup (meta s) (reindex_key p)"
  shows "minv J t"
  using assms by (simp add: minv_def rows_ok_def mirror_def project_row_def stored_requirements_def)

lemma minv_update:
  assumes "minv J s" and "codecs_ok J" and "key_ok p" and "project_id rec = p"
    and "projects t = fmupd p (to_vec (project_json J) rec) (projects s)"
    and "\<And>q. key_ok q \<Longrightarrow> q \<noteq> p \<Longrightarrow> fmlookup (meta t) (reindex_key q) = fmlookup (meta s) (reindex_key q)"
    and "reindex_required_since_ms rec = Option.bind (stored_requirements J p t) since_ms"
  shows "minv J t"
proof -
  have "rows_ok J t" using assms(1-5) by (auto simp: minv_def rows_ok_def)
  moreover have "mirror J q t" if "key_ok q" for q
  proof (cases "q = p")
    case True
    then show ?thesis using assms(2,5,7) by (simp add: mirror_def project_row_def)
  next
    case False
    then have "project_row J q t = project_row J q s" "stored_requirements J q t = stored_requirements J q s"
      using assms(5,6) that by (auto simp: project_row_def intro: stored_requirements_cong)
    then show ?thesis using assms(1) that by (simp add: minv_def mirror_def)
  qed
  ultimately show ?thesis by (simp add: minv_def)
qed

lemma minv_delete:
  assumes "minv J s" and "projects t = fmdrop p (projects s)"
    and "\<And>q. key_ok q \<Longrightarrow> q \<noteq> p \<Longrightarrow> fmlookup (meta t) (reindex_key q) = fmlookup (meta s) (reindex_key q)"
    and "Option.bind (stored_requirements J p t) since_ms = None"
  shows "minv J t"
proof -
  have "rows_ok J t" using assms(1,2) by (auto simp: minv_def rows_ok_def)
  moreover have "mirror J q t" if "key_ok q" for q
  proof (cases "q = p")
    case True
    then show ?thesis using assms(2,4) by (simp add: mirror_def project_row_def)
  next
    case False
    then have "project_row J q t = project_row J q s" "stored_requirements J q t = stored_requirements J q s"
      using assms(2,3) that by (auto simp: project_row_def intro: stored_requirements_cong)
    then show ?thesis using assms(1) that by (simp add: minv_def mirror_def)
  qed
  ultimately show ?thesis by (simp add: minv_def)
qed

section \<open>Reading under the invariant\<close>

lemma project_row_id:
  assumes "minv J s" and "project_row J p s = Some rec"
  shows "project_id rec = p" and "key_ok p"
  using assms by (force simp: project_row_def minv_def rows_ok_def bind_eq_Some_conv)+

lemma read_project_Inr: "read_project J p s = Inr x \<Longrightarrow> x = project_row J p s"
  by (auto simp: read_project_def project_row_def dest!: transposeR_Inr_D)

lemma mirrorD:
  assumes "minv J s" and "key_ok p" and "project_row J p s = Some rec"
  shows "reindex_required_since_ms rec = Option.bind (stored_requirements J p s) since_ms"
proof -
  have "mirror J p s" using assms by (simp add: minv_def)
  then show ?thesis unfolding mirror_def assms(3) by simp
qed

lemma read_project_row: "minv J s \<Longrightarrow> read_project J p s = Inr (project_row J p s)"
  by (cases "fmlookup (projects s) p") (force simp: read_project_def project_row_def minv_def rows_ok_def)+

lemma read_requirements_Inr:
  "read_requirements J p s = Inr x \<Longrightarrow> x = stored_requirements J p s"
  by (auto simp: read_requirements_def stored_requirements_def dest!: transposeR_Inr_D)

lemma read_requirements_stored:
  "rinv J s \<Longrightarrow> key_ok p \<Longrightarrow> read_requirements J p s = Inr (stored_requirements J p s)"
  by (cases "fmlookup (meta s) (reindex_key p)") (force simp: read_requirements_def stored_requirements_def rinv_def)+

lemma stored_bounded:
  assumes "rinv J s" and "key_ok p" and "stored_requirements J p s = Some r"
  shows "reqs_bounded (seq J s) r"
  using assms by (force simp: rinv_def stored_requirements_def bind_eq_Some_conv)

lemma reason_cell_stored:
  "key_ok p \<Longrightarrow> stored_requirements J p s = Some r \<Longrightarrow>
     reason_cell J p reason s = map_option revision_of (fmlookup (pending r) reason)"
  by (simp add: reason_cell_def)

text \<open>For a stored row there is nothing to import: the legacy path is dead after the first write.\<close>

lemma legacy_under_mirror:
  assumes "minv J s" and "key_ok p" and "project_row J p s = Some rec" and "stored_requirements J p s = None"
  shows "legacy (reindex_required_since_ms rec) = requirements_default"
  using mirrorD [OF assms(1-3)] assms(4) by (simp add: legacy_def)

lemma requirements_for_row:
  assumes "reg_inv J s" and "project_row J p s = Some rec"
    and "requirements_for_project_write J rec s = Inr (reqs, t)"
  shows "t = s" and "reqs = stored_requirements J p s"
proof -
  from assms(1) have m: "minv J s" and r: "rinv J s" by (simp_all add: reg_inv_def)
  note pid = project_row_id [OF m assms(2)]
  have "reindex_required_since_ms rec = Option.bind (stored_requirements J p s) since_ms"
    by (rule mirrorD [OF m pid(2) assms(2)])
  with assms(3) show "t = s" "reqs = stored_requirements J p s"
    by (auto simp: requirements_for_project_write_def pid read_requirements_stored [OF r pid(2)]
        read_project_row [OF m] assms(2) split: option.splits)
qed

lemma requirements_for_project_write_frame:
  assumes "requirements_for_project_write J rec s = Inr (reqs, t)"
  shows "projects t = projects s"
    and "key_ok q \<Longrightarrow> q \<noteq> project_id rec \<Longrightarrow> key_ok (project_id rec) \<Longrightarrow>
      fmlookup (meta t) (reindex_key q) = fmlookup (meta s) (reindex_key q)"
  using assms
  by (auto simp: requirements_for_project_write_def reindex_key_def Let_def
      split: option.splits dest!: next_revision_InrE(1))

section \<open>Requirement operations\<close>

lemma write_requirements_simps [simp]:
  "projects (write_requirements J rec r s)
     = fmupd (project_id rec) (to_vec (project_json J) (rec\<lparr>reindex_required_since_ms := since_ms r\<rparr>)) (projects s)"
  "meta (write_requirements J rec r s)
     = fmupd (reindex_key (project_id rec)) (to_vec (requirements_json J) r) (meta s)"
  by (simp_all add: write_requirements_def Let_def)

lemma minv_write_requirements:
  assumes "minv J s" and "codecs_ok J" and "key_ok (project_id rec)"
    and "projects s1 = projects s"
    and "\<And>q. key_ok q \<Longrightarrow> fmlookup (meta s1) (reindex_key q) = fmlookup (meta s) (reindex_key q)"
  shows "minv J (write_requirements J rec r s1)"
  by (rule minv_update [OF assms(1-3)])
    (use assms in \<open>auto simp: stored_requirements_def reindex_key_def\<close>)

text \<open>Replacing the stored set by one with fewer reasons, as settlement and dismissal do.\<close>

lemma drop_requirements_step:
  assumes "reg_inv J s" and "project_row J p s = Some rec" and "stored_requirements J p s = Some r"
    and "\<And>reason q. fmlookup d reason = Some q \<Longrightarrow> fmlookup (pending r) reason = Some q"
  shows "ratchets J s (write_requirements J rec (r\<lparr>pending := d\<rparr>) s)
       \<and> minv J (write_requirements J rec (r\<lparr>pending := d\<rparr>) s)"
proof
  from assms(1) have m: "minv J s" and ri: "rinv J s" and C: "codecs_ok J"
    by (simp_all add: reg_inv_def rinv_def)
  note pid = project_row_id [OF m assms(2)]
  have b: "reqs_bounded (seq J s) r" by (rule stored_bounded [OF ri pid(2) assms(3)])
  show "ratchets J s (write_requirements J rec (r\<lparr>pending := d\<rparr>) s)"
    by (rule ratchets_drop_requirements [OF pid(2)])
      (use b assms(4) pid in \<open>auto simp: reqs_bounded_def reason_cell_stored [OF pid(2) assms(3)]\<close>)
  show "minv J (write_requirements J rec (r\<lparr>pending := d\<rparr>) s)"
    using pid by (intro minv_write_requirements [OF m C]) simp_all
qed

lemma token_default [simp]: "token requirements_default p reason = None"
  by (simp add: token_def requirements_default_def)

lemma settle_cases:
  assumes "reg_inv J s" and "settle_reindex_requirement J tok s = Inr (b, t)"
  obtains (no) "\<not> b" "t = s"
  | (yes) rec r where b "key_ok (tok_project_id tok)" "project_row J (tok_project_id tok) s = Some rec"
      "stored_requirements J (tok_project_id tok) s = Some r"
      "token r (tok_project_id tok) (tok_reason tok) = Some tok"
      "t = write_requirements J rec (r\<lparr>pending := fmdrop (tok_reason tok) (pending r)\<rparr>) s"
proof -
  from assms(1) have m: "minv J s" and ri: "rinv J s" by (simp_all add: reg_inv_def)
  let ?p = "tok_project_id tok"
  have k: "key_ok ?p" using assms(2) by (auto simp: settle_reindex_requirement_def)
  show thesis
  proof (cases "project_row J ?p s")
    case None
    with assms(2) k m show thesis
      by (intro no) (auto simp: settle_reindex_requirement_def read_project_row)
  next
    case (Some rec)
    show thesis
    proof (cases "stored_requirements J ?p s")
      case None
      with assms(2) k m Some ri show thesis
        by (intro no) (auto simp: settle_reindex_requirement_def read_project_row
            read_requirements_stored legacy_under_mirror [OF m k Some] Let_def)
    next
      case (Some r)
      with assms(2) k m \<open>project_row J ?p s = Some rec\<close> ri show thesis
        by (cases "token r ?p (tok_reason tok) = Some tok"; intro no yes)
          (auto simp: settle_reindex_requirement_def read_project_row read_requirements_stored Let_def)
    qed
  qed
qed

lemma settle_step:
  assumes "reg_inv J s" and "settle_reindex_requirement J tok s = Inr (b, t)"
  shows "ratchets J s t \<and> minv J t"
  using assms
proof (cases rule: settle_cases)
  case no
  with assms(1) show ?thesis by (simp add: reg_inv_def)
next
  case (yes rec r)
  show ?thesis unfolding yes(6)
    by (rule drop_requirements_step [OF assms(1) yes(3,4)]) (auto split: if_splits)
qed

lemma dismiss_step:
  assumes "reg_inv J s" and "dismiss_reindex_requirements J p s = Inr (u, t)"
  shows "ratchets J s t \<and> minv J t"
proof -
  from assms(1) have m: "minv J s" and ri: "rinv J s" by (simp_all add: reg_inv_def)
  have k: "key_ok p" using assms(2) by (auto simp: dismiss_reindex_requirements_def)
  show ?thesis
  proof (cases "t = s")
    case False
    then obtain rec where row: "project_row J p s = Some rec"
      using assms(2) m by (auto simp: dismiss_reindex_requirements_def read_project_row split: option.splits)
    show ?thesis
    proof (cases "stored_requirements J p s")
      case None
      with False assms(2) m k row ri show ?thesis
        by (auto simp: dismiss_reindex_requirements_def read_project_row read_requirements_stored
            legacy_under_mirror [OF m k row] Let_def requirements_default_def)
    next
      case (Some r)
      with False assms(2) m k row ri have "t = write_requirements J rec (r\<lparr>pending := fmempty\<rparr>) s"
        by (auto simp: dismiss_reindex_requirements_def read_project_row read_requirements_stored
            Let_def split: if_splits)
      then show ?thesis using drop_requirements_step [OF assms(1) row Some, of fmempty] by simp
    qed
  qed (simp add: m)
qed

lemma record_cases:
  assumes "reg_inv J s" and "record_reindex_requirement J p reason since only s = Inr (x, t)"
  obtains (absent) "project_row J p s = None" "x = None" "t = s"
  | (present) tok r where "key_ok p" "only" "stored_requirements J p s = Some r"
      "token r p reason = Some tok" "x = Some (tok, False)" "t = s"
  | (recorded) rec r n s2 since' where "key_ok p" "project_row J p s = Some rec"
      "r = (case stored_requirements J p s of Some r \<Rightarrow> r | None \<Rightarrow> requirements_default)"
      "next_revision J (req_revision r) s = Inr (n, s2)"
      "since' = (case fmlookup (pending r) reason of None \<Rightarrow> since | Some q \<Rightarrow> min (since_ms_of q) since)"
      "x = Some (\<lparr> tok_project_id = p, tok_reason = reason, tok_revision = n \<rparr>, True)"
      "t = write_requirements J (rec\<lparr>project_updated_at_ms := max (project_updated_at_ms rec) since'\<rparr>)
         (r\<lparr>req_revision := n, pending := fmupd reason \<lparr> since_ms_of = since', revision_of = n \<rparr> (pending r)\<rparr>) s2"
proof -
  from assms(1) have m: "minv J s" by (simp add: reg_inv_def)
  have k: "key_ok p" using assms(2) by (auto simp: record_reindex_requirement_def)
  show thesis
  proof (cases "project_row J p s")
    case None
    with assms(2) k m show thesis
      by (intro absent) (auto simp: record_reindex_requirement_def read_project_row)
  next
    case (Some rec)
    with assms(2) k m obtain stored s1 where w: "requirements_for_project_write J rec s = Inr (stored, s1)"
      by (auto simp: record_reindex_requirement_def read_project_row)
    note req = requirements_for_row [OF assms(1) Some w]
    define r where "r = (case stored_requirements J p s of Some r \<Rightarrow> r | None \<Rightarrow> requirements_default)"
    show thesis
    proof (cases "if only then token r p reason else None")
      case None
      have fold: "(case stored of None \<Rightarrow> requirements_default | Some r \<Rightarrow> r) = r"
        by (simp add: r_def req split: option.split)
      let ?since = "case fmlookup (pending r) reason of None \<Rightarrow> since | Some q \<Rightarrow> min (since_ms_of q) since"
      obtain n s2 where n: "next_revision J (req_revision r) s = Inr (n, s2)"
        and x: "x = Some (\<lparr> tok_project_id = p, tok_reason = reason, tok_revision = n \<rparr>, True)"
        and t: "t = write_requirements J (rec\<lparr>project_updated_at_ms := max (project_updated_at_ms rec) ?since\<rparr>)
           (r\<lparr>req_revision := n, pending := fmupd reason \<lparr> since_ms_of = ?since, revision_of = n \<rparr> (pending r)\<rparr>) s2"
        using assms(2) unfolding record_reindex_requirement_def
        by (simp add: k m Some w read_project_row req(1), subst (asm) fold, auto simp: None Let_def token_def)
      show thesis by (rule recorded [OF k Some r_def n refl x t])
    next
      case (Some tok)
      then have o: only and tk: "token r p reason = Some tok" by (auto split: if_splits)
      then obtain r' where r': "stored_requirements J p s = Some r'" "r = r'"
        by (cases "stored_requirements J p s") (auto simp: r_def)
      with assms(2) k m \<open>project_row J p s = Some rec\<close> w req o tk show thesis
        by (intro present [of r tok]) (auto simp: record_reindex_requirement_def read_project_row Let_def)
    qed
  qed
qed

lemma record_step:
  assumes "reg_inv J s" and "record_reindex_requirement J p reason since only s = Inr (x, t)"
  shows "ratchets J s t \<and> minv J t"
  using assms
proof (cases rule: record_cases)
  case (recorded rec r n s2 since')
  from assms(1) have m: "minv J s" and ri: "rinv J s" and C: "codecs_ok J"
    by (simp_all add: reg_inv_def rinv_def)
  note E = next_revision_InrE [OF recorded(4)] and pid = project_row_id [OF m recorded(2)]
  have old: "revision_of q \<le> req_revision r \<and> reason_cell J p reason' s = Some (revision_of q)"
    if "fmlookup (pending r) reason' = Some q" for reason' q
    using that recorded(3) stored_bounded [OF ri recorded(1)]
    by (cases "stored_requirements J p s")
      (auto simp: requirements_default_def reqs_bounded_def reason_cell_stored [OF recorded(1)])
  have "ratchets J s t"
    by (rule ratchets_alloc_requirements [OF recorded(4,1),
          of "r\<lparr>req_revision := n, pending := fmupd reason \<lparr> since_ms_of = since', revision_of = n \<rparr> (pending r)\<rparr>"])
      (use E old pid in \<open>auto simp: recorded(7) reqs_bounded_def dest: old split: if_splits intro: order_trans\<close>)
  moreover have "minv J t"
    unfolding recorded(7) by (rule minv_write_requirements [OF m C])
      (use E pid in \<open>auto simp: reindex_key_def\<close>)
  ultimately show ?thesis ..
qed (use assms(1) in \<open>simp_all add: reg_inv_def\<close>)

section \<open>Steps that keep projects and requirements\<close>

definition quiet :: "codecs \<Rightarrow> db \<Rightarrow> db \<Rightarrow> bool" where
  "quiet J s t \<longleftrightarrow> ratchets J s t \<and> projects t = projects s
     \<and> (\<forall>p. key_ok p \<longrightarrow> fmlookup (meta t) (reindex_key p) = fmlookup (meta s) (reindex_key p))"

lemma quiet_refl [simp, intro]: "quiet J s s"
  by (simp add: quiet_def)

lemma quiet_trans [trans]: "quiet J s t \<Longrightarrow> quiet J t u \<Longrightarrow> quiet J s u"
  by (auto simp: quiet_def intro: ratchets_trans)

lemma quiet_step: "quiet J s t \<Longrightarrow> reg_inv J s \<Longrightarrow> ratchets J s t \<and> minv J t"
  by (auto simp: quiet_def reg_inv_def intro: minv_frame)

lemma quiet_frame:
  "projects t = projects s \<Longrightarrow> (\<And>k. guarded k \<Longrightarrow> fmlookup (meta t) k = fmlookup (meta s) k) \<Longrightarrow> quiet J s t"
  by (auto simp: quiet_def reindex_key_def bookkeeping_def intro: ratchets_frame)

lemma quiet_put_meta [intro]: "key_ok p \<Longrightarrow> k \<notin> bookkeeping \<Longrightarrow> quiet J s (put_meta (composite p k) v s)"
  by (rule quiet_frame) auto

lemma quiet_next_revision: "next_revision J flr s = Inr (n, t) \<Longrightarrow> quiet J s t"
  by (auto simp: quiet_def ratchets_next_revision reindex_key_def dest: next_revision_InrE)

lemma quiet_advance_revision: "advance_revision J p s = Inr (n, t) \<Longrightarrow> key_ok p \<Longrightarrow> quiet J s t"
  by (auto simp: quiet_def ratchets_advance_revision meta_keys dest: advance_revision_InrE)

lemma quiet_mark_identity_unverified:
  "mark_identity_unverified J p s = Inr (n, t) \<Longrightarrow> key_ok p \<Longrightarrow> quiet J s t"
  by (auto simp: quiet_def ratchets_mark_identity_unverified meta_keys dest: mark_identity_unverified_InrE)

lemma unguarded_keys [simp]:
  "HEAD \<notin> bookkeeping" "REQUIRED \<notin> bookkeeping" "MANAGED \<notin> bookkeeping"
  "IDENTITY_VERIFIED \<notin> bookkeeping" "LEGACY_ATTESTED \<notin> bookkeeping"
  by (simp_all add: bookkeeping_def)

text \<open>The four flags a publication writes after it advanced the revision.\<close>

lemma quiet_published:
  assumes "quiet J s t" and "key_ok p"
  shows "quiet J s (put_meta (head_key p) g (put_meta (flag_key p IDENTITY_VERIFIED) v
      (put_meta (flag_key p MANAGED) m (mark_head_required p t))))"
proof (rule quiet_trans [OF assms(1)])
  show "quiet J t (put_meta (head_key p) g (put_meta (flag_key p IDENTITY_VERIFIED) v
      (put_meta (flag_key p MANAGED) m (mark_head_required p t))))"
    by (rule quiet_frame) (use assms(2) in \<open>auto simp: mark_head_required_def meta_keys\<close>)
qed

section \<open>Source-head operations\<close>

lemma recovery_matches_row:
  assumes "minv J s" and "recovery_matches J base s = Inr (Some n)"
  shows "key_ok (rt_project_id base)"
  using assms project_row_id(2) [OF assms(1), of "rt_project_id base"]
  by (auto simp: recovery_matches_def read_project_row split: option.splits)

lemma reserve_quiet:
  assumes "reserve_source_recovery J base flr s = Inr (x, t)"
  shows "quiet J s t"
  using assms
  by (auto simp: reserve_source_recovery_def Let_def split: option.splits intro: quiet_next_revision)

lemma publish_recovery_cases:
  assumes "publish_source_recovery J rsv s = Inr (b, t)"
  obtains (no) "\<not> b" "t = s"
  | (yes) sequence n s1 where b "recovery_matches J (rr_base rsv) s = Inr (Some sequence)"
      "rr_generation rsv \<le> sequence"
      "advance_revision J (rt_project_id (rr_base rsv)) s = Inr (n, s1)"
      "t = put_meta (head_key (rt_project_id (rr_base rsv))) (show_u64 (rr_generation rsv))
             (put_meta (flag_key (rt_project_id (rr_base rsv)) IDENTITY_VERIFIED) ''1''
               (put_meta (flag_key (rt_project_id (rr_base rsv)) MANAGED) ''1''
                 (mark_head_required (rt_project_id (rr_base rsv)) s1)))"
  using assms by (auto simp: publish_source_recovery_def Let_def split: option.splits)

lemma publish_recovery_quiet:
  assumes "minv J s" and "publish_source_recovery J rsv s = Inr (b, t)"
  shows "quiet J s t"
  using assms(2)
proof (cases rule: publish_recovery_cases)
  case (yes sequence n s1)
  note k = recovery_matches_row [OF assms(1) yes(2)]
  show ?thesis unfolding yes(5)
    by (rule quiet_published [OF quiet_advance_revision [OF yes(4) k] k])
qed simp

lemma row_key_ok: "minv J s \<Longrightarrow> read_project J p s = Inr (Some rec) \<Longrightarrow> key_ok p"
  by (metis read_project_Inr project_row_id(2))

lemma capture_write_quiet:
  assumes "minv J s" and "capture_write J p s = Inr (tok, t)"
  shows "quiet J s t"
proof -
  obtain project rev er ee rev' e s1 where "read_project J p s = Inr (Some project)"
    and 1: "(case er of Some r \<Rightarrow> Inr (r, s) | None \<Rightarrow> advance_revision J p s) = Inr (rev, s1)"
    and 2: "(case ee of Some e \<Rightarrow> Inr ((rev, e), s1)
            | None \<Rightarrow> bindR (mark_identity_unverified J p s1) (\<lambda>(e, s2). Inr ((e, e), s2))) = Inr ((rev', e), t)"
    using assms(2) by (auto simp: capture_write_def Let_def)
  then have k: "key_ok p" using row_key_ok [OF assms(1)] by blast
  have "quiet J s s1" using 1 k by (auto split: option.splits intro: quiet_advance_revision)
  also have "quiet J s1 t" using 2 k by (auto split: option.splits intro: quiet_mark_identity_unverified)
  finally show ?thesis .
qed

lemma attest_write_quiet:
  assumes "minv J s" and "attest_unchanged_write J base s = Inr (b, t)"
  shows "quiet J s t"
proof (cases "attest_check J base s = Inr None")
  case True
  then obtain rec where "read_project J (ht_project_id base) s = Inr (Some rec)"
    by (auto simp: attest_check_def Let_def split: option.splits)
  then have k: "key_ok (ht_project_id base)" using row_key_ok [OF assms(1)] by blast
  from True assms(2) obtain n s1 where "advance_revision J (ht_project_id base) s = Inr (n, s1)"
    and t: "t = put_meta (flag_key (ht_project_id base) IDENTITY_VERIFIED) ''1'' s1"
    by (auto simp: attest_unchanged_write_def)
  then have "quiet J s s1" using k by (auto intro: quiet_advance_revision)
  also have "quiet J s1 t" using k by (auto simp: t flag_key_def)
  finally show ?thesis .
qed (use assms(2) in \<open>auto simp: attest_unchanged_write_def split: option.splits\<close>)

lemma attest_legacy_cases:
  assumes "attest_legacy_source_head J base s = Inr (b, t)"
  obtains (same) "t = s"
  | (attested) rec where b "read_project J (ht_project_id base) s = Inr (Some rec)"
      "t = put_meta (flag_key (ht_project_id base) LEGACY_ATTESTED) ''1'' s"
proof (cases "t = s")
  case False
  then obtain rec where rec: "read_project J (ht_project_id base) s = Inr (Some rec)"
    using assms by (auto simp: attest_legacy_source_head_def Let_def split: option.splits)
  with False assms have "b" "t = put_meta (flag_key (ht_project_id base) LEGACY_ATTESTED) ''1'' s"
    by (auto simp: attest_legacy_source_head_def Let_def split: option.splits if_splits)
  with rec show thesis by (intro attested)
qed (rule same)

lemma attest_legacy_quiet:
  assumes "minv J s" and "attest_legacy_source_head J base s = Inr (b, t)"
  shows "quiet J s t"
  using assms(2)
proof (cases rule: attest_legacy_cases)
  case (attested rec)
  then show ?thesis using row_key_ok [OF assms(1)] by (auto simp: flag_key_def)
qed simp

lemma publish_cases:
  assumes "publish_source_head J base next s = Inr (b, t)"
  obtains (no) "\<not> b" "t = s"
  | (yes) rec n s1 where b "ht_generation base < next"
      "read_project J (ht_project_id base) s = Inr (Some rec)"
      "matches_source_identity (ht_directory base) (ht_project_type base) rec"
      "read_revision (revision_key (ht_project_id base)) s = Inr (Some (ht_revision base))"
      "read_revision (flag_key (ht_project_id base) IDENTITY_EPOCH) s = Inr (Some (ht_identity_epoch base))"
      "fmlookup (meta s) (flag_key (ht_project_id base) MANAGED) = ht_managed base"
      "fmlookup (meta s) (head_key (ht_project_id base)) = ht_raw_head base"
      "advance_revision J (ht_project_id base) s = Inr (n, s1)"
      "t = put_meta (head_key (ht_project_id base)) (show_u64 next)
             (put_meta (flag_key (ht_project_id base) IDENTITY_VERIFIED) ''1''
               (put_meta (flag_key (ht_project_id base) MANAGED) ''1''
                 (mark_head_required (ht_project_id base) s1)))"
  using assms
  by (auto simp: publish_source_head_def Let_def split: option.splits if_splits)

lemma publish_quiet:
  assumes "minv J s" and "publish_source_head J base next s = Inr (b, t)"
  shows "quiet J s t"
  using assms(2)
proof (cases rule: publish_cases)
  case (yes rec n s1)
  have k: "key_ok (ht_project_id base)" using row_key_ok [OF assms(1) yes(3)] .
  show ?thesis unfolding yes(10)
    by (rule quiet_published [OF quiet_advance_revision [OF yes(9) k] k])
qed simp

section \<open>Metadata writers\<close>

lemma head_write_quiet:
  assumes "(if c then bindR (advance_revision J p s) (\<lambda>(_, s1). mark_identity_unverified J p s1)
            else Inr (0, s)) = Inr (n, t)" and "key_ok p"
  shows "quiet J s t"
proof (cases c)
  case True
  with assms(1) obtain m s1 where "advance_revision J p s = Inr (m, s1)" "mark_identity_unverified J p s1 = Inr (n, t)"
    by auto
  with assms(2) show ?thesis by (blast intro: quiet_trans quiet_advance_revision quiet_mark_identity_unverified)
qed (use assms in auto)

lemma meta_write_quiet:
  assumes "key_ok p" and "key \<notin> bookkeeping"
  shows "quiet J s (put_meta (composite p key) v (if key = HEAD then mark_head_required p s else s))"
proof -
  have "quiet J s (if key = HEAD then mark_head_required p s else s)"
    using assms by (auto simp: mark_head_required_def flag_key_def)
  also have "quiet J \<dots> (put_meta (composite p key) v (if key = HEAD then mark_head_required p s else s))"
    using assms by auto
  finally show ?thesis .
qed

lemma set_meta_quiet:
  assumes "set_meta J p key v s = Inr (u, t)" and "key \<notin> bookkeeping"
  shows "quiet J s t"
proof -
  obtain n s2 where k: "key_ok p"
    and w: "(if key = HEAD \<and> fmlookup (meta s) (composite p key) \<noteq> Some v
            then bindR (advance_revision J p s) (\<lambda>(_, s1). mark_identity_unverified J p s1)
            else Inr (0, s)) = Inr (n, s2)"
    and t: "t = put_meta (composite p key) v (if key = HEAD then mark_head_required p s2 else s2)"
    using assms(1) by (auto simp: set_meta_def Let_def)
  show ?thesis unfolding t
    by (rule quiet_trans [OF head_write_quiet [OF w k] meta_write_quiet [OF k assms(2)]])
qed

lemma compare_exchange_quiet:
  assumes "compare_exchange_meta J p key expected v s = Inr (b, t)" and "key \<notin> bookkeeping"
  shows "quiet J s t"
proof (cases "fmlookup (meta s) (composite p key) = expected")
  case True
  obtain n s2 where k: "key_ok p"
    and w: "(if key = HEAD \<and> expected \<noteq> Some v
            then bindR (advance_revision J p s) (\<lambda>(_, s1). mark_identity_unverified J p s1)
            else Inr (0, s)) = Inr (n, s2)"
    and t: "t = put_meta (composite p key) v (if key = HEAD then mark_head_required p s2 else s2)"
    using assms(1) True by (auto simp: compare_exchange_meta_def Let_def)
  show ?thesis unfolding t
    by (rule quiet_trans [OF head_write_quiet [OF w k] meta_write_quiet [OF k assms(2)]])
qed (use assms in \<open>auto simp: compare_exchange_meta_def Let_def\<close>)

lemma compare_exchange_companion_quiet:
  assumes "compare_exchange_meta_with_companion p key expected v ck cv s = Inr (b, t)"
    and "key \<notin> bookkeeping" and "ck \<notin> bookkeeping"
  shows "quiet J s t"
proof (cases "t = s")
  case False
  with assms(1) have "key_ok p" and "t = put_meta (composite p ck) cv (put_meta (composite p key) v s)"
    by (auto simp: compare_exchange_meta_with_companion_def Let_def split: if_splits)
  with assms(2,3) show ?thesis by (intro quiet_frame) auto
qed simp

section \<open>Project operations\<close>

lemma put_project_cases:
  assumes "put_project J rec s = Inr (u, t)"
  obtains s3 reqs s4 where "key_ok (project_id rec)" "quiet J s s3"
    "requirements_for_project_write J rec s3 = Inr (reqs, s4)"
    "t = s4\<lparr>projects := fmupd (project_id rec) (to_vec (project_json J) (case reqs of None \<Rightarrow> rec
          | Some r \<Rightarrow> rec\<lparr>reindex_required_since_ms := since_ms r\<rparr>)) (projects s4)\<rparr>"
proof -
  let ?p = "project_id rec"
  obtain c s3 reqs s4 where k: "key_ok ?p"
    and adv: "(if c then bindR (advance_revision J ?p s) (\<lambda>(_, s1).
                    bindR (mark_identity_unverified J ?p s1) (\<lambda>(_, s2). Inr ((), s2)))
               else Inr ((), s)) = Inr ((), s3)"
    and w: "requirements_for_project_write J rec s3 = Inr (reqs, s4)"
    and t: "t = s4\<lparr>projects := fmupd ?p (to_vec (project_json J) (case reqs of None \<Rightarrow> rec
                        | Some r \<Rightarrow> rec\<lparr>reindex_required_since_ms := since_ms r\<rparr>)) (projects s4)\<rparr>"
    using assms by (auto simp: put_project_def Let_def)
  have q: "quiet J s s3"
    using adv k by (auto split: if_splits
        intro: quiet_trans [OF quiet_advance_revision quiet_mark_identity_unverified])
  show thesis by (rule that [OF k q w t])
qed

lemma put_project_step:
  assumes "reg_inv J s" and "put_project J rec s = Inr (u, t)"
  shows "ratchets J s t \<and> minv J t"
proof -
  let ?p = "project_id rec"
  from assms(1) have m: "minv J s" and ri: "rinv J s" and C: "codecs_ok J"
    by (simp_all add: reg_inv_def rinv_def)
  obtain s3 reqs s4 where k: "key_ok ?p" and q: "quiet J s s3"
    and w: "requirements_for_project_write J rec s3 = Inr (reqs, s4)"
    and t: "t = s4\<lparr>projects := fmupd ?p (to_vec (project_json J) (case reqs of None \<Rightarrow> rec
                        | Some r \<Rightarrow> rec\<lparr>reindex_required_since_ms := since_ms r\<rparr>)) (projects s4)\<rparr>"
    by (rule put_project_cases [OF assms(2)])
  have r3: "rinv J s3" using q ri by (simp add: quiet_def ratchets_def)
  have r4: "ratchets J s3 s4" by (rule ratchets_requirements_for_project_write [OF w k])
  have "ratchets J s4 t" by (rule ratchets_same_meta) (simp add: t)
  then have "ratchets J s t"
    using q by (meson quiet_def ratchets_trans r4)
  moreover have "minv J t"
  proof (rule minv_update [OF m C k])
    show "projects t = fmupd ?p (to_vec (project_json J) (case reqs of None \<Rightarrow> rec
                        | Some r \<Rightarrow> rec\<lparr>reindex_required_since_ms := since_ms r\<rparr>)) (projects s)"
      using q requirements_for_project_write_frame(1) [OF w] by (simp add: t quiet_def)
    show "fmlookup (meta t) (reindex_key q) = fmlookup (meta s) (reindex_key q)" if "key_ok q" "q \<noteq> ?p" for q
      using \<open>quiet J s s3\<close> requirements_for_project_write_frame(2) [OF w that(1,2)] that k
      by (simp add: t quiet_def)
    show "reindex_required_since_ms (case reqs of None \<Rightarrow> rec
             | Some r \<Rightarrow> rec\<lparr>reindex_required_since_ms := since_ms r\<rparr>)
          = Option.bind (stored_requirements J ?p t) since_ms"
    proof (cases reqs)
      case None
      with requirements_for_project_write_None [of J rec s3 s4] w
      have "s4 = s3" "stored_requirements J ?p s4 = None" by (auto simp: stored_requirements_def)
      moreover from w None have "reindex_required_since_ms rec = None"
        by (auto simp: requirements_for_project_write_def Let_def split: option.splits)
      ultimately show ?thesis using None by (simp add: t stored_requirements_def)
    next
      case (Some r)
      with requirements_for_project_write_Some(1) [OF _ k r3] w
      have "stored_requirements J ?p s4 = Some r" by blast
      then show ?thesis using Some by (simp add: t stored_requirements_def)
    qed
  qed (auto split: option.split)
  ultimately show ?thesis ..
qed

lemma clear_pending_effect:
  assumes "reg_inv J s" and "clear_pending_on_delete J p s = Inr (u, t)" and "key_ok p"
  shows "ratchets J s t" and "projects t = projects s"
    and "key_ok q \<Longrightarrow> k \<noteq> REINDEX_KEY \<or> q \<noteq> p \<Longrightarrow> fmlookup (meta t) (composite q k) = fmlookup (meta s) (composite q k)"
    and "Option.bind (stored_requirements J p t) since_ms = None"
    and "memory_bank t = memory_bank s" "repo_rules t = repo_rules s" "watches t = watches s" "jobs t = jobs s"
proof -
  from assms(1) have m: "minv J s" and ri: "rinv J s" and C: "codecs_ok J"
    by (simp_all add: reg_inv_def rinv_def)
  show "ratchets J s t"
    by (rule ratchets_clear_pending_on_delete [OF assms(2,3)])
      (use m in \<open>metis read_project_Inr project_row_id(1)\<close>)
  obtain reqs s1
    where w: "(case project_row J p s of Some rec \<Rightarrow> requirements_for_project_write J rec s
             | None \<Rightarrow> bindR (read_requirements J p s) (\<lambda>r. Inr (r, s))) = Inr (reqs, s1)"
    and e: "(case reqs of None \<Rightarrow> Inr ((), s1)
     | Some r \<Rightarrow> bindR (next_revision J (req_revision r) s1) (\<lambda>(rev, s2).
         Inr ((), put_meta (reindex_key p)
           (to_vec (requirements_json J) (r\<lparr>req_revision := rev, pending := fmempty\<rparr>)) s2))) = Inr (u, t)"
    using assms(2) by (auto simp: clear_pending_on_delete_def read_project_row [OF m])
  have "s1 = s" "reqs = stored_requirements J p s"
    using w requirements_for_row [OF assms(1)]
    by (cases "project_row J p s"; auto simp: read_requirements_stored [OF ri assms(3)])+
  note e = e [unfolded this]
  from e show "projects t = projects s" "memory_bank t = memory_bank s" "repo_rules t = repo_rules s"
    "watches t = watches s" "jobs t = jobs s"
    by (auto split: option.splits dest!: next_revision_InrE(1))
  show "fmlookup (meta t) (composite q k) = fmlookup (meta s) (composite q k)" if "key_ok q" "k \<noteq> REINDEX_KEY \<or> q \<noteq> p"
    using e that assms(3) by (auto simp: reindex_key_def split: option.splits dest!: next_revision_InrE(1))
  show "Option.bind (stored_requirements J p t) since_ms = None"
  proof (cases "stored_requirements J p s")
    case None
    with e show ?thesis by simp
  next
    case (Some r)
    with e obtain n s2 where "t = put_meta (reindex_key p)
        (to_vec (requirements_json J) (r\<lparr>req_revision := n, pending := fmempty\<rparr>)) s2" by auto
    with C show ?thesis by (simp add: stored_requirements_def)
  qed
qed

lemma delete_project_step:
  assumes "reg_inv J s" and "delete_project J p s = Inr (u, t)"
  shows "ratchets J s t \<and> minv J t"
proof -
  obtain s1 where k: "key_ok p" and c: "clear_pending_on_delete J p s = Inr ((), s1)"
    and t: "t = s1\<lparr>projects := fmdrop p (projects s1)\<rparr>"
    using assms(2) by (auto simp: delete_project_def)
  note E = clear_pending_effect [OF assms(1) c k]
  have "ratchets J s t" by (rule ratchets_trans [OF E(1) ratchets_same_meta]) (simp add: t)
  moreover have "minv J t"
  proof (rule minv_delete)
    show "minv J s" using assms(1) by (simp add: reg_inv_def)
    show "fmlookup (meta t) (reindex_key q) = fmlookup (meta s) (reindex_key q)" if "key_ok q" "q \<noteq> p" for q
      using E(3) that by (simp add: t reindex_key_def)
  qed (use E in \<open>simp_all add: t stored_requirements_def\<close>)
  ultimately show ?thesis ..
qed

lemma lookup_remove_prefix: "fmlookup (remove_prefix p t) k = (if prefix p k then None else fmlookup t k)"
  unfolding remove_prefix_def by (rule remove_prefix_lookup)

lemma delete_all_cases:
  assumes "delete_all_for_project J p s = Inr (u, t)"
  obtains s1 rows where "key_ok p" "clear_pending_on_delete J p s = Inr ((), s1)"
    "traverseR (\<lambda>(k, v). bindR (decode (job_json J) v) (\<lambda>j. Inr (k, j))) (iter (jobs s1)) = Inr rows"
    "t = s1\<lparr>projects := fmdrop p (projects s1),
            memory_bank := remove_prefix (p @ [NUL]) (memory_bank s1),
            repo_rules := remove_prefix (p @ [NUL]) (repo_rules s1),
            watches := remove_prefix (p @ [NUL]) (watches s1),
            jobs := remove_keys (map fst (filter (\<lambda>(k, j). job_project_id j = Some p) rows)) (jobs s1),
            meta := remove_prefix (p @ [NUL]) (meta s1)\<rparr>"
  using assms by (auto simp: delete_all_for_project_def Let_def)

lemma sequence_prefix [simp]: "key_ok p \<Longrightarrow> \<not> prefix (p @ [NUL]) REVISION_SEQUENCE"
  by (cases p) (auto simp: REVISION_SEQUENCE_def key_ok_def)

lemma delete_all_step:
  assumes "reg_inv J s" and "delete_all_for_project J p s = Inr (u, t)"
  shows "ratchets J s t \<and> minv J t"
  using assms(2)
proof (cases rule: delete_all_cases)
  case (1 s1 rows)
  note k = 1(1) and t = 1(4) and E = clear_pending_effect [OF assms(1) 1(2,1)]
  have "ratchets J s1 t"
    by (rule ratchets_erase) (use k in \<open>simp_all add: t lookup_remove_prefix\<close>)
  with E(1) have "ratchets J s t" by (rule ratchets_trans)
  moreover have "minv J t"
  proof (rule minv_delete)
    show "minv J s" using assms(1) by (simp add: reg_inv_def)
    show "fmlookup (meta t) (reindex_key q) = fmlookup (meta s) (reindex_key q)" if "key_ok q" "q \<noteq> p" for q
      using E(3) that k by (simp add: t reindex_key_def lookup_remove_prefix)
  qed (use E(2) k in \<open>simp_all add: t stored_requirements_def reindex_key_def lookup_remove_prefix\<close>)
  ultimately show ?thesis ..
qed

lemma register_step:
  assumes "reg_inv J s" and "register_source_project J rec s = Inr (u, t)"
    and "reindex_required_since_ms rec = None"
  shows "ratchets J s t \<and> minv J t"
proof -
  let ?p = "project_id rec"
  let ?s1 = "s\<lparr>projects := fmupd ?p (to_vec (project_json J) rec) (projects s)\<rparr>"
  from assms(1) have m: "minv J s" and C: "codecs_ok J" by (simp_all add: reg_inv_def rinv_def)
  obtain n s3 n' where k: "key_ok ?p" and new: "fmlookup (projects s) ?p = None"
    and 1: "advance_revision J ?p (put_meta (head_key ?p) ''0'' ?s1) = Inr (n, s3)"
    and 2: "mark_identity_unverified J ?p (mark_head_required ?p s3) = Inr (n', t)"
    using assms(2) by (auto simp: register_source_project_def Let_def)
  have "quiet J ?s1 (put_meta (head_key ?p) ''0'' ?s1)"
    using quiet_put_meta [OF k, of HEAD J ?s1] by (simp add: head_key_def)
  also have "quiet J \<dots> s3" by (rule quiet_advance_revision [OF 1 k])
  also have "quiet J \<dots> (mark_head_required ?p s3)" using k by (auto simp: mark_head_required_def flag_key_def)
  also have "quiet J \<dots> t" by (rule quiet_mark_identity_unverified [OF 2 k])
  finally have q: "quiet J ?s1 t" .
  have "ratchets J s ?s1" by auto
  with q have "ratchets J s t" by (auto simp: quiet_def intro: ratchets_trans)
  moreover have "minv J t"
  proof (rule minv_update [OF m C k refl])
    have "mirror J ?p s" using m k by (simp add: minv_def)
    with new have "Option.bind (stored_requirements J ?p s) since_ms = None"
      by (simp add: mirror_def project_row_def)
    with q k assms(3) show "reindex_required_since_ms rec = Option.bind (stored_requirements J ?p t) since_ms"
      by (simp add: quiet_def stored_requirements_def)
  qed (use q in \<open>auto simp: quiet_def\<close>)
  ultimately show ?thesis ..
qed

section \<open>The state machine\<close>

inductive reg_step :: "codecs \<Rightarrow> db \<Rightarrow> db \<Rightarrow> bool" for J where
  put_project: "put_project J rec s = Inr (u, t) \<Longrightarrow> reg_step J s t"
| delete_project: "delete_project J p s = Inr (u, t) \<Longrightarrow> reg_step J s t"
| delete_all: "delete_all_for_project J p s = Inr (u, t) \<Longrightarrow> reg_step J s t"
| register: "reindex_required_since_ms rec = None \<Longrightarrow> register_source_project J rec s = Inr (u, t) \<Longrightarrow> reg_step J s t"
| record_requirement: "record_reindex_requirement J p reason since only s = Inr (x, t) \<Longrightarrow> reg_step J s t"
| settle: "settle_reindex_requirement J tok s = Inr (b, t) \<Longrightarrow> reg_step J s t"
| dismiss: "dismiss_reindex_requirements J p s = Inr (u, t) \<Longrightarrow> reg_step J s t"
| capture: "capture_write J p s = Inr (tk, t) \<Longrightarrow> reg_step J s t"
| attest: "attest_unchanged_write J base s = Inr (b, t) \<Longrightarrow> reg_step J s t"
| attest_legacy: "attest_legacy_source_head J base s = Inr (b, t) \<Longrightarrow> reg_step J s t"
| publish: "publish_source_head J base next s = Inr (b, t) \<Longrightarrow> reg_step J s t"
| reserve: "reserve_source_recovery J rb flr s = Inr (x', t) \<Longrightarrow> reg_step J s t"
| publish_recovery: "publish_source_recovery J rsv s = Inr (b, t) \<Longrightarrow> reg_step J s t"
| set_meta: "key \<notin> bookkeeping \<Longrightarrow> set_meta J p key v s = Inr (u, t) \<Longrightarrow> reg_step J s t"
| exchange: "key \<notin> bookkeeping \<Longrightarrow> compare_exchange_meta J p key expected v s = Inr (b, t) \<Longrightarrow> reg_step J s t"
| exchange_companion: "key \<notin> bookkeeping \<Longrightarrow> ck \<notin> bookkeeping \<Longrightarrow>
    compare_exchange_meta_with_companion p key expected v ck cv s = Inr (b, t) \<Longrightarrow> reg_step J s t"
| environment: "projects t = projects s \<Longrightarrow> (\<And>k. guarded k \<Longrightarrow> fmlookup (meta t) k = fmlookup (meta s) k) \<Longrightarrow>
    reg_step J s t"

theorem reg_step_sound:
  assumes "reg_step J s t" and "reg_inv J s"
  shows "ratchets J s t \<and> minv J t"
proof -
  from assms(2) have m: "minv J s" by (simp add: reg_inv_def)
  note q = quiet_step [OF _ assms(2)]
  from assms(1) show ?thesis
  proof cases
    case environment
    then show ?thesis by (intro q quiet_frame)
  qed (use assms(2) in \<open>auto dest: put_project_step delete_project_step delete_all_step register_step
        record_step settle_step dismiss_step capture_write_quiet [OF m, THEN q] attest_write_quiet [OF m, THEN q]
        attest_legacy_quiet [OF m, THEN q] publish_quiet [OF m, THEN q] reserve_quiet [THEN q]
        publish_recovery_quiet [OF m, THEN q] set_meta_quiet [THEN q] compare_exchange_quiet [THEN q]
        compare_exchange_companion_quiet [THEN q]\<close>)
qed

lemma reg_step_ratchets:
  assumes "reg_inv J s" and "reg_step J s t"
  shows "reg_inv J t" and "seq J s \<le> seq J t"
    and "moved (seq J s) (head_cell p s) (head_cell p t)"
    and "moved (seq J s) (epoch_cell p s) (epoch_cell p t)"
    and "moved (seq J s) (reason_cell J p r s) (reason_cell J p r t)"
proof -
  have ri: "rinv J s" using assms(1) by (simp add: reg_inv_def)
  note R = reg_step_sound [OF assms(2,1)]
  with ri show "reg_inv J t" "seq J s \<le> seq J t" "moved (seq J s) (head_cell p s) (head_cell p t)"
    "moved (seq J s) (epoch_cell p s) (epoch_cell p t)"
    "moved (seq J s) (reason_cell J p r s) (reason_cell J p r t)"
    unfolding ratchets_def reg_inv_def by blast+
qed

lemma rinv_revisionD:
  assumes "rinv J s" and "key_ok p" and "k = REVISION \<or> k = IDENTITY_EPOCH"
    and "fmlookup (meta s) (composite p k) = Some b"
  shows "\<exists>v. revision b = Inr v \<and> v \<le> seq J s"
  using assms by (auto simp: rinv_def)

lemma rinv_rev_cell:
  assumes "rinv J s" and "key_ok p" and "k = REVISION \<or> k = IDENTITY_EPOCH" and "rev_cell (composite p k) s = Some v"
  shows "v \<le> seq J s"
proof -
  obtain b where b: "fmlookup (meta s) (composite p k) = Some b" "revision b = Inr v"
    using assms(4) by (auto simp: rev_cell_def split: option.splits sum.splits)
  from rinv_revisionD [OF assms(1-3) b(1)] b(2) show ?thesis by auto
qed

lemma cells_issued:
  assumes "reg_inv J s"
  shows "head_cell p s = Some v \<Longrightarrow> v \<le> seq J s" and "epoch_cell p s = Some v \<Longrightarrow> v \<le> seq J s"
    and "reason_cell J p r s = Some v \<Longrightarrow> v \<le> seq J s"
proof -
  have ri: "rinv J s" using assms by (simp add: reg_inv_def)
  show "v \<le> seq J s" if "head_cell p s = Some v"
    using that rinv_rev_cell [OF ri, of p REVISION] by (simp add: head_cell_def revision_key_def split: if_splits)
  show "v \<le> seq J s" if "epoch_cell p s = Some v"
    using that rinv_rev_cell [OF ri, of p IDENTITY_EPOCH] by (simp add: epoch_cell_def flag_key_def split: if_splits)
  show "v \<le> seq J s" if "reason_cell J p r s = Some v"
    using that stored_bounded [OF ri, of p]
    by (auto simp: reason_cell_def bind_eq_Some_conv reqs_bounded_def split: if_splits intro: order_trans)
qed

interpretation head: ratchet "reg_step J" "reg_inv J" "seq J" "head_cell p" for J p
  by unfold_locales (rule reg_step_ratchets cells_issued; assumption)+

interpretation epoch: ratchet "reg_step J" "reg_inv J" "seq J" "epoch_cell p" for J p
  by unfold_locales (rule reg_step_ratchets cells_issued; assumption)+

interpretation reason: ratchet "reg_step J" "reg_inv J" "seq J" "reason_cell J p r" for J p r
  by unfold_locales (rule reg_step_ratchets cells_issued; assumption)+

end
