(* ===== verification/Tokens.thy ===== *)
theory Tokens
  imports Registry_Steps
begin

text \<open>
  What the registry's tokens promise. A recovery token or a source-head token is current from
  its capture until the first operation that supersedes it, and never again afterwards, whatever
  sequence of operations follows; publication, settlement and reservation have the effects their
  callers rely on.
\<close>

section \<open>Reachable states\<close>

definition reachable :: "codecs \<Rightarrow> db \<Rightarrow> bool" where
  "reachable J s \<longleftrightarrow> codecs_ok J \<and> (reg_step J)\<^sup>*\<^sup>* empty_db s"

lemma reachable_inv: "reachable J s \<Longrightarrow> reg_inv J s"
  using head.inv_reach [of J empty_db s] reg_inv_empty by (auto simp: reachable_def)

lemma reachable_step: "reachable J s \<Longrightarrow> reg_step J s t \<Longrightarrow> reachable J t"
  by (auto simp: reachable_def intro: rtranclp.rtrancl_into_rtrancl)

lemma reachable_steps: "reachable J s \<Longrightarrow> (reg_step J)\<^sup>*\<^sup>* s t \<Longrightarrow> reachable J t"
  by (auto simp: reachable_def intro: rtranclp_trans)

lemma seq_steps: "reg_inv J s \<Longrightarrow> (reg_step J)\<^sup>*\<^sup>* s t \<Longrightarrow> seq J s \<le> seq J t"
  using head.inv_reach by blast

lemma inv_steps: "reg_inv J s \<Longrightarrow> (reg_step J)\<^sup>*\<^sup>* s t \<Longrightarrow> reg_inv J t"
  using head.inv_reach by blast

section \<open>Reading the cells\<close>

lemma read_revision_cells:
  assumes "reg_inv J s" and "key_ok p"
  shows "read_revision (revision_key p) s = Inr (head_cell p s)"
    and "read_revision (flag_key p IDENTITY_EPOCH) s = Inr (epoch_cell p s)"
proof -
  have "\<exists>v. revision b = Inr v" if "k = REVISION \<or> k = IDENTITY_EPOCH" "fmlookup (meta s) (composite p k) = Some b" for k b
    using rinv_revisionD [OF _ assms(2) that] assms(1) by (auto simp: reg_inv_def)
  then have "read_revision (composite p k) s = Inr (rev_cell (composite p k) s)" if "k = REVISION \<or> k = IDENTITY_EPOCH" for k
    using that by (cases "fmlookup (meta s) (composite p k)") (force simp: read_revision_def rev_cell_def)+
  then show "read_revision (revision_key p) s = Inr (head_cell p s)"
    "read_revision (flag_key p IDENTITY_EPOCH) s = Inr (epoch_cell p s)"
    using assms(2) by (simp_all add: revision_key_def flag_key_def head_cell_def epoch_cell_def)
qed

lemma read_project_ok: "reg_inv J s \<Longrightarrow> read_project J p s = Inr (project_row J p s)"
  by (simp add: reg_inv_def read_project_row)

lemma read_requirements_ok:
  "reg_inv J s \<Longrightarrow> key_ok p \<Longrightarrow> read_requirements J p s = Inr (stored_requirements J p s)"
  by (simp add: reg_inv_def read_requirements_stored)

section \<open>Recovery tokens\<close>

text \<open>The effective requirement set of a registered project is the stored one, or empty.\<close>

definition effective :: "codecs \<Rightarrow> string \<Rightarrow> db \<Rightarrow> requirements" where
  "effective J p s = (case stored_requirements J p s of Some r \<Rightarrow> r | None \<Rightarrow> requirements_default)"

lemma since_ms_default [simp]: "since_ms requirements_default = None"
  by (simp add: requirements_default_def)

lemma reason_cell_effective:
  "key_ok p \<Longrightarrow> reason_cell J p reason s = map_option revision_of (fmlookup (pending (effective J p s)) reason)"
  by (cases "stored_requirements J p s") (simp_all add: reason_cell_def effective_def requirements_default_def)

lemma effective_read:
  assumes "reg_inv J s" and "project_row J p s = Some rec"
  shows "(case stored_requirements J p s of Some r \<Rightarrow> r | None \<Rightarrow> legacy (reindex_required_since_ms rec)) = effective J p s"
proof (cases "stored_requirements J p s")
  case None
  from assms have m: "minv J s" by (simp add: reg_inv_def)
  show ?thesis using legacy_under_mirror [OF m project_row_id(2) [OF m assms(2)] assms(2) None] None
    by (simp add: effective_def)
qed (simp add: effective_def)

lemma requirement_token_eq:
  assumes "reg_inv J s" and "key_ok p"
  shows "reindex_requirement_token J p reason s
    = Inr (if project_row J p s = None then None else token (effective J p s) p reason)"
  using assms effective_read [OF assms(1), of p]
  by (cases "project_row J p s")
    (simp_all add: reindex_requirement_token_def read_project_ok read_requirements_ok Let_def)

lemma reindex_reasons_eq:
  assumes "reg_inv J s" and "key_ok p"
  shows "reindex_reasons J p s
    = Inr (if project_row J p s = None then [] else map fst (iter (pending (effective J p s))))"
  using assms effective_read [OF assms(1), of p]
  by (cases "project_row J p s")
    (simp_all add: reindex_reasons_def read_project_ok read_requirements_ok Let_def)

lemma settle_eq:
  assumes "reg_inv J s" and "key_ok (tok_project_id tok)"
  shows "settle_reindex_requirement J tok s =
    (case project_row J (tok_project_id tok) s of None \<Rightarrow> Inr (False, s)
     | Some rec \<Rightarrow> let r = effective J (tok_project_id tok) s in
         if token r (tok_project_id tok) (tok_reason tok) = Some tok
         then Inr (True, write_requirements J rec (r\<lparr>pending := fmdrop (tok_reason tok) (pending r)\<rparr>) s)
         else Inr (False, s))"
  using assms effective_read [OF assms(1), of "tok_project_id tok"]
  by (cases "project_row J (tok_project_id tok) s")
    (simp_all add: settle_reindex_requirement_def read_project_ok read_requirements_ok Let_def)

lemma token_Some [simp]:
  "token r p reason = Some tok \<longleftrightarrow> tok_project_id tok = p \<and> tok_reason tok = reason
     \<and> map_option revision_of (fmlookup (pending r) reason) = Some (tok_revision tok)"
  by (cases tok) (auto simp: token_def)

lemma settle_stale:
  assumes "reg_inv J s" and "key_ok (tok_project_id tok)"
    and "reason_cell J (tok_project_id tok) (tok_reason tok) s \<noteq> Some (tok_revision tok)"
  shows "settle_reindex_requirement J tok s = Inr (False, s)"
  using assms by (auto simp: settle_eq Let_def reason_cell_effective split: option.split)

lemma token_cell:
  assumes "reg_inv J s" and "reindex_requirement_token J p reason s = Inr (Some tok)"
  shows "key_ok p" and "tok_project_id tok = p" and "tok_reason tok = reason"
    and "reason_cell J p reason s = Some (tok_revision tok)"
proof -
  show k: "key_ok p" using assms(2) by (auto simp: reindex_requirement_token_def)
  have "token (effective J p s) p reason = Some tok"
    using assms(2) requirement_token_eq [OF assms(1) k] by (simp split: if_splits)
  then show "tok_project_id tok = p" "tok_reason tok = reason"
    "reason_cell J p reason s = Some (tok_revision tok)"
    using k by (simp_all add: reason_cell_effective)
qed

lemma settled_cell:
  assumes "reg_inv J s" and "settle_reindex_requirement J tok s = Inr (True, t)"
  shows "reason_cell J (tok_project_id tok) (tok_reason tok) t = None"
    and "reason_cell J (tok_project_id tok) (tok_reason tok) s = Some (tok_revision tok)"
    and "key_ok (tok_project_id tok)"
proof -
  obtain rec r where yes: "key_ok (tok_project_id tok)" "project_row J (tok_project_id tok) s = Some rec"
      "stored_requirements J (tok_project_id tok) s = Some r"
      "token r (tok_project_id tok) (tok_reason tok) = Some tok"
      "t = write_requirements J rec (r\<lparr>pending := fmdrop (tok_reason tok) (pending r)\<rparr>) s"
    by (rule settle_cases [OF assms]) auto
  have C: "codecs_ok J" and m: "minv J s" using assms(1) by (simp_all add: reg_inv_def rinv_def)
  show "key_ok (tok_project_id tok)" by (rule yes(1))
  show "reason_cell J (tok_project_id tok) (tok_reason tok) s = Some (tok_revision tok)"
    using yes(4) by (simp add: reason_cell_stored [OF yes(1,3)])
  show "reason_cell J (tok_project_id tok) (tok_reason tok) t = None"
    using yes(1) project_row_id(1) [OF m yes(2)] C by (simp add: reason_cell_def yes(5) stored_requirements_def)
qed

text \<open>
  Recording a failure issues a revision above every earlier one, also when the reason is pending
  already, and the token it returns is the current one.
\<close>

lemma require_supersedes:
  assumes "reg_inv J s" and "require_reindex J p reason since s = Inr (r, t)"
  shows "reg_step J s t" and "key_ok p" and "reindex_requirement_token J p reason t = Inr r"
    and "r = None \<longleftrightarrow> project_row J p s = None" and "r = Some tok \<Longrightarrow> seq J s < tok_revision tok"
proof -
  obtain x where x: "record_reindex_requirement J p reason since False s = Inr (x, t)" "r = map_option fst x"
    using assms(2) by (auto simp: require_reindex_def)
  show step: "reg_step J s t" by (rule reg_step.record_requirement [OF x(1)])
  show k: "key_ok p" using x(1) by (auto simp: record_reindex_requirement_def)
  have It: "reg_inv J t" by (rule reg_step_ratchets(1) [OF assms(1) step])
  have C: "codecs_ok J" and m: "minv J s" using assms(1) by (simp_all add: reg_inv_def rinv_def)
  have "reindex_requirement_token J p reason t = Inr r \<and> (r = None \<longleftrightarrow> project_row J p s = None)
      \<and> (\<forall>tok. r = Some tok \<longrightarrow> seq J s < tok_revision tok)"
    using assms(1) x(1)
  proof (cases rule: record_cases)
    case absent
    then show ?thesis using x(2) by (simp add: requirement_token_eq [OF assms(1) k])
  next
    case (recorded rec q n s2 since')
    have pid: "project_id rec = p" by (rule project_row_id(1) [OF m recorded(2)])
    let ?q = "q\<lparr>req_revision := n, pending := fmupd reason \<lparr> since_ms_of = since', revision_of = n \<rparr> (pending q)\<rparr>"
    have "effective J p t = ?q" "project_row J p t \<noteq> None"
      using C pid by (simp_all add: recorded(7) effective_def stored_requirements_def project_row_def)
    then show ?thesis
      using x(2) recorded(2,6) next_revision_InrE(2) [OF recorded(4)] by (simp add: requirement_token_eq [OF It k])
  qed simp
  then show "reindex_requirement_token J p reason t = Inr r" "r = None \<longleftrightarrow> project_row J p s = None"
    "r = Some tok \<Longrightarrow> seq J s < tok_revision tok" by simp_all
qed

lemma require_changes_cell:
  assumes "reg_inv J s" and "require_reindex J p reason since s = Inr (r, t)" and "v \<le> seq J s"
  shows "r = None \<or> reason_cell J p reason t \<noteq> Some v"
proof (cases r)
  case (Some tok)
  note R = require_supersedes [OF assms(1,2)]
  have "reason_cell J p reason t = Some (tok_revision tok)"
    using token_cell(4) [OF reg_step_ratchets(1) [OF assms(1) R(1)]] R(3) Some by simp
  moreover have "v < tok_revision tok" using R(5) [OF Some] assms(3) by simp
  ultimately show ?thesis by auto
qed simp

section \<open>Source-head tokens\<close>

lemma stale_head:
  assumes "reg_inv J s" and "key_ok (ht_project_id tok)"
    and "head_cell (ht_project_id tok) s \<noteq> Some (ht_revision tok)"
  shows "source_head_is_current J tok s = Inr False"
    and "ht_generation tok < n \<Longrightarrow> publish_source_head J tok n s = Inr (False, s)"
  using assms
  by (auto simp: source_head_is_current_def publish_source_head_def Let_def read_project_ok
      read_revision_cells split: option.split)

lemma publish_head_cell:
  assumes "reg_inv J s" and "publish_source_head J tok n s = Inr (True, t)"
  obtains m where "seq J s < m" "head_cell (ht_project_id tok) t = Some m"
    "key_ok (ht_project_id tok)" "seq J t = m"
  using assms(2)
proof (cases rule: publish_cases)
  case (yes rec m s1)
  have k: "key_ok (ht_project_id tok)" using yes(3) assms(1) row_key_ok by (auto simp: reg_inv_def)
  have C: "codecs_ok J" using assms(1) by (simp add: reg_inv_def rinv_def)
  note E = advance_revision_InrE [OF yes(9)]
  have "head_cell (ht_project_id tok) t = Some m" "seq J t = m"
    using k C E(3) unfolding yes(10) E(1)
    by (simp_all add: head_cell_def rev_cell_def mark_head_required_def meta_keys seq_def)
  with E(2) k show thesis by (intro that)
qed simp

text \<open>The stored fields a token records, as \<open>source_head_is_current\<close> compares them.\<close>

definition token_matches :: "codecs \<Rightarrow> head_token \<Rightarrow> db \<Rightarrow> bool" where
  "token_matches J tok s \<longleftrightarrow> (\<exists>rec. project_row J (ht_project_id tok) s = Some rec
       \<and> matches_source_identity (ht_directory tok) (ht_project_type tok) rec)
     \<and> head_cell (ht_project_id tok) s = Some (ht_revision tok)
     \<and> epoch_cell (ht_project_id tok) s = Some (ht_identity_epoch tok)
     \<and> fmlookup (meta s) (head_key (ht_project_id tok)) = ht_raw_head tok
     \<and> fmlookup (meta s) (flag_key (ht_project_id tok) MANAGED) = ht_managed tok"

lemma token_matches_issued:
  "reg_inv J s \<Longrightarrow> token_matches J tok s \<Longrightarrow> ht_revision tok \<le> seq J s"
  using cells_issued(1) by (auto simp: token_matches_def)

lemma is_current_iff:
  assumes "reg_inv J s"
  shows "source_head_is_current J tok s = Inr (token_matches J tok s)"
proof (cases "project_row J (ht_project_id tok) s")
  case (Some rec)
  then have k: "key_ok (ht_project_id tok)" using assms project_row_id(2) by (auto simp: reg_inv_def)
  show ?thesis
    using Some assms k
    by (auto simp: source_head_is_current_def token_matches_def read_project_ok read_revision_cells Let_def)
qed (use assms in \<open>simp add: source_head_is_current_def token_matches_def read_project_ok Let_def\<close>)

lemma read_head_eq: "read_head p s = Inr h \<Longrightarrow> fmlookup (meta s) (head_key p) = h"
  by (auto simp: read_head_def bounded_text_def from_utf8_def dest!: transposeR_Inr_D split: if_splits)

lemma case_both_Some [simp]:
  "(case x of None \<Rightarrow> None | Some r \<Rightarrow> (case y of None \<Rightarrow> None | Some e \<Rightarrow> Some (f r e))) = Some z
     \<longleftrightarrow> (\<exists>r e. x = Some r \<and> y = Some e \<and> f r e = z)"
  by (auto split: option.splits)

lemma capture_read_Some:
  assumes "capture_read J p s = Inr (Some tok)"
  obtains project where "key_ok p" "ht_project_id tok = p" "read_project J p s = Inr (Some project)"
    "ht_directory tok = directory project" "ht_project_type tok = project_type project"
    "read_revision (revision_key p) s = Inr (Some (ht_revision tok))"
    "read_revision (flag_key p IDENTITY_EPOCH) s = Inr (Some (ht_identity_epoch tok))"
    "read_head p s = Inr (ht_raw_head tok)" "generation p (ht_raw_head tok) = Inr (ht_generation tok)"
    "fmlookup (meta s) (flag_key p MANAGED) = ht_managed tok"
  using assms unfolding capture_read_def Let_def by auto

lemma capture_write_Inr:
  assumes "capture_write J p s = Inr (tok, t)"
  obtains project er ee rev s1 where "ht_project_id tok = p" "read_project J p s = Inr (Some project)"
    "ht_directory tok = directory project" "ht_project_type tok = project_type project"
    "read_head p s = Inr (ht_raw_head tok)" "generation p (ht_raw_head tok) = Inr (ht_generation tok)"
    "fmlookup (meta s) (flag_key p MANAGED) = ht_managed tok"
    "read_revision (revision_key p) s = Inr er" "read_revision (flag_key p IDENTITY_EPOCH) s = Inr ee"
    "(case er of Some r \<Rightarrow> Inr (r, s) | None \<Rightarrow> advance_revision J p s) = Inr (rev, s1)"
    "(case ee of Some e \<Rightarrow> Inr ((rev, e), s1)
      | None \<Rightarrow> bindR (mark_identity_unverified J p s1) (\<lambda>(e, s2). Inr ((e, e), s2)))
     = Inr ((ht_revision tok, ht_identity_epoch tok), t)"
  using assms unfolding capture_write_def Let_def by auto

lemma advance_effect:
  assumes "advance_revision J p s = Inr (n, t)" and "key_ok p"
  shows "head_cell p t = Some n" and "epoch_cell p t = epoch_cell p s" and "projects t = projects s"
    and "f \<noteq> REVISION \<Longrightarrow> fmlookup (meta t) (composite p f) = fmlookup (meta s) (composite p f)"
  using assms(2) advance_revision_InrE(3) [OF assms(1)] unfolding advance_revision_InrE(1) [OF assms(1)]
  by (simp_all add: head_cell_def epoch_cell_def rev_cell_def meta_keys)

lemma mark_effect:
  assumes "mark_identity_unverified J p s = Inr (n, t)" and "key_ok p"
  shows "head_cell p t = Some n" and "epoch_cell p t = Some n" and "projects t = projects s"
    and "f \<notin> {REVISION, IDENTITY_EPOCH, IDENTITY_VERIFIED} \<Longrightarrow>
      fmlookup (meta t) (composite p f) = fmlookup (meta s) (composite p f)"
  using assms(2) mark_identity_unverified_InrE(3) [OF assms(1)] unfolding mark_identity_unverified_InrE(1) [OF assms(1)]
  by (auto simp: head_cell_def epoch_cell_def rev_cell_def meta_keys)

lemma capture_matches:
  assumes "reg_inv J s" and "capture_source_head J p s = Inr (tok, t)"
  shows "key_ok p" and "ht_project_id tok = p" and "(reg_step J)\<^sup>*\<^sup>* s t" and "token_matches J tok t"
    and "generation p (ht_raw_head tok) = Inr (ht_generation tok)"
proof -
  show k: "key_ok p" using assms(2) by (auto simp: capture_source_head_def capture_read_def)
  note cells = read_revision_cells [OF assms(1) k]
  have m: "minv J s" using assms(1) by (simp add: reg_inv_def)
  have "ht_project_id tok = p \<and> (reg_step J)\<^sup>*\<^sup>* s t \<and> token_matches J tok t
      \<and> generation p (ht_raw_head tok) = Inr (ht_generation tok)"
  proof (cases "capture_read J p s = Inr None")
    case False
    with assms(2) have r: "capture_read J p s = Inr (Some tok)" "t = s"
      by (auto simp: capture_source_head_def split: option.splits)
    from r(1) show ?thesis
      by (rule capture_read_Some)
        (use r(2) cells assms(1) in \<open>auto simp: token_matches_def matches_source_identity_def read_project_ok read_head_eq\<close>)
  next
    case True
    with assms(2) k have w: "capture_write J p s = Inr (tok, t)" by (simp add: capture_source_head_def)
    from w show ?thesis
    proof (rule capture_write_Inr)
      fix project er ee rev s1
      assume A: "ht_project_id tok = p" "read_project J p s = Inr (Some project)"
        "ht_directory tok = directory project" "ht_project_type tok = project_type project"
        "read_head p s = Inr (ht_raw_head tok)" "generation p (ht_raw_head tok) = Inr (ht_generation tok)"
        "fmlookup (meta s) (flag_key p MANAGED) = ht_managed tok"
        and er: "read_revision (revision_key p) s = Inr er" and ee: "read_revision (flag_key p IDENTITY_EPOCH) s = Inr ee"
        and 1: "(case er of Some r \<Rightarrow> Inr (r, s) | None \<Rightarrow> advance_revision J p s) = Inr (rev, s1)"
        and 2: "(case ee of Some e \<Rightarrow> Inr ((rev, e), s1)
            | None \<Rightarrow> bindR (mark_identity_unverified J p s1) (\<lambda>(e, s2). Inr ((e, e), s2)))
          = Inr ((ht_revision tok, ht_identity_epoch tok), t)"
      let ?kept = "\<lambda>u. projects u = projects s
        \<and> fmlookup (meta u) (composite p HEAD) = fmlookup (meta s) (composite p HEAD)
        \<and> fmlookup (meta u) (composite p MANAGED) = fmlookup (meta s) (composite p MANAGED)"
      have s1: "head_cell p s1 = Some rev \<and> epoch_cell p s1 = ee \<and> ?kept s1"
      proof (cases er)
        case None
        with 1 have "advance_revision J p s = Inr (rev, s1)" by simp
        from advance_effect [OF this k] ee cells show ?thesis by simp
      qed (use 1 er ee cells in simp)
      have "head_cell p t = Some (ht_revision tok) \<and> epoch_cell p t = Some (ht_identity_epoch tok) \<and> ?kept t"
      proof (cases ee)
        case None
        with 2 have "mark_identity_unverified J p s1 = Inr (ht_revision tok, t)" "ht_identity_epoch tok = ht_revision tok"
          by auto
        with mark_effect [OF this(1) k] s1 show ?thesis by simp
      qed (use 2 s1 in simp)
      then have "token_matches J tok t"
        using A read_head_eq [OF A(5)] read_project_ok [OF assms(1), of p]
        by (auto simp: token_matches_def matches_source_identity_def project_row_def head_key_def flag_key_def)
      with A w show ?thesis by (auto intro: reg_step.capture)
    qed
  qed
  then show "ht_project_id tok = p" "(reg_step J)\<^sup>*\<^sup>* s t" "token_matches J tok t"
    "generation p (ht_raw_head tok) = Inr (ht_generation tok)" by simp_all
qed

section \<open>Progress\<close>

lemma next_revision_ok:
  assumes "rinv J s" and "max (seq J s) flr < U64_MAX"
  shows "next_revision J flr s
    = Inr (max (seq J s) flr + 1, put_meta REVISION_SEQUENCE (to_vec (u64_json J) (max (seq J s) flr + 1)) s)"
proof -
  have ne: "checked_add (max (seq J s) flr) 1 \<noteq> None" using assms(2) by (metis checked_succ_None_iff less_irrefl)
  then have add: "checked_add (max (seq J s) flr) 1 = Some (max (seq J s) flr + 1)" by (auto simp: checked_add_def split: if_splits)
  show ?thesis
  proof (cases "fmlookup (meta s) REVISION_SEQUENCE")
    case None
    then show ?thesis using add by (simp add: next_revision_def seq_def)
  next
    case (Some b)
    with assms(1) obtain v where "from_slice (u64_json J) b = Some v" by (auto simp: rinv_def)
    with Some add show ?thesis by (simp add: next_revision_def seq_def decode_def)
  qed
qed

lemma advance_ok:
  assumes "reg_inv J s" and "key_ok p" and "seq J s < U64_MAX"
  shows "\<exists>t. advance_revision J p s = Inr (seq J s + 1, t)"
proof -
  have r: "rinv J s" using assms(1) by (simp add: reg_inv_def)
  let ?f = "max (case head_cell p s of None \<Rightarrow> 0 | Some v \<Rightarrow> v) (case epoch_cell p s of None \<Rightarrow> 0 | Some v \<Rightarrow> v)"
  have "?f \<le> seq J s" using cells_issued(1,2) [OF assms(1), of p] by (auto split: option.split)
  then have "max (seq J s) ?f = seq J s" by (rule max.absorb1)
  with next_revision_ok [OF r, of ?f] assms show ?thesis
    by (simp add: advance_revision_def read_revision_cells)
qed

lemma publish_ok:
  assumes "reg_inv J s" and "token_matches J tok s" and "ht_generation tok < n" and "seq J s < U64_MAX"
  shows "\<exists>t. publish_source_head J tok n s = Inr (True, t)"
proof -
  obtain rec where row: "project_row J (ht_project_id tok) s = Some rec"
    "matches_source_identity (ht_directory tok) (ht_project_type tok) rec"
    using assms(2) by (auto simp: token_matches_def)
  have k: "key_ok (ht_project_id tok)" using row assms(1) project_row_id(2) by (auto simp: reg_inv_def)
  obtain s1 where "advance_revision J (ht_project_id tok) s = Inr (seq J s + 1, s1)"
    using advance_ok [OF assms(1) k assms(4)] by blast
  with row k assms show ?thesis
    by (simp add: publish_source_head_def Let_def read_project_ok read_revision_cells token_matches_def)
qed

text \<open>What readers see right after a publication.\<close>

lemma bounded_text_show [simp]: "bounded_text (show_u64 n) = Inr (show_u64 n)"
  using show_u64_length [of n] by (simp add: bounded_text_def)

lemma published_reads:
  assumes "t = put_meta (head_key p) (show_u64 n) (put_meta (flag_key p IDENTITY_VERIFIED) ''1''
      (put_meta (flag_key p MANAGED) ''1'' (mark_head_required p s1)))" and "key_ok p" and "n \<noteq> 0"
  shows "source_generation_metadata p t = Inr (Some n)" and "active_source_generation p t = Inr n"
    and "reg_inv J t \<Longrightarrow> source_identity_needs_verification p t = Inr False"
proof -
  show gen: "source_generation_metadata p t = Inr (Some n)"
    using assms by (simp add: source_generation_metadata_def read_head_def meta_keys mark_head_required_def
        check_presence_def validate_managed_def generation_def Let_def)
  then show "active_source_generation p t = Inr n" by (simp add: active_source_generation_def)
  show "source_identity_needs_verification p t = Inr False" if "reg_inv J t"
    using assms(2) read_revision_cells(2) [OF that assms(2)]
    by (simp add: source_identity_needs_verification_def source_stat_cache_state_def assms(1) meta_keys
        mark_head_required_def identity_verified_def)
qed

section \<open>Saved projects\<close>

lemma put_project_keeps:
  assumes "reg_inv J s" and "put_project J rec s = Inr (u, t)" and "stored_requirements J (project_id rec) s = Some r"
  shows "stored_requirements J (project_id rec) t = Some r"
    and "project_row J (project_id rec) t = Some (rec\<lparr>reindex_required_since_ms := since_ms r\<rparr>)"
proof -
  let ?p = "project_id rec"
  from assms(1) have ri: "rinv J s" and C: "codecs_ok J" by (simp_all add: reg_inv_def rinv_def)
  obtain s3 reqs s4 where k: "key_ok ?p" and q: "quiet J s s3"
    and w: "requirements_for_project_write J rec s3 = Inr (reqs, s4)"
    and t: "t = s4\<lparr>projects := fmupd ?p (to_vec (project_json J) (case reqs of None \<Rightarrow> rec
                        | Some r \<Rightarrow> rec\<lparr>reindex_required_since_ms := since_ms r\<rparr>)) (projects s4)\<rparr>"
    by (rule put_project_cases [OF assms(2)])
  have "rinv J s3" "stored_requirements J ?p s3 = Some r"
    using q ri k assms(3) by (simp_all add: quiet_def ratchets_def stored_requirements_def)
  with w k have "reqs = Some r" "s4 = s3"
    by (simp_all add: requirements_for_project_write_def read_requirements_stored)
  with t C \<open>stored_requirements J ?p s3 = Some r\<close>
  show "stored_requirements J ?p t = Some r" "project_row J ?p t = Some (rec\<lparr>reindex_required_since_ms := since_ms r\<rparr>)"
    by (simp_all add: stored_requirements_def project_row_def)
qed

section \<open>Deleted projects\<close>

lemma absent_reason_cell:
  assumes "reg_inv J s" and "project_row J p s = None"
  shows "reason_cell J p reason s = None"
proof (cases "key_ok p")
  case True
  with assms have "mirror J p s" by (simp add: reg_inv_def minv_def)
  with assms(2) True show ?thesis
    by (cases "stored_requirements J p s") (auto simp: mirror_def reason_cell_def dest: sym)
qed (simp add: reason_cell_def)

lemma delete_all_head_cell:
  assumes "delete_all_for_project J p s = Inr (u, t)"
  shows "head_cell p t = None" and "key_ok p"
  by (rule delete_all_cases [OF assms];
      simp add: head_cell_def rev_cell_def revision_key_def lookup_remove_prefix)+

section \<open>Recovery reservations\<close>

text \<open>\<open>serde_json\<close> prints an integer in decimal, so a stored sequence fits the reader's budget.\<close>

definition u64_json_short :: "codecs \<Rightarrow> bool" where
  "u64_json_short J \<longleftrightarrow> (\<forall>n. length (to_vec (u64_json J) n) \<le> 20)"

lemma succ_below_max: "flr < U64_MAX - 1 \<Longrightarrow> flr + 1 < U64_MAX" "flr < U64_MAX - 1 \<Longrightarrow> flr < U64_MAX"
  unfolding U64_MAX_def by (simp_all add: word_less_nat_alt unat_word_ariths)

lemma read_bounded_frame:
  "k \<noteq> k' \<Longrightarrow> read_bounded k n (put_meta k' v s) = read_bounded k n s"
  by (simp add: read_bounded_def)

lemma recovery_metadata_sequence:
  assumes "read_recovery_metadata J p s = Inr (md, sq)"
  shows "seq J s = sq"
  using assms by (auto simp: read_recovery_metadata_def read_bounded_def seq_def)

lemma recovery_metadata_reserved:
  assumes "read_recovery_metadata J p s = Inr (md, sq)" and "codecs_ok J" and "u64_json_short J" and "key_ok p" and "sq \<le> n"
  shows "read_recovery_metadata J p (put_meta REVISION_SEQUENCE (to_vec (u64_json J) n) s) = Inr (md, n)"
proof -
  let ?t = "put_meta REVISION_SEQUENCE (to_vec (u64_json J) n) s"
  have seqr: "read_bounded REVISION_SEQUENCE 20 ?t = Inr (Some (to_vec (u64_json J) n))"
    using assms(3) by (simp add: read_bounded_def u64_json_short_def)
  have dec: "decode (u64_json J) (to_vec (u64_json J) n) = Inr n" using assms(2) by simp
  have others: "read_bounded (composite p k) m ?t = read_bounded (composite p k) m s" for k m
    using assms(4) by (simp add: read_bounded_frame)
  show ?thesis
    using assms(1,5) unfolding read_recovery_metadata_def meta_keys others seqr
    by (auto simp: dec)
qed

lemma reserve_cases:
  assumes "reserve_source_recovery J base flr s = Inr (Some rsv, t)"
  obtains sq flr' where "recovery_matches J base s = Inr (Some sq)" "flr \<le> flr'" "sq \<le> flr'" "flr' < U64_MAX - 1"
    "next_revision J flr' s = Inr (rr_generation rsv, t)" "rr_base rsv = base"
proof -
  define h where "h = (case Option.bind (rm_raw_head (rt_metadata base))
      (\<lambda>bs. if utf8_valid bs then parse_u64 bs else None) of None \<Rightarrow> 0 | Some v \<Rightarrow> v)"
  obtain m where m: "recovery_matches J base s = Inr m" using assms by (auto simp: reserve_source_recovery_def)
  with assms obtain sq where "m = Some sq" by (cases m) (auto simp: reserve_source_recovery_def)
  with assms m have "max (max sq flr) h < U64_MAX - 1"
    "next_revision J (max (max sq flr) h) s = Inr (rr_generation rsv, t)" "rr_base rsv = base"
    unfolding reserve_source_recovery_def h_def [symmetric] by (auto simp: Let_def)
  with m \<open>m = Some sq\<close> show thesis by (intro that [of sq "max (max sq flr) h"]) (simp_all add: le_max_iff_disj)
qed

lemma recovery_matches_Some:
  assumes "recovery_matches J base s = Inr (Some sq)"
  obtains rec where "read_project J (rt_project_id base) s = Inr (Some rec)"
    "matches_source_identity (rt_directory base) (rt_project_type base) rec"
    "read_recovery_metadata J (rt_project_id base) s = Inr (rt_metadata base, sq)"
  using assms by (auto simp: recovery_matches_def split: option.splits if_splits)

lemma capture_recovery_matches:
  assumes "capture_source_recovery J p s = Inr base"
  shows "\<exists>sq. recovery_matches J base s = Inr (Some sq)" and "rt_project_id base = p" and "key_ok p"
  using assms by (auto simp: capture_source_recovery_def recovery_matches_def matches_source_identity_def)

end
