(* ===== verification/Wire.thy ===== *)
theory Wire
  imports Registry_Data
begin

text \<open>
  A concrete byte encoding of the stored records. The program encodes them with \<open>serde_json\<close>,
  which the model takes as a parameter; this encoding is an executable instance of that
  parameter, with its round trip proved, on which the concrete runs of the development evaluate.
  Integers are encoded as JSON encodes them, in decimal.
\<close>

record 'a wire =
  put :: "'a \<Rightarrow> bytes"
  get :: "bytes \<Rightarrow> ('a \<times> bytes) option"

definition wire_ok :: "'a wire \<Rightarrow> bool" where
  "wire_ok w \<longleftrightarrow> (\<forall>x rest. get w (put w x @ rest) = Some (x, rest))"

lemma wire_okD [simp]: "wire_ok w \<Longrightarrow> get w (put w x @ rest) = Some (x, rest)"
  by (simp add: wire_ok_def)

lemma wire_okD_Nil [simp]: "wire_ok w \<Longrightarrow> get w (put w x) = Some (x, [])"
  using wire_okD [of w x "[]"] by simp

section \<open>Combinators\<close>

definition char_w :: "char wire" where
  "char_w = \<lparr> put = (\<lambda>c. [c]), get = (\<lambda>bs. case bs of [] \<Rightarrow> None | c # cs \<Rightarrow> Some (c, cs)) \<rparr>"

definition pair_w :: "'a wire \<Rightarrow> 'b wire \<Rightarrow> ('a \<times> 'b) wire" where
  "pair_w a b = \<lparr> put = (\<lambda>(x, y). put a x @ put b y),
     get = (\<lambda>bs. Option.bind (get a bs) (\<lambda>(x, r). map_option (\<lambda>(y, r'). ((x, y), r')) (get b r))) \<rparr>"

definition map_w :: "('b \<Rightarrow> 'a) \<Rightarrow> ('a \<Rightarrow> 'b) \<Rightarrow> 'a wire \<Rightarrow> 'b wire" where
  "map_w f g a = \<lparr> put = put a \<circ> f, get = (\<lambda>bs. map_option (\<lambda>(x, r). (g x, r)) (get a bs)) \<rparr>"

text \<open>Each element is announced by a one; a zero ends the list.\<close>

fun put_list :: "'a wire \<Rightarrow> 'a list \<Rightarrow> bytes" where
  "put_list w [] = ''0''"
| "put_list w (x # xs) = CHR ''1'' # put w x @ put_list w xs"

fun get_list :: "nat \<Rightarrow> 'a wire \<Rightarrow> bytes \<Rightarrow> ('a list \<times> bytes) option" where
  "get_list n w bs = (if n = 0 then None else case bs of [] \<Rightarrow> None
     | c # cs \<Rightarrow> if c = CHR ''0'' then Some ([], cs)
         else Option.bind (get w cs) (\<lambda>(x, r). map_option (\<lambda>(xs, r'). (x # xs, r')) (get_list (n - 1) w r)))"

declare get_list.simps [simp del]

definition list_w :: "'a wire \<Rightarrow> 'a list wire" where
  "list_w w = \<lparr> put = put_list w, get = (\<lambda>bs. get_list (length bs) w bs) \<rparr>"

definition option_w :: "'a wire \<Rightarrow> 'a option wire" where
  "option_w w = map_w (\<lambda>x. case x of None \<Rightarrow> [] | Some v \<Rightarrow> [v]) (\<lambda>xs. case xs of [] \<Rightarrow> None | v # _ \<Rightarrow> Some v) (list_w w)"

lemma char_w_ok [simp]: "wire_ok char_w"
  by (simp add: wire_ok_def char_w_def)

lemma pair_w_ok [simp]: "wire_ok a \<Longrightarrow> wire_ok b \<Longrightarrow> wire_ok (pair_w a b)"
  by (simp add: wire_ok_def pair_w_def)

lemma map_w_ok: "wire_ok a \<Longrightarrow> (\<And>x. g (f x) = x) \<Longrightarrow> wire_ok (map_w f g a)"
  by (simp add: wire_ok_def map_w_def)

lemma get_put_list:
  assumes "wire_ok w" and "length (put_list w xs) \<le> n"
  shows "get_list n w (put_list w xs @ rest) = Some (xs, rest)"
  using assms(2)
proof (induction xs arbitrary: n)
  case Nil
  then show ?case by (simp add: get_list.simps [of n])
next
  case (Cons x xs)
  then show ?case using assms(1) by (simp add: get_list.simps [of n])
qed

lemma list_w_ok [simp]: "wire_ok w \<Longrightarrow> wire_ok (list_w w)"
  unfolding wire_ok_def [of "list_w w"] by (simp add: list_w_def get_put_list)

lemma option_w_ok [simp]: "wire_ok w \<Longrightarrow> wire_ok (option_w w)"
  unfolding option_w_def by (rule map_w_ok) (auto split: option.split)

definition string_w :: "string wire" where
  "string_w = list_w char_w"

definition bool_w :: "bool wire" where
  "bool_w = map_w (\<lambda>b. if b then CHR ''t'' else CHR ''f'') (\<lambda>c. c = CHR ''t'') char_w"

definition u64_w :: "u64 wire" where
  "u64_w = map_w show_u64 (\<lambda>s. the (parse_u64 s)) string_w"

definition word_w :: "'a::len word wire" where
  "word_w = map_w (\<lambda>w. ucast w) (\<lambda>n. ucast n) u64_w"

lemma string_w_ok [simp]: "wire_ok string_w"
  by (simp add: string_w_def)

lemma bool_w_ok [simp]: "wire_ok bool_w"
  unfolding bool_w_def by (rule map_w_ok) auto

lemma u64_w_ok [simp]: "wire_ok u64_w"
  unfolding u64_w_def by (rule map_w_ok) auto

lemma word_w_ok [simp]: "LENGTH('a::len) \<le> 64 \<Longrightarrow> wire_ok (word_w :: 'a word wire)"
  unfolding word_w_def
  by (rule map_w_ok) (auto intro!: bit_word_eqI simp: bit_unsigned_iff dest: bit_imp_le_length)

definition wire_codec :: "'a wire \<Rightarrow> 'a codec" where
  "wire_codec w = \<lparr> to_vec = put w, from_slice = (\<lambda>bs. map_option fst (get w bs)) \<rparr>"

lemma wire_codec_ok [simp]: "wire_ok w \<Longrightarrow> codec_ok (wire_codec w)"
  by (simp add: codec_ok_def wire_codec_def)

section \<open>The stored records\<close>

definition project_w :: "project_record wire" where
  "project_w = map_w
     (\<lambda>p. (project_id p, project_name p, project_type p, directory p, project_created_at_ms p,
           project_updated_at_ms p, reindex_required_since_ms p))
     (\<lambda>(i, n, t, d, c, u, r). \<lparr> project_id = i, project_name = n, project_type = t, directory = d,
        project_created_at_ms = c, project_updated_at_ms = u, reindex_required_since_ms = r \<rparr>)
     (pair_w string_w (pair_w string_w (pair_w string_w (pair_w string_w (pair_w u64_w (pair_w u64_w (option_w u64_w)))))))"

definition requirement_w :: "requirement wire" where
  "requirement_w = map_w (\<lambda>q. (since_ms_of q, revision_of q)) (\<lambda>(a, b). \<lparr> since_ms_of = a, revision_of = b \<rparr>)
     (pair_w u64_w u64_w)"

definition upd_opt :: "'k \<Rightarrow> 'v option \<Rightarrow> ('k, 'v) fmap \<Rightarrow> ('k, 'v) fmap" where
  "upd_opt k v m = (case v of None \<Rightarrow> m | Some x \<Rightarrow> fmupd k x m)"

definition requirements_w :: "requirements wire" where
  "requirements_w = map_w
     (\<lambda>r. (req_revision r, fmlookup (pending r) Source, fmlookup (pending r) Vector, fmlookup (pending r) Unknown))
     (\<lambda>(n, a, b, c). \<lparr> req_revision = n, pending = upd_opt Source a (upd_opt Vector b (upd_opt Unknown c fmempty)) \<rparr>)
     (pair_w u64_w (pair_w (option_w requirement_w) (pair_w (option_w requirement_w) (option_w requirement_w))))"

definition memory_w :: "memory_section wire" where
  "memory_w = map_w
     (\<lambda>m. (section_id m, section_title m, section_content m, section_updated_at_ms m, section_created_at_ms m,
           section_author m, section_kind m, review_after_ms m, section_tags m, related_files m))
     (\<lambda>(i, t, c, u, cr, a, k, r, ts, fs). \<lparr> section_id = i, section_title = t, section_content = c,
        section_updated_at_ms = u, section_created_at_ms = cr, section_author = a, section_kind = k,
        review_after_ms = r, section_tags = ts, related_files = fs \<rparr>)
     (pair_w string_w (pair_w string_w (pair_w string_w (pair_w u64_w (pair_w u64_w
       (pair_w (option_w string_w) (pair_w (option_w string_w) (pair_w (option_w u64_w)
         (pair_w (list_w string_w) (list_w string_w))))))))))"

definition watch_w :: "watch_record wire" where
  "watch_w = map_w (\<lambda>w. (watch_id w, watch_directory w, watch_enabled w, watch_updated_at_ms w))
     (\<lambda>(i, d, e, u). \<lparr> watch_id = i, watch_directory = d, watch_enabled = e, watch_updated_at_ms = u \<rparr>)
     (pair_w string_w (pair_w string_w (pair_w bool_w u64_w)))"

definition job_w :: "job_record wire" where
  "job_w = map_w
     (\<lambda>j. (job_id j, job_kind j, job_project_id j, job_status j, job_message j, progress_pct j,
           estimated_time_remaining_ms j, job_created_at_ms j, job_updated_at_ms j))
     (\<lambda>(i, k, p, s, m, pc, e, c, u). \<lparr> job_id = i, job_kind = k, job_project_id = p, job_status = s,
        job_message = m, progress_pct = pc, estimated_time_remaining_ms = e, job_created_at_ms = c,
        job_updated_at_ms = u \<rparr>)
     (pair_w string_w (pair_w string_w (pair_w (option_w string_w) (pair_w string_w (pair_w string_w
       (pair_w word_w (pair_w (option_w u64_w) (pair_w u64_w u64_w))))))))"

lemma pending_of_lookups:
  "upd_opt Source (fmlookup m Source) (upd_opt Vector (fmlookup m Vector) (upd_opt Unknown (fmlookup m Unknown) fmempty)) = m"
proof (rule fmap_ext)
  fix x
  show "fmlookup (upd_opt Source (fmlookup m Source) (upd_opt Vector (fmlookup m Vector)
          (upd_opt Unknown (fmlookup m Unknown) fmempty))) x = fmlookup m x"
    by (cases x) (auto simp: upd_opt_def split: option.split)
qed

definition wire_codecs :: codecs where
  "wire_codecs = \<lparr> project_json = wire_codec project_w, requirements_json = wire_codec requirements_w,
     u64_json = \<lparr> to_vec = show_u64, from_slice = parse_u64 \<rparr>, memory_json = wire_codec memory_w,
     watch_json = wire_codec watch_w, job_json = wire_codec job_w \<rparr>"

theorem wire_codecs_ok [simp]: "codecs_ok wire_codecs"
proof -
  have "wire_ok project_w" "wire_ok requirement_w" "wire_ok memory_w" "wire_ok watch_w" "wire_ok job_w"
    unfolding project_w_def requirement_w_def memory_w_def watch_w_def job_w_def by (rule map_w_ok; simp)+
  moreover from this have "wire_ok requirements_w"
    unfolding requirements_w_def by (intro map_w_ok) (simp_all add: pending_of_lookups)
  ultimately show ?thesis
    by (simp add: codecs_ok_def wire_codecs_def) (simp add: codec_ok_def)
qed

lemma wire_u64_short [simp]: "length (to_vec (u64_json wire_codecs) n) \<le> 20"
  by (simp add: wire_codecs_def show_u64_length)

section \<open>A digest\<close>

text \<open>A constant digest of 64 hexadecimal digits, for runs whose hashes only have to be well formed.\<close>

definition sample_hash :: "bytes \<Rightarrow> string" where
  "sample_hash bs = replicate 64 (CHR ''a'')"

end
