(* ===== verification/Sample_Run.thy ===== *)
theory Sample_Run
  imports Tokens Wire
begin

text \<open>
  A concrete run of the registry: a project is saved, its source head is captured and
  published, a recovery reason is required and settled, and a damaged head is written. The
  states are given in full, so that the general properties can be applied to them.
\<close>

abbreviation J0 :: codecs where "J0 \<equiv> wire_codecs"

definition sample_project :: project_record where
  "sample_project = \<lparr> project_id = ''p'', project_name = ''P'', project_type = ''git'', directory = ''/r'',
     project_created_at_ms = 1, project_updated_at_ms = 1, reindex_required_since_ms = None \<rparr>"

definition saved_db :: db where
  "saved_db = empty_db\<lparr>projects := fmupd ''p'' (to_vec (project_json J0) sample_project) fmempty,
     meta := fmupd (composite ''p'' IDENTITY_VERIFIED) ''0'' (fmupd (composite ''p'' IDENTITY_EPOCH) ''2''
       (fmupd (composite ''p'' REVISION) ''2'' (fmupd REVISION_SEQUENCE (to_vec (u64_json J0) 2) fmempty)))\<rparr>"

section \<open>Evaluation rules\<close>

lemma key_ok_p [simp]: "key_ok ''p''"
  by (simp add: key_ok_def)

lemma key_ok_HEAD [simp]: "key_ok HEAD"
  by (simp add: key_ok_def HEAD_def)

lemma small_decimals [simp]:
  "show_u64 1 = ''1''" "show_u64 2 = ''2''" "show_u64 3 = ''3''" "show_u64 4 = ''4''" "show_u64 5 = ''5''"
  by code_simp+

lemma small_revisions [simp]:
  "revision ''1'' = Inr 1" "revision ''2'' = Inr 2" "revision ''3'' = Inr 3" "revision ''4'' = Inr 4"
  using revision_show_u64 [of 1] revision_show_u64 [of 2] revision_show_u64 [of 3] revision_show_u64 [of 4]
  by simp_all

lemma next_revision_first:
  "fmlookup (meta s) REVISION_SEQUENCE = None \<Longrightarrow> flr < U64_MAX \<Longrightarrow>
     next_revision J flr s = Inr (flr + 1, put_meta REVISION_SEQUENCE (to_vec (u64_json J) (flr + 1)) s)"
  using checked_succ_None_iff [of flr] by (auto simp: next_revision_def checked_add_def split: if_splits)

lemma next_revision_stored:
  assumes "codecs_ok J" and "fmlookup (meta s) REVISION_SEQUENCE = Some (to_vec (u64_json J) n)"
    and "max n flr < U64_MAX"
  shows "next_revision J flr s = Inr (max n flr + 1, put_meta REVISION_SEQUENCE (to_vec (u64_json J) (max n flr + 1)) s)"
proof -
  have "checked_add (max n flr) 1 = Some (max n flr + 1)"
    using checked_succ_None_iff [of "max n flr"] assms(3) less_irrefl [of U64_MAX]
    by (metis checked_add_def)
  with assms show ?thesis by (simp add: next_revision_def decode_def)
qed

lemma decode_stored [simp]:
  assumes "codecs_ok J"
  shows "decode (project_json J) (to_vec (project_json J) x) = Inr x"
    and "decode (requirements_json J) (to_vec (requirements_json J) r) = Inr r"
    and "decode (u64_json J) (to_vec (u64_json J) n) = Inr n"
  using assms by (simp_all add: decode_def)

lemmas run_simps = read_project_def advance_revision_def mark_identity_unverified_def read_revision_def
  meta_keys read_requirements_def U64_MAX_def Let_def next_revision_first next_revision_stored
  sample_project_def empty_db_def mark_head_required_def check_presence_def validate_managed_def generation_def
  read_head_def

lemmas run_no_iff = bindR_eq_Inr transposeR_simps(3,4) ok_or_simps(3,4) ensure_simps(1,2)

section \<open>The run\<close>

lemma save_run: "put_project J0 sample_project empty_db = Inr ((), saved_db)"
  by (simp add: run_simps put_project_def requirements_for_project_write_def saved_db_def del: run_no_iff)
    (simp add: fmupd_reorder_neq)

definition sample_token :: head_token where
  "sample_token = \<lparr> ht_project_id = ''p'', ht_raw_head = None, ht_managed = None, ht_generation = 1,
     ht_revision = 2, ht_identity_epoch = 2, ht_directory = ''/r'', ht_project_type = ''git'' \<rparr>"

lemma capture_run: "capture_source_head J0 ''p'' saved_db = Inr (sample_token, saved_db)"
  by (simp add: run_simps saved_db_def capture_source_head_def capture_read_def sample_token_def del: run_no_iff)

definition published_db :: db where
  "published_db = put_meta (head_key ''p'') ''2'' (put_meta (flag_key ''p'' IDENTITY_VERIFIED) ''1''
     (put_meta (flag_key ''p'' MANAGED) ''1'' (put_meta (flag_key ''p'' REQUIRED) ''1''
       (put_meta (revision_key ''p'') ''3'' (put_meta REVISION_SEQUENCE (to_vec (u64_json J0) 3) saved_db)))))"

lemma publish_run: "publish_source_head J0 sample_token 2 saved_db = Inr (True, published_db)"
  by (simp add: run_simps saved_db_def publish_source_head_def sample_token_def published_db_def
      matches_source_identity_def del: run_no_iff)

definition recovery_tok :: reindex_token where
  "recovery_tok = \<lparr> tok_project_id = ''p'', tok_reason = Source, tok_revision = 3 \<rparr>"

definition required_db :: db where
  "required_db = write_requirements J0 (sample_project\<lparr>project_updated_at_ms := 5\<rparr>)
     \<lparr> req_revision = 3, pending = fmupd Source \<lparr> since_ms_of = 5, revision_of = 3 \<rparr> fmempty \<rparr>
     (put_meta REVISION_SEQUENCE (to_vec (u64_json J0) 3) saved_db)"

lemma require_run: "record_reindex_requirement J0 ''p'' Source 5 False saved_db = Inr (Some (recovery_tok, True), required_db)"
  by (simp add: run_simps saved_db_def record_reindex_requirement_def requirements_for_project_write_def
      requirements_default_def token_def required_db_def recovery_tok_def del: run_no_iff)

definition required_again_db :: db where
  "required_again_db = write_requirements J0 (sample_project\<lparr>project_updated_at_ms := 5, reindex_required_since_ms := Some 5\<rparr>)
     \<lparr> req_revision = 4, pending = fmupd Source \<lparr> since_ms_of = 5, revision_of = 4 \<rparr> fmempty \<rparr>
     (put_meta REVISION_SEQUENCE (to_vec (u64_json J0) 4) required_db)"

lemma require_again_run:
  "require_reindex J0 ''p'' Source 6 required_db = Inr (Some (recovery_tok\<lparr>tok_revision := 4\<rparr>), required_again_db)"
proof -
  have seq4: "next_revision J0 3 required_db
      = Inr (4, put_meta REVISION_SEQUENCE (to_vec (u64_json J0) 4) required_db)"
    by (simp add: run_simps required_db_def write_requirements_def saved_db_def del: run_no_iff)
  show ?thesis
    using seq4
    by (simp add: run_simps saved_db_def require_reindex_def record_reindex_requirement_def requirements_for_project_write_def
        token_def required_again_db_def required_db_def write_requirements_def since_ms_def recovery_tok_def
        del: run_no_iff)
qed

definition settled_db :: db where
  "settled_db = commit_or_drop (settle_reindex_requirement J0 recovery_tok) required_db"

lemma settle_run: "settle_reindex_requirement J0 recovery_tok required_db = Inr (True, settled_db)"
  by (simp add: run_simps saved_db_def settle_reindex_requirement_def required_db_def recovery_tok_def
      write_requirements_def token_def settled_db_def commit_or_drop_def del: run_no_iff)

lemma reachable_saved: "reachable J0 saved_db"
  using reg_step.put_project [OF save_run] by (auto simp: reachable_def)

lemma reachable_required: "reachable J0 required_db"
  by (rule reachable_step [OF reachable_saved reg_step.record_requirement [OF require_run]])

lemma token_run: "reindex_requirement_token J0 ''p'' Source required_db = Inr (Some recovery_tok)"
  by (simp add: run_simps saved_db_def reindex_requirement_token_def required_db_def recovery_tok_def
      write_requirements_def token_def del: run_no_iff)

lemma settled_token_run: "reindex_requirement_token J0 ''p'' Source settled_db = Inr None"
  by (simp add: run_simps saved_db_def settle_reindex_requirement_def required_db_def recovery_tok_def
      write_requirements_def token_def settled_db_def commit_or_drop_def reindex_requirement_token_def del: run_no_iff)

lemma settled_steps: "(reg_step J0)\<^sup>*\<^sup>* required_db settled_db"
  using reg_step.settle [OF settle_run] by blast

definition deleted_db :: db where
  "deleted_db = commit_or_drop (delete_all_for_project J0 ''p'') published_db"

lemma delete_run: "delete_all_for_project J0 ''p'' published_db = Inr ((), deleted_db)"
  by (simp add: run_simps saved_db_def published_db_def delete_all_for_project_def clear_pending_on_delete_def
      requirements_for_project_write_def deleted_db_def commit_or_drop_def del: run_no_iff)

definition damaged_db :: db where
  "damaged_db = put_meta (head_key ''p'') ''x'' (put_meta (flag_key ''p'' REQUIRED) ''1''
     (put_meta (flag_key ''p'' IDENTITY_VERIFIED) ''0'' (put_meta (flag_key ''p'' IDENTITY_EPOCH) ''4''
       (put_meta (revision_key ''p'') ''4'' (put_meta REVISION_SEQUENCE (to_vec (u64_json J0) 4) saved_db)))))"

lemma damage_run: "set_meta J0 ''p'' HEAD ''x'' saved_db = Inr ((), damaged_db)"
  by (simp add: run_simps saved_db_def set_meta_def damaged_db_def del: run_no_iff)
    (simp add: fmupd_reorder_neq)

definition damage_token :: recovery_token where
  "damage_token = \<lparr> rt_project_id = ''p'', rt_metadata = \<lparr> rm_raw_head = Some ''x'', rm_required = Some ''1'',
     rm_verified = Some ''0'', rm_legacy_attested = None, rm_managed = None, rm_revision = 4, rm_identity_epoch = 4 \<rparr>,
     rt_directory = ''/r'', rt_project_type = ''git'' \<rparr>"

lemma utf8_x [simp]: "utf8_valid ''x''" and parse_x [simp]: "parse_u64 ''x'' = None"
  by code_simp+

lemma damage_metadata: "read_recovery_metadata J0 ''p'' damaged_db = Inr (rt_metadata damage_token, 4)"
  by (simp add: run_simps saved_db_def damaged_db_def read_recovery_metadata_def read_bounded_def RECOVERY_HEAD_BYTES_def
      damage_token_def identity_verified_def del: run_no_iff)

lemma damage_capture: "capture_source_recovery J0 ''p'' damaged_db = Inr damage_token"
  by (simp add: capture_source_recovery_def damage_metadata del: run_no_iff)
    (simp add: run_simps saved_db_def damaged_db_def damage_token_def bounded_text_def from_utf8_def del: run_no_iff)

definition reservation :: recovery_reservation where
  "reservation = \<lparr> rr_base = damage_token, rr_generation = 8 \<rparr>"

definition reserved_db :: db where
  "reserved_db = put_meta REVISION_SEQUENCE (to_vec (u64_json J0) 8) damaged_db"

lemma damage_matches: "recovery_matches J0 damage_token damaged_db = Inr (Some 4)"
  using damage_metadata
  by (simp add: recovery_matches_def run_simps damage_token_def saved_db_def damaged_db_def
      matches_source_identity_def del: run_no_iff)

lemma reserve_run: "reserve_source_recovery J0 damage_token 7 damaged_db = Inr (Some reservation, reserved_db)"
  by (simp add: reserve_source_recovery_def damage_matches del: run_no_iff)
    (simp add: run_simps damage_token_def reservation_def reserved_db_def damaged_db_def del: run_no_iff)

lemma reachable_damaged: "reachable J0 damaged_db"
  by (rule reachable_step [OF reachable_saved reg_step.set_meta [OF _ damage_run]]) simp

lemma reachable_published: "reachable J0 published_db"
  by (rule reachable_step [OF reachable_saved reg_step.publish [OF publish_run]])

definition running_job :: job_record where
  "running_job = \<lparr> job_id = ''j'', job_kind = ''index'', job_project_id = Some ''p'', job_status = RUNNING,
     job_message = ''started'', progress_pct = 10, estimated_time_remaining_ms = None, job_created_at_ms = 1,
     job_updated_at_ms = 2 \<rparr>"

definition running_db :: db where
  "running_db = empty_db\<lparr>jobs := fmupd ''j'' (to_vec (job_json J0) running_job) fmempty\<rparr>"

definition sample_section :: memory_section where
  "sample_section = \<lparr> section_id = ''n'', section_title = ''Note'', section_content = ''text'',
     section_updated_at_ms = 1, section_created_at_ms = 1, section_author = None, section_kind = None,
     review_after_ms = None, section_tags = [], related_files = [] \<rparr>"

end
