(* ===== verification/Token_Properties.thy ===== *)
theory Token_Properties
  imports Sample_Run
begin

text \<open>
  The properties of recovery tokens, source-head tokens and recovery reservations over every
  sequence of registry operations, each with a concrete run.
\<close>

section \<open>Recovery tokens\<close>

text \<open>
  A recovery token that was current once and is no longer current never settles anything
  again: in every state reachable from there the settlement reports false and changes nothing.
  The sequence of operations is arbitrary and may delete and re-create the project.
\<close>

lemma stale_token_never_settles:
  assumes "reachable J s" and "reindex_requirement_token J p reason s = Inr (Some tok)"
    and "(reg_step J)\<^sup>*\<^sup>* s t" and "reindex_requirement_token J p reason t \<noteq> Inr (Some tok)"
    and "(reg_step J)\<^sup>*\<^sup>* t u"
  shows "settle_reindex_requirement J tok u = Inr (False, u)"
proof -
  note I = reachable_inv [OF assms(1)]
  note c = token_cell [OF I assms(2)]
  have It: "reg_inv J t" and Iu: "reg_inv J u" using inv_steps [OF I assms(3)] inv_steps [OF _ assms(5)] by auto
  have "reason_cell J p reason t \<noteq> Some (tok_revision tok)"
    using assms(4) c(1-3) absent_reason_cell [OF It, of p reason]
    by (auto simp: requirement_token_eq [OF It c(1)] reason_cell_effective split: if_splits)
  from reason.changed_forever [OF assms(3,5) I c(4) this]
  show ?thesis using c by (intro settle_stale [OF Iu]) auto
qed

text \<open>
  C1. A later failure is never cleared by an earlier repair. When a token of a project and reason
  was captured, and the same reason is required again after any operations, the requirement gets a
  token of its own, which is the current one unless the project is not registered, and from then
  on, whatever runs, the earlier token is not current, and settling it reports false and changes
  nothing.
\<close>

theorem superseded_token_never_settles:
  assumes "reachable J s" and "reindex_requirement_token J p reason s = Inr (Some tok)"
    and "(reg_step J)\<^sup>*\<^sup>* s t" and "require_reindex J p reason since t = Inr (r, t1)"
    and "(reg_step J)\<^sup>*\<^sup>* t1 u"
  shows "settle_reindex_requirement J tok u = Inr (False, u)
    \<and> reindex_requirement_token J p reason u \<noteq> Inr (Some tok)
    \<and> reindex_requirement_token J p reason t1 = Inr r
    \<and> (r = None \<longleftrightarrow> get_project J p t = Inr None)"
proof -
  note I = reachable_inv [OF assms(1)]
  note c = token_cell [OF I assms(2)]
  have It: "reg_inv J t" by (rule inv_steps [OF I assms(3)])
  note R = require_supersedes [OF It assms(4)]
  have It1: "reg_inv J t1" by (rule reg_step_ratchets(1) [OF It R(1)])
  have new: "reindex_requirement_token J p reason t1 \<noteq> Inr (Some tok)"
  proof
    assume tok: "reindex_requirement_token J p reason t1 = Inr (Some tok)"
    have "tok_revision tok \<le> seq J s" by (rule cells_issued(3) [OF I c(4)])
    then have "tok_revision tok \<le> seq J t" using seq_steps [OF I assms(3)] by simp
    with require_changes_cell [OF It assms(4)] token_cell(4) [OF It1 tok] R(3) tok show False by auto
  qed
  have steps: "(reg_step J)\<^sup>*\<^sup>* s t1" using assms(3) R(1) by (rule rtranclp.rtrancl_into_rtrancl)
  have settle: "settle_reindex_requirement J tok u = Inr (False, u)"
    by (rule stale_token_never_settles [OF assms(1,2) steps new assms(5)])
  moreover have "reindex_requirement_token J p reason u \<noteq> Inr (Some tok)"
  proof
    assume tok: "reindex_requirement_token J p reason u = Inr (Some tok)"
    have Iu: "reg_inv J u" by (rule inv_steps [OF It1 assms(5)])
    have "project_row J p u \<noteq> None" "token (effective J p u) p reason = Some tok"
      using tok by (simp_all add: requirement_token_eq [OF Iu c(1)] split: if_splits)
    then have "settle_reindex_requirement J tok u \<noteq> Inr (False, u)"
      using c(1-3) by (auto simp: settle_eq [OF Iu] Let_def split: option.splits)
    with settle show False by simp
  qed
  ultimately show ?thesis using R(2-4) by (simp add: get_project_def read_project_ok [OF It])
qed

theorem superseded_token_never_settles_witness:
  "reindex_requirement_token J0 ''p'' Source required_db = Inr (Some recovery_tok)
   \<and> require_reindex J0 ''p'' Source 6 required_db = Inr (Some (recovery_tok\<lparr>tok_revision := 4\<rparr>), required_again_db)
   \<and> settle_reindex_requirement J0 recovery_tok required_again_db = Inr (False, required_again_db)
   \<and> reindex_requirement_token J0 ''p'' Source required_again_db = Inr (Some (recovery_tok\<lparr>tok_revision := 4\<rparr>))"
  using superseded_token_never_settles [OF reachable_required token_run _ require_again_run, of required_again_db]
    token_run require_again_run by simp

text \<open>
  A token settles at most once: after a successful settlement, every later settlement of the
  same token is refused, also when the same reason was required again in between.
\<close>

theorem settles_at_most_once:
  assumes "reachable J s" and "settle_reindex_requirement J tok s = Inr (True, t)" and "(reg_step J)\<^sup>*\<^sup>* t u"
  shows "settle_reindex_requirement J tok u = Inr (False, u)"
proof -
  note I = reachable_inv [OF assms(1)]
  note c = settled_cell [OF I assms(2)]
  have step: "(reg_step J)\<^sup>*\<^sup>* s t" using assms(2) by (auto intro: reg_step.settle)
  then have Iu: "reg_inv J u" using inv_steps I assms(3) by (meson rtranclp_trans)
  from reason.changed_forever [OF step assms(3) I c(2)] c(1)
  show ?thesis by (intro settle_stale [OF Iu c(3)]) simp
qed

theorem settles_at_most_once_witness:
  "settle_reindex_requirement J0 recovery_tok required_db = Inr (True, settled_db)
   \<and> settle_reindex_requirement J0 recovery_tok settled_db = Inr (False, settled_db)"
  using settles_at_most_once [OF reachable_required settle_run, of settled_db] settle_run by simp

text \<open>
  A successful settlement removes exactly the token's reason: every other reason keeps its
  token, and the recovery flag of the project becomes the earliest time of the reasons that are
  left, so it is cleared only when none is left.
\<close>

theorem settle_removes_only_its_reason:
  assumes "reachable J s" and "settle_reindex_requirement J tok s = Inr (True, t)"
  shows "reindex_requirement_token J (tok_project_id tok) (tok_reason tok) t = Inr None
    \<and> (\<forall>r. r \<noteq> tok_reason tok \<longrightarrow>
        reindex_requirement_token J (tok_project_id tok) r t = reindex_requirement_token J (tok_project_id tok) r s)
    \<and> (\<exists>rec. get_project J (tok_project_id tok) t = Inr (Some rec)
        \<and> (reindex_required_since_ms rec = None \<longleftrightarrow> reindex_reasons J (tok_project_id tok) t = Inr []))"
proof (intro conjI allI impI)
  let ?p = "tok_project_id tok"
  note I = reachable_inv [OF assms(1)]
  have It: "reg_inv J t" using reg_step_ratchets(1) [OF I reg_step.settle [OF assms(2)]] .
  obtain rec q where yes: "key_ok ?p" "project_row J ?p s = Some rec" "stored_requirements J ?p s = Some q"
      "t = write_requirements J rec (q\<lparr>pending := fmdrop (tok_reason tok) (pending q)\<rparr>) s"
    by (rule settle_cases [OF I assms(2)]) auto
  have C: "codecs_ok J" and m: "minv J s" and mt: "minv J t" using I It by (simp_all add: reg_inv_def rinv_def)
  have pid: "project_id rec = ?p" by (rule project_row_id(1) [OF m yes(2)])
  let ?rec = "rec\<lparr>reindex_required_since_ms := since_ms (q\<lparr>pending := fmdrop (tok_reason tok) (pending q)\<rparr>)\<rparr>"
  have row: "project_row J ?p t = Some ?rec" and eff: "effective J ?p t = q\<lparr>pending := fmdrop (tok_reason tok) (pending q)\<rparr>"
    "effective J ?p s = q"
    using C pid yes(3) by (simp_all add: yes(4) project_row_def effective_def stored_requirements_def)
  show "reindex_requirement_token J ?p (tok_reason tok) t = Inr None"
    by (simp add: requirement_token_eq [OF It yes(1)] row eff token_def)
  show "reindex_requirement_token J ?p r t = reindex_requirement_token J ?p r s" if "r \<noteq> tok_reason tok" for r
    using that by (simp add: requirement_token_eq [OF It yes(1)] requirement_token_eq [OF I yes(1)] row yes(2) eff token_def)
  show "\<exists>rec. get_project J ?p t = Inr (Some rec)
      \<and> (reindex_required_since_ms rec = None \<longleftrightarrow> reindex_reasons J ?p t = Inr [])"
    using yes(1) by (simp add: get_project_def read_project_ok [OF It] row reindex_reasons_eq [OF It yes(1)] eff)
qed

theorem settle_removes_only_its_reason_witness:
  "reindex_requirement_token J0 ''p'' Vector settled_db = reindex_requirement_token J0 ''p'' Vector required_db
   \<and> reindex_requirement_token J0 ''p'' Source settled_db = Inr None"
  using settle_removes_only_its_reason [OF reachable_required settle_run]
  by (simp add: recovery_tok_def)

text \<open>
  C5. In every reachable state the recovery flag of a registered project mirrors its pending
  reasons: it is absent exactly when no reason is pending, and otherwise it is the earliest
  time at which one of them was required.
\<close>

theorem flag_mirrors_requirements:
  assumes "reachable J s" and "get_project J p s = Inr (Some rec)"
  shows "(reindex_required_since_ms rec = None \<longleftrightarrow> reindex_reasons J p s = Inr [])
    \<and> reindex_required_since_ms rec = since_ms (effective J p s)"
proof -
  note I = reachable_inv [OF assms(1)]
  have k: "key_ok p" and row: "project_row J p s = Some rec"
    using assms(2) by (auto simp: get_project_def read_project_ok [OF I])
  have "mirror J p s" using I k by (simp add: reg_inv_def minv_def)
  then have "reindex_required_since_ms rec = since_ms (effective J p s)"
    by (cases "stored_requirements J p s")
      (simp_all add: mirror_def row effective_def)
  then show ?thesis by (simp add: reindex_reasons_eq [OF I k] row)
qed

theorem flag_mirrors_requirements_witness:
  "\<exists>rec. get_project J0 ''p'' required_db = Inr (Some rec)
    \<and> reindex_required_since_ms rec = since_ms (effective J0 ''p'' required_db)"
proof -
  obtain rec where rec: "get_project J0 ''p'' required_db = Inr (Some rec)"
    by (simp add: get_project_def read_project_def required_db_def write_requirements_def Let_def sample_project_def)
  from flag_mirrors_requirements [OF reachable_required rec] rec show ?thesis by blast
qed

text \<open>
  Saving a project record never loses a pending reason: whatever flag the caller's record
  carries, every token that was current before is current afterwards, and the stored flag is
  the earliest pending time, not the caller's value.
\<close>

theorem put_project_keeps_requirements:
  assumes "reachable J s" and "reindex_requirement_token J (project_id rec) reason s = Inr (Some tok)"
    and "put_project J rec s = Inr ((), t)"
  shows "reindex_requirement_token J (project_id rec) reason t = Inr (Some tok)
    \<and> get_project J (project_id rec) t
        = Inr (Some (rec\<lparr>reindex_required_since_ms := since_ms (effective J (project_id rec) s)\<rparr>))"
proof -
  let ?p = "project_id rec"
  note I = reachable_inv [OF assms(1)]
  have It: "reg_inv J t" using reg_step_ratchets(1) [OF I reg_step.put_project [OF assms(3)]] .
  note c = token_cell [OF I assms(2)]
  then obtain r where r: "stored_requirements J ?p s = Some r"
    by (auto simp: reason_cell_def bind_eq_Some_conv)
  note E = put_project_keeps [OF I assms(3) r]
  have "token r ?p reason = Some tok" using c r by (simp add: reason_cell_effective effective_def)
  then show ?thesis
    using E c(1) r by (simp add: requirement_token_eq [OF It c(1)] effective_def get_project_def read_project_ok [OF It])
qed

theorem put_project_keeps_requirements_witness:
  "reindex_requirement_token J0 ''p'' Source (commit_or_drop (put_project J0 sample_project) required_db)
     = Inr (Some recovery_tok)"
proof -
  obtain t where t: "put_project J0 sample_project required_db = Inr ((), t)"
    by (simp add: run_simps put_project_def requirements_for_project_write_def required_db_def
        write_requirements_def saved_db_def)
  have "project_id sample_project = ''p''" by (simp add: sample_project_def)
  with put_project_keeps_requirements [OF reachable_required _ t, of Source recovery_tok] token_run t
  show ?thesis by (simp add: commit_or_drop_def)
qed

section \<open>Source-head tokens\<close>

text \<open>
  C2. Lost updates are impossible: once any token of a project has published, every token of
  that project captured before is refused in every later state, also after the project was
  deleted and created again.
\<close>

theorem publication_invalidates_earlier_tokens:
  assumes "reachable J s" and "capture_source_head J p s = Inr (tok, s1)" and "(reg_step J)\<^sup>*\<^sup>* s1 t"
    and "publish_source_head J tok' m t = Inr (True, t1)" and "ht_project_id tok' = p"
    and "(reg_step J)\<^sup>*\<^sup>* t1 u" and "ht_generation tok < n"
  shows "source_head_is_current J tok u = Inr False \<and> publish_source_head J tok n u = Inr (False, u)"
proof -
  note I = reachable_inv [OF assms(1)]
  note c = capture_matches [OF I assms(2)]
  have I1: "reg_inv J s1" using inv_steps [OF I c(3)] .
  have It: "reg_inv J t" using inv_steps [OF I1 assms(3)] .
  have step: "reg_step J t t1" by (rule reg_step.publish [OF assms(4)])
  have It1: "reg_inv J t1" using reg_step_ratchets(1) [OF It step] .
  obtain v where v: "seq J t < v" "head_cell p t1 = Some v" "seq J t1 = v"
    by (rule publish_head_cell [OF It assms(4)]) (simp add: assms(5))
  have "ht_revision tok \<le> seq J s1" by (rule token_matches_issued [OF I1 c(4)])
  then have le: "ht_revision tok \<le> seq J t" using seq_steps [OF I1 assms(3)] by simp
  have "head_cell p u \<noteq> Some (ht_revision tok)"
    by (rule head.stale_forever [OF assms(6) It1]) (use v le in auto)
  with stale_head [OF inv_steps [OF It1 assms(6)], of tok] c(1,2) assms(7) show ?thesis by simp
qed

theorem publication_invalidates_earlier_tokens_witness:
  "publish_source_head J0 sample_token 2 saved_db = Inr (True, published_db)
   \<and> publish_source_head J0 sample_token 3 published_db = Inr (False, published_db)"
  using publication_invalidates_earlier_tokens [OF reachable_saved capture_run _ publish_run, of published_db 3]
    publish_run by (simp add: sample_token_def)

text \<open>
  C3. Deletion is final for tokens: a token captured before \<open>delete_all_for_project\<close> is not
  current in any later state, whatever is registered under the same id afterwards, and no
  publication with it succeeds: one that names a greater generation reports false and changes
  nothing, and none ever reports true.
\<close>

theorem deletion_invalidates_tokens:
  assumes "reachable J s" and "capture_source_head J p s = Inr (tok, s1)" and "(reg_step J)\<^sup>*\<^sup>* s1 t"
    and "delete_all_for_project J p t = Inr ((), t1)" and "(reg_step J)\<^sup>*\<^sup>* t1 u"
  shows "source_head_is_current J tok u = Inr False
    \<and> (\<forall>n. ht_generation tok < n \<longrightarrow> publish_source_head J tok n u = Inr (False, u))
    \<and> (\<forall>n v. publish_source_head J tok n u \<noteq> Inr (True, v))"
proof -
  note I = reachable_inv [OF assms(1)]
  note c = capture_matches [OF I assms(2)]
  have I1: "reg_inv J s1" using inv_steps [OF I c(3)] .
  have It: "reg_inv J t" using inv_steps [OF I1 assms(3)] .
  have step: "reg_step J t t1" by (rule reg_step.delete_all [OF assms(4)])
  note R = reg_step_ratchets [OF It step]
  have "ht_revision tok \<le> seq J s1" by (rule token_matches_issued [OF I1 c(4)])
  then have le: "ht_revision tok \<le> seq J t1" using seq_steps [OF I1 assms(3)] R(2) by simp
  have "head_cell p u \<noteq> Some (ht_revision tok)"
    by (rule head.stale_forever [OF assms(5) R(1)]) (use le delete_all_head_cell [OF assms(4)] in auto)
  with stale_head [OF inv_steps [OF R(1) assms(5)], of tok] c(1,2)
  have S: "source_head_is_current J tok u = Inr False"
    "\<And>n. ht_generation tok < n \<Longrightarrow> publish_source_head J tok n u = Inr (False, u)" by simp_all
  have "publish_source_head J tok n u \<noteq> Inr (True, v)" for n v
  proof (cases "ht_generation tok < n")
    case False
    then show ?thesis by (auto simp: publish_source_head_def Let_def)
  qed (simp add: S)
  with S show ?thesis by blast
qed

theorem deletion_invalidates_tokens_witness:
  "source_head_is_current J0 sample_token deleted_db = Inr False
   \<and> publish_source_head J0 sample_token 3 deleted_db = Inr (False, deleted_db)"
  using deletion_invalidates_tokens [OF reachable_saved capture_run r_into_rtranclp [of "reg_step J0", OF reg_step.publish [OF publish_run]]
      delete_run, of deleted_db] by (simp add: sample_token_def)

text \<open>
  C4. A fresh token works: right after its capture it is current, and publishing a greater
  generation with it succeeds unless the revision sequence is exhausted. Afterwards readers see
  the new generation as the active one and the source identity as verified, and the token is
  used up.
\<close>

theorem captured_token_publishes:
  assumes "reachable J s" and "capture_source_head J p s = Inr (tok, s1)"
    and "ht_generation tok < n" and "seq J s1 < U64_MAX"
  shows "source_head_is_current J tok s1 = Inr True
    \<and> (\<exists>t. publish_source_head J tok n s1 = Inr (True, t)
         \<and> active_source_generation p t = Inr n
         \<and> source_identity_needs_verification p t = Inr False
         \<and> source_head_is_current J tok t = Inr False)"
proof -
  note I = reachable_inv [OF assms(1)]
  note c = capture_matches [OF I assms(2)]
  have I1: "reg_inv J s1" using inv_steps [OF I c(3)] .
  obtain t where t: "publish_source_head J tok n s1 = Inr (True, t)"
    using publish_ok [OF I1 c(4) assms(3,4)] by blast
  have It: "reg_inv J t" using reg_step_ratchets(1) [OF I1 reg_step.publish [OF t]] .
  have n: "n \<noteq> 0" using assms(3) by auto
  from t have r: "active_source_generation p t = Inr n" "source_identity_needs_verification p t = Inr False"
    by (rule publish_cases; use published_reads(2,3) [OF _ c(1) n, of t] c(2) It in simp)+
  obtain v where v: "seq J s1 < v" "head_cell p t = Some v"
    by (rule publish_head_cell [OF I1 t]) (simp add: c(2))
  have "ht_revision tok \<le> seq J s1" by (rule token_matches_issued [OF I1 c(4)])
  with v have "\<not> token_matches J tok t" by (auto simp: token_matches_def c(2))
  with t r c(4) show ?thesis by (simp add: is_current_iff [OF I1] is_current_iff [OF It])
qed

theorem captured_token_publishes_witness:
  "\<exists>t. publish_source_head J0 sample_token 2 saved_db = Inr (True, t) \<and> active_source_generation ''p'' t = Inr 2"
proof -
  have "seq J0 saved_db < U64_MAX" by (simp add: saved_db_def seq_def U64_MAX_def)
  with captured_token_publishes [OF reachable_saved capture_run, of 2] show ?thesis
    by (auto simp: sample_token_def)
qed

section \<open>Recovery reservations\<close>

text \<open>
  No two reservations of the database share a generation, in whatever projects and with
  whatever operations between them: the later one is greater, and every reservation is above
  the floor its caller observed.
\<close>

theorem reservations_increase:
  assumes "reachable J s" and "reserve_source_recovery J base flr s = Inr (Some rsv, t)"
    and "(reg_step J)\<^sup>*\<^sup>* t u" and "reserve_source_recovery J base' flr' u = Inr (Some rsv', v)"
  shows "rr_generation rsv < rr_generation rsv' \<and> flr < rr_generation rsv \<and> flr' < rr_generation rsv'"
proof -
  note I = reachable_inv [OF assms(1)]
  have C: "codecs_ok J" using I by (simp add: reg_inv_def rinv_def)
  have It: "reg_inv J t" using reg_step_ratchets(1) [OF I reg_step.reserve [OF assms(2)]] .
  obtain f where 1: "next_revision J f s = Inr (rr_generation rsv, t)" "flr \<le> f" by (rule reserve_cases [OF assms(2)])
  obtain f' where 2: "next_revision J f' u = Inr (rr_generation rsv', v)" "flr' \<le> f'" by (rule reserve_cases [OF assms(4)])
  note E = next_revision_InrE [OF 1(1)] and E' = next_revision_InrE [OF 2(1)]
  have "seq J t = rr_generation rsv" using C by (simp add: E(1))
  with seq_steps [OF It assms(3)] E(3) E'(2,3) 1(2) 2(2) show ?thesis by auto
qed

theorem reservations_increase_witness:
  "\<exists>rsv t. reserve_source_recovery J0 damage_token 7 reserved_db = Inr (Some rsv, t)
    \<and> rr_generation reservation < rr_generation rsv"
proof -
  have "recovery_matches J0 damage_token reserved_db = Inr (Some 8)"
    using recovery_metadata_reserved [OF damage_metadata, of 8]
    by (simp add: recovery_matches_def run_simps damage_token_def saved_db_def damaged_db_def reserved_db_def
        matches_source_identity_def u64_json_short_def del: run_no_iff)
  then obtain rsv t where r: "reserve_source_recovery J0 damage_token 7 reserved_db = Inr (Some rsv, t)"
    by (simp add: reserve_source_recovery_def run_simps damage_token_def reserved_db_def damaged_db_def del: run_no_iff)
  from reservations_increase [OF reachable_damaged reserve_run _ r] r show ?thesis by blast
qed

text \<open>
  A reservation can be published: the guard that refuses floors near the end of the range
  leaves room for the revision that the publication needs, so publishing the reservation right
  away succeeds and makes its generation the active one.
\<close>

theorem reservation_publishes:
  assumes "reachable J s" and "u64_json_short J" and "capture_source_recovery J p s = Inr base"
    and "reserve_source_recovery J base flr s = Inr (Some rsv, t)"
  shows "\<exists>u. publish_source_recovery J rsv t = Inr (True, u) \<and> flr < rr_generation rsv
    \<and> active_source_generation p u = Inr (rr_generation rsv)
    \<and> source_identity_needs_verification p u = Inr False"
proof -
  note I = reachable_inv [OF assms(1)]
  have C: "codecs_ok J" using I by (simp add: reg_inv_def rinv_def)
  have It: "reg_inv J t" using reg_step_ratchets(1) [OF I reg_step.reserve [OF assms(4)]] .
  note cap = capture_recovery_matches [OF assms(3)]
  obtain sq f where r: "recovery_matches J base s = Inr (Some sq)" "flr \<le> f" "sq \<le> f" "f < U64_MAX - 1"
    "next_revision J f s = Inr (rr_generation rsv, t)" "rr_base rsv = base"
    by (rule reserve_cases [OF assms(4)])
  obtain rec where rec: "read_project J p s = Inr (Some rec)"
    "matches_source_identity (rt_directory base) (rt_project_type base) rec"
    "read_recovery_metadata J p s = Inr (rt_metadata base, sq)"
    by (rule recovery_matches_Some [OF r(1)]) (simp add: cap(2))
  note E = next_revision_InrE [OF r(5)]
  let ?g = "rr_generation rsv"
  have sq: "seq J s = sq" by (rule recovery_metadata_sequence [OF rec(3)])
  have "max (seq J s) f < U64_MAX" using r(3,4) sq succ_below_max(2) by (simp add: max_def)
  then have g: "?g = f + 1" using next_revision_ok [of J s f] r(3,5) I sq by (simp add: reg_inv_def max_absorb2)
  have seqt: "seq J t = ?g" using C by (simp add: E(1))
  have md: "read_recovery_metadata J p t = Inr (rt_metadata base, ?g)"
    unfolding E(1) by (rule recovery_metadata_reserved [OF rec(3) C assms(2) cap(3)]) (use E(2) sq in simp)
  have "read_project J p t = Inr (Some rec)" using rec(1) by (simp add: E(1) read_project_def)
  with md rec(2) cap(2) have match: "recovery_matches J base t = Inr (Some ?g)" by (simp add: recovery_matches_def)
  have "seq J t < U64_MAX" unfolding seqt g by (rule succ_below_max(1) [OF r(4)])
  then obtain n t1 where "advance_revision J p t = Inr (n, t1)" using advance_ok [OF It cap(3)] by blast
  with match r(6) cap(2) obtain u where u: "publish_source_recovery J rsv t = Inr (True, u)"
    and ue: "u = put_meta (head_key p) (show_u64 ?g) (put_meta (flag_key p IDENTITY_VERIFIED) ''1''
      (put_meta (flag_key p MANAGED) ''1'' (mark_head_required p t1)))"
    by (simp add: publish_source_recovery_def Let_def)
  have "reg_inv J u" using reg_step_ratchets(1) [OF It reg_step.publish_recovery [OF u]] .
  with published_reads [OF ue cap(3)] E(3,4) u r(2) show ?thesis by auto
qed

theorem reservation_publishes_witness:
  "\<exists>u. publish_source_recovery J0 reservation reserved_db = Inr (True, u)
    \<and> active_source_generation ''p'' u = Inr 8"
  using reservation_publishes [OF reachable_damaged _ damage_capture reserve_run]
  by (auto simp: u64_json_short_def reservation_def)

end
