(* ===== verification/Registry_Lemmas.thy ===== *)
theory Registry_Lemmas
  imports Sample_Run
begin

text \<open>
  Lemmas on the registry's list, delete, page and job operations: what deletion leaves of each
  table, the job rows under \<open>remove_keys\<close>, the accounting of the bounded metadata page, and the
  effect of the orphan sweep.
\<close>

section \<open>Deleting a project\<close>

lemma iter_remove_keys: "iter (remove_keys ks t) = filter (\<lambda>kv. fst kv \<notin> set ks) (iter t)"
proof (rule pair_list_eqI)
  show "sorted (map fst (filter (\<lambda>kv. fst kv \<notin> set ks) (iter t)))"
    using sorted_wrt_filter [OF sorted_wrt_iter] by (simp add: sorted_map)
  show "distinct (map fst (filter (\<lambda>kv. fst kv \<notin> set ks) (iter t)))"
    by (simp add: distinct_map_filter)
  show "map_of (iter (remove_keys ks t)) = map_of (filter (\<lambda>kv. fst kv \<notin> set ks) (iter t))"
  proof
    fix k
    have "map_of (filter (\<lambda>kv. fst kv \<notin> set ks) xs) k = (if k \<in> set ks then None else map_of xs k)"
      for xs :: "('a \<times> 'b) list"
      by (induction xs) auto
    then show "map_of (iter (remove_keys ks t)) k = map_of (filter (\<lambda>kv. fst kv \<notin> set ks) (iter t)) k" by simp
  qed
qed simp_all

lemma prefix_scan_remove_prefix:
  assumes "key_ok p" "key_ok q"
  shows "prefix_scan (q @ [NUL]) (remove_prefix (p @ [NUL]) t) = (if p = q then [] else prefix_scan (q @ [NUL]) t)"
proof (cases "p = q")
  case True
  have "prefix_scan (q @ [NUL]) (remove_prefix (p @ [NUL]) t) = prefix_scan (q @ [NUL]) fmempty"
    by (rule prefix_scan_cong) (simp add: lookup_remove_prefix True)
  then show ?thesis using True by (simp add: prefix_scan_filter)
next
  case False
  have "\<not> prefix (p @ [NUL]) k" if "prefix (q @ [NUL]) k" for k
    using that sep_prefix_iff [of NUL p q] assms False key_okD by (auto simp: prefix_def)
  then show ?thesis using False by (auto intro: prefix_scan_cong simp: lookup_remove_prefix)
qed

text \<open>Decoding a filtered table, when every row of the table decodes.\<close>

lemma traverse_filter_rows:
  assumes "traverseR (\<lambda>(k, v). bindR (f v) (\<lambda>j. Inr (k, j))) rows = Inr out"
  shows "traverseR f (map snd (filter (\<lambda>kv. P (fst kv)) rows)) = Inr (map snd (filter (\<lambda>kj. P (fst kj)) out))"
    and "map fst out = map fst rows"
  using assms by (induction rows arbitrary: out) (auto simp: bindR_def split: sum.splits)

lemma jobs_after_delete:
  assumes "traverseR (\<lambda>(k, v). bindR (f v) (\<lambda>j. Inr (k, j))) (iter t) = Inr rows"
    and "ids = map fst (filter (\<lambda>(k, j). P j) rows)"
  shows "traverseR f (map snd (iter (remove_keys ids t))) = Inr (filter (\<lambda>j. \<not> P j) (map snd rows))"
    and "traverseR f (map snd (iter t)) = Inr (map snd rows)"
proof -
  note R = traverse_filter_rows [OF assms(1)]
  have d: "distinct (map fst rows)" using R(2) by simp
  have "filter (\<lambda>kj. fst kj \<notin> set ids) rows = filter (\<lambda>kj. \<not> P (snd kj)) rows"
  proof (rule filter_cong [OF refl])
    fix kj assume "kj \<in> set rows"
    with d show "fst kj \<notin> set ids \<longleftrightarrow> \<not> P (snd kj)"
      by (cases kj) (force simp: assms(2) dest: eq_key_imp_eq_value)
  qed
  then show "traverseR f (map snd (iter (remove_keys ids t))) = Inr (filter (\<lambda>j. \<not> P j) (map snd rows))"
    using R(1) [of "\<lambda>k. k \<notin> set ids"] by (simp add: iter_remove_keys filter_map comp_def)
  show "traverseR f (map snd (iter t)) = Inr (map snd rows)" using R(1) [of "\<lambda>_. True"] by simp
qed

lemma traverse_rows_mem:
  assumes "traverseR (\<lambda>(k, v). bindR (f v) (\<lambda>j. Inr (k, j))) (iter t) = Inr rows"
  shows "(k, j) \<in> set rows \<longleftrightarrow> (\<exists>v. fmlookup t k = Some v \<and> f v = Inr j)"
proof -
  have "(k, j) \<in> set rows \<longleftrightarrow> (\<exists>kv \<in> set (iter t). fst kv = k \<and> f (snd kv) = Inr j)"
    unfolding traverseR_set(1) [OF assms] by (rule bex_cong [OF refl]) (auto simp: case_prod_unfold)
  also have "\<dots> \<longleftrightarrow> (\<exists>v. (k, v) \<in> set (iter t) \<and> f v = Inr j)" by (metis fst_conv prod.collapse snd_conv)
  finally show ?thesis by (simp add: set_iter)
qed

lemma traverse_length: "traverseR f xs = Inr ys \<Longrightarrow> length ys = length xs"
  by (simp add: traverseR_Inr_iff list_all2_lengthD)

lemma remove_decoded:
  assumes "traverseR (\<lambda>(k, v). bindR (f v) (\<lambda>j. Inr (k, j))) (iter t) = Inr rows"
    and "ids = map fst (filter (\<lambda>(k, j). P j) rows)"
  shows "length ids + length (iter (remove_keys ids t)) = length (iter t)"
    and "fmlookup t k = Some v \<Longrightarrow> f v = Inr j \<Longrightarrow> fmlookup (remove_keys ids t) k = (if P j then None else Some v)"
proof -
  have "length (iter (remove_keys ids t)) = length (filter (\<lambda>j. \<not> P j) (map snd rows))"
    using traverse_length [OF jobs_after_delete(1) [OF assms]] by simp
  also have "\<dots> = length (filter (\<lambda>x. \<not> (case x of (k, j) \<Rightarrow> P j)) rows)"
    by (simp add: filter_map comp_def case_prod_unfold)
  finally show "length ids + length (iter (remove_keys ids t)) = length (iter t)"
    using sum_length_filter_compl [of "\<lambda>(k, j). P j" rows] traverse_length [OF assms(1)] by (simp add: assms(2))
  show "fmlookup (remove_keys ids t) k = (if P j then None else Some v)" if kv: "fmlookup t k = Some v" "f v = Inr j"
  proof -
    have "k \<in> set ids \<longleftrightarrow> (\<exists>i. (k, i) \<in> set rows \<and> P i)" by (force simp: assms(2))
    also have "\<dots> \<longleftrightarrow> P j" using kv by (simp add: traverse_rows_mem [OF assms(1)])
    finally show ?thesis using kv by simp
  qed
qed

section \<open>The bounded metadata page\<close>

definition page_bytes :: "meta_prefix_page \<Rightarrow> nat" where
  "page_bytes page = sum_list (map (\<lambda>(k, v). length k + length v) (entries page))"

definition page_inv :: "nat \<Rightarrow> nat \<Rightarrow> nat \<Rightarrow> nat \<Rightarrow> meta_prefix_page \<Rightarrow> bool" where
  "page_inv max_entries max_value max_total retained page \<longleftrightarrow>
     inspected page = length (entries page) + omitted_values page \<and> inspected page \<le> max_entries
     \<and> page_bytes page = retained \<and> retained \<le> max_total
     \<and> (\<forall>(k, v) \<in> set (entries page). length v \<le> max_value \<and> utf8_valid v)"

lemma page_loop_inv:
  assumes "page_inv max_entries max_value max_total retained page"
  shows "\<exists>r. page_inv max_entries max_value max_total r
    (page_loop p n max_entries max_value max_total retained page rows)"
  using assms
proof (induction p n max_entries max_value max_total retained page rows rule: page_loop.induct)
  case (2 p n max_entries max_value max_total retained page k v rows)
  show ?case
  proof (cases "prefix p k \<and> inspected page \<noteq> max_entries")
    case False
    with "2.prems" show ?thesis by (auto simp: page_inv_def page_bytes_def)
  next
    case True
    let ?l = "drop n k" and ?page1 = "page\<lparr>inspected := inspected page + 1\<rparr>"
    show ?thesis
    proof (cases "admitted max_value max_total retained ?l v \<and> utf8_valid v")
      case yes: True
      have "page_inv max_entries max_value max_total (retained + length ?l + length v)
          (?page1\<lparr>entries := entries ?page1 @ [(?l, v)]\<rparr>)"
        using "2.prems" True yes by (auto simp: page_inv_def page_bytes_def admitted_def)
      with "2.IH"(2) [of ?page1 ?l] True yes show ?thesis by auto
    next
      case no: False
      have "page_inv max_entries max_value max_total retained (?page1\<lparr>omitted_values := omitted_values ?page1 + 1\<rparr>)"
        using "2.prems" True by (auto simp: page_inv_def page_bytes_def)
      with "2.IH"(1) [of ?page1 ?l] True no show ?thesis by auto
    qed
  qed
qed auto

text \<open>Without \<open>has_more\<close> every row under the prefix was inspected, in key order.\<close>

lemma page_loop_complete:
  assumes "\<not> has_more (page_loop p n me mv mt r page rows)" and "\<not> has_more page"
  shows "inspected (page_loop p n me mv mt r page rows)
    = inspected page + length (takeWhile (\<lambda>kv. prefix p (fst kv)) rows)"
  using assms
proof (induction p n me mv mt r page rows rule: page_loop.induct)
  case (2 p n me mv mt r page k v rows)
  then show ?case
    by (cases "prefix p k"; cases "inspected page = me"; cases "admitted mv mt r (drop n k) v \<and> utf8_valid v")
      (auto simp: Let_def)
qed simp

lemma page_loop_entries:
  "set (entries (page_loop p n me mv mt r page rows))
     \<subseteq> set (entries page) \<union> {(drop n k, v) | k v. (k, v) \<in> set rows \<and> prefix p k}"
proof (induction p n me mv mt r page rows rule: page_loop.induct)
  case (2 p n me mv mt r page k v rows)
  show ?case
  proof (cases "prefix p k \<and> inspected page \<noteq> me")
    case True
    let ?l = "drop n k" and ?page1 = "page\<lparr>inspected := inspected page + 1\<rparr>"
    show ?thesis
    proof (cases "admitted mv mt r ?l v \<and> utf8_valid v")
      case yes: True
      with "2.IH"(2) [of ?page1 ?l] True
      have "set (entries (page_loop p n me mv mt r page ((k, v) # rows)))
          \<subseteq> insert (?l, v) (set (entries page)) \<union> {(drop n k, v) | k v. (k, v) \<in> set rows \<and> prefix p k}" by simp
      also have "\<dots> \<subseteq> set (entries page) \<union> {(drop n k', v') | k' v'. (k', v') \<in> set ((k, v) # rows) \<and> prefix p k'}"
        using True by auto
      finally show ?thesis .
    next
      case no: False
      with "2.IH"(1) [of ?page1 ?l] True
      have "set (entries (page_loop p n me mv mt r page ((k, v) # rows)))
          \<subseteq> set (entries page) \<union> {(drop n k, v) | k v. (k, v) \<in> set rows \<and> prefix p k}" by auto
      also have "\<dots> \<subseteq> set (entries page) \<union> {(drop n k', v') | k' v'. (k', v') \<in> set ((k, v) # rows) \<and> prefix p k'}"
        by auto
      finally show ?thesis .
    qed
  qed auto
qed simp

section \<open>The orphan sweep\<close>

definition is_running :: "codecs \<Rightarrow> bytes \<Rightarrow> bool" where
  "is_running J v \<longleftrightarrow> (\<exists>j. from_slice (job_json J) v = Some j \<and> job_status j = RUNNING)"

lemma collect_orphans_Inr:
  assumes "collect_orphans J clock rows = Inr ups"
  shows "map fst ups = map fst (filter (\<lambda>(k, v). is_running J v) rows)"
    and "(k, j) \<in> set ups \<Longrightarrow> job_status j = ABORTED"
    and "(k, v) \<in> set rows \<Longrightarrow> from_slice (job_json J) v \<noteq> None"
  using assms
  by (induction rows arbitrary: ups rule: collect_orphans.induct)
    (auto simp: is_running_def abort_job_def split: if_splits)

lemma fold_upd_lookup:
  assumes "distinct (map fst ups)"
  shows "fmlookup (fold (\<lambda>(k, j) t. fmupd k (f j) t) ups t) k
    = (case map_of ups k of None \<Rightarrow> fmlookup t k | Some j \<Rightarrow> Some (f j))"
  using assms
proof (induction ups arbitrary: t)
  case (Cons kj ups)
  obtain a j where [simp]: "kj = (a, j)" by (cases kj)
  have "map_of ups a = None" using Cons.prems by (simp add: map_of_eq_None_iff)
  with Cons show ?case by (auto split: option.split)
qed simp

lemma cleanup_write_rows:
  assumes "cleanup_write J clock s = Inr (n, t)" and "codecs_ok J"
  shows "n = length (filter (\<lambda>(k, v). is_running J v) (iter (jobs s)))"
    and "fmlookup (jobs s) k = Some v \<Longrightarrow> \<not> is_running J v \<Longrightarrow> fmlookup (jobs t) k = Some v"
    and "fmlookup (jobs t) k = Some v \<Longrightarrow> from_slice (job_json J) v \<noteq> None \<and> \<not> is_running J v"
    and "fmlookup (jobs t) k = None \<longleftrightarrow> fmlookup (jobs s) k = None"
    and "t = s\<lparr>jobs := jobs t\<rparr>"
proof -
  obtain ups where c: "collect_orphans J clock (iter (jobs s)) = Inr ups" and n: "n = length ups"
    and t: "t = s\<lparr>jobs := fold (\<lambda>(k, j) t. fmupd k (to_vec (job_json J) j) t) ups (jobs s)\<rparr>"
    using assms(1) by (auto simp: cleanup_write_def)
  note C = collect_orphans_Inr [OF c]
  have d: "distinct (map fst ups)" by (simp add: C(1) distinct_map_filter)
  have look: "fmlookup (jobs t) k = (case map_of ups k of None \<Rightarrow> fmlookup (jobs s) k
      | Some j \<Rightarrow> Some (to_vec (job_json J) j))" for k
    by (simp add: t fold_upd_lookup [OF d])
  have ups_iff: "map_of ups k \<noteq> None \<longleftrightarrow> (\<exists>v. fmlookup (jobs s) k = Some v \<and> is_running J v)" for k
  proof -
    have "map_of ups k \<noteq> None \<longleftrightarrow> k \<in> set (map fst ups)" by (simp add: map_of_eq_None_iff)
    then show ?thesis unfolding C(1) by (force simp: set_iter image_iff)
  qed
  show "n = length (filter (\<lambda>(k, v). is_running J v) (iter (jobs s)))"
    using C(1) [THEN arg_cong, of length] by (simp add: n)
  show "fmlookup (jobs t) k = Some v" if "fmlookup (jobs s) k = Some v" "\<not> is_running J v"
    using that ups_iff [of k] by (simp add: look split: option.split)
  show "from_slice (job_json J) v \<noteq> None \<and> \<not> is_running J v" if "fmlookup (jobs t) k = Some v"
  proof (cases "map_of ups k")
    case None
    with that look have s: "fmlookup (jobs s) k = Some v" by simp
    with None ups_iff [of k] C(3) [of k v] show ?thesis by (simp add: set_iter)
  next
    case (Some j)
    with that look have "v = to_vec (job_json J) j" by simp
    with C(2) [OF map_of_SomeD [OF Some]] assms(2) show ?thesis
      by (simp add: is_running_def RUNNING_def ABORTED_def)
  qed
  show "fmlookup (jobs t) k = None \<longleftrightarrow> fmlookup (jobs s) k = None"
    using ups_iff [of k] by (auto simp: look split: option.split)
  show "t = s\<lparr>jobs := jobs t\<rparr>" by (simp add: t)
qed

lemma has_orphans_iff:
  assumes "has_orphans J s = Inr b"
  shows "b \<longleftrightarrow> (\<exists>k v. fmlookup (jobs s) k = Some v \<and> is_running J v)"
    and "fmlookup (jobs s) k = Some v \<Longrightarrow> from_slice (job_json J) v \<noteq> None"
proof -
  obtain rows where rows: "traverseR (decode (job_json J)) (map snd (iter (jobs s))) = Inr rows"
    and b: "b = (\<exists>j \<in> set rows. job_status j = RUNNING)"
    using assms by (auto simp: has_orphans_def)
  note T = traverseR_set [OF rows]
  show "b \<longleftrightarrow> (\<exists>k v. fmlookup (jobs s) k = Some v \<and> is_running J v)"
    unfolding b is_running_def by (simp add: T(1) Bex_def set_iter [symmetric] image_iff) (metis snd_conv)
  show "from_slice (job_json J) v \<noteq> None" if "fmlookup (jobs s) k = Some v"
    using T(2) [of v] that by (force simp: set_iter [symmetric])
qed

end
