(* ===== verification/Card_Cache.thy ===== *)
theory Card_Cache
  imports Registry_Data
begin

text \<open>
  The derived change-card cache (\<open>engram_core/src/registry/change_card_cache.rs\<close>): a table of
  records, a table of their insertion order and an accounting record, written together in one
  transaction with bounded first-in-first-out eviction. The candidate list with its cursor is
  modelled by the list of the candidates that are left.
\<close>

section \<open>Formats\<close>

definition MAGIC :: bytes where
  "MAGIC = ''EGCC'' @ [CHR 0x00, CHR 0x00, CHR 0x00, CHR 0x01]"

definition STATE_MAGIC :: bytes where
  "STATE_MAGIC = ''EGCS'' @ [CHR 0x00, CHR 0x00, CHR 0x00, CHR 0x01]"

definition CHANGE_CARD_CACHE_BATCH :: nat where "CHANGE_CARD_CACHE_BATCH = 256"
definition CHANGE_CARD_CACHE_ROWS :: nat where "CHANGE_CARD_CACHE_ROWS = 8192"
definition MAX_BYTES :: nat where "MAX_BYTES = 32 * 1024 * 1024"
definition MAX_RECORD :: nat where "MAX_RECORD = 64 * 1024"
definition MAX_EVICTIONS :: nat where "MAX_EVICTIONS = 256"

record card_state =
  cs_next :: u64
  cs_count :: nat
  cs_bytes :: nat

definition state_decode :: "bytes \<Rightarrow> card_state res" where
  "state_decode bs =
     bindR (ensure (length bs = 32 \<and> take 8 bs = STATE_MAGIC) (Bail ''Unknown card-cache state; preserved'')) (\<lambda>_.
     let number = (\<lambda>offset. u64_from_le_bytes (take 8 (drop offset bs)));
         result = \<lparr> cs_next = number 8, cs_count = unat (number 16), cs_bytes = unat (number 24) \<rparr>
     in bindR (ensure (cs_count result \<le> CHANGE_CARD_CACHE_ROWS \<and> cs_bytes result \<le> MAX_BYTES
                 \<and> cs_count result \<le> unat (cs_next result))
          (Bail ''Invalid card-cache accounting; preserved'')) (\<lambda>_. Inr result))"

definition state_encode :: "card_state \<Rightarrow> bytes" where
  "state_encode s = STATE_MAGIC @ u64_to_le_bytes (cs_next s) @ u64_to_le_bytes (of_nat (cs_count s))
     @ u64_to_le_bytes (of_nat (cs_bytes s))"

definition is_hexdigit :: "char \<Rightarrow> bool" where
  "is_hexdigit c \<longleftrightarrow> c \<in> set ''0123456789abcdefABCDEF''"

definition valid_key :: "string \<Rightarrow> bool" where
  "valid_key key \<longleftrightarrow> CHR ''/'' \<in> set key
     \<and> (let sc = takeWhile (\<lambda>c. c \<noteq> CHR ''/'') key; oid = drop (length sc + 1) key
        in length sc = 64 \<and> length oid \<in> {40, 64} \<and> (\<forall>c \<in> set (sc @ oid). is_hexdigit c))"

definition charge :: "string \<Rightarrow> nat \<Rightarrow> nat" where
  "charge key value_len = 2 * length key + value_len + 8"

definition sequence :: "bytes \<Rightarrow> u64 option" where
  "sequence v = (if 16 \<le> length v \<and> take 8 v = MAGIC then Some (u64_from_le_bytes (take 8 (drop 8 v))) else None)"

definition card_record :: "u64 \<Rightarrow> bytes \<Rightarrow> bytes" where
  "card_record seq payload = MAGIC @ u64_to_le_bytes seq @ payload"

section \<open>State\<close>

record card_db =
  tables_exist :: bool
  card_rows :: table
  card_order :: "(u64, string) fmap"
  card_current :: "bytes option"

definition empty_cards :: card_db where
  "empty_cards = \<lparr> tables_exist = False, card_rows = fmempty, card_order = fmempty, card_current = None \<rparr>"

section \<open>Reading\<close>

definition read_card :: "table \<Rightarrow> string \<Rightarrow> bytes option" where
  "read_card rows key = (case fmlookup rows key of None \<Rightarrow> None
     | Some v \<Rightarrow> if MAX_RECORD + 16 < length v \<or> sequence v = None then None else Some (drop 16 v))"

definition read_change_card_metadata :: "string list \<Rightarrow> card_db \<Rightarrow> bytes option list res" where
  "read_change_card_metadata keys d =
     bindR (ensure (length keys \<le> CHANGE_CARD_CACHE_BATCH \<and> list_all valid_key keys)
              (Bail ''Invalid card-cache lookup'')) (\<lambda>_.
     if \<not> tables_exist d then Inr (map (\<lambda>_. None) keys)
     else
       bindR (ok_or (card_current d) (Bail ''Missing card-cache accounting; preserved'')) (\<lambda>raw.
       bindR (state_decode raw) (\<lambda>state.
       bindR (ensure (table_len (card_rows d) = cs_count state)
                (Bail ''Inconsistent card-cache accounting; preserved'')) (\<lambda>_.
       Inr (map (read_card (card_rows d)) keys)))))"

section \<open>Storing\<close>

record card_write =
  cw_stored :: nat
  cw_unchanged :: nat
  cw_skipped :: nat
  cw_evicted :: nat
  cw_charged_bytes :: nat
  cw_rows :: nat

type_synonym candidate = "u64 \<times> string \<times> nat"

text \<open>The oldest rows of the order table, without the batch's own keys and without rows whose
  record does not carry the sequence of its order entry.\<close>

definition eviction_candidates :: "string set \<Rightarrow> table \<Rightarrow> (u64, string) fmap \<Rightarrow> candidate list" where
  "eviction_candidates protected rows order =
     concat (map (\<lambda>(seq, key). if key \<in> protected then [] else
         (case fmlookup rows key of None \<Rightarrow> []
          | Some v \<Rightarrow> if sequence v = Some seq then [(seq, key, charge key (length v))] else []))
       (take MAX_EVICTIONS (iter order)))"

text \<open>The loop that advances \<open>end\<close>: the candidates it passes, those left, and the projections.\<close>

fun scan_evictions ::
  "table \<Rightarrow> string \<Rightarrow> nat \<Rightarrow> nat \<Rightarrow> candidate list \<Rightarrow> nat \<Rightarrow> nat \<Rightarrow> (candidate list \<times> candidate list \<times> nat \<times> nat) res" where
  "scan_evictions rows key max_rows max_bytes [] pc pb = Inr ([], [], pc, pb)"
| "scan_evictions rows key max_rows max_bytes ((seq, cand, sz) # cs) pc pb =
     (if \<not> (max_rows < pc \<or> max_bytes < pb) then Inr ([], (seq, cand, sz) # cs, pc, pb)
      else
        bindR (if cand \<noteq> key \<and> fmlookup rows cand \<noteq> None
               then bindR (ensure (0 < pc) Panic) (\<lambda>_.
                    bindR (ensure (sz \<le> pb) (Bail ''Invalid card-cache eviction accounting; preserved'')) (\<lambda>_.
                    Inr (pc - 1, pb - sz)))
               else Inr (pc, pb)) (\<lambda>(pc', pb').
        bindR (scan_evictions rows key max_rows max_bytes cs pc' pb') (\<lambda>(taken, rest, pc'', pb'').
        Inr ((seq, cand, sz) # taken, rest, pc'', pb''))))"

fun evict :: "string \<Rightarrow> candidate list \<Rightarrow> table \<times> (u64, string) fmap \<times> nat \<Rightarrow> table \<times> (u64, string) fmap \<times> nat" where
  "evict key [] st = st"
| "evict key ((seq, cand, _) # cs) (rows, order, n) =
     evict key cs (if cand \<noteq> key \<and> fmlookup rows cand \<noteq> None
                   then (fmdrop cand rows, fmdrop seq order, n + 1) else (rows, order, n))"

record store_loop =
  sl_rows :: table
  sl_order :: "(u64, string) fmap"
  sl_state :: card_state
  sl_left :: "candidate list"
  sl_result :: card_write

definition skip_entry :: "store_loop \<Rightarrow> store_loop" where
  "skip_entry l = l\<lparr>sl_result := (sl_result l)\<lparr>cw_skipped := cw_skipped (sl_result l) + 1\<rparr>\<rparr>"

definition store_entry :: "nat \<Rightarrow> nat \<Rightarrow> string \<times> bytes \<Rightarrow> store_loop \<Rightarrow> store_loop res" where
  "store_entry max_rows max_bytes entry l =
     (let (key, payload) = entry; state = sl_state l; prior = fmlookup (sl_rows l) key in
      if MAX_RECORD < length payload then Inr (skip_entry l)
      else if (\<exists>raw. prior = Some raw \<and> sequence raw = None) then Inr (skip_entry l)
      else
        bindR (case prior of None \<Rightarrow> Inr ()
               | Some raw \<Rightarrow> ensure (\<exists>seq. sequence raw = Some seq \<and> fmlookup (sl_order l) seq = Some key)
                   (Bail ''Inconsistent card-cache insertion order; preserved'')) (\<lambda>_.
        if (\<exists>raw. prior = Some raw \<and> 16 \<le> length raw \<and> drop 16 raw = payload)
        then Inr (l\<lparr>sl_result := (sl_result l)\<lparr>cw_unchanged := cw_unchanged (sl_result l) + 1\<rparr>\<rparr>)
        else
          let old_charge = (case prior of None \<Rightarrow> 0 | Some raw \<Rightarrow> charge key (length raw));
              new_charge = charge key (16 + length payload);
              pc0 = cs_count state + (if prior = None then 1 else 0) in
          bindR (ensure (old_charge \<le> cs_bytes state) (Bail ''Invalid card-cache byte accounting; preserved'')) (\<lambda>_.
          bindR (scan_evictions (sl_rows l) key max_rows max_bytes (sl_left l) pc0
                   (cs_bytes state - old_charge + new_charge)) (\<lambda>(taken, rest, pc, pb).
          if max_rows < pc \<or> max_bytes < pb then Inr (skip_entry l)
          else
            let (rows1, order1, evicted) = evict key taken (sl_rows l, sl_order l, cw_evicted (sl_result l)) in
            bindR (case prior of
                     Some raw \<Rightarrow> bindR (ok_or (sequence raw) (Bail ''unreachable'')) (\<lambda>seq. Inr (seq, cs_next state))
                   | None \<Rightarrow> bindR (ok_or (checked_add (cs_next state) 1)
                                 (Bail ''Card-cache insertion sequence exhausted'')) (\<lambda>n. Inr (n, n)))
              (\<lambda>(seq, next').
            Inr \<lparr> sl_rows = fmupd key (card_record seq payload) rows1, sl_order = fmupd seq key order1,
                  sl_state = \<lparr> cs_next = next', cs_count = pc, cs_bytes = pb \<rparr>, sl_left = rest,
                  sl_result = (sl_result l)\<lparr>cw_evicted := evicted, cw_stored := cw_stored (sl_result l) + 1\<rparr> \<rparr>)))))"

fun store_entries :: "nat \<Rightarrow> nat \<Rightarrow> (string \<times> bytes) list \<Rightarrow> store_loop \<Rightarrow> store_loop res" where
  "store_entries max_rows max_bytes [] l = Inr l"
| "store_entries max_rows max_bytes (e # es) l =
     bindR (store_entry max_rows max_bytes e l) (\<lambda>l'. store_entries max_rows max_bytes es l')"

definition write_default :: card_write where
  "write_default = \<lparr> cw_stored = 0, cw_unchanged = 0, cw_skipped = 0, cw_evicted = 0, cw_charged_bytes = 0, cw_rows = 0 \<rparr>"

definition store_cards_with_limits ::
  "(string \<times> bytes) list \<Rightarrow> nat \<Rightarrow> nat \<Rightarrow> card_db \<Rightarrow> (card_write \<times> card_db) res" where
  "store_cards_with_limits entries max_rows max_bytes d =
     bindR (ensure (length entries \<le> CHANGE_CARD_CACHE_BATCH \<and> list_all (valid_key \<circ> fst) entries)
              (Bail ''Invalid card-cache batch'')) (\<lambda>_.
     bindR (ensure (distinct (map fst entries)) (Bail ''Duplicate card-cache key'')) (\<lambda>_.
     if entries = [] then Inr (write_default, d)
     else
       bindR (case card_current d of
                Some raw \<Rightarrow> state_decode raw
              | None \<Rightarrow> bindR (ensure (card_rows d = fmempty \<and> card_order d = fmempty)
                          (Bail ''Missing card-cache accounting; preserved''))
                          (\<lambda>_. Inr \<lparr> cs_next = 0, cs_count = 0, cs_bytes = 0 \<rparr>)) (\<lambda>state.
       bindR (ensure (table_len (card_rows d) = cs_count state \<and> table_len (card_order d) = cs_count state)
                (Bail ''Inconsistent card-cache accounting; preserved'')) (\<lambda>_.
       bindR (store_entries max_rows max_bytes entries
                \<lparr> sl_rows = card_rows d, sl_order = card_order d, sl_state = state,
                  sl_left = eviction_candidates (set (map fst entries)) (card_rows d) (card_order d),
                  sl_result = write_default \<rparr>) (\<lambda>l.
       let result = (sl_result l)\<lparr>cw_rows := cs_count (sl_state l), cw_charged_bytes := cs_bytes (sl_state l)\<rparr> in
       if cw_stored result \<noteq> 0 \<or> cw_evicted result \<noteq> 0
       then Inr (result, \<lparr> tables_exist = True, card_rows = sl_rows l, card_order = sl_order l,
                           card_current = Some (state_encode (sl_state l)) \<rparr>)
       else Inr (result, d))))))"

definition store_change_card_metadata :: "(string \<times> bytes) list \<Rightarrow> card_db \<Rightarrow> (card_write \<times> card_db) res" where
  "store_change_card_metadata entries d = store_cards_with_limits entries CHANGE_CARD_CACHE_ROWS MAX_BYTES d"

end
