(* ===== verification/Rule_Data.thy ===== *)
theory Rule_Data
  imports Registry Card_Cache
begin

text \<open>
  The data of the repository-rule components: source receipts and their legacy aliases
  (\<open>registry/rule_receipt.rs\<close>), the ownership snapshot (\<open>registry/rule_ownership.rs\<close>), the plans of
  a reviewed adoption (\<open>registry/rule_adoption.rs\<close>) and of an alias review
  (\<open>registry/rule_alias_review.rs\<close>), and the JSON values they carry. The encoders of
  \<open>serde_json\<close> and the streams that are hashed are fields of \<open>rule_codecs\<close>, a parameter of the
  operations; the BLAKE3 digest in hexadecimal is the parameter \<open>h\<close>.
\<close>

section \<open>JSON values\<close>

text \<open>
  \<open>serde_json::Value\<close>. A number is an integer or a floating-point literal, identified up to the
  equality of \<open>serde_json::Number\<close>; an object is an ordered map.
\<close>

datatype json =
    JNull
  | JBool bool
  | JInt int
  | JFloat string
  | JString string
  | JArray "json list"
  | JObject "(string, json) fmap"

definition jobj :: "(string \<times> json) list \<Rightarrow> json" where
  "jobj kvs = JObject (fmap_of_list kvs)"

definition jstrings :: "string list \<Rightarrow> json" where
  "jstrings xs = JArray (map JString xs)"

definition jopt :: "('a \<Rightarrow> json) \<Rightarrow> 'a option \<Rightarrow> json" where
  "jopt f x = (case x of None \<Rightarrow> JNull | Some v \<Rightarrow> f v)"

definition ju64 :: "u64 \<Rightarrow> json" where
  "ju64 n = JInt (int (unat n))"

text \<open>\<open>Value::get\<close> with a string index, \<open>as_str\<close>, \<open>as_bool\<close> and \<open>as_object\<close>.\<close>

definition as_object :: "json \<Rightarrow> (string, json) fmap option" where
  "as_object v = (case v of JObject m \<Rightarrow> Some m | _ \<Rightarrow> None)"

definition as_str :: "json \<Rightarrow> string option" where
  "as_str v = (case v of JString s \<Rightarrow> Some s | _ \<Rightarrow> None)"

definition as_bool :: "json \<Rightarrow> bool option" where
  "as_bool v = (case v of JBool b \<Rightarrow> Some b | _ \<Rightarrow> None)"

definition json_get :: "string \<Rightarrow> json \<Rightarrow> json option" where
  "json_get k v = Option.bind (as_object v) (\<lambda>m. fmlookup m k)"

section \<open>Receipts and aliases\<close>

record legacy_rule_alias =
  alias_rule_id :: string
  alias_source_rule_id :: string
  alias_projection_json :: string
  alias_projection_blake3 :: string

record rule_source_receipt =
  receipt_origin :: string
  source_hash :: string
  authored :: bool
  receipt_pending :: bool
  doc_ids :: "string list"
  receipt_rules :: "repo_rule list"
  cleanup :: "string list"
  corpus_revision :: string
  legacy_aliases :: "legacy_rule_alias list"

section \<open>The ownership snapshot\<close>

record rule_ownership_snapshot =
  snap_project_id :: string
  project_raw :: bytes
  identity_epoch_raw :: "bytes option"
  corpus_revision_raw :: "bytes option"
  snap_rules :: table
  snap_receipts :: table

section \<open>Plans\<close>

datatype legacy_adoption_decision = AdoptUnverified | TransferManual

record legacy_adoption_binding =
  ab_rule_id :: string
  ab_expected_raw_blake3 :: string
  ab_source_rule_id :: string
  ab_source_projection_json :: string
  ab_decision :: legacy_adoption_decision

record legacy_adoption_plan =
  ap_origin :: string
  ap_source_blake3 :: string
  ap_authored :: bool
  ap_bindings :: "legacy_adoption_binding list"

record legacy_adoption_outcome =
  ao_audit_key :: string
  ao_plan_blake3 :: string
  ao_receipt_blake3 :: string
  ao_adopted_rule_ids :: "string list"
  ao_searchable_evidence_published :: bool

datatype alias_review_source = Present string | Missing

datatype alias_review_action = RebindOnlyUnchanged string | Retire

record alias_review_binding =
  rb_rule_id :: string
  rb_expected_raw_blake3 :: string
  rb_expected_alias_blake3 :: string
  rb_disposition :: alias_review_action

record alias_review_plan =
  rp_origin :: string
  rp_source :: alias_review_source
  rp_current_projections :: "string list"
  rp_bindings :: "alias_review_binding list"

record alias_review_outcome =
  ro_plan_blake3 :: string
  ro_audit_key :: string
  ro_retired_rule_ids :: "string list"
  ro_rebound_rule_ids :: "string list"
  ro_source_reimport_required :: bool
  ro_searchable_evidence_published :: bool

section \<open>Encoders\<close>

text \<open>
  \<open>object_json\<close> reads and writes a JSON object with unique keys whose values are kept as raw
  text (\<open>RawObject\<close>); \<open>raw_string\<close> is the raw text of a JSON string. The last four fields are the
  byte streams fed to the hasher for a snapshot, for the tuple of an adoption basis, and for the
  two plans with the digest they are bound to.
\<close>

type_synonym adoption_basis =
  "string \<times> string \<times> string \<times> bytes option \<times> bytes option \<times> table \<times> table"

record rule_codecs =
  registry_json :: codecs
  rule_json :: "repo_rule codec"
  receipt_json :: "rule_source_receipt codec"
  alias_json :: "legacy_rule_alias codec"
  object_json :: "(string, string) fmap codec"
  raw_string :: "string \<Rightarrow> string"
  value_json :: "json codec"
  snapshot_bytes :: "rule_ownership_snapshot \<Rightarrow> bytes"
  basis_bytes :: "adoption_basis \<Rightarrow> bytes"
  adoption_bytes :: "string \<times> legacy_adoption_plan \<Rightarrow> bytes"
  review_bytes :: "string \<times> alias_review_plan \<times> string \<Rightarrow> bytes"

text \<open>
  What the code relies on. Every codec decodes what it encoded. A serialised rule is an object
  whose fields decode back to the rule whatever further fields the object has, because the derived
  decoder of \<open>RepoRule\<close> ignores unknown fields; and that decoder reads the provenance from the
  field of this name.
\<close>

definition rule_fields :: "rule_codecs \<Rightarrow> repo_rule \<Rightarrow> (string, string) fmap" where
  "rule_fields R r = the (from_slice (object_json R) (to_vec (rule_json R) r))"

definition rule_fields_ok :: "rule_codecs \<Rightarrow> bool" where
  "rule_fields_ok R \<longleftrightarrow>
     (\<forall>r. from_slice (object_json R) (to_vec (rule_json R) r) = Some (rule_fields R r)
        \<and> (\<forall>m. from_slice (rule_json R) (to_vec (object_json R) (m ++\<^sub>f rule_fields R r)) = Some r))
     \<and> (\<forall>m p r. from_slice (rule_json R) (to_vec (object_json R) (fmupd ''provenance'' (raw_string R p) m)) = Some r
          \<longrightarrow> provenance r = Some p)"

definition rule_codecs_ok :: "rule_codecs \<Rightarrow> bool" where
  "rule_codecs_ok R \<longleftrightarrow> codecs_ok (registry_json R) \<and> codec_ok (rule_json R) \<and> codec_ok (receipt_json R)
     \<and> codec_ok (object_json R) \<and> codec_ok (value_json R) \<and> rule_fields_ok R"

lemma rule_codecs_okD [simp]:
  assumes "rule_codecs_ok R"
  shows "codecs_ok (registry_json R)"
    and "from_slice (rule_json R) (to_vec (rule_json R) r) = Some r"
    and "from_slice (receipt_json R) (to_vec (receipt_json R) c) = Some c"
    and "from_slice (object_json R) (to_vec (object_json R) m) = Some m"
    and "from_slice (value_json R) (to_vec (value_json R) v) = Some v"
    and "from_slice (object_json R) (to_vec (rule_json R) r) = Some (rule_fields R r)"
    and "from_slice (rule_json R) (to_vec (object_json R) (m ++\<^sub>f rule_fields R r)) = Some r"
  using assms by (simp_all add: rule_codecs_ok_def codec_ok_def rule_fields_ok_def)

text \<open>
  The serialised stream of a snapshot or of an adoption basis determines it, since \<open>serde_json\<close>
  writes every field of the structure, and every element of the tuple, in a form that reads back.
\<close>

definition streams_ok :: "rule_codecs \<Rightarrow> bool" where
  "streams_ok R \<longleftrightarrow> inj (snapshot_bytes R) \<and> inj (basis_bytes R)"

lemma streams_okD:
  assumes "streams_ok R"
  shows "snapshot_bytes R x = snapshot_bytes R y \<longleftrightarrow> x = y" and "basis_bytes R a = basis_bytes R b \<longleftrightarrow> a = b"
  using assms by (auto simp: streams_ok_def dest: injD)

lemma rule_codecs_ok_provenance:
  assumes "rule_codecs_ok R"
    and "from_slice (rule_json R) (to_vec (object_json R) (fmupd ''provenance'' (raw_string R p) m)) = Some r"
  shows "provenance r = Some p"
  using assms unfolding rule_codecs_ok_def rule_fields_ok_def by blast

end
