(* ===== verification/Rule_Receipt.thy ===== *)
theory Rule_Receipt
  imports Rule_Data
begin

text \<open>
  Source receipts: their validation, decoding and encoding, and the guard that every mutation of
  rule rows passes inside its transaction (\<open>registry/rule_receipt.rs\<close>), with the bounded reader of
  receipt rows the guard uses (\<open>collect_prefix\<close> of \<open>registry/rule_ownership.rs\<close>).
\<close>

section \<open>Identities\<close>

definition SOURCE_PROVENANCE :: string where "SOURCE_PROVENANCE = ''quality-gate source: ''"
definition RECEIPT_PREFIX :: string where "RECEIPT_PREFIX = ''quality_source:''"
definition SNAPSHOT_BYTES :: nat where "SNAPSHOT_BYTES = 8 * 1024 * 1024"
definition VALUE_BYTES :: nat where "VALUE_BYTES = 4 * 1024 * 1024"

definition source_key :: "(bytes \<Rightarrow> string) \<Rightarrow> string \<Rightarrow> string" where
  "source_key h origin = RECEIPT_PREFIX @ h origin"

text \<open>
  \<open>char::is_control\<close> on UTF-8 text: the bytes below \<open>0x20\<close>, the byte \<open>0x7F\<close>, and U+0080 to U+009F,
  which are encoded as \<open>0xC2\<close> and a byte from \<open>0x80\<close> to \<open>0x9F\<close>.
\<close>

fun has_control :: "string \<Rightarrow> bool" where
  "has_control [] = False"
| "has_control (c # cs) \<longleftrightarrow> byte c < 0x20 \<or> byte c = 0x7F
     \<or> (byte c = 0xC2 \<and> cs \<noteq> [] \<and> 0x80 \<le> byte (hd cs) \<and> byte (hd cs) \<le> 0x9F) \<or> has_control cs"

definition valid_origin :: "string \<Rightarrow> bool" where
  "valid_origin origin \<longleftrightarrow> origin \<noteq> [] \<and> length origin \<le> 512
     \<and> CHR 0x5C \<notin> set origin \<and> CHR '':'' \<notin> set origin \<and> \<not> has_control origin
     \<and> (\<forall>p \<in> set (split_on (CHR ''/'') origin). p \<notin> {'''', ''.'', ''..''})"

definition valid_hash :: "string \<Rightarrow> bool" where
  "valid_hash hash \<longleftrightarrow> length hash = 64 \<and> (\<forall>b \<in> set hash. is_hexdigit b)"

section \<open>Validation\<close>

definition validate_origin :: "string \<Rightarrow> unit res" where
  "validate_origin origin = ensure (valid_origin origin)
     (Bail ''Invalid normalized quality source identity (maximum 512 bytes)'')"

fun check_rule_ids :: "repo_rule list \<Rightarrow> string list \<Rightarrow> string list res" where
  "check_rule_ids [] ids = Inr ids"
| "check_rule_ids (row # rows) ids =
     bindR (vk ''rule_id'' (rule_id row)) (\<lambda>_.
     bindR (ensure (rule_id row \<notin> set ids) (Bail (''Duplicate source rule claim `'' @ rule_id row @ ''`''))) (\<lambda>_.
     check_rule_ids rows (rule_id row # ids)))"

definition check_projection :: "rule_codecs \<Rightarrow> (bytes \<Rightarrow> string) \<Rightarrow> string \<Rightarrow> legacy_rule_alias \<Rightarrow> unit res" where
  "check_projection R h origin a =
     bindR (ensure (length (alias_projection_json a) \<le> 4 * 1024 * 1024 \<and> valid_hash (alias_projection_blake3 a)
                    \<and> h (alias_projection_json a) = alias_projection_blake3 a)
              (Bail ''Legacy source alias fingerprint mismatch'')) (\<lambda>_.
     bindR (decode (value_json R) (alias_projection_json a)) (\<lambda>projection.
     ensure (Option.bind (json_get ''id'' projection) as_str = Some (alias_source_rule_id a)
             \<and> Option.bind (json_get ''source'' projection) as_str = Some origin)
       (Bail ''Legacy source alias projection identity mismatch'')))"

fun check_aliases ::
  "rule_codecs \<Rightarrow> (bytes \<Rightarrow> string) \<Rightarrow> string \<Rightarrow> string list \<Rightarrow> legacy_rule_alias list \<Rightarrow> string list \<Rightarrow> string list \<Rightarrow> unit res" where
  "check_aliases R h origin ids [] targets sources = Inr ()"
| "check_aliases R h origin ids (a # as) targets sources =
     bindR (ensure (alias_rule_id a \<notin> set targets \<and> alias_source_rule_id a \<notin> set sources)
              (Bail ''Ambiguous legacy source aliases'')) (\<lambda>_.
     bindR (ensure (alias_rule_id a \<in> set ids) (Bail ''Legacy alias is outside source-owned rules'')) (\<lambda>_.
     bindR (check_projection R h origin a) (\<lambda>_.
     check_aliases R h origin ids as (alias_rule_id a # targets) (alias_source_rule_id a # sources))))"

definition validate_receipt :: "rule_codecs \<Rightarrow> (bytes \<Rightarrow> string) \<Rightarrow> rule_source_receipt \<Rightarrow> string \<Rightarrow> unit res" where
  "validate_receipt R h receipt key =
     bindR (validate_origin (receipt_origin receipt)) (\<lambda>_.
     bindR (ensure (source_key h (receipt_origin receipt) = key) (Bail ''Quality-source receipt key/origin mismatch'')) (\<lambda>_.
     bindR (ensure (valid_hash (source_hash receipt)) (Bail ''Invalid quality-source fingerprint'')) (\<lambda>_.
     bindR (check_rule_ids (receipt_rules receipt) []) (\<lambda>ids.
     check_aliases R h (receipt_origin receipt) ids (legacy_aliases receipt) [] []))))"

definition decode_receipt :: "rule_codecs \<Rightarrow> (bytes \<Rightarrow> string) \<Rightarrow> string \<Rightarrow> bytes \<Rightarrow> rule_source_receipt res" where
  "decode_receipt R h key raw =
     bindR (ensure (length raw \<le> 4 * 1024 * 1024) (Bail ''Quality-source receipt exceeds 4 MiB budget'')) (\<lambda>_.
     bindR (decode (receipt_json R) raw) (\<lambda>receipt.
     bindR (validate_receipt R h receipt key) (\<lambda>_. Inr receipt)))"

text \<open>The writer refuses the first write that would pass the budget, hence exactly the longer encodings.\<close>

definition encode_receipt :: "rule_codecs \<Rightarrow> rule_source_receipt \<Rightarrow> string res" where
  "encode_receipt R receipt =
     (let buffer = to_vec (receipt_json R) receipt in
      bindR (ensure (length buffer \<le> 4 * 1024 * 1024) (Bail ''Quality-source receipt exceeds 4 MiB budget'')) (\<lambda>_.
      from_utf8 buffer))"

section \<open>Bounded collection\<close>

definition copy_bounded :: "bytes \<Rightarrow> nat \<Rightarrow> (bytes \<times> nat) res" where
  "copy_bounded bs remaining =
     bindR (ensure (length bs \<le> VALUE_BYTES \<and> length bs \<le> remaining)
              (Bail ''Ownership inventory byte budget exceeded; no partial inventory returned'')) (\<lambda>_.
     Inr (bs, remaining - length bs))"

fun collect_rows ::
  "string \<Rightarrow> nat \<Rightarrow> nat \<Rightarrow> (string \<times> bytes) list \<Rightarrow> table \<Rightarrow> nat \<Rightarrow> (table \<times> nat) res" where
  "collect_rows retained_prefix max_entries n [] result remaining = Inr (result, remaining)"
| "collect_rows retained_prefix max_entries n ((key, v) # rows) result remaining =
     (let local_key = drop n key; key_bytes = length retained_prefix + length local_key in
      bindR (ensure (table_len result < max_entries \<and> length local_key \<le> 2048)
               (Bail ''Ownership inventory entry budget exceeded; no partial inventory returned'')) (\<lambda>_.
      bindR (ensure (key_bytes \<le> remaining) (Bail ''Ownership inventory key byte budget exceeded'')) (\<lambda>_.
      bindR (copy_bounded v (remaining - key_bytes)) (\<lambda>(bs, remaining').
      collect_rows retained_prefix max_entries n rows (fmupd (retained_prefix @ local_key) bs result) remaining'))))"

definition collect_prefix :: "table \<Rightarrow> string \<Rightarrow> string \<Rightarrow> nat \<Rightarrow> nat \<Rightarrow> (table \<times> nat) res" where
  "collect_prefix t pfx retained_prefix max_entries remaining =
     collect_rows retained_prefix max_entries (length pfx) (prefix_scan pfx t) fmempty remaining"

section \<open>The mutation guard\<close>

definition strip_prefix :: "string \<Rightarrow> string \<Rightarrow> string option" where
  "strip_prefix p s = (if prefix p s then Some (drop (length p) s) else None)"

definition rule_source :: "repo_rule \<Rightarrow> string option" where
  "rule_source row = Option.bind (provenance row) (strip_prefix SOURCE_PROVENANCE)"

definition publishes_source :: "string option \<Rightarrow> bool" where
  "publishes_source owner_key = (case owner_key of None \<Rightarrow> False | Some key \<Rightarrow> prefix RECEIPT_PREFIX key)"

definition guard_claims :: "string list \<Rightarrow> string option \<Rightarrow> string \<Rightarrow> rule_source_receipt \<Rightarrow> unit res" where
  "guard_claims ids owner_key key receipt =
     (case find (\<lambda>row. rule_id row \<in> set ids \<and> Some key \<noteq> owner_key) (receipt_rules receipt) of
        None \<Rightarrow> Inr ()
      | Some row \<Rightarrow> Inl (Bail (''Repository rule `'' @ rule_id row @ ''` is claimed by `'' @ receipt_origin receipt
          @ ''`; explicit ownership resolution is required'')))"

fun guard_receipts ::
  "rule_codecs \<Rightarrow> (bytes \<Rightarrow> string) \<Rightarrow> string list \<Rightarrow> string option \<Rightarrow> (string \<times> bytes) list
     \<Rightarrow> rule_source_receipt option \<Rightarrow> rule_source_receipt option res" where
  "guard_receipts R h ids owner_key [] owner_receipt = Inr owner_receipt"
| "guard_receipts R h ids owner_key ((key, raw) # rest) owner_receipt =
     (case decode_receipt R h key raw of
        Inl e \<Rightarrow> Inl (Context (''Unresolved ownership receipt `'' @ key @ ''`; no rules changed: '') e)
      | Inr receipt \<Rightarrow>
          bindR (guard_claims ids owner_key key receipt) (\<lambda>_.
          guard_receipts R h ids owner_key rest (if Some key = owner_key then Some receipt else owner_receipt)))"

definition guard_row ::
  "rule_codecs \<Rightarrow> string \<Rightarrow> string option \<Rightarrow> rule_source_receipt option \<Rightarrow> db \<Rightarrow> string \<Rightarrow> unit res" where
  "guard_row R project owner_key owner_receipt s rid =
     (case fmlookup (repo_rules s) (composite project rid) of
        None \<Rightarrow> Inr ()
      | Some raw \<Rightarrow>
          bindR (decode (rule_json R) raw) (\<lambda>row.
          case rule_source row of
            Some origin \<Rightarrow>
              bindR (ensure (map_option receipt_origin owner_receipt = Some origin)
                       (Bail (''Repository rule `'' @ rid @ ''` belongs to source `'' @ origin
                          @ ''`; edit or explicitly transfer that source-owned rule''))) (\<lambda>_.
              if publishes_source owner_key
              then bindR (ok_or owner_receipt (Bail ''Source publisher has no receipt'')) (\<lambda>receipt.
                   ensure (row \<in> set (receipt_rules receipt))
                     (Bail (''Existing rule `'' @ rid
                        @ ''` has no matching source ownership claim; reviewed adoption is required'')))
              else Inr ())
          | None \<Rightarrow>
              ensure (\<not> publishes_source owner_key)
                (Bail (''Existing rule `'' @ rid
                   @ ''` is unverified/manual; explicit adoption is required before source publication''))))"

text \<open>\<open>ids\<close> is an ordered set: the callers pass it sorted and without repetition.\<close>

definition guard_mutation ::
  "rule_codecs \<Rightarrow> (bytes \<Rightarrow> string) \<Rightarrow> string \<Rightarrow> string list \<Rightarrow> string option \<Rightarrow> db \<Rightarrow> unit res" where
  "guard_mutation R h project ids owner_key s =
     bindR (collect_prefix (meta s) (composite project RECEIPT_PREFIX) RECEIPT_PREFIX 256 (8 * 1024 * 1024)) (\<lambda>(receipts, _).
     bindR (guard_receipts R h ids owner_key (iter receipts) None) (\<lambda>owner_receipt.
     bindR (ensure (\<not> publishes_source owner_key \<or> owner_receipt \<noteq> None)
              (Bail ''Source publisher has no validated ownership receipt'')) (\<lambda>_.
     bindR (traverseR (guard_row R project owner_key owner_receipt s) ids) (\<lambda>_. Inr ()))))"

definition btree_set :: "string list \<Rightarrow> string list" where
  "btree_set xs = sort (remdups xs)"

lemma set_btree_set [simp]: "set (btree_set xs) = set xs"
  by (simp add: btree_set_def)

end
