(* ===== verification/Rules.thy ===== *)
theory Rules
  imports Rule_Receipt
begin

text \<open>
  The repository-rule operations of the registry, the publication of a rule source with its
  receipt, and the disabling of watches (\<open>engram_core/src/registry.rs\<close>).
\<close>

section \<open>Manual edits\<close>

definition put_repo_rule :: "rule_codecs \<Rightarrow> (bytes \<Rightarrow> string) \<Rightarrow> string \<Rightarrow> repo_rule \<Rightarrow> unit tx" where
  "put_repo_rule R h pid rule s =
     bindR (vk ''project_id'' pid) (\<lambda>_.
     bindR (vk ''rule_id'' (rule_id rule)) (\<lambda>_.
     bindR (guard_mutation R h pid [rule_id rule] None s) (\<lambda>_.
     Inr ((), s\<lparr>repo_rules := fmupd (composite pid (rule_id rule)) (to_vec (rule_json R) rule) (repo_rules s)\<rparr>))))"

definition list_repo_rules :: "rule_codecs \<Rightarrow> string \<Rightarrow> db \<Rightarrow> repo_rule list res" where
  "list_repo_rules R pid s =
     bindR (vk ''project_id'' pid) (\<lambda>_.
     bindR (traverseR (decode (rule_json R)) (map snd (prefix_scan (pid @ [NUL]) (repo_rules s)))) (\<lambda>out.
     Inr (sort_key file_pattern out)))"

definition delete_repo_rule :: "rule_codecs \<Rightarrow> (bytes \<Rightarrow> string) \<Rightarrow> string \<Rightarrow> string \<Rightarrow> unit tx" where
  "delete_repo_rule R h pid rid s =
     bindR (vk ''project_id'' pid) (\<lambda>_.
     bindR (vk ''rule_id'' rid) (\<lambda>_.
     bindR (guard_mutation R h pid [rid] None s) (\<lambda>_.
     Inr ((), s\<lparr>repo_rules := fmdrop (composite pid rid) (repo_rules s)\<rparr>))))"

section \<open>Publishing a source\<close>

text \<open>\<open>merge_rule_fields\<close> of \<open>registry/rule_adoption.rs\<close>: unknown fields of the stored row survive.\<close>

definition merge_rule_fields :: "rule_codecs \<Rightarrow> bytes \<Rightarrow> repo_rule \<Rightarrow> bytes res" where
  "merge_rule_fields R raw replacement =
     bindR (decode (object_json R) raw) (\<lambda>stored.
     bindR (decode (object_json R) (to_vec (rule_json R) replacement)) (\<lambda>known.
     Inr (to_vec (object_json R) (stored ++\<^sub>f known))))"

definition check_publication :: "rule_source_receipt \<Rightarrow> repo_rule list \<Rightarrow> unit res" where
  "check_publication published upsert =
     bindR (ensure (\<not> receipt_pending published) (Bail ''Cannot publish a pending source receipt'')) (\<lambda>_.
     bindR (ensure (\<forall>row \<in> set (receipt_rules published).
                      provenance row = Some (SOURCE_PROVENANCE @ receipt_origin published))
              (Bail ''Source publication cannot invent legacy ownership'')) (\<lambda>_.
     ensure (\<forall>row \<in> set upsert. row \<in> set (receipt_rules published))
       (Bail ''Source publication does not own its replacement rule'')))"

definition stored_rule :: "rule_codecs \<Rightarrow> string \<Rightarrow> table \<Rightarrow> string \<Rightarrow> repo_rule option res" where
  "stored_rule R pid t rid = transposeR (decode (rule_json R)) (fmlookup t (composite pid rid))"

text \<open>The rule the claim's row will hold once the publication is done.\<close>

definition check_claim :: "rule_codecs \<Rightarrow> string \<Rightarrow> string list \<Rightarrow> repo_rule list \<Rightarrow> table \<Rightarrow> repo_rule \<Rightarrow> unit res" where
  "check_claim R pid removed upsert t claim =
     bindR (case find (\<lambda>r. rule_id r = rule_id claim) upsert of
              Some row \<Rightarrow> Inr (Some row)
            | None \<Rightarrow> if rule_id claim \<in> set removed then Inr None else stored_rule R pid t (rule_id claim)) (\<lambda>next_row.
     ensure (next_row = Some claim) (Bail ''Published ownership claim does not match the resulting rule state''))"

definition check_expected :: "rule_codecs \<Rightarrow> string \<Rightarrow> repo_rule list \<Rightarrow> table \<Rightarrow> string \<Rightarrow> unit res" where
  "check_expected R pid expected t rid =
     bindR (vk ''rule_id'' rid) (\<lambda>_.
     bindR (stored_rule R pid t rid) (\<lambda>stored.
     ensure (stored = find (\<lambda>r. rule_id r = rid) expected)
       (Bail (''Repository rule `'' @ rid @ ''` changed during import; no rules published''))))"

definition remove_rules :: "string \<Rightarrow> string list \<Rightarrow> repo_rule list \<Rightarrow> table \<Rightarrow> table" where
  "remove_rules pid removed upsert t =
     fold (\<lambda>rid t. if \<exists>row \<in> set upsert. rule_id row = rid then t else fmdrop (composite pid rid) t) removed t"

definition upsert_rule :: "rule_codecs \<Rightarrow> string \<Rightarrow> repo_rule \<Rightarrow> table \<Rightarrow> table res" where
  "upsert_rule R pid rule t =
     (let key = composite pid (rule_id rule) in
      case fmlookup t key of
        None \<Rightarrow> Inr (fmupd key (to_vec (rule_json R) rule) t)
      | Some stored \<Rightarrow>
          bindR (decode (rule_json R) stored) (\<lambda>old.
          if old = rule then Inr t
          else bindR (merge_rule_fields R stored rule) (\<lambda>raw. Inr (fmupd key raw t))))"

fun upsert_rules :: "rule_codecs \<Rightarrow> string \<Rightarrow> repo_rule list \<Rightarrow> table \<Rightarrow> table res" where
  "upsert_rules R pid [] t = Inr t"
| "upsert_rules R pid (rule # rules) t = bindR (upsert_rule R pid rule t) (upsert_rules R pid rules)"

definition publication_of :: "rule_codecs \<Rightarrow> (bytes \<Rightarrow> string) \<Rightarrow> string \<Rightarrow> string \<Rightarrow> rule_source_receipt option res" where
  "publication_of R h receipt_key receipt =
     (if prefix RECEIPT_PREFIX receipt_key
      then bindR (decode_receipt R h receipt_key receipt) (\<lambda>published. Inr (Some published))
      else Inr None)"

definition published_rules :: "rule_source_receipt option \<Rightarrow> repo_rule list" where
  "published_rules published = (case published of None \<Rightarrow> [] | Some p \<Rightarrow> receipt_rules p)"

definition publish_rows ::
  "rule_codecs \<Rightarrow> string \<Rightarrow> repo_rule list \<Rightarrow> string list \<Rightarrow> repo_rule list \<Rightarrow> string \<Rightarrow> string \<Rightarrow> string \<Rightarrow> unit tx" where
  "publish_rows R pid expected removed upsert receipt_key expected_receipt receipt s =
     (let meta_key = composite pid receipt_key in
      bindR (ensure (fmlookup (meta s) meta_key = Some expected_receipt)
               (Bail ''Source receipt changed during import; retry'')) (\<lambda>_.
      bindR (traverseR (check_expected R pid expected (repo_rules s)) (btree_set (removed @ map rule_id upsert))) (\<lambda>_.
      bindR (upsert_rules R pid upsert (remove_rules pid removed upsert (repo_rules s))) (\<lambda>t.
      Inr ((), s\<lparr>repo_rules := t, meta := fmupd meta_key receipt (meta s)\<rparr>)))))"

definition publish_repo_rule_source ::
  "rule_codecs \<Rightarrow> (bytes \<Rightarrow> string) \<Rightarrow> string \<Rightarrow> repo_rule list \<Rightarrow> string list \<Rightarrow> repo_rule list
     \<Rightarrow> string \<Rightarrow> string \<Rightarrow> string \<Rightarrow> unit tx" where
  "publish_repo_rule_source R h pid expected removed upsert receipt_key expected_receipt receipt s =
     bindR (vk ''project_id'' pid) (\<lambda>_.
     bindR (vk ''key'' receipt_key) (\<lambda>_.
     bindR (publication_of R h receipt_key receipt) (\<lambda>published.
     bindR (case published of None \<Rightarrow> Inr () | Some p \<Rightarrow> check_publication p upsert) (\<lambda>_.
     let affected = btree_set (removed @ map rule_id upsert @ map rule_id (published_rules published)) in
     bindR (guard_mutation R h pid affected (Some receipt_key) s) (\<lambda>_.
     bindR (traverseR (check_claim R pid removed upsert (repo_rules s)) (published_rules published)) (\<lambda>_.
     publish_rows R pid expected removed upsert receipt_key expected_receipt receipt s))))))"

section \<open>Disabling watches\<close>

fun disable_rows :: "rule_codecs \<Rightarrow> u64 \<Rightarrow> (string \<times> bytes) list \<Rightarrow> (string \<times> bytes) list res" where
  "disable_rows R now [] = Inr []"
| "disable_rows R now ((key, v) # rows) =
     bindR (decode (value_json R) v) (\<lambda>row.
     bindR (ok_or (as_object row) (Bail ''Watch configuration is not an object'')) (\<lambda>object.
     if Option.bind (fmlookup object ''enabled'') as_bool = Some False then disable_rows R now rows
     else
       let object' = fmupd ''updated_at_ms'' (ju64 now) (fmupd ''enabled'' (JBool False) object) in
       bindR (disable_rows R now rows) (\<lambda>rest. Inr ((key, to_vec (value_json R) (JObject object')) # rest))))"

definition disable_project_watches :: "rule_codecs \<Rightarrow> string \<Rightarrow> u64 \<Rightarrow> unit tx" where
  "disable_project_watches R pid now s =
     bindR (vk ''project_id'' pid) (\<lambda>_.
     bindR (disable_rows R now (prefix_scan (pid @ [NUL]) (watches s))) (\<lambda>changes.
     Inr ((), s\<lparr>watches := fold (\<lambda>(k, v). fmupd k v) changes (watches s)\<rparr>)))"

end
