(* ===== verification/Registry_Properties.thy ===== *)
theory Registry_Properties
  imports Registry_Lemmas Rules
begin

text \<open>
  Properties of the registry's tables: project deletion erases one project and leaves the
  others alone, stored sections and metadata read back, the bounded page respects its budgets,
  and the start-up sweep leaves no running job behind.
\<close>

section \<open>Deletion\<close>

text \<open>
  C33. \<open>delete_all_for_project\<close> erases the project from every table: no project row, memory
  section, repository rule, watch, metadata value or job of it can be read afterwards, and no row
  under its key prefix is left in the tables that are keyed by project.
\<close>

theorem delete_all_erases_project:
  assumes "reachable J s" and "delete_all_for_project J p s = Inr ((), t)"
  shows "get_project J p t = Inr None \<and> list_memory_sections J p t = Inr [] \<and> list_watches J p t = Inr []
    \<and> (\<forall>k. key_ok k \<longrightarrow> get_meta p k t = Inr None) \<and> list_jobs J (Some p) t = Inr []
    \<and> (\<forall>R. list_repo_rules R p t = Inr [])
    \<and> (\<forall>k. fmlookup (memory_bank t) (composite p k) = None \<and> fmlookup (repo_rules t) (composite p k) = None
          \<and> fmlookup (watches t) (composite p k) = None \<and> fmlookup (meta t) (composite p k) = None)"
  using assms(2)
proof (cases rule: delete_all_cases)
  case (1 s1 rows)
  note k = 1(1) and t = 1(4)
  have "list_jobs J (Some p) t = Inr []"
    using jobs_after_delete(1) [where P = "\<lambda>j. job_project_id j = Some p", OF 1(3) refl] k
    by (simp add: list_jobs_def t)
  moreover have "get_meta p k' t = Inr None" if "key_ok k'" for k'
    using k that by (simp add: get_meta_def get_meta_bounded_def map_meta_bounded_def t lookup_remove_prefix)
  moreover have "list_repo_rules R p t = Inr []" for R
    using k by (simp add: t list_repo_rules_def prefix_scan_remove_prefix)
  moreover have "prefix (p @ [NUL]) (composite p k')" for k' by (simp add: composite_def)
  ultimately show ?thesis
    using k by (simp add: t get_project_def read_project_def list_memory_sections_def list_watches_def
        prefix_scan_remove_prefix lookup_remove_prefix)
qed

theorem delete_all_erases_project_witness:
  "delete_all_for_project J0 ''p'' published_db = Inr ((), deleted_db) \<and> get_project J0 ''p'' deleted_db = Inr None
   \<and> get_meta ''p'' HEAD deleted_db = Inr None \<and> fmlookup (repo_rules deleted_db) (composite ''p'' ''r'') = None"
  using delete_all_erases_project [OF reachable_published delete_run] delete_run by simp

text \<open>
  Deletion is confined to its project: for every other valid project the record, the
  memory sections, the watches, the metadata and the jobs read as before.
\<close>

theorem delete_all_keeps_other_projects:
  assumes "reachable J s" and "delete_all_for_project J p s = Inr ((), t)" and "key_ok q" and "q \<noteq> p"
  shows "get_project J q t = get_project J q s \<and> list_memory_sections J q t = list_memory_sections J q s
    \<and> list_watches J q t = list_watches J q s \<and> (\<forall>k. get_meta q k t = get_meta q k s)
    \<and> list_jobs J (Some q) t = list_jobs J (Some q) s"
  using assms(2)
proof (cases rule: delete_all_cases)
  case (1 s1 rows)
  note k = 1(1) and t = 1(4) and E = clear_pending_effect [OF reachable_inv [OF assms(1)] 1(2,1)]
  have jobs: "jobs s1 = jobs s" by (rule E(8))
  have "filter (\<lambda>j. job_project_id j = Some q) (filter (\<lambda>j. job_project_id j \<noteq> Some p) (map snd rows))
      = filter (\<lambda>j. job_project_id j = Some q) (map snd rows)"
    unfolding filter_filter by (rule filter_cong) (use assms(4) in auto)
  then have "list_jobs J (Some q) t = list_jobs J (Some q) s"
    using jobs_after_delete [where P = "\<lambda>j. job_project_id j = Some p", OF 1(3) refl] assms(3)
    by (simp add: list_jobs_def t jobs)
  moreover have "get_meta q k' t = get_meta q k' s" for k'
    using k assms(3,4) E(3)
    by (simp add: get_meta_def get_meta_bounded_def map_meta_bounded_def t lookup_remove_prefix)
  ultimately show ?thesis
    using k assms(3,4) E(2,5,7)
    by (simp add: t get_project_def read_project_def list_memory_sections_def list_watches_def
        prefix_scan_remove_prefix)
qed

theorem delete_all_keeps_other_projects_witness:
  "get_project J0 ''q'' deleted_db = get_project J0 ''q'' published_db
   \<and> list_jobs J0 (Some ''q'') deleted_db = list_jobs J0 (Some ''q'') published_db"
proof -
  have "key_ok ''q''" by (simp add: key_ok_def)
  with delete_all_keeps_other_projects [OF reachable_published delete_run, of "''q''"] show ?thesis by simp
qed

section \<open>Memory bank and metadata\<close>

text \<open>
  A stored memory section reads back exactly, appears in its project's list, and the
  sections under every other key stay as they were.
\<close>

theorem memory_section_roundtrip:
  assumes "codecs_ok J" and "put_memory_section J p sec s = Inr ((), t)"
  shows "get_memory_section J p (section_id sec) t = Inr (Some sec)
    \<and> (\<forall>l. list_memory_sections J p t = Inr l \<longrightarrow> sec \<in> set l)
    \<and> (\<forall>q i. (q, i) \<noteq> (p, section_id sec) \<longrightarrow> get_memory_section J q i t = get_memory_section J q i s)"
proof (intro conjI allI impI)
  have k: "key_ok p" "key_ok (section_id sec)"
    and t: "t = s\<lparr>memory_bank := fmupd (composite p (section_id sec)) (to_vec (memory_json J) sec) (memory_bank s)\<rparr>"
    using assms(2) by (auto simp: put_memory_section_def)
  show "get_memory_section J p (section_id sec) t = Inr (Some sec)"
    using k assms(1) by (simp add: get_memory_section_def t decode_def)
  show "sec \<in> set l" if list: "list_memory_sections J p t = Inr l" for l
  proof -
    obtain out where out: "traverseR (decode (memory_json J)) (map snd (prefix_scan (p @ [NUL]) (memory_bank t))) = Inr out"
      and l: "l = sort_key section_title out"
      using list by (auto simp: list_memory_sections_def)
    have "(composite p (section_id sec), to_vec (memory_json J) sec) \<in> set (prefix_scan (p @ [NUL]) (memory_bank t))"
      using k by (simp add: set_prefix_scan t)
    with traverseR_set(1) [OF out, of sec] assms(1) show ?thesis by (force simp: l)
  qed
  show "get_memory_section J q i t = get_memory_section J q i s" if "(q, i) \<noteq> (p, section_id sec)" for q i
  proof (cases "key_ok q")
    case True
    with that k show ?thesis by (auto simp: get_memory_section_def t)
  next
    case False
    then obtain e where "vk ''project_id'' q = Inl e" by (cases "vk ''project_id'' q") auto
    then show ?thesis by (simp add: get_memory_section_def)
  qed
qed

theorem memory_section_roundtrip_witness:
  "\<exists>t. put_memory_section J0 ''p'' sample_section empty_db = Inr ((), t)
    \<and> get_memory_section J0 ''p'' ''n'' t = Inr (Some sample_section)"
proof -
  have "key_ok (section_id sample_section)" by (simp add: sample_section_def key_ok_def)
  then obtain t where t: "put_memory_section J0 ''p'' sample_section empty_db = Inr ((), t)"
    by (simp add: put_memory_section_def)
  from memory_section_roundtrip [OF wire_codecs_ok t] t show ?thesis by (auto simp: sample_section_def)
qed

text \<open>
  \<open>compare_exchange_meta\<close> is an atomic compare-and-set: it answers true exactly when the
  stored value is the expected one, then the new value reads back; otherwise nothing changes.
\<close>

theorem compare_exchange_atomic:
  assumes "compare_exchange_meta J p key expected v s = Inr (b, t)" and "utf8_valid v" and "length v < 2 ^ 64"
  shows "(b \<longleftrightarrow> fmlookup (meta s) (composite p key) = expected)
    \<and> (b \<longrightarrow> get_meta p key t = Inr (Some v)) \<and> (\<not> b \<longrightarrow> t = s)"
proof -
  have k: "key_ok p" "key_ok key" using assms(1) by (auto simp: compare_exchange_meta_def)
  show ?thesis
  proof (cases "fmlookup (meta s) (composite p key) = expected")
    case True
    then have b: b and "fmlookup (meta t) (composite p key) = Some v"
      using assms(1) k by (auto simp: compare_exchange_meta_def Let_def)
    with True k assms(2,3) show ?thesis
      by (simp add: get_meta_def get_meta_bounded_def map_meta_bounded_def from_utf8_def)
  next
    case False
    with assms(1) k show ?thesis by (simp add: compare_exchange_meta_def Let_def)
  qed
qed

theorem compare_exchange_atomic_witness:
  "\<exists>t. compare_exchange_meta J0 ''p'' ''k'' None ''x'' empty_db = Inr (True, t) \<and> get_meta ''p'' ''k'' t = Inr (Some ''x'')"
proof -
  have "key_ok ''k''" by (simp add: key_ok_def)
  then obtain t where t: "compare_exchange_meta J0 ''p'' ''k'' None ''x'' empty_db = Inr (True, t)"
    by (simp add: compare_exchange_meta_def Let_def empty_db_def HEAD_def)
  from compare_exchange_atomic [OF t] t show ?thesis by simp
qed

text \<open>
  The kill switch reads back what was last set, whatever value the flag had, and setting it
  touches no project's metadata.
\<close>

theorem kill_switch_roundtrip:
  assumes other: "p \<noteq> GLOBAL"
  shows "\<exists>t. set_adp_kill_switch b s = Inr ((), t) \<and> get_adp_kill_switch t = Inr b
    \<and> get_meta p k t = get_meta p k s"
proof -
  have g: "key_ok ADP_KILL_SWITCH" "key_ok GLOBAL" by (simp_all add: ADP_KILL_SWITCH_def GLOBAL_def key_ok_def)
  let ?t = "put_meta (composite GLOBAL ADP_KILL_SWITCH) (if b then ''true'' else ''false'') s"
  have u: "utf8_valid ''true''" "utf8_valid ''false''" by code_simp+
  have "get_meta p k ?t = get_meta p k s"
  proof (cases "key_ok p")
    case True
    with other g show ?thesis by (simp add: get_meta_def get_meta_bounded_def map_meta_bounded_def)
  next
    case False
    then obtain e where "vk ''project_id'' p = Inl e" by (cases "vk ''project_id'' p") auto
    then show ?thesis by (simp add: get_meta_def get_meta_bounded_def map_meta_bounded_def)
  qed
  moreover have "get_adp_kill_switch ?t = Inr b"
    using g u by (simp add: get_adp_kill_switch_def get_global_flag_def from_utf8_def)
  ultimately show ?thesis
    using g by (intro exI [of _ ?t]) (simp add: set_adp_kill_switch_def set_global_flag_def)
qed

theorem kill_switch_roundtrip_witness:
  "\<exists>t. set_adp_kill_switch True empty_db = Inr ((), t) \<and> get_adp_kill_switch t = Inr True
    \<and> get_meta ''p'' ''k'' t = get_meta ''p'' ''k'' empty_db"
  by (rule kill_switch_roundtrip) (simp add: GLOBAL_def)

section \<open>Bounded metadata pages\<close>

text \<open>
  C34. A metadata page respects every budget and loses nothing silently: at most the requested
  number of rows is inspected, the copied keys and values fit the total, each value fits the
  per-value limit, every entry is a stored row under the prefix, the inspected rows are the
  entries plus the counted omissions, and without \<open>has_more\<close> all rows under the prefix were
  inspected.
\<close>

theorem meta_page_within_budget:
  assumes "list_meta_prefix_bounded p key_prefix max_entries max_value max_total s = Inr page"
  shows "inspected page \<le> max_entries \<and> page_bytes page \<le> max_total
    \<and> inspected page = length (entries page) + omitted_values page
    \<and> (\<forall>(k, v) \<in> set (entries page). length v \<le> max_value \<and> prefix key_prefix k
         \<and> fmlookup (meta s) (composite p k) = Some v)
    \<and> (\<not> has_more page \<longrightarrow> inspected page = length (prefix_scan (composite p key_prefix) (meta s)))"
proof -
  let ?p = "composite p key_prefix"
  define page0 where "page0 = \<lparr> entries = [], inspected = 0, omitted_values = 0, has_more = False \<rparr>"
  have page: "page = page_loop ?p (length p + 1) max_entries max_value max_total 0 page0 (range_from ?p (meta s))"
    using assms by (auto simp: list_meta_prefix_bounded_def Let_def page0_def)
  have "page_inv max_entries max_value max_total 0 page0"
    by (simp add: page_inv_def page_bytes_def page0_def)
  from page_loop_inv [OF this] obtain r where inv: "page_inv max_entries max_value max_total r page"
    unfolding page by blast
  have row: "prefix key_prefix k \<and> fmlookup (meta s) (composite p k) = Some v" if "(k, v) \<in> set (entries page)" for k v
  proof -
    from that page_loop_entries [of ?p "length p + 1" max_entries max_value max_total 0 page0 "range_from ?p (meta s)"]
    obtain k' where k': "k = drop (length p + 1) k'" "(k', v) \<in> set (range_from ?p (meta s))" "prefix ?p k'"
      by (auto simp: page page0_def)
    from k'(3) obtain z where "k' = composite p (key_prefix @ z)" by (auto simp: prefix_def composite_def)
    with k' show ?thesis by (auto simp: composite_def range_from_filter set_iter)
  qed
  have "inspected page = length (prefix_scan ?p (meta s))" if "\<not> has_more page"
    using page_loop_complete [of ?p "length p + 1" max_entries max_value max_total 0 page0 "range_from ?p (meta s)"] that
    unfolding page [symmetric] by (simp add: page0_def prefix_scan_def)
  with inv row show ?thesis by (auto simp: page_inv_def)
qed

theorem meta_page_within_budget_witness:
  "\<exists>page. list_meta_prefix_bounded ''p'' ''source'' 10 100 1000 saved_db = Inr page
    \<and> inspected page \<le> 10 \<and> page_bytes page \<le> 1000"
proof -
  have "key_ok ''source''" by (simp add: key_ok_def)
  then obtain page where p: "list_meta_prefix_bounded ''p'' ''source'' 10 100 1000 saved_db = Inr page"
    by (simp add: list_meta_prefix_bounded_def Let_def)
  from meta_page_within_budget [OF p] p show ?thesis by blast
qed

section \<open>The orphan sweep\<close>

text \<open>
  After the start-up sweep no stored job is running, jobs that were not running are
  untouched, no job appears or disappears, the returned count is the number of jobs that were
  running, and sweeping again finds nothing to do.
\<close>

theorem cleanup_leaves_no_running_job:
  assumes "codecs_ok J" and "cleanup_orphaned_jobs J clock s = Inr (n, t)"
  shows "n = length (filter (\<lambda>(k, v). is_running J v) (iter (jobs s)))
    \<and> (\<forall>k v. fmlookup (jobs t) k = Some v \<longrightarrow> \<not> is_running J v)
    \<and> (\<forall>k v. fmlookup (jobs s) k = Some v \<and> \<not> is_running J v \<longrightarrow> fmlookup (jobs t) k = Some v)
    \<and> fmdom (jobs t) = fmdom (jobs s)
    \<and> cleanup_orphaned_jobs J clock t = Inr (0, t)"
proof -
  obtain b where b: "has_orphans J s = Inr b" and w: "(if \<not> b then Inr (0, s) else cleanup_write J clock s) = Inr (n, t)"
    using assms(2) by (auto simp: cleanup_orphaned_jobs_def)
  note H = has_orphans_iff [OF b]
  have rows: "n = length (filter (\<lambda>(k, v). is_running J v) (iter (jobs s)))
      \<and> (\<forall>k v. fmlookup (jobs t) k = Some v \<longrightarrow> from_slice (job_json J) v \<noteq> None \<and> \<not> is_running J v)
      \<and> (\<forall>k v. fmlookup (jobs s) k = Some v \<and> \<not> is_running J v \<longrightarrow> fmlookup (jobs t) k = Some v)
      \<and> (\<forall>k. fmlookup (jobs t) k = None \<longleftrightarrow> fmlookup (jobs s) k = None)"
  proof (cases b)
    case True
    with w have "cleanup_write J clock s = Inr (n, t)" by simp
    from cleanup_write_rows [OF this assms(1)] show ?thesis by blast
  next
    case False
    with H(1) have none: "\<not> is_running J v" if "(k, v) \<in> set (iter (jobs s))" for k v using that by (auto simp: set_iter)
    then have "filter (\<lambda>(k, v). is_running J v) (iter (jobs s)) = []" by (auto simp: filter_empty_conv)
    with False w none H(2) show ?thesis by (auto simp: set_iter)
  qed
  have dec: "\<exists>j. from_slice (job_json J) v = Some j" and idle: "\<not> is_running J v"
    if v: "v \<in> set (map snd (iter (jobs t)))" for v
  proof -
    obtain k where "fmlookup (jobs t) k = Some v" using v by (auto simp: set_iter)
    with rows have "from_slice (job_json J) v \<noteq> None \<and> \<not> is_running J v" by blast
    then show "\<exists>j. from_slice (job_json J) v = Some j" "\<not> is_running J v" by auto
  qed
  have "traverseR (decode (job_json J)) (map snd (iter (jobs t)))
      = Inr (map (\<lambda>v. the (from_slice (job_json J) v)) (map snd (iter (jobs t))))"
    by (rule traverseR_map_Inr) (use dec in \<open>force simp: decode_def\<close>)
  moreover have "job_status (the (from_slice (job_json J) v)) \<noteq> RUNNING" if "v \<in> set (map snd (iter (jobs t)))" for v
    using dec [OF that] idle [OF that] by (auto simp: is_running_def)
  ultimately have "has_orphans J t = Inr False" by (auto simp: has_orphans_def)
  then have again: "cleanup_orphaned_jobs J clock t = Inr (0, t)" by (simp add: cleanup_orphaned_jobs_def)
  have dom: "fmdom (jobs t) = fmdom (jobs s)"
    using rows by (intro fset_eqI) (metis fmdom_notI fmdom_notD)
  from rows again dom show ?thesis by blast
qed

theorem cleanup_leaves_no_running_job_witness:
  "\<exists>t. cleanup_orphaned_jobs J0 (\<lambda>_. Some 9) running_db = Inr (1, t)
    \<and> cleanup_orphaned_jobs J0 (\<lambda>_. Some 9) t = Inr (0, t)"
proof -
  have "decode (job_json J0) (to_vec (job_json J0) running_job) = Inr running_job" "job_status running_job = RUNNING"
    by (simp_all add: decode_def) (simp add: running_job_def)
  then obtain t where t: "cleanup_orphaned_jobs J0 (\<lambda>_. Some 9) running_db = Inr (1, t)"
    by (simp add: cleanup_orphaned_jobs_def has_orphans_def cleanup_write_def running_db_def iter_singleton
        del: bindR_eq_Inr)
  from cleanup_leaves_no_running_job [OF wire_codecs_ok t] t show ?thesis by blast
qed

end
