(* ===== verification/Store_Refinement.thy ===== *)
theory Store_Refinement
  imports Registry_Lemmas Sample_Run
begin

text \<open>
  The tables of sections and jobs as maps. The abstract store is a partial map from identifiers
  to decoded values; the calls of the registry on the encoded, composite-keyed tables simulate its
  updates, for every sequence of calls, those with invalid keys included.
\<close>

section \<open>Simulation\<close>

text \<open>
  A call of the implementation is matched by a call of its specification, on the states that the
  implementation's invariant admits.
\<close>

locale call_relation =
  fixes call :: "'c \<Rightarrow> 's \<Rightarrow> 's"
    and spec :: "'c \<Rightarrow> 'm \<Rightarrow> 'm"
    and rel :: "'m \<Rightarrow> 's \<Rightarrow> bool"
    and allowed :: "'c \<Rightarrow> bool"
  assumes rel_call: "rel m s \<Longrightarrow> allowed c \<Longrightarrow> rel (spec c m) (call c s)"
begin

lemma rel_calls: "rel m s \<Longrightarrow> list_all allowed cs \<Longrightarrow> rel (fold spec cs m) (fold call cs s)"
  by (induction cs arbitrary: m s) (auto intro: rel_call)

end

text \<open>A specification state that is a function of the state of the implementation.\<close>

locale simulation =
  fixes call :: "'c \<Rightarrow> 's \<Rightarrow> 's"
    and spec :: "'c \<Rightarrow> 'm \<Rightarrow> 'm"
    and abs :: "'s \<Rightarrow> 'm"
    and good :: "'s \<Rightarrow> bool"
  assumes good_call: "good s \<Longrightarrow> good (call c s)"
    and sim_call: "good s \<Longrightarrow> abs (call c s) = spec c (abs s)"

sublocale simulation \<subseteq> related: call_relation call spec "\<lambda>m s. good s \<and> m = abs s" "\<lambda>_. True"
  by unfold_locales (simp add: good_call sim_call)

context simulation
begin

lemma good_calls: "good s \<Longrightarrow> good (fold call cs s)"
  and sim_calls: "good s \<Longrightarrow> abs (fold call cs s) = fold spec cs (abs s)"
  using related.rel_calls [of s "abs s" cs] by (simp_all add: list_all_iff)

text \<open>Calls that commute in the specification cannot be told apart by their order.\<close>

lemma swap_calls:
  assumes "good s" and "spec c (spec d (abs s)) = spec d (spec c (abs s))"
  shows "abs (call c (call d s)) = abs (call d (call c s))"
  using assms by (simp add: sim_call good_call)

end

section \<open>Decoded rows\<close>

definition decoded :: "'a codec \<Rightarrow> table \<Rightarrow> string \<Rightarrow> 'a option" where
  "decoded c t k = Option.bind (fmlookup t k) (from_slice c)"

definition well_typed :: "'a codec \<Rightarrow> (string \<Rightarrow> 'a \<Rightarrow> bool) \<Rightarrow> table \<Rightarrow> bool" where
  "well_typed c fits t \<longleftrightarrow> (\<forall>k b. fmlookup t k = Some b \<longrightarrow> (\<exists>x. from_slice c b = Some x \<and> fits k x))"

lemma well_typedD:
  assumes "well_typed c fits t" and "fmlookup t k = Some b"
  shows "\<exists>x. from_slice c b = Some x \<and> fits k x \<and> decoded c t k = Some x"
  using assms by (force simp: well_typed_def decoded_def)

lemma well_typed_empty [simp, intro]: "well_typed c fits fmempty"
  by (simp add: well_typed_def)

lemma well_typed_upd [intro]:
  "well_typed c fits t \<Longrightarrow> codec_ok c \<Longrightarrow> fits k x \<Longrightarrow> well_typed c fits (fmupd k (to_vec c x) t)"
  by (simp add: well_typed_def codec_ok_def)

lemma well_typed_sub:
  assumes "well_typed c fits t" and "\<And>k b. fmlookup u k = Some b \<Longrightarrow> fmlookup t k = Some b"
  shows "well_typed c fits u"
  using assms unfolding well_typed_def by blast

lemma decoded_upd [simp]: "codec_ok c \<Longrightarrow> decoded c (fmupd k (to_vec c x) t) l = (if l = k then Some x else decoded c t l)"
  by (simp add: decoded_def codec_ok_def)

lemma decoded_drop [simp]: "decoded c (fmdrop k t) l = (if l = k then None else decoded c t l)"
  by (simp add: decoded_def)

lemma decoded_typed: "well_typed c fits t \<Longrightarrow> decoded c t k = Some x \<Longrightarrow> fits k x"
  by (force simp: decoded_def well_typed_def bind_eq_Some_conv)

lemma decoded_get: "well_typed c fits t \<Longrightarrow> transposeR (decode c) (fmlookup t k) = Inr (decoded c t k)"
  by (cases "fmlookup t k") (force simp: decoded_def decode_def well_typed_def)+

text \<open>Every listing of a well-typed table succeeds and lists the decoded rows it selects.\<close>

lemma decoded_rows:
  assumes t: "well_typed c fits t" and rows: "\<And>k b. (k, b) \<in> set rows \<longleftrightarrow> fmlookup t k = Some b \<and> P k"
  shows "\<exists>xs. traverseR (decode c) (map snd rows) = Inr xs \<and> list_all2 (\<lambda>x k. fits k x) xs (map fst rows)
    \<and> set xs = {x. \<exists>k. P k \<and> decoded c t k = Some x}"
proof -
  let ?dec = "\<lambda>b. the (from_slice c b)"
  have dec: "from_slice c b = Some (?dec b) \<and> fits k (?dec b)" if "(k, b) \<in> set rows" for k b
    using well_typedD [OF t] that rows by force
  then have "traverseR (decode c) (map snd rows) = Inr (map ?dec (map snd rows))"
    by (intro traverseR_map_Inr) (force simp: decode_def)
  moreover have "set (map ?dec (map snd rows)) = {x. \<exists>k. P k \<and> decoded c t k = Some x}"
  proof (rule set_eqI)
    fix x
    have "x \<in> set (map ?dec (map snd rows)) \<longleftrightarrow> (\<exists>k b. (k, b) \<in> set rows \<and> from_slice c b = Some x)"
      using dec by force
    then show "x \<in> set (map ?dec (map snd rows)) \<longleftrightarrow> x \<in> {x. \<exists>k. P k \<and> decoded c t k = Some x}"
      by (auto simp: rows decoded_def bind_eq_Some_conv)
  qed
  moreover have "list_all2 (\<lambda>x k. fits k x) (map ?dec (map snd rows)) (map fst rows)"
    using dec by (simp add: list_all2_map1 list_all2_map2 list_all2_same case_prod_beta)
  ultimately show ?thesis by blast
qed

text \<open>If the key of a row is a function of the row, the decoded rows are distinct in it.\<close>

lemma distinct_fits:
  assumes "list_all2 (\<lambda>x k. fits k x) xs ks" and "distinct ks" and "\<And>k x. k \<in> set ks \<Longrightarrow> fits k x \<Longrightarrow> k = g (f x)"
  shows "distinct (map f xs)"
proof -
  have len: "length xs = length ks" using assms(1) by (rule list_all2_lengthD)
  have "ks ! i = map g (map f xs) ! i" if "i < length ks" for i
    using assms(3) [of "ks ! i" "xs ! i"] list_all2_nthD2 [OF assms(1) that] that len by simp
  with len have "ks = map g (map f xs)" by (intro nth_equalityI) simp_all
  with assms(2) show ?thesis by (metis distinct_map)
qed

section \<open>The memory bank\<close>

datatype section_call = PutSection string memory_section | DeleteSection string string

definition section_fits :: "string \<Rightarrow> memory_section \<Rightarrow> bool" where
  "section_fits k x \<longleftrightarrow> key_ok (section_id x) \<and> (\<exists>p. key_ok p \<and> k = composite p (section_id x))"

definition run_section :: "codecs \<Rightarrow> section_call \<Rightarrow> db \<Rightarrow> db" where
  "run_section J c = commit_or_drop (case c of PutSection p x \<Rightarrow> put_memory_section J p x | DeleteSection p i \<Rightarrow> delete_memory_section p i)"

definition section_map :: "codecs \<Rightarrow> db \<Rightarrow> string \<times> string \<Rightarrow> memory_section option" where
  "section_map J s = (\<lambda>(p, i). if key_ok p \<and> key_ok i then decoded (memory_json J) (memory_bank s) (composite p i) else None)"

fun section_spec :: "section_call \<Rightarrow> (string \<times> string \<Rightarrow> memory_section option) \<Rightarrow> string \<times> string \<Rightarrow> memory_section option" where
  "section_spec (PutSection p x) m = (if key_ok p \<and> key_ok (section_id x) then m((p, section_id x) \<mapsto> x) else m)"
| "section_spec (DeleteSection p i) m = m((p, i) := None)"

definition sections_typed :: "codecs \<Rightarrow> db \<Rightarrow> bool" where
  "sections_typed J s \<longleftrightarrow> codecs_ok J \<and> well_typed (memory_json J) section_fits (memory_bank s)"

lemma commit_or_drop_simps [simp]:
  "op s = Inr (x, t) \<Longrightarrow> commit_or_drop op s = t" "op s = Inl e \<Longrightarrow> commit_or_drop op s = s"
  by (simp_all add: commit_or_drop_def)

lemma vk_fails: "\<not> key_ok v \<Longrightarrow> \<exists>e. vk n v = Inl e"
  by (cases "vk n v") auto

lemma commit_guard [simp]:
  "(case bindR (vk n v) f of Inl e \<Rightarrow> s | Inr (x, t) \<Rightarrow> t) = (if key_ok v then case f () of Inl e \<Rightarrow> s | Inr (x, t) \<Rightarrow> t else s)"
  using vk_fails [of v n] by (cases "key_ok v") auto

lemma section_fits_composite [simp]: "key_ok p \<Longrightarrow> key_ok (section_id x) \<Longrightarrow> section_fits (composite p (section_id x)) x"
  by (auto simp: section_fits_def)

lemma run_put_section:
  "run_section J (PutSection p x) s = (if key_ok p \<and> key_ok (section_id x)
     then s\<lparr>memory_bank := fmupd (composite p (section_id x)) (to_vec (memory_json J) x) (memory_bank s)\<rparr> else s)"
  by (simp add: run_section_def commit_or_drop_def put_memory_section_def)

lemma run_delete_section:
  "run_section J (DeleteSection p i) s = (if key_ok p \<and> key_ok i
     then s\<lparr>memory_bank := fmdrop (composite p i) (memory_bank s)\<rparr> else s)"
  by (simp add: run_section_def commit_or_drop_def delete_memory_section_def)

interpretation sections: simulation "run_section J" section_spec "section_map J" "sections_typed J" for J
proof
  fix s c
  assume good: "sections_typed J s"
  then have ok: "codec_ok (memory_json J)" "well_typed (memory_json J) section_fits (memory_bank s)"
    by (simp_all add: sections_typed_def codecs_ok_def)
  show "sections_typed J (run_section J c s)"
  proof (cases c)
    case (PutSection p x)
    then show ?thesis using good ok unfolding sections_typed_def
      by (auto simp: run_put_section)
  next
    case (DeleteSection p i)
    then show ?thesis using good unfolding sections_typed_def
      by (auto simp: run_delete_section elim: well_typed_sub split: if_splits)
  qed
  show "section_map J (run_section J c s) = section_spec c (section_map J s)"
    using ok(1) by (cases c) (auto simp: run_put_section run_delete_section section_map_def fun_eq_iff)
qed

text \<open>The reads of a typed memory bank are the reads of the map.\<close>

lemma get_section_map:
  assumes "sections_typed J s" and "key_ok p" and "key_ok i"
  shows "get_memory_section J p i s = Inr (section_map J s (p, i))"
proof -
  have "transposeR (decode (memory_json J)) (fmlookup (memory_bank s) (composite p i)) = Inr (decoded (memory_json J) (memory_bank s) (composite p i))"
    using assms(1) unfolding sections_typed_def by (blast intro: decoded_get)
  with assms(2,3) show ?thesis by (simp add: get_memory_section_def section_map_def)
qed

lemma list_section_map:
  assumes typed: "sections_typed J s" and p: "key_ok p"
  shows "\<exists>xs. list_memory_sections J p s = Inr xs \<and> set xs = {x. \<exists>i. section_map J s (p, i) = Some x}
    \<and> sorted (map section_title xs) \<and> distinct (map section_id xs)"
proof -
  let ?rows = "prefix_scan (p @ [NUL]) (memory_bank s)"
  have t: "well_typed (memory_json J) section_fits (memory_bank s)" using typed by (simp add: sections_typed_def)
  have fits: "k = composite p (section_id x) \<and> key_ok (section_id x)" if "section_fits k x" "prefix (p @ [NUL]) k" for k x
    using that p by (auto simp: section_fits_def)
  obtain xs where xs: "traverseR (decode (memory_json J)) (map snd ?rows) = Inr xs"
      "list_all2 (\<lambda>x k. section_fits k x) xs (map fst ?rows)"
      "set xs = {x. \<exists>k. prefix (p @ [NUL]) k \<and> decoded (memory_json J) (memory_bank s) k = Some x}"
    using decoded_rows [OF t, of ?rows "prefix (p @ [NUL])"] by (auto simp: set_prefix_scan)
  have "distinct (map section_id xs)"
  proof (rule distinct_fits [OF xs(2) distinct_prefix_scan])
    show "k = composite p (section_id x)" if "k \<in> set (map fst ?rows)" "section_fits k x" for k x
      using that fits by (auto simp: set_prefix_scan)
  qed
  moreover have "(\<exists>k. prefix (p @ [NUL]) k \<and> decoded (memory_json J) (memory_bank s) k = Some x)
      \<longleftrightarrow> (\<exists>i. section_map J s (p, i) = Some x)" for x
  proof
    assume "\<exists>k. prefix (p @ [NUL]) k \<and> decoded (memory_json J) (memory_bank s) k = Some x"
    then obtain k b where k: "prefix (p @ [NUL]) k" "fmlookup (memory_bank s) k = Some b" "from_slice (memory_json J) b = Some x"
      by (auto simp: decoded_def bind_eq_Some_conv)
    with well_typedD [OF t k(2)] fits have "k = composite p (section_id x)" "key_ok (section_id x)" by auto
    with k p have "section_map J s (p, section_id x) = Some x" by (simp add: section_map_def decoded_def)
    then show "\<exists>i. section_map J s (p, i) = Some x" ..
  next
    assume "\<exists>i. section_map J s (p, i) = Some x"
    then obtain i where "key_ok i" "decoded (memory_json J) (memory_bank s) (composite p i) = Some x"
      by (auto simp: section_map_def split: if_splits)
    with p show "\<exists>k. prefix (p @ [NUL]) k \<and> decoded (memory_json J) (memory_bank s) k = Some x"
      by (intro exI [of _ "composite p i"]) simp
  qed
  ultimately show ?thesis using xs(1,3) p by (auto simp: list_memory_sections_def distinct_map)
qed

section \<open>Jobs\<close>

text \<open>A sweep is the start-up cleanup; it fails, and changes nothing, if a clock reading it needs is missing.\<close>

datatype job_call = PutJob job_record | DeleteJob string | Sweep "string \<Rightarrow> u64 option"

definition job_fits :: "string \<Rightarrow> job_record \<Rightarrow> bool" where
  "job_fits k j \<longleftrightarrow> k = job_id j \<and> key_ok k"

definition run_job :: "codecs \<Rightarrow> job_call \<Rightarrow> db \<Rightarrow> db" where
  "run_job J c = (case c of PutJob j \<Rightarrow> commit_or_drop (put_job J j) | DeleteJob i \<Rightarrow> commit_or_drop (delete_job i)
     | Sweep clock \<Rightarrow> commit_or_drop (cleanup_orphaned_jobs J clock))"

definition job_map :: "codecs \<Rightarrow> db \<Rightarrow> string \<Rightarrow> job_record option" where
  "job_map J s = decoded (job_json J) (jobs s)"

definition swept :: "(string \<Rightarrow> u64 option) \<Rightarrow> string \<Rightarrow> job_record \<Rightarrow> job_record" where
  "swept clock k j = (if job_status j = RUNNING then abort_job (the (clock k)) j else j)"

definition job_spec :: "job_call \<Rightarrow> (string \<Rightarrow> job_record option) \<Rightarrow> string \<Rightarrow> job_record option" where
  "job_spec c m = (case c of PutJob j \<Rightarrow> if key_ok (job_id j) then m(job_id j \<mapsto> j) else m
     | DeleteJob i \<Rightarrow> m(i := None)
     | Sweep clock \<Rightarrow> if \<exists>k j. m k = Some j \<and> job_status j = RUNNING \<and> clock k = None then m
         else (\<lambda>k. map_option (swept clock k) (m k)))"

definition jobs_typed :: "codecs \<Rightarrow> db \<Rightarrow> bool" where
  "jobs_typed J s \<longleftrightarrow> codecs_ok J \<and> well_typed (job_json J) job_fits (jobs s)"

lemma collect_orphans_run:
  assumes "\<forall>(k, v) \<in> set rows. from_slice (job_json J) v \<noteq> None"
  shows "collect_orphans J clock rows =
    (if \<exists>(k, v) \<in> set rows. is_running J v \<and> clock k = None then Inl (Bail ''system time before the epoch'')
     else Inr (map (\<lambda>(k, v). (k, abort_job (the (clock k)) (the (from_slice (job_json J) v)))) (filter (\<lambda>(k, v). is_running J v) rows)))"
  using assms
proof (induction rows)
  case (Cons kv rows)
  obtain k v where kv: "kv = (k, v)" by (cases kv)
  obtain j where j: "from_slice (job_json J) v = Some j" using Cons.prems kv by auto
  have "is_running J v \<longleftrightarrow> job_status j = RUNNING" by (simp add: is_running_def j)
  then show ?case using Cons by (cases "clock k") (auto simp: kv j decode_def)
qed simp

lemma map_of_filtered:
  assumes "distinct (map fst xs)"
  shows "map_of (map (\<lambda>(k, v). (k, g k v)) (filter (\<lambda>(k, v). P v) xs)) k
    = (case map_of xs k of None \<Rightarrow> None | Some v \<Rightarrow> if P v then Some (g k v) else None)"
  using assms
proof (induction xs)
  case (Cons kv xs)
  obtain a v where kv: "kv = (a, v)" by (cases kv)
  have "map_of xs a = None" using Cons.prems kv by (simp add: map_of_eq_None_iff)
  with Cons kv show ?case by (cases "k = a") simp_all
qed simp

lemma running_job:
  assumes "well_typed (job_json J) job_fits t" and "fmlookup t k = Some v"
  shows "is_running J v \<longleftrightarrow> (\<exists>j. decoded (job_json J) t k = Some j \<and> job_status j = RUNNING)"
  using assms(2) by (auto simp: is_running_def decoded_def)

text \<open>The sweep of a typed job table, as a function of the table.\<close>

lemma sweep_run:
  assumes ok: "codec_ok (job_json J)" and t: "well_typed (job_json J) job_fits (jobs s)"
  shows "if \<exists>k j. decoded (job_json J) (jobs s) k = Some j \<and> job_status j = RUNNING \<and> clock k = None
    then \<exists>e. cleanup_orphaned_jobs J clock s = Inl e
    else \<exists>n u. cleanup_orphaned_jobs J clock s = Inr (n, s\<lparr>jobs := u\<rparr>) \<and> well_typed (job_json J) job_fits u
      \<and> decoded (job_json J) u = (\<lambda>k. map_option (swept clock k) (decoded (job_json J) (jobs s) k))"
proof -
  let ?D = "decoded (job_json J) (jobs s)" and ?rows = "iter (jobs s)"
  have dec: "\<forall>(k, v) \<in> set ?rows. from_slice (job_json J) v \<noteq> None"
    using t by (fastforce simp: set_iter well_typed_def)
  have stuck: "(\<exists>(k, v) \<in> set ?rows. is_running J v \<and> clock k = None)
      \<longleftrightarrow> (\<exists>k j. ?D k = Some j \<and> job_status j = RUNNING \<and> clock k = None)"
    unfolding Bex_def split_paired_Ex set_iter by (auto simp: is_running_def decoded_def bind_eq_Some_conv)
  obtain b where b: "has_orphans J s = Inr b"
    using decoded_rows [OF t, of ?rows "\<lambda>_. True"] by (auto simp: has_orphans_def set_iter)
  have found: "b \<longleftrightarrow> (\<exists>k j. ?D k = Some j \<and> job_status j = RUNNING)"
    using has_orphans_iff(1) [OF b] by (auto simp: is_running_def decoded_def bind_eq_Some_conv)
  show ?thesis
  proof (cases "\<exists>k j. ?D k = Some j \<and> job_status j = RUNNING \<and> clock k = None")
    case True
    with found stuck b dec show ?thesis
      by (auto simp: cleanup_orphaned_jobs_def cleanup_write_def collect_orphans_run)
  next
    case False
    note readable = this
    show ?thesis
    proof (cases b)
      case False
      then have "map_option (swept clock k) (?D k) = ?D k" for k
        using found by (cases "?D k") (auto simp: swept_def)
      then show ?thesis using False b t readable
        by (auto simp: cleanup_orphaned_jobs_def intro!: exI [of _ "jobs s"])
    next
      case True
      let ?ups = "map (\<lambda>(k, v). (k, abort_job (the (clock k)) (the (from_slice (job_json J) v)))) (filter (\<lambda>(k, v). is_running J v) ?rows)"
      let ?u = "fold (\<lambda>(k, j) t. fmupd k (to_vec (job_json J) j) t) ?ups (jobs s)"
      have run: "cleanup_orphaned_jobs J clock s = Inr (length ?ups, s\<lparr>jobs := ?u\<rparr>)"
        using True b False stuck dec
        by (simp add: cleanup_orphaned_jobs_def cleanup_write_def collect_orphans_run case_prod_beta)
      have d: "distinct (map fst ?ups)" by (simp add: comp_def case_prod_beta distinct_map_filter)
      have look: "fmlookup ?u k = (case fmlookup (jobs s) k of None \<Rightarrow> None | Some v \<Rightarrow> if is_running J v
          then Some (to_vec (job_json J) (abort_job (the (clock k)) (the (from_slice (job_json J) v)))) else Some v)" for k
        unfolding fold_upd_lookup [OF d] map_of_filtered [OF distinct_iter] map_of_iter by (simp split: option.split)
      have row: "\<exists>j. from_slice (job_json J) v = Some j \<and> job_fits k j \<and> (is_running J v \<longleftrightarrow> job_status j = RUNNING)"
        if "fmlookup (jobs s) k = Some v" for k v
        using well_typedD [OF t that] by (auto simp: is_running_def)
      have "well_typed (job_json J) job_fits ?u"
        unfolding well_typed_def look using row ok
        by (fastforce simp: codec_ok_def job_fits_def abort_job_def split: option.splits if_splits)
      moreover have "decoded (job_json J) ?u k = map_option (swept clock k) (?D k)" for k
      proof (cases "fmlookup (jobs s) k")
        case (Some v)
        with row [OF Some] ok show ?thesis
          unfolding decoded_def look by (auto simp: swept_def codec_ok_def)
      qed (simp add: decoded_def look)
      ultimately show ?thesis using run False by auto
    qed
  qed
qed

interpretation jobs: simulation "run_job J" job_spec "job_map J" "jobs_typed J" for J
proof
  fix s c
  assume good: "jobs_typed J s"
  then have ok: "codec_ok (job_json J)" and t: "well_typed (job_json J) job_fits (jobs s)"
    by (simp_all add: jobs_typed_def codecs_ok_def)
  have "jobs_typed J (run_job J c s) \<and> job_map J (run_job J c s) = job_spec c (job_map J s)"
  proof (cases c)
    case (PutJob j)
    then show ?thesis using good ok unfolding jobs_typed_def job_map_def
      by (auto simp: run_job_def commit_or_drop_def put_job_def job_spec_def job_fits_def fun_eq_iff)
  next
    case (DeleteJob i)
    have "decoded (job_json J) (jobs s) i = None" if "\<not> key_ok i"
      using that t by (cases "fmlookup (jobs s) i") (auto simp: decoded_def well_typed_def job_fits_def)
    with DeleteJob show ?thesis using good unfolding jobs_typed_def job_map_def
      by (auto simp: run_job_def commit_or_drop_def delete_job_def job_spec_def fun_eq_iff elim: well_typed_sub split: if_splits)
  next
    case (Sweep clock)
    let ?stuck = "\<exists>k j. decoded (job_json J) (jobs s) k = Some j \<and> job_status j = RUNNING \<and> clock k = None"
    note run = sweep_run [OF ok t, of clock]
    have spec: "job_spec c (job_map J s) = (if ?stuck then job_map J s else (\<lambda>k. map_option (swept clock k) (job_map J s k)))"
      unfolding Sweep job_spec_def job_map_def by simp
    show ?thesis
    proof (cases ?stuck)
      case True
      with run obtain e where "cleanup_orphaned_jobs J clock s = Inl e" by (simp only: if_True) blast
      with True spec Sweep good show ?thesis by (simp add: run_job_def)
    next
      case False
      with run obtain n u where "cleanup_orphaned_jobs J clock s = Inr (n, s\<lparr>jobs := u\<rparr>)" "well_typed (job_json J) job_fits u"
        "decoded (job_json J) u = (\<lambda>k. map_option (swept clock k) (decoded (job_json J) (jobs s) k))"
        by (simp only: if_False) blast
      moreover have "job_spec c (job_map J s) = (\<lambda>k. map_option (swept clock k) (job_map J s k))"
        unfolding spec using False by (simp only: if_False)
      ultimately show ?thesis using Sweep good by (simp add: run_job_def jobs_typed_def job_map_def)
    qed
  qed
  then show "jobs_typed J (run_job J c s)" "job_map J (run_job J c s) = job_spec c (job_map J s)" by simp_all
qed

lemma get_job_map:
  assumes "jobs_typed J s" and "key_ok i"
  shows "get_job J i s = Inr (job_map J s i)"
proof -
  have "transposeR (decode (job_json J)) (fmlookup (jobs s) i) = Inr (decoded (job_json J) (jobs s) i)"
    using assms(1) unfolding jobs_typed_def by (blast intro: decoded_get)
  with assms(2) show ?thesis by (simp add: get_job_def job_map_def)
qed

lemma list_job_map:
  assumes typed: "jobs_typed J s" and pid: "\<forall>p. pid = Some p \<longrightarrow> key_ok p"
  shows "\<exists>xs. list_jobs J pid s = Inr xs \<and> set xs = {j. job_map J s (job_id j) = Some j \<and> (pid = None \<or> job_project_id j = pid)}
    \<and> sorted (map (\<lambda>j. - int (unat (job_updated_at_ms j))) xs) \<and> distinct (map job_id xs)"
proof -
  have t: "well_typed (job_json J) job_fits (jobs s)" using typed by (simp add: jobs_typed_def)
  obtain xs where xs: "traverseR (decode (job_json J)) (map snd (iter (jobs s))) = Inr xs"
      "list_all2 (\<lambda>x k. job_fits k x) xs (map fst (iter (jobs s)))" "set xs = {j. \<exists>k. decoded (job_json J) (jobs s) k = Some j}"
    using decoded_rows [OF t, of "iter (jobs s)" "\<lambda>_. True"] by (auto simp: set_iter)
  have "distinct (map job_id xs)"
    by (rule distinct_fits [OF xs(2) distinct_iter, of id]) (simp add: job_fits_def)
  moreover have "(\<exists>k. decoded (job_json J) (jobs s) k = Some j) \<longleftrightarrow> job_map J s (job_id j) = Some j" for j
    using t by (force simp: job_map_def decoded_def bind_eq_Some_conv well_typed_def job_fits_def)
  moreover have "(case pid of None \<Rightarrow> Inr () | Some p \<Rightarrow> vk ''project_id'' p) = Inr ()" using pid by (cases pid) auto
  ultimately show ?thesis
    using xs(1,3) by (auto simp: list_jobs_def distinct_map inj_on_def)
qed

end
