(* ===== verification/Store_Properties.thy ===== *)
theory Store_Properties
  imports Store_Refinement
begin

text \<open>
  The properties of the memory bank and of the job table as stores of typed values.
\<close>

section \<open>The memory bank is a map\<close>

lemma sections_typed_empty: "codecs_ok J \<Longrightarrow> sections_typed J empty_db"
  by (simp add: sections_typed_def empty_db_def)

lemma section_map_empty: "section_map J empty_db = (\<lambda>_. None)"
  by (auto simp: section_map_def empty_db_def decoded_def fun_eq_iff)

text \<open>
  C14. After any sequence of puts and deletes, the valid and the refused ones, the memory
  bank reads as the partial map that the same updates give: a read returns the map's value, and a
  project's list contains each of its sections once, ordered by title. No read fails.
\<close>

theorem memory_bank_refines_map:
  assumes "sections_typed J s" and "t = fold (run_section J) calls s" and "m = fold section_spec calls (section_map J s)"
    and "key_ok p" and "key_ok i"
  shows "get_memory_section J p i t = Inr (m (p, i))
    \<and> (\<exists>xs. list_memory_sections J p t = Inr xs \<and> set xs = {x. \<exists>i. m (p, i) = Some x}
      \<and> sorted (map section_title xs) \<and> distinct (map section_id xs))"
proof -
  have "sections_typed J t" "section_map J t = m"
    unfolding assms(2,3) using sections.good_calls [OF assms(1)] sections.sim_calls [OF assms(1)] by simp_all
  then show ?thesis using get_section_map [of J t p i] list_section_map [of J t p] assms(4,5) by auto
qed

theorem memory_bank_refines_map_witness:
  "get_memory_section J0 ''p'' ''n'' (fold (run_section J0)
      [PutSection ''p'' sample_section, PutSection '''' sample_section, DeleteSection ''q'' ''n''] empty_db) = Inr (Some sample_section)
    \<and> get_memory_section J0 ''p'' ''n'' (fold (run_section J0) [PutSection ''p'' sample_section, DeleteSection ''p'' ''n''] empty_db) = Inr None"
proof -
  have id: "section_id sample_section = ''n''" by (simp add: sample_section_def)
  have keys: "key_ok ''p''" "key_ok ''n''" "\<not> key_ok ''''" by (simp_all add: key_ok_def)
  note run = memory_bank_refines_map [OF sections_typed_empty [OF wire_codecs_ok] refl refl keys(1,2), THEN conjunct1]
  show ?thesis
    unfolding run section_map_empty by (simp add: id keys)
qed

section \<open>The job table is a map\<close>

lemma jobs_typed_empty: "codecs_ok J \<Longrightarrow> jobs_typed J empty_db"
  by (simp add: jobs_typed_def empty_db_def)

lemma job_map_empty: "job_map J empty_db = (\<lambda>_. None)"
  by (simp add: job_map_def empty_db_def decoded_def fun_eq_iff)

text \<open>
  C15. After any sequence of puts, deletes and start-up sweeps the job table reads as the
  partial map with the same updates, where a sweep aborts exactly the running jobs, at the time
  the clock gave for each, or fails as a whole if it gave none. Listings hold each matching job
  once, the most recently updated first. No read fails.
\<close>

theorem job_store_refines_map:
  assumes "jobs_typed J s" and "t = fold (run_job J) calls s" and "m = fold job_spec calls (job_map J s)"
    and "key_ok i" and "\<forall>p. pid = Some p \<longrightarrow> key_ok p"
  shows "get_job J i t = Inr (m i)
    \<and> (\<exists>xs. list_jobs J pid t = Inr xs
      \<and> set xs = {j. m (job_id j) = Some j \<and> (pid = None \<or> job_project_id j = pid)}
      \<and> sorted (map (\<lambda>j. - int (unat (job_updated_at_ms j))) xs) \<and> distinct (map job_id xs))"
proof -
  have "jobs_typed J t" "job_map J t = m"
    unfolding assms(2,3) using jobs.good_calls [OF assms(1)] jobs.sim_calls [OF assms(1)] by simp_all
  then show ?thesis using get_job_map [of J t i] list_job_map [of J t pid] assms(4,5) by auto
qed

theorem job_store_refines_map_witness:
  "get_job J0 ''j'' (fold (run_job J0) [PutJob running_job, Sweep (\<lambda>_. None), Sweep (\<lambda>_. Some 9)] empty_db)
    = Inr (Some (abort_job 9 running_job))"
proof -
  have job: "job_id running_job = ''j''" "job_status running_job = RUNNING" by (simp_all add: running_job_def)
  have key: "key_ok ''j''" by (simp add: key_ok_def)
  have none: "\<forall>p. (None :: string option) = Some p \<longrightarrow> key_ok p" by simp
  note run = job_store_refines_map [OF jobs_typed_empty [OF wire_codecs_ok] refl refl key none, THEN conjunct1]
  show ?thesis
    unfolding run job_map_empty by (simp add: job_spec_def job key swept_def)
qed

end
