(* ===== verification/Rule_Ownership.thy ===== *)
theory Rule_Ownership
  imports Rule_Receipt
begin

text \<open>
  The read-only ownership inventory of a project, its digests, and the budget an adoption must
  keep (\<open>registry/rule_ownership.rs\<close>).
\<close>

definition hash_value :: "(bytes \<Rightarrow> string) \<Rightarrow> bytes \<Rightarrow> bytes \<Rightarrow> string" where
  "hash_value h dom_tag stream = h (dom_tag @ stream)"

section \<open>The snapshot\<close>

definition copy_optional :: "bytes option \<Rightarrow> nat \<Rightarrow> (bytes option \<times> nat) res" where
  "copy_optional v remaining =
     (case v of None \<Rightarrow> Inr (None, remaining)
      | Some bs \<Rightarrow> bindR (copy_bounded bs remaining) (\<lambda>(c, rest). Inr (Some c, rest)))"

definition from_tables :: "string \<Rightarrow> table \<Rightarrow> table \<Rightarrow> table \<Rightarrow> rule_ownership_snapshot res" where
  "from_tables pid project_rows rule_rows metadata =
     bindR (ok_or (fmlookup project_rows pid) (Bail ''Ownership inventory project is missing'')) (\<lambda>project.
     bindR (copy_bounded project SNAPSHOT_BYTES) (\<lambda>(praw, rem1).
     bindR (copy_optional (fmlookup metadata (composite pid IDENTITY_EPOCH)) rem1) (\<lambda>(epoch, rem2).
     bindR (copy_optional (fmlookup metadata (composite pid ''quality_corpus_revision'')) rem2) (\<lambda>(corpus, rem3).
     bindR (collect_prefix rule_rows (pid @ [NUL]) '''' 2048 rem3) (\<lambda>(rules, rem4).
     bindR (collect_prefix metadata (composite pid RECEIPT_PREFIX) RECEIPT_PREFIX 256 rem4) (\<lambda>(receipts, _).
     Inr \<lparr> snap_project_id = pid, project_raw = praw, identity_epoch_raw = epoch, corpus_revision_raw = corpus,
           snap_rules = rules, snap_receipts = receipts \<rparr>))))))"

definition snapshot_rule_ownership :: "string \<Rightarrow> db \<Rightarrow> rule_ownership_snapshot res" where
  "snapshot_rule_ownership pid s =
     bindR (vk ''project_id'' pid) (\<lambda>_. from_tables pid (projects s) (repo_rules s) (meta s))"

definition snap_project :: "rule_codecs \<Rightarrow> rule_ownership_snapshot \<Rightarrow> project_record res" where
  "snap_project R snap =
     bindR (decode (project_json (registry_json R)) (project_raw snap)) (\<lambda>project.
     bindR (ensure (project_id project = snap_project_id snap) (Bail ''Ownership project identity mismatch'')) (\<lambda>_.
     Inr project))"

definition identity_epoch :: "rule_ownership_snapshot \<Rightarrow> u64 option res" where
  "identity_epoch snap =
     transposeR (\<lambda>v. bindR (from_utf8 v) (\<lambda>text.
                    bindR (ok_or (parse_u64 text) ParseIntError) (\<lambda>epoch.
                    bindR (ensure (0 < epoch) (Bail ''Ownership identity epoch is invalid'')) (\<lambda>_. Inr epoch))))
       (identity_epoch_raw snap)"

definition snapshot_digest :: "rule_codecs \<Rightarrow> (bytes \<Rightarrow> string) \<Rightarrow> rule_ownership_snapshot \<Rightarrow> string" where
  "snapshot_digest R h snap =
     hash_value h (''engram:rule-ownership-snapshot:v1'' @ [NUL]) (snapshot_bytes R snap)"

definition adoption_basis_of :: "project_record \<Rightarrow> rule_ownership_snapshot \<Rightarrow> adoption_basis" where
  "adoption_basis_of project snap =
     (snap_project_id snap, directory project, project_type project, identity_epoch_raw snap,
      corpus_revision_raw snap, snap_rules snap, snap_receipts snap)"

definition adoption_basis_digest :: "rule_codecs \<Rightarrow> (bytes \<Rightarrow> string) \<Rightarrow> rule_ownership_snapshot \<Rightarrow> string res" where
  "adoption_basis_digest R h snap =
     bindR (snap_project R snap) (\<lambda>project.
     bindR (identity_epoch snap) (\<lambda>epoch.
     bindR (ensure (epoch \<noteq> None)
              (Bail ''A valid existing project identity epoch is required before adoption; establish identity then recollect'')) (\<lambda>_.
     Inr (hash_value h (''engram:rule-adoption-basis:v1'' @ [NUL]) (basis_bytes R (adoption_basis_of project snap))))))"

section \<open>The adoption budget\<close>

definition admit :: "string \<Rightarrow> bytes \<Rightarrow> nat \<Rightarrow> nat res" where
  "admit key raw remaining =
     bindR (ensure (length raw \<le> VALUE_BYTES \<and> length key \<le> remaining)
              (Bail ''Resulting ownership inventory exceeds its read budget; no rows adopted'')) (\<lambda>_.
     bindR (ensure (length raw \<le> remaining - length key)
              (Bail ''Resulting ownership inventory exceeds its read budget; no rows adopted'')) (\<lambda>_.
     Inr (remaining - length key - length raw)))"

fun admit_rows :: "(string \<times> bytes) list \<Rightarrow> nat \<Rightarrow> nat res" where
  "admit_rows [] remaining = Inr remaining"
| "admit_rows ((key, raw) # rows) remaining = bindR (admit key raw remaining) (admit_rows rows)"

definition admit_optional :: "bytes option \<Rightarrow> nat \<Rightarrow> nat res" where
  "admit_optional v remaining = (case v of None \<Rightarrow> Inr remaining | Some raw \<Rightarrow> admit '''' raw remaining)"

definition replaced_rows :: "table \<Rightarrow> (string \<times> bytes) list \<Rightarrow> (string \<times> bytes) list" where
  "replaced_rows rows olds =
     map (\<lambda>(key, raw). (key, case fmlookup rows key of Some new \<Rightarrow> new | None \<Rightarrow> raw)) olds"

definition check_adoption_budget :: "rule_ownership_snapshot \<Rightarrow> table \<Rightarrow> string \<Rightarrow> bytes \<Rightarrow> unit res" where
  "check_adoption_budget snap rows receipt_key receipt =
     bindR (admit '''' (project_raw snap) SNAPSHOT_BYTES) (\<lambda>rem1.
     bindR (admit_optional (identity_epoch_raw snap) rem1) (\<lambda>rem2.
     bindR (admit_optional (corpus_revision_raw snap) rem2) (\<lambda>rem3.
     bindR (admit_rows (replaced_rows rows (iter (snap_rules snap))) rem3) (\<lambda>rem4.
     bindR (ensure (table_len (snap_receipts snap) + (if fmlookup (snap_receipts snap) receipt_key = None then 1 else 0) \<le> 256)
              (Bail ''Resulting ownership inventory exceeds receipt count budget; no rows adopted'')) (\<lambda>_.
     bindR (admit_rows (filter (\<lambda>(key, raw). key \<noteq> receipt_key) (iter (snap_receipts snap))) rem4) (\<lambda>rem5.
     bindR (admit receipt_key receipt rem5) (\<lambda>_. Inr ())))))))"

end
