(* ===== verification/Rule_Adoption.thy ===== *)
theory Rule_Adoption
  imports Rule_Ownership Rules
begin

text \<open>
  The reviewed adoption of legacy rule rows by a source (\<open>registry/rule_adoption.rs\<close>): the
  preparation from a snapshot, which computes every row, the receipt and the audit entry without
  touching the database, and the transaction that writes them if the ownership basis is unchanged.
\<close>

section \<open>Decision references\<close>

text \<open>
  \<open>decision_ref.trim().is_empty()\<close>: the text consists of white space, which is U+0009 to U+000D,
  U+0020, U+0085, U+00A0, U+1680, U+2000 to U+200A, U+2028, U+2029, U+202F, U+205F and U+3000.
\<close>

definition wide_space :: "nat \<Rightarrow> nat \<Rightarrow> nat \<Rightarrow> bool" where
  "wide_space a b c \<longleftrightarrow> (a = 0xE1 \<and> b = 0x9A \<and> c = 0x80)
     \<or> (a = 0xE2 \<and> b = 0x80 \<and> (0x80 \<le> c \<and> c \<le> 0x8A \<or> c \<in> {0xA8, 0xA9, 0xAF}))
     \<or> (a = 0xE2 \<and> b = 0x81 \<and> c = 0x9F) \<or> (a = 0xE3 \<and> b = 0x80 \<and> c = 0x80)"

fun blank :: "string \<Rightarrow> bool" where
  "blank [] = True"
| "blank [c] \<longleftrightarrow> byte c = 32 \<or> 9 \<le> byte c \<and> byte c \<le> 13"
| "blank [c, d] =
     (if byte c = 32 \<or> 9 \<le> byte c \<and> byte c \<le> 13 then blank [d] else byte c = 0xC2 \<and> byte d \<in> {0x85, 0xA0})"
| "blank (c # d # e # cs) =
     (if byte c = 32 \<or> 9 \<le> byte c \<and> byte c \<le> 13 then blank (d # e # cs)
      else if byte c = 0xC2 \<and> byte d \<in> {0x85, 0xA0} then blank (e # cs)
      else wide_space (byte c) (byte d) (byte e) \<and> blank cs)"

section \<open>Preparation\<close>

record prepared_adoption =
  pr_rows :: table
  pr_receipt_key :: string
  pr_receipt :: bytes
  pr_audit_key :: string
  pr_audit :: bytes
  pr_outcome :: legacy_adoption_outcome

definition plan_digest :: "rule_codecs \<Rightarrow> (bytes \<Rightarrow> string) \<Rightarrow> legacy_adoption_plan \<Rightarrow> rule_ownership_snapshot \<Rightarrow> string res" where
  "plan_digest R h plan expected =
     bindR (adoption_basis_digest R h expected) (\<lambda>basis.
     Inr (hash_value h (''engram:reviewed-legacy-adoption:v1'' @ [NUL]) (adoption_bytes R (basis, plan))))"

definition check_plan :: "legacy_adoption_plan \<Rightarrow> string \<Rightarrow> unit res" where
  "check_plan plan decision_ref =
     bindR (ensure (valid_origin (ap_origin plan) \<and> valid_hash (ap_source_blake3 plan))
              (Bail ''Invalid adoption source identity'')) (\<lambda>_.
     bindR (ensure (\<not> blank decision_ref \<and> length decision_ref \<le> 2048)
              (Bail ''An explicit bounded decision reference is required'')) (\<lambda>_.
     ensure (ap_bindings plan \<noteq> [] \<and> length (ap_bindings plan) \<le> 32)
       (Bail ''Adoption requires 1..32 explicit row mappings'')))"

definition settled_receipt :: "rule_codecs \<Rightarrow> (bytes \<Rightarrow> string) \<Rightarrow> string \<times> bytes \<Rightarrow> (string \<times> rule_source_receipt) res" where
  "settled_receipt R h kv =
     bindR (decode_receipt R h (fst kv) (snd kv)) (\<lambda>receipt.
     bindR (ensure (\<not> receipt_pending receipt)
              (Bail (''Pending source `'' @ receipt_origin receipt @ ''` must be resolved before adoption''))) (\<lambda>_.
     Inr (fst kv, receipt)))"

definition new_receipt :: "legacy_adoption_plan \<Rightarrow> string \<Rightarrow> rule_source_receipt" where
  "new_receipt plan corpus =
     \<lparr> receipt_origin = ap_origin plan, source_hash = ap_source_blake3 plan, authored = ap_authored plan,
       receipt_pending = False, doc_ids = [], receipt_rules = [], cleanup = [], corpus_revision = corpus,
       legacy_aliases = [] \<rparr>"

definition check_owned :: "rule_codecs \<Rightarrow> rule_ownership_snapshot \<Rightarrow> repo_rule \<Rightarrow> unit res" where
  "check_owned R expected owned =
     bindR (ok_or (fmlookup (snap_rules expected) (rule_id owned)) (Bail ''Source-owned row is missing'')) (\<lambda>raw.
     bindR (decode (rule_json R) raw) (\<lambda>actual.
     ensure (actual = owned) (Bail (''Source-owned row `'' @ rule_id owned @ ''` was changed; resolve before adoption''))))"

definition base_receipt ::
  "rule_codecs \<Rightarrow> rule_ownership_snapshot \<Rightarrow> legacy_adoption_plan \<Rightarrow> string
     \<Rightarrow> (string \<times> rule_source_receipt) list \<Rightarrow> rule_source_receipt res" where
  "base_receipt R expected plan key receipts =
     bindR (transposeR from_utf8 (corpus_revision_raw expected)) (\<lambda>raw_corpus.
     let corpus = (case raw_corpus of None \<Rightarrow> '''' | Some c \<Rightarrow> c);
         receipt = (case map_of receipts key of Some r \<Rightarrow> r | None \<Rightarrow> new_receipt plan corpus) in
     bindR (ensure (authored receipt = ap_authored plan \<and> source_hash receipt = ap_source_blake3 plan)
              (Bail ''Existing source identity or fingerprint differs; refresh/review that source before adoption'')) (\<lambda>_.
     bindR (ensure (corpus_revision receipt = corpus)
              (Bail ''Search corpus changed since source publication; reconcile before adoption'')) (\<lambda>_.
     bindR (traverseR (check_owned R expected) (receipt_rules receipt)) (\<lambda>_.
     Inr receipt))))"

section \<open>One mapping\<close>

record adoption_state =
  as_receipt :: rule_source_receipt
  as_ids :: "string list"
  as_sources :: "string list"
  as_rows :: table
  as_changes :: "json list"
  as_budget :: nat

definition manual_rule :: "repo_rule \<Rightarrow> bool" where
  "manual_rule old \<longleftrightarrow> provenance old \<in> {Some ''manual'', Some ''user-authored'', Some ''manual repository rule''}"

definition claims_rule :: "rule_source_receipt \<Rightarrow> string \<Rightarrow> bool" where
  "claims_rule receipt rid \<longleftrightarrow> (\<exists>r \<in> set (receipt_rules receipt). rule_id r = rid)"

definition adoption_row ::
  "rule_codecs \<Rightarrow> (bytes \<Rightarrow> string) \<Rightarrow> rule_ownership_snapshot \<Rightarrow> legacy_adoption_binding \<Rightarrow> adoption_state \<Rightarrow> (bytes \<times> repo_rule) res" where
  "adoption_row R h expected binding st =
     bindR (ensure (length (ab_source_projection_json binding) \<le> as_budget st)
              (Bail ''Complete adoption projections exceed 2 MiB; no rows adopted'')) (\<lambda>_.
     bindR (vk ''rule_id'' (ab_rule_id binding)) (\<lambda>_.
     bindR (ensure (ab_rule_id binding \<notin> set (as_ids st) \<and> ab_source_rule_id binding \<notin> set (as_sources st))
              (Bail ''Duplicate adoption mapping'')) (\<lambda>_.
     bindR (ensure (ab_rule_id binding \<notin> alias_rule_id ` set (legacy_aliases (as_receipt st)))
              (Bail ''Rule already has a legacy source binding; review its update separately'')) (\<lambda>_.
     bindR (ok_or (fmlookup (snap_rules expected) (ab_rule_id binding)) (Bail ''Adoption row is missing'')) (\<lambda>raw.
     bindR (ensure (h raw = ab_expected_raw_blake3 binding) (Bail ''Adoption row fingerprint changed'')) (\<lambda>_.
     bindR (decode (rule_json R) raw) (\<lambda>old.
     bindR (ensure (rule_id old = ab_rule_id binding) (Bail ''Rule key/value identity mismatch'')) (\<lambda>_.
     Inr (raw, old)))))))))"

text \<open>Who may adopt the row: its own source, never a foreign one, a manual row only by transfer.\<close>

definition check_adoptable ::
  "string \<Rightarrow> string \<Rightarrow> (string \<times> rule_source_receipt) list \<Rightarrow> legacy_adoption_decision \<Rightarrow> repo_rule \<Rightarrow> unit res" where
  "check_adoptable origin key receipts decision old =
     bindR (case rule_source old of
              None \<Rightarrow> Inr ()
            | Some declared \<Rightarrow>
                bindR (ensure (declared = origin)
                         (Bail ''A declared foreign source cannot be overridden by legacy adoption'')) (\<lambda>_.
                ensure (case map_of receipts key of None \<Rightarrow> True | Some r \<Rightarrow> \<not> claims_rule r (rule_id old))
                  (Bail ''Rule already has a source ownership claim; review its lifecycle separately''))) (\<lambda>_.
     bindR (ensure (manual_rule old \<longleftrightarrow> decision = TransferManual)
              (Bail ''Manual ownership requires its explicit transfer decision'')) (\<lambda>_.
     case find (\<lambda>(k, r). k \<noteq> key \<and> claims_rule r (rule_id old)) receipts of
       None \<Rightarrow> Inr ()
     | Some (k, r) \<Rightarrow> Inl (Bail (''Rule `'' @ rule_id old @ ''` is claimed by foreign source `'' @ receipt_origin r
         @ ''`; no rules adopted''))))"

text \<open>The row with its provenance field replaced; the decoded rule may differ in nothing else.\<close>

definition adopt_bytes :: "rule_codecs \<Rightarrow> string \<Rightarrow> bytes \<Rightarrow> repo_rule \<Rightarrow> (bytes \<times> repo_rule) res" where
  "adopt_bytes R origin raw old =
     bindR (decode (object_json R) raw) (\<lambda>object.
     let replacement = to_vec (object_json R) (fmupd ''provenance'' (raw_string R (SOURCE_PROVENANCE @ origin)) object) in
     bindR (ensure (length replacement \<le> 4 * 1024 * 1024) (Bail ''Adopted row exceeds storage budget'')) (\<lambda>_.
     bindR (decode (rule_json R) replacement) (\<lambda>new.
     bindR (ensure (new\<lparr>provenance := provenance old\<rparr> = old) (Bail ''Adoption may change only provenance'')) (\<lambda>_.
     Inr (replacement, new)))))"

definition decision_json :: "legacy_adoption_decision \<Rightarrow> json" where
  "decision_json d = JString (case d of AdoptUnverified \<Rightarrow> ''adopt_unverified'' | TransferManual \<Rightarrow> ''transfer_manual'')"

definition change_json :: "(bytes \<Rightarrow> string) \<Rightarrow> legacy_adoption_binding \<Rightarrow> repo_rule \<Rightarrow> bytes \<Rightarrow> json" where
  "change_json h binding old replacement =
     jobj [(''rule_id'', JString (rule_id old)), (''before_blake3'', JString (ab_expected_raw_blake3 binding)),
           (''after_blake3'', JString (h replacement)), (''source_rule_id'', JString (ab_source_rule_id binding)),
           (''source_projection_blake3'', JString (h (ab_source_projection_json binding))),
           (''decision'', decision_json (ab_decision binding))]"

definition adoption_alias :: "(bytes \<Rightarrow> string) \<Rightarrow> legacy_adoption_binding \<Rightarrow> repo_rule \<Rightarrow> legacy_rule_alias" where
  "adoption_alias h binding old =
     \<lparr> alias_rule_id = rule_id old, alias_source_rule_id = ab_source_rule_id binding,
       alias_projection_json = ab_source_projection_json binding,
       alias_projection_blake3 = h (ab_source_projection_json binding) \<rparr>"

definition adopt_binding ::
  "rule_codecs \<Rightarrow> (bytes \<Rightarrow> string) \<Rightarrow> rule_ownership_snapshot \<Rightarrow> string \<Rightarrow> string \<Rightarrow> (string \<times> rule_source_receipt) list
     \<Rightarrow> legacy_adoption_binding \<Rightarrow> adoption_state \<Rightarrow> adoption_state res" where
  "adopt_binding R h expected origin key receipts binding st =
     bindR (adoption_row R h expected binding st) (\<lambda>(raw, old).
     bindR (check_adoptable origin key receipts (ab_decision binding) old) (\<lambda>_.
     bindR (adopt_bytes R origin raw old) (\<lambda>(replacement, new).
     let receipt = as_receipt st in
     Inr \<lparr> as_receipt = receipt\<lparr>
             receipt_rules := filter (\<lambda>r. rule_id r \<noteq> rule_id new) (receipt_rules receipt) @ [new],
             legacy_aliases := legacy_aliases receipt @ [adoption_alias h binding old]\<rparr>,
           as_ids = ab_rule_id binding # as_ids st,
           as_sources = ab_source_rule_id binding # as_sources st,
           as_rows = fmupd (ab_rule_id binding) replacement (as_rows st),
           as_changes = as_changes st @ [change_json h binding old replacement],
           as_budget = as_budget st - length (ab_source_projection_json binding) \<rparr>)))"

fun adopt_bindings ::
  "rule_codecs \<Rightarrow> (bytes \<Rightarrow> string) \<Rightarrow> rule_ownership_snapshot \<Rightarrow> string \<Rightarrow> string \<Rightarrow> (string \<times> rule_source_receipt) list
     \<Rightarrow> legacy_adoption_binding list \<Rightarrow> adoption_state \<Rightarrow> adoption_state res" where
  "adopt_bindings R h expected origin key receipts [] st = Inr st"
| "adopt_bindings R h expected origin key receipts (b # bs) st =
     bindR (adopt_binding R h expected origin key receipts b st) (adopt_bindings R h expected origin key receipts bs)"

section \<open>The prepared transition\<close>

definition adoption_audit ::
  "rule_codecs \<Rightarrow> legacy_adoption_plan \<Rightarrow> string \<Rightarrow> string \<Rightarrow> string \<Rightarrow> json list \<Rightarrow> bytes res" where
  "adoption_audit R plan plan_hash basis decision_ref changes =
     (let audit = to_vec (value_json R) (jobj [(''version'', JInt 1), (''plan_blake3'', JString plan_hash),
            (''ownership_basis_blake3'', JString basis), (''source'', JString (ap_origin plan)),
            (''source_blake3'', JString (ap_source_blake3 plan)), (''decision_ref'', JString decision_ref),
            (''changes'', JArray changes), (''searchable_evidence_published'', JBool False)]) in
      bindR (ensure (length audit \<le> 256 * 1024) (Bail ''Adoption audit exceeds storage budget'')) (\<lambda>_. Inr audit))"

definition finish_adoption ::
  "rule_codecs \<Rightarrow> (bytes \<Rightarrow> string) \<Rightarrow> rule_ownership_snapshot \<Rightarrow> legacy_adoption_plan \<Rightarrow> string \<Rightarrow> string
     \<Rightarrow> adoption_state \<Rightarrow> prepared_adoption res" where
  "finish_adoption R h expected plan decision_ref key st =
     bindR (validate_receipt R h (as_receipt st) key) (\<lambda>_.
     bindR (encode_receipt R (as_receipt st)) (\<lambda>receipt.
     bindR (check_adoption_budget expected (as_rows st) key receipt) (\<lambda>_.
     bindR (ensure (length receipt \<le> 4 * 1024 * 1024) (Bail ''Adoption receipt exceeds storage budget'')) (\<lambda>_.
     bindR (plan_digest R h plan expected) (\<lambda>plan_hash.
     let audit_key = ''quality_adoption:'' @ plan_hash in
     bindR (adoption_basis_digest R h expected) (\<lambda>basis.
     bindR (adoption_audit R plan plan_hash basis decision_ref (as_changes st)) (\<lambda>audit.
     Inr \<lparr> pr_rows = as_rows st, pr_receipt_key = key, pr_receipt = receipt, pr_audit_key = audit_key, pr_audit = audit,
           pr_outcome = \<lparr> ao_audit_key = audit_key, ao_plan_blake3 = plan_hash, ao_receipt_blake3 = h receipt,
             ao_adopted_rule_ids = map fst (iter (as_rows st)), ao_searchable_evidence_published = False \<rparr> \<rparr>)))))))"

definition prepare_adoption ::
  "rule_codecs \<Rightarrow> (bytes \<Rightarrow> string) \<Rightarrow> rule_ownership_snapshot \<Rightarrow> legacy_adoption_plan \<Rightarrow> string \<Rightarrow> prepared_adoption res" where
  "prepare_adoption R h expected plan decision_ref =
     bindR (adoption_basis_digest R h expected) (\<lambda>_.
     bindR (check_plan plan decision_ref) (\<lambda>_.
     let key = source_key h (ap_origin plan) in
     bindR (traverseR (settled_receipt R h) (iter (snap_receipts expected))) (\<lambda>receipts.
     bindR (base_receipt R expected plan key receipts) (\<lambda>receipt.
     bindR (adopt_bindings R h expected (ap_origin plan) key receipts (ap_bindings plan)
              \<lparr> as_receipt = receipt, as_ids = [], as_sources = map alias_source_rule_id (legacy_aliases receipt),
                as_rows = fmempty, as_changes = [], as_budget = 2 * 1024 * 1024 \<rparr>) (\<lambda>st.
     finish_adoption R h expected plan decision_ref key st)))))"

definition preview_legacy_repo_rule_adoption ::
  "rule_codecs \<Rightarrow> (bytes \<Rightarrow> string) \<Rightarrow> rule_ownership_snapshot \<Rightarrow> legacy_adoption_plan \<Rightarrow> string \<Rightarrow> legacy_adoption_outcome res" where
  "preview_legacy_repo_rule_adoption R h expected plan decision_ref =
     bindR (prepare_adoption R h expected plan decision_ref) (\<lambda>p. Inr (pr_outcome p))"

section \<open>The transaction\<close>

definition put_rows :: "string \<Rightarrow> (string \<times> bytes) list \<Rightarrow> table \<Rightarrow> table" where
  "put_rows pid rows t = fold (\<lambda>(rid, raw). fmupd (composite pid rid) raw) rows t"

definition commit_legacy_adoption ::
  "rule_codecs \<Rightarrow> (bytes \<Rightarrow> string) \<Rightarrow> rule_ownership_snapshot \<Rightarrow> prepared_adoption \<Rightarrow> bool \<Rightarrow> legacy_adoption_outcome tx" where
  "commit_legacy_adoption R h expected prepared fail_after_rows s =
     (let pid = snap_project_id expected in
      bindR (from_tables pid (projects s) (repo_rules s) (meta s)) (\<lambda>current.
      bindR (adoption_basis_digest R h current) (\<lambda>current_basis.
      bindR (adoption_basis_digest R h expected) (\<lambda>expected_basis.
      bindR (ensure (current_basis = expected_basis)
               (Bail ''Ownership basis changed; no rules adopted, recollect and review'')) (\<lambda>_.
      bindR (ensure (fmlookup (meta s) (composite pid (pr_audit_key prepared)) = None)
               (Bail ''This adoption decision was already recorded; no audit overwritten'')) (\<lambda>_.
      let s1 = s\<lparr>repo_rules := put_rows pid (iter (pr_rows prepared)) (repo_rules s)\<rparr> in
      bindR (ensure (\<not> fail_after_rows) (Bail ''Injected interruption before adoption receipt/audit publication'')) (\<lambda>_.
      let s2 = put_meta (composite pid (pr_audit_key prepared)) (pr_audit prepared)
                 (put_meta (composite pid (pr_receipt_key prepared)) (pr_receipt prepared) s1) in
      bindR (from_tables pid (projects s2) (repo_rules s2) (meta s2)) (\<lambda>_.
      Inr (pr_outcome prepared, s2)))))))))"

definition adopt_legacy_repo_rules ::
  "rule_codecs \<Rightarrow> (bytes \<Rightarrow> string) \<Rightarrow> rule_ownership_snapshot \<Rightarrow> legacy_adoption_plan \<Rightarrow> string \<Rightarrow> legacy_adoption_outcome tx" where
  "adopt_legacy_repo_rules R h expected plan decision_ref s =
     bindR (prepare_adoption R h expected plan decision_ref) (\<lambda>prepared.
     commit_legacy_adoption R h expected prepared False s)"

end
