(* ===== verification/Rule_Alias_Review.thy ===== *)
theory Rule_Alias_Review
  imports Rule_Adoption
begin

text \<open>
  The review of adopted aliases (\<open>registry/rule_alias_review.rs\<close>): an alias is rebound to another
  parser entry of unchanged policy, or its rule is retired; the receipt then waits for a new
  import of its source.
\<close>

section \<open>Audit values\<close>

definition alias_value :: "legacy_rule_alias \<Rightarrow> json" where
  "alias_value a = jobj [(''rule_id'', JString (alias_rule_id a)), (''source_rule_id'', JString (alias_source_rule_id a)),
     (''source_projection_json'', JString (alias_projection_json a)),
     (''source_projection_blake3'', JString (alias_projection_blake3 a))]"

definition action_value :: "alias_review_action \<Rightarrow> json" where
  "action_value act = (case act of
       RebindOnlyUnchanged sid \<Rightarrow> jobj [(''action'', JString ''rebind_only_unchanged''), (''source_rule_id'', JString sid)]
     | Retire \<Rightarrow> jobj [(''action'', JString ''retire'')])"

definition source_value :: "alias_review_source \<Rightarrow> json" where
  "source_value src = (case src of
       Present b \<Rightarrow> jobj [(''state'', JString ''present''), (''blake3'', JString b)]
     | Missing \<Rightarrow> jobj [(''state'', JString ''missing'')])"

definition project_value :: "project_record \<Rightarrow> json" where
  "project_value p = jobj [(''project_id'', JString (project_id p)), (''project_name'', JString (project_name p)),
     (''project_type'', JString (project_type p)), (''directory'', JString (directory p)),
     (''created_at_ms'', ju64 (project_created_at_ms p)), (''updated_at_ms'', ju64 (project_updated_at_ms p)),
     (''reindex_required_since_ms'', jopt ju64 (reindex_required_since_ms p))]"

section \<open>Policies\<close>

text \<open>A projection without its parser identity.\<close>

definition policy :: "rule_codecs \<Rightarrow> string \<Rightarrow> string \<Rightarrow> json res" where
  "policy R raw origin =
     bindR (decode (value_json R) raw) (\<lambda>v.
     bindR (ok_or (as_object v) (Bail ''Invalid source projection'')) (\<lambda>object.
     bindR (ensure (Option.bind (fmlookup object ''id'') as_str \<noteq> None
                    \<and> Option.bind (fmlookup object ''source'') as_str = Some origin)
              (Bail ''Source projection identity differs from reviewed origin'')) (\<lambda>_.
     Inr (JObject (fmdrop ''id'' object)))))"

type_synonym projections = "(string, string \<times> json) fmap"

fun current_policies :: "rule_codecs \<Rightarrow> string \<Rightarrow> string list \<Rightarrow> projections \<Rightarrow> projections res" where
  "current_policies R origin [] acc = Inr acc"
| "current_policies R origin (raw # raws) acc =
     bindR (decode (value_json R) raw) (\<lambda>v.
     bindR (ok_or (Option.bind (json_get ''id'' v) as_str) (Bail ''Source entry has no ID'')) (\<lambda>sid.
     bindR (policy R raw origin) (\<lambda>semantic.
     bindR (ensure (fmlookup acc sid = None) (Bail ''Current parser identities are ambiguous'')) (\<lambda>_.
     current_policies R origin raws (fmupd sid (raw, semantic) acc)))))"

section \<open>Preparation\<close>

text \<open>The projection lengths are summed with \<open>checked_add\<close>.\<close>

definition check_review :: "alias_review_plan \<Rightarrow> string \<Rightarrow> unit res" where
  "check_review plan decision_ref =
     bindR (validate_origin (rp_origin plan)) (\<lambda>_.
     bindR (ensure (\<not> blank decision_ref \<and> length decision_ref \<le> 2048)
              (Bail ''An explicit bounded caller decision reference is required'')) (\<lambda>_.
     bindR (ensure (rp_bindings plan \<noteq> [] \<and> length (rp_bindings plan) \<le> 32) (Bail ''Select 1..32 alias dispositions'')) (\<lambda>_.
     bindR (ensure (length (rp_current_projections plan) \<le> 512
                    \<and> (case foldl (\<lambda>n p. Option.bind n (\<lambda>m. usize_add m (length p))) (Some 0) (rp_current_projections plan) of
                         None \<Rightarrow> False | Some used \<Rightarrow> used \<le> 4 * 1024 * 1024))
              (Bail ''Current source projections exceed the review budget'')) (\<lambda>_.
     case rp_source plan of
       Present b \<Rightarrow> ensure (valid_hash b) (Bail ''Invalid current source fingerprint'')
     | Missing \<Rightarrow> ensure (rp_current_projections plan = [] \<and> (\<forall>b \<in> set (rp_bindings plan). rb_disposition b = Retire))
         (Bail ''An absent source permits retirement only'')))))"

definition check_source_owned :: "rule_codecs \<Rightarrow> rule_ownership_snapshot \<Rightarrow> string \<Rightarrow> repo_rule \<Rightarrow> unit res" where
  "check_source_owned R expected origin owned =
     bindR (ok_or (fmlookup (snap_rules expected) (rule_id owned)) (Bail ''Source-owned row is missing'')) (\<lambda>raw.
     bindR (decode (rule_json R) raw) (\<lambda>actual.
     ensure (actual = owned \<and> provenance actual = Some (SOURCE_PROVENANCE @ origin))
       (Bail ''Source-owned row changed; recollect exact ownership evidence'')))"

record review_state =
  rs_selected :: "string list"
  rs_remove :: "string list"
  rs_rebound :: "string list"
  rs_replacements :: "legacy_rule_alias list"
  rs_changes :: "json list"

definition review_row ::
  "rule_codecs \<Rightarrow> (bytes \<Rightarrow> string) \<Rightarrow> rule_ownership_snapshot \<Rightarrow> rule_source_receipt \<Rightarrow> string
     \<Rightarrow> (string \<times> rule_source_receipt) list \<Rightarrow> alias_review_binding \<Rightarrow> string list \<Rightarrow> (bytes \<times> legacy_rule_alias) res" where
  "review_row R h expected receipt key receipts binding selected =
     bindR (vk ''rule_id'' (rb_rule_id binding)) (\<lambda>_.
     bindR (ensure (rb_rule_id binding \<notin> set selected) (Bail ''Duplicate alias disposition'')) (\<lambda>_.
     bindR (ok_or (fmlookup (snap_rules expected) (rb_rule_id binding)) (Bail ''Selected row is missing'')) (\<lambda>raw.
     bindR (ensure (h raw = rb_expected_raw_blake3 binding) (Bail ''Selected raw row changed'')) (\<lambda>_.
     bindR (ok_or (find (\<lambda>a. alias_rule_id a = rb_rule_id binding) (legacy_aliases receipt))
              (Bail ''Selected row has no adopted alias'')) (\<lambda>a.
     bindR (ensure (h (to_vec (alias_json R) a) = rb_expected_alias_blake3 binding) (Bail ''Selected alias changed'')) (\<lambda>_.
     bindR (ensure (\<forall>(k, r) \<in> set receipts. k = key \<or> \<not> claims_rule r (rb_rule_id binding))
              (Bail ''Selected row has a competing source claim'')) (\<lambda>_.
     Inr (raw, a))))))))"

definition review_action ::
  "(bytes \<Rightarrow> string) \<Rightarrow> projections \<Rightarrow> legacy_rule_alias \<Rightarrow> json \<Rightarrow> alias_review_action \<Rightarrow> legacy_rule_alias option res" where
  "review_action h current a old_policy act =
     (case act of
        RebindOnlyUnchanged sid \<Rightarrow>
          bindR (ok_or (fmlookup current sid) (Bail ''Reviewed target parser entry is missing'')) (\<lambda>(projection, semantic).
          bindR (ensure (semantic = old_policy)
                   (Bail ''Rebinding cannot change policy text, scope, category, severity, origin or any other projection field'')) (\<lambda>_.
          bindR (ensure (sid \<noteq> alias_source_rule_id a) (Bail ''Parser identity is unchanged; no lifecycle mutation is needed'')) (\<lambda>_.
          Inr (Some \<lparr> alias_rule_id = alias_rule_id a, alias_source_rule_id = sid, alias_projection_json = projection,
                       alias_projection_blake3 = h projection \<rparr>))))
      | Retire \<Rightarrow>
          bindR (ensure (\<forall>(_, v) \<in> fmran' current. v \<noteq> old_policy)
                   (Bail ''The unchanged policy still exists in the source; rebind it rather than retire its ownership'')) (\<lambda>_.
          Inr None))"

definition review_change :: "alias_review_binding \<Rightarrow> string \<Rightarrow> legacy_rule_alias \<Rightarrow> legacy_rule_alias option \<Rightarrow> string list \<Rightarrow> json" where
  "review_change binding raw a next_alias removed =
     jobj [(''rule_id'', JString (rb_rule_id binding)), (''disposition'', action_value (rb_disposition binding)),
           (''before_raw_utf8'', JString raw), (''before_raw_blake3'', JString (rb_expected_raw_blake3 binding)),
           (''before_alias'', alias_value a), (''before_alias_blake3'', JString (rb_expected_alias_blake3 binding)),
           (''after_alias'', jopt alias_value next_alias), (''row_deleted'', JBool (rb_rule_id binding \<in> set removed))]"

definition review_binding ::
  "rule_codecs \<Rightarrow> (bytes \<Rightarrow> string) \<Rightarrow> rule_ownership_snapshot \<Rightarrow> string \<Rightarrow> rule_source_receipt \<Rightarrow> string
     \<Rightarrow> (string \<times> rule_source_receipt) list \<Rightarrow> projections \<Rightarrow> alias_review_binding \<Rightarrow> review_state \<Rightarrow> review_state res" where
  "review_binding R h expected origin receipt key receipts current binding st =
     bindR (review_row R h expected receipt key receipts binding (rs_selected st)) (\<lambda>(raw, a).
     bindR (policy R (alias_projection_json a) origin) (\<lambda>old_policy.
     bindR (review_action h current a old_policy (rb_disposition binding)) (\<lambda>next_alias.
     let removed = (case next_alias of None \<Rightarrow> rb_rule_id binding # rs_remove st | Some _ \<Rightarrow> rs_remove st) in
     bindR (from_utf8 raw) (\<lambda>text.
     Inr \<lparr> rs_selected = rb_rule_id binding # rs_selected st, rs_remove = removed,
           rs_rebound = rs_rebound st @ (case next_alias of None \<Rightarrow> [] | Some _ \<Rightarrow> [rb_rule_id binding]),
           rs_replacements = rs_replacements st @ (case next_alias of None \<Rightarrow> [] | Some n \<Rightarrow> [n]),
           rs_changes = rs_changes st @ [review_change binding text a next_alias removed] \<rparr>))))"

fun review_bindings ::
  "rule_codecs \<Rightarrow> (bytes \<Rightarrow> string) \<Rightarrow> rule_ownership_snapshot \<Rightarrow> string \<Rightarrow> rule_source_receipt \<Rightarrow> string
     \<Rightarrow> (string \<times> rule_source_receipt) list \<Rightarrow> projections \<Rightarrow> alias_review_binding list \<Rightarrow> review_state \<Rightarrow> review_state res" where
  "review_bindings R h expected origin receipt key receipts current [] st = Inr st"
| "review_bindings R h expected origin receipt key receipts current (b # bs) st =
     bindR (review_binding R h expected origin receipt key receipts current b st)
       (review_bindings R h expected origin receipt key receipts current bs)"

definition reviewed_receipt :: "rule_source_receipt \<Rightarrow> review_state \<Rightarrow> rule_source_receipt" where
  "reviewed_receipt receipt st = receipt\<lparr>
     legacy_aliases := filter (\<lambda>a. alias_rule_id a \<notin> set (rs_selected st)) (legacy_aliases receipt) @ rs_replacements st,
     receipt_rules := filter (\<lambda>r. rule_id r \<notin> set (rs_remove st)) (receipt_rules receipt),
     receipt_pending := True\<rparr>"

record prepared_review =
  pv_receipt_key :: string
  pv_receipt :: bytes
  pv_remove :: "string list"
  pv_audit :: bytes
  pv_review :: json
  pv_outcome :: alias_review_outcome

definition review_value ::
  "rule_codecs \<Rightarrow> (bytes \<Rightarrow> string) \<Rightarrow> rule_ownership_snapshot \<Rightarrow> alias_review_plan \<Rightarrow> string \<Rightarrow> string
     \<Rightarrow> bytes \<Rightarrow> string \<Rightarrow> review_state \<Rightarrow> json res" where
  "review_value R h expected plan decision_ref plan_hash before next_receipt st =
     bindR (snap_project R expected) (\<lambda>project.
     bindR (identity_epoch expected) (\<lambda>epoch.
     bindR (from_utf8 before) (\<lambda>before_text.
     bindR (from_utf8 next_receipt) (\<lambda>after_text.
     Inr (jobj [(''plan_blake3'', JString plan_hash), (''ownership_snapshot_blake3'', JString (snapshot_digest R h expected)),
       (''project'', project_value project), (''identity_epoch'', jopt ju64 epoch), (''origin'', JString (rp_origin plan)),
       (''source'', source_value (rp_source plan)), (''decision_ref'', JString decision_ref),
       (''decision_reference_origin'',
        JString ''Caller-supplied reference; Engram does not authenticate human identity or policy acceptance''),
       (''before_receipt_utf8'', JString before_text), (''after_receipt_utf8'', JString after_text),
       (''current_source_projections'', jstrings (rp_current_projections plan)), (''changes'', JArray (rs_changes st)),
       (''source_reimport_required'', JBool True), (''searchable_evidence_published'', JBool False),
       (''authored_files_written'', JInt 0)])))))"

definition finish_review ::
  "rule_codecs \<Rightarrow> (bytes \<Rightarrow> string) \<Rightarrow> rule_ownership_snapshot \<Rightarrow> alias_review_plan \<Rightarrow> string \<Rightarrow> string \<Rightarrow> bytes
     \<Rightarrow> rule_source_receipt \<Rightarrow> review_state \<Rightarrow> prepared_review res" where
  "finish_review R h expected plan decision_ref key before receipt st =
     (let next_value = reviewed_receipt receipt st in
      bindR (validate_receipt R h next_value key) (\<lambda>_.
      bindR (encode_receipt R next_value) (\<lambda>next_receipt.
      bindR (check_adoption_budget expected fmempty key next_receipt) (\<lambda>_.
      let plan_hash = hash_value h (''engram:reviewed-alias-lifecycle:v1'' @ [NUL])
            (review_bytes R (snapshot_digest R h expected, plan, decision_ref)) in
      bindR (review_value R h expected plan decision_ref plan_hash before next_receipt st) (\<lambda>review.
      let audit = to_vec (value_json R) review in
      bindR (ensure (length audit \<le> 256 * 1024)
               (Bail ''Complete lifecycle evidence exceeds the 256 KiB audit budget; no partial review or mutation'')) (\<lambda>_.
      Inr \<lparr> pv_receipt_key = key, pv_receipt = next_receipt, pv_remove = btree_set (rs_remove st), pv_audit = audit,
            pv_review = review,
            pv_outcome = \<lparr> ro_plan_blake3 = plan_hash, ro_audit_key = ''quality_alias_review:'' @ plan_hash,
              ro_retired_rule_ids = btree_set (rs_remove st), ro_rebound_rule_ids = rs_rebound st,
              ro_source_reimport_required = True, ro_searchable_evidence_published = False \<rparr> \<rparr>))))))"

definition prepare_review ::
  "rule_codecs \<Rightarrow> (bytes \<Rightarrow> string) \<Rightarrow> rule_ownership_snapshot \<Rightarrow> alias_review_plan \<Rightarrow> string \<Rightarrow> prepared_review res" where
  "prepare_review R h expected plan decision_ref =
     bindR (adoption_basis_digest R h expected) (\<lambda>_.
     bindR (check_review plan decision_ref) (\<lambda>_.
     let key = source_key h (rp_origin plan) in
     bindR (ok_or (fmlookup (snap_receipts expected) key) (Bail ''Source ownership receipt is missing'')) (\<lambda>before.
     bindR (decode_receipt R h key before) (\<lambda>receipt.
     bindR (traverseR (check_source_owned R expected (rp_origin plan)) (receipt_rules receipt)) (\<lambda>_.
     bindR (traverseR (\<lambda>(k, raw). bindR (decode_receipt R h k raw) (\<lambda>r. Inr (k, r))) (iter (snap_receipts expected))) (\<lambda>receipts.
     bindR (current_policies R (rp_origin plan) (rp_current_projections plan) fmempty) (\<lambda>current.
     bindR (review_bindings R h expected (rp_origin plan) receipt key receipts current (rp_bindings plan)
              \<lparr> rs_selected = [], rs_remove = [], rs_rebound = [], rs_replacements = [], rs_changes = [] \<rparr>) (\<lambda>st.
     finish_review R h expected plan decision_ref key before receipt st))))))))"

definition preview_legacy_alias_review ::
  "rule_codecs \<Rightarrow> (bytes \<Rightarrow> string) \<Rightarrow> rule_ownership_snapshot \<Rightarrow> alias_review_plan \<Rightarrow> string \<Rightarrow> json res" where
  "preview_legacy_alias_review R h expected plan decision_ref =
     bindR (prepare_review R h expected plan decision_ref) (\<lambda>p. Inr (pv_review p))"

section \<open>The transaction\<close>

definition apply_legacy_alias_review ::
  "rule_codecs \<Rightarrow> (bytes \<Rightarrow> string) \<Rightarrow> rule_ownership_snapshot \<Rightarrow> alias_review_plan \<Rightarrow> string \<Rightarrow> alias_review_outcome tx" where
  "apply_legacy_alias_review R h expected plan decision_ref s =
     (let pid = snap_project_id expected in
      bindR (prepare_review R h expected plan decision_ref) (\<lambda>prepared.
      bindR (from_tables pid (projects s) (repo_rules s) (meta s)) (\<lambda>current.
      bindR (ensure (snapshot_digest R h current = snapshot_digest R h expected)
               (Bail ''Ownership snapshot changed; no aliases reviewed, recollect before apply'')) (\<lambda>_.
      bindR (ensure (fmlookup (meta s) (composite pid (ro_audit_key (pv_outcome prepared))) = None)
               (Bail ''This lifecycle decision was already recorded'')) (\<lambda>_.
      bindR (guard_mutation R h pid (btree_set (map rb_rule_id (rp_bindings plan))) (Some (pv_receipt_key prepared)) s) (\<lambda>_.
      let s1 = s\<lparr>repo_rules := fold (\<lambda>rid. fmdrop (composite pid rid)) (pv_remove prepared) (repo_rules s)\<rparr>;
          s2 = put_meta (composite pid (ro_audit_key (pv_outcome prepared))) (pv_audit prepared)
                 (put_meta (composite pid (pv_receipt_key prepared)) (pv_receipt prepared) s1) in
      bindR (from_tables pid (projects s2) (repo_rules s2) (meta s2)) (\<lambda>_.
      Inr (pv_outcome prepared, s2))))))))"

end
