(* ===== verification/Rule_Lemmas.thy ===== *)
theory Rule_Lemmas
  imports Rule_Alias_Review
begin

text \<open>
  Facts about the rule components that their properties share: the bounded collection returns the
  exact rows under a prefix or refuses, what a passed guard says about receipts and rows, and what
  a validated receipt satisfies.
\<close>

section \<open>Bounded collection\<close>

text \<open>The rows under a prefix, renamed to the retained prefix.\<close>

definition local_rows :: "string \<Rightarrow> string \<Rightarrow> table \<Rightarrow> (string \<times> bytes) list" where
  "local_rows pfx rp t = map (\<lambda>(k, v). (rp @ drop (length pfx) k, v)) (prefix_scan pfx t)"

definition subtable :: "string \<Rightarrow> string \<Rightarrow> table \<Rightarrow> table" where
  "subtable pfx rp t = fmap_of_list (local_rows pfx rp t)"

definition row_bytes :: "(string \<times> bytes) list \<Rightarrow> nat" where
  "row_bytes rows = sum_list (map (\<lambda>(k, v). length k + length v) rows)"

definition rows_admissible :: "nat \<Rightarrow> (string \<times> bytes) list \<Rightarrow> bool" where
  "rows_admissible n rows \<longleftrightarrow> (\<forall>(k, v) \<in> set rows. length k \<le> n + 2048 \<and> length v \<le> VALUE_BYTES)"

lemma row_bytes_simps [simp]:
  "row_bytes [] = 0" "row_bytes ((k, v) # rows) = length k + length v + row_bytes rows"
  "row_bytes (xs @ ys) = row_bytes xs + row_bytes ys"
  by (simp_all add: row_bytes_def)

lemma rows_admissible_simps [simp]:
  "rows_admissible n []"
  "rows_admissible n ((k, v) # rows) \<longleftrightarrow> length k \<le> n + 2048 \<and> length v \<le> VALUE_BYTES \<and> rows_admissible n rows"
  by (simp_all add: rows_admissible_def)

lemma copy_bounded_Inr [simp]:
  "copy_bounded bs n = Inr (c, m) \<longleftrightarrow> length bs \<le> VALUE_BYTES \<and> length bs \<le> n \<and> c = bs \<and> m = n - length bs"
  by (auto simp: copy_bounded_def)

lemma collect_rows_Cons:
  "collect_rows rp mx n ((k, v) # rows) acc m = Inr x \<longleftrightarrow>
     table_len acc < mx \<and> length (drop n k) \<le> 2048 \<and> length v \<le> VALUE_BYTES
     \<and> length (rp @ drop n k) + length v \<le> m
     \<and> collect_rows rp mx n rows (fmupd (rp @ drop n k) v acc) (m - (length (rp @ drop n k) + length v)) = Inr x"
  by (simp add: Let_def split_paired_Ex) auto

lemma collect_rows_iff:
  fixes rows :: "(string \<times> bytes) list" and rp :: string and n :: nat
  defines "ren \<equiv> map (\<lambda>(k, v). (rp @ drop n k, v))"
  assumes "distinct (map fst (ren rows))" and "fst ` set (ren rows) \<inter> fmdom' acc = {}" and "table_len acc \<le> mx"
  shows "collect_rows rp mx n rows acc m = Inr (res, m') \<longleftrightarrow>
    table_len acc + length rows \<le> mx \<and> rows_admissible (length rp) (ren rows) \<and> row_bytes (ren rows) \<le> m
    \<and> res = fold (\<lambda>(k, v). fmupd k v) (ren rows) acc \<and> m' = m - row_bytes (ren rows)"
  using assms(2-4)
proof (induction rows arbitrary: acc m)
  case Nil
  then show ?case by (auto simp: ren_def)
next
  case (Cons kv rows)
  obtain k v where kv: "kv = (k, v)" by (cases kv)
  define l where "l = rp @ drop n k"
  have ren: "ren (kv # rows) = (l, v) # ren rows" by (simp add: ren_def kv l_def)
  have fresh: "fmlookup acc l = None" using Cons.prems(2) by (auto simp: ren fmlookup_dom'_iff)
  have len: "table_len (fmupd l v acc) = Suc (table_len acc)" using fresh table_len_upd [of l acc] by simp
  have prems: "distinct (map fst (ren rows))" "fst ` set (ren rows) \<inter> fmdom' (fmupd l v acc) = {}"
    using Cons.prems(1,2) by (auto simp: ren)
  have adm: "length (drop n k) \<le> 2048 \<longleftrightarrow> length l \<le> length rp + 2048" by (simp add: l_def)
  show ?case
    unfolding kv collect_rows_Cons l_def [symmetric] ren [unfolded kv] adm
    using Cons.IH [OF prems, of "m - (length l + length v)"] len Cons.prems(3) by auto
qed

lemma map_of_local_rows: "map_of (local_rows pfx rp t) (rp @ sx) = fmlookup t (pfx @ sx)"
proof -
  have "map_of (map (\<lambda>(k, v). (rp @ drop (length pfx) k, v)) rows) (rp @ sx) = map_of rows (pfx @ sx)"
    if "\<forall>kv \<in> set rows. prefix pfx (fst kv)" for rows :: "(string \<times> bytes) list"
    using that by (induction rows) (auto simp: prefix_def)
  moreover have "map_of (prefix_scan pfx t) (pfx @ sx) = fmlookup t (pfx @ sx)"
    by (simp add: prefix_scan_fmfilter)
  ultimately show ?thesis by (simp add: local_rows_def prefix_scan_filter)
qed

lemma local_rows_keys: "kv \<in> set (local_rows pfx rp t) \<Longrightarrow> prefix rp (fst kv)"
  by (auto simp: local_rows_def)

lemma distinct_local_rows [simp]: "distinct (map fst (local_rows pfx rp t))"
proof -
  have "inj_on (\<lambda>k. rp @ drop (length pfx) k) (set (map fst (prefix_scan pfx t)))"
    by (auto simp: inj_on_def prefix_scan_filter prefix_def)
  then have "distinct (map (\<lambda>k. rp @ drop (length pfx) k) (map fst (prefix_scan pfx t)))"
    using distinct_prefix_scan [of pfx t] by (simp only: distinct_map [of _ "map fst _"] simp_thms)
  then show ?thesis by (simp add: local_rows_def comp_def case_prod_beta)
qed

lemma subtable_lookup [simp]:
  "fmlookup (subtable pfx rp t) (rp @ sx) = fmlookup t (pfx @ sx)"
  "fmlookup (subtable pfx [] t) sx = fmlookup t (pfx @ sx)"
  "\<not> prefix rp k \<Longrightarrow> fmlookup (subtable pfx rp t) k = None"
  using map_of_local_rows [of pfx rp t sx] map_of_local_rows [of pfx "[]" t sx] local_rows_keys [of _ pfx rp t]
  by (auto simp: subtable_def fmlookup_of_list map_of_eq_None_iff)

lemma subtable_Some: "fmlookup (subtable pfx rp t) k = Some v \<longleftrightarrow> (\<exists>sx. k = rp @ sx \<and> fmlookup t (pfx @ sx) = Some v)"
  by (cases "prefix rp k") (auto simp: prefix_def)

lemma length_local_rows: "length (local_rows pfx rp t) = table_len (subtable pfx rp t)"
  using table_len_of_list [OF distinct_local_rows] by (simp only: subtable_def)

text \<open>The collection is the exact renamed sub-table, or the limits are exceeded.\<close>

theorem collect_prefix_iff:
  "collect_prefix t pfx rp mx m = Inr (res, m') \<longleftrightarrow>
     length (local_rows pfx rp t) \<le> mx \<and> rows_admissible (length rp) (local_rows pfx rp t)
     \<and> row_bytes (local_rows pfx rp t) \<le> m \<and> res = subtable pfx rp t \<and> m' = m - row_bytes (local_rows pfx rp t)"
proof -
  have "fold (\<lambda>(k, v). fmupd k v) (local_rows pfx rp t) fmempty = subtable pfx rp t"
    by (simp add: fold_fmupd_fmap_of_list subtable_def)
  then show ?thesis
    using collect_rows_iff [of rp "length pfx" "prefix_scan pfx t" fmempty mx m res m'] distinct_local_rows [of pfx rp t]
    by (auto simp: collect_prefix_def local_rows_def fcard_fempty)
qed

section \<open>Validated receipts\<close>

lemma check_rule_ids_Inr:
  "check_rule_ids rows ids = Inr out \<longleftrightarrow>
     (\<forall>r \<in> set rows. key_ok (rule_id r)) \<and> distinct (map rule_id rows) \<and> rule_id ` set rows \<inter> set ids = {}
     \<and> out = rev (map rule_id rows) @ ids"
  by (induction rows arbitrary: ids) auto

definition alias_ok :: "rule_codecs \<Rightarrow> (bytes \<Rightarrow> string) \<Rightarrow> rule_source_receipt \<Rightarrow> legacy_rule_alias \<Rightarrow> bool" where
  "alias_ok R h c a \<longleftrightarrow> alias_rule_id a \<in> rule_id ` set (receipt_rules c)
     \<and> check_projection R h (receipt_origin c) a = Inr ()"

lemma check_aliases_Inr:
  "check_aliases R h origin ids as targets sources = Inr () \<longleftrightarrow>
     distinct (map alias_rule_id as) \<and> distinct (map alias_source_rule_id as)
     \<and> alias_rule_id ` set as \<inter> set targets = {} \<and> alias_source_rule_id ` set as \<inter> set sources = {}
     \<and> (\<forall>a \<in> set as. alias_rule_id a \<in> set ids \<and> check_projection R h origin a = Inr ())"
  by (induction as arbitrary: targets sources) auto

definition receipt_ok :: "rule_codecs \<Rightarrow> (bytes \<Rightarrow> string) \<Rightarrow> string \<Rightarrow> rule_source_receipt \<Rightarrow> bool" where
  "receipt_ok R h key c \<longleftrightarrow> valid_origin (receipt_origin c) \<and> key = source_key h (receipt_origin c)
     \<and> valid_hash (source_hash c) \<and> (\<forall>r \<in> set (receipt_rules c). key_ok (rule_id r))
     \<and> distinct (map rule_id (receipt_rules c)) \<and> distinct (map alias_rule_id (legacy_aliases c))
     \<and> distinct (map alias_source_rule_id (legacy_aliases c)) \<and> (\<forall>a \<in> set (legacy_aliases c). alias_ok R h c a)"

theorem validate_receipt_iff: "validate_receipt R h c key = Inr () \<longleftrightarrow> receipt_ok R h key c"
  by (auto simp: validate_receipt_def validate_origin_def receipt_ok_def alias_ok_def check_rule_ids_Inr check_aliases_Inr)

lemma decode_receipt_Inr:
  "decode_receipt R h key raw = Inr c \<longleftrightarrow>
     length raw \<le> 4 * 1024 * 1024 \<and> from_slice (receipt_json R) raw = Some c \<and> receipt_ok R h key c"
  unfolding decode_receipt_def by (auto simp flip: validate_receipt_iff)

lemma encode_receipt_Inr:
  "encode_receipt R c = Inr raw \<longleftrightarrow>
     raw = to_vec (receipt_json R) c \<and> length raw \<le> 4 * 1024 * 1024 \<and> utf8_valid raw"
  by (auto simp: encode_receipt_def Let_def)

lemma decode_encoded_receipt:
  assumes "rule_codecs_ok R" "validate_receipt R h c key = Inr ()" "encode_receipt R c = Inr raw"
  shows "decode_receipt R h key raw = Inr c"
  using assms by (auto simp: decode_receipt_Inr encode_receipt_Inr simp flip: validate_receipt_iff)

section \<open>What a passed guard says\<close>

abbreviation receipt_row :: "string \<Rightarrow> string \<Rightarrow> db \<Rightarrow> bytes option" where
  "receipt_row p key s \<equiv> fmlookup (meta s) (composite p key)"

lemma guard_claims_Inr:
  "guard_claims ids owner_key key c = Inr () \<longleftrightarrow> Some key = owner_key \<or> (\<forall>r \<in> set (receipt_rules c). rule_id r \<notin> set ids)"
  by (auto simp: guard_claims_def find_None_iff split: option.split dest!: find_SomeD)

lemma guard_receipts_Inr:
  assumes "guard_receipts R h ids owner_key rows acc = Inr out" and "distinct (map fst rows)"
  shows "\<forall>(key, raw) \<in> set rows. \<exists>c. decode_receipt R h key raw = Inr c \<and> guard_claims ids owner_key key c = Inr ()"
    and "out = (case owner_key of None \<Rightarrow> acc
       | Some k \<Rightarrow> (case map_of rows k of None \<Rightarrow> acc | Some raw \<Rightarrow> Some (projr (decode_receipt R h k raw))))"
  using assms
proof (induction rows arbitrary: acc)
  case (Cons kr rows)
  obtain key raw where kr: "kr = (key, raw)" by (cases kr)
  {
    case 1
    then obtain c where c: "decode_receipt R h key raw = Inr c" "guard_claims ids owner_key key c = Inr ()"
      "guard_receipts R h ids owner_key rows (if Some key = owner_key then Some c else acc) = Inr out"
      by (auto simp: kr split: sum.splits)
    with Cons.IH(1) [OF c(3)] 1(2) show ?case by (simp add: kr)
  next
    case 2
    then obtain c where c: "decode_receipt R h key raw = Inr c"
      "guard_receipts R h ids owner_key rows (if Some key = owner_key then Some c else acc) = Inr out"
      by (auto simp: kr split: sum.splits)
    have "map_of rows key = None" using 2(2) by (simp add: kr map_of_eq_None_iff)
    with Cons.IH(2) [OF c(2)] 2(2) c(1) show ?case by (auto simp: kr split: option.splits)
  }
qed (auto split: option.splits)

lemma composite_append [simp]: "composite p k @ sx = composite p (k @ sx)"
  by (simp add: composite_def)

definition owner_of :: "rule_codecs \<Rightarrow> (bytes \<Rightarrow> string) \<Rightarrow> string \<Rightarrow> string option \<Rightarrow> db \<Rightarrow> rule_source_receipt option" where
  "owner_of R h p owner_key s = (case owner_key of None \<Rightarrow> None
     | Some k \<Rightarrow> if prefix RECEIPT_PREFIX k then map_option (\<lambda>raw. projr (decode_receipt R h k raw)) (receipt_row p k s) else None)"

theorem guard_mutation_Inr:
  assumes "guard_mutation R h p ids owner_key s = Inr u"
  shows "receipt_row p (RECEIPT_PREFIX @ sx) s = Some raw \<Longrightarrow> \<exists>c. decode_receipt R h (RECEIPT_PREFIX @ sx) raw = Inr c
      \<and> (Some (RECEIPT_PREFIX @ sx) = owner_key \<or> (\<forall>r \<in> set (receipt_rules c). rule_id r \<notin> set ids))"
    and "publishes_source owner_key \<Longrightarrow> owner_of R h p owner_key s \<noteq> None"
    and "rid \<in> set ids \<Longrightarrow> guard_row R p owner_key (owner_of R h p owner_key s) s rid = Inr ()"
proof -
  let ?t = "subtable (composite p RECEIPT_PREFIX) RECEIPT_PREFIX (meta s)"
  obtain owner us where o: "guard_receipts R h ids owner_key (iter ?t) None = Inr owner"
    "publishes_source owner_key \<longrightarrow> owner \<noteq> None" "traverseR (guard_row R p owner_key owner s) ids = Inr us"
    using assms by (auto simp: guard_mutation_def collect_prefix_iff split_paired_Ex)
  note g = guard_receipts_Inr [OF o(1) distinct_iter]
  have owner: "owner = owner_of R h p owner_key s"
    unfolding g(2) by (auto simp: owner_of_def prefix_def split: option.splits)
  show "\<exists>c. decode_receipt R h (RECEIPT_PREFIX @ sx) raw = Inr c
      \<and> (Some (RECEIPT_PREFIX @ sx) = owner_key \<or> (\<forall>r \<in> set (receipt_rules c). rule_id r \<notin> set ids))"
    if "receipt_row p (RECEIPT_PREFIX @ sx) s = Some raw"
  proof -
    have "(RECEIPT_PREFIX @ sx, raw) \<in> set (iter ?t)" using that by (simp add: set_iter)
    with g(1) show ?thesis by (fastforce simp: guard_claims_Inr)
  qed
  show "owner_of R h p owner_key s \<noteq> None" if "publishes_source owner_key" using o(2) owner that by simp
  show "guard_row R p owner_key (owner_of R h p owner_key s) s rid = Inr ()" if "rid \<in> set ids"
    using traverseR_set(2) [OF o(3) that] owner by auto
qed

lemma guard_row_manual:
  "guard_row R p None None s rid = Inr () \<longleftrightarrow> (case fmlookup (repo_rules s) (composite p rid) of None \<Rightarrow> True
     | Some raw \<Rightarrow> \<exists>r. from_slice (rule_json R) raw = Some r \<and> rule_source r = None)"
  by (auto simp: guard_row_def publishes_source_def split: option.splits)

lemma guard_row_source:
  assumes "prefix RECEIPT_PREFIX key"
  shows "guard_row R p (Some key) (Some c) s rid = Inr () \<longleftrightarrow> (case fmlookup (repo_rules s) (composite p rid) of None \<Rightarrow> True
     | Some raw \<Rightarrow> \<exists>r \<in> set (receipt_rules c). from_slice (rule_json R) raw = Some r \<and> rule_source r = Some (receipt_origin c))"
  using assms by (auto simp: guard_row_def publishes_source_def split: option.splits)

text \<open>A publisher of the source \<open>key\<close> has a valid prior receipt, and every affected row that exists is claimed by it.\<close>

lemma guard_publisher:
  assumes "guard_mutation R h p ids (Some key) s = Inr u" and "prefix RECEIPT_PREFIX key"
  obtains prior raw0 where "receipt_row p key s = Some raw0" "decode_receipt R h key raw0 = Inr prior"
    "\<And>rid raw. rid \<in> set ids \<Longrightarrow> fmlookup (repo_rules s) (composite p rid) = Some raw \<Longrightarrow>
       \<exists>r \<in> set (receipt_rules prior). from_slice (rule_json R) raw = Some r \<and> rule_source r = Some (receipt_origin prior)"
proof -
  have "publishes_source (Some key)" using assms(2) by (simp add: publishes_source_def)
  with guard_mutation_Inr(2) [OF assms(1)] obtain raw0 where raw0: "receipt_row p key s = Some raw0"
    by (auto simp: owner_of_def split: if_splits)
  moreover obtain sx where sx: "key = RECEIPT_PREFIX @ sx" using assms(2) by (auto simp: prefix_def)
  ultimately obtain prior where prior: "decode_receipt R h key raw0 = Inr prior"
    using guard_mutation_Inr(1) [OF assms(1), of sx raw0] by auto
  have owner: "owner_of R h p (Some key) s = Some prior"
    using raw0 prior assms(2) by (simp add: owner_of_def)
  show thesis
  proof (rule that [OF raw0 prior])
    fix rid raw
    assume r: "rid \<in> set ids" "fmlookup (repo_rules s) (composite p rid) = Some raw"
    from guard_mutation_Inr(3) [OF assms(1) r(1)] r(2)
    show "\<exists>r \<in> set (receipt_rules prior). from_slice (rule_json R) raw = Some r \<and> rule_source r = Some (receipt_origin prior)"
      unfolding owner guard_row_source [OF assms(2)] by simp
  qed
qed

section \<open>Publishing rows\<close>

lemma remove_rules_lookup:
  "fmlookup (remove_rules p removed upsert t) k
     = (if k \<in> composite p ` (set removed - rule_id ` set upsert) then None else fmlookup t k)"
  unfolding remove_rules_def by (induction removed arbitrary: t) (auto simp: image_iff)

lemma upsert_rule_Inr:
  assumes "rule_codecs_ok R" "upsert_rule R p r t = Inr t'"
  shows "stored_rule R p t' (rule_id r) = Inr (Some r)"
    and "k \<noteq> composite p (rule_id r) \<Longrightarrow> fmlookup t' k = fmlookup t k"
  using assms
  by (auto simp: upsert_rule_def stored_rule_def merge_rule_fields_def Let_def split: option.splits if_splits)

lemma upsert_rules_Inr:
  assumes "rule_codecs_ok R" "upsert_rules R p rules t = Inr t'"
  shows "k \<notin> composite p ` rule_id ` set rules \<Longrightarrow> fmlookup t' k = fmlookup t k"
    and "r \<in> set rules \<Longrightarrow> \<forall>a \<in> set rules. rule_id a = rule_id r \<longrightarrow> a = r \<Longrightarrow> stored_rule R p t' (rule_id r) = Inr (Some r)"
  using assms(2)
proof (induction rules arbitrary: t k)
  case (Cons a rules)
  {
    case 1
    then show ?case using Cons.IH(1) upsert_rule_Inr(2) [OF assms(1)] by fastforce
  next
    case 2
    then obtain t1 where t1: "upsert_rule R p a t = Inr t1" "upsert_rules R p rules t1 = Inr t'" by auto
    show ?case
    proof (cases "r \<in> set rules")
      case True
      with Cons.IH(2) [OF _ _ t1(2)] 2(2) show ?thesis by simp
    next
      case False
      with 2(1,2) have "a = r" "composite p (rule_id r) \<notin> composite p ` rule_id ` set rules" by auto
      with Cons.IH(1) [OF _ t1(2), of "composite p (rule_id r)"] upsert_rule_Inr(1) [OF assms(1) t1(1)] show ?thesis
        by (simp add: stored_rule_def)
    qed
  }
qed auto

lemma check_claim_Inr:
  "check_claim R p removed upsert t c = Inr () \<longleftrightarrow>
     (case find (\<lambda>r. rule_id r = rule_id c) upsert of Some row \<Rightarrow> row = c
      | None \<Rightarrow> rule_id c \<notin> set removed \<and> stored_rule R p t (rule_id c) = Inr (Some c))"
  by (auto simp: check_claim_def split: option.splits)

lemma publication_cases:
  assumes "publish_repo_rule_source R h p expected removed upsert key expected_receipt receipt s = Inr ((), t)"
    and "prefix RECEIPT_PREFIX key"
  obtains pub rows where "decode_receipt R h key receipt = Inr pub" "check_publication pub upsert = Inr ()"
    "guard_mutation R h p (btree_set (removed @ map rule_id upsert @ map rule_id (receipt_rules pub))) (Some key) s = Inr ()"
    "\<And>c. c \<in> set (receipt_rules pub) \<Longrightarrow> check_claim R p removed upsert (repo_rules s) c = Inr ()"
    "receipt_row p key s = Some expected_receipt"
    "\<And>rid. rid \<in> set removed \<union> rule_id ` set upsert \<Longrightarrow> stored_rule R p (repo_rules s) rid = Inr (find (\<lambda>r. rule_id r = rid) expected)"
    "upsert_rules R p upsert (remove_rules p removed upsert (repo_rules s)) = Inr rows"
    "t = s\<lparr>repo_rules := rows, meta := fmupd (composite p key) receipt (meta s)\<rparr>" "key_ok p" "key_ok key"
proof -
  obtain pub us ws rows where e: "decode_receipt R h key receipt = Inr pub" "check_publication pub upsert = Inr ()"
    "guard_mutation R h p (btree_set (removed @ map rule_id upsert @ map rule_id (receipt_rules pub))) (Some key) s = Inr ()"
    "traverseR (check_claim R p removed upsert (repo_rules s)) (receipt_rules pub) = Inr us"
    "receipt_row p key s = Some expected_receipt"
    "traverseR (check_expected R p expected (repo_rules s)) (btree_set (removed @ map rule_id upsert)) = Inr ws"
    "upsert_rules R p upsert (remove_rules p removed upsert (repo_rules s)) = Inr rows"
    "t = s\<lparr>repo_rules := rows, meta := fmupd (composite p key) receipt (meta s)\<rparr>" "key_ok p" "key_ok key"
    using assms by (auto simp: publish_repo_rule_source_def publication_of_def published_rules_def publish_rows_def Let_def)
  show thesis
  proof (rule that [OF e(1,2,3) _ e(5) _ e(7-10)])
    show "check_claim R p removed upsert (repo_rules s) c = Inr ()" if "c \<in> set (receipt_rules pub)" for c
      using traverseR_set(2) [OF e(4) that] by auto
    show "stored_rule R p (repo_rules s) rid = Inr (find (\<lambda>r. rule_id r = rid) expected)"
      if "rid \<in> set removed \<union> rule_id ` set upsert" for rid
      using traverseR_set(2) [OF e(6), of rid] that by (auto simp: check_expected_def)
  qed
qed

section \<open>Snapshots\<close>

abbreviation entry_bytes :: "table \<Rightarrow> nat" where
  "entry_bytes t \<equiv> table_weight (\<lambda>k v. length k + length v) t"

definition opt_bytes :: "bytes option \<Rightarrow> nat" where
  "opt_bytes v = (case v of None \<Rightarrow> 0 | Some b \<Rightarrow> length b)"

definition opt_admissible :: "bytes option \<Rightarrow> bool" where
  "opt_admissible v = (case v of None \<Rightarrow> True | Some b \<Rightarrow> length b \<le> VALUE_BYTES)"

definition entries_admissible :: "nat \<Rightarrow> table \<Rightarrow> bool" where
  "entries_admissible n t \<longleftrightarrow> (\<forall>k v. fmlookup t k = Some v \<longrightarrow> length k \<le> n + 2048 \<and> length v \<le> VALUE_BYTES)"

text \<open>The inventory a snapshot of the tables has to return, and the limits it has to respect.\<close>

definition exact_snapshot :: "string \<Rightarrow> bytes \<Rightarrow> table \<Rightarrow> table \<Rightarrow> rule_ownership_snapshot" where
  "exact_snapshot pid praw rule_rows metadata =
     \<lparr> snap_project_id = pid, project_raw = praw,
       identity_epoch_raw = fmlookup metadata (composite pid IDENTITY_EPOCH),
       corpus_revision_raw = fmlookup metadata (composite pid ''quality_corpus_revision''),
       snap_rules = subtable (pid @ [NUL]) [] rule_rows,
       snap_receipts = subtable (composite pid RECEIPT_PREFIX) RECEIPT_PREFIX metadata \<rparr>"

definition snapshot_size :: "rule_ownership_snapshot \<Rightarrow> nat" where
  "snapshot_size snap = length (project_raw snap) + opt_bytes (identity_epoch_raw snap)
     + opt_bytes (corpus_revision_raw snap) + entry_bytes (snap_rules snap) + entry_bytes (snap_receipts snap)"

definition snapshot_fits :: "rule_ownership_snapshot \<Rightarrow> bool" where
  "snapshot_fits snap \<longleftrightarrow> length (project_raw snap) \<le> VALUE_BYTES
     \<and> opt_admissible (identity_epoch_raw snap) \<and> opt_admissible (corpus_revision_raw snap)
     \<and> table_len (snap_rules snap) \<le> 2048 \<and> entries_admissible 0 (snap_rules snap)
     \<and> table_len (snap_receipts snap) \<le> 256 \<and> entries_admissible (length RECEIPT_PREFIX) (snap_receipts snap)
     \<and> snapshot_size snap \<le> SNAPSHOT_BYTES"

lemma row_bytes_of_list:
  "distinct (map fst rows) \<Longrightarrow> row_bytes rows = entry_bytes (fmap_of_list rows)"
  by (simp add: row_bytes_def table_weight_of_list)

lemma row_bytes_local [simp]: "row_bytes (local_rows pfx rp t) = entry_bytes (subtable pfx rp t)"
  by (simp add: row_bytes_of_list subtable_def)

lemma row_bytes_iter [simp]: "row_bytes (iter t) = entry_bytes t"
  by (simp add: row_bytes_def sum_list_iter)

lemma rows_admissible_local [simp]:
  "rows_admissible n (local_rows pfx rp t) \<longleftrightarrow> entries_admissible n (subtable pfx rp t)"
proof -
  have "(k, v) \<in> set (local_rows pfx rp t) \<longleftrightarrow> fmlookup (subtable pfx rp t) k = Some v" for k v
    by (simp add: subtable_def fmlookup_of_list)
  then show ?thesis by (simp add: rows_admissible_def entries_admissible_def Ball_def split_paired_All)
qed

lemma copy_optional_Inr:
  "copy_optional v n = Inr (c, m) \<longleftrightarrow> opt_admissible v \<and> opt_bytes v \<le> n \<and> c = v \<and> m = n - opt_bytes v"
  by (auto simp: copy_optional_def opt_admissible_def opt_bytes_def split: option.split)

lemmas snapshot_sel = rule_ownership_snapshot.simps

theorem from_tables_iff:
  "from_tables pid project_rows rule_rows metadata = Inr snap \<longleftrightarrow>
     (\<exists>praw. fmlookup project_rows pid = Some praw \<and> snap = exact_snapshot pid praw rule_rows metadata \<and> snapshot_fits snap)"
proof (cases "fmlookup project_rows pid")
  case (Some praw)
  let ?s = "exact_snapshot pid praw rule_rows metadata"
  have "from_tables pid project_rows rule_rows metadata = Inr snap \<longleftrightarrow> snap = ?s \<and> snapshot_fits ?s"
    unfolding from_tables_def Some ok_or_simps bindR_simps bindR_eq_Inr split_paired_Ex prod.case
      copy_bounded_Inr copy_optional_Inr collect_prefix_iff length_local_rows row_bytes_local rows_admissible_local
    by (simp add: snapshot_fits_def snapshot_size_def exact_snapshot_def) (auto simp: SNAPSHOT_BYTES_def)
  with Some show ?thesis by auto
qed (simp add: from_tables_def)

section \<open>Preparing an adoption\<close>

lemma admit_Inr:
  "admit key raw n = Inr m \<longleftrightarrow> length raw \<le> VALUE_BYTES \<and> length key + length raw \<le> n \<and> m = n - (length key + length raw)"
  by (auto simp: admit_def)

lemma admit_rows_Inr:
  "admit_rows rows n = Inr m \<longleftrightarrow> (\<forall>(k, v) \<in> set rows. length v \<le> VALUE_BYTES) \<and> row_bytes rows \<le> n \<and> m = n - row_bytes rows"
  by (induction rows arbitrary: n) (auto simp: admit_Inr)

lemma admit_optional_Inr:
  "admit_optional v n = Inr m \<longleftrightarrow> opt_admissible v \<and> opt_bytes v \<le> n \<and> m = n - opt_bytes v"
  by (auto simp: admit_optional_def admit_Inr opt_admissible_def opt_bytes_def split: option.split)

lemma replaced_rows_iter:
  assumes "fmdom' rows \<subseteq> fmdom' t"
  shows "replaced_rows rows (iter t) = iter (t ++\<^sub>f rows)"
proof (rule pair_list_eqI)
  have keys: "map fst (replaced_rows rows (iter t)) = map fst (iter t)"
    by (simp add: replaced_rows_def comp_def case_prod_beta)
  then show "sorted (map fst (replaced_rows rows (iter t)))" "distinct (map fst (replaced_rows rows (iter t)))" by simp_all
  have m: "map_of (replaced_rows rows xs) k = (case map_of xs k of None \<Rightarrow> None
      | Some v \<Rightarrow> Some (case fmlookup rows k of Some w \<Rightarrow> w | None \<Rightarrow> v))" for xs k
    by (induction xs) (auto simp: replaced_rows_def split: option.split)
  show "map_of (replaced_rows rows (iter t)) = map_of (iter (t ++\<^sub>f rows))"
  proof (rule ext)
    fix k
    show "map_of (replaced_rows rows (iter t)) k = map_of (iter (t ++\<^sub>f rows)) k"
    proof (cases "fmlookup rows k")
      case None
      then have "k |\<notin>| fmdom rows" by (simp add: fmdom_notI)
      with None show ?thesis unfolding m by (simp split: option.split)
    next
      case (Some w)
      with assms obtain v where "fmlookup t k = Some v"
        by (metis fmlookup_dom'_iff subsetD)
      moreover have "k |\<in>| fmdom rows" using Some by (rule fmdomI)
      ultimately show ?thesis using Some unfolding m by simp
    qed
  qed
qed simp_all

lemma filter_iter_bytes:
  "row_bytes (filter (\<lambda>(k, v). k \<noteq> key) (iter t)) + length key + length raw = entry_bytes (fmupd key raw t)"
proof -
  have "filter (\<lambda>(k, v). k \<noteq> key) (iter t) = iter (fmdrop key t)"
  proof (rule pair_list_eqI)
    show "map_of (filter (\<lambda>(k, v). k \<noteq> key) (iter t)) = map_of (iter (fmdrop key t))"
    proof (rule ext)
      fix k
      have "map_of (filter (\<lambda>(k, v). k \<noteq> key) xs) k = (if k = key then None else map_of xs k)" for xs :: "(string \<times> bytes) list"
        by (induction xs) auto
      then show "map_of (filter (\<lambda>(k, v). k \<noteq> key) (iter t)) k = map_of (iter (fmdrop key t)) k" by simp
    qed
  qed (use sorted_wrt_filter [OF sorted_wrt_iter] in \<open>simp_all add: sorted_map distinct_map_filter sorted_wrt_iter\<close>)
  then have "row_bytes (filter (\<lambda>(k, v). k \<noteq> key) (iter t)) = entry_bytes (fmdrop key t)" by simp
  moreover have "entry_bytes (fmupd key raw t) = length key + length raw + entry_bytes (fmdrop key t)"
    by (simp add: table_weight_upd)
  ultimately show ?thesis by simp
qed

text \<open>
  The budget check of the preparation is the reader's limit on the resulting inventory, apart from
  the key lengths, which the adoption does not change.
\<close>

definition adopted_snapshot :: "rule_ownership_snapshot \<Rightarrow> table \<Rightarrow> string \<Rightarrow> bytes \<Rightarrow> rule_ownership_snapshot" where
  "adopted_snapshot snap rows key receipt = snap\<lparr>
     snap_rules := snap_rules snap ++\<^sub>f rows, snap_receipts := fmupd key receipt (snap_receipts snap)\<rparr>"

lemma table_len_add_sub:
  assumes "fmdom' rows \<subseteq> fmdom' t"
  shows "table_len (t ++\<^sub>f rows) = table_len t"
proof -
  have "fmdom (t ++\<^sub>f rows) = fmdom t" using assms by (auto simp: fmdom'_alt_def)
  then show ?thesis by simp
qed

theorem check_adoption_budget_fits:
  assumes budget: "check_adoption_budget snap rows key receipt = Inr ()" and fits: "snapshot_fits snap"
    and rows: "fmdom' rows \<subseteq> fmdom' (snap_rules snap)" and key: "length key \<le> length RECEIPT_PREFIX + 2048"
  shows "snapshot_fits (adopted_snapshot snap rows key receipt)"
proof -
  let ?rules = "snap_rules snap ++\<^sub>f rows" and ?receipts = "fmupd key receipt (snap_receipts snap)"
  have size: "length (project_raw snap) + opt_bytes (identity_epoch_raw snap) + opt_bytes (corpus_revision_raw snap)
      + entry_bytes ?rules + entry_bytes ?receipts \<le> SNAPSHOT_BYTES"
    and vals: "\<forall>(k, v) \<in> set (iter ?rules). length v \<le> VALUE_BYTES" "length receipt \<le> VALUE_BYTES"
    and count: "table_len (snap_receipts snap) + (if fmlookup (snap_receipts snap) key = None then 1 else 0) \<le> 256"
    using budget filter_iter_bytes [of key "snap_receipts snap" receipt]
    by (auto simp: check_adoption_budget_def admit_Inr admit_optional_Inr admit_rows_Inr replaced_rows_iter [OF rows])
  have "entries_admissible 0 ?rules"
    unfolding entries_admissible_def
  proof (intro allI impI conjI)
    fix k v
    assume kv: "fmlookup ?rules k = Some v"
    then show "length v \<le> VALUE_BYTES" using vals(1) by (auto simp: set_iter)
    from kv rows have "k \<in> fmdom' (snap_rules snap)" by (metis fmdom'_add fmlookup_dom'_iff sup.absorb1)
    with fits show "length k \<le> 0 + 2048"
      by (auto simp: snapshot_fits_def entries_admissible_def fmlookup_dom'_iff)
  qed
  moreover have "entries_admissible (length RECEIPT_PREFIX) ?receipts"
    using fits key vals(2) by (auto simp: snapshot_fits_def entries_admissible_def)
  moreover have "table_len ?receipts \<le> 256"
    using count table_len_upd [of key "snap_receipts snap"] by (auto split: if_splits)
  ultimately show ?thesis
    using fits size table_len_add_sub [OF rows]
    by (simp add: snapshot_fits_def snapshot_size_def adopted_snapshot_def)
qed

text \<open>The adopted form of a row: the raw object with its provenance field replaced, and no rule field changed but the provenance.\<close>

definition adopted_row :: "rule_codecs \<Rightarrow> string \<Rightarrow> bytes \<Rightarrow> bytes \<Rightarrow> bool" where
  "adopted_row R origin raw raw' \<longleftrightarrow>
     (\<exists>old object. from_slice (rule_json R) raw = Some old \<and> from_slice (object_json R) raw = Some object
        \<and> raw' = to_vec (object_json R) (fmupd ''provenance'' (raw_string R (SOURCE_PROVENANCE @ origin)) object)
        \<and> from_slice (rule_json R) raw' = Some (old\<lparr>provenance := Some (SOURCE_PROVENANCE @ origin)\<rparr>))"

lemma adopt_bytes_Inr:
  assumes "rule_codecs_ok R" "adopt_bytes R origin raw old = Inr (raw', new)" "from_slice (rule_json R) raw = Some old"
  shows "adopted_row R origin raw raw'" and "new = old\<lparr>provenance := Some (SOURCE_PROVENANCE @ origin)\<rparr>"
    and "from_slice (rule_json R) raw' = Some new"
proof -
  obtain object where o: "from_slice (object_json R) raw = Some object"
    "raw' = to_vec (object_json R) (fmupd ''provenance'' (raw_string R (SOURCE_PROVENANCE @ origin)) object)"
    "from_slice (rule_json R) raw' = Some new" "new\<lparr>provenance := provenance old\<rparr> = old"
    using assms(2) by (auto simp: adopt_bytes_def Let_def)
  then show "from_slice (rule_json R) raw' = Some new" by simp
  have "provenance new = Some (SOURCE_PROVENANCE @ origin)"
    using rule_codecs_ok_provenance [OF assms(1)] o(2,3) by simp
  with o(4) show new: "new = old\<lparr>provenance := Some (SOURCE_PROVENANCE @ origin)\<rparr>" by (cases new; cases old) simp
  with o assms(3) show "adopted_row R origin raw raw'" by (auto simp: adopted_row_def)
qed

definition adoption_inv :: "rule_codecs \<Rightarrow> rule_ownership_snapshot \<Rightarrow> string \<Rightarrow> rule_source_receipt \<Rightarrow> adoption_state \<Rightarrow> bool" where
  "adoption_inv R expected origin base st \<longleftrightarrow>
     fmdom' (as_rows st) = set (as_ids st)
     \<and> (\<forall>rid raw'. fmlookup (as_rows st) rid = Some raw' \<longrightarrow>
          (\<exists>raw new. fmlookup (snap_rules expected) rid = Some raw \<and> adopted_row R origin raw raw'
             \<and> from_slice (rule_json R) raw' = Some new \<and> rule_id new = rid \<and> new \<in> set (receipt_rules (as_receipt st))))
     \<and> (as_receipt st)\<lparr>receipt_rules := [], legacy_aliases := []\<rparr> = base\<lparr>receipt_rules := [], legacy_aliases := []\<rparr>
     \<and> filter (\<lambda>r. rule_id r \<notin> set (as_ids st)) (receipt_rules (as_receipt st))
         = filter (\<lambda>r. rule_id r \<notin> set (as_ids st)) (receipt_rules base)"

lemma adopt_binding_inv:
  assumes ok: "rule_codecs_ok R" and step: "adopt_binding R h expected origin key receipts b st = Inr st'"
    and inv: "adoption_inv R expected origin base st"
  shows "adoption_inv R expected origin base st'" and "as_ids st' = ab_rule_id b # as_ids st"
proof -
  obtain raw old raw' new where r: "adoption_row R h expected b st = Inr (raw, old)" "adopt_bytes R origin raw old = Inr (raw', new)"
    and st': "st' = \<lparr> as_receipt = (as_receipt st)\<lparr>
             receipt_rules := filter (\<lambda>r. rule_id r \<noteq> rule_id new) (receipt_rules (as_receipt st)) @ [new],
             legacy_aliases := legacy_aliases (as_receipt st) @ [adoption_alias h b old]\<rparr>,
           as_ids = ab_rule_id b # as_ids st, as_sources = ab_source_rule_id b # as_sources st,
           as_rows = fmupd (ab_rule_id b) raw' (as_rows st),
           as_changes = as_changes st @ [change_json h b old raw'],
           as_budget = as_budget st - length (ab_source_projection_json b) \<rparr>"
    using step by (auto simp: adopt_binding_def Let_def)
  have old: "fmlookup (snap_rules expected) (ab_rule_id b) = Some raw" "from_slice (rule_json R) raw = Some old"
    "rule_id old = ab_rule_id b" "ab_rule_id b \<notin> set (as_ids st)"
    using r(1) by (auto simp: adoption_row_def)
  note n = adopt_bytes_Inr [OF ok r(2) old(2)]
  have rid: "rule_id new = ab_rule_id b" using n(2) old(3) by simp
  have one: "(as_receipt st')\<lparr>receipt_rules := [], legacy_aliases := []\<rparr> = (as_receipt st)\<lparr>receipt_rules := [], legacy_aliases := []\<rparr>"
    by (simp add: st')
  have two: "\<exists>raw new. fmlookup (snap_rules expected) k = Some raw \<and> adopted_row R origin raw v
      \<and> from_slice (rule_json R) v = Some new \<and> rule_id new = k \<and> new \<in> set (receipt_rules (as_receipt st'))"
    if "fmlookup (as_rows st') k = Some v" for k v
  proof (cases "k = ab_rule_id b")
    case True
    with that have "v = raw'" by (simp add: st')
    with True old(1) n(1,3) rid show ?thesis by (auto simp: st')
  next
    case False
    with that have "fmlookup (as_rows st) k = Some v" by (simp add: st')
    with inv False rid show ?thesis by (fastforce simp: adoption_inv_def st')
  qed
  have three: "filter (\<lambda>r. rule_id r \<notin> set (as_ids st')) (receipt_rules (as_receipt st'))
      = filter (\<lambda>r. rule_id r \<notin> set (as_ids st')) (receipt_rules base)"
  proof -
    have f: "filter (\<lambda>r. rule_id r \<notin> set (as_ids st')) xs
        = filter (\<lambda>r. rule_id r \<noteq> ab_rule_id b) (filter (\<lambda>r. rule_id r \<notin> set (as_ids st)) xs)" for xs
      by (auto simp: st' intro: filter_cong)
    have g: "filter (\<lambda>r. rule_id r \<notin> set (as_ids st')) (receipt_rules (as_receipt st'))
        = filter (\<lambda>r. rule_id r \<notin> set (as_ids st')) (receipt_rules (as_receipt st))"
      by (auto simp: st' rid intro: filter_cong)
    have eq: "filter (\<lambda>r. rule_id r \<notin> set (as_ids st)) (receipt_rules (as_receipt st))
        = filter (\<lambda>r. rule_id r \<notin> set (as_ids st)) (receipt_rules base)"
      using inv unfolding adoption_inv_def by blast
    show ?thesis unfolding g unfolding f eq ..
  qed
  show "adoption_inv R expected origin base st'"
    unfolding adoption_inv_def using inv one two three by (auto simp: adoption_inv_def st')
  show "as_ids st' = ab_rule_id b # as_ids st" by (simp add: st')
qed

lemma adopt_bindings_inv:
  assumes "rule_codecs_ok R" "adopt_bindings R h expected origin key receipts bs st = Inr st'"
    and "adoption_inv R expected origin base st"
  shows "adoption_inv R expected origin base st' \<and> set (as_ids st') = ab_rule_id ` set bs \<union> set (as_ids st)"
  using assms(2,3)
proof (induction bs arbitrary: st)
  case (Cons b bs)
  then obtain st1 where s: "adopt_binding R h expected origin key receipts b st = Inr st1"
    "adopt_bindings R h expected origin key receipts bs st1 = Inr st'" by auto
  from adopt_binding_inv [OF assms(1) s(1) Cons.prems(2)] Cons.IH [OF s(2)] show ?case by auto
qed simp

lemma base_receipt_settled:
  assumes "traverseR (settled_receipt R h) rows = Inr receipts" "base_receipt R expected plan key receipts = Inr base"
  shows "\<not> receipt_pending base"
proof (cases "map_of receipts key")
  case None
  with assms(2) show ?thesis by (auto simp: base_receipt_def Let_def new_receipt_def)
next
  case (Some r)
  then have "(key, r) \<in> set receipts" by (rule map_of_SomeD)
  then obtain kv where "settled_receipt R h kv = Inr (key, r)" using traverseR_set(1) [OF assms(1)] by blast
  with assms(2) Some show ?thesis by (auto simp: base_receipt_def Let_def settled_receipt_def)
qed

lemma finish_adoption_Inr:
  assumes "finish_adoption R h expected plan decision_ref key st = Inr p"
  shows "validate_receipt R h (as_receipt st) key = Inr ()" "encode_receipt R (as_receipt st) = Inr (pr_receipt p)"
    "check_adoption_budget expected (as_rows st) key (pr_receipt p) = Inr ()"
    "pr_rows p = as_rows st" "pr_receipt_key p = key" "\<exists>digest. pr_audit_key p = ''quality_adoption:'' @ digest"
    "ao_audit_key (pr_outcome p) = pr_audit_key p"
    "ao_adopted_rule_ids (pr_outcome p) = map fst (iter (as_rows st))"
  using assms by (auto simp: finish_adoption_def Let_def)

definition prepared_by ::
  "rule_codecs \<Rightarrow> (bytes \<Rightarrow> string) \<Rightarrow> rule_ownership_snapshot \<Rightarrow> legacy_adoption_plan \<Rightarrow> prepared_adoption \<Rightarrow> rule_source_receipt \<Rightarrow> bool" where
  "prepared_by R h expected plan p c \<longleftrightarrow>
     decode_receipt R h (pr_receipt_key p) (pr_receipt p) = Inr c \<and> \<not> receipt_pending c
     \<and> pr_receipt_key p = source_key h (ap_origin plan) \<and> (\<exists>digest. pr_audit_key p = ''quality_adoption:'' @ digest)
     \<and> fmdom' (pr_rows p) = ab_rule_id ` set (ap_bindings plan)
     \<and> (\<forall>rid raw'. fmlookup (pr_rows p) rid = Some raw' \<longrightarrow>
       (\<exists>raw new. fmlookup (snap_rules expected) rid = Some raw \<and> adopted_row R (ap_origin plan) raw raw'
          \<and> from_slice (rule_json R) raw' = Some new \<and> rule_id new = rid \<and> new \<in> set (receipt_rules c)))
     \<and> check_adoption_budget expected (pr_rows p) (pr_receipt_key p) (pr_receipt p) = Inr ()
     \<and> ao_audit_key (pr_outcome p) = pr_audit_key p \<and> ao_adopted_rule_ids (pr_outcome p) = map fst (iter (pr_rows p))"

lemma prepared_byD:
  assumes "prepared_by R h expected plan p c"
  shows "decode_receipt R h (pr_receipt_key p) (pr_receipt p) = Inr c" "\<not> receipt_pending c"
    "pr_receipt_key p = source_key h (ap_origin plan)" "\<exists>digest. pr_audit_key p = ''quality_adoption:'' @ digest"
    "fmdom' (pr_rows p) = ab_rule_id ` set (ap_bindings plan)"
    "check_adoption_budget expected (pr_rows p) (pr_receipt_key p) (pr_receipt p) = Inr ()"
    "ao_audit_key (pr_outcome p) = pr_audit_key p"
    "rid \<in> ab_rule_id ` set (ap_bindings plan) \<Longrightarrow> \<exists>raw raw' new. fmlookup (pr_rows p) rid = Some raw'
       \<and> fmlookup (snap_rules expected) rid = Some raw \<and> adopted_row R (ap_origin plan) raw raw'
       \<and> rule_id new = rid \<and> new \<in> set (receipt_rules c)"
proof -
  show "\<exists>raw raw' new. fmlookup (pr_rows p) rid = Some raw'
       \<and> fmlookup (snap_rules expected) rid = Some raw \<and> adopted_row R (ap_origin plan) raw raw'
       \<and> rule_id new = rid \<and> new \<in> set (receipt_rules c)" if "rid \<in> ab_rule_id ` set (ap_bindings plan)"
  proof -
    have "rid \<in> fmdom' (pr_rows p)" using that assms by (simp add: prepared_by_def)
    then obtain raw' where "fmlookup (pr_rows p) rid = Some raw'" by (auto simp: fmlookup_dom'_iff)
    with assms show ?thesis unfolding prepared_by_def by blast
  qed
qed (insert assms, unfold prepared_by_def, blast+)

lemma prepared_by_row:
  assumes "prepared_by R h expected plan p c" and "fmlookup (pr_rows p) rid = Some raw'"
  shows "\<exists>new. from_slice (rule_json R) raw' = Some new \<and> rule_id new = rid"
proof -
  have "\<forall>rid raw'. fmlookup (pr_rows p) rid = Some raw' \<longrightarrow>
      (\<exists>raw new. fmlookup (snap_rules expected) rid = Some raw \<and> adopted_row R (ap_origin plan) raw raw'
        \<and> from_slice (rule_json R) raw' = Some new \<and> rule_id new = rid \<and> new \<in> set (receipt_rules c))"
    using assms(1) unfolding prepared_by_def by (elim conjE)
  with assms(2) show ?thesis by blast
qed

theorem prepare_adoption_Inr:
  assumes ok: "rule_codecs_ok R" and prep: "prepare_adoption R h expected plan decision_ref = Inr p"
  shows "\<exists>c. prepared_by R h expected plan p c"
proof -
  let ?key = "source_key h (ap_origin plan)"
  obtain receipts base st where
    e: "traverseR (settled_receipt R h) (iter (snap_receipts expected)) = Inr receipts"
      "base_receipt R expected plan ?key receipts = Inr base"
      "adopt_bindings R h expected (ap_origin plan) ?key receipts (ap_bindings plan)
          \<lparr> as_receipt = base, as_ids = [], as_sources = map alias_source_rule_id (legacy_aliases base),
            as_rows = fmempty, as_changes = [], as_budget = 2 * 1024 * 1024 \<rparr> = Inr st"
      "finish_adoption R h expected plan decision_ref ?key st = Inr p"
    using prep by (auto simp: prepare_adoption_def Let_def)
  have "adoption_inv R expected (ap_origin plan) base \<lparr> as_receipt = base, as_ids = [],
      as_sources = map alias_source_rule_id (legacy_aliases base), as_rows = fmempty, as_changes = [], as_budget = 2 * 1024 * 1024 \<rparr>"
    by (simp add: adoption_inv_def)
  from adopt_bindings_inv [OF ok e(3) this]
  have inv: "adoption_inv R expected (ap_origin plan) base st" "set (as_ids st) = ab_rule_id ` set (ap_bindings plan)"
    by simp_all
  note f = finish_adoption_Inr [OF e(4)]
  have "(as_receipt st)\<lparr>receipt_rules := [], legacy_aliases := []\<rparr> = base\<lparr>receipt_rules := [], legacy_aliases := []\<rparr>"
    using inv(1) unfolding adoption_inv_def by blast
  then have "receipt_pending (as_receipt st) = receipt_pending base" by (cases "as_receipt st"; cases base) simp
  then have pend: "\<not> receipt_pending (as_receipt st)" using base_receipt_settled [OF e(1,2)] by simp
  have "decode_receipt R h (pr_receipt_key p) (pr_receipt p) = Inr (as_receipt st)"
    using decode_encoded_receipt [OF ok f(1,2)] f(5) by simp
  moreover have "fmdom' (pr_rows p) = ab_rule_id ` set (ap_bindings plan)"
    using inv f(4) by (simp add: adoption_inv_def)
  moreover have "\<forall>rid raw'. fmlookup (pr_rows p) rid = Some raw' \<longrightarrow>
      (\<exists>raw new. fmlookup (snap_rules expected) rid = Some raw \<and> adopted_row R (ap_origin plan) raw raw'
        \<and> from_slice (rule_json R) raw' = Some new \<and> rule_id new = rid \<and> new \<in> set (receipt_rules (as_receipt st)))"
    using inv(1) f(4) unfolding adoption_inv_def by simp
  ultimately have "prepared_by R h expected plan p (as_receipt st)"
    using pend f unfolding prepared_by_def by simp
  then show ?thesis by blast
qed

lemma put_rows_lookup:
  "fmlookup (put_rows p (iter rows) t) (composite p rid) = (case fmlookup rows rid of Some raw \<Rightarrow> Some raw | None \<Rightarrow> fmlookup t (composite p rid))"
  "k \<notin> composite p ` fmdom' rows \<Longrightarrow> fmlookup (put_rows p (iter rows) t) k = fmlookup t k"
proof -
  have eq: "put_rows p xs t = fold (\<lambda>(k, v). fmupd k v) (map (\<lambda>(rid, raw). (composite p rid, raw)) xs) t" for xs
    unfolding put_rows_def by (induction xs arbitrary: t) auto
  have m: "map_of (map (\<lambda>(rid, raw). (composite p rid, raw)) xs) (composite p rid) = map_of xs rid"
    for xs :: "(string \<times> bytes) list" by (induction xs) auto
  have d: "distinct (map fst (map (\<lambda>(rid, raw). (composite p rid, raw)) (iter rows)))"
  proof -
    have "distinct (map (composite p) (map fst (iter rows)))"
      unfolding distinct_map [of "composite p"] by (simp add: inj_on_def)
    then show ?thesis by (simp add: comp_def case_prod_beta)
  qed
  show "fmlookup (put_rows p (iter rows) t) (composite p rid) = (case fmlookup rows rid of Some raw \<Rightarrow> Some raw | None \<Rightarrow> fmlookup t (composite p rid))"
    unfolding eq fold_fmupd_lookup_distinct [OF d] m by simp
  show "fmlookup (put_rows p (iter rows) t) k = fmlookup t k" if "k \<notin> composite p ` fmdom' rows"
  proof -
    have "map_of (map (\<lambda>(rid, raw). (composite p rid, raw)) (iter rows)) k = None"
      using that by (force simp: map_of_eq_None_iff set_iter fmlookup_dom'_iff)
    then show ?thesis unfolding eq fold_fmupd_lookup_distinct [OF d] by simp
  qed
qed

section \<open>Reviewing aliases\<close>

lemma current_policies_sound:
  assumes "current_policies R origin raws acc = Inr cur"
    and "\<forall>sid raw semantic. fmlookup acc sid = Some (raw, semantic) \<longrightarrow> policy R raw origin = Inr semantic"
  shows "\<forall>sid raw semantic. fmlookup cur sid = Some (raw, semantic) \<longrightarrow> policy R raw origin = Inr semantic"
  using assms
proof (induction raws arbitrary: acc)
  case (Cons raw raws)
  from Cons.prems(1) obtain sid semantic where s: "policy R raw origin = Inr semantic"
    "current_policies R origin raws (fmupd sid (raw, semantic) acc) = Inr cur" by auto
  show ?case
  proof (rule Cons.IH [OF s(2)], intro allI impI)
    fix k w v
    assume "fmlookup (fmupd sid (raw, semantic) acc) k = Some (w, v)"
    then have "w = raw \<and> v = semantic \<or> fmlookup acc k = Some (w, v)" by (simp split: if_splits)
    with Cons.prems(2) s(1) show "policy R w origin = Inr v" by blast
  qed
qed simp

text \<open>A rebinding: an alias of the same rule whose projection has the same policy.\<close>

definition rebinding :: "rule_codecs \<Rightarrow> string \<Rightarrow> legacy_rule_alias list \<Rightarrow> legacy_rule_alias \<Rightarrow> bool" where
  "rebinding R origin olds n \<longleftrightarrow>
     (\<exists>a \<in> set olds. \<exists>v. alias_rule_id n = alias_rule_id a \<and> alias_source_rule_id n \<noteq> alias_source_rule_id a
        \<and> policy R (alias_projection_json a) origin = Inr v \<and> policy R (alias_projection_json n) origin = Inr v)"

text \<open>The rebinding that a disposition of a review asks for.\<close>

definition rebinds :: "rule_codecs \<Rightarrow> string \<Rightarrow> legacy_rule_alias list \<Rightarrow> alias_review_binding \<Rightarrow> legacy_rule_alias \<Rightarrow> bool" where
  "rebinds R origin olds b n \<longleftrightarrow> alias_rule_id n = rb_rule_id b
     \<and> rb_disposition b = RebindOnlyUnchanged (alias_source_rule_id n) \<and> rebinding R origin olds n"

definition kept_bindings :: "alias_review_binding list \<Rightarrow> alias_review_binding list" where
  "kept_bindings bs = filter (\<lambda>b. rb_disposition b \<noteq> Retire) bs"

definition retired_ids :: "alias_review_binding list \<Rightarrow> string set" where
  "retired_ids bs = rb_rule_id ` {b \<in> set bs. rb_disposition b = Retire}"

lemma review_binding_Inr:
  assumes "review_binding R h expected origin receipt key receipts current b st = Inr st'"
    and cur: "\<forall>sid raw semantic. fmlookup current sid = Some (raw, semantic) \<longrightarrow> policy R raw origin = Inr semantic"
  shows "set (rs_selected st') = insert (rb_rule_id b) (set (rs_selected st))"
    and "set (rs_remove st') = retired_ids [b] \<union> set (rs_remove st)"
    and "\<exists>new. rs_replacements st' = rs_replacements st @ new
           \<and> list_all2 (rebinds R origin (legacy_aliases receipt)) (kept_bindings [b]) new"
    and "\<exists>raw. fmlookup (snap_rules expected) (rb_rule_id b) = Some raw"
proof -
  obtain raw a old_policy next_alias utf where r:
    "review_row R h expected receipt key receipts b (rs_selected st) = Inr (raw, a)"
    "policy R (alias_projection_json a) origin = Inr old_policy"
    "review_action h current a old_policy (rb_disposition b) = Inr next_alias"
    and st': "st' = \<lparr> rs_selected = rb_rule_id b # rs_selected st,
       rs_remove = (case next_alias of None \<Rightarrow> rb_rule_id b # rs_remove st | Some _ \<Rightarrow> rs_remove st),
       rs_rebound = rs_rebound st @ (case next_alias of None \<Rightarrow> [] | Some _ \<Rightarrow> [rb_rule_id b]),
       rs_replacements = rs_replacements st @ (case next_alias of None \<Rightarrow> [] | Some n \<Rightarrow> [n]),
       rs_changes = rs_changes st @ [review_change b utf a next_alias
         (case next_alias of None \<Rightarrow> rb_rule_id b # rs_remove st | Some _ \<Rightarrow> rs_remove st)] \<rparr>"
    using assms(1) by (auto simp: review_binding_def Let_def)
  have a: "a \<in> set (legacy_aliases receipt)" "alias_rule_id a = rb_rule_id b" and raw: "fmlookup (snap_rules expected) (rb_rule_id b) = Some raw"
    using r(1) by (auto simp: review_row_def dest!: find_SomeD)
  have act: "next_alias = None \<longleftrightarrow> rb_disposition b = Retire"
    using r(3) by (auto simp: review_action_def split: alias_review_action.splits)
  have reb: "rebinds R origin (legacy_aliases receipt) b n" if "next_alias = Some n" for n
    using r(2,3) that a cur
    by (auto simp: review_action_def rebinding_def rebinds_def intro!: bexI [of _ a] split: alias_review_action.splits)
  show "set (rs_selected st') = insert (rb_rule_id b) (set (rs_selected st))" by (simp add: st')
  show "set (rs_remove st') = retired_ids [b] \<union> set (rs_remove st)"
    using act by (auto simp: st' retired_ids_def split: option.splits)
  show "\<exists>new. rs_replacements st' = rs_replacements st @ new
      \<and> list_all2 (rebinds R origin (legacy_aliases receipt)) (kept_bindings [b]) new"
    by (rule exI [of _ "case next_alias of None \<Rightarrow> [] | Some n \<Rightarrow> [n]"])
      (use reb act in \<open>auto simp: st' kept_bindings_def split: option.split\<close>)
  show "\<exists>raw. fmlookup (snap_rules expected) (rb_rule_id b) = Some raw" using raw by blast
qed

lemma retired_ids_Cons: "retired_ids (b # bs) = retired_ids [b] \<union> retired_ids bs"
  by (auto simp: retired_ids_def)

lemma review_bindings_Inr:
  assumes "review_bindings R h expected origin receipt key receipts current bs st = Inr st'"
    and cur: "\<forall>sid raw semantic. fmlookup current sid = Some (raw, semantic) \<longrightarrow> policy R raw origin = Inr semantic"
  shows "set (rs_selected st') = rb_rule_id ` set bs \<union> set (rs_selected st)
    \<and> set (rs_remove st') = retired_ids bs \<union> set (rs_remove st)
    \<and> (\<exists>new. rs_replacements st' = rs_replacements st @ new
         \<and> list_all2 (rebinds R origin (legacy_aliases receipt)) (kept_bindings bs) new)"
  using assms(1)
proof (induction bs arbitrary: st)
  case (Cons b bs)
  then obtain st1 where s: "review_binding R h expected origin receipt key receipts current b st = Inr st1"
    "review_bindings R h expected origin receipt key receipts current bs st1 = Inr st'" by auto
  note b = review_binding_Inr [OF s(1) cur] and IH = Cons.IH [OF s(2)]
  obtain new new1 where "rs_replacements st1 = rs_replacements st @ new1" "rs_replacements st' = rs_replacements st1 @ new"
    "list_all2 (rebinds R origin (legacy_aliases receipt)) (kept_bindings [b]) new1"
    "list_all2 (rebinds R origin (legacy_aliases receipt)) (kept_bindings bs) new"
    using b(3) IH by blast
  moreover have "kept_bindings (b # bs) = kept_bindings [b] @ kept_bindings bs" by (simp add: kept_bindings_def)
  ultimately have "rs_replacements st' = rs_replacements st @ (new1 @ new)
      \<and> list_all2 (rebinds R origin (legacy_aliases receipt)) (kept_bindings (b # bs)) (new1 @ new)"
    by (simp add: list_all2_appendI)
  moreover have "set (rs_selected st') = rb_rule_id ` set (b # bs) \<union> set (rs_selected st)"
    "set (rs_remove st') = retired_ids (b # bs) \<union> set (rs_remove st)"
    using IH b(1,2) unfolding retired_ids_Cons [of b bs] by auto
  ultimately show ?case by blast
qed (simp add: retired_ids_def kept_bindings_def)

definition review_prepared_by ::
  "rule_codecs \<Rightarrow> (bytes \<Rightarrow> string) \<Rightarrow> rule_ownership_snapshot \<Rightarrow> alias_review_plan \<Rightarrow> prepared_review
     \<Rightarrow> rule_source_receipt \<Rightarrow> rule_source_receipt \<Rightarrow> bool" where
  "review_prepared_by R h expected plan pv c c' \<longleftrightarrow>
     (\<exists>before. fmlookup (snap_receipts expected) (pv_receipt_key pv) = Some before \<and> decode_receipt R h (pv_receipt_key pv) before = Inr c)
     \<and> pv_receipt_key pv = source_key h (rp_origin plan) \<and> decode_receipt R h (pv_receipt_key pv) (pv_receipt pv) = Inr c'
     \<and> set (pv_remove pv) = retired_ids (rp_bindings plan)
     \<and> (\<exists>rebound. list_all2 (rebinds R (rp_origin plan) (legacy_aliases c)) (kept_bindings (rp_bindings plan)) rebound
          \<and> c' = c\<lparr>receipt_pending := True,
           legacy_aliases := filter (\<lambda>a. alias_rule_id a \<notin> rb_rule_id ` set (rp_bindings plan)) (legacy_aliases c) @ rebound,
           receipt_rules := filter (\<lambda>r. rule_id r \<notin> retired_ids (rp_bindings plan)) (receipt_rules c)\<rparr>)
     \<and> (\<exists>digest. ro_audit_key (pv_outcome pv) = ''quality_alias_review:'' @ digest)
     \<and> set (ro_retired_rule_ids (pv_outcome pv)) = retired_ids (rp_bindings plan)"

theorem prepare_review_Inr:
  assumes ok: "rule_codecs_ok R" and prep: "prepare_review R h expected plan decision_ref = Inr pv"
  shows "\<exists>c c'. review_prepared_by R h expected plan pv c c'"
proof -
  let ?key = "source_key h (rp_origin plan)"
  obtain before c receipts current st where e:
    "fmlookup (snap_receipts expected) ?key = Some before" "decode_receipt R h ?key before = Inr c"
    "current_policies R (rp_origin plan) (rp_current_projections plan) fmempty = Inr current"
    "review_bindings R h expected (rp_origin plan) c ?key receipts current (rp_bindings plan)
       \<lparr> rs_selected = [], rs_remove = [], rs_rebound = [], rs_replacements = [], rs_changes = [] \<rparr> = Inr st"
    "finish_review R h expected plan decision_ref ?key before c st = Inr pv"
    using prep by (auto simp: prepare_review_def Let_def)
  have cur: "\<forall>sid raw semantic. fmlookup current sid = Some (raw, semantic) \<longrightarrow> policy R raw (rp_origin plan) = Inr semantic"
    by (rule current_policies_sound [OF e(3)]) simp
  from review_bindings_Inr [OF e(4) cur]
  have st: "set (rs_selected st) = rb_rule_id ` set (rp_bindings plan)" "set (rs_remove st) = retired_ids (rp_bindings plan)"
    "list_all2 (rebinds R (rp_origin plan) (legacy_aliases c)) (kept_bindings (rp_bindings plan)) (rs_replacements st)" by auto
  have f: "validate_receipt R h (reviewed_receipt c st) ?key = Inr ()" "encode_receipt R (reviewed_receipt c st) = Inr (pv_receipt pv)"
    "pv_receipt_key pv = ?key" "set (pv_remove pv) = set (rs_remove st)"
    "\<exists>digest. ro_audit_key (pv_outcome pv) = ''quality_alias_review:'' @ digest"
    "set (ro_retired_rule_ids (pv_outcome pv)) = set (rs_remove st)"
    using e(5) by (auto simp: finish_review_def Let_def)
  have "review_prepared_by R h expected plan pv c (reviewed_receipt c st)"
    unfolding review_prepared_by_def f(3)
  proof (intro conjI)
    show "\<exists>rebound. list_all2 (rebinds R (rp_origin plan) (legacy_aliases c)) (kept_bindings (rp_bindings plan)) rebound
        \<and> reviewed_receipt c st = c\<lparr>receipt_pending := True,
           legacy_aliases := filter (\<lambda>a. alias_rule_id a \<notin> rb_rule_id ` set (rp_bindings plan)) (legacy_aliases c) @ rebound,
           receipt_rules := filter (\<lambda>r. rule_id r \<notin> retired_ids (rp_bindings plan)) (receipt_rules c)\<rparr>"
      by (rule exI [of _ "rs_replacements st"]) (use st in \<open>cases c, simp add: reviewed_receipt_def\<close>)
  qed (use e(1,2) f st(2) decode_encoded_receipt [OF ok f(1,2)] in auto)
  then show ?thesis by blast
qed

lemma subtable_rules: "fmlookup (subtable (p @ [NUL]) [] t) rid = fmlookup t (composite p rid)"
  by (simp add: composite_def)


lemma commit_adoption_Inr:
  assumes "commit_legacy_adoption R h expected prepared fail s = Inr (out, t)"
  obtains current digest where
    "from_tables (snap_project_id expected) (projects s) (repo_rules s) (meta s) = Inr current"
    "adoption_basis_digest R h current = Inr digest" "adoption_basis_digest R h expected = Inr digest"
    "out = pr_outcome prepared"
    "t = s\<lparr>repo_rules := put_rows (snap_project_id expected) (iter (pr_rows prepared)) (repo_rules s),
        meta := fmupd (composite (snap_project_id expected) (pr_audit_key prepared)) (pr_audit prepared)
          (fmupd (composite (snap_project_id expected) (pr_receipt_key prepared)) (pr_receipt prepared) (meta s))\<rparr>"
    "fmlookup (meta s) (composite (snap_project_id expected) (pr_audit_key prepared)) = None"
  using assms by (auto simp: commit_legacy_adoption_def Let_def)

lemma exact_snapshot_adopted:
  assumes "fmdom' rows \<subseteq> fmdom' (subtable (p @ [NUL]) [] rule_rows)"
  shows "exact_snapshot p praw (put_rows p (iter rows) rule_rows)
      (fmupd (composite p (''quality_adoption:'' @ d)) audit (fmupd (composite p (source_key h origin)) receipt metadata))
    = adopted_snapshot (exact_snapshot p praw rule_rows metadata) rows (source_key h origin) receipt"
proof -
  let ?m = "fmupd (composite p (''quality_adoption:'' @ d)) audit (fmupd (composite p (source_key h origin)) receipt metadata)"
  have rules: "subtable (p @ [NUL]) [] (put_rows p (iter rows) rule_rows) = subtable (p @ [NUL]) [] rule_rows ++\<^sub>f rows"
  proof (rule fmap_ext)
    fix rid
    show "fmlookup (subtable (p @ [NUL]) [] (put_rows p (iter rows) rule_rows)) rid
        = fmlookup (subtable (p @ [NUL]) [] rule_rows ++\<^sub>f rows) rid"
      unfolding subtable_rules fmlookup_add put_rows_lookup
      by (cases "fmlookup rows rid") (auto simp: fmdom_notI dest: fmdomI)
  qed
  have receipts: "subtable (composite p RECEIPT_PREFIX) RECEIPT_PREFIX ?m
      = fmupd (source_key h origin) receipt (subtable (composite p RECEIPT_PREFIX) RECEIPT_PREFIX metadata)"
  proof (rule fmap_ext)
    fix k
    show "fmlookup (subtable (composite p RECEIPT_PREFIX) RECEIPT_PREFIX ?m) k
        = fmlookup (fmupd (source_key h origin) receipt (subtable (composite p RECEIPT_PREFIX) RECEIPT_PREFIX metadata)) k"
    proof (cases "prefix RECEIPT_PREFIX k")
      case True
      then obtain sx where "k = RECEIPT_PREFIX @ sx" by (auto simp: prefix_def)
      moreover have "RECEIPT_PREFIX @ sx \<noteq> ''quality_adoption:'' @ d" by (simp add: RECEIPT_PREFIX_def)
      ultimately show ?thesis by simp
    next
      case False
      then have "k \<noteq> source_key h origin" by (auto simp: source_key_def)
      with False show ?thesis by simp
    qed
  qed
  have "fmlookup ?m (composite p IDENTITY_EPOCH) = fmlookup metadata (composite p IDENTITY_EPOCH)"
    "fmlookup ?m (composite p ''quality_corpus_revision'') = fmlookup metadata (composite p ''quality_corpus_revision'')"
    by (simp_all add: source_key_def RECEIPT_PREFIX_def IDENTITY_EPOCH_def)
  with rules receipts show ?thesis unfolding exact_snapshot_def adopted_snapshot_def by simp
qed


text \<open>
  A transition prepared from the current snapshot commits: the budget checked in the preparation
  is the one the final inventory has to meet.
\<close>

lemma commit_when_current:
  assumes ok: "rule_codecs_ok R" and hex: "\<And>x. length (h x) = 64"
    and snap: "from_tables p (projects s) (repo_rules s) (meta s) = Inr snap"
    and prep: "prepare_adoption R h snap plan decision_ref = Inr pr"
    and fresh: "fmlookup (meta s) (composite p (ao_audit_key (pr_outcome pr))) = None"
  shows "\<exists>t. commit_legacy_adoption R h snap pr False s = Inr (pr_outcome pr, t)"
proof -
  obtain digest where digest: "adoption_basis_digest R h snap = Inr digest"
    using prep by (auto simp: prepare_adoption_def)
  obtain praw where p: "fmlookup (projects s) p = Some praw" "snap = exact_snapshot p praw (repo_rules s) (meta s)"
    and fits: "snapshot_fits snap"
    using snap unfolding from_tables_iff by blast
  have id: "snap_project_id snap = p" by (simp add: p(2) exact_snapshot_def)
  obtain c where pb: "prepared_by R h snap plan pr c" using prepare_adoption_Inr [OF ok prep] by blast
  obtain d where d: "pr_audit_key pr = ''quality_adoption:'' @ d" using prepared_byD(4) [OF pb] by blast
  note c = prepared_byD(3,6,7) [OF pb] d
  have "rid \<in> fmdom' (snap_rules snap)" if "rid \<in> fmdom' (pr_rows pr)" for rid
  proof -
    have "rid \<in> ab_rule_id ` set (ap_bindings plan)" using that prepared_byD(5) [OF pb] by simp
    from prepared_byD(8) [OF pb this] show ?thesis by (auto simp: fmlookup_dom'_iff)
  qed
  then have sub: "fmdom' (pr_rows pr) \<subseteq> fmdom' (snap_rules snap)" by blast
  let ?s = "s\<lparr>repo_rules := put_rows p (iter (pr_rows pr)) (repo_rules s),
      meta := fmupd (composite p (pr_audit_key pr)) (pr_audit pr) (fmupd (composite p (pr_receipt_key pr)) (pr_receipt pr) (meta s))\<rparr>"
  have "length (pr_receipt_key pr) \<le> length RECEIPT_PREFIX + 2048" by (simp add: c(1) source_key_def hex)
  note after = check_adoption_budget_fits [OF c(2) fits sub this]
  have "exact_snapshot p praw (repo_rules ?s) (meta ?s) = adopted_snapshot snap (pr_rows pr) (pr_receipt_key pr) (pr_receipt pr)"
    using exact_snapshot_adopted [of "pr_rows pr" p "repo_rules s"] sub by (simp add: c(1,4) p(2) exact_snapshot_def)
  with after p(1) have "from_tables p (projects ?s) (repo_rules ?s) (meta ?s)
      = Inr (adopted_snapshot snap (pr_rows pr) (pr_receipt_key pr) (pr_receipt pr))"
    by (simp add: from_tables_iff)
  moreover have "from_tables p (projects s) (repo_rules s) (meta s) = Inr snap" using p fits by (simp add: from_tables_iff)
  ultimately have "commit_legacy_adoption R h snap pr False s = Inr (pr_outcome pr, ?s)"
    using fresh digest by (simp add: commit_legacy_adoption_def id Let_def c(3))
  then show ?thesis by blast
qed

end
