(* ===== verification/Rule_Wire.thy ===== *)
theory Rule_Wire
  imports Rule_Data Wire
begin

text \<open>
  A concrete, executable instance of the encoders of the rule components, with the laws of
  \<open>rule_codecs_ok\<close> proved. A rule is encoded as the object of its fields, so that rows with
  further fields, and rows whose provenance field is replaced, decode as the program relies on.
\<close>

section \<open>JSON values\<close>

primrec put_json :: "json \<Rightarrow> bytes" where
  "put_json JNull = ''n''"
| "put_json (JBool b) = (if b then ''t'' else ''f'')"
| "put_json (JInt i) = (if 0 \<le> i then CHR ''+'' # replicate (nat i) (CHR ''1'') else CHR ''-'' # replicate (nat (- i)) (CHR ''1''))"
| "put_json (JFloat s) = CHR ''r'' # s"
| "put_json (JString s) = CHR ''s'' # s"
| "put_json (JArray vs) = CHR ''a'' # put (list_w string_w) (map put_json vs)"
| "put_json (JObject m) = CHR ''o'' # put (list_w (pair_w string_w string_w)) (iter (fmmap put_json m))"

definition snd_option :: "('b \<Rightarrow> 'c option) \<Rightarrow> 'a \<times> 'b \<Rightarrow> ('a \<times> 'c) option" where
  "snd_option f kv = map_option (\<lambda>v. (fst kv, v)) (f (snd kv))"

fun get_json :: "nat \<Rightarrow> bytes \<Rightarrow> json option" where
  "get_json 0 bs = None"
| "get_json (Suc n) bs = (case bs of [] \<Rightarrow> None | c # cs \<Rightarrow>
     if c = CHR ''n'' then Some JNull
     else if c = CHR ''t'' then Some (JBool True)
     else if c = CHR ''f'' then Some (JBool False)
     else if c = CHR ''+'' then Some (JInt (int (length cs)))
     else if c = CHR ''-'' then Some (JInt (- int (length cs)))
     else if c = CHR ''r'' then Some (JFloat cs)
     else if c = CHR ''s'' then Some (JString cs)
     else if c = CHR ''a'' then Option.bind (get (list_w string_w) cs) (\<lambda>(xs, _).
            map_option JArray (those (map (get_json n) xs)))
     else Option.bind (get (list_w (pair_w string_w string_w)) cs) (\<lambda>(xs, _).
            map_option (\<lambda>kvs. JObject (fmap_of_list kvs)) (those (map (snd_option (get_json n)) xs))))"

lemma those_map_Some: "(\<And>x. x \<in> set xs \<Longrightarrow> f x = Some (g x)) \<Longrightarrow> those (map f xs) = Some (map g xs)"
  by (induction xs) auto

lemma length_put_string: "length s \<le> length (put string_w s)"
proof -
  have "length s \<le> length (put_list char_w s)" by (induction s) (auto simp: char_w_def)
  then show ?thesis by (simp add: string_w_def list_w_def)
qed

lemma length_put_elem: "x \<in> set xs \<Longrightarrow> length (put w x) < length (put_list w xs)"
  by (induction xs) auto

lemma fmap_of_list_iter [simp]: "fmap_of_list (iter m) = m"
  by (rule fmap_ext) (simp add: fmlookup_of_list)

lemma get_put_json: "length (put_json v) < n \<Longrightarrow> get_json n (put_json v) = Some v"
proof (induction v arbitrary: n)
  case (JArray vs)
  then obtain m where n: "n = Suc m" by (cases n) auto
  have "get_json m (put_json v) = Some v" if v: "v \<in> set vs" for v
  proof -
    have "length (put string_w (put_json v)) < length (put_list string_w (map put_json vs))"
      using v by (intro length_put_elem) simp
    with length_put_string [of "put_json v"] JArray.prems n have "length (put_json v) < m" by (simp add: list_w_def)
    with JArray.IH [OF v] show ?thesis .
  qed
  then have "those (map (get_json m) (map put_json vs)) = Some vs"
    using those_map_Some [of vs "get_json m \<circ> put_json" id] by simp
  then show ?case by (simp add: n)
next
  case (JObject x)
  then obtain m where n: "n = Suc m" by (cases n) auto
  let ?xs = "iter (fmmap put_json x)"
  have el: "snd_option (get_json m) (k, b) = Some (k, the (fmlookup x k))" if kb: "(k, b) \<in> set ?xs" for k b
  proof -
    obtain v where v: "fmlookup x k = Some v" "b = put_json v" using kb by (auto simp: set_iter)
    have "length (put (pair_w string_w string_w) (k, b)) < length (put_list (pair_w string_w string_w) ?xs)"
      using kb by (rule length_put_elem)
    then have "length b < m" using length_put_string [of b] JObject.prems n by (simp add: list_w_def pair_w_def)
    moreover have "v \<in> fmran' x" using v(1) by (rule fmran'I)
    ultimately show ?thesis using JObject.IH [of v m] v by (simp add: snd_option_def)
  qed
  then have "those (map (snd_option (get_json m)) ?xs) = Some (map (\<lambda>kb. (fst kb, the (fmlookup x (fst kb)))) ?xs)"
    by (intro those_map_Some) auto
  moreover have "fmap_of_list (map (\<lambda>kb. (fst kb, the (fmlookup x (fst kb)))) ?xs) = x"
  proof (rule fmap_ext)
    fix k
    have "map_of (map (\<lambda>kb. (fst kb, the (fmlookup x (fst kb)))) ys) k = (if k \<in> fst ` set ys then Some (the (fmlookup x k)) else None)"
      for ys :: "(string \<times> bytes) list" by (induction ys) auto
    moreover have "k \<in> fst ` set ?xs \<longleftrightarrow> fmlookup x k \<noteq> None"
      using dom_map_of_conv_image_fst [of ?xs] by (auto simp: dom_def)
    ultimately show "fmlookup (fmap_of_list (map (\<lambda>kb. (fst kb, the (fmlookup x (fst kb)))) ?xs)) k = fmlookup x k"
      by (auto simp: fmlookup_of_list)
  qed
  ultimately show ?case by (simp add: n)
qed (case_tac n; simp)+

definition json_codec :: "json codec" where
  "json_codec = \<lparr> to_vec = put_json, from_slice = (\<lambda>bs. get_json (length bs + 1) bs) \<rparr>"

lemma json_codec_ok [simp]: "codec_ok json_codec"
  by (simp add: codec_ok_def json_codec_def get_put_json del: get_json.simps)

section \<open>Rules and receipts\<close>

definition object_w :: "(string, string) fmap wire" where
  "object_w = map_w iter fmap_of_list (list_w (pair_w string_w string_w))"

lemma object_w_ok [simp]: "wire_ok object_w"
  unfolding object_w_def by (rule map_w_ok) simp_all

text \<open>The raw text of a field, and a rule as the object of its fields.\<close>

definition raw_of :: "'a wire \<Rightarrow> 'a \<Rightarrow> string" where
  "raw_of w x = put w x"

definition field :: "'a wire \<Rightarrow> string \<Rightarrow> (string, string) fmap \<Rightarrow> 'a option" where
  "field w k m = Option.bind (fmlookup m k) (\<lambda>raw. map_option fst (get w raw))"

lemma field_upd [simp]:
  "wire_ok w \<Longrightarrow> field w k (fmupd k (raw_of w x) m) = Some x" "k \<noteq> l \<Longrightarrow> field w k (fmupd l r m) = field w k m"
  by (simp_all add: field_def raw_of_def)

definition rule_object :: "repo_rule \<Rightarrow> (string, string) fmap" where
  "rule_object r = fmap_of_list [(''rule_id'', raw_of string_w (rule_id r)), (''file_pattern'', raw_of string_w (file_pattern r)),
     (''rule_text'', raw_of string_w (rule_text r)), (''priority'', raw_of word_w (rule_priority r)),
     (''updated_at_ms'', raw_of u64_w (rule_updated_at_ms r)), (''introduced_at'', raw_of (option_w string_w) (introduced_at r)),
     (''provenance'', raw_of (option_w string_w) (provenance r))]"

definition object_rule :: "(string, string) fmap \<Rightarrow> repo_rule option" where
  "object_rule m =
     Option.bind (field string_w ''rule_id'' m) (\<lambda>i. Option.bind (field string_w ''file_pattern'' m) (\<lambda>f.
     Option.bind (field string_w ''rule_text'' m) (\<lambda>t. Option.bind (field word_w ''priority'' m) (\<lambda>p.
     Option.bind (field u64_w ''updated_at_ms'' m) (\<lambda>u. Option.bind (field (option_w string_w) ''introduced_at'' m) (\<lambda>n.
     map_option (\<lambda>v. \<lparr> rule_id = i, file_pattern = f, rule_text = t, rule_priority = p, rule_updated_at_ms = u,
                        introduced_at = n, provenance = v \<rparr>) (field (option_w string_w) ''provenance'' m)))))))"

lemma fmadd_rule_object:
  "m ++\<^sub>f rule_object r = fmupd ''rule_id'' (raw_of string_w (rule_id r)) (fmupd ''file_pattern'' (raw_of string_w (file_pattern r))
     (fmupd ''rule_text'' (raw_of string_w (rule_text r)) (fmupd ''priority'' (raw_of word_w (rule_priority r))
     (fmupd ''updated_at_ms'' (raw_of u64_w (rule_updated_at_ms r)) (fmupd ''introduced_at'' (raw_of (option_w string_w) (introduced_at r))
     (fmupd ''provenance'' (raw_of (option_w string_w) (provenance r)) m))))))"
  by (rule fmap_ext) (simp add: rule_object_def)

lemma object_rule_object [simp]: "object_rule (m ++\<^sub>f rule_object r) = Some r"
  unfolding fmadd_rule_object object_rule_def by simp

lemma object_rule_provenance:
  "object_rule (fmupd ''provenance'' (raw_of (option_w string_w) v) m) = Some r \<Longrightarrow> provenance r = v"
  by (auto simp: object_rule_def bind_eq_Some_conv)

definition rule_codec :: "repo_rule codec" where
  "rule_codec = \<lparr> to_vec = (\<lambda>r. put object_w (rule_object r)),
     from_slice = (\<lambda>bs. Option.bind (get object_w bs) (\<lambda>(m, _). object_rule m)) \<rparr>"

definition alias_w :: "legacy_rule_alias wire" where
  "alias_w = map_w (\<lambda>a. (alias_rule_id a, alias_source_rule_id a, alias_projection_json a, alias_projection_blake3 a))
     (\<lambda>(i, s, j, b). \<lparr> alias_rule_id = i, alias_source_rule_id = s, alias_projection_json = j, alias_projection_blake3 = b \<rparr>)
     (pair_w string_w (pair_w string_w (pair_w string_w string_w)))"

definition rule_w :: "repo_rule wire" where
  "rule_w = map_w (\<lambda>r. (rule_id r, file_pattern r, rule_text r, rule_priority r, rule_updated_at_ms r, introduced_at r, provenance r))
     (\<lambda>(i, f, t, p, u, n, v). \<lparr> rule_id = i, file_pattern = f, rule_text = t, rule_priority = p, rule_updated_at_ms = u,
        introduced_at = n, provenance = v \<rparr>)
     (pair_w string_w (pair_w string_w (pair_w string_w (pair_w word_w (pair_w u64_w (pair_w (option_w string_w) (option_w string_w)))))))"

definition receipt_w :: "rule_source_receipt wire" where
  "receipt_w = map_w (\<lambda>c. (receipt_origin c, source_hash c, authored c, receipt_pending c, doc_ids c, receipt_rules c, cleanup c,
       corpus_revision c, legacy_aliases c))
     (\<lambda>(or, sh, au, pe, ds, rs, cl, cr, las). \<lparr> receipt_origin = or, source_hash = sh, authored = au, receipt_pending = pe,
        doc_ids = ds, receipt_rules = rs, cleanup = cl, corpus_revision = cr, legacy_aliases = las \<rparr>)
     (pair_w string_w (pair_w string_w (pair_w bool_w (pair_w bool_w (pair_w (list_w string_w) (pair_w (list_w rule_w)
       (pair_w (list_w string_w) (pair_w string_w (list_w alias_w)))))))))"

text \<open>The hashed streams of a snapshot and of an adoption basis encode every part of them.\<close>

definition basis_w :: "adoption_basis wire" where
  "basis_w = pair_w string_w (pair_w string_w (pair_w string_w (pair_w (option_w string_w) (pair_w (option_w string_w)
     (pair_w object_w object_w)))))"

definition snapshot_w :: "rule_ownership_snapshot wire" where
  "snapshot_w = map_w (\<lambda>s. (snap_project_id s, project_raw s, identity_epoch_raw s, corpus_revision_raw s, snap_rules s, snap_receipts s))
     (\<lambda>(p, r, e, c, rs, cs). \<lparr> snap_project_id = p, project_raw = r, identity_epoch_raw = e, corpus_revision_raw = c,
        snap_rules = rs, snap_receipts = cs \<rparr>)
     (pair_w string_w (pair_w string_w (pair_w (option_w string_w) (pair_w (option_w string_w) (pair_w object_w object_w)))))"

definition wire_rules :: rule_codecs where
  "wire_rules = \<lparr> registry_json = wire_codecs, rule_json = rule_codec, receipt_json = wire_codec receipt_w,
     alias_json = wire_codec alias_w, object_json = wire_codec object_w,
     raw_string = (\<lambda>p. raw_of (option_w string_w) (Some p)), value_json = json_codec,
     snapshot_bytes = put snapshot_w, basis_bytes = put basis_w,
     adoption_bytes = (\<lambda>(b, plan). b @ ap_origin plan), review_bytes = (\<lambda>(b, plan, d). b @ rp_origin plan @ d) \<rparr>"

lemma wire_rules_sel [simp]:
  "registry_json wire_rules = wire_codecs" "to_vec (rule_json wire_rules) r = put object_w (rule_object r)"
  "from_slice (rule_json wire_rules) (put object_w m) = object_rule m" "receipt_json wire_rules = wire_codec receipt_w"
  "alias_json wire_rules = wire_codec alias_w" "object_json wire_rules = wire_codec object_w"
  "raw_string wire_rules p = raw_of (option_w string_w) (Some p)" "value_json wire_rules = json_codec"
  by (simp_all add: wire_rules_def rule_codec_def)

lemma wire_codec_sel [simp]:
  "to_vec (wire_codec w) = put w" "wire_ok w \<Longrightarrow> from_slice (wire_codec w) (put w x) = Some x"
  by (simp_all add: wire_codec_def)

lemma receipt_w_ok [simp]: "wire_ok receipt_w"
proof -
  have "wire_ok rule_w" "wire_ok alias_w"
    unfolding rule_w_def alias_w_def by (rule map_w_ok; simp)+
  then show ?thesis unfolding receipt_w_def by (intro map_w_ok) simp_all
qed

lemma object_rule_object' [simp]: "object_rule (rule_object r) = Some r"
  using object_rule_object [of fmempty r] by (simp only: fmadd_empty)

lemma wire_ok_inj: "wire_ok w \<Longrightarrow> inj (put w)"
  by (rule injI) (metis option.inject prod.inject wire_okD_Nil)

lemma wire_streams_ok [simp]: "streams_ok wire_rules"
proof -
  have "wire_ok basis_w" unfolding basis_w_def by simp
  moreover have "wire_ok snapshot_w" unfolding snapshot_w_def by (rule map_w_ok) simp_all
  ultimately show ?thesis by (simp add: streams_ok_def wire_rules_def wire_ok_inj)
qed

theorem wire_rules_ok [simp]: "rule_codecs_ok wire_rules"
proof -
  have "rule_fields wire_rules r = rule_object r" for r by (simp add: rule_fields_def)
  then have "rule_fields_ok wire_rules"
    by (simp add: rule_fields_ok_def) (blast intro: object_rule_provenance)
  moreover have "codec_ok (rule_json wire_rules)" by (simp add: codec_ok_def)
  moreover have "codec_ok (object_json wire_rules)" by simp
  ultimately show ?thesis unfolding rule_codecs_ok_def by simp
qed

end
