(* ===== verification/Registry_Rows.thy ===== *)
theory Registry_Rows
  imports Store_Properties Registry_Steps Rule_Lemmas Rule_Wire
begin

text \<open>
  The types of the watch rows and of the repository-rule rows: a watch row decodes to a watch and
  a rule row to a rule, each under the composite key of its project and its own identifier. Every
  operation that writes one of the two tables keeps them typed, also those that rewrite raw rows:
  the disabling of watches through \<open>serde_json::Value\<close>, the merge of a published rule into a stored
  object, and the replacement of a provenance field by an adoption.
\<close>

section \<open>The typing of the rows\<close>

definition watch_fits :: "string \<Rightarrow> watch_record \<Rightarrow> bool" where
  "watch_fits k w \<longleftrightarrow> key_ok (watch_id w) \<and> (\<exists>p. key_ok p \<and> k = composite p (watch_id w))"

definition rule_fits :: "string \<Rightarrow> repo_rule \<Rightarrow> bool" where
  "rule_fits k r \<longleftrightarrow> key_ok (rule_id r) \<and> (\<exists>p. key_ok p \<and> k = composite p (rule_id r))"

definition rows_typed :: "rule_codecs \<Rightarrow> db \<Rightarrow> bool" where
  "rows_typed R s \<longleftrightarrow> well_typed (watch_json (registry_json R)) watch_fits (watches s)
     \<and> well_typed (rule_json R) rule_fits (repo_rules s)"

lemma rows_typed_empty [simp]: "rows_typed R empty_db"
  by (simp add: rows_typed_def empty_db_def)

lemma fits_composite [simp]:
  "key_ok p \<Longrightarrow> key_ok (watch_id w) \<Longrightarrow> watch_fits (composite p (watch_id w)) w"
  "key_ok p \<Longrightarrow> key_ok (rule_id r) \<Longrightarrow> rule_fits (composite p (rule_id r)) r"
  by (auto simp: watch_fits_def rule_fits_def)

lemma well_typed_rows:
  assumes "well_typed c fits t"
    and "\<And>k v. fmlookup u k = Some v \<Longrightarrow> fmlookup t k = Some v \<or> (\<exists>x. from_slice c v = Some x \<and> fits k x)"
  shows "well_typed c fits u"
  using assms unfolding well_typed_def by blast

text \<open>
  A watch row is a JSON object with the fields of the watch. Replacing two of them by JSON values
  of their types gives an object that decodes to the watch with these two fields replaced.
\<close>

definition watch_fields_ok :: "rule_codecs \<Rightarrow> bool" where
  "watch_fields_ok R \<longleftrightarrow> (\<forall>raw w m now.
     from_slice (watch_json (registry_json R)) raw = Some w \<and> from_slice (value_json R) raw = Some (JObject m)
     \<longrightarrow> from_slice (watch_json (registry_json R))
           (to_vec (value_json R) (JObject (fmupd ''updated_at_ms'' (ju64 now) (fmupd ''enabled'' (JBool False) m))))
         = Some (w\<lparr>watch_enabled := False, watch_updated_at_ms := now\<rparr>))"

section \<open>Watches\<close>

lemma rows_put_watch:
  assumes "codecs_ok (registry_json R)" and "rows_typed R s" and "put_watch (registry_json R) p w s = Inr (u, t)"
  shows "rows_typed R t"
  using assms by (auto simp: put_watch_def rows_typed_def codecs_ok_def intro!: well_typed_upd)

lemma disable_rows_Inr:
  assumes "disable_rows R now rows = Inr changes" and "(k, v) \<in> set changes"
  shows "\<exists>raw m. (k, raw) \<in> set rows \<and> from_slice (value_json R) raw = Some (JObject m)
    \<and> v = to_vec (value_json R) (JObject (fmupd ''updated_at_ms'' (ju64 now) (fmupd ''enabled'' (JBool False) m)))"
  using assms
proof (induction rows arbitrary: changes)
  case (Cons row rows)
  obtain key raw where row: "row = (key, raw)" by (cases row)
  from Cons.prems(1) obtain val m where m: "from_slice (value_json R) raw = Some val" "as_object val = Some m"
    and rest: "(if Option.bind (fmlookup m ''enabled'') as_bool = Some False then disable_rows R now rows
       else let object' = fmupd ''updated_at_ms'' (ju64 now) (fmupd ''enabled'' (JBool False) m)
         in bindR (disable_rows R now rows) (\<lambda>rest. Inr ((key, to_vec (value_json R) (JObject object')) # rest))) = Inr changes"
    by (auto simp: row)
  have "val = JObject m" using m(2) by (cases val) (auto simp: as_object_def)
  with m(1) rest Cons.prems(2) Cons.IH show ?case by (fastforce simp: row Let_def split: if_splits)
qed simp

lemma rows_disable:
  assumes "watch_fields_ok R" and "rows_typed R s" and "disable_project_watches R p now s = Inr (u, t)"
  shows "rows_typed R t"
proof -
  let ?c = "watch_json (registry_json R)"
  obtain changes where c: "disable_rows R now (prefix_scan (p @ [NUL]) (watches s)) = Inr changes"
    and t: "t = s\<lparr>watches := fold (\<lambda>(k, v). fmupd k v) changes (watches s)\<rparr>"
    using assms(3) by (auto simp: disable_project_watches_def)
  have typed: "well_typed ?c watch_fits (watches s)" using assms(2) by (simp add: rows_typed_def)
  have "\<exists>x. from_slice ?c v = Some x \<and> watch_fits k x" if kv: "(k, v) \<in> set changes" for k v
  proof -
    obtain raw m where r: "fmlookup (watches s) k = Some raw" "from_slice (value_json R) raw = Some (JObject m)"
      "v = to_vec (value_json R) (JObject (fmupd ''updated_at_ms'' (ju64 now) (fmupd ''enabled'' (JBool False) m)))"
      using disable_rows_Inr [OF c kv] by (auto simp: set_prefix_scan)
    then obtain w where w: "from_slice ?c raw = Some w" "watch_fits k w" using well_typedD [OF typed] by blast
    with assms(1) r(2,3) have "from_slice ?c v = Some (w\<lparr>watch_enabled := False, watch_updated_at_ms := now\<rparr>)"
      unfolding watch_fields_ok_def by blast
    with w(2) show ?thesis by (auto simp: watch_fits_def)
  qed
  then have "well_typed ?c watch_fits (watches t)"
    by (intro well_typed_rows [OF typed])
      (auto simp: t fold_fmupd_lookup split: option.splits dest!: map_of_SomeD)
  with assms(2) show ?thesis by (simp add: rows_typed_def t)
qed

section \<open>Manual edits and publications of rules\<close>

lemma rows_put_rule:
  assumes "rule_codecs_ok R" and "rows_typed R s" and "put_repo_rule R h p r s = Inr (u, t)"
  shows "rows_typed R t"
proof -
  have "codec_ok (rule_json R)" using assms(1) by (simp add: rule_codecs_ok_def)
  with assms(2,3) show ?thesis by (auto simp: put_repo_rule_def rows_typed_def intro!: well_typed_upd)
qed

lemma rows_delete_rule: "rows_typed R s \<Longrightarrow> delete_repo_rule R h p rid s = Inr (u, t) \<Longrightarrow> rows_typed R t"
  by (auto simp: delete_repo_rule_def rows_typed_def elim!: well_typed_sub split: if_splits)

lemma upsert_rules_typed:
  assumes ok: "rule_codecs_ok R" and "upsert_rules R p rules t = Inr t'" and "key_ok p"
    and "\<And>r. r \<in> set rules \<Longrightarrow> key_ok (rule_id r)" and "well_typed (rule_json R) rule_fits t"
  shows "well_typed (rule_json R) rule_fits t'"
  using assms(2,4,5)
proof (induction rules arbitrary: t)
  case (Cons r rules)
  then obtain t1 where t1: "upsert_rule R p r t = Inr t1" "upsert_rules R p rules t1 = Inr t'" by auto
  have "well_typed (rule_json R) rule_fits t1"
  proof (rule well_typed_rows [OF Cons.prems(3)])
    fix k v assume v: "fmlookup t1 k = Some v"
    show "fmlookup t k = Some v \<or> (\<exists>x. from_slice (rule_json R) v = Some x \<and> rule_fits k x)"
    proof (cases "k = composite p (rule_id r)")
      case True
      have "from_slice (rule_json R) v = Some r"
        using upsert_rule_Inr(1) [OF ok t1(1)] v True by (simp add: stored_rule_def decode_def split: option.splits)
      with True assms(3) Cons.prems(2) show ?thesis by simp
    qed (use upsert_rule_Inr(2) [OF ok t1(1)] v in simp)
  qed
  with Cons.IH [OF t1(2)] Cons.prems(2) show ?case by simp
qed simp

lemma rows_publish:
  assumes "rule_codecs_ok R" and "rows_typed R s"
    and "publish_repo_rule_source R h p ex removed upsert key ek receipt s = Inr (u, t)"
  shows "rows_typed R t"
proof -
  obtain ws rows where p: "key_ok p"
    and ids: "traverseR (check_expected R p ex (repo_rules s)) (btree_set (removed @ map rule_id upsert)) = Inr ws"
    and rows: "upsert_rules R p upsert (remove_rules p removed upsert (repo_rules s)) = Inr rows"
    and t: "t = s\<lparr>repo_rules := rows, meta := fmupd (composite p key) receipt (meta s)\<rparr>"
    using assms(3) by (auto simp: publish_repo_rule_source_def publish_rows_def Let_def)
  have "key_ok (rule_id r)" if "r \<in> set upsert" for r
    using traverseR_set(2) [OF ids, of "rule_id r"] that by (auto simp: check_expected_def)
  moreover have "well_typed (rule_json R) rule_fits (remove_rules p removed upsert (repo_rules s))"
    using assms(2) by (auto simp: rows_typed_def remove_rules_lookup elim!: well_typed_sub split: if_splits)
  ultimately have "well_typed (rule_json R) rule_fits rows"
    using upsert_rules_typed [OF assms(1) rows p] by blast
  with assms(2) show ?thesis by (simp add: rows_typed_def t)
qed

section \<open>Adoptions and alias reviews\<close>

lemma adopt_bindings_keys:
  "adopt_bindings R h expected origin key receipts bs st = Inr st' \<Longrightarrow> b \<in> set bs \<Longrightarrow> key_ok (ab_rule_id b)"
proof (induction bs arbitrary: st)
  case (Cons a bs)
  then obtain st1 where "adopt_binding R h expected origin key receipts a st = Inr st1"
    "adopt_bindings R h expected origin key receipts bs st1 = Inr st'" by auto
  with Cons show ?case by (auto simp: adopt_binding_def adoption_row_def Let_def)
qed simp

lemma rows_adopt:
  assumes ok: "rule_codecs_ok R" and typed: "rows_typed R s"
    and projects: "\<And>p row. fmlookup (projects s) p = Some row \<Longrightarrow> key_ok p"
    and adopt: "adopt_legacy_repo_rules R h expected plan decision_ref s = Inr (out, t)"
  shows "rows_typed R t"
proof -
  let ?p = "snap_project_id expected"
  obtain pr where prep: "prepare_adoption R h expected plan decision_ref = Inr pr"
    and commit: "commit_legacy_adoption R h expected pr False s = Inr (out, t)"
    using adopt by (auto simp: adopt_legacy_repo_rules_def)
  obtain c where c: "prepared_by R h expected plan pr c" using prepare_adoption_Inr [OF ok prep] by blast
  obtain current where cur: "from_tables ?p (projects s) (repo_rules s) (meta s) = Inr current"
    and t: "repo_rules t = put_rows ?p (iter (pr_rows pr)) (repo_rules s)" "watches t = watches s"
    by (rule commit_adoption_Inr [OF commit]) simp
  obtain row where "fmlookup (projects s) ?p = Some row" using cur unfolding from_tables_iff by blast
  then have p: "key_ok ?p" by (rule projects)
  obtain key receipts st st' where "adopt_bindings R h expected (ap_origin plan) key receipts (ap_bindings plan) st = Inr st'"
    using prep by (auto simp: prepare_adoption_def Let_def)
  note key = adopt_bindings_keys [OF this]
  have "fmlookup (repo_rules s) k = Some v \<or> (\<exists>x. from_slice (rule_json R) v = Some x \<and> rule_fits k x)"
    if v: "fmlookup (put_rows ?p (iter (pr_rows pr)) (repo_rules s)) k = Some v" for k v
  proof (cases "k \<in> composite ?p ` fmdom' (pr_rows pr)")
    case True
    then obtain rid raw' where rid: "k = composite ?p rid" "fmlookup (pr_rows pr) rid = Some raw'"
      by (auto simp: fmlookup_dom'_iff)
    with v have v': "v = raw'" by (simp add: put_rows_lookup(1))
    obtain new where "from_slice (rule_json R) raw' = Some new" "rule_id new = rid"
      using prepared_by_row [OF c rid(2)] by blast
    moreover have "rid \<in> ab_rule_id ` set (ap_bindings plan)"
      using rid(2) prepared_byD(5) [OF c] by (metis fmdom'I)
    then have "key_ok rid" using key by auto
    ultimately show ?thesis using p rid(1) v' by (auto simp: rule_fits_def)
  qed (use v in \<open>simp add: put_rows_lookup(2)\<close>)
  moreover have "well_typed (rule_json R) rule_fits (repo_rules s)" using typed by (simp add: rows_typed_def)
  ultimately have "well_typed (rule_json R) rule_fits (repo_rules t)" unfolding t(1) by (rule well_typed_rows [rotated])
  with typed show ?thesis by (simp add: rows_typed_def t(2))
qed

lemma rows_sub:
  assumes "rows_typed R s" and "\<And>k b. fmlookup (watches t) k = Some b \<Longrightarrow> fmlookup (watches s) k = Some b"
    and "\<And>k b. fmlookup (repo_rules t) k = Some b \<Longrightarrow> fmlookup (repo_rules s) k = Some b"
  shows "rows_typed R t"
  using assms(1) unfolding rows_typed_def by (blast intro: well_typed_sub assms(2,3))

lemma rows_review:
  assumes "rows_typed R s" and "apply_legacy_alias_review R h expected plan decision_ref s = Inr (out, t)"
  shows "rows_typed R t"
proof (rule rows_sub [OF assms(1)])
  have drop: "fmlookup (fold (\<lambda>rid. fmdrop (composite p rid)) rids u) k = Some b \<Longrightarrow> fmlookup u k = Some b"
    for p rids u and k :: string and b :: bytes
    by (induction rids arbitrary: u) (simp, fastforce split: if_splits)
  show "fmlookup (repo_rules t) k = Some b \<Longrightarrow> fmlookup (repo_rules s) k = Some b" for k b
    using assms(2) by (auto simp: apply_legacy_alias_review_def Let_def dest: drop)
  show "fmlookup (watches t) k = Some b \<Longrightarrow> fmlookup (watches s) k = Some b" for k b
    using assms(2) by (auto simp: apply_legacy_alias_review_def Let_def)
qed

section \<open>Typed listings\<close>

lemma watch_rows:
  assumes typed: "rows_typed R s" and p: "key_ok p"
  shows "\<exists>ws. list_watches (registry_json R) p s = Inr ws \<and> distinct (map watch_id ws)
    \<and> (\<forall>x. x \<in> set ws \<longleftrightarrow>
          transposeR (decode (watch_json (registry_json R))) (fmlookup (watches s) (composite p (watch_id x))) = Inr (Some x))"
proof -
  let ?c = "watch_json (registry_json R)" and ?rows = "prefix_scan (p @ [NUL]) (watches s)"
  have t: "well_typed ?c watch_fits (watches s)" using typed by (simp add: rows_typed_def)
  have fits: "k = composite p (watch_id x)" if "watch_fits k x" "prefix (p @ [NUL]) k" for k x
    using that p by (auto simp: watch_fits_def)
  obtain ws where ws: "traverseR (decode ?c) (map snd ?rows) = Inr ws" "list_all2 (\<lambda>x k. watch_fits k x) ws (map fst ?rows)"
      "set ws = {x. \<exists>k. prefix (p @ [NUL]) k \<and> decoded ?c (watches s) k = Some x}"
    using decoded_rows [OF t, of ?rows "prefix (p @ [NUL])"] by (auto simp: set_prefix_scan)
  have "distinct (map watch_id ws)"
    by (rule distinct_fits [OF ws(2) distinct_prefix_scan, of "composite p"]) (use fits in \<open>auto simp: set_prefix_scan\<close>)
  moreover have "(\<exists>k. prefix (p @ [NUL]) k \<and> decoded ?c (watches s) k = Some x)
      \<longleftrightarrow> decoded ?c (watches s) (composite p (watch_id x)) = Some x" for x
    using decoded_typed [OF t] fits p by (metis composite_prefix)
  ultimately show ?thesis using ws(1,3) p by (auto simp: list_watches_def decoded_get [OF t])
qed

lemma rule_rows:
  assumes typed: "rows_typed R s" and p: "key_ok p"
  shows "\<exists>rs. list_repo_rules R p s = Inr rs \<and> distinct (map rule_id rs)
    \<and> (\<forall>x. x \<in> set rs \<longleftrightarrow> stored_rule R p (repo_rules s) (rule_id x) = Inr (Some x))"
proof -
  let ?c = "rule_json R" and ?rows = "prefix_scan (p @ [NUL]) (repo_rules s)"
  have t: "well_typed ?c rule_fits (repo_rules s)" using typed by (simp add: rows_typed_def)
  have fits: "k = composite p (rule_id x)" if "rule_fits k x" "prefix (p @ [NUL]) k" for k x
    using that p by (auto simp: rule_fits_def)
  obtain rs where rs: "traverseR (decode ?c) (map snd ?rows) = Inr rs" "list_all2 (\<lambda>x k. rule_fits k x) rs (map fst ?rows)"
      "set rs = {x. \<exists>k. prefix (p @ [NUL]) k \<and> decoded ?c (repo_rules s) k = Some x}"
    using decoded_rows [OF t, of ?rows "prefix (p @ [NUL])"] by (auto simp: set_prefix_scan)
  have "distinct (map rule_id rs)"
    by (rule distinct_fits [OF rs(2) distinct_prefix_scan, of "composite p"]) (use fits in \<open>auto simp: set_prefix_scan\<close>)
  moreover have "(\<exists>k. prefix (p @ [NUL]) k \<and> decoded ?c (repo_rules s) k = Some x)
      \<longleftrightarrow> decoded ?c (repo_rules s) (composite p (rule_id x)) = Some x" for x
    using decoded_typed [OF t] fits p by (metis composite_prefix)
  moreover have "stored_rule R p (repo_rules s) i = Inr (decoded ?c (repo_rules s) (composite p i))" for i
    by (simp add: stored_rule_def decoded_get [OF t])
  ultimately show ?thesis using rs(1,3) p by (auto simp: list_repo_rules_def distinct_map)
qed

section \<open>An instance with watches as JSON objects\<close>

definition as_u64 :: "json \<Rightarrow> u64 option" where
  "as_u64 v = (case v of JInt i \<Rightarrow> if 0 \<le> i \<and> i < 2 ^ 64 then Some (of_int i) else None | _ \<Rightarrow> None)"

lemma as_u64_ju64 [simp]: "as_u64 (ju64 n) = Some n"
  using unsigned_less [of n, where ?'a = nat] uint_lt2p [of n] by (simp add: as_u64_def ju64_def)

definition watch_object :: "watch_record \<Rightarrow> (string, json) fmap" where
  "watch_object w = fmap_of_list [(''watch_id'', JString (watch_id w)), (''directory'', JString (watch_directory w)),
     (''enabled'', JBool (watch_enabled w)), (''updated_at_ms'', ju64 (watch_updated_at_ms w))]"

definition object_watch :: "(string, json) fmap \<Rightarrow> watch_record option" where
  "object_watch m =
     Option.bind (Option.bind (fmlookup m ''watch_id'') as_str) (\<lambda>i.
     Option.bind (Option.bind (fmlookup m ''directory'') as_str) (\<lambda>d.
     Option.bind (Option.bind (fmlookup m ''enabled'') as_bool) (\<lambda>e.
     map_option (\<lambda>u. \<lparr> watch_id = i, watch_directory = d, watch_enabled = e, watch_updated_at_ms = u \<rparr>)
       (Option.bind (fmlookup m ''updated_at_ms'') as_u64))))"

lemma object_watch_object [simp]: "object_watch (watch_object w) = Some w"
  by (simp add: object_watch_def watch_object_def as_str_def as_bool_def)

lemma object_watch_disabled:
  "object_watch m = Some w \<Longrightarrow>
     object_watch (fmupd ''updated_at_ms'' (ju64 now) (fmupd ''enabled'' (JBool False) m))
       = Some (w\<lparr>watch_enabled := False, watch_updated_at_ms := now\<rparr>)"
  by (auto simp: object_watch_def bind_eq_Some_conv as_bool_def)

definition watch_codec :: "watch_record codec" where
  "watch_codec = \<lparr> to_vec = (\<lambda>w. to_vec json_codec (JObject (watch_object w))),
     from_slice = (\<lambda>bs. Option.bind (Option.bind (from_slice json_codec bs) as_object) object_watch) \<rparr>"

definition object_rules :: rule_codecs where
  "object_rules = wire_rules\<lparr>registry_json := wire_codecs\<lparr>watch_json := watch_codec\<rparr>\<rparr>"

lemma json_decode_encode [simp]: "from_slice json_codec (to_vec json_codec v) = Some v"
  using json_codec_ok by (simp add: codec_ok_def)

lemma watch_codec_ok: "codec_ok watch_codec"
  by (simp add: codec_ok_def watch_codec_def as_object_def)

theorem object_rules_ok: "rule_codecs_ok object_rules" "watch_fields_ok object_rules"
proof -
  have "codecs_ok (wire_codecs\<lparr>watch_json := watch_codec\<rparr>)"
    using wire_codecs_ok watch_codec_ok by (simp add: codecs_ok_def del: wire_codecs_ok)
  moreover have "rule_fields_ok object_rules \<longleftrightarrow> rule_fields_ok wire_rules"
    by (simp add: object_rules_def rule_fields_ok_def rule_fields_def)
  ultimately show "rule_codecs_ok object_rules"
    using wire_rules_ok by (simp add: rule_codecs_ok_def object_rules_def del: wire_rules_ok)
  show "watch_fields_ok object_rules"
    by (auto simp: watch_fields_ok_def object_rules_def watch_codec_def bind_eq_Some_conv as_object_def
        intro: object_watch_disabled)
qed

end
