(* ===== verification/Review_Discussion.thy ===== *)
theory Review_Discussion
  imports Registry
begin

text \<open>
  Captured review discussions (\<open>engram_core/src/registry/review_discussion.rs\<close>): immutable capture
  metadata and content-addressed raw bodies in the metadata table, under one quota that is checked
  against the whole retained inventory before anything is written. \<open>blake3\<close> is a parameter that
  gives the hexadecimal digest.
\<close>

section \<open>Keys and encodings\<close>

definition RD_PREFIX :: string where "RD_PREFIX = ''review_discussion_v1'' @ [NUL]"
definition RD_BODIES :: string where "RD_BODIES = ''review_discussion_payload_v1'' @ [NUL]"
definition RD_QUOTA :: string where "RD_QUOTA = ''review_discussion_quota_v1''"
definition RD_MAGIC :: bytes where "RD_MAGIC = ''EGQD'' @ [NUL, NUL, NUL, CHR 0x02]"
definition RD_LINK :: bytes where "RD_LINK = ''EGDC'' @ [NUL, NUL, NUL, CHR 0x02]"

definition METADATA_BYTES :: nat where "METADATA_BYTES = 64 * 1024"
definition BODY_BYTES :: nat where "BODY_BYTES = 256 * 1024"
definition BATCH_BYTES :: nat where "BATCH_BYTES = 4 * 1024 * 1024"
definition BATCH_ROWS :: nat where "BATCH_ROWS = 1024"
definition PROJECT_ROWS :: nat where "PROJECT_ROWS = 4096"
definition PROJECT_BYTES :: nat where "PROJECT_BYTES = 128 * 1024 * 1024"

record discussion_record =
  review_id :: string
  thread_id :: u64
  capture_blake3 :: string
  payload :: bytes
  raw_payload_blake3 :: string
  raw_payload :: bytes

record discussion_write =
  dw_stored :: nat
  dw_unchanged :: nat
  dw_stored_payloads :: nat
  dw_reused_payloads :: nat
  dw_retained_records :: nat
  dw_retained_bytes :: nat
  dw_retained_captures :: nat
  dw_retained_payloads :: nat

record discussion_reference =
  dr_thread_id :: u64
  dr_capture_blake3 :: string
  dr_raw_utf8_blake3 :: string
  dr_cursor :: string

record discussion_page =
  dp_records :: "discussion_reference list"
  dp_next :: "string option"

definition is_lower_hex :: "char \<Rightarrow> bool" where
  "is_lower_hex c \<longleftrightarrow> is_digit c \<or> (97 \<le> byte c \<and> byte c \<le> 102)"

definition hash_valid :: "string \<Rightarrow> bool" where
  "hash_valid hash \<longleftrightarrow> length hash = 64 \<and> list_all is_lower_hex hash"

definition scope :: "string \<Rightarrow> string \<Rightarrow> string res" where
  "scope project review =
     bindR (vk ''project_id'' project) (\<lambda>_.
     bindR (vk ''review_id'' review) (\<lambda>_.
     bindR (ensure (length project \<le> 128 \<and> length review \<le> 256) (Bail ''review capture identity too long'')) (\<lambda>_.
     Inr (project @ [NUL] @ RD_PREFIX @ review @ [NUL]))))"

definition body_key :: "string \<Rightarrow> string \<Rightarrow> string res" where
  "body_key project hash =
     bindR (ensure (hash_valid hash) (Bail ''invalid review payload hash'')) (\<lambda>_.
     Inr (project @ [NUL] @ RD_BODIES @ hash))"

text \<open>\<open>{thread:020}\<close>\<close>

definition pad20 :: "u64 \<Rightarrow> string" where
  "pad20 n = replicate (20 - length (show_u64 n)) (CHR ''0'') @ show_u64 n"

definition suffix :: "u64 \<Rightarrow> string \<Rightarrow> string res" where
  "suffix thread hash =
     bindR (ensure (hash_valid hash) (Bail ''capture hash must be 64 lowercase hexadecimal characters'')) (\<lambda>_.
     Inr (pad20 thread @ '':'' @ hash))"

definition split_once :: "char \<Rightarrow> string \<Rightarrow> (string \<times> string) option" where
  "split_once c s = (if c \<in> set s
     then Some (takeWhile (\<lambda>x. x \<noteq> c) s, tl (dropWhile (\<lambda>x. x \<noteq> c) s)) else None)"

definition parse_suffix :: "string \<Rightarrow> (u64 \<times> string) res" where
  "parse_suffix v =
     bindR (ensure (length v = 85) (Bail ''invalid capture catalog cursor length'')) (\<lambda>_.
     bindR (ok_or (split_once (CHR '':'') v) (Bail ''invalid capture identity'')) (\<lambda>(number, hash).
     bindR (ok_or (parse_u64 number) ParseIntError) (\<lambda>thread.
     bindR (suffix thread hash) (\<lambda>canonical.
     bindR (ensure (canonical = v) (Bail ''noncanonical capture identity'')) (\<lambda>_.
     Inr (thread, hash))))))"

definition quota :: "bytes \<Rightarrow> (nat \<times> nat) res" where
  "quota bs =
     bindR (ensure (length bs = 24 \<and> take 8 bs = RD_MAGIC) (Bail ''invalid or unsupported capture quota; preserved'')) (\<lambda>_.
     let rows = unat (u64_from_le_bytes (take 8 (drop 8 bs))); used = unat (u64_from_le_bytes (take 8 (drop 16 bs))) in
     bindR (ensure (rows \<le> PROJECT_ROWS \<and> used \<le> PROJECT_BYTES) (Bail ''inconsistent capture quota; preserved'')) (\<lambda>_.
     Inr (rows, used)))"

definition encode_quota :: "nat \<times> nat \<Rightarrow> bytes" where
  "encode_quota counts = RD_MAGIC @ u64_to_le_bytes (of_nat (fst counts)) @ u64_to_le_bytes (of_nat (snd counts))"

definition unpack :: "bytes \<Rightarrow> (string \<times> bytes) res" where
  "unpack bs =
     bindR (ensure (72 \<le> length bs \<and> length bs \<le> 72 + METADATA_BYTES \<and> take 8 bs = RD_LINK)
              (Bail ''unsupported capture metadata format; preserved'')) (\<lambda>_.
     bindR (from_utf8 (take 64 (drop 8 bs))) (\<lambda>hash.
     bindR (ensure (hash_valid hash) (Bail ''invalid capture payload reference; preserved'')) (\<lambda>_.
     Inr (hash, drop 72 bs))))"

definition quota_key :: "string \<Rightarrow> string" where
  "quota_key project = project @ [NUL] @ RD_QUOTA"

text \<open>\<open>a.checked_add(b).and_then(|n| n.checked_add(c)).ok_or_else(..)\<close>\<close>

definition add3 :: "string \<Rightarrow> nat \<Rightarrow> nat \<Rightarrow> nat \<Rightarrow> nat res" where
  "add3 msg a b c = ok_or (Option.bind (usize_add a b) (\<lambda>n. usize_add n c)) (Bail msg)"

section \<open>Validating the batch\<close>

definition capture_key :: "string \<Rightarrow> discussion_record \<Rightarrow> string res" where
  "capture_key project r =
     bindR (scope project (review_id r)) (\<lambda>sc.
     bindR (suffix (thread_id r) (capture_blake3 r)) (\<lambda>sx. Inr (sc @ sx)))"

fun check_batch ::
  "(bytes \<Rightarrow> string) \<Rightarrow> string \<Rightarrow> discussion_record list \<Rightarrow> nat \<Rightarrow> string list \<Rightarrow> table \<Rightarrow> table res" where
  "check_batch h project [] used keys bodies = Inr bodies"
| "check_batch h project (r # rs) used keys bodies =
     bindR (ensure (length (payload r) \<le> METADATA_BYTES \<and> length (raw_payload r) \<le> BODY_BYTES
                    \<and> h (payload r) = capture_blake3 r \<and> h (raw_payload r) = raw_payload_blake3 r)
              (Bail ''capture metadata/body exceeds budget or differs from its content hash'')) (\<lambda>_.
     bindR (add3 ''capture batch overflow'' used (length (payload r)) (length (raw_payload r))) (\<lambda>used'.
     bindR (ensure (used' \<le> BATCH_BYTES) (Bail ''review capture batch byte budget exceeded'')) (\<lambda>_.
     bindR (capture_key project r) (\<lambda>key.
     bindR (ensure (key \<notin> set keys) (Bail ''duplicate capture metadata in batch'')) (\<lambda>_.
     bindR (ensure (fmlookup bodies (raw_payload_blake3 r) = None \<or> fmlookup bodies (raw_payload_blake3 r) = Some (raw_payload r))
              (Bail ''same body hash names different bytes; preserved'')) (\<lambda>_.
     check_batch h project rs used' (key # keys) (fmupd (raw_payload_blake3 r) (raw_payload r) bodies)))))))"

section \<open>The retained inventory\<close>

record inventory =
  inv_rows :: nat
  inv_bytes :: nat
  inv_captures :: nat
  inv_bodies :: nat

definition check_body_row :: "string \<Rightarrow> bytes \<Rightarrow> unit res" where
  "check_body_row local_key v = ensure (hash_valid local_key \<and> length v \<le> BODY_BYTES)
     (Bail ''unsupported payload inventory; preserved'')"

definition check_capture_row :: "(bytes \<Rightarrow> string) \<Rightarrow> string \<Rightarrow> table \<Rightarrow> string \<Rightarrow> bytes \<Rightarrow> unit res" where
  "check_capture_row h project t local_key v =
     bindR (ok_or (split_once NUL local_key) (Bail ''invalid capture inventory key'')) (\<lambda>(review, tail).
     bindR (vk ''review_id'' review) (\<lambda>_.
     bindR (ensure (length review \<le> 256) (Bail ''invalid capture review identity'')) (\<lambda>_.
     bindR (parse_suffix tail) (\<lambda>(_, hash).
     bindR (unpack v) (\<lambda>(raw_hash, metadata).
     bindR (ensure (h metadata = hash) (Bail ''capture metadata hash differs; preserved'')) (\<lambda>_.
     bindR (body_key project raw_hash) (\<lambda>bk.
     bindR (ok_or (fmlookup t bk) (Bail ''capture references a missing raw payload; preserved'')) (\<lambda>body.
     ensure (length body \<le> BODY_BYTES) (Bail ''capture raw payload exceeds budget; preserved'')))))))))"

fun inventory_rows ::
  "(bytes \<Rightarrow> string) \<Rightarrow> string \<Rightarrow> table \<Rightarrow> bool \<Rightarrow> nat \<Rightarrow> (string \<times> bytes) list \<Rightarrow> inventory \<Rightarrow> inventory res" where
  "inventory_rows h project t is_body n [] x = Inr x"
| "inventory_rows h project t is_body n ((key, v) # rows) x =
     bindR (ensure (inv_rows x < PROJECT_ROWS \<and> length key \<le> 512)
              (Bail ''capture inventory count/key budget exceeded; preserved'')) (\<lambda>_.
     bindR (if is_body then check_body_row (drop n key) v else check_capture_row h project t (drop n key) v) (\<lambda>_.
     bindR (add3 ''capture inventory overflow'' (inv_bytes x) (length key) (length v)) (\<lambda>used.
     bindR (ensure (used \<le> PROJECT_BYTES) (Bail ''capture inventory byte budget exceeded; preserved'')) (\<lambda>_.
     inventory_rows h project t is_body n rows
       \<lparr> inv_rows = inv_rows x + 1, inv_bytes = used,
         inv_captures = (if is_body then inv_captures x else inv_captures x + 1),
         inv_bodies = (if is_body then inv_bodies x + 1 else inv_bodies x) \<rparr>))))"

definition tier_prefix :: "string \<Rightarrow> bool \<Rightarrow> string" where
  "tier_prefix project is_body = project @ [NUL] @ (if is_body then RD_BODIES else RD_PREFIX)"

definition take_inventory :: "(bytes \<Rightarrow> string) \<Rightarrow> string \<Rightarrow> table \<Rightarrow> inventory res" where
  "take_inventory h project t =
     (let scan = (\<lambda>is_body. inventory_rows h project t is_body (length (tier_prefix project is_body))
                              (prefix_scan (tier_prefix project is_body) t))
      in bindR (scan False \<lparr> inv_rows = 0, inv_bytes = 0, inv_captures = 0, inv_bodies = 0 \<rparr>) (scan True))"

section \<open>Planning and storing\<close>

type_synonym plan = "(nat \<times> nat) \<times> (string \<times> bytes) list"

definition count_object :: "nat \<times> nat \<Rightarrow> nat \<Rightarrow> nat \<Rightarrow> (nat \<times> nat) res" where
  "count_object counts a b =
     bindR (ok_or (usize_add (fst counts) 1) (Bail ''object count overflow'')) (\<lambda>n.
     bindR (add3 ''object bytes overflow'' (snd counts) a b) (\<lambda>m. Inr (n, m)))"

fun plan_bodies :: "string \<Rightarrow> table \<Rightarrow> (string \<times> bytes) list \<Rightarrow> plan \<Rightarrow> plan res" where
  "plan_bodies project t [] p = Inr p"
| "plan_bodies project t ((hash, body) # bs) (counts, todo) =
     bindR (body_key project hash) (\<lambda>key.
     case fmlookup t key of
       Some prior \<Rightarrow> bindR (ensure (prior = body) (Bail ''immutable raw payload differs; preserved'')) (\<lambda>_.
                     plan_bodies project t bs (counts, todo))
     | None \<Rightarrow> bindR (count_object counts (length key) (length body)) (\<lambda>counts'.
               plan_bodies project t bs (counts', todo @ [(key, body)])))"

definition capture_value :: "discussion_record \<Rightarrow> bytes" where
  "capture_value r = RD_LINK @ raw_payload_blake3 r @ payload r"

fun plan_captures :: "string \<Rightarrow> table \<Rightarrow> discussion_record list \<Rightarrow> plan \<Rightarrow> plan res" where
  "plan_captures project t [] p = Inr p"
| "plan_captures project t (r # rs) (counts, todo) =
     bindR (capture_key project r) (\<lambda>key.
     case fmlookup t key of
       Some prior \<Rightarrow>
         bindR (unpack prior) (\<lambda>(raw_hash, metadata).
         bindR (ensure (raw_hash = raw_payload_blake3 r \<and> metadata = payload r)
                  (Bail ''immutable capture metadata differs; preserved'')) (\<lambda>_.
         plan_captures project t rs (counts, todo)))
     | None \<Rightarrow>
         bindR (ok_or (usize_add (fst counts) 1) (Bail ''object count overflow'')) (\<lambda>n.
         bindR (ok_or (Option.bind (Option.bind (usize_add (snd counts) (length key)) (\<lambda>m. usize_add m 72))
                         (\<lambda>m. usize_add m (length (payload r)))) (Bail ''object bytes overflow'')) (\<lambda>m.
         plan_captures project t rs ((n, m), todo @ [(key, capture_value r)]))))"

definition insert_all :: "(string \<times> bytes) list \<Rightarrow> table \<Rightarrow> table" where
  "insert_all rows t = fold (\<lambda>(k, v). fmupd k v) rows t"

text \<open>The stated quota must equal the inventory before anything is planned.\<close>

definition audit_quota :: "(bytes \<Rightarrow> string) \<Rightarrow> string \<Rightarrow> table \<Rightarrow> inventory res" where
  "audit_quota h project t =
     bindR (transposeR quota (fmlookup t (quota_key project))) (\<lambda>stated.
     bindR (take_inventory h project t) (\<lambda>ledger.
     bindR (ensure (stated \<noteq> None \<or> inv_rows ledger = 0) (Bail ''retained captures/bodies lack quota authority; preserved'')) (\<lambda>_.
     bindR (ensure ((case stated of None \<Rightarrow> (0, 0) | Some q \<Rightarrow> q) = (inv_rows ledger, inv_bytes ledger))
              (Bail ''capture quota differs from retained inventory; preserved'')) (\<lambda>_.
     Inr ledger))))"

definition plan_store ::
  "string \<Rightarrow> table \<Rightarrow> table \<Rightarrow> discussion_record list \<Rightarrow> inventory
     \<Rightarrow> ((nat \<times> nat) \<times> (string \<times> bytes) list \<times> (string \<times> bytes) list) res" where
  "plan_store project t bodies records ledger =
     bindR (plan_bodies project t (iter bodies) ((inv_rows ledger, inv_bytes ledger), [])) (\<lambda>(counts1, todo_bodies).
     bindR (plan_captures project t records (counts1, [])) (\<lambda>(counts, todo_captures).
     bindR (ensure (fst counts \<le> PROJECT_ROWS \<and> snd counts \<le> PROJECT_BYTES)
              (Bail ''retained discussion quota exceeded (4096 total capture/body objects,128 MiB); existing evidence preserved; no summaries published by this import'')) (\<lambda>_.
     Inr (counts, todo_bodies, todo_captures))))"

definition store_result ::
  "table \<Rightarrow> discussion_record list \<Rightarrow> inventory \<Rightarrow> nat \<times> nat \<Rightarrow> (string \<times> bytes) list \<Rightarrow> (string \<times> bytes) list
     \<Rightarrow> discussion_write" where
  "store_result bodies records ledger counts todo_bodies todo_captures =
     \<lparr> dw_stored = length todo_captures, dw_unchanged = length records - length todo_captures,
       dw_stored_payloads = length todo_bodies, dw_reused_payloads = length (iter bodies) - length todo_bodies,
       dw_retained_records = fst counts, dw_retained_bytes = snd counts,
       dw_retained_captures = inv_captures ledger + length todo_captures,
       dw_retained_payloads = inv_bodies ledger + length todo_bodies \<rparr>"

definition store_review_discussions ::
  "(bytes \<Rightarrow> string) \<Rightarrow> string \<Rightarrow> discussion_record list \<Rightarrow> discussion_write tx" where
  "store_review_discussions h project records s =
     bindR (vk ''project_id'' project) (\<lambda>_.
     bindR (ensure (length project \<le> 128 \<and> length records \<le> BATCH_ROWS) (Bail ''review capture batch count exceeded'')) (\<lambda>_.
     bindR (check_batch h project records 0 [] fmempty) (\<lambda>bodies.
     bindR (audit_quota h project (meta s)) (\<lambda>ledger.
     bindR (plan_store project (meta s) bodies records ledger) (\<lambda>(counts, todo_bodies, todo_captures).
     let result = store_result bodies records ledger counts todo_bodies todo_captures in
     if todo_bodies = [] \<and> todo_captures = [] then Inr (result, s)
     else Inr (result, s\<lparr>meta := fmupd (quota_key project) (encode_quota counts)
                                  (insert_all todo_captures (insert_all todo_bodies (meta s)))\<rparr>))))))"

section \<open>Reading\<close>

definition inspect_review_discussion ::
  "(bytes \<Rightarrow> string) \<Rightarrow> string \<Rightarrow> string \<Rightarrow> u64 \<Rightarrow> string \<Rightarrow> (bytes \<Rightarrow> bytes \<Rightarrow> 'a res) \<Rightarrow> db \<Rightarrow> 'a res" where
  "inspect_review_discussion h project review thread hash inspect s =
     bindR (scope project review) (\<lambda>sc.
     bindR (suffix thread hash) (\<lambda>sx.
     bindR (ok_or (fmlookup (meta s) (sc @ sx)) (Bail ''exact captured discussion metadata unavailable'')) (\<lambda>v.
     bindR (unpack v) (\<lambda>(raw_hash, metadata).
     bindR (ensure (h metadata = hash) (Bail ''capture metadata hash differs; preserved'')) (\<lambda>_.
     bindR (body_key project raw_hash) (\<lambda>bk.
     bindR (ok_or (fmlookup (meta s) bk) (Bail ''exact captured raw payload unavailable'')) (\<lambda>body.
     bindR (ensure (length body \<le> BODY_BYTES \<and> h body = raw_hash) (Bail ''raw payload failed bounded hash check; preserved'')) (\<lambda>_.
     inspect metadata body))))))))"

fun list_loop ::
  "(bytes \<Rightarrow> string) \<Rightarrow> string \<Rightarrow> string option \<Rightarrow> discussion_reference list \<Rightarrow> (string \<times> bytes) list
     \<Rightarrow> (discussion_reference list \<times> bool) res" where
  "list_loop h pfx after acc [] = Inr (acc, False)"
| "list_loop h pfx after acc ((key, v) # rows) =
     (if \<not> prefix pfx key then Inr (acc, False)
      else let local_key = drop (length pfx) key in
        if (case after of None \<Rightarrow> False | Some a \<Rightarrow> local_key \<le> a) then list_loop h pfx after acc rows
        else
          bindR (ensure (length local_key = 85) (Bail ''unsupported capture catalog key; preserved'')) (\<lambda>_.
          if length acc = 16 then Inr (acc, True)
          else
            bindR (parse_suffix local_key) (\<lambda>(thread, hash).
            bindR (unpack v) (\<lambda>(raw_hash, metadata).
            bindR (ensure (h metadata = hash) (Bail ''catalog capture metadata hash differs; preserved'')) (\<lambda>_.
            list_loop h pfx after
              (acc @ [\<lparr> dr_thread_id = thread, dr_capture_blake3 = hash, dr_raw_utf8_blake3 = raw_hash, dr_cursor = local_key \<rparr>])
              rows)))))"

definition list_review_discussions ::
  "(bytes \<Rightarrow> string) \<Rightarrow> string \<Rightarrow> string \<Rightarrow> string option \<Rightarrow> db \<Rightarrow> discussion_page res" where
  "list_review_discussions h project review after s =
     bindR (scope project review) (\<lambda>pfx.
     bindR (case after of None \<Rightarrow> Inr () | Some a \<Rightarrow> bindR (parse_suffix a) (\<lambda>_. Inr ())) (\<lambda>_.
     let start = pfx @ (case after of None \<Rightarrow> [] | Some a \<Rightarrow> a) in
     bindR (list_loop h pfx after [] (range_from start (meta s))) (\<lambda>(records, more).
     Inr \<lparr> dp_records = records, dp_next = (if more then Some (dr_cursor (last records)) else None) \<rparr>)))"

end
