(* ===== verification/Registry_Typed.thy ===== *)
theory Registry_Typed
  imports Registry_Rows Review_Discussion
begin

text \<open>
  Every write of the registry as one step relation, and the types of the rows it keeps: a project
  row decodes to a project with the row's key, a memory row to a section under its composite key,
  a job row to a job with the row's key, and watch and rule rows as \<open>Registry_Rows\<close> says. The
  listings and reads of these five tables therefore never fail on a database that only the
  registry has written.
\<close>

section \<open>The typing invariant\<close>

definition project_fits :: "string \<Rightarrow> project_record \<Rightarrow> bool" where
  "project_fits k x \<longleftrightarrow> project_id x = k \<and> key_ok k"

definition typed_db :: "rule_codecs \<Rightarrow> db \<Rightarrow> bool" where
  "typed_db R s \<longleftrightarrow> well_typed (project_json (registry_json R)) project_fits (projects s)
     \<and> sections_typed (registry_json R) s \<and> jobs_typed (registry_json R) s \<and> rows_typed R s"

text \<open>
  What the operations do to the typed tables: nothing (\<open>frame\<close>), a typed project row
  (\<open>project_write\<close>), or a change of the watch and rule rows alone (\<open>row_write\<close>).
\<close>

definition frame :: "db \<Rightarrow> db \<Rightarrow> bool" where
  "frame s t \<longleftrightarrow> projects t = projects s \<and> memory_bank t = memory_bank s \<and> jobs t = jobs s
     \<and> watches t = watches s \<and> repo_rules t = repo_rules s"

definition row_write :: "db \<Rightarrow> db \<Rightarrow> bool" where
  "row_write s t \<longleftrightarrow> projects t = projects s \<and> memory_bank t = memory_bank s \<and> jobs t = jobs s"

definition project_write :: "codecs \<Rightarrow> db \<Rightarrow> db \<Rightarrow> bool" where
  "project_write J s t \<longleftrightarrow> memory_bank t = memory_bank s \<and> jobs t = jobs s
     \<and> watches t = watches s \<and> repo_rules t = repo_rules s
     \<and> (well_typed (project_json J) project_fits (projects s) \<longrightarrow> well_typed (project_json J) project_fits (projects t))"

lemma frame_simps [simp]:
  "frame s s" "frame s (s'\<lparr>meta := m\<rparr>) \<longleftrightarrow> frame s s'"
  by (simp_all add: frame_def)

lemma row_write_simps [simp]:
  "row_write s s" "row_write s (s'\<lparr>meta := m\<rparr>) \<longleftrightarrow> row_write s s'" "row_write s (s'\<lparr>watches := w\<rparr>) \<longleftrightarrow> row_write s s'"
  "row_write s (s'\<lparr>repo_rules := w\<rparr>) \<longleftrightarrow> row_write s s'"
  by (simp_all add: row_write_def)

lemma frame_trans: "frame s t \<Longrightarrow> frame t u \<Longrightarrow> frame s u"
  by (simp add: frame_def)

lemma frame_write: "frame s t \<Longrightarrow> project_write J s t"
  by (simp add: frame_def project_write_def)

lemma project_write_typed: "project_write (registry_json R) s t \<Longrightarrow> typed_db R s \<Longrightarrow> typed_db R t"
  by (simp add: project_write_def typed_db_def sections_typed_def jobs_typed_def rows_typed_def)

lemma row_write_typed: "row_write s t \<Longrightarrow> rows_typed R t \<Longrightarrow> typed_db R s \<Longrightarrow> typed_db R t"
  by (simp add: row_write_def typed_db_def sections_typed_def jobs_typed_def)

lemma frame_next_revision: "next_revision J flr s = Inr (n, t) \<Longrightarrow> frame s t"
  by (auto simp: next_revision_def)

lemma frame_advance: "advance_revision J p s = Inr (n, t) \<Longrightarrow> frame s t"
  by (auto simp: advance_revision_def dest: frame_next_revision)

lemma frame_unverified: "mark_identity_unverified J p s = Inr (n, t) \<Longrightarrow> frame s t"
  by (auto simp: mark_identity_unverified_def dest: frame_advance)

lemma frame_requirements: "requirements_for_project_write J rec s = Inr (r, t) \<Longrightarrow> frame s t"
  by (auto simp: requirements_for_project_write_def Let_def split: option.splits dest!: frame_next_revision)

lemma frame_required [simp]: "frame s (mark_head_required p t) \<longleftrightarrow> frame s t"
  by (simp add: mark_head_required_def)

lemmas frames = frame_next_revision frame_advance frame_unverified frame_requirements

lemma frame_clear_pending:
  assumes "clear_pending_on_delete J p s = Inr (u, t)"
  shows "frame s t"
proof -
  obtain project reqs s1 where 1: "(case project of Some p \<Rightarrow> requirements_for_project_write J p s
      | None \<Rightarrow> bindR (read_requirements J p s) (\<lambda>r. Inr (r, s))) = Inr (reqs, s1)"
    and 2: "(case reqs of None \<Rightarrow> Inr ((), s1) | Some r \<Rightarrow> bindR (next_revision J (req_revision r) s1) (\<lambda>(rev, s2).
      Inr ((), put_meta (reindex_key p) (to_vec (requirements_json J) (r\<lparr>req_revision := rev, pending := fmempty\<rparr>)) s2))) = Inr (u, t)"
    using assms by (auto simp: clear_pending_on_delete_def)
  from 1 have "frame s s1" by (auto split: option.splits dest: frames)
  moreover from 2 have "frame s1 t" by (auto split: option.splits dest: frames)
  ultimately show ?thesis by (rule frame_trans)
qed

lemma frame_capture:
  assumes "capture_write J p s = Inr (tok, t)"
  shows "frame s t"
proof -
  obtain rev er ee rev' e s1 where
        1: "(case er of Some r \<Rightarrow> Inr (r, s) | None \<Rightarrow> advance_revision J p s) = Inr (rev, s1)"
    and 2: "(case ee of Some e \<Rightarrow> Inr ((rev, e), s1)
            | None \<Rightarrow> bindR (mark_identity_unverified J p s1) (\<lambda>(e, s2). Inr ((e, e), s2))) = Inr ((rev', e), t)"
    using assms by (auto simp: capture_write_def Let_def)
  from 1 have "frame s s1" by (auto split: option.splits dest: frames)
  moreover from 2 have "frame s1 t" by (auto split: option.splits dest: frames)
  ultimately show ?thesis by (rule frame_trans)
qed

lemma frame_attest:
  assumes "attest_unchanged_write J base s = Inr (b, t)"
  shows "frame s t"
proof (cases "attest_check J base s")
  case (Inr r)
  show ?thesis
  proof (cases r)
    case None
    with assms Inr obtain n s1 where "advance_revision J (ht_project_id base) s = Inr (n, s1)"
      and t: "t = put_meta (flag_key (ht_project_id base) IDENTITY_VERIFIED) ''1'' s1" by (auto simp: attest_unchanged_write_def)
    then have "frame s s1" by (blast intro: frame_advance)
    then show ?thesis by (simp add: t)
  next
    case (Some v)
    with assms Inr show ?thesis by (simp add: attest_unchanged_write_def)
  qed
next
  case (Inl e)
  with assms show ?thesis by (simp add: attest_unchanged_write_def)
qed

lemma frame_attest_legacy: "attest_legacy_source_head J base s = Inr (b, t) \<Longrightarrow> frame s t"
  by (erule attest_legacy_cases) auto

lemma frame_publish: "publish_source_head J base next s = Inr (b, t) \<Longrightarrow> frame s t"
  by (erule publish_cases) (auto intro: frames)

lemma frame_reserve: "reserve_source_recovery J rb flr s = Inr (x, t) \<Longrightarrow> frame s t"
  by (auto simp: reserve_source_recovery_def Let_def split: option.splits intro: frames)

lemma frame_recovery: "publish_source_recovery J rsv s = Inr (b', t) \<Longrightarrow> frame s t"
  by (erule publish_recovery_cases) (auto intro: frames)

lemma frame_head_write:
  assumes "(if c then bindR (advance_revision J p s) (\<lambda>(_, s1). mark_identity_unverified J p s1) else Inr (0, s)) = Inr (n, t)"
  shows "frame s t"
proof (cases c)
  case True
  with assms obtain m s1 where "advance_revision J p s = Inr (m, s1)" "mark_identity_unverified J p s1 = Inr (n, t)" by auto
  then show ?thesis by (blast intro: frame_trans frames)
qed (use assms in simp)

lemma frame_set_meta: "set_meta J p key v s = Inr (u, t) \<Longrightarrow> frame s t"
  using frame_head_write [where p = p] by (fastforce simp: set_meta_def Let_def)

lemma frame_exchange:
  assumes "compare_exchange_meta J p key expected v s = Inr (b, t)"
  shows "frame s t"
proof (cases "fmlookup (meta s) (composite p key) = expected")
  case True
  with assms obtain n s2 where "(if key = HEAD \<and> expected \<noteq> Some v
       then bindR (advance_revision J p s) (\<lambda>(_, s1). mark_identity_unverified J p s1) else Inr (0, s)) = Inr (n, s2)"
    "t = put_meta (composite p key) v (if key = HEAD then mark_head_required p s2 else s2)"
    by (auto simp: compare_exchange_meta_def Let_def)
  then show ?thesis using frame_head_write by auto
qed (use assms in \<open>auto simp: compare_exchange_meta_def\<close>)

lemma frame_companion: "compare_exchange_meta_with_companion p key expected v ck cv s = Inr (b, t) \<Longrightarrow> frame s t"
  by (auto simp: compare_exchange_meta_with_companion_def Let_def split: if_splits)

lemma frame_flag: "set_global_flag key v s = Inr (u, t) \<Longrightarrow> frame s t"
  by (auto simp: set_global_flag_def)

lemma frame_discussions: "store_review_discussions h p records s = Inr (w, t) \<Longrightarrow> frame s t"
  by (auto simp: store_review_discussions_def Let_def split: if_splits)

text \<open>The operations on watches and rules.\<close>

lemma row_writes:
  "put_watch J p w s = Inr (u, t) \<Longrightarrow> row_write s t"
  "disable_project_watches R p now s = Inr (u, t) \<Longrightarrow> row_write s t"
  "put_repo_rule R h p r s = Inr (u, t) \<Longrightarrow> row_write s t"
  "delete_repo_rule R h p rid s = Inr (u, t) \<Longrightarrow> row_write s t"
  "publish_repo_rule_source R h p ex removed upsert key ek receipt s = Inr (u, t) \<Longrightarrow> row_write s t"
  "adopt_legacy_repo_rules R h snap plan d s = Inr (out, t) \<Longrightarrow> row_write s t"
  "apply_legacy_alias_review R h snap rplan d s = Inr (rout, t) \<Longrightarrow> row_write s t"
  by (auto simp: put_watch_def put_repo_rule_def delete_repo_rule_def publish_repo_rule_source_def publish_rows_def
      adopt_legacy_repo_rules_def commit_legacy_adoption_def apply_legacy_alias_review_def disable_project_watches_def Let_def)

lemma typed_row_writes:
  assumes ok: "rule_codecs_ok R" "watch_fields_ok R" and typed: "typed_db R s"
  shows "put_watch (registry_json R) p w s = Inr (u, t) \<Longrightarrow> typed_db R t"
    and "disable_project_watches R p now s = Inr (u, t) \<Longrightarrow> typed_db R t"
    and "put_repo_rule R h p r s = Inr (u, t) \<Longrightarrow> typed_db R t"
    and "delete_repo_rule R h p rid s = Inr (u, t) \<Longrightarrow> typed_db R t"
    and "publish_repo_rule_source R h p ex removed upsert key ek receipt s = Inr (u, t) \<Longrightarrow> typed_db R t"
    and "adopt_legacy_repo_rules R h snap plan d s = Inr (out, t) \<Longrightarrow> typed_db R t"
    and "apply_legacy_alias_review R h snap rplan d s = Inr (rout, t) \<Longrightarrow> typed_db R t"
proof -
  have rows: "rows_typed R s" and C: "codecs_ok (registry_json R)"
    using typed ok by (simp_all add: typed_db_def)
  have keys: "key_ok p" if "fmlookup (projects s) p = Some row" for p row
    using typed that by (force simp: typed_db_def well_typed_def project_fits_def)
  note step = row_write_typed [OF _ _ typed]
  show "put_watch (registry_json R) p w s = Inr (u, t) \<Longrightarrow> typed_db R t"
    by (intro step row_writes(1) rows_put_watch [OF C rows])
  show "disable_project_watches R p now s = Inr (u, t) \<Longrightarrow> typed_db R t"
    by (intro step row_writes(2) rows_disable [OF ok(2) rows])
  show "put_repo_rule R h p r s = Inr (u, t) \<Longrightarrow> typed_db R t"
    by (intro step row_writes(3) rows_put_rule [OF ok(1) rows])
  show "delete_repo_rule R h p rid s = Inr (u, t) \<Longrightarrow> typed_db R t"
    by (intro step row_writes(4) rows_delete_rule [OF rows])
  show "publish_repo_rule_source R h p ex removed upsert key ek receipt s = Inr (u, t) \<Longrightarrow> typed_db R t"
    by (intro step row_writes(5) rows_publish [OF ok(1) rows])
  show "adopt_legacy_repo_rules R h snap plan d s = Inr (out, t) \<Longrightarrow> typed_db R t"
    by (intro step row_writes(6) rows_adopt [OF ok(1) rows keys])
  show "apply_legacy_alias_review R h snap rplan d s = Inr (rout, t) \<Longrightarrow> typed_db R t"
    by (intro step row_writes(7) rows_review [OF rows])
qed

section \<open>The operations that write project rows\<close>

lemma typed_frame: "typed_db R s \<Longrightarrow> frame s t \<Longrightarrow> typed_db R t"
  by (blast intro: project_write_typed frame_write)

lemma typed_project_row:
  assumes "typed_db R s" and "projects t = fmupd (project_id rec) (to_vec (project_json (registry_json R)) rec) (projects s)"
    and "key_ok (project_id rec)" and "memory_bank t = memory_bank s" and "jobs t = jobs s"
    and "watches t = watches s" and "repo_rules t = repo_rules s"
  shows "typed_db R t"
proof (rule project_write_typed [OF _ assms(1)])
  have "codec_ok (project_json (registry_json R))" using assms(1) by (simp add: typed_db_def sections_typed_def codecs_ok_def)
  then show "project_write (registry_json R) s t"
    using assms by (auto simp: project_write_def project_fits_def)
qed

lemma typed_row_key:
  assumes "typed_db R s" and "read_project (registry_json R) p s = Inr (Some rec)"
  shows "project_id rec = p \<and> key_ok p"
  using assms by (force simp: read_project_def typed_db_def project_fits_def well_typed_def)

lemma typed_write_requirements:
  assumes "typed_db R s" and "key_ok (project_id rec)"
  shows "typed_db R (write_requirements (registry_json R) rec r s)"
  by (rule typed_project_row [OF assms(1), where rec = "rec\<lparr>reindex_required_since_ms := since_ms r\<rparr>"])
    (use assms(2) in \<open>simp_all add: write_requirements_def Let_def\<close>)

lemma typed_put_project:
  assumes "typed_db R s" and "put_project (registry_json R) rec s = Inr (u, t)"
  shows "typed_db R t"
proof -
  obtain c s3 reqs s4 where key: "key_ok (project_id rec)"
    and 1: "(if c then bindR (advance_revision (registry_json R) (project_id rec) s) (\<lambda>(_, s1).
        bindR (mark_identity_unverified (registry_json R) (project_id rec) s1) (\<lambda>(_, s2). Inr ((), s2))) else Inr ((), s)) = Inr ((), s3)"
    and 2: "requirements_for_project_write (registry_json R) rec s3 = Inr (reqs, s4)"
    and t: "t = s4\<lparr>projects := fmupd (project_id rec) (to_vec (project_json (registry_json R))
      (case reqs of None \<Rightarrow> rec | Some r \<Rightarrow> rec\<lparr>reindex_required_since_ms := since_ms r\<rparr>)) (projects s4)\<rparr>"
    using assms(2) by (auto simp: put_project_def Let_def)
  have "frame s s3"
  proof (cases c)
    case True
    with 1 obtain n s1 m where "advance_revision (registry_json R) (project_id rec) s = Inr (n, s1)"
      "mark_identity_unverified (registry_json R) (project_id rec) s1 = Inr (m, s3)" by auto
    then show ?thesis by (blast intro: frame_trans frames)
  qed (use 1 in simp)
  then have "frame s s4" using 2 by (blast intro: frame_trans frames)
  then have "typed_db R s4" by (rule typed_frame [OF assms(1)])
  then show ?thesis
    by (rule typed_project_row [where rec = "case reqs of None \<Rightarrow> rec | Some r \<Rightarrow> rec\<lparr>reindex_required_since_ms := since_ms r\<rparr>"])
      (use key in \<open>auto simp: t split: option.split\<close>)
qed

lemma typed_register:
  assumes "typed_db R s" and "register_source_project (registry_json R) rec s = Inr (u, t)"
  shows "typed_db R t"
proof -
  let ?s1 = "s\<lparr>projects := fmupd (project_id rec) (to_vec (project_json (registry_json R)) rec) (projects s)\<rparr>"
  obtain n s3 m where key: "key_ok (project_id rec)"
    and "advance_revision (registry_json R) (project_id rec) (put_meta (head_key (project_id rec)) ''0'' ?s1) = Inr (n, s3)"
    and "mark_identity_unverified (registry_json R) (project_id rec) (mark_head_required (project_id rec) s3) = Inr (m, t)"
    using assms(2) by (auto simp: register_source_project_def Let_def)
  then have "frame (put_meta (head_key (project_id rec)) ''0'' ?s1) s3" "frame (mark_head_required (project_id rec) s3) t"
    by (blast intro: frames)+
  then have "frame ?s1 t" by (simp add: frame_def mark_head_required_def)
  moreover have "typed_db R ?s1" by (rule typed_project_row [OF assms(1)]) (use key in simp_all)
  ultimately show ?thesis by (rule typed_frame [rotated])
qed

lemma typed_record:
  assumes "typed_db R s" and "record_reindex_requirement (registry_json R) p reason since only s = Inr (x, t)"
  shows "typed_db R t"
proof -
  obtain project where project: "read_project (registry_json R) p s = Inr project"
    using assms(2) by (auto simp: record_reindex_requirement_def)
  show ?thesis
  proof (cases project)
    case None
    with project assms show ?thesis by (simp add: record_reindex_requirement_def)
  next
    case (Some p')
    note row = project [unfolded Some]
    have key: "project_id p' = p" "key_ok p" using typed_row_key [OF assms(1) row] by simp_all
    obtain stored s1 where w: "requirements_for_project_write (registry_json R) p' s = Inr (stored, s1)"
      using assms(2) by (auto simp: record_reindex_requirement_def row)
    then have typed: "typed_db R s1" by (blast intro: typed_frame [OF assms(1)] frames)
    define r where "r = (case stored of Some r \<Rightarrow> r | None \<Rightarrow> requirements_default)"
    have fold: "(case stored of None \<Rightarrow> requirements_default | Some r \<Rightarrow> r) = r" by (simp add: r_def)
    show ?thesis
    proof (cases "if only then token r p reason else None")
      case None
      obtain rev s2 q q' where n: "next_revision (registry_json R) (req_revision r) s1 = Inr (rev, s2)"
        and t: "t = write_requirements (registry_json R) (p'\<lparr>project_updated_at_ms := q\<rparr>) q' s2"
        using assms(2) unfolding record_reindex_requirement_def
        by (simp add: row w key, subst (asm) fold, auto simp: None Let_def)
      have "typed_db R s2" using n by (blast intro: typed_frame [OF typed] frames)
      then show ?thesis unfolding t by (rule typed_write_requirements) (simp add: key)
    next
      case (Some tok)
      have "t = s1"
        using assms(2) unfolding record_reindex_requirement_def
        by (simp add: row w key, subst (asm) fold, simp add: Some Let_def)
      with typed show ?thesis by simp
    qed
  qed
qed

lemma typed_settle:
  assumes "typed_db R s" and "settle_reindex_requirement (registry_json R) tok s = Inr (b, t)"
  shows "typed_db R t"
proof (cases "t = s")
  case False
  then obtain rec r where row: "read_project (registry_json R) (tok_project_id tok) s = Inr (Some rec)" and t: "t = write_requirements (registry_json R) rec r s"
    using assms(2) by (auto simp: settle_reindex_requirement_def Let_def split: option.splits if_splits)
  show ?thesis unfolding t
    by (rule typed_write_requirements [OF assms(1)]) (use typed_row_key [OF assms(1) row] in simp)
qed (use assms(1) in simp)

lemma typed_dismiss:
  assumes "typed_db R s" and "dismiss_reindex_requirements (registry_json R) p s = Inr (u, t)"
  shows "typed_db R t"
proof (cases "t = s")
  case False
  then obtain rec r where row: "read_project (registry_json R) p s = Inr (Some rec)" and t: "t = write_requirements (registry_json R) rec r s"
    using assms(2) by (auto simp: dismiss_reindex_requirements_def Let_def split: option.splits if_splits)
  show ?thesis unfolding t
    by (rule typed_write_requirements [OF assms(1)]) (use typed_row_key [OF assms(1) row] in simp)
qed (use assms(1) in simp)

lemma typed_subtables:
  assumes "typed_db R s" and "\<And>k b. fmlookup (projects t) k = Some b \<Longrightarrow> fmlookup (projects s) k = Some b"
    and "\<And>k b. fmlookup (memory_bank t) k = Some b \<Longrightarrow> fmlookup (memory_bank s) k = Some b"
    and "\<And>k b. fmlookup (jobs t) k = Some b \<Longrightarrow> fmlookup (jobs s) k = Some b"
    and "\<And>k b. fmlookup (watches t) k = Some b \<Longrightarrow> fmlookup (watches s) k = Some b"
    and "\<And>k b. fmlookup (repo_rules t) k = Some b \<Longrightarrow> fmlookup (repo_rules s) k = Some b"
  shows "typed_db R t"
  using assms(1) rows_sub [OF _ assms(5,6), of R] unfolding typed_db_def sections_typed_def jobs_typed_def
  by (blast intro: well_typed_sub assms(2-4))

lemma typed_delete_project:
  assumes "typed_db R s" and "delete_project (registry_json R) p s = Inr (u, t)"
  shows "typed_db R t"
proof -
  obtain s1 where c: "clear_pending_on_delete (registry_json R) p s = Inr ((), s1)" and t: "t = s1\<lparr>projects := fmdrop p (projects s1)\<rparr>"
    using assms(2) by (auto simp: delete_project_def)
  have "typed_db R s1" using c by (blast intro: typed_frame [OF assms(1)] frame_clear_pending)
  then show ?thesis by (rule typed_subtables) (simp_all add: t split: if_splits)
qed

lemma typed_delete_all:
  assumes "typed_db R s" and "delete_all_for_project (registry_json R) p s = Inr (u, t)"
  shows "typed_db R t"
  using assms(2)
proof (cases rule: delete_all_cases)
  case (1 s1 rows)
  have "typed_db R s1" using 1(2) by (blast intro: typed_frame [OF assms(1)] frame_clear_pending)
  then show ?thesis by (rule typed_subtables) (simp_all add: 1(4) lookup_remove_prefix split: if_splits)
qed

section \<open>The step relation\<close>

inductive registry_write :: "rule_codecs \<Rightarrow> (bytes \<Rightarrow> string) \<Rightarrow> db \<Rightarrow> db \<Rightarrow> bool" for R h where
  put_project: "put_project (registry_json R) rec s = Inr (u, t) \<Longrightarrow> registry_write R h s t"
| register: "register_source_project (registry_json R) rec s = Inr (u, t) \<Longrightarrow> registry_write R h s t"
| delete_project: "delete_project (registry_json R) p s = Inr (u, t) \<Longrightarrow> registry_write R h s t"
| delete_all: "delete_all_for_project (registry_json R) p s = Inr (u, t) \<Longrightarrow> registry_write R h s t"
| record_requirement: "record_reindex_requirement (registry_json R) p reason since only s = Inr (x, t) \<Longrightarrow> registry_write R h s t"
| settle: "settle_reindex_requirement (registry_json R) tok s = Inr (b, t) \<Longrightarrow> registry_write R h s t"
| dismiss: "dismiss_reindex_requirements (registry_json R) p s = Inr (u, t) \<Longrightarrow> registry_write R h s t"
| put_section: "put_memory_section (registry_json R) p x s = Inr (u, t) \<Longrightarrow> registry_write R h s t"
| delete_section: "delete_memory_section p i s = Inr (u, t) \<Longrightarrow> registry_write R h s t"
| put_job: "put_job (registry_json R) j s = Inr (u, t) \<Longrightarrow> registry_write R h s t"
| delete_job: "delete_job i s = Inr (u, t) \<Longrightarrow> registry_write R h s t"
| sweep: "cleanup_orphaned_jobs (registry_json R) clock s = Inr (n, t) \<Longrightarrow> registry_write R h s t"
| put_watch: "put_watch (registry_json R) p w s = Inr (u, t) \<Longrightarrow> registry_write R h s t"
| disable_watches: "disable_project_watches R p now s = Inr (u, t) \<Longrightarrow> registry_write R h s t"
| put_rule: "put_repo_rule R h p r s = Inr (u, t) \<Longrightarrow> registry_write R h s t"
| delete_rule: "delete_repo_rule R h p rid s = Inr (u, t) \<Longrightarrow> registry_write R h s t"
| publish_rules: "publish_repo_rule_source R h p ex removed upsert key ek receipt s = Inr (u, t) \<Longrightarrow> registry_write R h s t"
| adopt: "adopt_legacy_repo_rules R h snap plan d s = Inr (out, t) \<Longrightarrow> registry_write R h s t"
| review: "apply_legacy_alias_review R h snap rplan d s = Inr (rout, t) \<Longrightarrow> registry_write R h s t"
| discussions: "store_review_discussions h p records s = Inr (wr, t) \<Longrightarrow> registry_write R h s t"
| capture: "capture_write (registry_json R) p s = Inr (tk, t) \<Longrightarrow> registry_write R h s t"
| attest: "attest_unchanged_write (registry_json R) base s = Inr (b, t) \<Longrightarrow> registry_write R h s t"
| attest_legacy: "attest_legacy_source_head (registry_json R) base s = Inr (b, t) \<Longrightarrow> registry_write R h s t"
| publish: "publish_source_head (registry_json R) base next s = Inr (b, t) \<Longrightarrow> registry_write R h s t"
| reserve: "reserve_source_recovery (registry_json R) rb flr s = Inr (rv, t) \<Longrightarrow> registry_write R h s t"
| publish_recovery: "publish_source_recovery (registry_json R) rsv s = Inr (b, t) \<Longrightarrow> registry_write R h s t"
| set_meta: "set_meta (registry_json R) p key v s = Inr (u, t) \<Longrightarrow> registry_write R h s t"
| exchange: "compare_exchange_meta (registry_json R) p key expected v s = Inr (b, t) \<Longrightarrow> registry_write R h s t"
| exchange_companion: "compare_exchange_meta_with_companion p key expected v ck cv s = Inr (b, t) \<Longrightarrow> registry_write R h s t"
| set_flag: "set_global_flag key v s = Inr (u, t) \<Longrightarrow> registry_write R h s t"

lemma typed_section_call:
  assumes "typed_db R s" and "run_section (registry_json R) c s = t" and "projects t = projects s" and "jobs t = jobs s"
    and "watches t = watches s" and "repo_rules t = repo_rules s"
  shows "typed_db R t"
  using assms sections.good_call [of "registry_json R" s c] by (auto simp: typed_db_def jobs_typed_def rows_typed_def)

lemma typed_job_call:
  assumes "typed_db R s" and "run_job (registry_json R) c s = t" and "projects t = projects s" and "memory_bank t = memory_bank s"
    and "watches t = watches s" and "repo_rules t = repo_rules s"
  shows "typed_db R t"
  using assms jobs.good_call [of "registry_json R" s c] by (auto simp: typed_db_def sections_typed_def rows_typed_def)

lemma typed_sections:
  "typed_db R s \<Longrightarrow> put_memory_section (registry_json R) p x s = Inr (u, t) \<Longrightarrow> typed_db R t"
  "typed_db R s \<Longrightarrow> delete_memory_section p i s = Inr (u, t) \<Longrightarrow> typed_db R t"
proof -
  show "typed_db R s \<Longrightarrow> put_memory_section (registry_json R) p x s = Inr (u, t) \<Longrightarrow> typed_db R t"
    by (erule typed_section_call [of R s "PutSection p x"]) (auto simp: run_section_def commit_or_drop_def put_memory_section_def)
  show "typed_db R s \<Longrightarrow> delete_memory_section p i s = Inr (u, t) \<Longrightarrow> typed_db R t"
    by (erule typed_section_call [of R s "DeleteSection p i"]) (auto simp: run_section_def commit_or_drop_def delete_memory_section_def)
qed

lemma typed_jobs:
  "typed_db R s \<Longrightarrow> put_job (registry_json R) j s = Inr (u, t) \<Longrightarrow> typed_db R t"
  "typed_db R s \<Longrightarrow> delete_job i s = Inr (u, t) \<Longrightarrow> typed_db R t"
  "typed_db R s \<Longrightarrow> cleanup_orphaned_jobs (registry_json R) clock s = Inr (n, t) \<Longrightarrow> typed_db R t"
proof -
  show "typed_db R s \<Longrightarrow> put_job (registry_json R) j s = Inr (u, t) \<Longrightarrow> typed_db R t"
    by (erule typed_job_call [of R s "PutJob j"]) (auto simp: run_job_def commit_or_drop_def put_job_def)
  show "typed_db R s \<Longrightarrow> delete_job i s = Inr (u, t) \<Longrightarrow> typed_db R t"
    by (erule typed_job_call [of R s "DeleteJob i"]) (auto simp: run_job_def commit_or_drop_def delete_job_def)
  show "typed_db R s \<Longrightarrow> cleanup_orphaned_jobs (registry_json R) clock s = Inr (n, t) \<Longrightarrow> typed_db R t"
    by (erule typed_job_call [of R s "Sweep clock"])
      (auto simp: run_job_def commit_or_drop_def cleanup_orphaned_jobs_def cleanup_write_def split: if_splits)
qed

lemmas typed_writes = typed_put_project typed_register typed_delete_project typed_delete_all typed_record typed_settle
  typed_dismiss typed_sections typed_jobs

lemmas framed_writes = frame_discussions frame_capture frame_attest frame_attest_legacy
  frame_publish frame_reserve frame_recovery frame_set_meta frame_exchange frame_companion frame_flag

lemma registry_write_typed:
  assumes "registry_write R h s t" and "typed_db R s" and "rule_codecs_ok R" and "watch_fields_ok R"
  shows "typed_db R t"
  using assms(1)
  by cases (erule typed_writes [OF assms(2)] typed_row_writes [OF assms(3,4,2)] framed_writes [THEN typed_frame [OF assms(2)]])+

lemma registry_writes_typed:
  assumes "(registry_write R h)\<^sup>*\<^sup>* s t" and "typed_db R s" and "rule_codecs_ok R" and "watch_fields_ok R"
  shows "typed_db R t"
  using assms by (induction rule: rtranclp_induct) (auto intro: registry_write_typed)

section \<open>Typed reads\<close>

lemma project_rows:
  assumes "typed_db R s"
  shows "\<exists>ps. list_projects (registry_json R) s = Inr ps \<and> distinct (map project_id ps)
    \<and> (\<forall>x. x \<in> set ps \<longleftrightarrow> get_project (registry_json R) (project_id x) s = Inr (Some x))"
proof -
  have t: "well_typed (project_json (registry_json R)) project_fits (projects s)" using assms by (simp add: typed_db_def)
  obtain xs where xs: "traverseR (decode (project_json (registry_json R))) (map snd (iter (projects s))) = Inr xs"
      "list_all2 (\<lambda>x k. project_fits k x) xs (map fst (iter (projects s)))"
      "set xs = {x. \<exists>k. decoded (project_json (registry_json R)) (projects s) k = Some x}"
    using decoded_rows [OF t, of "iter (projects s)" "\<lambda>_. True"] by (auto simp: set_iter)
  have "distinct (map project_id xs)"
    by (rule distinct_fits [OF xs(2) distinct_iter, of id]) (simp add: project_fits_def)
  moreover have "(\<exists>k. decoded (project_json (registry_json R)) (projects s) k = Some x) \<longleftrightarrow> get_project (registry_json R) (project_id x) s = Inr (Some x)" for x
    using decoded_typed [OF t, of _ x] decoded_get [OF t, of "project_id x"]
    by (auto simp: get_project_def read_project_def project_fits_def)
  ultimately show ?thesis using xs(1,3) by (auto simp: list_projects_def distinct_map inj_on_def)
qed

lemma section_rows:
  assumes "typed_db R s" and p: "key_ok p"
  shows "\<exists>ms. list_memory_sections (registry_json R) p s = Inr ms \<and> distinct (map section_id ms)
    \<and> (\<forall>x. x \<in> set ms \<longleftrightarrow> get_memory_section (registry_json R) p (section_id x) s = Inr (Some x))"
proof -
  have typed: "sections_typed (registry_json R) s" using assms(1) by (simp add: typed_db_def)
  then have t: "well_typed (memory_json (registry_json R)) section_fits (memory_bank s)" by (simp add: sections_typed_def)
  obtain ms where ms: "list_memory_sections (registry_json R) p s = Inr ms" "set ms = {x. \<exists>i. section_map (registry_json R) s (p, i) = Some x}" "distinct (map section_id ms)"
    using list_section_map [OF typed p] by blast
  have "(\<exists>i. section_map (registry_json R) s (p, i) = Some x) \<longleftrightarrow> get_memory_section (registry_json R) p (section_id x) s = Inr (Some x)" for x
  proof
    assume "\<exists>i. section_map (registry_json R) s (p, i) = Some x"
    then obtain i where i: "key_ok i" "section_map (registry_json R) s (p, i) = Some x" "decoded (memory_json (registry_json R)) (memory_bank s) (composite p i) = Some x"
      by (auto simp: section_map_def split: if_splits)
    with decoded_typed [OF t i(3)] p have "i = section_id x" by (auto simp: section_fits_def)
    with get_section_map [OF typed p i(1)] i(2) show "get_memory_section (registry_json R) p (section_id x) s = Inr (Some x)" by simp
  next
    assume get: "get_memory_section (registry_json R) p (section_id x) s = Inr (Some x)"
    then have "key_ok (section_id x)" by (auto simp: get_memory_section_def)
    with get_section_map [OF typed p this] get show "\<exists>i. section_map (registry_json R) s (p, i) = Some x" by auto
  qed
  with ms show ?thesis by auto
qed

lemma job_rows:
  assumes "typed_db R s"
  shows "\<exists>js. list_jobs (registry_json R) None s = Inr js \<and> distinct (map job_id js)
    \<and> (\<forall>x. x \<in> set js \<longleftrightarrow> get_job (registry_json R) (job_id x) s = Inr (Some x))"
proof -
  have typed: "jobs_typed (registry_json R) s" using assms(1) by (simp add: typed_db_def)
  then have t: "well_typed (job_json (registry_json R)) job_fits (jobs s)" by (simp add: jobs_typed_def)
  obtain js where js: "list_jobs (registry_json R) None s = Inr js" "set js = {j. job_map (registry_json R) s (job_id j) = Some j}" "distinct (map job_id js)"
    using list_job_map [OF typed, of None] by auto
  have "job_map (registry_json R) s (job_id x) = Some x \<longleftrightarrow> get_job (registry_json R) (job_id x) s = Inr (Some x)" for x
  proof
    assume m: "job_map (registry_json R) s (job_id x) = Some x"
    then have "key_ok (job_id x)" using decoded_typed [OF t, of "job_id x" x] by (simp add: job_map_def job_fits_def)
    from get_job_map [OF typed this] m show "get_job (registry_json R) (job_id x) s = Inr (Some x)" by simp
  next
    assume get: "get_job (registry_json R) (job_id x) s = Inr (Some x)"
    then have "key_ok (job_id x)" by (auto simp: get_job_def)
    from get_job_map [OF typed this] get show "job_map (registry_json R) s (job_id x) = Some x" by simp
  qed
  with js show ?thesis by auto
qed

lemma project_job_rows:
  assumes "typed_db R s" and "key_ok p"
  shows "\<exists>js. list_jobs (registry_json R) (Some p) s = Inr js \<and> distinct (map job_id js)
    \<and> (\<forall>x. x \<in> set js \<longleftrightarrow> get_job (registry_json R) (job_id x) s = Inr (Some x) \<and> job_project_id x = Some p)"
proof -
  let ?J = "registry_json R"
  have typed: "jobs_typed ?J s" using assms(1) by (simp add: typed_db_def)
  then have t: "well_typed (job_json ?J) job_fits (jobs s)" by (simp add: jobs_typed_def)
  obtain js where js: "list_jobs ?J (Some p) s = Inr js" "distinct (map job_id js)"
    "set js = {j. job_map ?J s (job_id j) = Some j \<and> job_project_id j = Some p}"
    using list_job_map [OF typed, of "Some p"] assms(2) by auto
  have "job_map ?J s (job_id x) = Some x \<longleftrightarrow> get_job ?J (job_id x) s = Inr (Some x)" for x
  proof (cases "key_ok (job_id x)")
    case True
    then show ?thesis by (simp add: get_job_map [OF typed])
  next
    case False
    then have "job_map ?J s (job_id x) \<noteq> Some x"
      using decoded_typed [OF t, of "job_id x" x] by (auto simp: job_map_def job_fits_def)
    with False show ?thesis by (auto simp: get_job_def)
  qed
  with js show ?thesis by auto
qed

lemma typed_empty: "codecs_ok (registry_json R) \<Longrightarrow> typed_db R empty_db"
  by (simp add: typed_db_def sections_typed_empty jobs_typed_empty) (simp add: empty_db_def)

text \<open>
  C25. Whatever sequence of registry writes has built the database, every listing of the registry
  succeeds: the lists of projects, of a project's memory sections, of all jobs and of a project's
  jobs, of a project's watches and of its repository rules. Each holds every identifier once, and
  holds exactly the values that the single reads return, or, for watches and rules, that the rows
  under their composite keys decode to. No row is ever stored under a key that its value does not
  name. The encoders are a parameter: each decodes what it encoded, a rule decodes from an object
  with further fields, and a watch object with two fields replaced decodes accordingly.
\<close>

theorem registry_stays_typed:
  assumes "rule_codecs_ok R" and "watch_fields_ok R" and "(registry_write R h)\<^sup>*\<^sup>* empty_db s" and "key_ok p"
  shows "(\<exists>ps. list_projects (registry_json R) s = Inr ps \<and> distinct (map project_id ps)
      \<and> (\<forall>x. x \<in> set ps \<longleftrightarrow> get_project (registry_json R) (project_id x) s = Inr (Some x)))
    \<and> (\<exists>ms. list_memory_sections (registry_json R) p s = Inr ms \<and> distinct (map section_id ms)
      \<and> (\<forall>x. x \<in> set ms \<longleftrightarrow> get_memory_section (registry_json R) p (section_id x) s = Inr (Some x)))
    \<and> (\<exists>js. list_jobs (registry_json R) None s = Inr js \<and> distinct (map job_id js)
      \<and> (\<forall>x. x \<in> set js \<longleftrightarrow> get_job (registry_json R) (job_id x) s = Inr (Some x)))
    \<and> (\<exists>js. list_jobs (registry_json R) (Some p) s = Inr js \<and> distinct (map job_id js)
      \<and> (\<forall>x. x \<in> set js \<longleftrightarrow> get_job (registry_json R) (job_id x) s = Inr (Some x) \<and> job_project_id x = Some p))
    \<and> (\<exists>ws. list_watches (registry_json R) p s = Inr ws \<and> distinct (map watch_id ws)
      \<and> (\<forall>x. x \<in> set ws \<longleftrightarrow>
            transposeR (decode (watch_json (registry_json R))) (fmlookup (watches s) (composite p (watch_id x))) = Inr (Some x)))
    \<and> (\<exists>rs. list_repo_rules R p s = Inr rs \<and> distinct (map rule_id rs)
      \<and> (\<forall>x. x \<in> set rs \<longleftrightarrow> stored_rule R p (repo_rules s) (rule_id x) = Inr (Some x)))"
proof -
  have C: "codecs_ok (registry_json R)" using assms(1) by simp
  note typed = registry_writes_typed [OF assms(3) typed_empty [OF C] assms(1,2)]
  then have rows: "rows_typed R s" by (simp add: typed_db_def)
  show ?thesis
    by (intro conjI project_rows [OF typed] section_rows [OF typed assms(4)] job_rows [OF typed]
        project_job_rows [OF typed assms(4)] watch_rows [OF rows assms(4)] rule_rows [OF rows assms(4)])
qed

definition sample_watch :: watch_record where
  "sample_watch = \<lparr> watch_id = ''w'', watch_directory = ''/r'', watch_enabled = True, watch_updated_at_ms = 1 \<rparr>"

definition watching_db :: db where
  "watching_db = commit_or_drop (disable_project_watches object_rules ''p'' 7)
     (commit_or_drop (put_watch (registry_json object_rules) ''p'' sample_watch) empty_db)"

lemma watching_run:
  "\<exists>s. put_watch (registry_json object_rules) ''p'' sample_watch empty_db = Inr ((), s)
     \<and> disable_project_watches object_rules ''p'' 7 s = Inr ((), watching_db)
     \<and> fmlookup (watches watching_db) (composite ''p'' ''w'')
         = Some (to_vec json_codec (JObject (fmupd ''updated_at_ms'' (ju64 7) (fmupd ''enabled'' (JBool False) (watch_object sample_watch)))))"
proof -
  let ?J = "registry_json object_rules" and ?key = "composite ''p'' ''w''"
  have k: "key_ok ''p''" "key_ok ''w''" by (simp_all add: key_ok_def)
  have ws: "watch_json ?J = watch_codec" "value_json object_rules = json_codec" by (simp_all add: object_rules_def)
  obtain s where s: "put_watch ?J ''p'' sample_watch empty_db = Inr ((), s)"
    "s = empty_db\<lparr>watches := fmupd ?key (to_vec watch_codec sample_watch) fmempty\<rparr>"
    using k by (simp add: put_watch_def sample_watch_def empty_db_def ws)
  have "set (prefix_scan (''p'' @ [NUL]) (watches s)) = {(?key, to_vec watch_codec sample_watch)}"
    using k by (auto simp: s(2) set_prefix_scan simp del: append.simps split: if_splits)
  moreover have "distinct (prefix_scan (''p'' @ [NUL]) (watches s))"
    using distinct_prefix_scan [of "''p'' @ [NUL]" "watches s"] by (simp add: distinct_map)
  ultimately have scan: "prefix_scan (''p'' @ [NUL]) (watches s) = [(?key, to_vec watch_codec sample_watch)]"
    using distinct_card [of "prefix_scan (''p'' @ [NUL]) (watches s)"]
    by (cases "prefix_scan (''p'' @ [NUL]) (watches s)") auto
  have "disable_project_watches object_rules ''p'' 7 s = Inr ((), s\<lparr>watches :=
      fmupd ?key (to_vec json_codec (JObject (fmupd ''updated_at_ms'' (ju64 7) (fmupd ''enabled'' (JBool False) (watch_object sample_watch)))))
        (watches s)\<rparr>)"
    using k unfolding disable_project_watches_def scan
    by (simp add: ws decode_def as_object_def watch_codec_def watch_object_def sample_watch_def as_bool_def Let_def)
  with s show ?thesis by (simp add: watching_db_def)
qed

theorem registry_stays_typed_witness:
  "\<exists>ws. list_watches (registry_json object_rules) ''p'' watching_db = Inr ws
    \<and> sample_watch\<lparr>watch_enabled := False, watch_updated_at_ms := 7\<rparr> \<in> set ws"
proof -
  let ?J = "registry_json object_rules" and ?w = "sample_watch\<lparr>watch_enabled := False, watch_updated_at_ms := 7\<rparr>"
  have key: "key_ok ''p''" by (simp add: key_ok_def)
  obtain s where s: "put_watch ?J ''p'' sample_watch empty_db = Inr ((), s)"
    "disable_project_watches object_rules ''p'' 7 s = Inr ((), watching_db)"
    "fmlookup (watches watching_db) (composite ''p'' ''w'')
       = Some (to_vec json_codec (JObject (fmupd ''updated_at_ms'' (ju64 7) (fmupd ''enabled'' (JBool False) (watch_object sample_watch)))))"
    using watching_run by blast
  then have "(registry_write object_rules sample_hash)\<^sup>*\<^sup>* empty_db watching_db"
    by (meson registry_write.put_watch registry_write.disable_watches rtranclp.rtrancl_into_rtrancl rtranclp.rtrancl_refl)
  from registry_stays_typed [OF object_rules_ok this key] obtain ws where ws: "list_watches ?J ''p'' watching_db = Inr ws"
    and mem: "\<forall>x. x \<in> set ws \<longleftrightarrow>
      transposeR (decode (watch_json ?J)) (fmlookup (watches watching_db) (composite ''p'' (watch_id x))) = Inr (Some x)"
    by (elim conjE exE) (rule that; assumption)
  have "watch_json ?J = watch_codec" by (simp add: object_rules_def)
  moreover have "watch_id ?w = ''w''" by (simp add: sample_watch_def)
  moreover have "object_watch (fmupd ''updated_at_ms'' (ju64 7) (fmupd ''enabled'' (JBool False) (watch_object sample_watch))) = Some ?w"
    by (rule object_watch_disabled) simp
  ultimately have "transposeR (decode (watch_json ?J)) (fmlookup (watches watching_db) (composite ''p'' (watch_id ?w))) = Inr (Some ?w)"
    using s(3) by (simp add: decode_def watch_codec_def as_object_def)
  with mem have "?w \<in> set ws" by blast
  with ws show ?thesis by blast
qed

end
