(* ===== verification/Checkpoint.thy ===== *)
theory Checkpoint
  imports Registry_Lemmas
begin

text \<open>
  The durable checkpoint store (\<open>engram_core/src/checkpoint.rs\<close>): one table of JSON records keyed
  by job id. Opening the database file is not modelled; \<open>blake3\<close>, the JSON codec and the clock
  are parameters.
\<close>

section \<open>Records\<close>

datatype job_phase = Scanning | Parsing | TantivyIndexing | VectorIndexing | GraphBuilding
  | PostProcessing | Completed | Failed | Cancelled

fun show_phase :: "job_phase \<Rightarrow> string" where
  "show_phase Scanning = ''scanning''"
| "show_phase Parsing = ''parsing''"
| "show_phase TantivyIndexing = ''tantivy_indexing''"
| "show_phase VectorIndexing = ''vector_indexing''"
| "show_phase GraphBuilding = ''graph_building''"
| "show_phase PostProcessing = ''post_processing''"
| "show_phase Completed = ''completed''"
| "show_phase Failed = ''failed''"
| "show_phase Cancelled = ''cancelled''"

datatype cancellation_outcome = CancelledWithTombstone | CancelledWithoutTombstone

record checkpoint =
  cp_job_id :: string
  cp_project_id :: string
  cp_phase :: job_phase
  items_processed :: u64
  items_total :: u64
  cp_generation :: u64
  idempotency_key :: string
  resume_state :: "string option"
  cp_updated_at_ms :: u64
  cp_error :: "string option"

text \<open>\<open>blake3 bs\<close> is the hexadecimal digest of the bytes.\<close>

definition compute_idempotency_key :: "(bytes \<Rightarrow> string) \<Rightarrow> string \<Rightarrow> string \<Rightarrow> u64 \<Rightarrow> string" where
  "compute_idempotency_key blake3 project dir gen = blake3 (project @ NUL # dir @ NUL # show_u64 gen)"

definition finished :: "job_phase \<Rightarrow> bool" where
  "finished ph \<longleftrightarrow> ph = Completed \<or> ph = Failed \<or> ph = Cancelled"

definition is_resumable :: "checkpoint \<Rightarrow> bool" where
  "is_resumable cp \<longleftrightarrow> \<not> finished (cp_phase cp)"

section \<open>Operations\<close>

definition cp_put :: "checkpoint codec \<Rightarrow> checkpoint \<Rightarrow> table \<Rightarrow> table" where
  "cp_put J cp t = fmupd (cp_job_id cp) (to_vec J cp) t"

definition cp_get :: "checkpoint codec \<Rightarrow> string \<Rightarrow> table \<Rightarrow> checkpoint option res" where
  "cp_get J jid t = transposeR (decode J) (fmlookup t jid)"

fun find_best :: "checkpoint codec \<Rightarrow> string \<Rightarrow> checkpoint option \<Rightarrow> (string \<times> bytes) list \<Rightarrow> checkpoint option res" where
  "find_best J project best [] = Inr best"
| "find_best J project best ((_, v) # rows) =
     bindR (decode J v) (\<lambda>cp.
     find_best J project
       (if cp_project_id cp = project \<and> is_resumable cp
           \<and> (case best of None \<Rightarrow> True | Some b \<Rightarrow> cp_updated_at_ms b < cp_updated_at_ms cp)
        then Some cp else best) rows)"

definition find_resumable :: "checkpoint codec \<Rightarrow> string \<Rightarrow> table \<Rightarrow> checkpoint option res" where
  "find_resumable J project t = find_best J project None (iter t)"

fun find_key :: "checkpoint codec \<Rightarrow> string \<Rightarrow> (string \<times> bytes) list \<Rightarrow> checkpoint option res" where
  "find_key J key [] = Inr None"
| "find_key J key ((_, v) # rows) =
     bindR (decode J v) (\<lambda>cp. if idempotency_key cp = key then Inr (Some cp) else find_key J key rows)"

definition find_by_idempotency_key :: "checkpoint codec \<Rightarrow> string \<Rightarrow> table \<Rightarrow> checkpoint option res" where
  "find_by_idempotency_key J key t = find_key J key (iter t)"

definition tombstone :: "checkpoint codec \<Rightarrow> string \<Rightarrow> table \<Rightarrow> cancellation_outcome \<times> table" where
  "tombstone J jid t = (case cp_get J jid t of
     Inr (Some cp) \<Rightarrow> (CancelledWithTombstone, cp_put J (cp\<lparr>cp_phase := Cancelled\<rparr>) t)
   | _ \<Rightarrow> (CancelledWithoutTombstone, t))"

definition cp_remove :: "string \<Rightarrow> table \<Rightarrow> table" where
  "cp_remove jid t = fmdrop jid t"

definition list_all_checkpoints :: "checkpoint codec \<Rightarrow> table \<Rightarrow> checkpoint list res" where
  "list_all_checkpoints J t =
     bindR (traverseR (decode J) (map snd (iter t))) (\<lambda>out.
     Inr (sort_key (\<lambda>cp. - int (unat (cp_updated_at_ms cp))) out))"

definition cleanup_old :: "checkpoint codec \<Rightarrow> u64 option \<Rightarrow> u64 \<Rightarrow> table \<Rightarrow> (nat \<times> table) res" where
  "cleanup_old J now max_age_ms t =
     bindR (ok_or now (Bail ''system time before the epoch'')) (\<lambda>n.
     let cutoff = saturating_sub n max_age_ms in
     bindR (traverseR (\<lambda>(k, v). bindR (decode J v) (\<lambda>cp. Inr (k, cp))) (iter t)) (\<lambda>rows.
     let to_remove = map fst (filter (\<lambda>(k, cp). finished (cp_phase cp) \<and> cp_updated_at_ms cp < cutoff) rows)
     in Inr (length to_remove, remove_keys to_remove t)))"

section \<open>Lemmas\<close>

text \<open>The decoded rows of a table.\<close>

definition stored_cp :: "checkpoint codec \<Rightarrow> table \<Rightarrow> string \<Rightarrow> checkpoint \<Rightarrow> bool" where
  "stored_cp J t k cp \<longleftrightarrow> (\<exists>v. fmlookup t k = Some v \<and> from_slice J v = Some cp)"

definition well_keyed :: "checkpoint codec \<Rightarrow> table \<Rightarrow> bool" where
  "well_keyed J t \<longleftrightarrow> codec_ok J \<and> (\<forall>k v. fmlookup t k = Some v \<longrightarrow> (\<exists>cp. from_slice J v = Some cp \<and> cp_job_id cp = k))"

definition candidate_for :: "string \<Rightarrow> checkpoint \<Rightarrow> bool" where
  "candidate_for project cp \<longleftrightarrow> cp_project_id cp = project \<and> is_resumable cp"

definition decodes_in :: "checkpoint codec \<Rightarrow> (string \<times> bytes) list \<Rightarrow> checkpoint \<Rightarrow> bool" where
  "decodes_in J rows cp \<longleftrightarrow> (\<exists>kv \<in> set rows. from_slice J (snd kv) = Some cp)"

lemma decodes_in_Cons: "decodes_in J ((k, v) # rows) cp \<longleftrightarrow> from_slice J v = Some cp \<or> decodes_in J rows cp"
  by (simp add: decodes_in_def)

lemma decodes_in_iter: "decodes_in J (iter t) cp \<longleftrightarrow> (\<exists>k. stored_cp J t k cp)"
  unfolding decodes_in_def stored_cp_def set_iter [symmetric] by (metis prod.collapse snd_conv)

lemma find_best_spec:
  assumes "find_best J project best rows = Inr r"
  shows "(r = None \<longrightarrow> best = None \<and> (\<forall>cp. decodes_in J rows cp \<longrightarrow> \<not> candidate_for project cp))
    \<and> (\<forall>c. r = Some c \<longrightarrow> (best = Some c \<or> (candidate_for project c \<and> decodes_in J rows c))
        \<and> (\<forall>b. best = Some b \<longrightarrow> cp_updated_at_ms b \<le> cp_updated_at_ms c)
        \<and> (\<forall>cp. decodes_in J rows cp \<longrightarrow> candidate_for project cp \<longrightarrow> cp_updated_at_ms cp \<le> cp_updated_at_ms c))"
  using assms
proof (induction rows arbitrary: best)
  case Nil
  then show ?case by (simp add: decodes_in_def)
next
  case (Cons kv rows)
  obtain k v where kv: "kv = (k, v)" by (cases kv)
  with Cons.prems obtain cp where cp: "from_slice J v = Some cp" by auto
  define best' where "best' = (if candidate_for project cp
      \<and> (case best of None \<Rightarrow> True | Some b \<Rightarrow> cp_updated_at_ms b < cp_updated_at_ms cp) then Some cp else best)"
  have "find_best J project best' rows = Inr r"
    using Cons.prems cp by (simp add: kv best'_def candidate_for_def conj_assoc)
  note IH = Cons.IH [OF this]
  show ?case
  proof (cases r)
    case None
    with IH have b': "best' = None" and no: "\<forall>cp. decodes_in J rows cp \<longrightarrow> \<not> candidate_for project cp" by blast+
    have "best = None" "\<not> candidate_for project cp"
      using b' by (cases best; auto simp: best'_def split: if_splits)+
    with no cp None show ?thesis by (auto simp: kv decodes_in_Cons)
  next
    case (Some c)
    with IH have 1: "best' = Some c \<or> (candidate_for project c \<and> decodes_in J rows c)"
      and 2: "\<And>b. best' = Some b \<Longrightarrow> cp_updated_at_ms b \<le> cp_updated_at_ms c"
      and 3: "\<And>cp. decodes_in J rows cp \<Longrightarrow> candidate_for project cp \<Longrightarrow> cp_updated_at_ms cp \<le> cp_updated_at_ms c"
      by blast+
    have 4: "cp_updated_at_ms cp \<le> cp_updated_at_ms c" if "candidate_for project cp"
    proof (cases "best' = Some cp")
      case False
      with that obtain b where "best = Some b" "best' = Some b" "cp_updated_at_ms cp \<le> cp_updated_at_ms b"
        by (cases best) (auto simp: best'_def split: if_splits)
      with 2 [of b] show ?thesis by simp
    qed (rule 2)
    have 5: "cp_updated_at_ms b \<le> cp_updated_at_ms c" if "best = Some b" for b
    proof (cases "best' = Some cp")
      case True
      with that have "b = cp \<or> cp_updated_at_ms b < cp_updated_at_ms cp" by (auto simp: best'_def split: if_splits)
      with 2 [OF True] show ?thesis by auto
    next
      case False
      with that have "best' = Some b" by (auto simp: best'_def split: if_splits)
      then show ?thesis by (rule 2)
    qed
    have "best = Some c \<or> (candidate_for project c \<and> decodes_in J (kv # rows) c)"
      using 1 cp by (auto simp: kv decodes_in_Cons best'_def split: if_splits)
    with 3 4 5 cp Some show ?thesis by (auto simp: kv decodes_in_Cons)
  qed
qed

lemma find_resumable_spec:
  assumes "find_resumable J project t = Inr r"
  shows "case r of None \<Rightarrow> \<forall>k cp. stored_cp J t k cp \<longrightarrow> \<not> candidate_for project cp
    | Some c \<Rightarrow> candidate_for project c \<and> (\<exists>k. stored_cp J t k c)
        \<and> (\<forall>k cp. stored_cp J t k cp \<longrightarrow> candidate_for project cp \<longrightarrow> cp_updated_at_ms cp \<le> cp_updated_at_ms c)"
  using find_best_spec [OF assms [unfolded find_resumable_def]]
  by (cases r) (simp_all add: decodes_in_iter, blast+)

lemma find_best_total:
  "(\<And>kv. kv \<in> set rows \<Longrightarrow> \<exists>cp. from_slice J (snd kv) = Some cp) \<Longrightarrow> \<exists>r. find_best J project best rows = Inr r"
proof (induction rows arbitrary: best)
  case (Cons kv rows)
  obtain k v where kv: "kv = (k, v)" by (cases kv)
  then obtain cp where cp: "decode J v = Inr cp" using Cons.prems [of kv] by auto
  have "\<exists>r. find_best J project b rows = Inr r" for b by (rule Cons.IH) (use Cons.prems in simp)
  then show ?case by (simp add: kv cp del: bindR_eq_Inr)
qed simp

lemma well_keyed_ops:
  assumes "well_keyed J t"
  shows "well_keyed J (cp_put J cp t)" and "well_keyed J (cp_remove jid t)" and "well_keyed J (snd (tombstone J jid t))"
    and "well_keyed J (remove_keys ks t)"
  using assms
  by (auto simp: well_keyed_def cp_put_def cp_remove_def tombstone_def codec_ok_def split: sum.splits option.splits)

section \<open>A concrete store\<close>

definition all_phases :: "job_phase list" where
  "all_phases = [Scanning, Parsing, TantivyIndexing, VectorIndexing, GraphBuilding, PostProcessing, Completed, Failed, Cancelled]"

definition phase_w :: "job_phase wire" where
  "phase_w = map_w show_phase (\<lambda>s. the (find (\<lambda>p. show_phase p = s) all_phases)) string_w"

definition checkpoint_w :: "checkpoint wire" where
  "checkpoint_w = map_w
     (\<lambda>c. (cp_job_id c, cp_project_id c, cp_phase c, items_processed c, items_total c, cp_generation c,
           idempotency_key c, resume_state c, cp_updated_at_ms c, cp_error c))
     (\<lambda>(j, p, ph, ip, it, g, k, r, u, e). \<lparr> cp_job_id = j, cp_project_id = p, cp_phase = ph, items_processed = ip,
        items_total = it, cp_generation = g, idempotency_key = k, resume_state = r, cp_updated_at_ms = u, cp_error = e \<rparr>)
     (pair_w string_w (pair_w string_w (pair_w phase_w (pair_w u64_w (pair_w u64_w (pair_w u64_w
       (pair_w string_w (pair_w (option_w string_w) (pair_w u64_w (option_w string_w))))))))))"

lemma phase_w_ok [simp]: "wire_ok phase_w"
  unfolding phase_w_def
proof (rule map_w_ok)
  fix p show "the (find (\<lambda>q. show_phase q = show_phase p) all_phases) = p"
    by (cases p) (simp_all add: all_phases_def)
qed simp

lemma checkpoint_codec_ok [simp]: "codec_ok (wire_codec checkpoint_w)"
  by (rule wire_codec_ok) (unfold checkpoint_w_def, rule map_w_ok, simp_all)

definition sample_cp :: checkpoint where
  "sample_cp = \<lparr> cp_job_id = ''j'', cp_project_id = ''p'', cp_phase = Parsing, items_processed = 1, items_total = 2,
     cp_generation = 1, idempotency_key = ''k'', resume_state = None, cp_updated_at_ms = 5, cp_error = None \<rparr>"

definition sample_store :: table where
  "sample_store = cp_put (wire_codec checkpoint_w) sample_cp fmempty"

lemma sample_store_keyed: "well_keyed (wire_codec checkpoint_w) sample_store"
  unfolding sample_store_def by (rule well_keyed_ops(1)) (simp add: well_keyed_def)

section \<open>Properties\<close>

text \<open>
  The checkpoint offered for resumption is the newest: on a store whose rows decode the
  search answers, with a stored checkpoint of the project that is neither completed, failed nor
  cancelled and at least as recent as every other such one, or with none when there is none.
\<close>

theorem find_resumable_newest:
  assumes "well_keyed J t"
  shows "\<exists>r. find_resumable J project t = Inr r \<and> (case r of
      None \<Rightarrow> \<forall>k cp. stored_cp J t k cp \<longrightarrow> \<not> candidate_for project cp
    | Some c \<Rightarrow> candidate_for project c \<and> stored_cp J t (cp_job_id c) c
        \<and> (\<forall>k cp. stored_cp J t k cp \<longrightarrow> candidate_for project cp \<longrightarrow> cp_updated_at_ms cp \<le> cp_updated_at_ms c))"
proof -
  have "\<exists>r. find_resumable J project t = Inr r"
    unfolding find_resumable_def
    by (rule find_best_total) (use assms in \<open>force simp: well_keyed_def set_iter [symmetric]\<close>)
  then obtain r where r: "find_resumable J project t = Inr r" ..
  have key: "cp_job_id c = k" if "stored_cp J t k c" for k c
    using assms that by (force simp: well_keyed_def stored_cp_def)
  from find_resumable_spec [OF r] key r show ?thesis by (cases r) auto
qed

theorem find_resumable_newest_witness:
  "\<exists>r. find_resumable (wire_codec checkpoint_w) ''p'' sample_store = Inr r \<and> r \<noteq> None"
proof -
  have "stored_cp (wire_codec checkpoint_w) sample_store ''j'' sample_cp"
    using checkpoint_codec_ok by (simp add: stored_cp_def sample_store_def cp_put_def codec_ok_def) (simp add: sample_cp_def)
  moreover have "candidate_for ''p'' sample_cp" by (simp add: candidate_for_def is_resumable_def finished_def sample_cp_def)
  ultimately show ?thesis using find_resumable_newest [OF sample_store_keyed, of "''p''"] by (auto split: option.splits)
qed

text \<open>
  C35. A tombstoned job is never offered again: after a cancellation that reports a tombstone,
  no project's search returns a checkpoint of that job, and the other jobs' checkpoints are
  untouched.
\<close>

theorem tombstone_prevents_resume:
  assumes "well_keyed J t" and "tombstone J jid t = (CancelledWithTombstone, t')"
  shows "(\<forall>project c. find_resumable J project t' = Inr (Some c) \<longrightarrow> cp_job_id c \<noteq> jid)
    \<and> (\<forall>other. other \<noteq> jid \<longrightarrow> cp_get J other t' = cp_get J other t)"
proof -
  obtain cp where cp: "cp_get J jid t = Inr (Some cp)" and t': "t' = cp_put J (cp\<lparr>cp_phase := Cancelled\<rparr>) t"
    using assms(2) by (auto simp: tombstone_def split: sum.splits option.splits)
  have id: "cp_job_id cp = jid" using cp assms(1) by (force simp: cp_get_def well_keyed_def)
  have wk: "well_keyed J t'" using well_keyed_ops(1) [OF assms(1)] by (simp add: t')
  have "cp_job_id c \<noteq> jid" if f: "find_resumable J project t' = Inr (Some c)" for project c
  proof
    assume c: "cp_job_id c = jid"
    obtain k where k: "stored_cp J t' k c" and res: "candidate_for project c" using find_resumable_spec [OF f] by auto
    have "k = jid" using k wk c by (force simp: well_keyed_def stored_cp_def)
    with k have "c = cp\<lparr>cp_phase := Cancelled\<rparr>"
      using assms(1) by (simp add: stored_cp_def t' cp_put_def id well_keyed_def codec_ok_def)
    with res show False by (simp add: candidate_for_def is_resumable_def finished_def)
  qed
  moreover have "cp_get J other t' = cp_get J other t" if "other \<noteq> jid" for other
    using that id by (simp add: cp_get_def t' cp_put_def)
  ultimately show ?thesis by blast
qed

theorem tombstone_prevents_resume_witness:
  "\<exists>t'. tombstone (wire_codec checkpoint_w) ''j'' sample_store = (CancelledWithTombstone, t')
    \<and> (\<forall>c. find_resumable (wire_codec checkpoint_w) ''p'' t' = Inr (Some c) \<longrightarrow> cp_job_id c \<noteq> ''j'')"
proof -
  have "cp_get (wire_codec checkpoint_w) ''j'' sample_store = Inr (Some sample_cp)"
    using checkpoint_codec_ok
    by (simp add: cp_get_def sample_store_def cp_put_def codec_ok_def) (simp add: sample_cp_def)
  then obtain t' where t': "tombstone (wire_codec checkpoint_w) ''j'' sample_store = (CancelledWithTombstone, t')"
    by (simp add: tombstone_def)
  from tombstone_prevents_resume [OF sample_store_keyed t'] t' show ?thesis by blast
qed

text \<open>
  The clean-up removes exactly the checkpoints that are finished and older than the cut-off:
  every other row is kept as it is, and the returned number is the number of rows removed.
\<close>

theorem cleanup_old_exact:
  assumes "well_keyed J t" and "cleanup_old J (Some now) max_age t = Inr (n, t')"
  shows "(\<forall>k cp. stored_cp J t k cp \<longrightarrow> fmlookup t' k =
        (if finished (cp_phase cp) \<and> cp_updated_at_ms cp < saturating_sub now max_age then None else fmlookup t k))
    \<and> n + length (iter t') = length (iter t)"
proof -
  define old :: "checkpoint \<Rightarrow> bool" where "old = (\<lambda>cp. finished (cp_phase cp) \<and> cp_updated_at_ms cp < saturating_sub now max_age)"
  obtain rows where rows: "traverseR (\<lambda>(k, v). bindR (decode J v) (\<lambda>cp. Inr (k, cp))) (iter t) = Inr rows"
    and n: "n = length (filter (\<lambda>(k, cp). old cp) rows)"
    and t': "t' = remove_keys (map fst (filter (\<lambda>(k, cp). old cp) rows)) t"
    using assms(2) by (auto simp: cleanup_old_def Let_def old_def)
  note R = remove_decoded [where P = old, OF rows refl]
  have "fmlookup t' k = (if old cp then None else fmlookup t k)" if s: "stored_cp J t k cp" for k cp
  proof -
    obtain v where v: "fmlookup t k = Some v" "decode J v = Inr cp" using s by (auto simp: stored_cp_def)
    show ?thesis unfolding t' using R(2) [OF v] v(1) by simp
  qed
  moreover have "n + length (iter t') = length (iter t)" using R(1) by (simp add: n t')
  ultimately show ?thesis by (simp add: old_def)
qed

theorem cleanup_old_exact_witness:
  "\<exists>n t'. cleanup_old (wire_codec checkpoint_w) (Some 100) 10 sample_store = Inr (n, t')
    \<and> n + length (iter t') = length (iter sample_store)"
proof -
  have "decode (wire_codec checkpoint_w) (to_vec (wire_codec checkpoint_w) sample_cp) = Inr sample_cp" by simp
  then obtain n t' where run: "cleanup_old (wire_codec checkpoint_w) (Some 100) 10 sample_store = Inr (n, t')"
    by (simp add: cleanup_old_def Let_def sample_store_def cp_put_def iter_singleton del: bindR_eq_Inr)
  from cleanup_old_exact [OF sample_store_keyed run] run show ?thesis by blast
qed

end
