(* ===== verification/Card_Cache_Properties.thy ===== *)
theory Card_Cache_Properties
  imports Card_Cache
begin

text \<open>
  The invariant of the change-card cache and what its writers keep of it. The order table is
  the inverse of the sequence numbers in the records, and the accounting record holds the exact
  number of rows and of charged bytes; both survive every batch, whatever is evicted.
\<close>

section \<open>Formats\<close>

lemma length_magics [simp]: "length MAGIC = 8" "length STATE_MAGIC = 8"
  by (simp_all add: MAGIC_def STATE_MAGIC_def)

lemma length_card_record [simp]: "length (card_record n p) = 16 + length p"
  by (simp add: card_record_def)

lemma sequence_card_record [simp]: "sequence (card_record n p) = Some n"
  by (simp add: sequence_def card_record_def)

lemma drop_card_record [simp]: "drop 16 (card_record n p) = p"
  by (simp add: card_record_def)

lemma state_decode_encode:
  assumes "cs_count st \<le> CHANGE_CARD_CACHE_ROWS" and "cs_bytes st \<le> MAX_BYTES" and "cs_count st \<le> unat (cs_next st)"
  shows "state_decode (state_encode st) = Inr st"
proof -
  have u: "unat (of_nat n :: u64) = n" if "n \<le> MAX_BYTES" for n
    using that by (simp add: unat_of_nat MAX_BYTES_def)
  have c: "cs_count st \<le> MAX_BYTES" using assms(1) by (simp add: CHANGE_CARD_CACHE_ROWS_def MAX_BYTES_def)
  show ?thesis
    using assms u [OF c] u [OF assms(2)] by (simp add: state_decode_def state_encode_def Let_def)
qed

section \<open>Accounting on tables\<close>

definition row_charge :: "table \<Rightarrow> nat" where
  "row_charge rows = table_weight (\<lambda>k v. charge k (length v)) rows"

lemma row_charge_drop:
  "fmlookup rows k = Some v \<Longrightarrow> row_charge rows = charge k (length v) + row_charge (fmdrop k rows)"
  unfolding row_charge_def by (rule table_weight_drop)

lemma row_charge_new:
  "fmlookup rows k = None \<Longrightarrow> row_charge (fmupd k v rows) = charge k (length v) + row_charge rows"
  unfolding row_charge_def by (rule table_weight_new)

lemma row_charge_upd:
  "row_charge (fmupd k v rows) = charge k (length v) + row_charge (fmdrop k rows)"
  unfolding row_charge_def by (rule table_weight_upd)

section \<open>The invariant\<close>

definition books :: "table \<Rightarrow> (u64, string) fmap \<Rightarrow> card_state \<Rightarrow> bool" where
  "books rows order st \<longleftrightarrow>
     (\<forall>seq key. fmlookup order seq = Some key \<longleftrightarrow> (\<exists>v. fmlookup rows key = Some v \<and> sequence v = Some seq))
     \<and> (\<forall>key v. fmlookup rows key = Some v \<longrightarrow> sequence v \<noteq> None \<and> length v \<le> MAX_RECORD + 16)
     \<and> (\<forall>seq key. fmlookup order seq = Some key \<longrightarrow> seq \<le> cs_next st)
     \<and> table_len order = table_len rows
     \<and> cs_count st = table_len rows \<and> cs_bytes st = row_charge rows \<and> cs_count st \<le> unat (cs_next st)"

definition cands_ok :: "table \<Rightarrow> candidate list \<Rightarrow> bool" where
  "cands_ok rows cs \<longleftrightarrow> distinct (map (\<lambda>c. fst (snd c)) cs) \<and>
     (\<forall>(seq, key, sz) \<in> set cs. \<exists>v. fmlookup rows key = Some v \<and> sequence v = Some seq \<and> sz = charge key (length v))"

lemma booksD:
  assumes "books rows order st"
  shows "fmlookup order seq = Some key \<longleftrightarrow> (\<exists>v. fmlookup rows key = Some v \<and> sequence v = Some seq)"
    and "fmlookup rows key = Some v \<Longrightarrow> sequence v \<noteq> None" and "fmlookup rows key = Some v \<Longrightarrow> length v \<le> MAX_RECORD + 16"
    and "fmlookup order seq = Some key \<Longrightarrow> seq \<le> cs_next st"
    and "table_len order = table_len rows" and "cs_count st = table_len rows"
    and "cs_bytes st = row_charge rows" and "cs_count st \<le> unat (cs_next st)"
  using assms unfolding books_def by blast+

lemma books_inj:
  assumes "books rows order st" and "fmlookup rows k = Some v" and "fmlookup rows l = Some w" and "sequence v = sequence w"
  shows "k = l"
  using assms booksD(1,2) [OF assms(1)] by (metis option.inject not_None_eq)

abbreviation cand_keys :: "candidate list \<Rightarrow> string list" where
  "cand_keys cs \<equiv> map (\<lambda>c. fst (snd c)) cs"

abbreviation cand_bytes :: "candidate list \<Rightarrow> nat" where
  "cand_bytes cs \<equiv> sum_list (map (\<lambda>c. snd (snd c)) cs)"

lemma cands_ok_Cons:
  "cands_ok rows ((seq, key, sz) # cs) \<longleftrightarrow> key \<notin> set (cand_keys cs) \<and> cands_ok rows cs
     \<and> (\<exists>v. fmlookup rows key = Some v \<and> sequence v = Some seq \<and> sz = charge key (length v))"
  by (auto simp: cands_ok_def)

lemma cands_ok_append: "cands_ok rows (xs @ ys) \<Longrightarrow> cands_ok rows xs \<and> cands_ok rows ys
    \<and> set (cand_keys xs) \<inter> set (cand_keys ys) = {}"
  by (auto simp: cands_ok_def)

lemma cands_ok_cong:
  "cands_ok rows cs \<Longrightarrow> (\<And>k. k \<in> set (cand_keys cs) \<Longrightarrow> fmlookup rows' k = fmlookup rows k) \<Longrightarrow> cands_ok rows' cs"
  by (force simp: cands_ok_def)

text \<open>The candidates are rows of the table, so they are at most as many and at most as large.\<close>

lemma cands_within:
  assumes "cands_ok rows cs"
  shows "length cs \<le> table_len rows" and "cand_bytes cs \<le> row_charge rows"
proof -
  have "length cs \<le> table_len rows \<and> cand_bytes cs \<le> row_charge rows"
    using assms
  proof (induction cs arbitrary: rows)
    case (Cons c cs)
    obtain seq key sz where c: "c = (seq, key, sz)" by (cases c)
    with Cons.prems obtain v where v: "fmlookup rows key = Some v" "sz = charge key (length v)"
      and n: "key \<notin> set (cand_keys cs)" and cs: "cands_ok rows cs" by (auto simp: cands_ok_Cons)
    have "cands_ok (fmdrop key rows) cs" by (rule cands_ok_cong [OF cs]) (use n in auto)
    from Cons.IH [OF this] show ?case
      using table_len_drop [OF v(1)] row_charge_drop [OF v(1)] v(2) by (simp add: c)
  qed simp
  then show "length cs \<le> table_len rows" "cand_bytes cs \<le> row_charge rows" by simp_all
qed

lemma cands_charge:
  assumes "cands_ok rows cs" and "key \<notin> set (cand_keys cs)" and "fmlookup rows key = Some raw"
  shows "cand_bytes cs + charge key (length raw) \<le> row_charge rows" and "length cs < table_len rows"
proof -
  have "cands_ok (fmdrop key rows) cs" by (rule cands_ok_cong [OF assms(1)]) (use assms(2) in auto)
  from cands_within [OF this] show "cand_bytes cs + charge key (length raw) \<le> row_charge rows" "length cs < table_len rows"
    using row_charge_drop [OF assms(3)] table_len_drop [OF assms(3)] by simp_all
qed

section \<open>Scanning and evicting\<close>

lemma scan_evictions_ok:
  assumes "cands_ok rows cs" and "key \<notin> set (cand_keys cs)" and "length cs \<le> pc" and "cand_bytes cs \<le> pb"
  shows "\<exists>taken rest. cs = taken @ rest
    \<and> scan_evictions rows key mr mb cs pc pb = Inr (taken, rest, pc - length taken, pb - cand_bytes taken)"
  using assms
proof (induction cs arbitrary: pc pb)
  case (Cons c cs)
  obtain seq cand sz where c: "c = (seq, cand, sz)" by (cases c)
  show ?case
  proof (cases "mr < pc \<or> mb < pb")
    case True
    have ok: "cands_ok rows cs" "key \<notin> set (cand_keys cs)" "cand \<noteq> key" "fmlookup rows cand \<noteq> None"
      using Cons.prems by (auto simp: c cands_ok_Cons)
    have le: "length cs \<le> pc - 1" "cand_bytes cs \<le> pb - sz" using Cons.prems(3,4) by (simp_all add: c)
    from Cons.IH [OF ok(1,2) le] obtain taken rest where
      "cs = taken @ rest" "scan_evictions rows key mr mb cs (pc - 1) (pb - sz)
         = Inr (taken, rest, pc - 1 - length taken, pb - sz - cand_bytes taken)"
      by blast
    then show ?thesis using True ok Cons.prems(3,4)
      by (intro exI [of _ "c # taken"] exI [of _ rest]) (auto simp: c)
  qed (simp add: c)
qed simp

lemma evict_eq:
  assumes "cands_ok rows cs" and "key \<notin> set (cand_keys cs)"
  shows "evict key cs (rows, order, n)
    = (remove_keys (cand_keys cs) rows, remove_keys (map fst cs) order, n + length cs)"
  using assms
proof (induction cs arbitrary: rows order n)
  case (Cons c cs)
  obtain seq cand sz where c: "c = (seq, cand, sz)" by (cases c)
  have ok: "cands_ok rows cs" "key \<notin> set (cand_keys cs)" "cand \<noteq> key" "fmlookup rows cand \<noteq> None"
    "cand \<notin> set (cand_keys cs)" using Cons.prems by (auto simp: c cands_ok_Cons)
  have "cands_ok (fmdrop cand rows) cs" by (rule cands_ok_cong [OF ok(1)]) (use ok(5) in auto)
  from Cons.IH [OF this ok(2)] ok show ?case by (simp add: c remove_keys_def)
qed (simp add: remove_keys_def)

text \<open>Removing candidate rows with their order entries keeps the books of the smaller table.\<close>

lemma books_remove:
  assumes "books rows order st" and "cands_ok rows cs"
  shows "books (remove_keys (cand_keys cs) rows) (remove_keys (map fst cs) order)
     (st\<lparr>cs_count := cs_count st - length cs, cs_bytes := cs_bytes st - cand_bytes cs\<rparr>)"
  using assms
proof (induction cs arbitrary: rows order st)
  case (Cons c cs)
  obtain seq key sz where c: "c = (seq, key, sz)" by (cases c)
  with Cons.prems(2) obtain v where v: "fmlookup rows key = Some v" "sequence v = Some seq" "sz = charge key (length v)"
    and n: "key \<notin> set (cand_keys cs)" and cs: "cands_ok rows cs" by (auto simp: cands_ok_Cons)
  note B = booksD [OF Cons.prems(1)]
  have b: "fmlookup order seq = Some key" using B(1) v by auto
  have inj: "fmlookup rows k = Some w \<Longrightarrow> sequence w = Some seq \<Longrightarrow> k = key" for k w
    using books_inj [OF Cons.prems(1), of k w key v] v by simp
  let ?st = "st\<lparr>cs_count := cs_count st - 1, cs_bytes := cs_bytes st - sz\<rparr>"
  have b1: "books (fmdrop key rows) (fmdrop seq order) ?st"
    unfolding books_def
  proof (intro conjI allI impI)
    fix sq k
    show "fmlookup (fmdrop seq order) sq = Some k
        \<longleftrightarrow> (\<exists>v. fmlookup (fmdrop key rows) k = Some v \<and> sequence v = Some sq)"
    proof (cases "sq = seq \<or> k = key")
      case True
      have "\<not> (\<exists>w. k \<noteq> key \<and> fmlookup rows k = Some w \<and> sequence w = Some seq)" using inj by blast
      moreover have "\<not> (sq \<noteq> seq \<and> fmlookup order sq = Some key)" using B(1) [of sq key] v by auto
      ultimately show ?thesis using True by auto
    next
      case False
      then show ?thesis using B(1) [of sq k] by simp
    qed
  next
    show "table_len (fmdrop seq order) = table_len (fmdrop key rows)"
      "cs_count ?st = table_len (fmdrop key rows)" "cs_bytes ?st = row_charge (fmdrop key rows)"
      "cs_count ?st \<le> unat (cs_next ?st)"
      using B(5-8) table_len_drop [OF v(1)] table_len_drop [OF b] row_charge_drop [OF v(1)] v(3)
      by simp_all
  qed (use B(2-4) in \<open>auto split: if_splits\<close>)
  have b2: "cands_ok (fmdrop key rows) cs" by (rule cands_ok_cong [OF cs]) (use n in auto)
  from Cons.IH [OF b1 b2] show ?case by (simp add: c remove_keys_def)
qed (simp add: remove_keys_def)

section \<open>Inserting\<close>

lemma books_insert_new:
  assumes "books rows order st" and "fmlookup rows key = None" and "checked_add (cs_next st) 1 = Some n"
    and "length payload \<le> MAX_RECORD"
  shows "books (fmupd key (card_record n payload) rows) (fmupd n key order)
    \<lparr> cs_next = n, cs_count = cs_count st + 1, cs_bytes = cs_bytes st + charge key (16 + length payload) \<rparr>"
proof -
  note B = booksD [OF assms(1)]
  have n: "cs_next st < n" "unat n = unat (cs_next st) + 1"
    using checked_succ_gt [OF assms(3)] checked_add_unat [OF assms(3)] by simp_all
  have fresh: "fmlookup order n = None" using B(4) [of n] n(1) by (cases "fmlookup order n") auto
  have norec: "sequence v \<noteq> Some n" if "fmlookup rows k = Some v" for k v
    using B(1) [of n k] that fresh by auto
  have nokey: "fmlookup order sq \<noteq> Some key" for sq using B(1) [of sq key] assms(2) by auto
  show ?thesis
    unfolding books_def
  proof (intro conjI allI impI)
    fix sq k
    show "fmlookup (fmupd n key order) sq = Some k
        \<longleftrightarrow> (\<exists>v. fmlookup (fmupd key (card_record n payload) rows) k = Some v \<and> sequence v = Some sq)"
      using B(1) [of sq k] norec [of k] nokey [of sq] by (cases "sq = n"; cases "k = key") auto
  next
    fix sq k assume "fmlookup (fmupd n key order) sq = Some k"
    then show "sq \<le> cs_next \<lparr> cs_next = n, cs_count = cs_count st + 1, cs_bytes = cs_bytes st + charge key (16 + length payload) \<rparr>"
      using B(4) [of sq k] n(1) by (auto split: if_splits)
  qed (use B(2,3,5-8) assms(2,4) fresh n(2) in
      \<open>auto simp: table_len_upd row_charge_new add.commute split: if_splits\<close>)
qed

lemma books_replace:
  assumes "books rows order st" and "fmlookup rows key = Some raw" and "sequence raw = Some sq"
    and "length payload \<le> MAX_RECORD"
  shows "books (fmupd key (card_record sq payload) rows) (fmupd sq key order)
    (st\<lparr>cs_bytes := cs_bytes st - charge key (length raw) + charge key (16 + length payload)\<rparr>)"
proof -
  note B = booksD [OF assms(1)]
  have o: "fmlookup order sq = Some key" using B(1) [of sq key] assms(2,3) by auto
  then have "fmupd sq key order = order" by (intro fmap_ext) auto
  moreover have "books (fmupd key (card_record sq payload) rows) order
    (st\<lparr>cs_bytes := cs_bytes st - charge key (length raw) + charge key (16 + length payload)\<rparr>)"
    unfolding books_def
  proof (intro conjI allI impI)
    fix q k
    show "fmlookup order q = Some k
        \<longleftrightarrow> (\<exists>v. fmlookup (fmupd key (card_record sq payload) rows) k = Some v \<and> sequence v = Some q)"
      using B(1) [of q k] assms(2,3) by (cases "k = key") auto
  next
    fix q k assume "fmlookup order q = Some k"
    then show "q \<le> cs_next (st\<lparr>cs_bytes := cs_bytes st - charge key (length raw) + charge key (16 + length payload)\<rparr>)"
      using B(4) by simp
  qed (use B(2,3,5-8) assms(2,4) row_charge_drop [OF assms(2)] in
      \<open>auto simp: table_len_upd row_charge_upd split: if_splits\<close>)
  ultimately show ?thesis by simp
qed

section \<open>One entry of a batch\<close>

definition loop_inv :: "string set \<Rightarrow> store_loop \<Rightarrow> bool" where
  "loop_inv protected l \<longleftrightarrow> books (sl_rows l) (sl_order l) (sl_state l) \<and> cands_ok (sl_rows l) (sl_left l)
     \<and> set (cand_keys (sl_left l)) \<inter> protected = {}"

definition within :: "nat \<Rightarrow> nat \<Rightarrow> card_state \<Rightarrow> bool" where
  "within max_rows max_bytes st \<longleftrightarrow> cs_count st \<le> max_rows \<and> cs_bytes st \<le> max_bytes"

text \<open>
  The effect of one entry: a prefix of the candidates is evicted, nothing else outside the
  entry's key changes, and the entry's own row is either as before or the new payload.
\<close>

text \<open>The row of an entry holds its payload.\<close>

definition holds :: "table \<Rightarrow> string \<times> bytes \<Rightarrow> bool" where
  "holds rows e \<longleftrightarrow> read_card rows (fst e) = Some (snd e)"

definition entry_effect :: "nat \<Rightarrow> nat \<Rightarrow> string \<times> bytes \<Rightarrow> store_loop \<Rightarrow> store_loop \<Rightarrow> bool" where
  "entry_effect max_rows max_bytes e l l' \<longleftrightarrow>
     (\<exists>gone. sl_left l = gone @ sl_left l' \<and>
        (\<forall>k. k \<noteq> fst e \<longrightarrow> fmlookup (sl_rows l') k = (if k \<in> set (cand_keys gone) then None else fmlookup (sl_rows l) k)))
     \<and> (fmlookup (sl_rows l') (fst e) = fmlookup (sl_rows l) (fst e)
        \<or> (\<exists>sq. fmlookup (sl_rows l') (fst e) = Some (card_record sq (snd e)) \<and> length (snd e) \<le> MAX_RECORD))
     \<and> (within max_rows max_bytes (sl_state l) \<longrightarrow> within max_rows max_bytes (sl_state l'))
     \<and> unat (cs_next (sl_state l')) \<le> unat (cs_next (sl_state l)) + 1
     \<and> cw_stored (sl_result l') + cw_unchanged (sl_result l') + cw_skipped (sl_result l')
        = cw_stored (sl_result l) + cw_unchanged (sl_result l) + cw_skipped (sl_result l) + 1
     \<and> (cw_stored (sl_result l') = cw_stored (sl_result l) \<longrightarrow>
          sl_rows l' = sl_rows l \<and> sl_order l' = sl_order l \<and> sl_state l' = sl_state l
          \<and> cw_evicted (sl_result l') = cw_evicted (sl_result l))
     \<and> cw_stored (sl_result l) \<le> cw_stored (sl_result l')
     \<and> cw_stored (sl_result l') + cw_unchanged (sl_result l')
        \<le> cw_stored (sl_result l) + cw_unchanged (sl_result l) + (if holds (sl_rows l') e then 1 else 0)"

lemma entry_kept:
  assumes "loop_inv protected l" and "sl_rows l' = sl_rows l" "sl_order l' = sl_order l" "sl_state l' = sl_state l"
    "sl_left l' = sl_left l"
    and "cw_stored (sl_result l') = cw_stored (sl_result l)" and "cw_evicted (sl_result l') = cw_evicted (sl_result l)"
    and "cw_unchanged (sl_result l') + cw_skipped (sl_result l') = cw_unchanged (sl_result l) + cw_skipped (sl_result l) + 1"
    and "cw_unchanged (sl_result l') \<le> cw_unchanged (sl_result l) + (if holds (sl_rows l) e then 1 else 0)"
  shows "loop_inv protected l' \<and> entry_effect mr mb e l l'"
  using assms by (simp add: loop_inv_def entry_effect_def)

lemma entry_stored:
  assumes inv: "loop_inv protected l" and key: "key \<in> protected" and len: "length payload \<le> MAX_RECORD"
    and left: "sl_left l = taken @ rest"
    and rec: "case fmlookup (sl_rows l) key of None \<Rightarrow> checked_add (cs_next (sl_state l)) 1 = Some sq \<and> next' = sq
       | Some raw \<Rightarrow> sequence raw = Some sq \<and> next' = cs_next (sl_state l)"
    and pc: "pc = cs_count (sl_state l) + (if fmlookup (sl_rows l) key = None then 1 else 0) - length taken"
    and pb: "pb = cs_bytes (sl_state l) - (case fmlookup (sl_rows l) key of None \<Rightarrow> 0 | Some raw \<Rightarrow> charge key (length raw))
       + charge key (16 + length payload) - cand_bytes taken"
    and fits: "pc \<le> mr" "pb \<le> mb"
    and l': "l' = \<lparr> sl_rows = fmupd key (card_record sq payload) (remove_keys (cand_keys taken) (sl_rows l)),
       sl_order = fmupd sq key (remove_keys (map fst taken) (sl_order l)),
       sl_state = \<lparr> cs_next = next', cs_count = pc, cs_bytes = pb \<rparr>, sl_left = rest,
       sl_result = (sl_result l)\<lparr>cw_evicted := ev, cw_stored := cw_stored (sl_result l) + 1\<rparr> \<rparr>"
  shows "loop_inv protected l' \<and> entry_effect mr mb (key, payload) l l'"
proof -
  let ?rows = "sl_rows l" and ?st = "sl_state l"
  let ?rows1 = "remove_keys (cand_keys taken) ?rows" and ?order1 = "remove_keys (map fst taken) (sl_order l)"
  let ?st1 = "?st\<lparr>cs_count := cs_count ?st - length taken, cs_bytes := cs_bytes ?st - cand_bytes taken\<rparr>"
  have b: "books ?rows (sl_order l) ?st" and c: "cands_ok ?rows (taken @ rest)"
    and dis: "set (cand_keys (taken @ rest)) \<inter> protected = {}"
    using inv by (simp_all add: loop_inv_def left)
  note ca = cands_ok_append [OF c]
  have nk: "key \<notin> set (cand_keys taken)" "key \<notin> set (cand_keys rest)" using dis key by auto
  have b1: "books ?rows1 ?order1 ?st1" by (rule books_remove [OF b]) (use ca in simp)
  have same: "fmlookup ?rows1 key = fmlookup ?rows key" using nk by simp
  have w: "length taken \<le> cs_count ?st" "cand_bytes taken \<le> cs_bytes ?st"
    using cands_within [of ?rows taken] ca booksD(6,7) [OF b] by simp_all
  have books': "books (sl_rows l') (sl_order l') (sl_state l')"
  proof (cases "fmlookup ?rows key")
    case None
    then have "books (fmupd key (card_record sq payload) ?rows1) (fmupd sq key ?order1)
        \<lparr> cs_next = sq, cs_count = cs_count ?st1 + 1, cs_bytes = cs_bytes ?st1 + charge key (16 + length payload) \<rparr>"
      using rec same by (intro books_insert_new [OF b1 _ _ len]) simp_all
    then show ?thesis using None rec w by (simp add: l' pc pb Suc_diff_le)
  next
    case (Some raw)
    then have "books (fmupd key (card_record sq payload) ?rows1) (fmupd sq key ?order1)
        (?st1\<lparr>cs_bytes := cs_bytes ?st1 - charge key (length raw) + charge key (16 + length payload)\<rparr>)"
      using rec same by (intro books_replace [OF b1 _ _ len]) simp_all
    moreover have "charge key (length raw) \<le> cs_bytes ?st1"
      using row_charge_drop [of ?rows1 key raw] Some same booksD(7) [OF b1] by simp
    moreover have "?st1\<lparr>cs_bytes := cs_bytes ?st1 - charge key (length raw) + charge key (16 + length payload)\<rparr> = sl_state l'"
      using Some rec w calculation(2) by (intro card_state.equality) (simp_all add: l' pc pb)
    ultimately show ?thesis by (simp add: l')
  qed
  have "cands_ok (sl_rows l') rest"
    by (rule cands_ok_cong [of ?rows]) (use ca nk in \<open>auto simp: l'\<close>)
  with books' dis have "loop_inv protected l'" by (auto simp: loop_inv_def l')
  moreover have "unat next' \<le> unat (cs_next ?st) + 1"
    using rec checked_add_unat [of "cs_next ?st" 1 sq] by (auto split: option.splits)
  moreover have "\<exists>gone. sl_left l = gone @ sl_left l' \<and> (\<forall>k. k \<noteq> key \<longrightarrow>
      fmlookup (sl_rows l') k = (if k \<in> set (cand_keys gone) then None else fmlookup ?rows k))"
    by (rule exI [of _ taken]) (simp add: left l')
  moreover have "holds (sl_rows l') (key, payload)" by (simp add: holds_def read_card_def l' len leD)
  ultimately show ?thesis using fits len by (auto simp: entry_effect_def within_def l')
qed

lemma store_entry_ok:
  assumes inv: "loop_inv protected l" and key: "fst e \<in> protected" and room: "cs_next (sl_state l) < U64_MAX"
  shows "\<exists>l'. store_entry mr mb e l = Inr l' \<and> loop_inv protected l' \<and> entry_effect mr mb e l l'"
proof -
  obtain key payload where e: "e = (key, payload)" by (cases e)
  let ?rows = "sl_rows l" and ?st = "sl_state l"
  have b: "books ?rows (sl_order l) ?st" and c: "cands_ok ?rows (sl_left l)" and nk: "key \<notin> set (cand_keys (sl_left l))"
    using inv key by (auto simp: loop_inv_def e)
  note B = booksD [OF b]
  note kept = entry_kept [OF inv, where mr = mr and mb = mb and e = e]
  have skip: "loop_inv protected (skip_entry l) \<and> entry_effect mr mb e l (skip_entry l)"
    by (rule kept) (simp_all add: skip_entry_def)
  have seqs: "\<exists>sq. sequence raw = Some sq \<and> fmlookup (sl_order l) sq = Some key" if "fmlookup ?rows key = Some raw" for raw
    using B(2) [OF that] B(1) that by auto
  consider "MAX_RECORD < length payload"
    | "length payload \<le> MAX_RECORD" "\<exists>raw. fmlookup ?rows key = Some raw \<and> 16 \<le> length raw \<and> drop 16 raw = payload"
    | "length payload \<le> MAX_RECORD" "\<not> (\<exists>raw. fmlookup ?rows key = Some raw \<and> 16 \<le> length raw \<and> drop 16 raw = payload)"
    using le_less_linear by blast
  then show ?thesis
  proof cases
    case 1
    then show ?thesis using skip by (simp add: store_entry_def e)
  next
    case 2
    let ?l' = "l\<lparr>sl_result := (sl_result l)\<lparr>cw_unchanged := cw_unchanged (sl_result l) + 1\<rparr>\<rparr>"
    have "store_entry mr mb e l = Inr ?l'"
      using 2 seqs by (auto simp: store_entry_def e)
    moreover have "holds ?rows e" using 2(2) B(2,3) by (fastforce simp: holds_def read_card_def e)
    then have "loop_inv protected ?l' \<and> entry_effect mr mb e l ?l'" by (intro kept) simp_all
    ultimately show ?thesis by blast
  next
    case 3
    define old where "old = (case fmlookup ?rows key of None \<Rightarrow> 0 | Some raw \<Rightarrow> charge key (length raw))"
    define pc0 where "pc0 = cs_count ?st + (if fmlookup ?rows key = None then 1 else 0)"
    define pb0 where "pb0 = cs_bytes ?st - old + charge key (16 + length payload)"
    have old: "old \<le> cs_bytes ?st" "length (sl_left l) \<le> pc0" "cand_bytes (sl_left l) \<le> pb0"
      using cands_within [OF c] cands_charge [OF c nk] B(6,7) by (auto simp: old_def pc0_def pb0_def split: option.split)
    from scan_evictions_ok [OF c nk old(2,3), of mr mb] obtain taken rest where left: "sl_left l = taken @ rest"
      and scan: "scan_evictions ?rows key mr mb (sl_left l) pc0 pb0
        = Inr (taken, rest, pc0 - length taken, pb0 - cand_bytes taken)" by blast
    have ev: "evict key taken (?rows, sl_order l, cw_evicted (sl_result l))
        = (remove_keys (cand_keys taken) ?rows, remove_keys (map fst taken) (sl_order l), cw_evicted (sl_result l) + length taken)"
      using c nk by (intro evict_eq) (auto simp: left dest: cands_ok_append)
    obtain n where n: "checked_add (cs_next ?st) 1 = Some n"
      using room checked_succ_None_iff [of "cs_next ?st"] by (cases "checked_add (cs_next ?st) 1") auto
    obtain sq next' where rec: "case fmlookup ?rows key of None \<Rightarrow> checked_add (cs_next ?st) 1 = Some sq \<and> next' = sq
       | Some raw \<Rightarrow> sequence raw = Some sq \<and> next' = cs_next ?st"
      using n seqs by (cases "fmlookup ?rows key") auto
    define l' where "l' = \<lparr> sl_rows = fmupd key (card_record sq payload) (remove_keys (cand_keys taken) ?rows),
       sl_order = fmupd sq key (remove_keys (map fst taken) (sl_order l)),
       sl_state = \<lparr> cs_next = next', cs_count = pc0 - length taken, cs_bytes = pb0 - cand_bytes taken \<rparr>, sl_left = rest,
       sl_result = (sl_result l)\<lparr>cw_evicted := cw_evicted (sl_result l) + length taken, cw_stored := cw_stored (sl_result l) + 1\<rparr> \<rparr>"
    have run: "store_entry mr mb e l =
        (if mr < pc0 - length taken \<or> mb < pb0 - cand_bytes taken then Inr (skip_entry l) else Inr l')"
    proof (cases "fmlookup ?rows key")
      case None
      then show ?thesis using 3 rec old(1) scan ev
        by (simp add: store_entry_def e old_def pc0_def pb0_def Let_def l'_def)
    next
      case (Some raw)
      then show ?thesis using 3 rec old(1) scan ev seqs [OF Some]
        by (simp add: store_entry_def e old_def pc0_def pb0_def Let_def l'_def) blast
    qed
    show ?thesis
    proof (cases "mr < pc0 - length taken \<or> mb < pb0 - cand_bytes taken")
      case False
      have "loop_inv protected l' \<and> entry_effect mr mb (key, payload) l l'"
        by (rule entry_stored [OF inv _ 3(1) left rec _ _ _ _ l'_def])
          (use key False in \<open>auto simp: e pc0_def pb0_def old_def\<close>)
      with run False show ?thesis by (simp add: e)
    qed (use run skip in simp)
  qed
qed

section \<open>A whole batch\<close>

definition batch_effect :: "nat \<Rightarrow> nat \<Rightarrow> (string \<times> bytes) list \<Rightarrow> store_loop \<Rightarrow> store_loop \<Rightarrow> bool" where
  "batch_effect max_rows max_bytes es l l' \<longleftrightarrow>
     (\<exists>gone. sl_left l = gone @ sl_left l' \<and> (\<forall>k. k \<notin> fst ` set es \<longrightarrow>
        fmlookup (sl_rows l') k = (if k \<in> set (cand_keys gone) then None else fmlookup (sl_rows l) k)))
     \<and> (\<forall>(k, p) \<in> set es. fmlookup (sl_rows l') k = fmlookup (sl_rows l) k
          \<or> (\<exists>sq. fmlookup (sl_rows l') k = Some (card_record sq p) \<and> length p \<le> MAX_RECORD))
     \<and> (within max_rows max_bytes (sl_state l) \<longrightarrow> within max_rows max_bytes (sl_state l'))
     \<and> unat (cs_next (sl_state l')) \<le> unat (cs_next (sl_state l)) + length es
     \<and> cw_stored (sl_result l') + cw_unchanged (sl_result l') + cw_skipped (sl_result l')
        = cw_stored (sl_result l) + cw_unchanged (sl_result l) + cw_skipped (sl_result l) + length es
     \<and> (cw_stored (sl_result l') = cw_stored (sl_result l) \<longrightarrow>
          sl_rows l' = sl_rows l \<and> sl_order l' = sl_order l \<and> sl_state l' = sl_state l
          \<and> cw_evicted (sl_result l') = cw_evicted (sl_result l))
     \<and> cw_stored (sl_result l) \<le> cw_stored (sl_result l')
     \<and> cw_stored (sl_result l') + cw_unchanged (sl_result l')
        \<le> cw_stored (sl_result l) + cw_unchanged (sl_result l) + length (filter (holds (sl_rows l')) es)"

lemma batch_effect_Cons:
  assumes e: "entry_effect mr mb e l l1" and b: "batch_effect mr mb es l1 l2"
    and inv: "loop_inv protected l" and new: "fst e \<notin> fst ` set es" and prot: "fst ` set (e # es) \<subseteq> protected"
  shows "batch_effect mr mb (e # es) l l2"
proof -
  obtain g1 where g1: "sl_left l = g1 @ sl_left l1" "\<And>k. k \<noteq> fst e \<Longrightarrow>
      fmlookup (sl_rows l1) k = (if k \<in> set (cand_keys g1) then None else fmlookup (sl_rows l) k)"
    using e by (auto simp: entry_effect_def)
  obtain g2 where g2: "sl_left l1 = g2 @ sl_left l2" "\<And>k. k \<notin> fst ` set es \<Longrightarrow>
      fmlookup (sl_rows l2) k = (if k \<in> set (cand_keys g2) then None else fmlookup (sl_rows l1) k)"
    using b unfolding batch_effect_def by blast
  have np: "k \<notin> set (cand_keys g1)" "k \<notin> set (cand_keys g2)" if "k \<in> protected" for k
    using inv that g1(1) g2(1) by (auto simp: loop_inv_def)
  have gone: "\<exists>gone. sl_left l = gone @ sl_left l2 \<and> (\<forall>k. k \<notin> fst ` set (e # es) \<longrightarrow>
        fmlookup (sl_rows l2) k = (if k \<in> set (cand_keys gone) then None else fmlookup (sl_rows l) k))"
    by (rule exI [of _ "g1 @ g2"]) (use g1 g2 in auto)
  have own: "fmlookup (sl_rows l2) (fst e) = fmlookup (sl_rows l1) (fst e)"
    using g2(2) [OF new] np(2) [of "fst e"] prot by auto
  have rest: "fmlookup (sl_rows l1) k = fmlookup (sl_rows l) k" if "k \<in> fst ` set es" for k
  proof -
    have "k \<noteq> fst e" using that new by blast
    moreover have "k \<in> protected" using that prot by auto
    ultimately show ?thesis using g1(2) np(1) by simp
  qed
  have keys: "\<forall>(k, p) \<in> set (e # es). fmlookup (sl_rows l2) k = fmlookup (sl_rows l) k
      \<or> (\<exists>sq. fmlookup (sl_rows l2) k = Some (card_record sq p) \<and> length p \<le> MAX_RECORD)"
  proof (intro ballI, clarify)
    fix k p assume "(k, p) \<in> set (e # es)" and no: "\<not> (\<exists>sq. fmlookup (sl_rows l2) k = Some (card_record sq p) \<and> length p \<le> MAX_RECORD)"
    then consider "e = (k, p)" | "(k, p) \<in> set es" by auto
    then show "fmlookup (sl_rows l2) k = fmlookup (sl_rows l) k"
    proof cases
      case 1
      then show ?thesis using e own no by (auto simp: entry_effect_def)
    next
      case 2
      have "fmlookup (sl_rows l2) k = fmlookup (sl_rows l1) k" using b 2 no by (auto simp: batch_effect_def)
      moreover have "k \<in> fst ` set es" using 2 by force
      ultimately show ?thesis using rest by simp
    qed
  qed
  have E: "within mr mb (sl_state l) \<Longrightarrow> within mr mb (sl_state l1)"
    "unat (cs_next (sl_state l1)) \<le> unat (cs_next (sl_state l)) + 1"
    "cw_stored (sl_result l1) + cw_unchanged (sl_result l1) + cw_skipped (sl_result l1)
      = cw_stored (sl_result l) + cw_unchanged (sl_result l) + cw_skipped (sl_result l) + 1"
    "cw_stored (sl_result l1) = cw_stored (sl_result l) \<Longrightarrow> sl_rows l1 = sl_rows l \<and> sl_order l1 = sl_order l
      \<and> sl_state l1 = sl_state l \<and> cw_evicted (sl_result l1) = cw_evicted (sl_result l)"
    "cw_stored (sl_result l) \<le> cw_stored (sl_result l1)"
    using e unfolding entry_effect_def by blast+
  have F: "within mr mb (sl_state l1) \<Longrightarrow> within mr mb (sl_state l2)"
    "unat (cs_next (sl_state l2)) \<le> unat (cs_next (sl_state l1)) + length es"
    "cw_stored (sl_result l2) + cw_unchanged (sl_result l2) + cw_skipped (sl_result l2)
      = cw_stored (sl_result l1) + cw_unchanged (sl_result l1) + cw_skipped (sl_result l1) + length es"
    "cw_stored (sl_result l2) = cw_stored (sl_result l1) \<Longrightarrow> sl_rows l2 = sl_rows l1 \<and> sl_order l2 = sl_order l1
      \<and> sl_state l2 = sl_state l1 \<and> cw_evicted (sl_result l2) = cw_evicted (sl_result l1)"
    "cw_stored (sl_result l1) \<le> cw_stored (sl_result l2)"
    using b unfolding batch_effect_def by blast+
  have idle: "cw_stored (sl_result l2) = cw_stored (sl_result l) \<longrightarrow> sl_rows l2 = sl_rows l \<and> sl_order l2 = sl_order l
      \<and> sl_state l2 = sl_state l \<and> cw_evicted (sl_result l2) = cw_evicted (sl_result l)"
    using E(4,5) F(4,5) by auto
  have "cw_stored (sl_result l1) + cw_unchanged (sl_result l1)
      \<le> cw_stored (sl_result l) + cw_unchanged (sl_result l) + (if holds (sl_rows l1) e then 1 else 0)"
    using e unfolding entry_effect_def by blast
  moreover have "cw_stored (sl_result l2) + cw_unchanged (sl_result l2)
      \<le> cw_stored (sl_result l1) + cw_unchanged (sl_result l1) + length (filter (holds (sl_rows l2)) es)"
    using b unfolding batch_effect_def by blast
  moreover have "holds (sl_rows l2) e \<longleftrightarrow> holds (sl_rows l1) e" by (simp add: holds_def read_card_def own)
  ultimately have held: "cw_stored (sl_result l2) + cw_unchanged (sl_result l2)
      \<le> cw_stored (sl_result l) + cw_unchanged (sl_result l) + length (filter (holds (sl_rows l2)) (e # es))"
    by (cases "holds (sl_rows l1) e") simp_all
  show ?thesis
    unfolding batch_effect_def by (intro conjI gone keys idle held impI) (use E F in simp_all)
qed

lemma store_entries_ok:
  assumes "loop_inv protected l" and "fst ` set es \<subseteq> protected" and "distinct (map fst es)"
    and "unat (cs_next (sl_state l)) + length es \<le> unat U64_MAX"
  shows "\<exists>l'. store_entries mr mb es l = Inr l' \<and> loop_inv protected l' \<and> batch_effect mr mb es l l'"
  using assms
proof (induction es arbitrary: l)
  case Nil
  then show ?case by (simp add: batch_effect_def)
next
  case (Cons e es)
  have "cs_next (sl_state l) < U64_MAX" using Cons.prems(4) by (simp add: word_less_nat_alt)
  with Cons.prems obtain l1 where l1: "store_entry mr mb e l = Inr l1" "loop_inv protected l1" "entry_effect mr mb e l l1"
    using store_entry_ok [of protected l e mr mb] by auto
  have "unat (cs_next (sl_state l1)) + length es \<le> unat U64_MAX"
    using l1(3) Cons.prems(4) by (simp add: entry_effect_def)
  with Cons.IH [OF l1(2)] Cons.prems obtain l2 where l2: "store_entries mr mb es l1 = Inr l2" "loop_inv protected l2"
    "batch_effect mr mb es l1 l2" by auto
  have "batch_effect mr mb (e # es) l l2"
    by (rule batch_effect_Cons [OF l1(3) l2(3) Cons.prems(1)]) (use Cons.prems in auto)
  with l1 l2 show ?case by auto
qed

section \<open>The eviction candidates\<close>

lemma eviction_candidates_eq:
  assumes "books rows order st"
  shows "eviction_candidates protected rows order
    = map (\<lambda>(sq, k). (sq, k, charge k (length (the (fmlookup rows k)))))
        (filter (\<lambda>sk. snd sk \<notin> protected) (take MAX_EVICTIONS (iter order)))"
proof -
  have row: "\<exists>v. fmlookup rows k = Some v \<and> sequence v = Some sq" if "(sq, k) \<in> set (take MAX_EVICTIONS (iter order))" for sq k
    using in_set_takeD [OF that] booksD(1) [OF assms] by (simp add: set_iter)
  have "concat (map (\<lambda>(sq, k). if k \<in> protected then [] else (case fmlookup rows k of None \<Rightarrow> []
        | Some v \<Rightarrow> if sequence v = Some sq then [(sq, k, charge k (length v))] else [])) xs)
      = map (\<lambda>(sq, k). (sq, k, charge k (length (the (fmlookup rows k))))) (filter (\<lambda>sk. snd sk \<notin> protected) xs)"
    if "\<And>sq k. (sq, k) \<in> set xs \<Longrightarrow> \<exists>v. fmlookup rows k = Some v \<and> sequence v = Some sq" for xs
    using that
  proof (induction xs)
    case (Cons x xs)
    obtain sq k where x: "x = (sq, k)" by (cases x)
    with Cons.prems obtain v where "fmlookup rows k = Some v" "sequence v = Some sq" by force
    with Cons x show ?case by auto
  qed simp
  from this [OF row] show ?thesis unfolding eviction_candidates_def .
qed

lemma eviction_candidates_ok:
  assumes "books rows order st"
  shows "cands_ok rows (eviction_candidates protected rows order)"
    and "set (cand_keys (eviction_candidates protected rows order)) \<inter> protected = {}"
proof -
  let ?L = "filter (\<lambda>sk. snd sk \<notin> protected) (take MAX_EVICTIONS (iter order))"
  have mem: "fmlookup order sq = Some k" if "(sq, k) \<in> set ?L" for sq k
    using that by (auto simp: set_iter dest: in_set_takeD)
  have rowv: "\<exists>v. fmlookup rows k = Some v \<and> sequence v = Some sq" if "(sq, k) \<in> set ?L" for sq k
    using mem [OF that] booksD(1) [OF assms] by simp
  have "distinct ?L" using distinct_iter [of order] by (simp add: distinct_map)
  moreover have "inj_on snd (set ?L)"
  proof (rule inj_onI)
    fix x y assume xy: "x \<in> set ?L" "y \<in> set ?L" "snd x = snd y"
    then have "(fst x, snd x) \<in> set ?L" "(fst y, snd x) \<in> set ?L" by (metis prod.collapse)+
    from rowv [OF this(1)] rowv [OF this(2)] xy(3) show "x = y" by (auto intro: prod_eqI)
  qed
  ultimately have "distinct (map snd ?L)" by (simp add: distinct_map del: set_filter)
  moreover have "cand_keys (eviction_candidates protected rows order) = map snd ?L"
    unfolding eviction_candidates_eq [OF assms] by (simp add: comp_def case_prod_unfold)
  ultimately have d: "distinct (cand_keys (eviction_candidates protected rows order))" by simp
  moreover have "\<exists>v. fmlookup rows k = Some v \<and> sequence v = Some sq \<and> sz = charge k (length v)"
    if "(sq, k, sz) \<in> set (eviction_candidates protected rows order)" for sq k sz
    using that rowv [of sq k] unfolding eviction_candidates_eq [OF assms] by force
  ultimately show "cands_ok rows (eviction_candidates protected rows order)" by (auto simp: cands_ok_def)
  show "set (cand_keys (eviction_candidates protected rows order)) \<inter> protected = {}"
    unfolding eviction_candidates_eq [OF assms] by auto
qed

text \<open>Whatever is ahead of a candidate in the insertion order is ahead of it in the candidates.\<close>

lemma candidates_oldest_first:
  assumes b: "books rows order st" and C: "eviction_candidates protected rows order = gone @ rest"
    and k: "k \<in> set (cand_keys gone)" "fmlookup rows k = Some v" "sequence v = Some sq"
    and k': "k' \<notin> set (cand_keys gone)" "k' \<notin> protected" "fmlookup rows k' = Some v'" "sequence v' = Some sq'"
  shows "sq < sq'"
proof (rule ccontr)
  let ?T = "take MAX_EVICTIONS (iter order)"
  let ?f = "\<lambda>(sq, k). (sq, k, charge k (length (the (fmlookup rows k))))"
  assume "\<not> sq < sq'"
  moreover have "sq \<noteq> sq'" using k k' books_inj [OF b k(2) k'(3)] by auto
  ultimately have lt: "sq' < sq" by simp
  have ok: "cands_ok rows (gone @ rest)" using eviction_candidates_ok(1) [OF b, of protected] C by simp
  obtain sz where g: "(sq, k, sz) \<in> set gone"
  proof -
    obtain c where c: "c \<in> set gone" "k = fst (snd c)" using k(1) by auto
    with ok have "sequence v = Some (fst c)" using k(2) by (cases c) (force simp: cands_ok_def)
    with k(3) have "(sq, k, snd (snd c)) = c" using c(2) by (auto simp: prod_eq_iff)
    with c(1) show thesis by (intro that [of "snd (snd c)"]) simp
  qed
  have sorted: "sorted (map fst (gone @ rest))"
  proof -
    have "sorted (map fst ?T)" using sorted_iter [of order] by (simp add: take_map [symmetric] sorted_wrt_take)
    then have "sorted (map fst (filter (\<lambda>sk. snd sk \<notin> protected) ?T))" by (rule sorted_filter)
    then show ?thesis unfolding C [symmetric] eviction_candidates_eq [OF b] by (simp add: comp_def case_prod_unfold)
  qed
  have "(sq', k') \<in> set (iter order)" using booksD(1) [OF b, of sq' k'] k' by (auto simp: set_iter)
  then consider "(sq', k') \<in> set ?T" | "(sq', k') \<in> set (drop MAX_EVICTIONS (iter order))"
    by (metis append_take_drop_id set_append Un_iff)
  then show False
  proof cases
    case 1
    then have "?f (sq', k') \<in> set (gone @ rest)"
      using k'(2) unfolding C [symmetric] eviction_candidates_eq [OF b] by force
    then have "?f (sq', k') \<in> set rest" using k'(1) by force
    with g sorted lt show False by (fastforce simp: sorted_append)
  next
    case 2
    have "(sq, k) \<in> set ?T"
      using g arg_cong [OF C, of set] unfolding eviction_candidates_eq [OF b] by force
    moreover have "sorted (map fst (?T @ drop MAX_EVICTIONS (iter order)))" using sorted_iter by simp
    ultimately show False using 2 lt unfolding map_append sorted_append by fastforce
  qed
qed

section \<open>The cache\<close>

definition cards_ok :: "nat \<Rightarrow> nat \<Rightarrow> card_db \<Rightarrow> bool" where
  "cards_ok max_rows max_bytes d \<longleftrightarrow> d = empty_cards \<or> (tables_exist d \<and>
     (\<exists>st. card_current d = Some (state_encode st) \<and> books (card_rows d) (card_order d) st
        \<and> within max_rows max_bytes st))"

definition cards_next :: "card_db \<Rightarrow> u64" where
  "cards_next d = (case card_current d of None \<Rightarrow> 0
     | Some raw \<Rightarrow> (case state_decode raw of Inl _ \<Rightarrow> 0 | Inr st \<Rightarrow> cs_next st))"

definition batch_valid :: "(string \<times> bytes) list \<Rightarrow> bool" where
  "batch_valid es \<longleftrightarrow> es \<noteq> [] \<and> length es \<le> CHANGE_CARD_CACHE_BATCH \<and> list_all (valid_key \<circ> fst) es \<and> distinct (map fst es)"

lemma books_empty: "books fmempty fmempty \<lparr> cs_next = 0, cs_count = 0, cs_bytes = 0 \<rparr>"
  by (simp add: books_def row_charge_def fcard.rep_eq)

lemma cards_ok_state:
  assumes "cards_ok mr mb d" and "mr \<le> CHANGE_CARD_CACHE_ROWS" and "mb \<le> MAX_BYTES"
  obtains st where "books (card_rows d) (card_order d) st" "within mr mb st" "cards_next d = cs_next st"
    "(case card_current d of Some raw \<Rightarrow> state_decode raw
      | None \<Rightarrow> bindR (ensure (card_rows d = fmempty \<and> card_order d = fmempty)
           (Bail ''Missing card-cache accounting; preserved'')) (\<lambda>_. Inr \<lparr> cs_next = 0, cs_count = 0, cs_bytes = 0 \<rparr>)) = Inr st"
    "tables_exist d \<Longrightarrow> card_current d = Some (state_encode st) \<and> state_decode (state_encode st) = Inr st"
proof (cases "d = empty_cards")
  case True
  then show thesis
    using that [of "\<lparr> cs_next = 0, cs_count = 0, cs_bytes = 0 \<rparr>"] books_empty
    by (simp add: empty_cards_def cards_next_def within_def)
next
  case False
  with assms(1) obtain st where st: "tables_exist d" "card_current d = Some (state_encode st)"
    "books (card_rows d) (card_order d) st" "within mr mb st" by (auto simp: cards_ok_def)
  have "state_decode (state_encode st) = Inr st"
    by (rule state_decode_encode) (use st(3,4) assms(2,3) booksD(8) [OF st(3)] in \<open>auto simp: within_def\<close>)
  with st show thesis by (intro that [of st]) (simp_all add: cards_next_def)
qed

text \<open>The run of a batch: it succeeds, keeps the invariant and has the effect of its loop.\<close>

lemma store_run:
  assumes "cards_ok mr mb d" and "mr \<le> CHANGE_CARD_CACHE_ROWS" and "mb \<le> MAX_BYTES" and "batch_valid es"
    and "unat (cards_next d) + length es \<le> unat U64_MAX"
  obtains l l' w d' where "store_cards_with_limits es mr mb d = Inr (w, d')" "cards_ok mr mb d'"
    "sl_rows l = card_rows d" "sl_left l = eviction_candidates (fst ` set es) (card_rows d) (card_order d)"
    "books (card_rows d) (card_order d) (sl_state l)" "batch_effect mr mb es l l'" "card_rows d' = sl_rows l'"
    "cw_stored w + cw_unchanged w + cw_skipped w = length es"
    "cw_rows w = table_len (card_rows d')" "cw_charged_bytes w = row_charge (card_rows d')"
    "cw_stored w + cw_unchanged w \<le> length (filter (holds (card_rows d')) es)"
proof -
  obtain st where st: "books (card_rows d) (card_order d) st" "within mr mb st" "cards_next d = cs_next st"
    and load: "(case card_current d of Some raw \<Rightarrow> state_decode raw
      | None \<Rightarrow> bindR (ensure (card_rows d = fmempty \<and> card_order d = fmempty)
           (Bail ''Missing card-cache accounting; preserved'')) (\<lambda>_. Inr \<lparr> cs_next = 0, cs_count = 0, cs_bytes = 0 \<rparr>)) = Inr st"
    by (rule cards_ok_state [OF assms(1-3)])
  let ?prot = "fst ` set es"
  define l where "l = \<lparr> sl_rows = card_rows d, sl_order = card_order d, sl_state = st,
      sl_left = eviction_candidates ?prot (card_rows d) (card_order d), sl_result = write_default \<rparr>"
  have inv: "loop_inv ?prot l"
    using st(1) eviction_candidates_ok [OF st(1), of ?prot] by (simp add: loop_inv_def l_def)
  have "\<exists>l'. store_entries mr mb es l = Inr l' \<and> loop_inv ?prot l' \<and> batch_effect mr mb es l l'"
    by (rule store_entries_ok [OF inv]) (use assms(4,5) st(3) in \<open>auto simp: batch_valid_def l_def\<close>)
  then obtain l' where l': "store_entries mr mb es l = Inr l'" "loop_inv ?prot l'" "batch_effect mr mb es l l'" by blast
  let ?w = "(sl_result l')\<lparr>cw_rows := cs_count (sl_state l'), cw_charged_bytes := cs_bytes (sl_state l')\<rparr>"
  let ?d = "if cw_stored ?w \<noteq> 0 \<or> cw_evicted ?w \<noteq> 0
      then \<lparr> tables_exist = True, card_rows = sl_rows l', card_order = sl_order l',
             card_current = Some (state_encode (sl_state l')) \<rparr> else d"
  have run: "store_cards_with_limits es mr mb d = Inr (?w, ?d)"
    using assms(4) load booksD(5,6) [OF st(1)] l'(1)
    by (simp add: store_cards_with_limits_def batch_valid_def l_def Let_def)
  have idle: "sl_rows l' = card_rows d" if "cw_stored (sl_result l') = 0"
    using l'(3) that by (simp add: batch_effect_def l_def write_default_def)
  have w': "within mr mb (sl_state l')" using l'(3) st(2) by (simp add: batch_effect_def l_def)
  have b': "books (sl_rows l') (sl_order l') (sl_state l')" using l'(2) by (simp add: loop_inv_def)
  have "cards_ok mr mb ?d" using assms(1) w' b' by (auto simp: cards_ok_def)
  moreover have rows: "card_rows ?d = sl_rows l'" using idle by auto
  moreover have "cw_stored ?w + cw_unchanged ?w + cw_skipped ?w = length es"
    using l'(3) by (simp add: batch_effect_def l_def write_default_def)
  moreover have "cw_rows ?w = table_len (card_rows ?d)" "cw_charged_bytes ?w = row_charge (card_rows ?d)"
    unfolding rows using booksD(6,7) [OF b'] by simp_all
  moreover have "cw_stored ?w + cw_unchanged ?w \<le> length (filter (holds (card_rows ?d)) es)"
    unfolding rows using l'(3) by (simp add: batch_effect_def l_def write_default_def)
  ultimately show thesis
    by (intro that [OF run _ _ _ _ l'(3)]) (simp_all add: l_def st(1))
qed

section \<open>A concrete cache\<close>

definition card_key :: "char \<Rightarrow> string" where
  "card_key c = replicate 64 CHR ''0'' @ CHR ''/'' # replicate 40 c"

lemma card_key_eq [simp]: "card_key c = card_key d \<longleftrightarrow> c = d"
  by (simp add: card_key_def numeral_eq_Suc)

lemma length_card_key [simp]: "length (card_key c) = 105"
  by (simp add: card_key_def)

lemma valid_card_key:
  assumes "is_hexdigit c"
  shows "valid_key (card_key c)"
proof -
  have "takeWhile (\<lambda>d. d \<noteq> CHR ''/'') (card_key c) = replicate 64 CHR ''0''"
    unfolding card_key_def by (subst takeWhile_append2) auto
  moreover have "drop 65 (card_key c) = replicate 40 c" by (simp add: card_key_def)
  moreover have "is_hexdigit CHR ''0''" by (simp add: is_hexdigit_def)
  ultimately show ?thesis using assms by (simp add: valid_key_def Let_def) (simp add: card_key_def)
qed

lemma hexdigits [simp]: "is_hexdigit CHR ''a''" "is_hexdigit CHR ''b''" "is_hexdigit CHR ''c''"
  by (simp_all add: is_hexdigit_def)

definition two_cards :: card_db where
  "two_cards = \<lparr> tables_exist = True,
     card_rows = fmupd (card_key CHR ''b'') (card_record 2 ''y'') (fmupd (card_key CHR ''a'') (card_record 1 ''x'') fmempty),
     card_order = fmupd 2 (card_key CHR ''b'') (fmupd 1 (card_key CHR ''a'') fmempty),
     card_current = Some (state_encode \<lparr> cs_next = 2, cs_count = 2, cs_bytes = 470 \<rparr>) \<rparr>"

lemma two_cards_books:
  "books (card_rows two_cards) (card_order two_cards) \<lparr> cs_next = 2, cs_count = 2, cs_bytes = 470 \<rparr>"
proof -
  have len: "length ''x'' \<le> MAX_RECORD" "length ''y'' \<le> MAX_RECORD" by (simp_all add: MAX_RECORD_def)
  have "books (fmupd (card_key CHR ''a'') (card_record 1 ''x'') fmempty) (fmupd 1 (card_key CHR ''a'') fmempty)
      \<lparr> cs_next = 1, cs_count = 1, cs_bytes = 235 \<rparr>"
    using books_insert_new [OF books_empty, of "card_key CHR ''a''" 1 "''x''"] len
    by (simp add: checked_add_def charge_def)
  moreover have "checked_add (1 :: u64) 1 = Some 2" by (simp add: checked_add_def)
  ultimately show ?thesis
    using books_insert_new [of _ _ "\<lparr> cs_next = 1, cs_count = 1, cs_bytes = 235 \<rparr>" "card_key CHR ''b''" 2 "''y''"] len
    by (simp add: charge_def two_cards_def numeral_2_eq_2)
qed

lemma two_cards_ok: "cards_ok 2 1000 two_cards"
  using two_cards_books by (auto simp: cards_ok_def two_cards_def within_def)

definition third_card :: "(string \<times> bytes) list" where
  "third_card = [(card_key CHR ''c'', ''z'')]"

lemma third_card_valid: "batch_valid third_card"
  by (simp add: batch_valid_def third_card_def CHANGE_CARD_CACHE_BATCH_def valid_card_key)

lemma two_cards_next: "cards_next two_cards = 2"
  using state_decode_encode [of "\<lparr> cs_next = 2, cs_count = 2, cs_bytes = 470 \<rparr>"]
  by (simp add: cards_next_def two_cards_def CHANGE_CARD_CACHE_ROWS_def MAX_BYTES_def)

lemma limits_2_1000: "2 \<le> CHANGE_CARD_CACHE_ROWS" "1000 \<le> MAX_BYTES"
  by (simp_all add: CHANGE_CARD_CACHE_ROWS_def MAX_BYTES_def)

lemma two_cards_room: "unat (cards_next two_cards) + length third_card \<le> unat U64_MAX"
  by (simp add: two_cards_next third_card_def)

lemma two_cards_iter: "iter (card_order two_cards) = [(1, card_key CHR ''a''), (2, card_key CHR ''b'')]"
  by (rule pair_list_eqI) (auto simp: two_cards_def fun_eq_iff)

lemma third_card_run:
  "\<exists>w d'. store_cards_with_limits third_card 2 1000 two_cards = Inr (w, d')
    \<and> fmlookup (card_rows d') (card_key CHR ''a'') = None \<and> fmlookup (card_rows d') (card_key CHR ''b'') \<noteq> None \<and> cw_stored w = 1"
proof -
  have dec: "state_decode (state_encode \<lparr> cs_next = 2, cs_count = 2, cs_bytes = 470 \<rparr>)
      = Inr \<lparr> cs_next = 2, cs_count = 2, cs_bytes = 470 \<rparr>"
    by (rule state_decode_encode) (simp_all add: CHANGE_CARD_CACHE_ROWS_def MAX_BYTES_def)
  have cand: "eviction_candidates {card_key CHR ''c''} (card_rows two_cards) (card_order two_cards)
      = [(1, card_key CHR ''a'', 235), (2, card_key CHR ''b'', 235)]"
    unfolding eviction_candidates_def two_cards_iter
    by (simp add: two_cards_def charge_def MAX_EVICTIONS_def)
  have len: "table_len (card_rows two_cards) = 2" "table_len (card_order two_cards) = 2"
    using booksD(5,6) [OF two_cards_books] by simp_all
  have add: "checked_add (2 :: u64) 1 = Some 3" by (simp add: checked_add_def)
  show ?thesis
    using third_card_valid len cand dec add
    by (simp add: store_cards_with_limits_def batch_valid_def third_card_def store_entry_def charge_def MAX_RECORD_def
        Let_def two_cards_def write_default_def del: bindR_eq_Inr)
qed

section \<open>Properties\<close>

text \<open>
  C9. Storing a valid batch always succeeds while the insertion sequence lasts, and keeps the
  cache exact and bounded: the accounting equals the stored rows and their charged bytes and
  stays within the limits, the order table is the inverse of the stored sequence numbers, and
  every entry of the batch is counted once.
\<close>

theorem store_keeps_books:
  assumes "cards_ok mr mb d" and "mr \<le> CHANGE_CARD_CACHE_ROWS" and "mb \<le> MAX_BYTES" and "batch_valid es"
    and "unat (cards_next d) + length es \<le> unat U64_MAX"
  shows "\<exists>w d'. store_cards_with_limits es mr mb d = Inr (w, d') \<and> cards_ok mr mb d'
    \<and> cw_rows w = table_len (card_rows d') \<and> cw_charged_bytes w = row_charge (card_rows d')
    \<and> cw_stored w + cw_unchanged w + cw_skipped w = length es"
proof -
  obtain w d' where "store_cards_with_limits es mr mb d = Inr (w, d')" "cards_ok mr mb d'"
    "cw_rows w = table_len (card_rows d')" "cw_charged_bytes w = row_charge (card_rows d')"
    "cw_stored w + cw_unchanged w + cw_skipped w = length es"
    by (rule store_run [OF assms])
  then show ?thesis by blast
qed

theorem store_keeps_books_witness:
  "\<exists>w d'. store_cards_with_limits third_card 2 1000 two_cards = Inr (w, d') \<and> cards_ok 2 1000 d'"
  using store_keeps_books [OF two_cards_ok limits_2_1000 third_card_valid two_cards_room] by blast

text \<open>
  A batch never alters cached data: after it, an entry's key reads as the new payload or as
  before, and every other key reads as before or is gone.
\<close>

theorem store_then_read:
  assumes "cards_ok mr mb d" and "mr \<le> CHANGE_CARD_CACHE_ROWS" and "mb \<le> MAX_BYTES" and "batch_valid es"
    and "unat (cards_next d) + length es \<le> unat U64_MAX" and "store_cards_with_limits es mr mb d = Inr (w, d')"
  shows "(\<forall>(k, p) \<in> set es. read_card (card_rows d') k \<in> {Some p, read_card (card_rows d) k})
    \<and> (\<forall>k. k \<notin> fst ` set es \<longrightarrow> read_card (card_rows d') k \<in> {None, read_card (card_rows d) k})"
proof -
  obtain l l' where e: "sl_rows l = card_rows d" "batch_effect mr mb es l l'" "card_rows d' = sl_rows l'"
    by (rule store_run [OF assms(1-5)]) (use assms(6) in auto)
  obtain gone where g: "\<And>k. k \<notin> fst ` set es \<Longrightarrow>
      fmlookup (sl_rows l') k = (if k \<in> set (cand_keys gone) then None else fmlookup (sl_rows l) k)"
    using e(2) unfolding batch_effect_def by blast
  have "read_card (card_rows d') k \<in> {Some p, read_card (card_rows d) k}" if "(k, p) \<in> set es" for k p
  proof -
    have "fmlookup (sl_rows l') k = fmlookup (sl_rows l) k
        \<or> (\<exists>sq. fmlookup (sl_rows l') k = Some (card_record sq p) \<and> length p \<le> MAX_RECORD)"
      using e(2) that unfolding batch_effect_def by blast
    with e show ?thesis by (auto simp: read_card_def)
  qed
  moreover have "read_card (card_rows d') k \<in> {None, read_card (card_rows d) k}" if "k \<notin> fst ` set es" for k
  proof -
    have "fmlookup (sl_rows l') k = None \<or> fmlookup (sl_rows l') k = fmlookup (sl_rows l) k"
      using g [OF that] by (simp split: if_splits)
    with e show ?thesis by (auto simp: read_card_def)
  qed
  ultimately show ?thesis by blast
qed

theorem store_then_read_witness:
  "\<exists>w d'. store_cards_with_limits third_card 2 1000 two_cards = Inr (w, d')
    \<and> read_card (card_rows d') (card_key CHR ''c'') \<in> {Some ''z'', read_card (card_rows two_cards) (card_key CHR ''c'')}"
proof -
  obtain w d' where run: "store_cards_with_limits third_card 2 1000 two_cards = Inr (w, d')"
    using third_card_run by blast
  with store_then_read [OF two_cards_ok limits_2_1000 third_card_valid two_cards_room run] show ?thesis
    by (auto simp: third_card_def)
qed

text \<open>
  C10. Eviction is first in, first out: a row outside the batch that a batch removes was inserted
  before every row outside the batch that survives it. The rows of the batch are never evicted: each
  key of it reads as before or as its payload, and every entry that is counted as stored or as
  unchanged is still there with its payload when the batch is done.
\<close>

theorem eviction_is_fifo:
  assumes "cards_ok mr mb d" and "mr \<le> CHANGE_CARD_CACHE_ROWS" and "mb \<le> MAX_BYTES" and "batch_valid es"
    and "unat (cards_next d) + length es \<le> unat U64_MAX" and "store_cards_with_limits es mr mb d = Inr (w, d')"
  shows "(\<forall>k v sq k' v' sq'. k \<notin> fst ` set es \<and> fmlookup (card_rows d) k = Some v \<and> sequence v = Some sq \<and> fmlookup (card_rows d') k = None
      \<and> k' \<notin> fst ` set es \<and> fmlookup (card_rows d) k' = Some v' \<and> sequence v' = Some sq' \<and> fmlookup (card_rows d') k' \<noteq> None
      \<longrightarrow> sq < sq')
    \<and> (\<forall>(k, p) \<in> set es. fmlookup (card_rows d') k = fmlookup (card_rows d) k \<or> read_card (card_rows d') k = Some p)
    \<and> cw_stored w + cw_unchanged w \<le> length (filter (\<lambda>(k, p). read_card (card_rows d') k = Some p) es)"
proof (intro conjI allI impI)
  obtain l l' where e: "sl_rows l = card_rows d" "batch_effect mr mb es l l'" "card_rows d' = sl_rows l'"
    and left: "sl_left l = eviction_candidates (fst ` set es) (card_rows d) (card_order d)"
    and b: "books (card_rows d) (card_order d) (sl_state l)"
    and held: "cw_stored w + cw_unchanged w \<le> length (filter (holds (card_rows d')) es)"
    by (rule store_run [OF assms(1-5)]) (use assms(6) in auto)
  obtain gone where g: "sl_left l = gone @ sl_left l'" "\<And>k. k \<notin> fst ` set es \<Longrightarrow>
      fmlookup (sl_rows l') k = (if k \<in> set (cand_keys gone) then None else fmlookup (sl_rows l) k)"
    using e(2) unfolding batch_effect_def by blast
  show "sq < sq'" if "k \<notin> fst ` set es \<and> fmlookup (card_rows d) k = Some v \<and> sequence v = Some sq \<and> fmlookup (card_rows d') k = None
      \<and> k' \<notin> fst ` set es \<and> fmlookup (card_rows d) k' = Some v' \<and> sequence v' = Some sq' \<and> fmlookup (card_rows d') k' \<noteq> None"
    for k v sq k' v' sq'
  proof -
    have "k \<in> set (cand_keys gone)" "k' \<notin> set (cand_keys gone)" using g(2) [of k] g(2) [of k'] that e by (auto split: if_splits)
    with candidates_oldest_first [OF b, of "fst ` set es" gone "sl_left l'"] left g(1) that show ?thesis by simp
  qed
  show "\<forall>(k, p) \<in> set es. fmlookup (card_rows d') k = fmlookup (card_rows d) k \<or> read_card (card_rows d') k = Some p"
    using e unfolding batch_effect_def by (fastforce simp: read_card_def)
  have "holds (card_rows d') = (\<lambda>(k, p). read_card (card_rows d') k = Some p)" by (auto simp: holds_def fun_eq_iff)
  with held show "cw_stored w + cw_unchanged w \<le> length (filter (\<lambda>(k, p). read_card (card_rows d') k = Some p) es)" by simp
qed

lemma evict_keeps:
  assumes "\<And>c. c \<in> set cs \<Longrightarrow> fst (snd c) \<noteq> k"
  shows "fmlookup (fst (evict key cs (rows, order, n))) k = fmlookup rows k"
  using assms
proof (induction cs arbitrary: rows order n)
  case (Cons c cs)
  obtain sq cand sz where "c = (sq, cand, sz)" by (cases c)
  with Cons.IH Cons.prems [of c] Cons.prems show ?case by simp
qed simp

lemma scan_evictions_split:
  "scan_evictions rows key mr mb cs pc pb = Inr (taken, rest, pc', pb') \<Longrightarrow> cs = taken @ rest"
  by (induction rows key mr mb cs pc pb arbitrary: taken rest pc' pb' rule: scan_evictions.induct)
    (auto split: if_splits)

lemma store_entry_keeps_unknown:
  assumes run: "store_entry mr mb e l = Inr l'" and row: "fmlookup (sl_rows l) k = Some v" "sequence v = None"
    and free: "k \<notin> set (cand_keys (sl_left l))"
  shows "fmlookup (sl_rows l') k = Some v \<and> k \<notin> set (cand_keys (sl_left l'))"
proof (cases "sl_rows l' = sl_rows l \<and> sl_left l' = sl_left l")
  case False
  obtain key payload where e: "e = (key, payload)" by (cases e)
  have "key \<noteq> k"
    using run row False by (auto simp: store_entry_def e skip_entry_def Let_def split: if_splits)
  moreover obtain pc0 pb0 taken rest pc pb sq where
    scan: "scan_evictions (sl_rows l) key mr mb (sl_left l) pc0 pb0 = Inr (taken, rest, pc, pb)"
    and l': "sl_rows l' = fmupd key (card_record sq payload) (fst (evict key taken (sl_rows l, sl_order l, cw_evicted (sl_result l))))"
      "sl_left l' = rest"
    using run False
    by (auto simp: store_entry_def e skip_entry_def Let_def split: if_splits option.splits prod.splits)
  ultimately show ?thesis
    using scan_evictions_split [OF scan] free row evict_keeps [of taken k key "sl_rows l"] by (auto simp: l')
qed (use row free in simp)

lemma store_entries_keep_unknown:
  "store_entries mr mb es l = Inr l' \<Longrightarrow> fmlookup (sl_rows l) k = Some v \<Longrightarrow> sequence v = None \<Longrightarrow>
     k \<notin> set (cand_keys (sl_left l)) \<Longrightarrow> fmlookup (sl_rows l') k = Some v"
proof (induction es arbitrary: l)
  case (Cons e es)
  then obtain l1 where l1: "store_entry mr mb e l = Inr l1" "store_entries mr mb es l1 = Inr l'" by auto
  from store_entry_keeps_unknown [OF l1(1) Cons.prems(2-4)] Cons.IH [OF l1(2) _ Cons.prems(3)] show ?case by blast
qed simp

lemma unknown_not_candidate:
  "fmlookup rows k = Some v \<Longrightarrow> sequence v = None \<Longrightarrow> k \<notin> set (cand_keys (eviction_candidates protected rows order))"
  by (auto simp: eviction_candidates_def split: if_splits option.splits)

theorem eviction_is_fifo_witness:
  "\<exists>w d'. store_cards_with_limits third_card 2 1000 two_cards = Inr (w, d')
    \<and> fmlookup (card_rows d') (card_key CHR ''a'') = None \<and> fmlookup (card_rows d') (card_key CHR ''b'') \<noteq> None
    \<and> cw_stored w = 1 \<and> read_card (card_rows d') (card_key CHR ''c'') = Some ''z'' \<and> (1 :: u64) < 2"
proof -
  obtain w d' where run: "store_cards_with_limits third_card 2 1000 two_cards = Inr (w, d')"
    and gone: "fmlookup (card_rows d') (card_key CHR ''a'') = None" "fmlookup (card_rows d') (card_key CHR ''b'') \<noteq> None"
    and stored: "cw_stored w = 1"
    using third_card_run by blast
  note fifo = eviction_is_fifo [OF two_cards_ok limits_2_1000 third_card_valid two_cards_room run]
  have "(1 :: u64) < 2"
    using fifo [THEN conjunct1, rule_format, of "card_key CHR ''a''" "card_record 1 ''x''" 1 "card_key CHR ''b''" "card_record 2 ''y''" 2] gone
    by (simp add: third_card_def two_cards_def)
  moreover have "1 \<le> length (filter (\<lambda>(k, p). read_card (card_rows d') k = Some p) third_card)"
    using fifo [THEN conjunct2, THEN conjunct2] stored by linarith
  then have "read_card (card_rows d') (card_key CHR ''c'') = Some ''z''" by (simp add: third_card_def split: if_splits)
  ultimately show ?thesis using run gone stored by blast
qed

text \<open>
  Records of an unknown format are preserved: in any state whatsoever, a successful batch
  leaves every row without a readable sequence number exactly as it is.
\<close>

theorem unknown_records_preserved:
  assumes "store_cards_with_limits es mr mb d = Inr (w, d')"
    and "fmlookup (card_rows d) k = Some v" and "sequence v = None"
  shows "fmlookup (card_rows d') k = Some v"
proof (cases "d' = d")
  case False
  then obtain st l where "store_entries mr mb es \<lparr> sl_rows = card_rows d, sl_order = card_order d, sl_state = st,
      sl_left = eviction_candidates (set (map fst es)) (card_rows d) (card_order d), sl_result = write_default \<rparr> = Inr l"
    and "card_rows d' = sl_rows l"
    using assms(1) by (auto simp: store_cards_with_limits_def Let_def split: if_splits)
  with store_entries_keep_unknown [OF this(1), of k v] unknown_not_candidate [OF assms(2,3)] assms(2,3)
  show ?thesis by simp
qed (use assms in simp)

theorem unknown_records_preserved_witness:
  "\<exists>w d'. store_cards_with_limits third_card 2 1000
      (two_cards\<lparr>card_rows := fmupd (card_key CHR ''a'') ''future'' (card_rows two_cards)\<rparr>) = Inr (w, d')
    \<and> fmlookup (card_rows d') (card_key CHR ''a'') = Some ''future''"
proof -
  let ?d = "two_cards\<lparr>card_rows := fmupd (card_key CHR ''a'') ''future'' (card_rows two_cards)\<rparr>"
  have dec: "state_decode (state_encode \<lparr> cs_next = 2, cs_count = 2, cs_bytes = 470 \<rparr>)
      = Inr \<lparr> cs_next = 2, cs_count = 2, cs_bytes = 470 \<rparr>"
    by (rule state_decode_encode) (simp_all add: CHANGE_CARD_CACHE_ROWS_def MAX_BYTES_def)
  have un: "sequence ''future'' = None" by (simp add: sequence_def)
  have cand: "eviction_candidates {card_key CHR ''c''} (card_rows ?d) (card_order ?d) = [(2, card_key CHR ''b'', 235)]"
    unfolding eviction_candidates_def using two_cards_iter un
    by (simp add: two_cards_def charge_def MAX_EVICTIONS_def)
  have len: "table_len (card_rows ?d) = 2" "table_len (card_order ?d) = 2"
    using booksD(5,6) [OF two_cards_books] by (simp_all add: table_len_upd) (simp_all add: two_cards_def)
  have add: "checked_add (2 :: u64) 1 = Some 3" by (simp add: checked_add_def)
  have "\<exists>w d'. store_cards_with_limits third_card 2 1000 ?d = Inr (w, d')"
    using third_card_valid len cand dec add
    by (simp add: store_cards_with_limits_def batch_valid_def third_card_def store_entry_def charge_def MAX_RECORD_def
        Let_def two_cards_def write_default_def del: bindR_eq_Inr)
  then obtain w d' where run: "store_cards_with_limits third_card 2 1000 ?d = Inr (w, d')" by blast
  from unknown_records_preserved [OF run, of "card_key CHR ''a''" "''future''"] run un show ?thesis by auto
qed

end
