(* ===== verification/Memory.thy ===== *)
theory Memory
  imports U64 "HOL-Library.Multiset"
begin

text \<open>
  The memory budget (\<open>engram_core/src/memory.rs\<close>). Each atomic access of \<open>try_allocate\<close> and
  \<open>release\<close> is a definition of its own; the two operations are their compositions, and the
  interleaved steps of many threads use the same definitions. Metrics and log output are left
  out. The soft limit is computed as the code computes it, in IEEE double precision.
\<close>

section \<open>The soft limit\<close>

fun bit_length :: "nat \<Rightarrow> nat" where
  "bit_length n = (if n = 0 then 0 else Suc (bit_length (n div 2)))"

declare bit_length.simps [simp del]

text \<open>Rounding to 53 significant bits, to nearest with ties to even.\<close>

definition round53 :: "nat \<Rightarrow> nat" where
  "round53 n = (if n < 2 ^ 53 then n else
     let k = bit_length n - 53; q = n div 2 ^ k; r = n mod 2 ^ k in
     (if 2 ^ (k - 1) < r \<or> (r = 2 ^ (k - 1) \<and> odd q) then q + 1 else q) * 2 ^ k)"

text \<open>\<open>0.80\<close> is the double \<open>7205759403792794 * 2 ^ - 53\<close>.\<close>

definition SOFT_LIMIT_RATIO :: nat where
  "SOFT_LIMIT_RATIO = 7205759403792794"

definition soft_limit :: "u64 \<Rightarrow> u64" where
  "soft_limit budget = of_nat (round53 (round53 (unat budget) * SOFT_LIMIT_RATIO) div 2 ^ 53)"

section \<open>State\<close>

datatype memory_decision = Allowed | SoftPressure | Rejected

datatype subsystem = Tantivy | LanceDb | Graph | DocStore | ParseBuffer | Misc

record memory_budget =
  mb_budget :: u64
  mb_used :: u64
  pressure_active :: bool
  counters :: "subsystem \<Rightarrow> u64"

definition DEFAULT_BUDGET_BYTES :: u64 where
  "DEFAULT_BUDGET_BYTES = 2 * 1024 * 1024 * 1024"

definition new_budget :: "u64 \<Rightarrow> memory_budget" where
  "new_budget budget_bytes = \<lparr> mb_budget = (if budget_bytes = 0 then DEFAULT_BUDGET_BYTES else budget_bytes),
     mb_used = 0, pressure_active = False, counters = (\<lambda>_. 0) \<rparr>"

section \<open>Atomic accesses\<close>

text \<open>The compare-and-set loop on \<open>used\<close>: \<open>Some old\<close> when the addition was committed.\<close>

definition cas_used :: "u64 \<Rightarrow> u64 \<Rightarrow> memory_budget \<Rightarrow> u64 option \<times> memory_budget" where
  "cas_used budget bytes s =
     (let new_used = saturating_add (mb_used s) bytes in
      if budget < new_used then (None, s) else (Some (mb_used s), s\<lparr>mb_used := new_used\<rparr>))"

definition add_counter :: "u64 \<Rightarrow> subsystem \<Rightarrow> memory_budget \<Rightarrow> memory_budget" where
  "add_counter bytes sub s = s\<lparr>counters := (counters s)(sub := counters s sub + bytes)\<rparr>"

definition sub_counter :: "u64 \<Rightarrow> subsystem \<Rightarrow> memory_budget \<Rightarrow> memory_budget" where
  "sub_counter bytes sub s = s\<lparr>counters := (counters s)(sub := counters s sub - bytes)\<rparr>"

definition sub_used :: "u64 \<Rightarrow> memory_budget \<Rightarrow> u64 \<times> memory_budget" where
  "sub_used bytes s = (mb_used s, s\<lparr>mb_used := mb_used s - bytes\<rparr>)"

definition store_pressure :: "bool \<Rightarrow> memory_budget \<Rightarrow> memory_budget" where
  "store_pressure b s = s\<lparr>pressure_active := b\<rparr>"

section \<open>Operations\<close>

definition try_allocate :: "u64 \<Rightarrow> subsystem \<Rightarrow> memory_budget \<Rightarrow> memory_decision \<times> memory_budget" where
  "try_allocate bytes sub s =
     (let budget = mb_budget s; limit = soft_limit budget in
      case cas_used budget bytes s of
        (None, s1) \<Rightarrow> (Rejected, store_pressure True s1)
      | (Some old_used, s1) \<Rightarrow>
          let actual_new_used = saturating_add old_used bytes; s2 = add_counter bytes sub s1 in
          if limit < actual_new_used then (SoftPressure, store_pressure True s2)
          else (Allowed, store_pressure False s2))"

definition release :: "u64 \<Rightarrow> subsystem \<Rightarrow> memory_budget \<Rightarrow> memory_budget" where
  "release bytes sub s =
     (let (prev, s1) = sub_used bytes s; s2 = sub_counter bytes sub s1;
          new_used = saturating_sub prev bytes; limit = soft_limit (mb_budget s2) in
      if new_used \<le> limit then store_pressure False s2 else s2)"

definition is_under_pressure :: "memory_budget \<Rightarrow> bool" where
  "is_under_pressure s = pressure_active s"

definition set_budget :: "u64 \<Rightarrow> memory_budget \<Rightarrow> memory_budget" where
  "set_budget budget_bytes s = s\<lparr>mb_budget := budget_bytes\<rparr>"

record memory_breakdown =
  total_used :: u64
  breakdown_budget :: u64
  breakdown_counters :: "subsystem \<Rightarrow> u64"
  breakdown_pressure :: bool

definition breakdown :: "memory_budget \<Rightarrow> memory_breakdown" where
  "breakdown s = \<lparr> total_used = mb_used s, breakdown_budget = mb_budget s,
     breakdown_counters = counters s, breakdown_pressure = pressure_active s \<rparr>"

text \<open>The RAII guard: taking it fails exactly when the allocation is rejected; dropping releases.\<close>

record allocation_guard =
  g_bytes :: u64
  g_subsystem :: subsystem

fun show_subsystem :: "subsystem \<Rightarrow> string" where
  "show_subsystem Tantivy = ''Tantivy''"
| "show_subsystem LanceDb = ''LanceDb''"
| "show_subsystem Graph = ''Graph''"
| "show_subsystem DocStore = ''DocStore''"
| "show_subsystem ParseBuffer = ''ParseBuffer''"
| "show_subsystem Misc = ''Misc''"

definition guard_try_new :: "u64 \<Rightarrow> subsystem \<Rightarrow> string \<Rightarrow> memory_budget \<Rightarrow> allocation_guard res \<times> memory_budget" where
  "guard_try_new bytes sub operation s = (case try_allocate bytes sub s of
     (Rejected, s1) \<Rightarrow> (Inl (Bail (''memory budget exceeded for '' @ operation @ '': requested='' @ show_u64 bytes
        @ ''B, used='' @ show_u64 (mb_used s1) @ ''B, budget='' @ show_u64 (mb_budget s1)
        @ ''B, subsystem='' @ show_subsystem sub)), s1)
   | (_, s1) \<Rightarrow> (Inr \<lparr> g_bytes = bytes, g_subsystem = sub \<rparr>, s1))"

definition guard_drop :: "allocation_guard \<Rightarrow> memory_budget \<Rightarrow> memory_budget" where
  "guard_drop g s = release (g_bytes g) (g_subsystem g) s"

section \<open>Interleaved execution\<close>

text \<open>
  A thread between two atomic accesses. The counters make the threads of one phase
  interchangeable, so the running threads form a multiset. \<open>high\<close> is the greatest budget that
  was ever configured; a thread works with the budget it loaded when it started.
\<close>

datatype thread =
    Loaded u64 u64 subsystem
  | Refused
  | Reserved u64 u64 subsystem u64
  | Counted u64 u64 subsystem u64
  | Released u64 subsystem u64
  | Uncounted u64
  | Relaxing

record machine =
  shared :: memory_budget
  threads :: "thread multiset"
  guards :: "allocation_guard multiset"
  high :: u64

inductive mem_step :: "machine \<Rightarrow> machine \<Rightarrow> bool" where
  start: "mem_step m (m\<lparr>threads := add_mset (Loaded (mb_budget (shared m)) bytes sub) (threads m)\<rparr>)"
| reserve: "threads m = add_mset (Loaded budget bytes sub) ts \<Longrightarrow> cas_used budget bytes (shared m) = (Some old, s) \<Longrightarrow>
    mem_step m (m\<lparr>shared := s, threads := add_mset (Reserved budget bytes sub (saturating_add old bytes)) ts\<rparr>)"
| refuse: "threads m = add_mset (Loaded budget bytes sub) ts \<Longrightarrow> cas_used budget bytes (shared m) = (None, s) \<Longrightarrow>
    mem_step m (m\<lparr>shared := s, threads := add_mset Refused ts\<rparr>)"
| rejected: "threads m = add_mset Refused ts \<Longrightarrow>
    mem_step m (m\<lparr>shared := store_pressure True (shared m), threads := ts\<rparr>)"
| count: "threads m = add_mset (Reserved budget bytes sub new_used) ts \<Longrightarrow>
    mem_step m (m\<lparr>shared := add_counter bytes sub (shared m), threads := add_mset (Counted budget bytes sub new_used) ts\<rparr>)"
| granted: "threads m = add_mset (Counted budget bytes sub new_used) ts \<Longrightarrow>
    mem_step m (m\<lparr>shared := store_pressure (soft_limit budget < new_used) (shared m),
      threads := ts, guards := add_mset \<lparr> g_bytes = bytes, g_subsystem = sub \<rparr> (guards m)\<rparr>)"
| drop_used: "guards m = add_mset g gs \<Longrightarrow> sub_used (g_bytes g) (shared m) = (prev, s) \<Longrightarrow>
    mem_step m (m\<lparr>shared := s, guards := gs,
      threads := add_mset (Released (g_bytes g) (g_subsystem g) (saturating_sub prev (g_bytes g))) (threads m)\<rparr>)"
| drop_count: "threads m = add_mset (Released bytes sub new_used) ts \<Longrightarrow>
    mem_step m (m\<lparr>shared := sub_counter bytes sub (shared m), threads := add_mset (Uncounted new_used) ts\<rparr>)"
| drop_load: "threads m = add_mset (Uncounted new_used) ts \<Longrightarrow>
    mem_step m (m\<lparr>threads := (if new_used \<le> soft_limit (mb_budget (shared m)) then add_mset Relaxing ts else ts)\<rparr>)"
| drop_pressure: "threads m = add_mset Relaxing ts \<Longrightarrow>
    mem_step m (m\<lparr>shared := store_pressure False (shared m), threads := ts\<rparr>)"
| reconfigure: "b < U64_MAX \<Longrightarrow>
    mem_step m (m\<lparr>shared := set_budget b (shared m), high := max (high m) b\<rparr>)"

section \<open>The accounting invariant\<close>

fun held :: "thread \<Rightarrow> nat" where
  "held (Reserved _ bytes _ _) = unat bytes"
| "held (Counted _ bytes _ _) = unat bytes"
| "held _ = 0"

fun counted :: "subsystem \<Rightarrow> thread \<Rightarrow> nat" where
  "counted sub (Counted _ bytes s _) = (if s = sub then unat bytes else 0)"
| "counted sub (Released bytes s _) = (if s = sub then unat bytes else 0)"
| "counted sub _ = 0"

fun loaded_ok :: "u64 \<Rightarrow> thread \<Rightarrow> bool" where
  "loaded_ok h (Loaded budget _ _) = (budget \<le> h)"
| "loaded_ok h _ = True"

definition outstanding :: "machine \<Rightarrow> nat" where
  "outstanding m = (\<Sum>t \<in># threads m. held t) + (\<Sum>g \<in># guards m. unat (g_bytes g))"

definition outstanding_in :: "subsystem \<Rightarrow> machine \<Rightarrow> nat" where
  "outstanding_in sub m = (\<Sum>t \<in># threads m. counted sub t)
     + (\<Sum>g \<in># guards m. if g_subsystem g = sub then unat (g_bytes g) else 0)"

definition mem_inv :: "machine \<Rightarrow> bool" where
  "mem_inv m \<longleftrightarrow> unat (mb_used (shared m)) = outstanding m
     \<and> (\<forall>sub. counters (shared m) sub = of_nat (outstanding_in sub m))
     \<and> mb_used (shared m) \<le> high m \<and> mb_budget (shared m) \<le> high m \<and> high m < U64_MAX
     \<and> (\<forall>t \<in># threads m. loaded_ok (high m) t)"

definition initial :: "u64 \<Rightarrow> machine" where
  "initial budget = \<lparr> shared = new_budget budget, threads = {#}, guards = {#},
     high = mb_budget (new_budget budget) \<rparr>"

lemma mem_inv_initial: "budget < U64_MAX \<Longrightarrow> mem_inv (initial budget)"
  by (simp add: mem_inv_def initial_def new_budget_def outstanding_def outstanding_in_def DEFAULT_BUDGET_BYTES_def
      U64_MAX_def)

lemma loaded_ok_mono: "loaded_ok h t \<Longrightarrow> h \<le> h' \<Longrightarrow> loaded_ok h' t"
  by (cases t) auto

lemma cas_used_Some:
  assumes "cas_used budget bytes s = (Some old, s')" and "budget < U64_MAX"
  shows "s' = s\<lparr>mb_used := mb_used s + bytes\<rparr>" and "unat (mb_used s + bytes) = unat (mb_used s) + unat bytes"
    and "mb_used s + bytes \<le> budget" and "old = mb_used s"
proof -
  have le: "saturating_add (mb_used s) bytes \<le> budget" and s': "s' = s\<lparr>mb_used := saturating_add (mb_used s) bytes\<rparr>"
    and old: "old = mb_used s"
    using assms(1) by (auto simp: cas_used_def Let_def split: if_splits)
  then have "saturating_add (mb_used s) bytes \<noteq> U64_MAX" using assms(2) by auto
  then have n: "unat (mb_used s) + unat bytes < 2 ^ 64" by (auto simp: saturating_add_def split: if_splits)
  show "s' = s\<lparr>mb_used := mb_used s + bytes\<rparr>" "unat (mb_used s + bytes) = unat (mb_used s) + unat bytes"
    "mb_used s + bytes \<le> budget" "old = mb_used s"
    using s' le old n unat_add_no_overflow [OF n] by (simp_all add: saturating_add_def)
qed

lemma cas_used_None: "cas_used budget bytes s = (None, s') \<Longrightarrow> s' = s"
  by (simp add: cas_used_def Let_def split: if_splits)

lemma sum_guard_le: "guards m = add_mset g gs \<Longrightarrow> unat (g_bytes g) \<le> outstanding m"
  by (simp add: outstanding_def)

theorem mem_step_inv:
  assumes "mem_step m m'" and "mem_inv m"
  shows "mem_inv m'"
  using assms
proof cases
  case (reserve budget bytes sub ts old s)
  then have b: "budget \<le> high m" "high m < U64_MAX" using assms(2) by (auto simp: mem_inv_def)
  then have "budget < U64_MAX" by simp
  note C = cas_used_Some [OF reserve(3) this]
  from reserve assms(2) b C show ?thesis by (simp add: mem_inv_def outstanding_def outstanding_in_def)
next
  case (drop_used g gs prev s)
  have s: "s = (shared m)\<lparr>mb_used := mb_used (shared m) - g_bytes g\<rparr>"
    using drop_used(3) by (auto simp: sub_used_def)
  have le: "g_bytes g \<le> mb_used (shared m)"
    using sum_guard_le [OF drop_used(2)] assms(2) by (simp add: mem_inv_def word_le_nat_alt)
  then have "unat (mb_used (shared m) - g_bytes g) = unat (mb_used (shared m)) - unat (g_bytes g)"
    by (simp add: unat_sub word_le_nat_alt)
  moreover have "mb_used (shared m) - g_bytes g \<le> high m"
    using assms(2) le by (auto simp: mem_inv_def word_le_nat_alt unat_sub intro: order_trans [OF diff_le_self])
  ultimately show ?thesis using drop_used assms(2) s by (auto simp: mem_inv_def outstanding_def outstanding_in_def)
next
  case (reconfigure b)
  then show ?thesis using assms(2)
    by (auto simp: mem_inv_def outstanding_def outstanding_in_def set_budget_def le_max_iff_disj intro: loaded_ok_mono)
next
  case (drop_load new_used ts)
  then show ?thesis using assms(2) by (auto simp: mem_inv_def outstanding_def outstanding_in_def)
qed (use assms(2) in \<open>auto simp: mem_inv_def outstanding_def outstanding_in_def add_counter_def sub_counter_def
      store_pressure_def dest!: cas_used_None\<close>)

lemma mem_reach_inv: "mem_step\<^sup>*\<^sup>* m m' \<Longrightarrow> mem_inv m \<Longrightarrow> mem_inv m'"
  by (induction rule: rtranclp_induct) (auto intro: mem_step_inv)

section \<open>Rounding\<close>

lemma bit_length_bounds: "0 < n \<Longrightarrow> 2 ^ (bit_length n - 1) \<le> n" "n < 2 ^ bit_length n"
proof -
  show "n < 2 ^ bit_length n"
    by (induction n rule: bit_length.induct) (subst bit_length.simps, auto simp: less_mult_imp_div_less)
  show "2 ^ (bit_length n - 1) \<le> n" if "0 < n"
    using that
  proof (induction n rule: bit_length.induct)
    case (1 n)
    show ?case
    proof (cases "n div 2 = 0")
      case True
      then show ?thesis using "1.prems" by (subst bit_length.simps) (simp add: bit_length.simps [of 0])
    next
      case False
      with 1 have IH: "2 ^ (bit_length (n div 2) - 1) \<le> n div 2" by simp
      have "bit_length (n div 2) = Suc (bit_length (n div 2) - 1)"
        using False bit_length.simps [of "n div 2"] by simp
      then have "(2 :: nat) ^ bit_length (n div 2) = 2 * 2 ^ (bit_length (n div 2) - 1)" by (metis power_Suc)
      with IH "1.prems" show ?thesis by (subst bit_length.simps) simp
    qed
  qed
qed

text \<open>The relative error of one rounding is at most \<open>2 ^ - 53\<close>.\<close>

lemma round53_le: "round53 n * 2 ^ 53 \<le> n * (2 ^ 53 + 1)"
proof (cases "n < 2 ^ 53")
  case False
  define k where "k = bit_length n - 53"
  have "53 < bit_length n"
  proof (rule ccontr)
    assume "\<not> 53 < bit_length n"
    then have "(2 :: nat) ^ bit_length n \<le> 2 ^ 53" by (intro power_increasing) auto
    with bit_length_bounds(2) [of n] False show False by linarith
  qed
  then have bl: "bit_length n - 1 = k + 52" "0 < k" by (simp_all add: k_def)
  have n52: "2 ^ 52 * 2 ^ k \<le> n" using bit_length_bounds(1) [of n] False bl(1) by (simp add: power_add mult.commute)
  have q: "n = n div 2 ^ k * 2 ^ k + n mod 2 ^ k" by (rule div_mult_mod_eq [symmetric])
  have half: "(2 :: nat) ^ k = 2 * 2 ^ (k - 1)" using bl(2) by (metis Suc_diff_1 power_Suc)
  have "round53 n \<le> n + 2 ^ (k - 1)"
  proof (cases "2 ^ (k - 1) < n mod 2 ^ k \<or> (n mod 2 ^ k = 2 ^ (k - 1) \<and> odd (n div 2 ^ k))")
    case True
    then have "round53 n = n div 2 ^ k * 2 ^ k + 2 ^ k" using False by (simp add: round53_def Let_def k_def [symmetric])
    with True q half show ?thesis by linarith
  next
    case no: False
    then have "round53 n = n div 2 ^ k * 2 ^ k" using False by (simp add: round53_def Let_def k_def [symmetric])
    with q show ?thesis by linarith
  qed
  moreover have "2 ^ (k - 1) * 2 ^ 53 \<le> n" using n52 half by (simp add: mult.commute)
  ultimately have "round53 n * 2 ^ 53 \<le> (n + 2 ^ (k - 1)) * 2 ^ 53" by simp
  also have "\<dots> = n * 2 ^ 53 + 2 ^ (k - 1) * 2 ^ 53" by (rule distrib_right)
  also have "\<dots> \<le> n * 2 ^ 53 + n" using \<open>2 ^ (k - 1) * 2 ^ 53 \<le> n\<close> by simp
  finally show ?thesis by (simp add: distrib_left)
qed (simp add: round53_def)

lemma soft_limit_nat: "round53 (round53 n * SOFT_LIMIT_RATIO) div 2 ^ 53 \<le> n"
proof -
  let ?m = "round53 n" and ?E = "2 ^ 53 + 1 :: nat"
  have "round53 (?m * SOFT_LIMIT_RATIO) * 2 ^ 53 * 2 ^ 53 \<le> ?m * SOFT_LIMIT_RATIO * ?E * 2 ^ 53"
    using round53_le [of "?m * SOFT_LIMIT_RATIO"] by (intro mult_right_mono) simp_all
  also have "\<dots> = ?m * 2 ^ 53 * (SOFT_LIMIT_RATIO * ?E)" by (simp add: mult.assoc mult.commute mult.left_commute)
  also have "\<dots> \<le> n * ?E * (SOFT_LIMIT_RATIO * ?E)" by (rule mult_right_mono [OF round53_le]) simp
  also have "\<dots> = n * (?E * (SOFT_LIMIT_RATIO * ?E))" by simp
  also have "\<dots> \<le> n * (2 ^ 53 * 2 ^ 53 * 2 ^ 53)" by (intro mult_left_mono) (simp_all add: SOFT_LIMIT_RATIO_def)
  finally have "round53 (?m * SOFT_LIMIT_RATIO) * (2 ^ 53 * 2 ^ 53) \<le> n * 2 ^ 53 * (2 ^ 53 * 2 ^ 53)"
    by (simp add: mult.assoc)
  then have "round53 (?m * SOFT_LIMIT_RATIO) \<le> n * 2 ^ 53" by simp
  then have "round53 (?m * SOFT_LIMIT_RATIO) div 2 ^ 53 \<le> n * 2 ^ 53 div 2 ^ 53" by (rule div_le_mono)
  then show ?thesis by simp
qed

lemma soft_limit_le: "soft_limit budget \<le> budget"
proof -
  have "round53 (round53 (unat budget) * SOFT_LIMIT_RATIO) div 2 ^ 53 \<le> unat budget" by (rule soft_limit_nat)
  moreover from this have "unat (soft_limit budget) = round53 (round53 (unat budget) * SOFT_LIMIT_RATIO) div 2 ^ 53"
    unfolding soft_limit_def using unat_u64_less [of budget] by (simp add: unat_of_nat)
  ultimately show ?thesis by (simp add: word_le_nat_alt)
qed

section \<open>Properties\<close>

text \<open>
  C11. However the atomic accesses of allocating and releasing threads interleave, the hard limit
  holds and the accounting is exact: the used bytes are the bytes of the reservations that are
  outstanding, and they never exceed the greatest budget that was configured.
\<close>

theorem hard_limit_under_interleaving:
  assumes "budget < U64_MAX" and "mem_step\<^sup>*\<^sup>* (initial budget) m"
  shows "unat (mb_used (shared m)) = outstanding m \<and> mb_used (shared m) \<le> high m"
  using mem_reach_inv [OF assms(2) mem_inv_initial [OF assms(1)]] by (simp add: mem_inv_def)

theorem hard_limit_under_interleaving_witness:
  "\<exists>m. mem_step\<^sup>*\<^sup>* (initial 100) m \<and> mb_used (shared m) = 60 \<and> mb_used (shared m) \<le> high m"
proof -
  define m1 where "m1 = (initial 100)\<lparr>threads := add_mset (Loaded (mb_budget (shared (initial 100))) 60 Graph) (threads (initial 100))\<rparr>"
  define m2 where "m2 = m1\<lparr>shared := (shared m1)\<lparr>mb_used := 60\<rparr>, threads := add_mset (Reserved 100 60 Graph 60) {#}\<rparr>"
  have 1: "mem_step (initial 100) m1" unfolding m1_def by (rule mem_step.start)
  have add: "saturating_add 0 60 = (60 :: u64)" by (simp add: saturating_add_def)
  have "cas_used 100 60 (shared m1) = (Some 0, (shared m1)\<lparr>mb_used := 60\<rparr>)"
    by (simp add: cas_used_def m1_def initial_def new_budget_def add)
  then have 2: "mem_step m1 m2"
    using mem_step.reserve [of m1 100 60 Graph "{#}" 0 "(shared m1)\<lparr>mb_used := 60\<rparr>"] add
    by (simp add: m2_def m1_def initial_def new_budget_def)
  have steps: "mem_step\<^sup>*\<^sup>* (initial 100) m2" using 1 2 by (meson rtranclp.simps)
  have "(100 :: u64) < U64_MAX" by (simp add: U64_MAX_def)
  from hard_limit_under_interleaving [OF this steps] steps show ?thesis
    by (intro exI [of _ m2]) (simp add: m2_def)
qed

text \<open>
  Nothing leaks: when every thread has finished and every guard is dropped, the budget is
  back at zero use and so is every subsystem counter.
\<close>

theorem no_leak_after_all_drops:
  assumes "budget < U64_MAX" and "mem_step\<^sup>*\<^sup>* (initial budget) m" and "threads m = {#}" and "guards m = {#}"
  shows "mb_used (shared m) = 0 \<and> counters (shared m) sub = 0"
  using mem_reach_inv [OF assms(2) mem_inv_initial [OF assms(1)]] assms(3,4)
  by (simp add: mem_inv_def outstanding_def outstanding_in_def unat_eq_0)

theorem no_leak_after_all_drops_witness:
  "mb_used (shared (initial 100)) = 0 \<and> counters (shared (initial 100)) Graph = 0"
proof -
  have "(100 :: u64) < U64_MAX" by (simp add: U64_MAX_def)
  from no_leak_after_all_drops [OF this, of "initial 100" Graph] show ?thesis by (simp add: initial_def)
qed

text \<open>
  The decision of \<open>try_allocate\<close> on every branch: below the maximal budget it rejects exactly
  when the sum exceeds the budget, and then changes no use; otherwise the use grows by the
  request, and the pressure flag is set exactly when the new use is above the soft limit,
  which never exceeds the budget, although it is computed in floating point.
\<close>

theorem try_allocate_decision:
  assumes "mb_budget s < U64_MAX" and "try_allocate bytes sub s = (decision, t)"
  shows "(decision = Rejected \<longleftrightarrow> unat (mb_budget s) < unat (mb_used s) + unat bytes)
    \<and> (decision = Rejected \<longrightarrow> mb_used t = mb_used s \<and> counters t = counters s \<and> is_under_pressure t)
    \<and> (decision \<noteq> Rejected \<longrightarrow> unat (mb_used t) = unat (mb_used s) + unat bytes
         \<and> counters t sub = counters s sub + bytes
         \<and> (is_under_pressure t \<longleftrightarrow> soft_limit (mb_budget s) < mb_used t)
         \<and> (decision = SoftPressure \<longleftrightarrow> is_under_pressure t))
    \<and> soft_limit (mb_budget s) \<le> mb_budget s"
proof (cases "unat (mb_budget s) < unat (mb_used s) + unat bytes")
  case True
  then have "mb_budget s < saturating_add (mb_used s) bytes"
    using assms(1) by (simp add: word_less_nat_alt unat_saturating_add)
  with assms(2) True soft_limit_le show ?thesis
    by (auto simp: try_allocate_def cas_used_def Let_def store_pressure_def is_under_pressure_def)
next
  case False
  have n: "unat (mb_used s) + unat bytes < 2 ^ 64" using False unat_u64_less [of "mb_budget s"] by simp
  then have add: "saturating_add (mb_used s) bytes = mb_used s + bytes"
    "unat (mb_used s + bytes) = unat (mb_used s) + unat bytes"
    using unat_add_no_overflow [OF n] by (simp_all add: saturating_add_def)
  then have "\<not> mb_budget s < saturating_add (mb_used s) bytes" using False by (simp add: word_less_nat_alt)
  with assms(2) False add soft_limit_le show ?thesis
    by (auto simp: try_allocate_def cas_used_def Let_def store_pressure_def is_under_pressure_def add_counter_def
        split: if_splits)
qed

theorem try_allocate_decision_witness:
  "fst (try_allocate 101 Graph (new_budget 100)) = Rejected"
proof -
  have b: "mb_budget (new_budget 100) < U64_MAX" by (simp add: new_budget_def U64_MAX_def)
  obtain d t where dt: "try_allocate 101 Graph (new_budget 100) = (d, t)" by fastforce
  from try_allocate_decision [OF b dt] dt show ?thesis by (simp add: new_budget_def)
qed

text \<open>
  \<open>release\<close> does not check what it gives back: releasing more than is in use wraps the use
  to the top of the range while the pressure flag is cleared, and from then on requests are
  rejected although nothing is allocated.
\<close>

theorem over_release_blocks_budget:
  assumes "unat (mb_used s) < unat bytes" and "unat bytes < 2 ^ 63" and "unat (mb_budget s) < 2 ^ 63"
  shows "unat (mb_used (release bytes sub s)) = 2 ^ 64 + unat (mb_used s) - unat bytes
    \<and> \<not> is_under_pressure (release bytes sub s)
    \<and> fst (try_allocate extra other (release bytes sub s)) = Rejected"
proof -
  let ?r = "release bytes sub s"
  have z: "saturating_sub (mb_used s) bytes = 0" using assms(1) by (simp add: saturating_sub_def word_less_nat_alt)
  have used: "mb_used ?r = mb_used s - bytes" "mb_budget ?r = mb_budget s" "\<not> is_under_pressure ?r"
    by (simp_all add: release_def sub_used_def sub_counter_def store_pressure_def is_under_pressure_def z)
  have u: "unat (mb_used s - bytes) = 2 ^ 64 + unat (mb_used s) - unat bytes"
    using assms(1) by (simp add: unat_sub_if')
  have "unat (mb_budget s) < unat (saturating_add (mb_used s - bytes) extra)"
    using u assms by (simp add: unat_saturating_add)
  then have "fst (try_allocate extra other ?r) = Rejected"
    by (simp add: try_allocate_def cas_used_def Let_def used word_less_nat_alt)
  with u used show ?thesis by simp
qed

theorem over_release_blocks_budget_witness:
  "\<not> is_under_pressure (release 1 Misc (new_budget 100)) \<and> fst (try_allocate 1 Graph (release 1 Misc (new_budget 100))) = Rejected"
  using over_release_blocks_budget [where s = "new_budget 100" and bytes = 1 and sub = Misc and extra = 1 and other = Graph] by (simp add: new_budget_def)

end
