(* ===== verification/Identity.thy ===== *)
theory Identity
  imports U64
begin

text \<open>
  Identifiers: project-relative paths (\<open>engram_core/src/paths.rs\<close>), node, document and content
  identities and the primary key (\<open>ids.rs\<close>), and the namespace policies (\<open>namespaces.rs\<close>).
  \<open>blake3\<close> and Unicode lower-casing are parameters. Path normalisation works on Unicode scalar
  values, because it trims white space and drops control characters.
\<close>

section \<open>Namespaces\<close>

datatype namespace_versioning = Snapshot | AppendOnly | GlobalMutable
datatype namespace_retention = KeepLatestOnly | KeepLastGenerations "32 word" | KeepForever
datatype namespace_scope = GenerationScoped | GlobalScope

record namespace_policy =
  versioning :: namespace_versioning
  retention :: namespace_retention

definition NAMESPACE_MEMORY :: string where "NAMESPACE_MEMORY = ''memory''"
definition NAMESPACE_HISTORY :: string where "NAMESPACE_HISTORY = ''history''"
definition NAMESPACE_ANTIPATTERN :: string where "NAMESPACE_ANTIPATTERN = ''antipattern''"
definition NAMESPACE_WONTFIX :: string where "NAMESPACE_WONTFIX = ''wontfix_patterns''"
definition NAMESPACE_QUALITY_GATE :: string where "NAMESPACE_QUALITY_GATE = ''quality_gate''"
definition NAMESPACE_MEMORY_BANK :: string where "NAMESPACE_MEMORY_BANK = ''memory_bank''"
definition NAMESPACE_INSIGHTS :: string where "NAMESPACE_INSIGHTS = ''insights''"
definition NAMESPACE_BUSINESS_LOGIC :: string where "NAMESPACE_BUSINESS_LOGIC = ''business_logic''"
definition NAMESPACE_REVIEW_VERDICT :: string where "NAMESPACE_REVIEW_VERDICT = ''review_verdict''"

lemmas namespace_names = NAMESPACE_MEMORY_def NAMESPACE_HISTORY_def NAMESPACE_ANTIPATTERN_def NAMESPACE_WONTFIX_def
  NAMESPACE_QUALITY_GATE_def NAMESPACE_MEMORY_BANK_def NAMESPACE_INSIGHTS_def NAMESPACE_BUSINESS_LOGIC_def
  NAMESPACE_REVIEW_VERDICT_def

definition KNOWLEDGE_NAMESPACES :: "string list" where
  "KNOWLEDGE_NAMESPACES = [NAMESPACE_MEMORY_BANK, NAMESPACE_INSIGHTS, NAMESPACE_BUSINESS_LOGIC,
     NAMESPACE_ANTIPATTERN, NAMESPACE_WONTFIX, NAMESPACE_QUALITY_GATE, NAMESPACE_REVIEW_VERDICT]"

definition KNOWN_NAMESPACES :: "string list" where
  "KNOWN_NAMESPACES = [NAMESPACE_MEMORY, NAMESPACE_HISTORY, NAMESPACE_ANTIPATTERN, NAMESPACE_WONTFIX,
     NAMESPACE_QUALITY_GATE, NAMESPACE_MEMORY_BANK, NAMESPACE_INSIGHTS, NAMESPACE_BUSINESS_LOGIC,
     NAMESPACE_REVIEW_VERDICT]"

definition get_policy :: "string \<Rightarrow> namespace_policy res" where
  "get_policy ns =
     (if ns = NAMESPACE_MEMORY then Inr \<lparr> versioning = Snapshot, retention = KeepLatestOnly \<rparr>
      else if ns = NAMESPACE_HISTORY then Inr \<lparr> versioning = GlobalMutable, retention = KeepForever \<rparr>
      else if ns = NAMESPACE_ANTIPATTERN then Inr \<lparr> versioning = GlobalMutable, retention = KeepForever \<rparr>
      else if ns = NAMESPACE_WONTFIX then Inr \<lparr> versioning = GlobalMutable, retention = KeepForever \<rparr>
      else if ns = NAMESPACE_QUALITY_GATE then Inr \<lparr> versioning = GlobalMutable, retention = KeepForever \<rparr>
      else if ns = NAMESPACE_MEMORY_BANK then Inr \<lparr> versioning = GlobalMutable, retention = KeepForever \<rparr>
      else if ns = NAMESPACE_INSIGHTS then Inr \<lparr> versioning = GlobalMutable, retention = KeepForever \<rparr>
      else if ns = NAMESPACE_BUSINESS_LOGIC then Inr \<lparr> versioning = GlobalMutable, retention = KeepForever \<rparr>
      else if ns = NAMESPACE_REVIEW_VERDICT then Inr \<lparr> versioning = GlobalMutable, retention = KeepForever \<rparr>
      else Inl (Bail (''Unknown namespace: '' @ ns)))"

definition get_namespace_scope :: "string \<Rightarrow> namespace_scope" where
  "get_namespace_scope ns = (case get_policy ns of
     Inr p \<Rightarrow> (case versioning p of Snapshot \<Rightarrow> GenerationScoped | AppendOnly \<Rightarrow> GenerationScoped
              | GlobalMutable \<Rightarrow> GlobalScope)
   | Inl _ \<Rightarrow> GenerationScoped)"

section \<open>Node identifiers\<close>

definition node_file :: "string \<Rightarrow> string" where
  "node_file rel_path = ''file:'' @ rel_path"

definition node_symbol :: "string \<Rightarrow> string option \<Rightarrow> string \<Rightarrow> string \<Rightarrow> 32 word \<Rightarrow> string" where
  "node_symbol kind fqn rel_path name start_line =
     ''sym:'' @ kind @ '':'' @ rel_path @ '':'' @ name @ '':'' @ show_nat (unat start_line)"

definition node_sql :: "string \<Rightarrow> string \<Rightarrow> string" where
  "node_sql kind normalized_content = ''sql:'' @ kind @ '':'' @ normalized_content"

definition node_page :: "string \<Rightarrow> string" where
  "node_page rel_path = ''page:'' @ rel_path"

definition node_control :: "string \<Rightarrow> string \<Rightarrow> string" where
  "node_control page control_id = ''control:'' @ page @ '':'' @ control_id"

definition node_gis_config :: "string \<Rightarrow> string \<Rightarrow> string" where
  "node_gis_config page config_key = ''gis_config:'' @ page @ '':'' @ config_key"

definition node_table :: "(string \<Rightarrow> string) \<Rightarrow> string \<Rightarrow> string" where
  "node_table to_lowercase table_name = ''table:'' @ to_lowercase table_name"

definition node_column :: "(string \<Rightarrow> string) \<Rightarrow> string \<Rightarrow> string \<Rightarrow> string" where
  "node_column to_lowercase table_name column_name =
     ''column:'' @ to_lowercase table_name @ '':'' @ to_lowercase column_name"

definition node_state :: "string \<Rightarrow> string \<Rightarrow> string" where
  "node_state state_type key = ''state:'' @ state_type @ '':'' @ key"

definition node_binding_field :: "string \<Rightarrow> string" where
  "node_binding_field field_name = ''binding_field:'' @ field_name"

definition node_ui_container :: "string \<Rightarrow> string \<Rightarrow> string" where
  "node_ui_container page container_id = ''ui_container:'' @ page @ '':'' @ container_id"

section \<open>Content and document identity\<close>

definition u32_to_le_bytes :: "32 word \<Rightarrow> bytes" where
  "u32_to_le_bytes n = nat_le_bytes 4 (unat n)"

text \<open>The bytes fed to the hasher, in order.\<close>

definition doc_preimage :: "string \<Rightarrow> 32 word \<Rightarrow> 32 word \<Rightarrow> string \<Rightarrow> bytes" where
  "doc_preimage rel_path start_line end_line content_hash =
     rel_path @ [NUL] @ u32_to_le_bytes start_line @ [NUL] @ u32_to_le_bytes end_line @ [NUL] @ content_hash"

definition doc_id_compute :: "(bytes \<Rightarrow> string) \<Rightarrow> string \<Rightarrow> 32 word \<Rightarrow> 32 word \<Rightarrow> string \<Rightarrow> string" where
  "doc_id_compute blake3 rel_path start_line end_line content_hash =
     blake3 (doc_preimage rel_path start_line end_line content_hash)"

abbreviation CR :: char where "CR \<equiv> CHR 0x0D"
abbreviation LF :: char where "LF \<equiv> CHR 0x0A"

text \<open>The loop over byte positions: \<open>\r\n\<close> and a lone \<open>\r\<close> become \<open>\n\<close>.\<close>

function normalize_loop :: "bytes \<Rightarrow> nat \<Rightarrow> bytes \<Rightarrow> bytes" where
  "normalize_loop content i out =
     (if length content \<le> i then out
      else if content ! i = CR
           then (if i + 1 < length content \<and> content ! (i + 1) = LF
                 then normalize_loop content (i + 2) (out @ [LF])
                 else normalize_loop content (i + 1) (out @ [LF]))
           else normalize_loop content (i + 1) (out @ [content ! i]))"
  by auto
termination by (relation "measure (\<lambda>(content, i, out). length content - i)") auto

declare normalize_loop.simps [simp del]

definition content_hash_compute :: "(bytes \<Rightarrow> string) \<Rightarrow> bytes \<Rightarrow> string" where
  "content_hash_compute blake3 content =
     (if CR \<in> set content then blake3 (normalize_loop content 0 []) else blake3 content)"

section \<open>Primary keys\<close>

definition effective_gen :: "string \<Rightarrow> u64 \<Rightarrow> u64" where
  "effective_gen namespace gen = (case get_policy namespace of
     Inr p \<Rightarrow> if versioning p = GlobalMutable then 0 else gen
   | Inl _ \<Rightarrow> gen)"

definition build_pk :: "string \<Rightarrow> string \<Rightarrow> u64 \<Rightarrow> string \<Rightarrow> string" where
  "build_pk project_id namespace gen doc_id =
     project_id @ '':'' @ namespace @ '':'' @ show_u64 (effective_gen namespace gen) @ '':'' @ doc_id"

section \<open>Project-relative paths\<close>

text \<open>A \<open>str\<close> as its Unicode scalar values.\<close>

type_synonym ustr = "nat list"

definition SLASH :: nat where "SLASH = 47"
definition BACKSLASH :: nat where "BACKSLASH = 92"
definition DOT :: nat where "DOT = 46"

definition is_whitespace :: "nat \<Rightarrow> bool" where
  "is_whitespace c \<longleftrightarrow> (9 \<le> c \<and> c \<le> 13) \<or> c = 32 \<or> c = 133 \<or> c = 160 \<or> c = 5760
     \<or> (8192 \<le> c \<and> c \<le> 8202) \<or> c = 8232 \<or> c = 8233 \<or> c = 8239 \<or> c = 8287 \<or> c = 12288"

definition is_control :: "nat \<Rightarrow> bool" where
  "is_control c \<longleftrightarrow> c \<le> 31 \<or> (127 \<le> c \<and> c \<le> 159)"

definition trim_by :: "('a \<Rightarrow> bool) \<Rightarrow> 'a list \<Rightarrow> 'a list" where
  "trim_by P xs = rev (dropWhile P (rev (dropWhile P xs)))"

fun split_sep :: "'a \<Rightarrow> 'a list \<Rightarrow> 'a list list" where
  "split_sep c [] = [[]]"
| "split_sep c (x # xs) = (if x = c then [] # split_sep c xs
     else (case split_sep c xs of [] \<Rightarrow> [[x]] | y # ys \<Rightarrow> (x # y) # ys))"

fun join_sep :: "'a \<Rightarrow> 'a list list \<Rightarrow> 'a list" where
  "join_sep c [] = []"
| "join_sep c [x] = x"
| "join_sep c (x # y # ys) = x @ c # join_sep c (y # ys)"

text \<open>The segment loop; the second result is \<open>attempted_root_escape\<close>.\<close>

fun rel_loop :: "ustr list \<Rightarrow> ustr list \<Rightarrow> bool \<Rightarrow> ustr list \<times> bool" where
  "rel_loop [] parts escaped = (parts, escaped)"
| "rel_loop (raw # raws) parts escaped =
     (let seg = trim_by is_whitespace raw in
      if seg = [] \<or> seg = [DOT] then rel_loop raws parts escaped
      else if seg = [DOT, DOT]
           then (if parts = [] then rel_loop raws parts True else rel_loop raws (butlast parts) escaped)
      else if 0 \<in> set seg \<or> (\<exists>c \<in> set seg. is_control c) then rel_loop raws parts escaped
      else rel_loop raws (parts @ [seg]) escaped)"

definition rel_path_new :: "ustr \<Rightarrow> ustr" where
  "rel_path_new path =
     (let normalized = map (\<lambda>c. if c = BACKSLASH then SLASH else c) path;
          trimmed = trim_by (\<lambda>c. c = SLASH) normalized;
          (parts, escaped) = rel_loop (split_sep SLASH trimmed) [] False
      in if escaped then [] else join_sep SLASH parts)"

definition rel_path_is_empty :: "ustr \<Rightarrow> bool" where
  "rel_path_is_empty p \<longleftrightarrow> p = []"

text \<open>\<open>rsplit('/').next()\<close> is the text after the last slash.\<close>

definition rel_path_file_name :: "ustr \<Rightarrow> ustr option" where
  "rel_path_file_name p = Some (last (split_sep SLASH p))"

section \<open>Lists\<close>

lemma set_trim_by: "set (trim_by P xs) \<subseteq> set xs"
  by (auto simp: trim_by_def dest!: set_dropWhileD)

lemma trim_by_id: "xs = [] \<or> (\<not> P (hd xs) \<and> \<not> P (last xs)) \<Longrightarrow> trim_by P xs = xs"
proof -
  assume a: "xs = [] \<or> (\<not> P (hd xs) \<and> \<not> P (last xs))"
  then have front: "dropWhile P xs = xs" by (cases xs) auto
  from a have "dropWhile P (rev xs) = rev xs" by (cases xs rule: rev_cases) auto
  with front show "trim_by P xs = xs" by (simp add: trim_by_def)
qed

lemma trim_by_ends: "trim_by P xs = [] \<or> (\<not> P (hd (trim_by P xs)) \<and> \<not> P (last (trim_by P xs)))"
proof (cases "trim_by P xs")
  case (Cons y ys)
  let ?a = "dropWhile P xs"
  have "trim_by P xs = rev (dropWhile P (rev ?a))" by (simp add: trim_by_def)
  have l: "\<not> P (last (trim_by P xs))"
  proof -
    have "dropWhile P (rev ?a) \<noteq> []" using Cons by (auto simp: trim_by_def)
    then have "\<not> P (hd (dropWhile P (rev ?a)))" by (rule hd_dropWhile)
    then show ?thesis by (simp add: trim_by_def last_rev)
  qed
  obtain n where "trim_by P xs = take n ?a"
    by (metis trim_by_def dropWhile_eq_drop rev_take rev_rev_ident take_rev drop_rev)
  with Cons have "hd (trim_by P xs) = hd ?a" "?a \<noteq> []" by (cases ?a; cases n; auto)+
  with l hd_dropWhile [of P xs] show ?thesis by auto
qed simp

lemma trim_by_idem [simp]: "trim_by P (trim_by P xs) = trim_by P xs"
  by (rule trim_by_id) (rule trim_by_ends)

lemma split_sep_not_Nil [simp]: "split_sep c xs \<noteq> []"
  by (induction xs) (auto split: list.split)

lemma split_sep_free: "s \<in> set (split_sep c xs) \<Longrightarrow> c \<notin> set s \<and> set s \<subseteq> set xs"
proof (induction xs arbitrary: s)
  case (Cons x xs)
  obtain y ys where y: "split_sep c xs = y # ys" by (cases "split_sep c xs") auto
  show ?case using Cons.IH [of y] Cons.IH [of s] Cons.prems by (auto simp: y split: if_splits)
qed simp

lemma split_sep_single: "c \<notin> set x \<Longrightarrow> split_sep c x = [x]"
  by (induction x) auto

lemma split_sep_append: "c \<notin> set x \<Longrightarrow> split_sep c (x @ c # ys) = x # split_sep c ys"
  by (induction x) auto

lemma split_join:
  "xs \<noteq> [] \<Longrightarrow> (\<And>x. x \<in> set xs \<Longrightarrow> c \<notin> set x) \<Longrightarrow> split_sep c (join_sep c xs) = xs"
  by (induction c xs rule: join_sep.induct) (auto simp: split_sep_single split_sep_append)

section \<open>Safe segments\<close>

definition safe_segment :: "ustr \<Rightarrow> bool" where
  "safe_segment s \<longleftrightarrow> s \<noteq> [] \<and> s \<noteq> [DOT] \<and> s \<noteq> [DOT, DOT] \<and> SLASH \<notin> set s \<and> BACKSLASH \<notin> set s
     \<and> (\<forall>c \<in> set s. \<not> is_control c) \<and> trim_by is_whitespace s = s"

lemma rel_loop_safe:
  assumes "\<And>r. r \<in> set raws \<Longrightarrow> SLASH \<notin> set r \<and> BACKSLASH \<notin> set r" and "list_all safe_segment parts"
    and "rel_loop raws parts escaped = (parts', escaped')"
  shows "list_all safe_segment parts'"
  using assms
proof (induction raws parts escaped rule: rel_loop.induct)
  case (2 raw raws parts escaped)
  let ?seg = "trim_by is_whitespace raw"
  have rest: "\<And>r. r \<in> set raws \<Longrightarrow> SLASH \<notin> set r \<and> BACKSLASH \<notin> set r" using "2.prems"(1) by simp
  have free: "SLASH \<notin> set ?seg" "BACKSLASH \<notin> set ?seg" using "2.prems"(1) [of raw] set_trim_by [of is_whitespace raw] by auto
  have bl: "list_all safe_segment (butlast parts)" using "2.prems"(2) by (auto simp: list_all_iff dest: in_set_butlastD)
  consider (skip) "?seg = [] \<or> ?seg = [DOT]" | (up) "?seg = [DOT, DOT]"
    | (ctl) "?seg \<noteq> [] \<and> ?seg \<noteq> [DOT] \<and> ?seg \<noteq> [DOT, DOT]" "0 \<in> set ?seg \<or> (\<exists>c \<in> set ?seg. is_control c)"
    | (push) "?seg \<noteq> [] \<and> ?seg \<noteq> [DOT] \<and> ?seg \<noteq> [DOT, DOT]" "\<not> (0 \<in> set ?seg \<or> (\<exists>c \<in> set ?seg. is_control c))"
    by blast
  then show ?case
  proof cases
    case push
    then have "safe_segment ?seg" using free by (auto simp: safe_segment_def)
    then have "list_all safe_segment (parts @ [?seg])" using "2.prems"(2) by simp
    with push 2 rest show ?thesis by (simp add: Let_def)
  qed (use 2 rest bl in \<open>auto simp: Let_def split: if_splits\<close>)
qed simp

lemma rel_loop_keeps_safe:
  "list_all safe_segment raws \<Longrightarrow> rel_loop raws parts escaped = (parts @ raws, escaped)"
proof (induction raws arbitrary: parts)
  case (Cons raw raws)
  then have "0 \<notin> set raw" by (auto simp: safe_segment_def is_control_def)
  with Cons show ?case by (auto simp: safe_segment_def)
qed simp

lemma join_ends:
  "list_all safe_segment parts \<Longrightarrow> parts \<noteq> [] \<Longrightarrow> join_sep SLASH parts \<noteq> [] \<and> hd (join_sep SLASH parts) \<noteq> SLASH
     \<and> last (join_sep SLASH parts) \<noteq> SLASH \<and> BACKSLASH \<notin> set (join_sep SLASH parts)"
proof (induction SLASH parts rule: join_sep.induct)
  case (2 x)
  then have x: "x \<noteq> []" "SLASH \<notin> set x" "BACKSLASH \<notin> set x" by (auto simp: safe_segment_def)
  then have "hd x \<noteq> SLASH" "last x \<noteq> SLASH" using hd_in_set last_in_set by metis+
  with x show ?case by simp
next
  case (3 x y ys)
  then have "x \<noteq> []" "SLASH \<notin> set x" "BACKSLASH \<notin> set x" by (auto simp: safe_segment_def)
  with 3 show ?case by (cases x) (auto simp: SLASH_def BACKSLASH_def)
qed simp

lemma rel_path_new_parts:
  obtains parts where "list_all safe_segment parts" "rel_path_new path = join_sep SLASH parts"
proof -
  let ?norm = "map (\<lambda>c. if c = BACKSLASH then SLASH else c) path"
  let ?trim = "trim_by (\<lambda>c. c = SLASH) ?norm"
  obtain parts escaped where run: "rel_loop (split_sep SLASH ?trim) [] False = (parts, escaped)" by fastforce
  have "SLASH \<notin> set r \<and> BACKSLASH \<notin> set r" if "r \<in> set (split_sep SLASH ?trim)" for r
    using split_sep_free [OF that] set_trim_by [of "\<lambda>c. c = SLASH" ?norm] by (auto simp: SLASH_def BACKSLASH_def split: if_splits)
  from rel_loop_safe [OF this _ run] have safe: "list_all safe_segment parts" by simp
  show thesis
  proof (cases escaped)
    case True
    with run that [of "[]"] show thesis by (simp add: rel_path_new_def Let_def)
  next
    case False
    with run safe that [of parts] show thesis by (simp add: rel_path_new_def Let_def)
  qed
qed

lemma no_slash_segment_join:
  "list_all safe_segment parts \<Longrightarrow> parts \<noteq> [] \<Longrightarrow> split_sep SLASH (join_sep SLASH parts) = parts"
  by (rule split_join) (auto simp: list_all_iff safe_segment_def)

lemma rel_path_new_join:
  assumes "list_all safe_segment parts"
  shows "rel_path_new (join_sep SLASH parts) = join_sep SLASH parts"
proof (cases "parts = []")
  case True
  have "trim_by is_whitespace [] = []" by (simp add: trim_by_def)
  with True show ?thesis by (simp add: rel_path_new_def trim_by_def)
next
  case False
  let ?j = "join_sep SLASH parts"
  from join_ends [OF assms False] have ends: "hd ?j \<noteq> SLASH" "last ?j \<noteq> SLASH" "BACKSLASH \<notin> set ?j" by auto
  then have "map (\<lambda>c. if c = BACKSLASH then SLASH else c) ?j = ?j" by (auto intro!: map_idI)
  moreover have "trim_by (\<lambda>c. c = SLASH) ?j = ?j" using ends by (intro trim_by_id) simp
  ultimately show ?thesis
    using no_slash_segment_join [OF assms False] rel_loop_keeps_safe [OF assms, of "[]" False]
    by (simp add: rel_path_new_def)
qed

section \<open>Line endings\<close>

text \<open>The reference reading of the normalisation, by structural recursion.\<close>

fun normalize_spec :: "bytes \<Rightarrow> bytes" where
  "normalize_spec [] = []"
| "normalize_spec [c] = [if c = CR then LF else c]"
| "normalize_spec (c # d # cs) = (if c = CR then (if d = LF then LF # normalize_spec cs else LF # normalize_spec (d # cs))
     else c # normalize_spec (d # cs))"

lemma normalize_loop_spec:
  "normalize_loop content i out = out @ normalize_spec (drop i content)"
proof (induction content i out rule: normalize_loop.induct)
  case (1 content i out)
  show ?case
  proof (cases "length content \<le> i")
    case True
    then show ?thesis by (subst normalize_loop.simps) simp
  next
    case False
    then have d: "drop i content = content ! i # drop (Suc i) content" by (simp add: Cons_nth_drop_Suc)
    show ?thesis
    proof (cases "Suc i < length content")
      case True
      then have d2: "drop (Suc i) content = content ! Suc i # drop (Suc (Suc i)) content" by (simp add: Cons_nth_drop_Suc)
      from False True 1 show ?thesis by (subst normalize_loop.simps) (auto simp: d d2)
    next
      case False2: False
      then have d2: "drop (Suc i) content = []" by simp
      from False False2 1 show ?thesis by (subst normalize_loop.simps) (auto simp: d d2)
    qed
  qed
qed

lemma normalize_spec_id: "CR \<notin> set xs \<Longrightarrow> normalize_spec xs = xs"
  by (induction xs rule: normalize_spec.induct) auto

lemma content_hash_spec: "content_hash_compute blake3 content = blake3 (normalize_spec content)"
  by (simp add: content_hash_compute_def normalize_loop_spec normalize_spec_id)

text \<open>A line of text is a byte list with no line break; a line ending is one of the three conventions.\<close>

definition line_ending :: "bytes \<Rightarrow> bool" where
  "line_ending e \<longleftrightarrow> e = [LF] \<or> e = [CR, LF] \<or> e = [CR]"

definition render_lines :: "bytes \<Rightarrow> bytes list \<Rightarrow> bytes" where
  "render_lines e ls = concat (map (\<lambda>l. l @ e) ls)"

lemma normalize_spec_text: "CR \<notin> set l \<Longrightarrow> LF \<notin> set l \<Longrightarrow> normalize_spec (l @ c # cs) = l @ normalize_spec (c # cs)"
  by (induction l rule: normalize_spec.induct) auto

lemma normalize_spec_line:
  assumes "CR \<notin> set l" "LF \<notin> set l" "line_ending e" "xs = [] \<or> hd xs \<noteq> LF \<or> e \<noteq> [CR]"
  shows "normalize_spec (l @ e @ xs) = l @ LF # normalize_spec xs"
proof -
  have "normalize_spec (e @ xs) = LF # normalize_spec xs"
    using assms(3,4) by (cases xs) (auto simp: line_ending_def)
  moreover obtain c cs where "e = c # cs" using assms(3) by (auto simp: line_ending_def)
  ultimately show ?thesis using normalize_spec_text [OF assms(1,2), of c "cs @ xs"] by simp
qed

lemma normalize_render:
  assumes "list_all (\<lambda>l. CR \<notin> set l \<and> LF \<notin> set l) ls" "line_ending e"
  shows "normalize_spec (render_lines e ls) = render_lines [LF] ls"
  using assms(1)
proof (induction ls)
  case (Cons l ls)
  have "render_lines e ls = [] \<or> hd (render_lines e ls) \<noteq> LF \<or> e \<noteq> [CR]"
  proof (cases ls)
    case (Cons m ms)
    with Cons.prems show ?thesis by (cases m) (auto simp: render_lines_def)
  qed (simp add: render_lines_def)
  with Cons assms(2) normalize_spec_line [of l e "render_lines e ls"] show ?case
    by (simp add: render_lines_def)
qed (simp add: render_lines_def)

section \<open>Keys\<close>

lemma nat_le_bytes_inj: "a < 256 ^ k \<Longrightarrow> b < 256 ^ k \<Longrightarrow> nat_le_bytes k a = nat_le_bytes k b \<Longrightarrow> a = b"
  by (metis nat_of_le_bytes_le_bytes)

lemma u32_to_le_bytes_inj [simp]: "u32_to_le_bytes a = u32_to_le_bytes b \<longleftrightarrow> a = b"
proof
  assume "u32_to_le_bytes a = u32_to_le_bytes b"
  then have eq: "nat_le_bytes 4 (unat a) = nat_le_bytes 4 (unat b)" by (simp add: u32_to_le_bytes_def)
  have "unat x < 256 ^ 4" for x :: "32 word" using unsigned_less [of x, where 'a = nat] by simp
  from nat_le_bytes_inj [OF this this eq] have "unat a = unat b" .
  then show "a = b" by (simp add: word_unat_eq_iff)
qed simp

lemma length_u32_to_le_bytes [simp]: "length (u32_to_le_bytes n) = 4"
  by (simp add: u32_to_le_bytes_def)

lemma doc_preimage_inj:
  assumes "NUL \<notin> set p" "NUL \<notin> set q" "doc_preimage p a b h = doc_preimage q c d k"
  shows "p = q \<and> a = c \<and> b = d \<and> h = k"
proof -
  from assms have "p = q" and rest: "u32_to_le_bytes a @ [NUL] @ u32_to_le_bytes b @ [NUL] @ h
      = u32_to_le_bytes c @ [NUL] @ u32_to_le_bytes d @ [NUL] @ k"
    using sep_append_inj [of NUL p q] by (auto simp: doc_preimage_def)
  with rest show ?thesis by (auto simp: append_eq_append_conv)
qed

lemma colon_not_digit: "CHR '':'' \<notin> set (show_u64 n)"
  using show_nat_digits by (fastforce simp: show_u64_def is_digit_def)

lemma build_pk_inj_raw:
  assumes "CHR '':'' \<notin> set p" "CHR '':'' \<notin> set q" "CHR '':'' \<notin> set n" "CHR '':'' \<notin> set m"
    and "build_pk p n g d = build_pk q m h e"
  shows "p = q \<and> n = m \<and> effective_gen n g = effective_gen m h \<and> d = e"
proof -
  note inj = sep_append_inj [of "CHR '':''"]
  from assms have pq: "p = q" and r: "n @ '':'' @ show_u64 (effective_gen n g) @ '':'' @ d
     = m @ '':'' @ show_u64 (effective_gen m h) @ '':'' @ e"
    using inj [of p q] by (auto simp: build_pk_def)
  from r assms have nm: "n = m" and r2: "show_u64 (effective_gen n g) @ '':'' @ d
     = show_u64 (effective_gen m h) @ '':'' @ e"
    using inj [of n m] by auto
  from r2 have "show_u64 (effective_gen n g) = show_u64 (effective_gen m h) \<and> d = e"
    using inj [of "show_u64 (effective_gen n g)" "show_u64 (effective_gen m h)"] colon_not_digit by auto
  with pq nm show ?thesis by simp
qed

section \<open>Properties\<close>

text \<open>
  C36. Normalising a project-relative path always yields slash-separated safe segments: whatever the
  input, the stored path is empty or its segments are all non-empty, different from \<open>.\<close> and \<open>..\<close>,
  free of slashes, backslashes and control characters, and without surrounding white space. So a
  stored path never leaves the virtual root.
\<close>

theorem rel_path_segments_safe:
  "rel_path_new path = [] \<or> list_all safe_segment (split_sep SLASH (rel_path_new path))"
proof -
  obtain parts where p: "list_all safe_segment parts" "rel_path_new path = join_sep SLASH parts"
    by (rule rel_path_new_parts)
  then show ?thesis by (cases "parts = []") (simp_all add: no_slash_segment_join)
qed

text \<open>
  Normalisation is idempotent: a stored path that is read back and normalised again, as
  \<open>From<String>\<close> does, is unchanged.
\<close>

theorem rel_path_new_idempotent: "rel_path_new (rel_path_new path) = rel_path_new path"
proof -
  obtain parts where "list_all safe_segment parts" "rel_path_new path = join_sep SLASH parts"
    by (rule rel_path_new_parts)
  then show ?thesis by (simp add: rel_path_new_join)
qed

text \<open>
  The content hash does not depend on the platform's line endings: the same lines rendered with
  \<open>\n\<close>, with \<open>\r\n\<close> or with \<open>\r\<close> have the hash of the \<open>\n\<close> rendering, whatever the hash function.
\<close>

theorem content_hash_line_endings:
  assumes "list_all (\<lambda>l. CR \<notin> set l \<and> LF \<notin> set l) ls" and "line_ending e"
  shows "content_hash_compute blake3 (render_lines e ls) = blake3 (render_lines [LF] ls)"
  using normalize_render [OF assms] by (simp add: content_hash_spec)

theorem content_hash_line_endings_witness:
  "content_hash_compute id (''a'' @ [CR, LF] @ [CR, LF] @ ''b'' @ [CR, LF]) = ''a'' @ [LF, LF] @ ''b'' @ [LF]"
  using content_hash_line_endings [of "[''a'', [], ''b'']" "[CR, LF]" id]
  by (simp add: line_ending_def render_lines_def)

text \<open>
  With a collision-free hash a document identifier determines its path, its line range and its
  content hash, for paths without NUL (which normalised paths never contain).
\<close>

theorem doc_id_injective:
  assumes "inj blake3" and "NUL \<notin> set p" and "NUL \<notin> set q"
    and "doc_id_compute blake3 p a b h = doc_id_compute blake3 q c d k"
  shows "p = q \<and> a = c \<and> b = d \<and> h = k"
proof -
  from assms have "doc_preimage p a b h = doc_preimage q c d k"
    by (auto simp: doc_id_compute_def dest: injD)
  with assms(2,3) show ?thesis by (rule doc_preimage_inj)
qed

theorem doc_id_injective_witness:
  "doc_id_compute id ''a.rs'' 1 20 ''ff'' \<noteq> doc_id_compute id ''a.rs'' 1 21 ''ff''"
proof
  assume "doc_id_compute id ''a.rs'' 1 20 ''ff'' = doc_id_compute id ''a.rs'' 1 21 ''ff''"
  from doc_id_injective [OF _ _ _ this] show False by simp
qed

text \<open>
  The primary key separates projects, namespaces, generations and documents: for project ids and
  namespaces without a colon, equal keys have equal parts, where the generation counts only in the
  namespaces that are not globally mutable.
\<close>

theorem build_pk_injective:
  assumes "CHR '':'' \<notin> set p" and "CHR '':'' \<notin> set q" and "CHR '':'' \<notin> set n" and "CHR '':'' \<notin> set m"
    and "build_pk p n g d = build_pk q m h e"
  shows "p = q \<and> n = m \<and> d = e \<and> (g = h \<or> get_namespace_scope n = GlobalScope)"
proof -
  from build_pk_inj_raw [OF assms] have parts: "p = q" "n = m" "d = e" and gen: "effective_gen n g = effective_gen n h"
    by auto
  have "g = h \<or> get_namespace_scope n = GlobalScope"
    using gen by (cases "get_policy n")
      (auto simp: effective_gen_def get_namespace_scope_def split: if_splits namespace_versioning.splits)
  with parts show ?thesis by simp
qed

theorem build_pk_injective_witness:
  "build_pk ''p1'' ''memory'' 3 ''d'' \<noteq> build_pk ''p1'' ''memory'' 4 ''d''"
proof
  assume "build_pk ''p1'' ''memory'' 3 ''d'' = build_pk ''p1'' ''memory'' 4 ''d''"
  from build_pk_injective [OF _ _ _ _ this] have "get_namespace_scope ''memory'' = GlobalScope" by simp
  then show False by (simp add: get_namespace_scope_def get_policy_def namespace_names)
qed

text \<open>
  Every namespace is either known, and then has a policy, or is refused with an error that names
  it; a namespace shares one generation exactly when it is known and is not the code-memory namespace.
\<close>

theorem namespace_policy_total:
  "(\<exists>policy. get_policy ns = Inr policy) = (ns \<in> set KNOWN_NAMESPACES) \<and>
   (get_namespace_scope ns = GlobalScope) = (ns \<in> set KNOWN_NAMESPACES - {NAMESPACE_MEMORY}) \<and>
   set KNOWN_NAMESPACES = insert NAMESPACE_MEMORY (insert NAMESPACE_HISTORY (set KNOWLEDGE_NAMESPACES))"
proof (intro conjI)
  show "(\<exists>policy. get_policy ns = Inr policy) = (ns \<in> set KNOWN_NAMESPACES)"
    by (simp add: get_policy_def KNOWN_NAMESPACES_def)
  show "(get_namespace_scope ns = GlobalScope) = (ns \<in> set KNOWN_NAMESPACES - {NAMESPACE_MEMORY})"
    by (simp add: get_namespace_scope_def get_policy_def KNOWN_NAMESPACES_def namespace_names)
  show "set KNOWN_NAMESPACES = insert NAMESPACE_MEMORY (insert NAMESPACE_HISTORY (set KNOWLEDGE_NAMESPACES))"
    by (auto simp: KNOWN_NAMESPACES_def KNOWLEDGE_NAMESPACES_def)
qed

end
