(* ===== verification/Rule_Samples.thy ===== *)
theory Rule_Samples
  imports Rule_Lemmas Rule_Wire
begin

text \<open>
  Concrete states and runs of the rule components on the wire encoders: a project with one legacy
  rule, a pending receipt whose source is then published, and a rule that a source owns.
\<close>

abbreviation W :: rule_codecs where "W \<equiv> wire_rules"
abbreviation H :: "bytes \<Rightarrow> string" where "H \<equiv> sample_hash"

section \<open>Lengths and characters of encodings\<close>

lemma put_wire [simp]:
  "put (pair_w a b) (x, y) = put a x @ put b y" "put (map_w f g a) z = put a (f z)"
  "put (list_w w) [] = ''0''" "put (list_w w) (v # vs) = CHR ''1'' # put w v @ put (list_w w) vs"
  by (simp_all add: pair_w_def map_w_def list_w_def)

lemma put_option [simp]: "put (option_w w) None = ''0''" "put (option_w w) (Some v) = CHR ''1'' # put w v @ ''0''"
  by (simp_all add: option_w_def)

lemma length_put_string_w [simp]: "length (put string_w s) = 2 * length s + 1"
  unfolding string_w_def by (induction s) (simp_all add: char_w_def)

lemma length_put_bool [simp]: "length (put bool_w b) = 1"
  by (simp add: bool_w_def char_w_def)

lemma length_put_small: "length (put u64_w n) \<le> 41" "length (put word_w w) \<le> 41"
  using show_u64_length [of n] show_u64_length [of "ucast w"] by (simp_all add: u64_w_def word_w_def)

definition ascii :: "string \<Rightarrow> bool" where
  "ascii s \<longleftrightarrow> (\<forall>c \<in> set s. byte c < 128)"

lemma ascii_simps [simp]: "ascii []" "ascii (c # s) \<longleftrightarrow> byte c < 128 \<and> ascii s" "ascii (s @ t) \<longleftrightarrow> ascii s \<and> ascii t"
  by (auto simp: ascii_def)

lemma ascii_put_string [simp]: "ascii (put string_w s) \<longleftrightarrow> ascii s"
  unfolding string_w_def by (induction s) (simp_all add: char_w_def)

lemma utf8_ascii: "ascii s \<Longrightarrow> utf8_valid s"
  by (simp add: ascii_def utf8_valid_ascii)

lemma ascii_show_u64 [simp]: "ascii (show_u64 n)"
  unfolding ascii_def show_u64_def
proof
  fix c
  assume "c \<in> set (show_nat (unat n))"
  from show_nat_digits [OF this] show "byte c < 128" by (simp add: is_digit_def)
qed

lemma ascii_put_small [simp]: "ascii (put bool_w b)" "ascii (put u64_w n)" "ascii (put word_w w)"
  by (simp_all add: bool_w_def char_w_def u64_w_def word_w_def)

lemma sample_hash_facts [simp]: "length (H bs) = 64" "valid_hash (H bs)" "ascii (H bs)"
  by (auto simp: sample_hash_def valid_hash_def is_hexdigit_def ascii_def)

text \<open>Objects: the length and the characters of an encoded map of strings.\<close>

lemma length_put_rows: "length (put (list_w (pair_w string_w string_w)) xs) = 1 + sum_list (map (\<lambda>(k, v). 3 + 2 * length k + 2 * length v) xs)"
  by (induction xs) auto

lemma ascii_put_rows: "ascii (put (list_w (pair_w string_w string_w)) xs) \<longleftrightarrow> (\<forall>(k, v) \<in> set xs. ascii k \<and> ascii v)"
  by (induction xs) auto

lemma length_put_object:
  "distinct (map fst xs) \<Longrightarrow> length (put object_w (fmap_of_list xs)) = 1 + sum_list (map (\<lambda>(k, v). 3 + 2 * length k + 2 * length v) xs)"
  by (simp add: object_w_def length_put_rows sum_list_iter table_weight_of_list)

lemma length_put_jobj:
  "distinct (map fst xs) \<Longrightarrow>
     length (put_json (jobj xs)) = 2 + sum_list (map (\<lambda>(k, v). 3 + 2 * length k + 2 * length (put_json v)) xs)"
proof -
  assume d: "distinct (map fst xs)"
  have "fmmap put_json (fmap_of_list xs) = fmap_of_list (map (apsnd put_json) xs)"
    by (rule fmmap_of_list)
  moreover have "distinct (map fst (map (apsnd put_json) xs))" using d by (simp add: comp_def apsnd_def map_prod_def case_prod_beta)
  ultimately have "length (put_json (jobj xs)) = 2 + sum_list (map (\<lambda>(k, v). 3 + 2 * length k + 2 * length v) (map (apsnd put_json) xs))"
    by (simp only: jobj_def put_json.simps list.size length_put_rows sum_list_iter_of_list)
  then show ?thesis by (simp add: comp_def split_def)
qed

lemma ascii_put_jobj:
  assumes "\<forall>(k, v) \<in> set xs. ascii k \<and> ascii (put_json v)"
  shows "ascii (put_json (jobj xs))"
proof -
  have "ascii k \<and> ascii b" if kb: "(k, b) \<in> set (iter (fmmap put_json (fmap_of_list xs)))" for k b
  proof -
    obtain v where "map_of xs k = Some v" "b = put_json v" using kb by (auto simp: set_iter fmlookup_of_list)
    with assms show ?thesis by (auto dest!: map_of_SomeD)
  qed
  then show ?thesis by (auto simp: jobj_def ascii_put_rows)
qed

section \<open>States\<close>

definition legacy_rule :: repo_rule where
  "legacy_rule = \<lparr> rule_id = ''r'', file_pattern = ''*'', rule_text = ''t'', rule_priority = 1, rule_updated_at_ms = 1,
     introduced_at = None, provenance = None \<rparr>"

definition source_rule :: repo_rule where
  "source_rule = legacy_rule\<lparr>provenance := Some (SOURCE_PROVENANCE @ ''rules.md'')\<rparr>"

definition sample_receipt :: "bool \<Rightarrow> repo_rule list \<Rightarrow> legacy_rule_alias list \<Rightarrow> rule_source_receipt" where
  "sample_receipt waiting rs as = \<lparr> receipt_origin = ''rules.md'', source_hash = H [], authored = True, receipt_pending = waiting,
     doc_ids = [], receipt_rules = rs, cleanup = [], corpus_revision = '''', legacy_aliases = as \<rparr>"

abbreviation sample_key :: string where "sample_key \<equiv> source_key H ''rules.md''"
abbreviation enc :: "rule_source_receipt \<Rightarrow> bytes" where "enc c \<equiv> put receipt_w c"

definition legacy_db :: db where
  "legacy_db = empty_db\<lparr>repo_rules := fmupd (composite ''p'' ''r'') (to_vec (rule_json W) legacy_rule) fmempty\<rparr>"

definition importing_db :: db where
  "importing_db = empty_db\<lparr>meta := fmupd (composite ''p'' sample_key) (enc (sample_receipt True [] [])) fmempty\<rparr>"

lemma valid_sample_origin [simp]: "valid_origin ''rules.md''"
  by (simp add: valid_origin_def)

lemma key_ok_samples [simp]: "key_ok ''p''" "key_ok ''r''" "key_ok sample_key"
  by (simp_all add: key_ok_def source_key_def RECEIPT_PREFIX_def sample_hash_def)

lemma prefix_sample_key [simp]: "prefix RECEIPT_PREFIX sample_key"
  by (simp add: source_key_def)

lemma length_rule: "length (put rule_w source_rule) \<le> 1000"
  using length_put_small(1) [of 1] length_put_small(2) [of "1 :: 32 word"]
  by (simp add: rule_w_def legacy_rule_def source_rule_def SOURCE_PROVENANCE_def)

lemma ascii_rule [simp]: "ascii (put rule_w source_rule)"
  by (simp add: rule_w_def legacy_rule_def source_rule_def SOURCE_PROVENANCE_def)

lemma length_enc:
  "length (enc (sample_receipt w [] [])) \<le> 4194304" "length (enc (sample_receipt w [source_rule] [])) \<le> 4194304"
  using length_rule by (simp_all add: sample_receipt_def receipt_w_def)

lemma sample_sel [simp]:
  "receipt_rules (sample_receipt w rs as) = rs" "legacy_aliases (sample_receipt w rs as) = as"
  "receipt_pending (sample_receipt w rs as) = w" "receipt_origin (sample_receipt w rs as) = ''rules.md''"
  "rule_id source_rule = ''r''" "provenance source_rule = Some (SOURCE_PROVENANCE @ ''rules.md'')"
  by (simp_all add: sample_receipt_def source_rule_def legacy_rule_def)

section \<open>A published source\<close>

lemma sample_receipt_ok:
  assumes "\<forall>r \<in> set rs. r = source_rule" "length rs \<le> 1"
  shows "receipt_ok W H sample_key (sample_receipt w rs [])"
  using assms by (cases rs) (auto simp: receipt_ok_def sample_receipt_def source_rule_def legacy_rule_def)

lemma decode_enc [simp]:
  "decode_receipt W H sample_key (enc (sample_receipt w [] [])) = Inr (sample_receipt w [] [])"
  "decode_receipt W H sample_key (enc (sample_receipt w [source_rule] [])) = Inr (sample_receipt w [source_rule] [])"
  using sample_receipt_ok [of "[]"] sample_receipt_ok [of "[source_rule]"] length_enc by (simp_all add: decode_receipt_Inr)

lemma receipt_scan: "prefix_scan (composite p RECEIPT_PREFIX) (fmupd (composite p sample_key) raw fmempty) = [(composite p sample_key, raw)]"
  by (simp add: prefix_scan_filter composite_def source_key_def)

lemma local_receipt: "local_rows (composite p RECEIPT_PREFIX) RECEIPT_PREFIX (fmupd (composite p sample_key) raw fmempty) = [(sample_key, raw)]"
  unfolding local_rows_def receipt_scan by (simp add: composite_def source_key_def)

lemma one_receipt_table_guard:
  assumes sub: "subtable (composite ''p'' RECEIPT_PREFIX) RECEIPT_PREFIX (meta s) = fmupd sample_key raw fmempty"
    and "decode_receipt W H sample_key raw = Inr c"
    and "\<And>rid. rid \<in> set ids \<Longrightarrow> guard_row W ''p'' (Some sample_key) (Some c) s rid = Inr ()"
  shows "guard_mutation W H ''p'' ids (Some sample_key) s = Inr ()"
proof -
  have len: "length raw \<le> 4 * 1024 * 1024" using assms(2) by (simp add: decode_receipt_Inr)
  have "collect_prefix (meta s) (composite ''p'' RECEIPT_PREFIX) RECEIPT_PREFIX 256 (8 * 1024 * 1024)
      = Inr (fmupd sample_key raw fmempty, 8 * 1024 * 1024 - entry_bytes (fmupd sample_key raw fmempty))"
    using len unfolding collect_prefix_iff length_local_rows row_bytes_local rows_admissible_local sub
    by (simp add: entries_admissible_def table_weight_new source_key_def RECEIPT_PREFIX_def VALUE_BYTES_def)
  moreover have "guard_claims ids (Some sample_key) sample_key c = Inr ()" by (simp add: guard_claims_Inr)
  then have "guard_receipts W H ids (Some sample_key) [(sample_key, raw)] None = Inr (Some c)"
    using assms(2) by simp
  moreover have "traverseR (guard_row W ''p'' (Some sample_key) (Some c) s) ids = Inr (map (\<lambda>_. ()) ids)"
    using assms(3) by (intro traverseR_map_Inr) simp
  ultimately show ?thesis by (simp add: guard_mutation_def publishes_source_def)
qed

lemma one_receipt_guard:
  assumes "meta s = fmupd (composite ''p'' sample_key) raw fmempty" and "decode_receipt W H sample_key raw = Inr c"
    and "\<And>rid. rid \<in> set ids \<Longrightarrow> guard_row W ''p'' (Some sample_key) (Some c) s rid = Inr ()"
  shows "guard_mutation W H ''p'' ids (Some sample_key) s = Inr ()"
  using one_receipt_table_guard [OF _ assms(2,3)] by (simp add: subtable_def assms(1) local_receipt)

lemma importing_guard:
  "guard_mutation W H ''p'' (btree_set ([] @ map rule_id [source_rule] @ map rule_id (receipt_rules (sample_receipt False [source_rule] []))))
     (Some sample_key) importing_db = Inr ()"
proof -
  have "guard_row W ''p'' (Some sample_key) ow importing_db rid = Inr ()" for ow rid
    by (simp add: guard_row_def importing_db_def empty_db_def)
  then show ?thesis
    by (intro one_receipt_guard [of _ "enc (sample_receipt True [] [])" "sample_receipt True [] []"])
      (simp_all add: importing_db_def empty_db_def)
qed

lemma source_publish_run:
  obtains t where "publish_repo_rule_source W H ''p'' [] [] [source_rule] sample_key (enc (sample_receipt True [] []))
    (enc (sample_receipt False [source_rule] [])) importing_db = Inr ((), t)"
proof -
  let ?c = "sample_receipt False [source_rule] []"
  have pub: "publication_of W H sample_key (enc ?c) = Inr (Some ?c)" by (simp add: publication_of_def)
  have check: "check_publication ?c [source_rule] = Inr ()"
    by (simp add: check_publication_def sample_receipt_def source_rule_def)
  have claim: "traverseR (check_claim W ''p'' [] [source_rule] (repo_rules importing_db)) (published_rules (Some ?c)) = Inr [()]"
    by (simp add: published_rules_def sample_receipt_def check_claim_def)
  have rows: "publish_rows W ''p'' [] [] [source_rule] sample_key (enc (sample_receipt True [] [])) (enc ?c) importing_db
    = Inr ((), importing_db\<lparr>repo_rules := fmupd (composite ''p'' ''r'') (to_vec (rule_json W) source_rule) fmempty,
        meta := fmupd (composite ''p'' sample_key) (enc ?c) (meta importing_db)\<rparr>)"
    by (simp add: publish_rows_def importing_db_def empty_db_def btree_set_def check_expected_def stored_rule_def
        source_rule_def legacy_rule_def upsert_rule_def remove_rules_def del: wire_rules_sel)
  have "publish_repo_rule_source W H ''p'' [] [] [source_rule] sample_key (enc (sample_receipt True [] [])) (enc ?c) importing_db
      = publish_rows W ''p'' [] [] [source_rule] sample_key (enc (sample_receipt True [] [])) (enc ?c) importing_db"
    using importing_guard check claim by (simp add: publish_repo_rule_source_def pub published_rules_def)
  with rows that show thesis by simp
qed

lemma delete_legacy_run:
  "delete_repo_rule W H ''p'' ''r'' legacy_db = Inr ((), legacy_db\<lparr>repo_rules := fmempty\<rparr>)"
proof -
  have "collect_prefix fmempty (composite ''p'' RECEIPT_PREFIX) RECEIPT_PREFIX 256 (8 * 1024 * 1024) = Inr (fmempty, 8 * 1024 * 1024)"
    by (simp add: collect_prefix_def)
  moreover have "meta legacy_db = fmempty" by (simp add: legacy_db_def empty_db_def)
  moreover have "guard_row W ''p'' None None legacy_db ''r'' = Inr ()"
    unfolding guard_row_manual by (simp add: legacy_db_def rule_source_def legacy_rule_def)
  ultimately have "guard_mutation W H ''p'' [''r''] None legacy_db = Inr ()"
    by (simp add: guard_mutation_def publishes_source_def)
  moreover have "fmdrop k (fmupd k v fmempty) = fmempty" for k v by (rule fmap_ext) simp
  ultimately show ?thesis by (simp add: delete_repo_rule_def legacy_db_def empty_db_def)
qed

section \<open>A rule owned by its source\<close>

definition owned_db :: db where
  "owned_db = empty_db\<lparr>repo_rules := fmupd (composite ''p'' ''r'') (to_vec (rule_json W) source_rule) fmempty,
     meta := fmupd (composite ''p'' sample_key) (enc (sample_receipt True [source_rule] [])) fmempty\<rparr>"

lemma rule_source_sample [simp]: "rule_source source_rule = Some ''rules.md''"
  by (simp add: rule_source_def strip_prefix_def)

lemma retire_run:
  obtains t where "publish_repo_rule_source W H ''p'' [source_rule] [''r''] [] sample_key (enc (sample_receipt True [source_rule] []))
      (enc (sample_receipt False [] [])) owned_db = Inr ((), t)"
proof -
  let ?c = "sample_receipt False [] []"
  have pub: "publication_of W H sample_key (enc ?c) = Inr (Some ?c)" by (simp add: publication_of_def)
  have check: "check_publication ?c [] = Inr ()" by (simp add: check_publication_def)
  have "guard_row W ''p'' (Some sample_key) (Some (sample_receipt True [source_rule] [])) owned_db ''r'' = Inr ()"
    unfolding guard_row_source [OF prefix_sample_key] by (simp add: owned_db_def)
  then have guard: "guard_mutation W H ''p'' (btree_set [''r'']) (Some sample_key) owned_db = Inr ()"
    by (intro one_receipt_guard [of _ "enc (sample_receipt True [source_rule] [])"]) (simp_all add: owned_db_def)
  have stored: "stored_rule W ''p'' (repo_rules owned_db) ''r'' = Inr (Some source_rule)" by (simp add: stored_rule_def owned_db_def)
  have "\<exists>t. publish_rows W ''p'' [source_rule] [''r''] [] sample_key (enc (sample_receipt True [source_rule] [])) (enc ?c) owned_db = Inr ((), t)"
    using stored by (simp add: publish_rows_def btree_set_def check_expected_def) (simp add: owned_db_def)
  with guard check that show thesis by (auto simp: publish_repo_rule_source_def pub published_rules_def)
qed

section \<open>An adoption\<close>

definition rule_project :: project_record where
  "rule_project = \<lparr> project_id = ''p'', project_name = ''P'', project_type = ''git'', directory = ''/r'',
     project_created_at_ms = 1, project_updated_at_ms = 1, reindex_required_since_ms = None \<rparr>"

abbreviation project_bytes :: bytes where "project_bytes \<equiv> to_vec (project_json (registry_json W)) rule_project"
abbreviation rule_bytes :: "repo_rule \<Rightarrow> bytes" where "rule_bytes r \<equiv> to_vec (rule_json W) r"

definition adoptable_db :: db where
  "adoptable_db = empty_db\<lparr>projects := fmupd ''p'' project_bytes fmempty,
     repo_rules := fmupd (composite ''p'' ''r'') (rule_bytes legacy_rule) fmempty,
     meta := fmupd (composite ''p'' IDENTITY_EPOCH) ''2'' fmempty\<rparr>"

definition adoptable_snapshot :: rule_ownership_snapshot where
  "adoptable_snapshot = \<lparr> snap_project_id = ''p'', project_raw = project_bytes, identity_epoch_raw = Some ''2'',
     corpus_revision_raw = None, snap_rules = fmupd ''r'' (rule_bytes legacy_rule) fmempty, snap_receipts = fmempty \<rparr>"

definition sample_projection :: bytes where
  "sample_projection = put_json (jobj [(''id'', JString ''e0''), (''source'', JString ''rules.md'')])"

definition sample_alias :: legacy_rule_alias where
  "sample_alias = \<lparr> alias_rule_id = ''r'', alias_source_rule_id = ''e0'', alias_projection_json = sample_projection,
     alias_projection_blake3 = H sample_projection \<rparr>"

definition sample_plan :: legacy_adoption_plan where
  "sample_plan = \<lparr> ap_origin = ''rules.md'', ap_source_blake3 = H [], ap_authored = True,
     ap_bindings = [\<lparr> ab_rule_id = ''r'', ab_expected_raw_blake3 = H [], ab_source_rule_id = ''e0'',
        ab_source_projection_json = sample_projection, ab_decision = AdoptUnverified \<rparr>] \<rparr>"

lemma constant_hash [simp]: "H bs = H [] \<longleftrightarrow> True" "H [] = H bs \<longleftrightarrow> True"
  by (simp_all add: sample_hash_def)

lemma encoding_bounds:
  "length project_bytes \<le> 1000" "length (rule_bytes legacy_rule) \<le> 2000" "length (rule_bytes source_rule) \<le> 2000"
  "length sample_projection \<le> 200" "length (enc (sample_receipt w [source_rule] [sample_alias])) \<le> 5000"
proof -
  show "length project_bytes \<le> 1000"
    using length_put_small(1) [of 1] by (simp add: wire_codecs_def project_w_def rule_project_def)
  show "length (rule_bytes legacy_rule) \<le> 2000" "length (rule_bytes source_rule) \<le> 2000"
    using length_put_small(1) [of 1] length_put_small(2) [of "1 :: 32 word"]
    by (simp_all add: rule_object_def raw_of_def length_put_object source_rule_def legacy_rule_def SOURCE_PROVENANCE_def
        del: fmap_of_list_simps)
  show len: "length sample_projection \<le> 200" by (simp add: sample_projection_def length_put_jobj)
  show "length (enc (sample_receipt w [source_rule] [sample_alias])) \<le> 5000"
    using length_rule len by (simp add: sample_receipt_def receipt_w_def alias_w_def sample_alias_def)
qed

lemma ascii_samples [simp]: "ascii sample_projection" "ascii (enc (sample_receipt w [source_rule] [sample_alias]))"
proof -
  show p: "ascii sample_projection" unfolding sample_projection_def by (rule ascii_put_jobj) simp
  show "ascii (enc (sample_receipt w [source_rule] [sample_alias]))"
    using p by (simp add: sample_receipt_def receipt_w_def alias_w_def sample_alias_def)
qed

lemma subtable_single:
  "prefix pfx key \<Longrightarrow> subtable pfx rp (fmupd key raw fmempty) = fmupd (rp @ drop (length pfx) key) raw fmempty"
  "\<not> prefix pfx key \<Longrightarrow> subtable pfx rp (fmupd key raw fmempty) = fmempty"
  by (simp_all add: subtable_def local_rows_def prefix_scan_filter)

lemma adoptable_exact: "exact_snapshot ''p'' project_bytes (repo_rules adoptable_db) (meta adoptable_db) = adoptable_snapshot"
proof -
  have "prefix (''p'' @ [NUL]) (composite ''p'' ''r'')" "\<not> prefix (composite ''p'' RECEIPT_PREFIX) (composite ''p'' IDENTITY_EPOCH)"
    "drop (length (''p'' @ [NUL])) (composite ''p'' ''r'') = ''r''"
    by (simp_all add: composite_def RECEIPT_PREFIX_def IDENTITY_EPOCH_def)
  then have "subtable (''p'' @ [NUL]) [] (fmupd (composite ''p'' ''r'') (rule_bytes legacy_rule) fmempty) = fmupd ''r'' (rule_bytes legacy_rule) fmempty"
    "subtable (composite ''p'' RECEIPT_PREFIX) RECEIPT_PREFIX (fmupd (composite ''p'' IDENTITY_EPOCH) ''2'' fmempty) = fmempty"
    using subtable_single by (metis append_Nil, metis)
  then show ?thesis
    by (simp add: exact_snapshot_def adoptable_snapshot_def adoptable_db_def IDENTITY_EPOCH_def)
qed

lemma adoptable_from_tables:
  "from_tables ''p'' (projects adoptable_db) (repo_rules adoptable_db) (meta adoptable_db) = Inr adoptable_snapshot"
proof -
  have "snapshot_fits adoptable_snapshot"
    using encoding_bounds(1,2)
    by (simp add: snapshot_fits_def adoptable_snapshot_def snapshot_size_def opt_admissible_def opt_bytes_def
        entries_admissible_def VALUE_BYTES_def SNAPSHOT_BYTES_def table_weight_new fcard_fempty)
  then show ?thesis unfolding from_tables_iff using adoptable_exact by (auto simp: adoptable_db_def)
qed

lemma parse_two [simp]: "parse_u64 ''2'' = Some 2" "from_utf8 ''2'' = Inr ''2''"
proof -
  have "show_u64 2 = ''2''" by code_simp
  then show "parse_u64 ''2'' = Some 2" using parse_show_u64 [of 2] by simp
qed (simp add: from_utf8_def)

lemma decode_samples [simp]:
  "decode (rule_json W) (rule_bytes r) = Inr r" "decode (project_json (registry_json W)) project_bytes = Inr rule_project"
  "decode (object_json W) (rule_bytes r) = Inr (rule_object r)"
  using decode_to_vec [of "project_json wire_codecs"] wire_codecs_ok
  by (simp_all add: decode_def codecs_ok_def)

lemma adoptable_basis: "adoption_basis_digest W H adoptable_snapshot = Inr (H [])"
  by (simp add: adoption_basis_digest_def snap_project_def adoptable_snapshot_def rule_project_def [THEN arg_cong, of project_id]
      identity_epoch_def hash_value_def del: wire_rules_sel) 

lemma rule_object_adopted:
  "fmupd ''provenance'' (raw_string W (SOURCE_PROVENANCE @ ''rules.md'')) (rule_object legacy_rule) = rule_object source_rule"
proof (rule fmap_ext)
  fix x
  show "fmlookup (fmupd ''provenance'' (raw_string W (SOURCE_PROVENANCE @ ''rules.md'')) (rule_object legacy_rule)) x
      = fmlookup (rule_object source_rule) x"
    by (cases "x = ''provenance''") (simp_all add: rule_object_def source_rule_def)
qed

lemma adopted_sample: "adopt_bytes W ''rules.md'' (rule_bytes legacy_rule) legacy_rule = Inr (rule_bytes source_rule, source_rule)"
proof -
  have "length (rule_bytes source_rule) \<le> 4 * 1024 * 1024" using encoding_bounds(3) by linarith
  moreover have "to_vec (object_json W) (rule_object source_rule) = rule_bytes source_rule" by simp
  moreover have "source_rule\<lparr>provenance := provenance legacy_rule\<rparr> = legacy_rule" by (simp add: source_rule_def legacy_rule_def)
  ultimately show ?thesis
    by (simp add: adopt_bytes_def Let_def rule_object_adopted del: wire_rules_sel)
qed

definition sample_state :: adoption_state where
  "sample_state = \<lparr> as_receipt = sample_receipt False [source_rule] [sample_alias], as_ids = [''r''], as_sources = [''e0''],
     as_rows = fmupd ''r'' (rule_bytes source_rule) fmempty,
     as_changes = [change_json H (hd (ap_bindings sample_plan)) legacy_rule (rule_bytes source_rule)],
     as_budget = 2 * 1024 * 1024 - length sample_projection \<rparr>"

lemma sample_bindings_run:
  "adopt_bindings W H adoptable_snapshot ''rules.md'' sample_key [] (ap_bindings sample_plan)
     \<lparr> as_receipt = sample_receipt False [] [], as_ids = [], as_sources = [], as_rows = fmempty, as_changes = [],
       as_budget = 2 * 1024 * 1024 \<rparr> = Inr sample_state"
proof -
  let ?b = "hd (ap_bindings sample_plan)"
  let ?st = "\<lparr> as_receipt = sample_receipt False [] [], as_ids = [], as_sources = [], as_rows = fmempty, as_changes = [],
       as_budget = 2 * 1024 * 1024 \<rparr>"
  have row: "adoption_row W H adoptable_snapshot ?b ?st = Inr (rule_bytes legacy_rule, legacy_rule)"
    using encoding_bounds(4)
    by (simp add: adoption_row_def sample_plan_def adoptable_snapshot_def legacy_rule_def [THEN arg_cong, of rule_id] del: wire_rules_sel)
  have own: "check_adoptable ''rules.md'' sample_key [] (ab_decision ?b) legacy_rule = Inr ()"
    by (simp add: check_adoptable_def rule_source_def manual_rule_def sample_plan_def legacy_rule_def)
  have b: "ab_rule_id ?b = ''r''" "ab_source_rule_id ?b = ''e0''" "ab_source_projection_json ?b = sample_projection"
    by (simp_all add: sample_plan_def)
  have a: "adoption_alias H ?b legacy_rule = sample_alias"
    by (simp add: adoption_alias_def sample_alias_def b legacy_rule_def)
  have "adopt_binding W H adoptable_snapshot ''rules.md'' sample_key [] ?b ?st = Inr sample_state"
    unfolding adopt_binding_def row own adopted_sample bindR_simps prod.case Let_def
    by (simp add: a b sample_state_def) (simp add: sample_receipt_def)
  moreover have "ap_bindings sample_plan = [?b]" by (simp add: sample_plan_def)
  ultimately show ?thesis by (metis adopt_bindings.simps bindR_simps(2))
qed

lemma sample_alias_ok: "alias_ok W H (sample_receipt w [source_rule] [sample_alias]) sample_alias"
proof -
  have "get_json (length sample_projection + 1) sample_projection = Some (jobj [(''id'', JString ''e0''), (''source'', JString ''rules.md'')])"
    unfolding sample_projection_def by (rule get_put_json) simp
  then have "decode (value_json W) sample_projection = Inr (jobj [(''id'', JString ''e0''), (''source'', JString ''rules.md'')])"
    by (simp add: decode_def json_codec_def del: get_json.simps)
  then have "check_projection W H ''rules.md'' sample_alias = Inr ()"
    using encoding_bounds(4)
    by (simp add: check_projection_def sample_alias_def json_get_def as_object_def as_str_def jobj_def)
  then show ?thesis by (simp add: alias_ok_def) (simp add: sample_alias_def)
qed

lemma aliased_receipt_ok: "validate_receipt W H (sample_receipt w [source_rule] [sample_alias]) sample_key = Inr ()"
  unfolding validate_receipt_iff receipt_ok_def using sample_alias_ok by (simp add: sample_receipt_def [THEN arg_cong, of source_hash])

lemma aliased_receipt_encodes:
  "encode_receipt W (sample_receipt w [source_rule] [sample_alias]) = Inr (enc (sample_receipt w [source_rule] [sample_alias]))"
  unfolding encode_receipt_Inr using encoding_bounds(5) [of w] by (auto intro: utf8_ascii)

section \<open>A prepared adoption\<close>

lemma sample_plan_sel [simp]:
  "ap_origin sample_plan = ''rules.md''" "ap_source_blake3 sample_plan = H []" "ap_authored sample_plan = True"
  by (simp_all add: sample_plan_def)

lemma sample_state_sel [simp]:
  "as_receipt sample_state = sample_receipt False [source_rule] [sample_alias]"
  "as_rows sample_state = fmupd ''r'' (rule_bytes source_rule) fmempty"
  "as_changes sample_state = [change_json H (hd (ap_bindings sample_plan)) legacy_rule (rule_bytes source_rule)]"
  by (simp_all add: sample_state_def)

lemma length_sample_key: "length sample_key \<le> 200"
  by (simp add: source_key_def RECEIPT_PREFIX_def)

lemma sample_base_receipt: "base_receipt W adoptable_snapshot sample_plan sample_key [] = Inr (sample_receipt False [] [])"
  by (simp add: base_receipt_def adoptable_snapshot_def new_receipt_def sample_receipt_def)

lemma sample_budget:
  "check_adoption_budget adoptable_snapshot (as_rows sample_state) sample_key (enc (sample_receipt False [source_rule] [sample_alias])) = Inr ()"
  using encoding_bounds(1,3) encoding_bounds(5) [of False] length_sample_key
  by (simp add: check_adoption_budget_def adoptable_snapshot_def replaced_rows_def admit_Inr admit_rows_Inr admit_optional_Inr
      opt_admissible_def opt_bytes_def VALUE_BYTES_def SNAPSHOT_BYTES_def fcard_fempty) arith

lemma sample_change_length: "length (put_json (change_json H (hd (ap_bindings sample_plan)) legacy_rule raw)) \<le> 2000"
  by (simp add: change_json_def decision_json_def length_put_jobj sample_plan_def legacy_rule_def)

lemma sample_audit:
  assumes "length d = 64" "length b = 64"
  obtains audit where "adoption_audit W sample_plan d b ''ok'' (as_changes sample_state) = Inr audit"
proof -
  let ?j = "jobj [(''version'', JInt 1), (''plan_blake3'', JString d), (''ownership_basis_blake3'', JString b), (''source'', JString ''rules.md''),
     (''source_blake3'', JString (H [])), (''decision_ref'', JString ''ok''), (''changes'', JArray (as_changes sample_state)),
     (''searchable_evidence_published'', JBool False)]"
  have "length (put_json ?j) \<le> 262144"
    using sample_change_length [of "rule_bytes source_rule"] assms by (simp add: length_put_jobj)
  then have "adoption_audit W sample_plan d b ''ok'' (as_changes sample_state) = Inr (put_json ?j)"
    unfolding adoption_audit_def Let_def by (simp add: json_codec_def del: sample_state_sel)
  then show thesis by (rule that)
qed

lemma prepared_sample:
  obtains pr where "prepare_adoption W H adoptable_snapshot sample_plan ''ok'' = Inr pr"
proof -
  have receipt: "validate_receipt W H (as_receipt sample_state) sample_key = Inr ()"
    "encode_receipt W (as_receipt sample_state) = Inr (enc (sample_receipt False [source_rule] [sample_alias]))"
    using aliased_receipt_ok aliased_receipt_encodes by simp_all
  have len: "length (enc (sample_receipt False [source_rule] [sample_alias])) \<le> 4 * 1024 * 1024"
    using encoding_bounds(5) [of False] by linarith
  have digest: "\<exists>d. plan_digest W H sample_plan adoptable_snapshot = Inr d \<and> length d = 64"
    using adoptable_basis by (simp add: plan_digest_def hash_value_def)
  then obtain d where d: "plan_digest W H sample_plan adoptable_snapshot = Inr d" "length d = 64" by blast
  obtain audit where "adoption_audit W sample_plan d (H []) ''ok'' (as_changes sample_state) = Inr audit"
    by (rule sample_audit [OF d(2) sample_hash_facts(1)])
  then have "\<exists>pr. finish_adoption W H adoptable_snapshot sample_plan ''ok'' sample_key sample_state = Inr pr"
    using len by (simp add: finish_adoption_def receipt sample_budget d(1) adoptable_basis Let_def del: sample_state_sel)
  moreover have "check_plan sample_plan ''ok'' = Inr ()" by (simp add: check_plan_def) (simp add: sample_plan_def)
  moreover have "iter (snap_receipts adoptable_snapshot) = []" by (simp add: adoptable_snapshot_def)
  moreover have "adopt_bindings W H adoptable_snapshot ''rules.md'' sample_key [] (ap_bindings sample_plan)
     \<lparr> as_receipt = sample_receipt False [] [], as_ids = [], as_sources = [], as_rows = fmempty, as_changes = [],
       as_budget = 2097152 \<rparr> = Inr sample_state" using sample_bindings_run by simp
  ultimately show thesis
    using that by (auto simp: prepare_adoption_def adoptable_basis Let_def sample_base_receipt simp del: sample_state_sel)
qed

lemma adoptable_fresh:
  assumes "prepare_adoption W H adoptable_snapshot sample_plan ''ok'' = Inr pr"
  shows "fmlookup (meta adoptable_db) (composite ''p'' (ao_audit_key (pr_outcome pr))) = None"
proof -
  obtain c where pb: "prepared_by W H adoptable_snapshot sample_plan pr c"
    using prepare_adoption_Inr [OF wire_rules_ok assms] by blast
  obtain d where "pr_audit_key pr = ''quality_adoption:'' @ d" using prepared_byD(4) [OF pb] by blast
  with prepared_byD(7) [OF pb] show ?thesis by (simp add: adoptable_db_def IDENTITY_EPOCH_def)
qed

lemma adoption_run:
  obtains out t where "adopt_legacy_repo_rules W H adoptable_snapshot sample_plan ''ok'' adoptable_db = Inr (out, t)"
proof -
  obtain pr where pr: "prepare_adoption W H adoptable_snapshot sample_plan ''ok'' = Inr pr" by (rule prepared_sample)
  from commit_when_current [OF wire_rules_ok _ adoptable_from_tables pr adoptable_fresh [OF pr]]
  obtain t where "commit_legacy_adoption W H adoptable_snapshot pr False adoptable_db = Inr (pr_outcome pr, t)" by auto
  with pr show thesis by (intro that) (simp add: adopt_legacy_repo_rules_def)
qed

end
