(* ===== verification/Rule_Review_Samples.thy ===== *)
theory Rule_Review_Samples
  imports Rule_Samples
begin

text \<open>
  A concrete alias review: a project whose only rule was adopted from a source that is gone, and
  a plan that retires the rule.
\<close>

section \<open>The state and its snapshot\<close>

lemma subtable_upd:
  "subtable pfx rp (fmupd (pfx @ sx) v t) = fmupd (rp @ sx) v (subtable pfx rp t)"
  "\<not> prefix pfx k \<Longrightarrow> subtable pfx rp (fmupd k v t) = subtable pfx rp t"
  "subtable pfx rp fmempty = fmempty"
proof -
  have ext: "subtable pfx rp t = u" if "\<And>sx. fmlookup t (pfx @ sx) = fmlookup u (rp @ sx)"
    and "\<And>k. \<not> prefix rp k \<Longrightarrow> fmlookup u k = None" for t u
  proof (rule fmap_ext)
    fix k
    show "fmlookup (subtable pfx rp t) k = fmlookup u k"
      using that by (cases "prefix rp k") (auto simp: prefix_def)
  qed
  show "subtable pfx rp (fmupd (pfx @ sx) v t) = fmupd (rp @ sx) v (subtable pfx rp t)" by (rule ext) auto
  show "\<not> prefix pfx k \<Longrightarrow> subtable pfx rp (fmupd k v t) = subtable pfx rp t" by (rule ext) auto
  show "subtable pfx rp fmempty = fmempty" by (rule ext) auto
qed

abbreviation adopted_receipt :: rule_source_receipt where
  "adopted_receipt \<equiv> sample_receipt False [source_rule] [sample_alias]"

definition reviewable_db :: db where
  "reviewable_db = empty_db\<lparr>projects := fmupd ''p'' project_bytes fmempty,
     repo_rules := fmupd (composite ''p'' ''r'') (rule_bytes source_rule) fmempty,
     meta := fmupd (composite ''p'' IDENTITY_EPOCH) ''2'' (fmupd (composite ''p'' sample_key) (enc adopted_receipt) fmempty)\<rparr>"

definition reviewable_snapshot :: rule_ownership_snapshot where
  "reviewable_snapshot = \<lparr> snap_project_id = ''p'', project_raw = project_bytes, identity_epoch_raw = Some ''2'',
     corpus_revision_raw = None, snap_rules = fmupd ''r'' (rule_bytes source_rule) fmempty,
     snap_receipts = fmupd sample_key (enc adopted_receipt) fmempty \<rparr>"

lemma receipt_subtable:
  "subtable (composite p RECEIPT_PREFIX) RECEIPT_PREFIX (fmupd (composite p (source_key h origin)) v t)
     = fmupd (source_key h origin) v (subtable (composite p RECEIPT_PREFIX) RECEIPT_PREFIX t)"
  "subtable (composite p RECEIPT_PREFIX) RECEIPT_PREFIX (fmupd (composite p IDENTITY_EPOCH) v t)
     = subtable (composite p RECEIPT_PREFIX) RECEIPT_PREFIX t"
  "subtable (composite p RECEIPT_PREFIX) RECEIPT_PREFIX (fmupd (composite p (''quality_alias_review:'' @ d)) v t)
     = subtable (composite p RECEIPT_PREFIX) RECEIPT_PREFIX t"
proof -
  show "subtable (composite p RECEIPT_PREFIX) RECEIPT_PREFIX (fmupd (composite p (source_key h origin)) v t)
     = fmupd (source_key h origin) v (subtable (composite p RECEIPT_PREFIX) RECEIPT_PREFIX t)"
    using subtable_upd(1) [of "composite p RECEIPT_PREFIX" RECEIPT_PREFIX "h origin"] by (simp add: source_key_def)
qed (rule subtable_upd; simp add: composite_def RECEIPT_PREFIX_def IDENTITY_EPOCH_def)+

lemma rule_subtable:
  "subtable (p @ [NUL]) [] (fmupd (composite p rid) v t) = fmupd rid v (subtable (p @ [NUL]) [] t)"
  using subtable_upd(1) [of "p @ [NUL]" "[]" rid] by (simp add: composite_def)

lemma reviewable_from_tables:
  "from_tables ''p'' (projects reviewable_db) (repo_rules reviewable_db) (meta reviewable_db) = Inr reviewable_snapshot"
proof -
  have "snapshot_fits reviewable_snapshot"
    using encoding_bounds(1,3) encoding_bounds(5) [of False] length_sample_key
    by (simp add: snapshot_fits_def reviewable_snapshot_def snapshot_size_def opt_admissible_def opt_bytes_def
        entries_admissible_def VALUE_BYTES_def SNAPSHOT_BYTES_def table_weight_new fcard_fempty)
  moreover have "exact_snapshot ''p'' project_bytes (repo_rules reviewable_db) (meta reviewable_db) = reviewable_snapshot"
    unfolding exact_snapshot_def reviewable_db_def
    by (simp add: receipt_subtable rule_subtable [of "''p''", simplified] subtable_upd(3) empty_db_def)
      (simp add: reviewable_snapshot_def source_key_def RECEIPT_PREFIX_def IDENTITY_EPOCH_def)
  ultimately show ?thesis unfolding from_tables_iff by (auto simp: reviewable_db_def)
qed

lemma reviewable_basis: "adoption_basis_digest W H reviewable_snapshot = Inr (H [])"
  by (simp add: adoption_basis_digest_def snap_project_def reviewable_snapshot_def rule_project_def [THEN arg_cong, of project_id]
      identity_epoch_def hash_value_def del: wire_rules_sel)

lemma decode_adopted: "decode_receipt W H sample_key (enc (sample_receipt w [source_rule] [sample_alias]))
    = Inr (sample_receipt w [source_rule] [sample_alias])"
proof -
  have "length (enc (sample_receipt w [source_rule] [sample_alias])) \<le> 4 * 1024 * 1024"
    using encoding_bounds(5) [of w] by linarith
  then show ?thesis using aliased_receipt_ok [of w] by (simp add: decode_receipt_Inr validate_receipt_iff)
qed

lemma reviewable_guard: "guard_mutation W H ''p'' [''r''] (Some sample_key) reviewable_db = Inr ()"
proof (rule one_receipt_table_guard [OF _ decode_adopted])
  show "subtable (composite ''p'' RECEIPT_PREFIX) RECEIPT_PREFIX (meta reviewable_db) = fmupd sample_key (enc adopted_receipt) fmempty"
    by (simp add: reviewable_db_def receipt_subtable subtable_upd(3) empty_db_def)
  show "guard_row W ''p'' (Some sample_key) (Some adopted_receipt) reviewable_db rid = Inr ()" if "rid \<in> set [''r'']" for rid
    using that unfolding guard_row_source [OF prefix_sample_key] by (simp add: reviewable_db_def)
qed

section \<open>The plan\<close>

definition retirement :: alias_review_binding where
  "retirement = \<lparr> rb_rule_id = ''r'', rb_expected_raw_blake3 = H [], rb_expected_alias_blake3 = H [], rb_disposition = Retire \<rparr>"

definition retire_plan :: alias_review_plan where
  "retire_plan = \<lparr> rp_origin = ''rules.md'', rp_source = Missing, rp_current_projections = [], rp_bindings = [retirement] \<rparr>"

lemma retire_plan_sel [simp]:
  "rp_origin retire_plan = ''rules.md''" "rp_source retire_plan = Missing" "rp_current_projections retire_plan = []"
  "rp_bindings retire_plan = [retirement]" "rb_rule_id retirement = ''r''" "rb_disposition retirement = Retire"
  "rb_expected_raw_blake3 retirement = H []" "rb_expected_alias_blake3 retirement = H []"
  by (simp_all add: retire_plan_def retirement_def)

lemma sample_policy: "\<exists>v. policy W sample_projection ''rules.md'' = Inr v"
proof -
  have "get_json (length sample_projection + 1) sample_projection = Some (jobj [(''id'', JString ''e0''), (''source'', JString ''rules.md'')])"
    unfolding sample_projection_def by (rule get_put_json) simp
  then have "decode (value_json W) sample_projection = Inr (jobj [(''id'', JString ''e0''), (''source'', JString ''rules.md'')])"
    by (simp add: decode_def json_codec_def del: get_json.simps)
  then show ?thesis by (simp add: policy_def jobj_def as_object_def as_str_def)
qed

lemma ascii_put_object:
  assumes "\<forall>(k, v) \<in> set xs. ascii k \<and> ascii v"
  shows "ascii (put object_w (fmap_of_list xs))"
proof -
  have "ascii k \<and> ascii b" if "(k, b) \<in> set (iter (fmap_of_list xs))" for k b
    using that assms by (auto simp: set_iter fmlookup_of_list dest!: map_of_SomeD)
  then show ?thesis by (auto simp: object_w_def ascii_put_rows)
qed

lemma ascii_rule_bytes: "ascii (rule_bytes source_rule)"
  unfolding wire_rules_sel rule_object_def
  by (rule ascii_put_object) (simp add: source_rule_def legacy_rule_def raw_of_def SOURCE_PROVENANCE_def)

abbreviation retired_state :: review_state where
  "retired_state \<equiv> \<lparr> rs_selected = [''r''], rs_remove = [''r''], rs_rebound = [], rs_replacements = [],
     rs_changes = [review_change retirement (rule_bytes source_rule) sample_alias None [''r'']] \<rparr>"

lemma sample_review_run:
  "review_bindings W H reviewable_snapshot ''rules.md'' adopted_receipt sample_key [(sample_key, adopted_receipt)] fmempty [retirement]
     \<lparr> rs_selected = [], rs_remove = [], rs_rebound = [], rs_replacements = [], rs_changes = [] \<rparr> = Inr retired_state"
proof -
  obtain v where v: "policy W (alias_projection_json sample_alias) ''rules.md'' = Inr v"
    using sample_policy by (auto simp: sample_alias_def)
  have row: "review_row W H reviewable_snapshot adopted_receipt sample_key [(sample_key, adopted_receipt)] retirement []
      = Inr (rule_bytes source_rule, sample_alias)"
    by (simp add: review_row_def reviewable_snapshot_def del: wire_rules_sel) (simp add: sample_alias_def)
  have "from_utf8 (rule_bytes source_rule) = Inr (rule_bytes source_rule)"
    using utf8_ascii [OF ascii_rule_bytes] by (simp add: from_utf8_def)
  moreover have "fmran' (fmempty :: projections) = {}" by (auto elim: fmran'E)
  ultimately show ?thesis
    by (simp add: review_binding_def row v review_action_def Let_def del: wire_rules_sel)
qed

section \<open>The reviewed state\<close>

abbreviation waiting_receipt :: rule_source_receipt where "waiting_receipt \<equiv> sample_receipt True [] []"

lemma retired_receipt: "reviewed_receipt adopted_receipt retired_state = waiting_receipt"
  by (simp add: reviewed_receipt_def sample_alias_def) (simp add: sample_receipt_def)

lemma ascii_waiting: "ascii (enc waiting_receipt)"
  by (simp add: sample_receipt_def receipt_w_def)

lemma length_waiting: "length (enc waiting_receipt) \<le> 5000"
  by (simp add: sample_receipt_def receipt_w_def)

lemma waiting_receipt_facts:
  "validate_receipt W H waiting_receipt sample_key = Inr ()" "encode_receipt W waiting_receipt = Inr (enc waiting_receipt)"
proof -
  show "validate_receipt W H waiting_receipt sample_key = Inr ()"
    unfolding validate_receipt_iff by (rule sample_receipt_ok) simp_all
  show "encode_receipt W waiting_receipt = Inr (enc waiting_receipt)"
    unfolding encode_receipt_Inr using length_waiting utf8_ascii [OF ascii_waiting] by auto
qed

lemma waiting_budget: "check_adoption_budget reviewable_snapshot fmempty sample_key (enc waiting_receipt) = Inr ()"
  using encoding_bounds(1,3) length_waiting length_sample_key
  by (simp add: check_adoption_budget_def reviewable_snapshot_def replaced_rows_def admit_Inr admit_rows_Inr admit_optional_Inr
      opt_admissible_def opt_bytes_def VALUE_BYTES_def SNAPSHOT_BYTES_def fcard_fempty) arith

lemma length_change: "length (put_json (review_change retirement (rule_bytes source_rule) sample_alias None [''r''])) \<le> 20000"
  using encoding_bounds(3,4)
  by (simp add: review_change_def action_value_def alias_value_def sample_alias_def jopt_def length_put_jobj)

lemma review_value_run:
  assumes "length d = 64"
  obtains j where "review_value W H reviewable_snapshot retire_plan ''ok'' d (enc adopted_receipt) (enc waiting_receipt) retired_state = Inr j"
    "length (put_json j) \<le> 262144"
proof -
  have texts: "from_utf8 (enc adopted_receipt) = Inr (enc adopted_receipt)" "from_utf8 (enc waiting_receipt) = Inr (enc waiting_receipt)"
    using utf8_ascii [OF ascii_samples(2)] utf8_ascii [OF ascii_waiting] by (simp_all add: from_utf8_def)
  have project: "snap_project W reviewable_snapshot = Inr rule_project" "identity_epoch reviewable_snapshot = Inr (Some 2)"
    by (simp_all add: snap_project_def reviewable_snapshot_def rule_project_def [THEN arg_cong, of project_id] identity_epoch_def
        del: wire_rules_sel)
  have digest: "length (snapshot_digest W H reviewable_snapshot) = 64" by (simp add: snapshot_digest_def hash_value_def)
  have "length (put_json (project_value rule_project)) \<le> 1000"
    by (simp add: project_value_def rule_project_def length_put_jobj jopt_def ju64_def)
  then show thesis
    using length_change encoding_bounds(5) [of False] length_waiting assms digest
    by (intro that) (simp add: review_value_def texts project,
        simp add: length_put_jobj jopt_def ju64_def jstrings_def source_value_def)
qed

lemma prepared_review_run:
  obtains pv d where "prepare_review W H reviewable_snapshot retire_plan ''ok'' = Inr pv"
    "pv_receipt_key pv = sample_key" "pv_receipt pv = enc waiting_receipt" "pv_remove pv = [''r'']"
    "ro_audit_key (pv_outcome pv) = ''quality_alias_review:'' @ d"
proof -
  define d where "d = hash_value H (''engram:reviewed-alias-lifecycle:v1'' @ [NUL])
      (review_bytes W (snapshot_digest W H reviewable_snapshot, retire_plan, ''ok''))"
  have "length d = 64" by (simp add: d_def hash_value_def)
  then obtain j where j: "review_value W H reviewable_snapshot retire_plan ''ok'' d (enc adopted_receipt) (enc waiting_receipt) retired_state = Inr j"
    "length (put_json j) \<le> 262144" by (rule review_value_run)
  let ?pv = "\<lparr> pv_receipt_key = sample_key, pv_receipt = enc waiting_receipt, pv_remove = [''r''], pv_audit = put_json j, pv_review = j,
      pv_outcome = \<lparr> ro_plan_blake3 = d, ro_audit_key = ''quality_alias_review:'' @ d, ro_retired_rule_ids = [''r''],
        ro_rebound_rule_ids = [], ro_source_reimport_required = True, ro_searchable_evidence_published = False \<rparr> \<rparr>"
  have "finish_review W H reviewable_snapshot retire_plan ''ok'' sample_key (enc adopted_receipt) adopted_receipt retired_state = Inr ?pv"
    unfolding finish_review_def retired_receipt Let_def d_def [symmetric]
    using j by (simp add: waiting_receipt_facts waiting_budget btree_set_def) (simp add: json_codec_def)
  moreover have "check_review retire_plan ''ok'' = Inr ()" by (simp add: check_review_def validate_origin_def)
  moreover have "snap_receipts reviewable_snapshot = fmupd sample_key (enc adopted_receipt) fmempty"
    "check_source_owned W reviewable_snapshot ''rules.md'' source_rule = Inr ()"
    by (simp_all add: reviewable_snapshot_def check_source_owned_def del: wire_rules_sel)
  ultimately have "prepare_review W H reviewable_snapshot retire_plan ''ok'' = Inr ?pv"
    by (simp add: prepare_review_def reviewable_basis Let_def decode_adopted sample_review_run del: review_bindings.simps)
  then show thesis by (rule that) simp_all
qed

lemma review_run:
  obtains out t where "apply_legacy_alias_review W H reviewable_snapshot retire_plan ''ok'' reviewable_db = Inr (out, t)"
proof -
  obtain pv d where pv: "prepare_review W H reviewable_snapshot retire_plan ''ok'' = Inr pv"
    "pv_receipt_key pv = sample_key" "pv_receipt pv = enc waiting_receipt" "pv_remove pv = [''r'']"
    "ro_audit_key (pv_outcome pv) = ''quality_alias_review:'' @ d" by (rule prepared_review_run)
  let ?s = "put_meta (composite ''p'' (''quality_alias_review:'' @ d)) (pv_audit pv) (put_meta (composite ''p'' sample_key) (enc waiting_receipt)
      (reviewable_db\<lparr>repo_rules := fmdrop (composite ''p'' ''r'') (repo_rules reviewable_db)\<rparr>))"
  let ?snap = "reviewable_snapshot\<lparr>snap_rules := fmempty, snap_receipts := fmupd sample_key (enc waiting_receipt) fmempty\<rparr>"
  have drop: "fmdrop k (fmupd k v fmempty) = fmempty" for k v by (rule fmap_ext) simp
  have "snapshot_fits ?snap"
    using encoding_bounds(1) length_waiting length_sample_key
    by (simp add: snapshot_fits_def reviewable_snapshot_def snapshot_size_def opt_admissible_def opt_bytes_def
        entries_admissible_def VALUE_BYTES_def SNAPSHOT_BYTES_def table_weight_new fcard_fempty)
  moreover have "exact_snapshot ''p'' project_bytes (repo_rules ?s) (meta ?s) = ?snap"
    unfolding exact_snapshot_def reviewable_db_def
    by (simp add: receipt_subtable [of "''p''", simplified] subtable_upd(3) empty_db_def drop)
      (simp add: reviewable_snapshot_def source_key_def RECEIPT_PREFIX_def IDENTITY_EPOCH_def)
  ultimately have after: "from_tables ''p'' (projects ?s) (repo_rules ?s) (meta ?s) = Inr ?snap"
    unfolding from_tables_iff by (auto simp: reviewable_db_def)
  have id: "snap_project_id reviewable_snapshot = ''p''" by (simp add: reviewable_snapshot_def)
  have fresh: "fmlookup (meta reviewable_db) (composite ''p'' (''quality_alias_review:'' @ d)) = None"
    by (simp add: reviewable_db_def IDENTITY_EPOCH_def source_key_def RECEIPT_PREFIX_def empty_db_def)
  have "btree_set (map rb_rule_id (rp_bindings retire_plan)) = [''r'']" by (simp add: btree_set_def)
  then have "apply_legacy_alias_review W H reviewable_snapshot retire_plan ''ok'' reviewable_db = Inr (pv_outcome pv, ?s)"
    using after fresh unfolding apply_legacy_alias_review_def id Let_def pv reviewable_from_tables bindR_simps
    by (simp add: reviewable_guard)
  then show thesis by (rule that)
qed

end
