(* ===== verification/Rule_Properties.thy ===== *)
theory Rule_Properties
  imports Rule_Review_Samples
begin

text \<open>
  The properties of repository rules, source receipts, ownership snapshots and reviewed adoption.
\<close>

section \<open>Manual edits\<close>

lemma guard_manual:
  assumes "guard_mutation R h p [rid] None s = Inr u"
  shows "receipt_row p (RECEIPT_PREFIX @ sx) s = Some raw \<Longrightarrow>
      \<exists>c. decode_receipt R h (RECEIPT_PREFIX @ sx) raw = Inr c \<and> \<not> claims_rule c rid"
    and "fmlookup (repo_rules s) (composite p rid) = Some raw \<Longrightarrow>
      \<exists>r. from_slice (rule_json R) raw = Some r \<and> rule_source r = None"
  using guard_mutation_Inr(1,3) [OF assms] by (auto simp: claims_rule_def owner_of_def guard_row_manual)

text \<open>
  C6. A manual edit, an insertion or a deletion of a rule, succeeds only if every receipt of
  the project is readable and valid and none claims the rule, and the stored row, if there is one,
  does not name a source as its provenance. It then changes this one row and nothing else.
\<close>

theorem manual_edits_respect_ownership:
  assumes "put_repo_rule R h p r s = Inr ((), t) \<and> rid = rule_id r \<or> delete_repo_rule R h p rid s = Inr ((), t)"
  shows "(\<forall>sx raw. fmlookup (meta s) (composite p (RECEIPT_PREFIX @ sx)) = Some raw \<longrightarrow>
      (\<exists>c. decode_receipt R h (RECEIPT_PREFIX @ sx) raw = Inr c \<and> \<not> claims_rule c rid))
    \<and> (\<forall>raw. fmlookup (repo_rules s) (composite p rid) = Some raw \<longrightarrow>
      (\<exists>old. from_slice (rule_json R) raw = Some old \<and> rule_source old = None))
    \<and> t\<lparr>repo_rules := repo_rules s\<rparr> = s
    \<and> (\<forall>k. k \<noteq> composite p rid \<longrightarrow> fmlookup (repo_rules t) k = fmlookup (repo_rules s) k)"
proof (intro conjI)
  have g: "guard_mutation R h p [rid] None s = Inr ()"
    using assms by (auto simp: put_repo_rule_def delete_repo_rule_def)
  show "\<forall>sx raw. fmlookup (meta s) (composite p (RECEIPT_PREFIX @ sx)) = Some raw \<longrightarrow>
      (\<exists>c. decode_receipt R h (RECEIPT_PREFIX @ sx) raw = Inr c \<and> \<not> claims_rule c rid)"
    using guard_manual(1) [OF g] by blast
  show "\<forall>raw. fmlookup (repo_rules s) (composite p rid) = Some raw \<longrightarrow>
      (\<exists>old. from_slice (rule_json R) raw = Some old \<and> rule_source old = None)"
    using guard_manual(2) [OF g] by blast
qed (use assms in \<open>auto simp: put_repo_rule_def delete_repo_rule_def\<close>)

theorem manual_edits_respect_ownership_witness:
  "delete_repo_rule W H ''p'' ''r'' legacy_db = Inr ((), legacy_db\<lparr>repo_rules := fmempty\<rparr>)
    \<and> (\<exists>raw old. fmlookup (repo_rules legacy_db) (composite ''p'' ''r'') = Some raw
      \<and> from_slice (rule_json W) raw = Some old \<and> rule_source old = None)"
  using manual_edits_respect_ownership [of W H "''p''" _ legacy_db "legacy_db\<lparr>repo_rules := fmempty\<rparr>" "''r''", THEN conjunct2, THEN conjunct1] delete_legacy_run
  by (auto simp: legacy_db_def)

section \<open>Publication\<close>

text \<open>
  C7. A successful publication of a source establishes exactly what its receipt claims: the
  receipt is stored under the source's key, every rule it claims is the stored rule, removed rules
  are gone, and no other row of the rule table or of the metadata changes. The receipt it replaced
  is the one the caller expected.
\<close>

theorem publication_exact:
  assumes ok: "rule_codecs_ok R" and source: "prefix RECEIPT_PREFIX key"
    and pub: "publish_repo_rule_source R h p expected removed upsert key expected_receipt receipt s = Inr ((), t)"
  shows "(\<exists>c. decode_receipt R h key receipt = Inr c \<and> \<not> receipt_pending c
      \<and> (\<forall>r \<in> set (receipt_rules c). stored_rule R p (repo_rules t) (rule_id r) = Inr (Some r)
           \<and> rule_source r = Some (receipt_origin c)))
    \<and> fmlookup (meta s) (composite p key) = Some expected_receipt
    \<and> meta t = fmupd (composite p key) receipt (meta s)
    \<and> (\<forall>rid \<in> set removed - rule_id ` set upsert. fmlookup (repo_rules t) (composite p rid) = None)
    \<and> (\<forall>k. k \<notin> composite p ` (set removed \<union> rule_id ` set upsert) \<longrightarrow> fmlookup (repo_rules t) k = fmlookup (repo_rules s) k)
    \<and> t\<lparr>repo_rules := repo_rules s, meta := meta s\<rparr> = s"
proof (intro conjI)
  obtain c rows where e: "decode_receipt R h key receipt = Inr c" "check_publication c upsert = Inr ()"
    "\<And>r. r \<in> set (receipt_rules c) \<Longrightarrow> check_claim R p removed upsert (repo_rules s) r = Inr ()"
    "receipt_row p key s = Some expected_receipt"
    "upsert_rules R p upsert (remove_rules p removed upsert (repo_rules s)) = Inr rows"
    "t = s\<lparr>repo_rules := rows, meta := fmupd (composite p key) receipt (meta s)\<rparr>"
    by (rule publication_cases [OF pub source]) blast
  have dist: "distinct (map rule_id (receipt_rules c))" using e(1) by (simp add: decode_receipt_Inr receipt_ok_def)
  have owned: "set upsert \<subseteq> set (receipt_rules c)" "\<not> receipt_pending c"
    "\<And>r. r \<in> set (receipt_rules c) \<Longrightarrow> rule_source r = Some (receipt_origin c)"
    using e(2) by (auto simp: check_publication_def rule_source_def strip_prefix_def)
  have stored: "stored_rule R p (repo_rules t) (rule_id r) = Inr (Some r)" if r: "r \<in> set (receipt_rules c)" for r
  proof (cases "rule_id r \<in> rule_id ` set upsert")
    case True
    then obtain a where a: "a \<in> set upsert" "rule_id a = rule_id r" by auto
    have same: "\<And>b. b \<in> set upsert \<Longrightarrow> rule_id b = rule_id r \<Longrightarrow> b = r"
      using owned(1) dist r by (auto simp: distinct_map dest: inj_onD)
    with a upsert_rules_Inr(2) [OF ok e(5), of r] show ?thesis by (auto simp: e(6))
  next
    case False
    then have "find (\<lambda>a. rule_id a = rule_id r) upsert = None" by (force simp: find_None_iff image_iff)
    with e(3) [OF r] have "rule_id r \<notin> set removed" "stored_rule R p (repo_rules s) (rule_id r) = Inr (Some r)"
      by (simp_all add: check_claim_Inr)
    with False upsert_rules_Inr(1) [OF ok e(5), of "composite p (rule_id r)"] show ?thesis
      by (auto simp: stored_rule_def remove_rules_lookup e(6) image_iff)
  qed
  show "\<exists>c. decode_receipt R h key receipt = Inr c \<and> \<not> receipt_pending c
      \<and> (\<forall>r \<in> set (receipt_rules c). stored_rule R p (repo_rules t) (rule_id r) = Inr (Some r)
           \<and> rule_source r = Some (receipt_origin c))"
    using e(1) owned(2,3) stored by blast
  show "\<forall>rid \<in> set removed - rule_id ` set upsert. fmlookup (repo_rules t) (composite p rid) = None"
    using upsert_rules_Inr(1) [OF ok e(5)] by (auto simp: remove_rules_lookup e(6) image_iff)
  show "\<forall>k. k \<notin> composite p ` (set removed \<union> rule_id ` set upsert) \<longrightarrow> fmlookup (repo_rules t) k = fmlookup (repo_rules s) k"
  proof (intro allI impI)
    fix k
    assume "k \<notin> composite p ` (set removed \<union> rule_id ` set upsert)"
    then have "k \<notin> composite p ` rule_id ` set upsert" "k \<notin> composite p ` (set removed - rule_id ` set upsert)" by blast+
    with upsert_rules_Inr(1) [OF ok e(5)] show "fmlookup (repo_rules t) k = fmlookup (repo_rules s) k"
      by (simp add: remove_rules_lookup e(6))
  qed
  show "fmlookup (meta s) (composite p key) = Some expected_receipt"
    and "meta t = fmupd (composite p key) receipt (meta s)"
    and "t\<lparr>repo_rules := repo_rules s, meta := meta s\<rparr> = s"
    using e(4,6) by simp_all
qed

theorem publication_exact_witness:
  "\<exists>t. publish_repo_rule_source W H ''p'' [] [] [source_rule] sample_key (enc (sample_receipt True [] []))
      (enc (sample_receipt False [source_rule] [])) importing_db = Inr ((), t)
    \<and> stored_rule W ''p'' (repo_rules t) ''r'' = Inr (Some source_rule)"
proof -
  obtain t where t: "publish_repo_rule_source W H ''p'' [] [] [source_rule] sample_key (enc (sample_receipt True [] []))
    (enc (sample_receipt False [source_rule] [])) importing_db = Inr ((), t)" by (rule source_publish_run)
  from publication_exact [OF wire_rules_ok prefix_sample_key t, THEN conjunct1] t show ?thesis
    by auto
qed

text \<open>
  A publication never overwrites or retires a row it does not own: every stored row it
  removes, replaces or claims was claimed, in exactly its stored form, by the receipt that the
  publication replaces, and equals the caller's snapshot of it if it is removed or replaced.
\<close>

theorem publication_touches_only_owned_rows:
  assumes "prefix RECEIPT_PREFIX key"
    and "publish_repo_rule_source R h p expected removed upsert key expected_receipt receipt s = Inr ((), t)"
    and "rid \<in> set removed \<union> rule_id ` set upsert" and "fmlookup (repo_rules s) (composite p rid) = Some raw"
  shows "\<exists>prior old. decode_receipt R h key expected_receipt = Inr prior \<and> from_slice (rule_json R) raw = Some old
    \<and> old \<in> set (receipt_rules prior) \<and> rule_source old = Some (receipt_origin prior)
    \<and> find (\<lambda>r. rule_id r = rid) expected = Some old"
proof (rule publication_cases [OF assms(2,1)])
  fix c
  assume g: "guard_mutation R h p (btree_set (removed @ map rule_id upsert @ map rule_id (receipt_rules c))) (Some key) s = Inr ()"
    and receipt: "receipt_row p key s = Some expected_receipt"
    and snapshot: "\<And>rid. rid \<in> set removed \<union> rule_id ` set upsert
      \<Longrightarrow> stored_rule R p (repo_rules s) rid = Inr (find (\<lambda>r. rule_id r = rid) expected)"
  have affected: "rid \<in> set (btree_set (removed @ map rule_id upsert @ map rule_id (receipt_rules c)))"
    using assms(3) by auto
  show ?thesis
  proof (rule guard_publisher [OF g assms(1)])
    fix prior raw0
    assume prior: "receipt_row p key s = Some raw0" "decode_receipt R h key raw0 = Inr prior"
      and rows: "\<And>rid raw. rid \<in> set (btree_set (removed @ map rule_id upsert @ map rule_id (receipt_rules c))) \<Longrightarrow>
        fmlookup (repo_rules s) (composite p rid) = Some raw \<Longrightarrow>
        \<exists>r \<in> set (receipt_rules prior). from_slice (rule_json R) raw = Some r \<and> rule_source r = Some (receipt_origin prior)"
    from rows [OF affected assms(4)] prior receipt snapshot [OF assms(3)] assms(4) show ?thesis
      by (auto simp: stored_rule_def)
  qed
qed

theorem publication_touches_only_owned_rows_witness:
  "\<exists>t. publish_repo_rule_source W H ''p'' [source_rule] [''r''] [] sample_key (enc (sample_receipt True [source_rule] []))
      (enc (sample_receipt False [] [])) owned_db = Inr ((), t)
    \<and> (\<exists>raw old. fmlookup (repo_rules owned_db) (composite ''p'' ''r'') = Some raw
        \<and> from_slice (rule_json W) raw = Some old \<and> rule_source old = Some ''rules.md'')"
proof -
  obtain t where t: "publish_repo_rule_source W H ''p'' [source_rule] [''r''] [] sample_key (enc (sample_receipt True [source_rule] []))
      (enc (sample_receipt False [] [])) owned_db = Inr ((), t)" by (rule retire_run)
  have raw: "fmlookup (repo_rules owned_db) (composite ''p'' ''r'') = Some (to_vec (rule_json W) source_rule)"
    by (simp add: owned_db_def)
  from publication_touches_only_owned_rows [OF prefix_sample_key t _ raw] t raw show ?thesis by auto
qed

section \<open>Snapshots\<close>

text \<open>
  C8. An ownership snapshot is exact or refused: it is taken if and only if the project exists and its
  inventory is within the limits, and then it holds exactly the project's rule rows and receipts,
  its identity epoch and its corpus revision, byte for byte.
\<close>

theorem snapshot_exact_or_refused:
  "snapshot_rule_ownership p s = Inr snap \<longleftrightarrow> key_ok p \<and> snapshot_fits snap
     \<and> (\<exists>praw. fmlookup (projects s) p = Some praw \<and> snap = exact_snapshot p praw (repo_rules s) (meta s))"
  by (auto simp: snapshot_rule_ownership_def from_tables_iff)

section \<open>Adoption\<close>

text \<open>
  The staleness guards compare BLAKE3 digests. Two streams collide when they differ and have the
  same digest; that the two streams a guard compares do not collide is a hypothesis on the hash
  alone, and says nothing about what the code puts into the streams.
\<close>

definition collide :: "(bytes \<Rightarrow> string) \<Rightarrow> bytes \<Rightarrow> bytes \<Rightarrow> bool" where
  "collide h x y \<longleftrightarrow> x \<noteq> y \<and> h x = h y"

abbreviation basis_stream :: "rule_codecs \<Rightarrow> project_record \<Rightarrow> rule_ownership_snapshot \<Rightarrow> bytes" where
  "basis_stream R project snap \<equiv>
     (''engram:rule-adoption-basis:v1'' @ [NUL]) @ basis_bytes R (adoption_basis_of project snap)"

abbreviation snapshot_stream :: "rule_codecs \<Rightarrow> rule_ownership_snapshot \<Rightarrow> bytes" where
  "snapshot_stream R snap \<equiv> (''engram:rule-ownership-snapshot:v1'' @ [NUL]) @ snapshot_bytes R snap"

definition basis_collision_free :: "rule_codecs \<Rightarrow> (bytes \<Rightarrow> string) \<Rightarrow> rule_ownership_snapshot \<Rightarrow> db \<Rightarrow> bool" where
  "basis_collision_free R h expected s \<longleftrightarrow>
     (\<forall>current pc pe. from_tables (snap_project_id expected) (projects s) (repo_rules s) (meta s) = Inr current
        \<and> snap_project R current = Inr pc \<and> snap_project R expected = Inr pe
        \<longrightarrow> \<not> collide h (basis_stream R pc current) (basis_stream R pe expected))"

text \<open>A basis with the digest of the reviewed one holds the same rules, receipts and raw metadata.\<close>

lemma equal_digests_equal_bases:
  assumes "streams_ok R" and "basis_collision_free R h expected s"
    and "from_tables (snap_project_id expected) (projects s) (repo_rules s) (meta s) = Inr current"
    and "adoption_basis_digest R h current = Inr digest" and "adoption_basis_digest R h expected = Inr digest"
  shows "snap_rules current = snap_rules expected" and "snap_receipts current = snap_receipts expected"
    and "identity_epoch_raw current = identity_epoch_raw expected"
    and "corpus_revision_raw current = corpus_revision_raw expected"
proof -
  obtain pc pe where p: "snap_project R current = Inr pc" "snap_project R expected = Inr pe"
    and eq: "h (basis_stream R pc current) = h (basis_stream R pe expected)"
    using assms(4,5) by (auto simp: adoption_basis_digest_def hash_value_def)
  have "\<not> collide h (basis_stream R pc current) (basis_stream R pe expected)"
    using assms(2,3) p unfolding basis_collision_free_def by blast
  with eq have "basis_stream R pc current = basis_stream R pe expected" by (simp add: collide_def)
  then have "adoption_basis_of pc current = adoption_basis_of pe expected"
    using streams_okD(2) [OF assms(1)] by simp
  then show "snap_rules current = snap_rules expected" "snap_receipts current = snap_receipts expected"
    "identity_epoch_raw current = identity_epoch_raw expected"
    "corpus_revision_raw current = corpus_revision_raw expected"
    by (simp_all add: adoption_basis_of_def)
qed

text \<open>
  C12. An adoption changes nothing of a rule but its provenance: each mapped row keeps every raw field
  except the provenance, and every rule field except the provenance, which now names the source.
  All other rows are untouched. The receipt of the source, no longer pending, claims every mapped
  rule; besides it and the new audit entry no metadata changes. The caller's snapshot may be stale:
  a successful adoption shows that the rules, the receipts, the identity epoch and the corpus
  revision are still the reviewed ones. This rests on two facts about code outside the repository:
  the serialised basis determines the basis (\<open>streams_ok\<close>), and BLAKE3 does not collide on the two
  streams that the guard compares (\<open>basis_collision_free\<close>).
\<close>

theorem adoption_changes_only_provenance:
  assumes ok: "rule_codecs_ok R" and streams: "streams_ok R" and free: "basis_collision_free R h expected s"
    and adopt: "adopt_legacy_repo_rules R h expected plan decision_ref s = Inr (out, t)"
    and p: "p = snap_project_id expected" and key: "key = source_key h (ap_origin plan)"
  shows "(\<exists>current. from_tables p (projects s) (repo_rules s) (meta s) = Inr current
      \<and> snap_rules current = snap_rules expected \<and> snap_receipts current = snap_receipts expected
      \<and> identity_epoch_raw current = identity_epoch_raw expected \<and> corpus_revision_raw current = corpus_revision_raw expected)
    \<and> (\<forall>rid \<in> ab_rule_id ` set (ap_bindings plan). \<exists>raw raw'. fmlookup (repo_rules s) (composite p rid) = Some raw
      \<and> fmlookup (repo_rules t) (composite p rid) = Some raw' \<and> adopted_row R (ap_origin plan) raw raw')
    \<and> (\<forall>k. k \<notin> composite p ` ab_rule_id ` set (ap_bindings plan) \<longrightarrow> fmlookup (repo_rules t) k = fmlookup (repo_rules s) k)
    \<and> (\<exists>raw c. fmlookup (meta t) (composite p key) = Some raw \<and> decode_receipt R h key raw = Inr c \<and> \<not> receipt_pending c
      \<and> (\<forall>rid \<in> ab_rule_id ` set (ap_bindings plan). claims_rule c rid))
    \<and> (\<forall>k. k \<notin> {composite p key, composite p (ao_audit_key out)} \<longrightarrow> fmlookup (meta t) k = fmlookup (meta s) k)
    \<and> fmlookup (meta s) (composite p (ao_audit_key out)) = None
    \<and> t\<lparr>repo_rules := repo_rules s, meta := meta s\<rparr> = s"
proof (intro conjI)
  obtain pr where prep: "prepare_adoption R h expected plan decision_ref = Inr pr"
    and commit: "commit_legacy_adoption R h expected pr False s = Inr (out, t)"
    using adopt by (auto simp: adopt_legacy_repo_rules_def)
  obtain c where pb: "prepared_by R h expected plan pr c" using prepare_adoption_Inr [OF ok prep] by blast
  note c = prepared_byD(1-5,7,8) [OF pb, folded key]
  obtain current digest where cur: "from_tables p (projects s) (repo_rules s) (meta s) = Inr current"
      "adoption_basis_digest R h current = Inr digest" "adoption_basis_digest R h expected = Inr digest"
    and out: "out = pr_outcome pr" and t: "t = s\<lparr>repo_rules := put_rows p (iter (pr_rows pr)) (repo_rules s),
        meta := fmupd (composite p (pr_audit_key pr)) (pr_audit pr) (fmupd (composite p (pr_receipt_key pr)) (pr_receipt pr) (meta s))\<rparr>"
    and fresh: "fmlookup (meta s) (composite p (pr_audit_key pr)) = None"
    by (rule commit_adoption_Inr [OF commit]) (simp add: p)
  note same = equal_digests_equal_bases [OF streams free cur [unfolded p]]
  show "\<exists>current. from_tables p (projects s) (repo_rules s) (meta s) = Inr current
      \<and> snap_rules current = snap_rules expected \<and> snap_receipts current = snap_receipts expected
      \<and> identity_epoch_raw current = identity_epoch_raw expected \<and> corpus_revision_raw current = corpus_revision_raw expected"
    using cur(1) same by blast
  have rules: "fmlookup (snap_rules expected) rid = fmlookup (repo_rules s) (composite p rid)" for rid
  proof -
    have "snap_rules current = snap_rules expected" by (rule same(1))
    moreover have "snap_rules current = subtable (p @ [NUL]) [] (repo_rules s)"
      using cur(1) by (auto simp: from_tables_iff exact_snapshot_def)
    ultimately show ?thesis using subtable_rules [of p "repo_rules s" rid] by simp
  qed
  show "\<forall>rid \<in> ab_rule_id ` set (ap_bindings plan). \<exists>raw raw'. fmlookup (repo_rules s) (composite p rid) = Some raw
      \<and> fmlookup (repo_rules t) (composite p rid) = Some raw' \<and> adopted_row R (ap_origin plan) raw raw'"
  proof
    fix rid
    assume "rid \<in> ab_rule_id ` set (ap_bindings plan)"
    from c(7) [OF this] obtain raw raw' where r: "fmlookup (pr_rows pr) rid = Some raw'"
      "fmlookup (snap_rules expected) rid = Some raw" "adopted_row R (ap_origin plan) raw raw'" by blast
    moreover have "fmlookup (repo_rules t) (composite p rid) = Some raw'" using r(1) by (simp add: t put_rows_lookup)
    ultimately show "\<exists>raw raw'. fmlookup (repo_rules s) (composite p rid) = Some raw
      \<and> fmlookup (repo_rules t) (composite p rid) = Some raw' \<and> adopted_row R (ap_origin plan) raw raw'"
      using rules by auto
  qed
  show "\<forall>k. k \<notin> composite p ` ab_rule_id ` set (ap_bindings plan) \<longrightarrow> fmlookup (repo_rules t) k = fmlookup (repo_rules s) k"
    unfolding c(5) [symmetric] by (simp add: t put_rows_lookup(2))
  have "\<forall>rid \<in> ab_rule_id ` set (ap_bindings plan). claims_rule c rid"
    using c(7) unfolding claims_rule_def by blast
  moreover have "key \<noteq> pr_audit_key pr" using c(4) by (auto simp: key source_key_def RECEIPT_PREFIX_def)
  then have "fmlookup (meta t) (composite p key) = Some (pr_receipt pr)" by (simp add: t c(3))
  ultimately show "\<exists>raw c. fmlookup (meta t) (composite p key) = Some raw \<and> decode_receipt R h key raw = Inr c \<and> \<not> receipt_pending c
      \<and> (\<forall>rid \<in> ab_rule_id ` set (ap_bindings plan). claims_rule c rid)" using c(1,2,3) by auto
  show "\<forall>k. k \<notin> {composite p key, composite p (ao_audit_key out)} \<longrightarrow> fmlookup (meta t) k = fmlookup (meta s) k"
    and "fmlookup (meta s) (composite p (ao_audit_key out)) = None" and "t\<lparr>repo_rules := repo_rules s, meta := meta s\<rparr> = s"
    using c(3,6) fresh by (simp_all add: t out)
qed

theorem adoption_changes_only_provenance_witness:
  "\<exists>out t. adopt_legacy_repo_rules W H adoptable_snapshot sample_plan ''ok'' adoptable_db = Inr (out, t)
    \<and> (\<exists>raw'. fmlookup (repo_rules t) (composite ''p'' ''r'') = Some raw'
        \<and> adopted_row W ''rules.md'' (rule_bytes legacy_rule) raw')"
proof -
  have id: "snap_project_id adoptable_snapshot = ''p''" by (simp add: adoptable_snapshot_def)
  have free: "basis_collision_free W H adoptable_snapshot adoptable_db"
    by (auto simp: basis_collision_free_def collide_def id adoptable_from_tables)
  obtain out t where run: "adopt_legacy_repo_rules W H adoptable_snapshot sample_plan ''ok'' adoptable_db = Inr (out, t)"
    by (rule adoption_run)
  have "\<exists>raw raw'. fmlookup (repo_rules adoptable_db) (composite ''p'' ''r'') = Some raw
      \<and> fmlookup (repo_rules t) (composite ''p'' ''r'') = Some raw' \<and> adopted_row W ''rules.md'' raw raw'"
    using adoption_changes_only_provenance [OF wire_rules_ok wire_streams_ok free run refl refl, THEN conjunct2, THEN conjunct1] by (simp add: id) (simp add: sample_plan_def)
  with run show ?thesis by (auto simp: adoptable_db_def)
qed

text \<open>
  A reviewed adoption that was previewed on a current snapshot commits, with the previewed
  outcome, unless the same decision was already recorded: the budget checked in the preparation is
  the one the final inventory has to meet, so the transaction cannot fail after its writes.
\<close>

theorem adoption_commits_when_current:
  assumes ok: "rule_codecs_ok R" and hex: "\<And>x. length (h x) = 64"
    and snap: "snapshot_rule_ownership p s = Inr snap"
    and preview: "preview_legacy_repo_rule_adoption R h snap plan decision_ref = Inr out"
    and fresh: "fmlookup (meta s) (composite p (ao_audit_key out)) = None"
  shows "\<exists>t. adopt_legacy_repo_rules R h snap plan decision_ref s = Inr (out, t)"
proof -
  obtain pr where prep: "prepare_adoption R h snap plan decision_ref = Inr pr" and out: "out = pr_outcome pr"
    using preview by (auto simp: preview_legacy_repo_rule_adoption_def)
  from commit_when_current [OF ok hex _ prep] snap fresh out prep show ?thesis
    by (auto simp: adopt_legacy_repo_rules_def snapshot_rule_ownership_def)
qed

theorem adoption_commits_when_current_witness:
  "\<exists>out t. preview_legacy_repo_rule_adoption W H adoptable_snapshot sample_plan ''ok'' = Inr out
    \<and> adopt_legacy_repo_rules W H adoptable_snapshot sample_plan ''ok'' adoptable_db = Inr (out, t)"
proof -
  obtain pr where pr: "prepare_adoption W H adoptable_snapshot sample_plan ''ok'' = Inr pr" by (rule prepared_sample)
  have snap: "snapshot_rule_ownership ''p'' adoptable_db = Inr adoptable_snapshot"
    by (simp add: snapshot_rule_ownership_def adoptable_from_tables)
  have preview: "preview_legacy_repo_rule_adoption W H adoptable_snapshot sample_plan ''ok'' = Inr (pr_outcome pr)"
    by (simp add: preview_legacy_repo_rule_adoption_def pr)
  from adoption_commits_when_current [OF wire_rules_ok _ snap preview adoptable_fresh [OF pr]] preview show ?thesis by auto
qed

section \<open>Alias review\<close>

definition snapshot_collision_free :: "rule_codecs \<Rightarrow> (bytes \<Rightarrow> string) \<Rightarrow> rule_ownership_snapshot \<Rightarrow> db \<Rightarrow> bool" where
  "snapshot_collision_free R h expected s \<longleftrightarrow>
     (\<forall>current. from_tables (snap_project_id expected) (projects s) (repo_rules s) (meta s) = Inr current
        \<longrightarrow> \<not> collide h (snapshot_stream R current) (snapshot_stream R expected))"

lemma equal_digests_equal_snapshots:
  assumes "streams_ok R" and "snapshot_collision_free R h expected s"
    and "from_tables (snap_project_id expected) (projects s) (repo_rules s) (meta s) = Inr current"
    and "snapshot_digest R h current = snapshot_digest R h expected"
  shows "current = expected"
proof -
  have "\<not> collide h (snapshot_stream R current) (snapshot_stream R expected)"
    using assms(2,3) unfolding snapshot_collision_free_def by blast
  with assms(4) have "snapshot_stream R current = snapshot_stream R expected"
    by (simp add: collide_def snapshot_digest_def hash_value_def)
  then show ?thesis using streams_okD(1) [OF assms(1)] by simp
qed

lemma fold_fmdrop_composite:
  "fmlookup (fold (\<lambda>rid. fmdrop (composite p rid)) rids t) k = (if k \<in> composite p ` set rids then None else fmlookup t k)"
  by (induction rids arbitrary: t) auto

lemma apply_review_Inr:
  assumes "apply_legacy_alias_review R h expected plan decision_ref s = Inr (out, t)"
  obtains pv current where "prepare_review R h expected plan decision_ref = Inr pv"
    "from_tables (snap_project_id expected) (projects s) (repo_rules s) (meta s) = Inr current"
    "snapshot_digest R h current = snapshot_digest R h expected" "out = pv_outcome pv"
    "t = s\<lparr>repo_rules := fold (\<lambda>rid. fmdrop (composite (snap_project_id expected) rid)) (pv_remove pv) (repo_rules s),
        meta := fmupd (composite (snap_project_id expected) (ro_audit_key (pv_outcome pv))) (pv_audit pv)
          (fmupd (composite (snap_project_id expected) (pv_receipt_key pv)) (pv_receipt pv) (meta s))\<rparr>"
  using assms by (auto simp: apply_legacy_alias_review_def Let_def)

text \<open>
  C13. An alias review removes exactly the rules it retires and rewrites no other rule row. The
  receipt of the source waits for a new import and claims exactly the rules that were not retired;
  its other fields are kept. Its aliases are the unselected aliases, all of them and in their order,
  followed by one rebound alias for each selected rule that is not retired: an alias of the same
  rule under the parser identity that the plan names, with the policy of the alias it replaces.
  Besides the receipt and the audit entry no metadata changes. As for an adoption, the stale-snapshot
  guard rests on the serialised snapshot determining the snapshot and on BLAKE3 not colliding on the
  two streams it compares.
\<close>

theorem review_retires_only_selected:
  assumes ok: "rule_codecs_ok R" and streams: "streams_ok R" and free: "snapshot_collision_free R h expected s"
    and applied: "apply_legacy_alias_review R h expected plan decision_ref s = Inr (out, t)"
    and p: "p = snap_project_id expected" and key: "key = source_key h (rp_origin plan)"
    and retired: "retired = rb_rule_id ` {b \<in> set (rp_bindings plan). rb_disposition b = Retire}"
  shows "from_tables p (projects s) (repo_rules s) (meta s) = Inr expected
    \<and> (\<forall>k. fmlookup (repo_rules t) k = (if k \<in> composite p ` retired then None else fmlookup (repo_rules s) k))
    \<and> (\<exists>raw raw' c c' rebound. fmlookup (meta s) (composite p key) = Some raw \<and> decode_receipt R h key raw = Inr c
      \<and> fmlookup (meta t) (composite p key) = Some raw' \<and> decode_receipt R h key raw' = Inr c'
      \<and> c' = c\<lparr>receipt_pending := True,
           legacy_aliases := filter (\<lambda>a. alias_rule_id a \<notin> rb_rule_id ` set (rp_bindings plan)) (legacy_aliases c) @ rebound,
           receipt_rules := filter (\<lambda>r. rule_id r \<notin> retired) (receipt_rules c)\<rparr>
      \<and> list_all2 (rebinds R (rp_origin plan) (legacy_aliases c)) (kept_bindings (rp_bindings plan)) rebound)
    \<and> (\<forall>k. k \<notin> {composite p key, composite p (ro_audit_key out)} \<longrightarrow> fmlookup (meta t) k = fmlookup (meta s) k)
    \<and> set (ro_retired_rule_ids out) = retired
    \<and> t\<lparr>repo_rules := repo_rules s, meta := meta s\<rparr> = s"
proof (intro conjI)
  obtain pv current where prep: "prepare_review R h expected plan decision_ref = Inr pv"
    and cur: "from_tables p (projects s) (repo_rules s) (meta s) = Inr current" "snapshot_digest R h current = snapshot_digest R h expected"
    and out: "out = pv_outcome pv"
    and t: "t = s\<lparr>repo_rules := fold (\<lambda>rid. fmdrop (composite p rid)) (pv_remove pv) (repo_rules s),
        meta := fmupd (composite p (ro_audit_key (pv_outcome pv))) (pv_audit pv)
          (fmupd (composite p (pv_receipt_key pv)) (pv_receipt pv) (meta s))\<rparr>"
    by (rule apply_review_Inr [OF applied]) (simp add: p)
  obtain c c' where pb: "review_prepared_by R h expected plan pv c c'" using prepare_review_Inr [OF ok prep] by blast
  have ret: "retired = retired_ids (rp_bindings plan)" by (simp add: retired retired_ids_def)
  note pb' = pb [unfolded review_prepared_by_def, folded key ret]
  have k: "pv_receipt_key pv = key" and rem: "set (pv_remove pv) = retired" "set (ro_retired_rule_ids (pv_outcome pv)) = retired"
    and aud: "\<exists>digest. ro_audit_key (pv_outcome pv) = ''quality_alias_review:'' @ digest"
    using pb' by blast+
  have same: "current = expected" by (rule equal_digests_equal_snapshots [OF streams free cur [unfolded p]])
  show "from_tables p (projects s) (repo_rules s) (meta s) = Inr expected" using cur(1) same by simp
  from same have snap: "snap_receipts expected = subtable (composite p RECEIPT_PREFIX) RECEIPT_PREFIX (meta s)"
    using cur(1) by (auto simp: from_tables_iff exact_snapshot_def)
  obtain before where "fmlookup (snap_receipts expected) key = Some before" "decode_receipt R h key before = Inr c"
    using pb' k by auto
  then have before: "fmlookup (meta s) (composite p key) = Some before" "decode_receipt R h key before = Inr c"
    unfolding snap by (simp_all add: key source_key_def)
  have "key \<noteq> ro_audit_key (pv_outcome pv)" using aud by (auto simp: key source_key_def RECEIPT_PREFIX_def)
  then have after: "fmlookup (meta t) (composite p key) = Some (pv_receipt pv)" "decode_receipt R h key (pv_receipt pv) = Inr c'"
    using pb' k by (simp_all add: t)
  show "\<forall>k. fmlookup (repo_rules t) k = (if k \<in> composite p ` retired then None else fmlookup (repo_rules s) k)"
    by (simp add: t fold_fmdrop_composite rem)
  obtain rebound where c': "c' = c\<lparr>receipt_pending := True,
      legacy_aliases := filter (\<lambda>a. alias_rule_id a \<notin> rb_rule_id ` set (rp_bindings plan)) (legacy_aliases c) @ rebound,
      receipt_rules := filter (\<lambda>r. rule_id r \<notin> retired) (receipt_rules c)\<rparr>"
    "list_all2 (rebinds R (rp_origin plan) (legacy_aliases c)) (kept_bindings (rp_bindings plan)) rebound" using pb' by blast
  with before after show "\<exists>raw raw' c c' rebound. fmlookup (meta s) (composite p key) = Some raw \<and> decode_receipt R h key raw = Inr c
      \<and> fmlookup (meta t) (composite p key) = Some raw' \<and> decode_receipt R h key raw' = Inr c'
      \<and> c' = c\<lparr>receipt_pending := True,
           legacy_aliases := filter (\<lambda>a. alias_rule_id a \<notin> rb_rule_id ` set (rp_bindings plan)) (legacy_aliases c) @ rebound,
           receipt_rules := filter (\<lambda>r. rule_id r \<notin> retired) (receipt_rules c)\<rparr>
      \<and> list_all2 (rebinds R (rp_origin plan) (legacy_aliases c)) (kept_bindings (rp_bindings plan)) rebound" by blast
  show "\<forall>k. k \<notin> {composite p key, composite p (ro_audit_key out)} \<longrightarrow> fmlookup (meta t) k = fmlookup (meta s) k"
    and "set (ro_retired_rule_ids out) = retired" and "t\<lparr>repo_rules := repo_rules s, meta := meta s\<rparr> = s"
    using k rem by (simp_all add: t out)
qed

theorem review_retires_only_selected_witness:
  "\<exists>out t. apply_legacy_alias_review W H reviewable_snapshot retire_plan ''ok'' reviewable_db = Inr (out, t)
    \<and> fmlookup (repo_rules reviewable_db) (composite ''p'' ''r'') \<noteq> None \<and> fmlookup (repo_rules t) (composite ''p'' ''r'') = None"
proof -
  have id: "snap_project_id reviewable_snapshot = ''p''" by (simp add: reviewable_snapshot_def)
  have free: "snapshot_collision_free W H reviewable_snapshot reviewable_db"
    by (simp add: snapshot_collision_free_def collide_def id reviewable_from_tables)
  obtain out t where run: "apply_legacy_alias_review W H reviewable_snapshot retire_plan ''ok'' reviewable_db = Inr (out, t)"
    by (rule review_run)
  have retired: "rb_rule_id ` {b \<in> set (rp_bindings retire_plan). rb_disposition b = Retire} = {''r''}"
    using retire_plan_sel(4-6) by fastforce
  have "fmlookup (repo_rules t) (composite ''p'' ''r'') = None"
    using review_retires_only_selected [OF wire_rules_ok wire_streams_ok free run id [symmetric] refl retired [symmetric],
        THEN conjunct2, THEN conjunct1] by simp
  with run show ?thesis by (auto simp: reviewable_db_def)
qed

end
