(* ===== verification/Chunking.thy ===== *)
theory Chunking
  imports Identity "HOL-Library.Finite_Map"
begin

text \<open>
  Chunking of source text (\<open>engram_index/src/chunking.rs\<close>): the line loop of
  \<open>semantic_chunk_lines\<close> with its symbol look-ahead, the chunk builder and the overlap pass. Text is
  bytes, line numbers are \<open>u32\<close> as in the code, indices are \<open>usize\<close>. The loop is a partial
  function: it need not end when a symbol ends before it starts. Metadata maps are finite maps.
\<close>

section \<open>Data\<close>

record extracted_symbol =
  sym_name :: string
  sym_kind :: string
  sym_start_line :: "32 word"
  sym_end_line :: "32 word"
  sym_metadata :: "(string, string) fmap option"

record chunk =
  start_line :: "32 word"
  end_line :: "32 word"
  content :: bytes
  content_hash :: string
  doc_id :: string
  enclosing_symbol :: "string option"

definition OVERLAP_LINES :: nat where "OVERLAP_LINES = 5"

definition set_doc_id :: "(bytes \<Rightarrow> string) \<Rightarrow> string \<Rightarrow> chunk \<Rightarrow> chunk" where
  "set_doc_id blake3 rel_path c =
     c\<lparr>doc_id := doc_id_compute blake3 rel_path (start_line c) (end_line c) (content_hash c)\<rparr>"

section \<open>Lines\<close>

text \<open>\<open>str::lines\<close>: pieces that end at a newline, which is dropped with a carriage return before it.\<close>

fun split_inclusive :: "bytes \<Rightarrow> bytes list" where
  "split_inclusive [] = []"
| "split_inclusive (c # cs) = (if c = LF then [c] # split_inclusive cs
     else (case split_inclusive cs of [] \<Rightarrow> [[c]] | l # ls \<Rightarrow> (c # l) # ls))"

definition strip_line :: "bytes \<Rightarrow> bytes" where
  "strip_line l = (if l \<noteq> [] \<and> last l = LF
     then (let m = butlast l in if m \<noteq> [] \<and> last m = CR then butlast m else m)
     else l)"

definition str_lines :: "bytes \<Rightarrow> bytes list" where
  "str_lines text = map strip_line (split_inclusive text)"

text \<open>The bytes of a run of lines, each with its newline.\<close>

definition render :: "bytes list \<Rightarrow> bytes" where
  "render ls = concat (map (\<lambda>l. l @ [LF]) ls)"

definition slice :: "nat \<Rightarrow> nat \<Rightarrow> 'a list \<Rightarrow> 'a list" where
  "slice start stop xs = drop start (take stop xs)"

definition rendered_len :: "bytes list \<Rightarrow> nat" where
  "rendered_len ls = sum_list (map (\<lambda>l. length l + 1) ls)"

section \<open>Building a chunk\<close>

text \<open>\<open>max_by_key\<close> returns the last of several maximal elements.\<close>

fun max_by_start :: "extracted_symbol list \<Rightarrow> extracted_symbol option" where
  "max_by_start [] = None"
| "max_by_start (s # ss) = (case max_by_start ss of None \<Rightarrow> Some s
     | Some t \<Rightarrow> if sym_start_line s \<le> sym_start_line t then Some t else Some s)"

definition symbol_label :: "extracted_symbol \<Rightarrow> string" where
  "symbol_label s = (case Option.bind (sym_metadata s) (\<lambda>m. fmlookup m ''fqn'') of
     Some fqn \<Rightarrow> fqn | None \<Rightarrow> sym_name s)"

definition enclosing :: "extracted_symbol list \<Rightarrow> 32 word \<Rightarrow> string option" where
  "enclosing symbols line = map_option symbol_label
     (max_by_start (filter (\<lambda>s. sym_start_line s \<le> line \<and> line \<le> sym_end_line s) symbols))"

text \<open>The slice \<open>&lines[start..end]\<close> panics when the range is reversed or too long.\<close>

definition build_chunk ::
  "(bytes \<Rightarrow> string) \<Rightarrow> bytes list \<Rightarrow> nat \<Rightarrow> nat \<Rightarrow> extracted_symbol list \<Rightarrow> chunk res" where
  "build_chunk blake3 lines start stop symbols =
     bindR (ensure (start \<le> stop \<and> stop \<le> length lines) Panic) (\<lambda>_.
     let buf = render (slice start stop lines) in
     Inr \<lparr> start_line = of_nat (start + 1), end_line = of_nat stop, content = buf,
           content_hash = content_hash_compute blake3 buf, doc_id = [],
           enclosing_symbol = enclosing symbols (of_nat (start + 1)) \<rparr>)"

section \<open>The line loop\<close>

text \<open>The map from line indices to symbols keeps the last symbol that starts on a line.\<close>

definition symbol_at :: "extracted_symbol list \<Rightarrow> nat \<Rightarrow> extracted_symbol option" where
  "symbol_at symbols i = find (\<lambda>s. 0 < sym_start_line s \<and> unat (sym_start_line s) - 1 = i) (rev symbols)"

definition symbol_end :: "bytes list \<Rightarrow> extracted_symbol \<Rightarrow> nat" where
  "symbol_end lines s = min (unat (sym_end_line s)) (length lines)"

definition symbol_len :: "bytes list \<Rightarrow> nat \<Rightarrow> extracted_symbol \<Rightarrow> nat" where
  "symbol_len lines i s = rendered_len (slice i (symbol_end lines s) lines)"

record chunk_state =
  cur_start :: nat
  cur_len :: nat
  chunks :: "chunk list"

text \<open>Flushing pushes the current chunk and starts a new one at line \<open>i\<close>.\<close>

definition flush_if ::
  "(bytes \<Rightarrow> string) \<Rightarrow> bytes list \<Rightarrow> extracted_symbol list \<Rightarrow> nat \<Rightarrow> nat \<Rightarrow> nat \<Rightarrow> chunk_state \<Rightarrow> chunk_state res" where
  "flush_if blake3 lines symbols max_chars add i st =
     (if 0 < cur_len st \<and> max_chars < cur_len st + add
      then bindR (build_chunk blake3 lines (cur_start st) i symbols) (\<lambda>c.
           Inr \<lparr> cur_start = i, cur_len = 0, chunks = chunks st @ [c] \<rparr>)
      else Inr st)"

definition add_len :: "nat \<Rightarrow> chunk_state \<Rightarrow> chunk_state" where
  "add_len n st = st\<lparr>cur_len := cur_len st + n\<rparr>"

text \<open>
  One iteration at line \<open>i\<close>: the next line index and state. A symbol that fits is taken whole; a
  larger one, or no symbol, leaves the line-by-line path.
\<close>

definition chunk_step ::
  "(bytes \<Rightarrow> string) \<Rightarrow> bytes list \<Rightarrow> extracted_symbol list \<Rightarrow> nat \<Rightarrow> nat \<Rightarrow> chunk_state \<Rightarrow> (nat \<times> chunk_state) res" where
  "chunk_step blake3 lines symbols max_chars i st =
     (let line_len = length (lines ! i) + 1;
          by_line = (\<lambda>st. bindR (flush_if blake3 lines symbols max_chars line_len i st) (\<lambda>st'.
                          Inr (i + 1, add_len line_len st')))
      in case symbol_at symbols i of
           None \<Rightarrow> by_line st
         | Some s \<Rightarrow>
             let total = symbol_len lines i s in
             bindR (flush_if blake3 lines symbols max_chars total i st) (\<lambda>st1.
             if max_chars < total then by_line st1
             else Inr (symbol_end lines s, add_len total st1)))"

partial_function (option) chunk_loop ::
  "(bytes \<Rightarrow> string) \<Rightarrow> bytes list \<Rightarrow> extracted_symbol list \<Rightarrow> nat \<Rightarrow> nat \<Rightarrow> chunk_state \<Rightarrow> chunk_state res option" where
  "chunk_loop blake3 lines symbols max_chars i st =
     (if i < length lines
      then (case chunk_step blake3 lines symbols max_chars i st of
              Inl e \<Rightarrow> Some (Inl e)
            | Inr (i', st') \<Rightarrow> chunk_loop blake3 lines symbols max_chars i' st')
      else Some (Inr st))"

section \<open>Overlap\<close>

text \<open>\<open>chunk.start_line as usize - 1\<close> panics on zero, which only a wrapped line number gives.\<close>

definition overlap_chunk :: "(bytes \<Rightarrow> string) \<Rightarrow> bytes list \<Rightarrow> chunk \<Rightarrow> chunk res" where
  "overlap_chunk blake3 lines c =
     bindR (ensure (start_line c \<noteq> 0) Panic) (\<lambda>_.
     let curr_start = unat (start_line c) - 1 in
     if 0 < curr_start
     then let overlap_start = curr_start - OVERLAP_LINES in
          if overlap_start < curr_start
          then bindR (ensure (curr_start \<le> length lines) Panic) (\<lambda>_.
               let prefix_lines = slice overlap_start curr_start lines in
               if 0 < rendered_len prefix_lines
               then let combined = render prefix_lines @ content c in
                    Inr (c\<lparr>content := combined, start_line := of_nat (overlap_start + 1),
                           content_hash := content_hash_compute blake3 combined\<rparr>)
               else Inr c)
          else Inr c
     else Inr c)"

definition add_overlap :: "(bytes \<Rightarrow> string) \<Rightarrow> bytes list \<Rightarrow> chunk list \<Rightarrow> chunk list res" where
  "add_overlap blake3 lines out = (case out of [] \<Rightarrow> Inr []
     | c # cs \<Rightarrow> bindR (traverseR (overlap_chunk blake3 lines) cs) (\<lambda>cs'. Inr (c # cs')))"

section \<open>The chunker\<close>

definition flush_last ::
  "(bytes \<Rightarrow> string) \<Rightarrow> bytes list \<Rightarrow> extracted_symbol list \<Rightarrow> chunk_state \<Rightarrow> chunk list res" where
  "flush_last blake3 lines symbols st =
     (if 0 < cur_len st
      then bindR (build_chunk blake3 lines (cur_start st) (length lines) symbols) (\<lambda>c. Inr (chunks st @ [c]))
      else Inr (chunks st))"

definition semantic_chunk_lines ::
  "(bytes \<Rightarrow> string) \<Rightarrow> bytes \<Rightarrow> nat \<Rightarrow> extracted_symbol list \<Rightarrow> chunk list res option" where
  "semantic_chunk_lines blake3 text max_chars symbols =
     (let lines = str_lines text in
      if lines = [] then Some (Inr [])
      else map_option (\<lambda>r. bindR r (\<lambda>st. bindR (flush_last blake3 lines symbols st) (add_overlap blake3 lines)))
             (chunk_loop blake3 lines symbols max_chars 0 \<lparr> cur_start = 0, cur_len = 0, chunks = [] \<rparr>))"

definition chunk_lines :: "(bytes \<Rightarrow> string) \<Rightarrow> bytes \<Rightarrow> nat \<Rightarrow> chunk list res option" where
  "chunk_lines blake3 text max_chars = semantic_chunk_lines blake3 text max_chars []"

section \<open>Slices\<close>

lemma length_slice: "length (slice a b xs) = min b (length xs) - a"
  by (simp add: slice_def min.commute)

lemma slice_append: "a \<le> b \<Longrightarrow> b \<le> c \<Longrightarrow> slice a b xs @ slice b c xs = slice a c xs"
proof -
  assume "a \<le> b" "b \<le> c"
  then have "take c xs = take b xs @ drop b (take c xs)"
    by (metis append_take_drop_id min.absorb1 take_take)
  then have "drop a (take c xs) = drop a (take b xs @ drop b (take c xs))" by simp
  also have "\<dots> = drop a (take b xs) @ drop b (take c xs)"
  proof (cases "b \<le> length xs")
    case True
    with \<open>a \<le> b\<close> show ?thesis by simp
  next
    case False
    then show ?thesis by simp
  qed
  finally show ?thesis by (simp add: slice_def)
qed

lemma slice_self [simp]: "slice a a xs = []"
  by (simp add: slice_def)

lemma slice_Suc: "i < length xs \<Longrightarrow> slice i (Suc i) xs = [xs ! i]"
  by (simp add: slice_def take_Suc_conv_app_nth)

lemma rendered_len_append [simp]: "rendered_len (xs @ ys) = rendered_len xs + rendered_len ys"
  by (simp add: rendered_len_def)

lemma rendered_len_pos: "xs \<noteq> [] \<Longrightarrow> 0 < rendered_len xs"
  by (cases xs) (auto simp: rendered_len_def)

lemma rendered_len_0 [simp]: "rendered_len [] = 0" "rendered_len xs = 0 \<longleftrightarrow> xs = []"
  using rendered_len_pos by (auto simp: rendered_len_def)

lemma render_append [simp]: "render (xs @ ys) = render xs @ render ys"
  by (simp add: render_def)

lemma length_render: "length (render ls) = rendered_len ls"
  by (induction ls) (auto simp: render_def rendered_len_def)

section \<open>The loop invariant\<close>

text \<open>
  A list of raw chunks that tiles the lines from \<open>a\<close> to \<open>b\<close>; each chunk fits the limit or is one line.
\<close>

fun chain ::
  "(bytes \<Rightarrow> string) \<Rightarrow> bytes list \<Rightarrow> extracted_symbol list \<Rightarrow> nat \<Rightarrow> nat \<Rightarrow> nat \<Rightarrow> chunk list \<Rightarrow> bool" where
  "chain blake3 lines symbols max_chars a b [] \<longleftrightarrow> a = b"
| "chain blake3 lines symbols max_chars a b (c # cs) \<longleftrightarrow>
     (\<exists>m. a < m \<and> m \<le> length lines \<and> build_chunk blake3 lines a m symbols = Inr c
        \<and> (rendered_len (slice a m lines) \<le> max_chars \<or> m = a + 1)
        \<and> chain blake3 lines symbols max_chars m b cs)"

lemma chain_append:
  "chain h ls ss k a b xs \<Longrightarrow> chain h ls ss k b c ys \<Longrightarrow> chain h ls ss k a c (xs @ ys)"
  by (induction xs arbitrary: a) auto

definition chunk_inv ::
  "(bytes \<Rightarrow> string) \<Rightarrow> bytes list \<Rightarrow> extracted_symbol list \<Rightarrow> nat \<Rightarrow> nat \<Rightarrow> chunk_state \<Rightarrow> bool" where
  "chunk_inv h ls ss k i st \<longleftrightarrow> cur_start st \<le> i \<and> i \<le> length ls
     \<and> cur_len st = rendered_len (slice (cur_start st) i ls)
     \<and> chain h ls ss k 0 (cur_start st) (chunks st)
     \<and> (cur_len st \<le> k \<or> i = cur_start st + 1)"

text \<open>Every symbol ends on or after the line on which it starts.\<close>

definition symbols_ok :: "extracted_symbol list \<Rightarrow> bool" where
  "symbols_ok ss \<longleftrightarrow> (\<forall>s \<in> set ss. 0 < sym_start_line s \<longrightarrow> sym_start_line s \<le> sym_end_line s)"

lemma chunk_inv_empty_iff:
  assumes "chunk_inv h ls ss k i st"
  shows "cur_len st = 0 \<longleftrightarrow> cur_start st = i"
proof -
  have "length (slice (cur_start st) i ls) = i - cur_start st"
    using assms by (simp add: chunk_inv_def length_slice)
  then have "slice (cur_start st) i ls = [] \<longleftrightarrow> i \<le> cur_start st" by (metis diff_is_0_eq length_0_conv)
  with assms show ?thesis by (auto simp: chunk_inv_def)
qed

lemma flush_if_inv:
  assumes "chunk_inv h ls ss k i st"
  obtains st' where "flush_if h ls ss k n i st = Inr st'" "chunk_inv h ls ss k i st'"
    "cur_start st' = i \<or> cur_len st' + n \<le> k"
proof (cases "0 < cur_len st \<and> k < cur_len st + n")
  case True
  with assms chunk_inv_empty_iff [OF assms] have lt: "cur_start st < i" by (auto simp: chunk_inv_def)
  with assms obtain c where c: "build_chunk h ls (cur_start st) i ss = Inr c"
    by (auto simp: build_chunk_def chunk_inv_def Let_def)
  let ?st = "\<lparr> cur_start = i, cur_len = 0, chunks = chunks st @ [c] \<rparr>"
  have "chain h ls ss k (cur_start st) i [c]" using lt c assms by (auto simp: chunk_inv_def)
  with assms have "chain h ls ss k 0 i (chunks st @ [c])" by (auto simp: chunk_inv_def intro: chain_append)
  with assms have "chunk_inv h ls ss k i ?st" by (auto simp: chunk_inv_def)
  with that [of ?st] True c show thesis by (simp add: flush_if_def)
next
  case False
  with that [of st] assms chunk_inv_empty_iff [OF assms] show thesis by (auto simp: flush_if_def)
qed

lemma add_len_inv:
  assumes "chunk_inv h ls ss k i st" "i < j" "j \<le> length ls" "n = rendered_len (slice i j ls)"
    and "cur_start st = i \<and> (n \<le> k \<or> j = i + 1) \<or> cur_len st + n \<le> k"
  shows "chunk_inv h ls ss k j (add_len n st)"
proof -
  have "rendered_len (slice (cur_start st) j ls) = cur_len st + n"
    using assms slice_append [of "cur_start st" i j ls] by (metis chunk_inv_def less_imp_le rendered_len_append)
  with assms show ?thesis by (auto simp: chunk_inv_def add_len_def)
qed

lemma symbol_at_range:
  assumes "symbols_ok ss" "symbol_at ss i = Some s" "i < length ls"
  shows "i < symbol_end ls s" "symbol_end ls s \<le> length ls"
proof -
  from assms(2) have s: "s \<in> set ss" "0 < sym_start_line s" "unat (sym_start_line s) - 1 = i"
    by (auto simp: symbol_at_def find_Some_iff) (metis length_rev nth_mem set_rev)
  then have "unat (sym_start_line s) \<le> unat (sym_end_line s)" "0 < unat (sym_start_line s)"
    using assms(1) by (auto simp: symbols_ok_def word_le_nat_alt unat_gt_0 word_gt_0)
  with s assms(3) show "i < symbol_end ls s" "symbol_end ls s \<le> length ls" by (auto simp: symbol_end_def)
qed

lemma by_line_inv:
  assumes "chunk_inv h ls ss k i st" "i < length ls"
  obtains st' where "bindR (flush_if h ls ss k (length (ls ! i) + 1) i st)
      (\<lambda>st'. Inr (i + 1, add_len (length (ls ! i) + 1) st')) = Inr (i + 1, st')"
    "chunk_inv h ls ss k (i + 1) st'"
proof -
  let ?n = "length (ls ! i) + 1"
  obtain st1 where f: "flush_if h ls ss k ?n i st = Inr st1" "chunk_inv h ls ss k i st1"
    "cur_start st1 = i \<or> cur_len st1 + ?n \<le> k" by (rule flush_if_inv [OF assms(1)])
  have "?n = rendered_len (slice i (i + 1) ls)" using assms(2) by (simp add: slice_Suc rendered_len_def)
  with f assms(2) have "chunk_inv h ls ss k (i + 1) (add_len ?n st1)" by (intro add_len_inv [OF f(2)]) auto
  with f(1) that show thesis by simp
qed

lemma chunk_step_inv:
  assumes "chunk_inv h ls ss k i st" "i < length ls" "symbols_ok ss"
  obtains j st' where "chunk_step h ls ss k i st = Inr (j, st')" "i < j" "chunk_inv h ls ss k j st'"
proof (cases "symbol_at ss i")
  case None
  obtain st' where "bindR (flush_if h ls ss k (length (ls ! i) + 1) i st)
      (\<lambda>st'. Inr (i + 1, add_len (length (ls ! i) + 1) st')) = Inr (i + 1, st')"
    "chunk_inv h ls ss k (i + 1) st'" by (rule by_line_inv [OF assms(1,2)])
  with None show thesis by (intro that [of "i + 1" st']) (simp_all add: chunk_step_def Let_def)
next
  case (Some s)
  note r = symbol_at_range [OF assms(3) Some assms(2)]
  let ?n = "symbol_len ls i s"
  obtain st1 where f: "flush_if h ls ss k ?n i st = Inr st1" "chunk_inv h ls ss k i st1"
    "cur_start st1 = i \<or> cur_len st1 + ?n \<le> k" by (rule flush_if_inv [OF assms(1)])
  show thesis
  proof (cases "k < ?n")
    case True
    obtain st' where "bindR (flush_if h ls ss k (length (ls ! i) + 1) i st1)
        (\<lambda>st'. Inr (i + 1, add_len (length (ls ! i) + 1) st')) = Inr (i + 1, st')"
      "chunk_inv h ls ss k (i + 1) st'" by (rule by_line_inv [OF f(2) assms(2)])
    with True Some f(1) show thesis by (intro that [of "i + 1" st']) (simp_all add: chunk_step_def Let_def)
  next
    case False
    have "chunk_inv h ls ss k (symbol_end ls s) (add_len ?n st1)"
      using f r False by (intro add_len_inv [OF f(2)]) (auto simp: symbol_len_def)
    with False Some f(1) r that show thesis by (simp add: chunk_step_def Let_def)
  qed
qed

lemma chunk_loop_returns:
  assumes "chunk_inv h ls ss k i st" "symbols_ok ss"
  obtains st' where "chunk_loop h ls ss k i st = Some (Inr st')" "chunk_inv h ls ss k (length ls) st'"
  using assms
proof (induction "length ls - i" arbitrary: i st thesis rule: less_induct)
  case less
  show ?case
  proof (cases "i < length ls")
    case True
    obtain j st' where s: "chunk_step h ls ss k i st = Inr (j, st')" "i < j" "chunk_inv h ls ss k j st'"
      by (rule chunk_step_inv [OF less.prems(2) True less.prems(3)])
    have "length ls - j < length ls - i" using True s(2) by simp
    from less.hyps [OF this _ s(3) less.prems(3)] obtain st'' where
      "chunk_loop h ls ss k j st' = Some (Inr st'')" "chunk_inv h ls ss k (length ls) st''" by blast
    with True s(1) less.prems(1) show ?thesis by (simp add: chunk_loop.simps [of h ls ss k i])
  next
    case False
    with less.prems(2) have "i = length ls" by (simp add: chunk_inv_def)
    with less.prems(1) [of st] less.prems(2) show ?thesis by (simp add: chunk_loop.simps)
  qed
qed

lemma flush_last_chain:
  assumes "chunk_inv h ls ss k (length ls) st"
  obtains cs where "flush_last h ls ss st = Inr cs" "chain h ls ss k 0 (length ls) cs"
proof (cases "0 < cur_len st")
  case True
  from assms have ch: "chain h ls ss k 0 (cur_start st) (chunks st)" and le: "cur_start st \<le> length ls"
    and sz: "rendered_len (slice (cur_start st) (length ls) ls) \<le> k \<or> length ls = cur_start st + 1"
    unfolding chunk_inv_def by metis+
  from True chunk_inv_empty_iff [OF assms] le have lt: "cur_start st < length ls" by simp
  then obtain c where c: "build_chunk h ls (cur_start st) (length ls) ss = Inr c"
    by (simp add: build_chunk_def Let_def)
  have "chain h ls ss k (cur_start st) (length ls) [c]" using lt c sz by simp
  with ch have "chain h ls ss k 0 (length ls) (chunks st @ [c])" by (rule chain_append)
  with True c show thesis by (intro that [of "chunks st @ [c]"]) (simp_all add: flush_last_def)
next
  case False
  then have "flush_last h ls ss st = Inr (chunks st)" by (simp add: flush_last_def)
  moreover from False chunk_inv_empty_iff [OF assms] have "cur_start st = length ls" by simp
  ultimately show thesis using assms by (intro that [of "chunks st"]) (simp_all add: chunk_inv_def)
qed

section \<open>From raw chunks to stored chunks\<close>

text \<open>A chunk whose content is exactly the lines of its recorded range.\<close>

definition stored_range :: "(bytes \<Rightarrow> string) \<Rightarrow> bytes list \<Rightarrow> chunk \<Rightarrow> bool" where
  "stored_range h ls c \<longleftrightarrow> 0 < unat (start_line c) \<and> unat (end_line c) \<le> length ls
     \<and> content c = render (slice (unat (start_line c) - 1) (unat (end_line c)) ls)
     \<and> content_hash c = content_hash_compute h (content c)"

text \<open>
  The stored chunks from line \<open>a\<close> on: each begins up to \<open>OVERLAP_LINES\<close> before \<open>a\<close>, ends after it,
  and its own lines fit the limit unless it owns a single line; the last one ends with the text.
\<close>

fun tiles :: "(bytes \<Rightarrow> string) \<Rightarrow> bytes list \<Rightarrow> nat \<Rightarrow> nat \<Rightarrow> chunk list \<Rightarrow> bool" where
  "tiles h ls k a [] \<longleftrightarrow> a = length ls"
| "tiles h ls k a (c # cs) \<longleftrightarrow> stored_range h ls c
     \<and> unat (start_line c) = (a - OVERLAP_LINES) + 1 \<and> a < unat (end_line c)
     \<and> (rendered_len (slice a (unat (end_line c)) ls) \<le> k \<or> unat (end_line c) = a + 1)
     \<and> tiles h ls k (unat (end_line c)) cs"

lemma unat_of_nat32: "n < 2 ^ 32 \<Longrightarrow> unat (of_nat n :: 32 word) = n"
  by (simp add: unat_of_nat take_bit_nat_eq_self)

lemma build_chunk_fields:
  assumes "build_chunk h ls a m ss = Inr c" "length ls < 2 ^ 32" "a < m"
  shows "unat (start_line c) = a + 1" "unat (end_line c) = m" "m \<le> length ls"
    "content c = render (slice a m ls)" "content_hash c = content_hash_compute h (content c)"
proof -
  from assms(1) have m: "m \<le> length ls" by (auto simp: build_chunk_def)
  with assms have "unat (of_nat (a + 1) :: 32 word) = a + 1" "unat (of_nat m :: 32 word) = m"
    by (intro unat_of_nat32; simp)+
  with assms(1) m show "unat (start_line c) = a + 1" "unat (end_line c) = m" "m \<le> length ls"
    "content c = render (slice a m ls)" "content_hash c = content_hash_compute h (content c)"
    by (auto simp: build_chunk_def Let_def)
qed

lemma overlap_chunk_later:
  assumes "build_chunk h ls a m ss = Inr c" "length ls < 2 ^ 32" "a < m" "0 < a"
  obtains d where "overlap_chunk h ls c = Inr d" "stored_range h ls d"
    "unat (start_line d) = (a - OVERLAP_LINES) + 1" "unat (end_line d) = m"
proof -
  note b = build_chunk_fields [OF assms(1-3)]
  let ?o = "a - OVERLAP_LINES"
  have o: "?o < a" using assms(4) by (simp add: OVERLAP_LINES_def)
  have len: "0 < rendered_len (slice ?o a ls)"
    using o b(3) assms(3) by (intro rendered_len_pos) (auto simp: length_slice simp flip: length_greater_0_conv)
  let ?d = "c\<lparr>content := render (slice ?o a ls) @ content c, start_line := of_nat (?o + 1),
     content_hash := content_hash_compute h (render (slice ?o a ls) @ content c)\<rparr>"
  have nz: "start_line c \<noteq> 0" using b(1) by auto
  have s: "unat (of_nat (?o + 1) :: 32 word) = ?o + 1" using o b(3) assms(2,3) by (intro unat_of_nat32) simp
  have al: "a \<le> length ls" using b(3) assms(3) by simp
  have "overlap_chunk h ls c = Inr ?d"
    using nz o al b(1) assms(4) len by (simp add: overlap_chunk_def Let_def)
  moreover have "slice ?o a ls @ slice a m ls = slice ?o m ls" using o assms(3) by (intro slice_append) auto
  then have "stored_range h ls ?d"
    using s b o by (simp add: stored_range_def flip: render_append)
  ultimately show thesis using s b(2) by (intro that [of ?d]) simp_all
qed

lemma overlap_tail:
  assumes "chain h ls ss k a (length ls) cs" "length ls < 2 ^ 32" "0 < a"
  obtains ds where "traverseR (overlap_chunk h ls) cs = Inr ds" "tiles h ls k a ds"
  using assms
proof (induction cs arbitrary: a thesis)
  case Nil
  then show ?case by simp
next
  case (Cons c cs)
  from Cons.prems(2) obtain m where m: "a < m" "build_chunk h ls a m ss = Inr c"
    "rendered_len (slice a m ls) \<le> k \<or> m = a + 1" "chain h ls ss k m (length ls) cs" by auto
  obtain d where d: "overlap_chunk h ls c = Inr d" "stored_range h ls d"
    "unat (start_line d) = (a - OVERLAP_LINES) + 1" "unat (end_line d) = m"
    by (rule overlap_chunk_later [OF m(2) Cons.prems(3) m(1) Cons.prems(4)])
  have "0 < m" using m(1) by simp
  from Cons.IH [OF _ m(4) Cons.prems(3) this] obtain ds where
    "traverseR (overlap_chunk h ls) cs = Inr ds" "tiles h ls k m ds" by blast
  with d m show ?case by (intro Cons.prems(1) [of "d # ds"]) simp_all
qed

lemma add_overlap_tiles:
  assumes "chain h ls ss k 0 (length ls) cs" "length ls < 2 ^ 32"
  obtains ds where "add_overlap h ls cs = Inr ds" "tiles h ls k 0 ds"
proof (cases cs)
  case Nil
  with assms that [of "[]"] show thesis by (simp add: add_overlap_def)
next
  case (Cons c cs')
  with assms(1) obtain m where m: "0 < m" "build_chunk h ls 0 m ss = Inr c"
    "rendered_len (slice 0 m ls) \<le> k \<or> m = 1" "chain h ls ss k m (length ls) cs'" by auto
  obtain ds where ds: "traverseR (overlap_chunk h ls) cs' = Inr ds" "tiles h ls k m ds"
    by (rule overlap_tail [OF m(4) assms(2) m(1)])
  note b = build_chunk_fields [OF m(2) assms(2) m(1)]
  then have "tiles h ls k 0 (c # ds)" using m ds by (simp add: stored_range_def)
  with Cons ds that [of "c # ds"] show thesis by (simp add: add_overlap_def)
qed

section \<open>Properties\<close>

text \<open>
  C37. Chunking always returns, and the chunks tile the text: for every text of fewer than \<open>2 ^ 32\<close>
  lines and every symbol list whose symbols do not end before they start, the chunker terminates
  without a panic; each chunk's content and hash are exactly those of its recorded line range, the
  first chunk starts the text, every next chunk repeats up to five lines of its predecessor and goes
  on where that ended, the last one ends the text, and no chunk's own lines exceed the limit unless
  it owns a single line.
\<close>

theorem chunks_tile_the_text:
  assumes "symbols_ok symbols" and "length (str_lines text) < 2 ^ 32"
  shows "\<exists>out. semantic_chunk_lines blake3 text max_chars symbols = Some (Inr out)
    \<and> tiles blake3 (str_lines text) max_chars 0 out"
proof (cases "str_lines text = []")
  case True
  then show ?thesis by (simp add: semantic_chunk_lines_def)
next
  case False
  let ?ls = "str_lines text" and ?st = "\<lparr> cur_start = 0, cur_len = 0, chunks = [] \<rparr>"
  have "chunk_inv blake3 ?ls symbols max_chars 0 ?st" by (simp add: chunk_inv_def)
  then obtain st where st: "chunk_loop blake3 ?ls symbols max_chars 0 ?st = Some (Inr st)"
    "chunk_inv blake3 ?ls symbols max_chars (length ?ls) st"
    using assms(1) by (rule chunk_loop_returns)
  obtain cs where cs: "flush_last blake3 ?ls symbols st = Inr cs"
    "chain blake3 ?ls symbols max_chars 0 (length ?ls) cs" by (rule flush_last_chain [OF st(2)])
  obtain ds where "add_overlap blake3 ?ls cs = Inr ds" "tiles blake3 ?ls max_chars 0 ds"
    by (rule add_overlap_tiles [OF cs(2) assms(2)])
  with False st(1) cs(1) show ?thesis by (simp add: semantic_chunk_lines_def)
qed

theorem chunks_tile_the_text_witness:
  "\<exists>out. semantic_chunk_lines id (''ab'' @ [LF] @ ''cd'') 4 [] = Some (Inr out) \<and> tiles id [''ab'', ''cd''] 4 0 out"
proof -
  have l: "str_lines (''ab'' @ [LF] @ ''cd'') = [''ab'', ''cd'']" by (simp add: str_lines_def strip_line_def)
  show ?thesis using chunks_tile_the_text [of "[]" "''ab'' @ [LF] @ ''cd''" id 4]
    unfolding l by (simp add: symbols_ok_def)
qed

section \<open>Reversed symbols\<close>

text \<open>
  A line that the index cannot pass: it starts a symbol which ends before it starts, and no symbol
  of an earlier line that is taken whole ends beyond it.
\<close>

definition barrier :: "bytes list \<Rightarrow> extracted_symbol list \<Rightarrow> nat \<Rightarrow> nat \<Rightarrow> bool" where
  "barrier lines symbols max_chars i \<longleftrightarrow> i < length lines
     \<and> (\<exists>s. symbol_at symbols i = Some s \<and> unat (sym_end_line s) \<le> i)
     \<and> (\<forall>j < i. \<forall>t. symbol_at symbols j = Some t \<and> symbol_len lines j t \<le> max_chars \<longrightarrow> unat (sym_end_line t) \<le> i)"

lemma barrier_step:
  assumes b: "barrier ls ss k i" and j: "j \<le> i" and run: "chunk_step h ls ss k j st = Inr (j', st')"
  shows "j' \<le> i"
proof (cases "symbol_at ss j")
  case None
  with b have "j \<noteq> i" by (auto simp: barrier_def)
  with None j run show ?thesis by (auto simp: chunk_step_def Let_def)
next
  case (Some t)
  show ?thesis
  proof (cases "symbol_len ls j t \<le> k")
    case True
    then have "unat (sym_end_line t) \<le> i" using b Some True j unfolding barrier_def by (metis le_neq_implies_less option.inject)
    with Some True run show ?thesis by (auto simp: chunk_step_def Let_def symbol_end_def)
  next
    case False
    have "symbol_len ls i s = 0" if "symbol_at ss i = Some s" for s
      using b that by (auto simp: barrier_def symbol_len_def symbol_end_def slice_def)
    with False Some have "j \<noteq> i" by auto
    with False Some j run show ?thesis by (auto simp: chunk_step_def Let_def)
  qed
qed

lemma barrier_loop:
  assumes b: "barrier ls ss k i" and j: "j \<le> i" and ret: "chunk_loop h ls ss k j st = Some r"
  shows "\<exists>e. r = Inl e"
proof -
  have "h' = h \<and> ls' = ls \<and> ss' = ss \<and> k' = k \<and> j' \<le> i \<longrightarrow> (\<exists>e. r' = Inl e)"
    if "chunk_loop h' ls' ss' k' j' st' = Some r'" for h' ls' ss' k' j' st' r'
  proof (rule chunk_loop.raw_induct [where P = "\<lambda>h' ls' ss' k' j' st' r'.
        h' = h \<and> ls' = ls \<and> ss' = ss \<and> k' = k \<and> j' \<le> i \<longrightarrow> (\<exists>e. r' = Inl e)", OF _ that], intro impI)
    fix f h' ls' ss' k' j' st' r'
    assume IH: "\<And>h' ls' ss' k' j' st' r'. f h' ls' ss' k' j' st' = Some r' \<Longrightarrow>
        h' = h \<and> ls' = ls \<and> ss' = ss \<and> k' = k \<and> j' \<le> i \<longrightarrow> (\<exists>e. r' = Inl e)"
      and eq: "(if j' < length ls' then case chunk_step h' ls' ss' k' j' st' of Inl e \<Rightarrow> Some (Inl e)
           | Inr (i', st'') \<Rightarrow> f h' ls' ss' k' i' st'' else Some (Inr st')) = Some r'"
      and at: "h' = h \<and> ls' = ls \<and> ss' = ss \<and> k' = k \<and> j' \<le> i"
    have "j' < length ls" using at b by (auto simp: barrier_def)
    then show "\<exists>e. r' = Inl e"
      using eq at IH barrier_step [OF b, of j' h st'] by (auto split: sum.splits)
  qed
  with ret j show ?thesis by blast
qed

text \<open>When no symbol up to that line moves the index back, no slice is reversed, so nothing panics.\<close>

lemma barrier_step_ok:
  assumes b: "barrier ls ss k i" and j: "cur_start st \<le> j" "j \<le> i"
    and fwd: "\<forall>j \<le> i. \<forall>t. symbol_at ss j = Some t \<longrightarrow> j \<le> unat (sym_end_line t)"
  shows "\<exists>j' st'. chunk_step h ls ss k j st = Inr (j', st') \<and> cur_start st' \<le> j' \<and> j' \<le> i"
proof -
  have lt: "j < length ls" using b j by (auto simp: barrier_def)
  have flush: "\<exists>st'. flush_if h ls ss k n j st0 = Inr st' \<and> cur_start st' \<le> j" if "cur_start st0 \<le> j" for n st0
    using that lt by (auto simp: flush_if_def build_chunk_def Let_def)
  have "\<exists>j' st'. chunk_step h ls ss k j st = Inr (j', st') \<and> cur_start st' \<le> j'"
  proof (cases "symbol_at ss j")
    case None
    obtain st1 where "flush_if h ls ss k (length (ls ! j) + 1) j st = Inr st1" "cur_start st1 \<le> j" using flush [OF j(1)] by blast
    with None show ?thesis by (simp add: chunk_step_def Let_def add_len_def)
  next
    case (Some t)
    obtain st1 where st1: "flush_if h ls ss k (symbol_len ls j t) j st = Inr st1" "cur_start st1 \<le> j" using flush [OF j(1)] by blast
    obtain st2 where st2: "flush_if h ls ss k (length (ls ! j) + 1) j st1 = Inr st2" "cur_start st2 \<le> j" using flush [OF st1(2)] by blast
    have "j \<le> symbol_end ls t" using fwd Some j(2) lt by (simp add: symbol_end_def)
    with Some st1 st2 show ?thesis by (simp add: chunk_step_def Let_def add_len_def)
  qed
  with barrier_step [OF b j(2)] show ?thesis by blast
qed

lemma barrier_loop_diverges:
  assumes b: "barrier ls ss k i" and j: "cur_start st \<le> j" "j \<le> i"
    and fwd: "\<forall>j \<le> i. \<forall>t. symbol_at ss j = Some t \<longrightarrow> j \<le> unat (sym_end_line t)"
  shows "chunk_loop h ls ss k j st = None"
proof -
  have "\<not> (h' = h \<and> ls' = ls \<and> ss' = ss \<and> k' = k \<and> cur_start st' \<le> j' \<and> j' \<le> i)"
    if "chunk_loop h' ls' ss' k' j' st' = Some r'" for h' ls' ss' k' j' st' r'
  proof (rule chunk_loop.raw_induct [where P = "\<lambda>h' ls' ss' k' j' st' r'.
        \<not> (h' = h \<and> ls' = ls \<and> ss' = ss \<and> k' = k \<and> cur_start st' \<le> j' \<and> j' \<le> i)", OF _ that], rule notI)
    fix f h' ls' ss' k' j' st' r'
    assume IH: "\<And>h' ls' ss' k' j' st' r'. f h' ls' ss' k' j' st' = Some r' \<Longrightarrow>
        \<not> (h' = h \<and> ls' = ls \<and> ss' = ss \<and> k' = k \<and> cur_start st' \<le> j' \<and> j' \<le> i)"
      and eq: "(if j' < length ls' then case chunk_step h' ls' ss' k' j' st' of Inl e \<Rightarrow> Some (Inl e)
           | Inr (i', st'') \<Rightarrow> f h' ls' ss' k' i' st'' else Some (Inr st')) = Some r'"
      and at: "h' = h \<and> ls' = ls \<and> ss' = ss \<and> k' = k \<and> cur_start st' \<le> j' \<and> j' \<le> i"
    have "j' < length ls" using at b by (auto simp: barrier_def)
    moreover obtain j2 st2 where "chunk_step h ls ss k j' st' = Inr (j2, st2)" "cur_start st2 \<le> j2" "j2 \<le> i"
      using barrier_step_ok [OF b _ _ fwd, of st' j' h] at by blast
    ultimately show False using eq at IH [of h ls ss k j2 st2 r'] by auto
  qed
  with j show ?thesis by (cases "chunk_loop h ls ss k j st") auto
qed

text \<open>
  C38. A symbol whose recorded end precedes its start stops the chunker wherever the line loop
  reaches it, which it does when no symbol of an earlier line that is taken whole ends beyond it:
  then no chunks are ever returned. When moreover no symbol up to it moves the line index back, as
  when it ends on the line before its start and all earlier symbols are well-formed, no slice
  panics either, and the loop runs for ever.
\<close>

theorem reversed_symbol_diverges:
  assumes "i < length (str_lines text)" and "symbol_at symbols i = Some s" and "unat (sym_end_line s) \<le> i"
    and "\<forall>j < i. \<forall>t. symbol_at symbols j = Some t \<and> symbol_len (str_lines text) j t \<le> max_chars \<longrightarrow> unat (sym_end_line t) \<le> i"
  shows "(\<forall>cs. semantic_chunk_lines blake3 text max_chars symbols \<noteq> Some (Inr cs))
    \<and> ((\<forall>j \<le> i. \<forall>t. symbol_at symbols j = Some t \<longrightarrow> j \<le> unat (sym_end_line t))
        \<longrightarrow> semantic_chunk_lines blake3 text max_chars symbols = None)"
proof -
  let ?st = "\<lparr> cur_start = 0, cur_len = 0, chunks = [] \<rparr>"
  have b: "barrier (str_lines text) symbols max_chars i" using assms unfolding barrier_def by blast
  have "semantic_chunk_lines blake3 text max_chars symbols \<noteq> Some (Inr cs)" for cs
    using barrier_loop [OF b, of 0 blake3 ?st] assms(1) by (fastforce simp: semantic_chunk_lines_def Let_def split: if_splits)
  moreover have "semantic_chunk_lines blake3 text max_chars symbols = None"
    if "\<forall>j \<le> i. \<forall>t. symbol_at symbols j = Some t \<longrightarrow> j \<le> unat (sym_end_line t)"
    using barrier_loop_diverges [OF b, of ?st 0 blake3] that assms(1) by (auto simp: semantic_chunk_lines_def Let_def)
  ultimately show ?thesis by blast
qed

definition reversed_symbol :: extracted_symbol where
  "reversed_symbol = \<lparr> sym_name = ''f'', sym_kind = ''function'', sym_start_line = 2, sym_end_line = 1, sym_metadata = None \<rparr>"

theorem reversed_symbol_diverges_witness:
  "semantic_chunk_lines id (''ab'' @ [LF] @ ''cd'') 100 [reversed_symbol] = None"
proof -
  have l: "str_lines (''ab'' @ [LF] @ ''cd'') = [''ab'', ''cd'']" by (simp add: str_lines_def strip_line_def)
  have at: "symbol_at [reversed_symbol] j = (if j = 1 then Some reversed_symbol else None)" for j
    by (auto simp: symbol_at_def reversed_symbol_def)
  have stop: "unat (sym_end_line reversed_symbol) = 1" by (simp add: reversed_symbol_def)
  show ?thesis
    by (rule reversed_symbol_diverges [of 1 "''ab'' @ [LF] @ ''cd''" "[reversed_symbol]" reversed_symbol 100 id,
          THEN conjunct2, rule_format]) (use l at stop in \<open>auto split: if_splits\<close>)
qed

end
