(* ===== verification/Review_Properties.thy ===== *)
theory Review_Properties
  imports Review_Discussion Wire
begin

text \<open>
  What storing review discussions guarantees: the quota always equals the retained inventory, stored
  evidence is never changed, and stored discussions are read back.
\<close>

section \<open>Tiers of the metadata table\<close>

definition tier :: "string \<Rightarrow> bool \<Rightarrow> table \<Rightarrow> table" where
  "tier project is_body t = fmfilter (prefix (tier_prefix project is_body)) t"

abbreviation object_bytes :: "string \<Rightarrow> bytes \<Rightarrow> nat" where
  "object_bytes k v \<equiv> length k + length v"

definition rows_bytes :: "(string \<times> bytes) list \<Rightarrow> nat" where
  "rows_bytes rows = sum_list (map (\<lambda>(k, v). object_bytes k v) rows)"

definition tier_bytes :: "string \<Rightarrow> bool \<Rightarrow> table \<Rightarrow> nat" where
  "tier_bytes project is_body t = table_weight object_bytes (tier project is_body t)"

definition tier_rows :: "string \<Rightarrow> bool \<Rightarrow> table \<Rightarrow> nat" where
  "tier_rows project is_body t = table_len (tier project is_body t)"

lemma rows_bytes_simps [simp]:
  "rows_bytes [] = 0" "rows_bytes ((k, v) # rows) = object_bytes k v + rows_bytes rows"
  "rows_bytes (xs @ ys) = rows_bytes xs + rows_bytes ys"
  by (simp_all add: rows_bytes_def)

lemma tier_scan:
  "length (prefix_scan (tier_prefix project b) t) = tier_rows project b t"
  "rows_bytes (prefix_scan (tier_prefix project b) t) = tier_bytes project b t"
  by (simp_all add: prefix_scan_fmfilter length_iter tier_rows_def tier_def tier_bytes_def rows_bytes_def sum_list_iter)

lemma prefix_tiers:
  "\<not> prefix (tier_prefix p True) (tier_prefix p False @ x)" "\<not> prefix (tier_prefix p False) (tier_prefix p True @ x)"
  "\<not> prefix (tier_prefix p b) (quota_key p)"
  by (cases b; simp add: tier_prefix_def quota_key_def RD_PREFIX_def RD_BODIES_def RD_QUOTA_def)+

lemma insert_all_simps [simp]: "insert_all [] t = t" "insert_all ((k, v) # rows) t = insert_all rows (fmupd k v t)"
  by (simp_all add: insert_all_def)

lemma insert_all_lookup:
  "distinct (map fst rows) \<Longrightarrow> fmlookup (insert_all rows t) k = (case map_of rows k of Some v \<Rightarrow> Some v | None \<Rightarrow> fmlookup t k)"
proof (induction rows arbitrary: t)
  case (Cons kv rows)
  obtain l v where kv: "kv = (l, v)" by (cases kv)
  have "map_of rows l = None" using Cons.prems by (simp add: kv map_of_eq_None_iff)
  with Cons show ?case by (cases "map_of rows k") (auto simp: kv)
qed simp

lemma insert_all_inside:
  assumes "\<forall>(k, v) \<in> set rows. P k \<and> fmlookup t k = None" "distinct (map fst rows)"
  shows "table_len (fmfilter P (insert_all rows t)) = table_len (fmfilter P t) + length rows
    \<and> table_weight object_bytes (fmfilter P (insert_all rows t)) = table_weight object_bytes (fmfilter P t) + rows_bytes rows"
  using assms
proof (induction rows arbitrary: t)
  case (Cons kv rows)
  obtain k v where kv: "kv = (k, v)" by (cases kv)
  have k: "P k" "fmlookup t k = None" using Cons.prems(1) by (simp_all add: kv)
  have "\<forall>(l, w) \<in> set rows. l \<noteq> k" using Cons.prems(2) by (force simp: kv)
  then have pre: "\<forall>(l, w) \<in> set rows. P l \<and> fmlookup (fmupd k v t) l = None"
    using Cons.prems(1) by auto
  have d: "distinct (map fst rows)" using Cons.prems(2) by simp
  have f: "fmfilter P (fmupd k v t) = fmupd k v (fmfilter P t)" using k by (intro fmap_ext) auto
  have n: "fmlookup (fmfilter P t) k = None" using k by simp
  have eq: "fmfilter P (insert_all (kv # rows) t) = fmfilter P (insert_all rows (fmupd k v t))"
    unfolding kv insert_all_simps ..
  show ?case unfolding eq using Cons.IH [OF pre d] table_len_upd [of k "fmfilter P t"] n k
    by (simp add: kv table_weight_new)
qed (simp cong del: fmfilter_cong)

lemma insert_all_outside:
  "\<forall>(k, v) \<in> set rows. \<not> P k \<Longrightarrow> fmfilter P (insert_all rows t) = fmfilter P t"
proof (induction rows arbitrary: t)
  case (Cons kv rows)
  obtain k v where kv: "kv = (k, v)" by (cases kv)
  have "fmfilter P (fmupd k v t) = fmfilter P t" using Cons.prems by (intro fmap_ext) (auto simp: kv)
  moreover have "fmfilter P (insert_all rows (fmupd k v t)) = fmfilter P (fmupd k v t)"
    using Cons.prems by (intro Cons.IH) simp
  ultimately show ?case unfolding kv insert_all_simps by simp
qed (simp cong del: fmfilter_cong)

section \<open>The inventory\<close>

lemma inventory_rows_counts:
  assumes "inventory_rows h p t b n rows x = Inr y"
  shows "inv_rows y = inv_rows x + length rows" "inv_bytes y = inv_bytes x + rows_bytes rows"
    "inv_captures y = inv_captures x + (if b then 0 else length rows)"
    "inv_bodies y = inv_bodies x + (if b then length rows else 0)"
    "inv_rows x \<le> PROJECT_ROWS \<Longrightarrow> inv_rows y \<le> PROJECT_ROWS"
    "inv_bytes x \<le> PROJECT_BYTES \<Longrightarrow> inv_bytes y \<le> PROJECT_BYTES"
proof (atomize (full), use assms in \<open>induction rows arbitrary: x\<close>)
  case (Cons kv rows)
  obtain k v where kv: "kv = (k, v)" by (cases kv)
  from Cons.prems obtain z where z: "inventory_rows h p t b n rows z = Inr y" "inv_rows x < PROJECT_ROWS"
    "inv_rows z = inv_rows x + 1" "inv_bytes z = inv_bytes x + length k + length v" "inv_bytes z \<le> PROJECT_BYTES"
    "inv_captures z = (if b then inv_captures x else inv_captures x + 1)"
    "inv_bodies z = (if b then inv_bodies x + 1 else inv_bodies x)"
    by (auto simp: kv add3_def bind_eq_Some_conv simp del: power.simps)
  from Cons.IH [OF z(1)] z(2-) show ?case by (auto simp: kv)
qed simp

lemma take_inventory_counts:
  assumes "take_inventory h p t = Inr x"
  shows "inv_rows x = tier_rows p False t + tier_rows p True t"
    "inv_bytes x = tier_bytes p False t + tier_bytes p True t"
    "inv_captures x = tier_rows p False t" "inv_bodies x = tier_rows p True t"
    "inv_rows x \<le> PROJECT_ROWS" "inv_bytes x \<le> PROJECT_BYTES"
proof -
  let ?z = "\<lparr> inv_rows = 0, inv_bytes = 0, inv_captures = 0, inv_bodies = 0 \<rparr>"
  from assms obtain y where
    y: "inventory_rows h p t False (length (tier_prefix p False)) (prefix_scan (tier_prefix p False) t) ?z = Inr y"
    and x: "inventory_rows h p t True (length (tier_prefix p True)) (prefix_scan (tier_prefix p True) t) y = Inr x"
    by (auto simp: take_inventory_def Let_def)
  show "inv_rows x = tier_rows p False t + tier_rows p True t"
    "inv_bytes x = tier_bytes p False t + tier_bytes p True t"
    "inv_captures x = tier_rows p False t" "inv_bodies x = tier_rows p True t"
    "inv_rows x \<le> PROJECT_ROWS" "inv_bytes x \<le> PROJECT_BYTES"
    using inventory_rows_counts [OF y] inventory_rows_counts [OF x] by (simp_all add: tier_scan)
qed

section \<open>The plan\<close>

text \<open>What a planning pass adds: fresh, distinct rows of one tier, with their number and size.\<close>

definition planned :: "string \<Rightarrow> bool \<Rightarrow> table \<Rightarrow> plan \<Rightarrow> plan \<Rightarrow> (string \<times> bytes) list \<Rightarrow> bool" where
  "planned p b t x y new \<longleftrightarrow> snd y = snd x @ new \<and> fst (fst y) = fst (fst x) + length new
     \<and> snd (fst y) = snd (fst x) + rows_bytes new
     \<and> (\<forall>(k, v) \<in> set new. prefix (tier_prefix p b) k \<and> fmlookup t k = None)"

lemma planned_Nil [simp]: "planned p b t x x []"
  by (simp add: planned_def)

lemma planned_Cons:
  assumes "planned p b t ((n + 1, m + object_bytes k v), todo @ [(k, v)]) y new"
    and "prefix (tier_prefix p b) k" "fmlookup t k = None"
  shows "planned p b t ((n, m), todo) y ((k, v) # new)"
  using assms by (auto simp: planned_def)

abbreviation bkey :: "string \<Rightarrow> string \<Rightarrow> string" where
  "bkey p hash \<equiv> tier_prefix p True @ hash"

lemma body_key_Inr [simp]: "body_key p hash = Inr k \<longleftrightarrow> hash_valid hash \<and> k = bkey p hash"
  by (auto simp: body_key_def tier_prefix_def)

definition body_settled :: "string \<Rightarrow> table \<Rightarrow> (string \<times> bytes) list \<Rightarrow> string \<times> bytes \<Rightarrow> bool" where
  "body_settled p t new hb \<longleftrightarrow> hash_valid (fst hb)
     \<and> (fmlookup t (bkey p (fst hb)) = Some (snd hb) \<or> (bkey p (fst hb), snd hb) \<in> set new)"

lemma body_key_ok [simp]: "hash_valid hash \<Longrightarrow> body_key p hash = Inr (bkey p hash)"
  by simp

lemma length_pad20 [simp]: "length (pad20 n) = 20"
  using show_u64_length [of n] by (simp add: pad20_def)

lemma plan_bodies_planned:
  assumes "plan_bodies p t bs x = Inr y"
  obtains new where "planned p True t x y new" "fst ` set new \<subseteq> bkey p ` fst ` set bs"
    "distinct (map fst bs) \<Longrightarrow> distinct (map fst new)" "list_all (body_settled p t new) bs"
  using assms
proof (induction bs arbitrary: x thesis)
  case Nil
  then show ?case by (intro Nil.prems(1) [of "[]"]) auto
next
  case (Cons hb bs)
  obtain hash body where hb: "hb = (hash, body)" by (cases hb)
  obtain n m todo where x: "x = ((n, m), todo)" by (metis surj_pair)
  have hv: "hash_valid hash" using Cons.prems(2) by (auto simp: hb x)
  show ?case
  proof (cases "fmlookup t (bkey p hash)")
    case (Some prior)
    with Cons.prems(2) hv have "prior = body" and run: "plan_bodies p t bs x = Inr y" by (auto simp: hb x)
    obtain new where "planned p True t x y new" "fst ` set new \<subseteq> bkey p ` fst ` set bs"
      "distinct (map fst bs) \<Longrightarrow> distinct (map fst new)" "list_all (body_settled p t new) bs"
      using Cons.IH [OF _ run] by blast
    moreover have "body_settled p t new hb" using Some \<open>prior = body\<close> hv by (simp add: hb body_settled_def)
    ultimately show ?thesis by (intro Cons.prems(1) [of new]) (auto simp: hb)
  next
    case None
    let ?row = "(bkey p hash, body)"
    from None Cons.prems(2) hv have run: "plan_bodies p t bs ((n + 1, m + object_bytes (bkey p hash) body), todo @ [?row]) = Inr y"
      by (auto simp: hb x count_object_def add3_def bind_eq_Some_conv add.assoc)
    obtain new where new: "planned p True t ((n + 1, m + object_bytes (bkey p hash) body), todo @ [?row]) y new"
      "fst ` set new \<subseteq> bkey p ` fst ` set bs" "distinct (map fst bs) \<Longrightarrow> distinct (map fst new)"
      "list_all (body_settled p t new) bs"
      using Cons.IH [OF _ run] by blast
    have "planned p True t x y (?row # new)"
      unfolding x by (rule planned_Cons [OF new(1)]) (use None in auto)
    moreover have "distinct (map fst (hb # bs)) \<Longrightarrow> distinct (map fst (?row # new))"
      using new(2,3) by (auto simp: hb)
    moreover have "list_all (body_settled p t (?row # new)) bs"
      using new(4) by (auto simp: list_all_iff body_settled_def)
    moreover have "fst ` set (?row # new) \<subseteq> bkey p ` fst ` set (hb # bs)" using new(2) by (auto simp: hb)
    moreover have "body_settled p t (?row # new) hb" using hv by (simp add: hb body_settled_def)
    ultimately show ?thesis by (intro Cons.prems(1) [of "?row # new"]) simp_all
  qed
qed

text \<open>The key of a capture row, where it exists.\<close>

definition ckey :: "string \<Rightarrow> discussion_record \<Rightarrow> string" where
  "ckey p r = tier_prefix p False @ review_id r @ [NUL] @ pad20 (thread_id r) @ '':'' @ capture_blake3 r"

definition record_ok :: "discussion_record \<Rightarrow> bool" where
  "record_ok r \<longleftrightarrow> key_ok (review_id r) \<and> length (review_id r) \<le> 256 \<and> hash_valid (capture_blake3 r)"

lemma capture_key_Inr:
  "capture_key p r = Inr k \<longleftrightarrow> key_ok p \<and> length p \<le> 128 \<and> record_ok r \<and> k = ckey p r"
  by (auto simp: capture_key_def scope_def suffix_def record_ok_def ckey_def tier_prefix_def)

lemma hash_valid_utf8:
  assumes "hash_valid x"
  shows "utf8_valid x"
proof (rule utf8_valid_ascii)
  fix c assume "c \<in> set x"
  with assms have "is_lower_hex c" by (auto simp: hash_valid_def list_all_iff)
  then show "byte c < 128" by (auto simp: is_lower_hex_def is_digit_def)
qed

lemma unpack_capture_value:
  assumes "hash_valid (raw_payload_blake3 r)" "length (payload r) \<le> METADATA_BYTES"
  shows "unpack (capture_value r) = Inr (raw_payload_blake3 r, payload r)"
proof -
  have l: "length (raw_payload_blake3 r) = 64" "length RD_LINK = 8" using assms(1) by (simp_all add: hash_valid_def RD_LINK_def)
  then have "take 8 (capture_value r) = RD_LINK" "take 64 (drop 8 (capture_value r)) = raw_payload_blake3 r"
    "drop 72 (capture_value r) = payload r" "length (capture_value r) = 72 + length (payload r)"
    by (simp_all add: capture_value_def)
  with assms hash_valid_utf8 [OF assms(1)] show ?thesis by (simp add: unpack_def from_utf8_def)
qed

definition capture_settled :: "string \<Rightarrow> table \<Rightarrow> (string \<times> bytes) list \<Rightarrow> discussion_record \<Rightarrow> bool" where
  "capture_settled p t new r \<longleftrightarrow> record_ok r
     \<and> ((\<exists>v. fmlookup t (ckey p r) = Some v \<and> unpack v = Inr (raw_payload_blake3 r, payload r))
        \<or> (ckey p r, capture_value r) \<in> set new)"

lemma prefix_ckey: "prefix (tier_prefix p False) (ckey p r)"
  by (simp add: ckey_def)

lemma plan_captures_planned:
  assumes "plan_captures p t rs x = Inr y" "list_all (\<lambda>r. length (raw_payload_blake3 r) = 64) rs"
  obtains new where "planned p False t x y new" "fst ` set new \<subseteq> ckey p ` set rs"
    "distinct (map (ckey p) rs) \<Longrightarrow> distinct (map fst new)" "list_all (capture_settled p t new) rs"
  using assms
proof (induction rs arbitrary: x thesis)
  case Nil
  then show ?case by (intro Nil.prems(1) [of "[]"]) auto
next
  case (Cons r rs)
  obtain n m todo where x: "x = ((n, m), todo)" by (metis surj_pair)
  from Cons.prems(2) have ck: "capture_key p r = Inr (ckey p r)" and ok: "record_ok r"
    by (auto simp: x capture_key_Inr)
  have tl: "list_all (\<lambda>r. length (raw_payload_blake3 r) = 64) rs" using Cons.prems(3) by simp
  show ?case
  proof (cases "fmlookup t (ckey p r)")
    case (Some prior)
    with Cons.prems(2) ck have u: "unpack prior = Inr (raw_payload_blake3 r, payload r)"
      and run: "plan_captures p t rs x = Inr y" by (auto simp: x)
    obtain new where "planned p False t x y new" "fst ` set new \<subseteq> ckey p ` set rs"
      "distinct (map (ckey p) rs) \<Longrightarrow> distinct (map fst new)" "list_all (capture_settled p t new) rs"
      using Cons.IH [OF _ run tl] by blast
    moreover have "capture_settled p t new r" using Some u ok by (simp add: capture_settled_def)
    ultimately show ?thesis by (intro Cons.prems(1) [of new]) auto
  next
    case None
    let ?row = "(ckey p r, capture_value r)"
    have len: "length (capture_value r) = 72 + length (payload r)"
      using Cons.prems(3) by (simp add: capture_value_def RD_LINK_def)
    from None Cons.prems(2) ck have run: "plan_captures p t rs ((n + 1, m + object_bytes (ckey p r) (capture_value r)), todo @ [?row]) = Inr y"
      by (auto simp: x bind_eq_Some_conv add.assoc len)
    obtain new where new: "planned p False t ((n + 1, m + object_bytes (ckey p r) (capture_value r)), todo @ [?row]) y new"
      "fst ` set new \<subseteq> ckey p ` set rs" "distinct (map (ckey p) rs) \<Longrightarrow> distinct (map fst new)"
      "list_all (capture_settled p t new) rs"
      using Cons.IH [OF _ run tl] by blast
    have "planned p False t x y (?row # new)"
      unfolding x by (rule planned_Cons [OF new(1) prefix_ckey None])
    moreover have "distinct (map (ckey p) (r # rs)) \<Longrightarrow> distinct (map fst (?row # new))"
      using new(2,3) by auto
    moreover have "list_all (capture_settled p t (?row # new)) rs"
      using new(4) by (auto simp: list_all_iff capture_settled_def)
    moreover have "fst ` set (?row # new) \<subseteq> ckey p ` set (r # rs)" using new(2) by auto
    moreover have "capture_settled p t (?row # new) r" using ok by (simp add: capture_settled_def)
    ultimately show ?thesis by (intro Cons.prems(1) [of "?row # new"]) simp_all
  qed
qed

section \<open>The batch\<close>

definition batch_record :: "(bytes \<Rightarrow> string) \<Rightarrow> table \<Rightarrow> discussion_record \<Rightarrow> bool" where
  "batch_record h bodies r \<longleftrightarrow> h (payload r) = capture_blake3 r \<and> h (raw_payload r) = raw_payload_blake3 r
     \<and> length (payload r) \<le> METADATA_BYTES \<and> length (raw_payload r) \<le> BODY_BYTES
     \<and> fmlookup bodies (raw_payload_blake3 r) = Some (raw_payload r)"

lemma check_batch_sound:
  assumes "check_batch h p rs used keys bodies = Inr out"
  shows "\<And>k v. fmlookup bodies k = Some v \<Longrightarrow> fmlookup out k = Some v"
    and "list_all (batch_record h out) rs" and "distinct (map (ckey p) rs)" and "set (map (ckey p) rs) \<inter> set keys = {}"
proof (atomize (full), use assms in \<open>induction rs arbitrary: used keys bodies\<close>)
  case (Cons r rs)
  let ?b = "fmupd (raw_payload_blake3 r) (raw_payload r) bodies"
  from Cons.prems obtain used' where run: "check_batch h p rs used' (ckey p r # keys) ?b = Inr out"
    and fresh: "ckey p r \<notin> set keys"
    and r: "h (payload r) = capture_blake3 r" "h (raw_payload r) = raw_payload_blake3 r"
      "length (payload r) \<le> METADATA_BYTES" "length (raw_payload r) \<le> BODY_BYTES"
    and prior: "fmlookup bodies (raw_payload_blake3 r) = None \<or> fmlookup bodies (raw_payload_blake3 r) = Some (raw_payload r)"
    by (auto simp: capture_key_Inr)
  from Cons.IH [OF run] have mono: "\<And>k v. fmlookup ?b k = Some v \<Longrightarrow> fmlookup out k = Some v"
    and rest: "list_all (batch_record h out) rs" "distinct (map (ckey p) rs)"
      "set (map (ckey p) rs) \<inter> set (ckey p r # keys) = {}" by blast+
  have "batch_record h out r" using r mono [of "raw_payload_blake3 r" "raw_payload r"] by (simp add: batch_record_def)
  moreover have "fmlookup out k = Some v" if "fmlookup bodies k = Some v" for k v
    by (rule mono) (use that prior in auto)
  ultimately show ?case using rest fresh by auto
qed simp

section \<open>A successful store\<close>

text \<open>The quota row agrees with the rows of the two tiers.\<close>

definition accounted :: "string \<Rightarrow> table \<Rightarrow> bool" where
  "accounted p t \<longleftrightarrow> transposeR quota (fmlookup t (quota_key p))
       = Inr (if fmlookup t (quota_key p) = None then None
              else Some (tier_rows p False t + tier_rows p True t, tier_bytes p False t + tier_bytes p True t))
     \<and> (fmlookup t (quota_key p) = None \<longrightarrow> tier_rows p False t + tier_rows p True t = 0)"

lemma quota_encode:
  assumes "fst c \<le> PROJECT_ROWS" "snd c \<le> PROJECT_BYTES"
  shows "quota (encode_quota c) = Inr c"
proof -
  have m: "length RD_MAGIC = 8" by (simp add: RD_MAGIC_def)
  have "unat (of_nat n :: u64) = n" if "n \<le> PROJECT_BYTES" for n
    using that by (simp add: unat_of_nat take_bit_nat_eq_self PROJECT_BYTES_def)
  moreover have "fst c \<le> PROJECT_BYTES" using assms(1) by (simp add: PROJECT_ROWS_def PROJECT_BYTES_def)
  ultimately show ?thesis using assms m by (simp add: quota_def encode_quota_def Let_def)
qed

lemma audit_quota_Inr:
  assumes "audit_quota h p t = Inr ledger"
  shows "take_inventory h p t = Inr ledger" "accounted p t"
proof -
  from assms obtain stated where q: "transposeR quota (fmlookup t (quota_key p)) = Inr stated"
    and i: "take_inventory h p t = Inr ledger" and none: "stated \<noteq> None \<or> inv_rows ledger = 0"
    and eq: "(case stated of None \<Rightarrow> (0, 0) | Some q \<Rightarrow> q) = (inv_rows ledger, inv_bytes ledger)"
    by (auto simp: audit_quota_def)
  show "take_inventory h p t = Inr ledger" by (rule i)
  note ledger = take_inventory_counts [OF i]
  show "accounted p t"
  proof (cases stated)
    case None
    with q have "fmlookup t (quota_key p) = None" by simp
    with None none ledger show ?thesis by (simp add: accounted_def)
  next
    case (Some r)
    with q have "fmlookup t (quota_key p) \<noteq> None" by auto
    with Some q eq ledger show ?thesis by (auto simp: accounted_def)
  qed
qed

definition todo_ok :: "string \<Rightarrow> bool \<Rightarrow> table \<Rightarrow> (string \<times> bytes) list \<Rightarrow> bool" where
  "todo_ok p b t new \<longleftrightarrow> distinct (map fst new) \<and> (\<forall>(k, v) \<in> set new. prefix (tier_prefix p b) k \<and> fmlookup t k = None)"

lemma plan_store_Inr:
  assumes "plan_store p t bodies records ledger = Inr (c, newb, newc)"
    and "list_all (batch_record h bodies) records" "distinct (map (ckey p) records)"
  shows "todo_ok p True t newb" "todo_ok p False t newc"
    "list_all (body_settled p t newb) (iter bodies)" "list_all (capture_settled p t newc) records"
    "c = (inv_rows ledger + length newb + length newc, inv_bytes ledger + rows_bytes newb + rows_bytes newc)"
    "fst c \<le> PROJECT_ROWS" "snd c \<le> PROJECT_BYTES"
proof -
  from assms(1) obtain c1 where
    pb: "plan_bodies p t (iter bodies) ((inv_rows ledger, inv_bytes ledger), []) = Inr (c1, newb)"
    and pc: "plan_captures p t records (c1, []) = Inr (c, newc)"
    and lim: "fst c \<le> PROJECT_ROWS" "snd c \<le> PROJECT_BYTES"
    by (auto simp: plan_store_def)
  obtain nb where nb: "planned p True t ((inv_rows ledger, inv_bytes ledger), []) (c1, newb) nb"
    "distinct (map fst (iter bodies)) \<Longrightarrow> distinct (map fst nb)" "list_all (body_settled p t nb) (iter bodies)"
    by (rule plan_bodies_planned [OF pb]) blast
  have r64: "list_all (\<lambda>r. length (raw_payload_blake3 r) = 64) records"
  proof (unfold list_all_iff, rule ballI)
    fix r assume "r \<in> set records"
    with assms(2) have "(raw_payload_blake3 r, raw_payload r) \<in> set (iter bodies)"
      by (simp add: list_all_iff batch_record_def set_iter)
    with nb(3) have "body_settled p t nb (raw_payload_blake3 r, raw_payload r)" by (simp add: list_all_iff)
    then show "length (raw_payload_blake3 r) = 64" by (simp add: body_settled_def hash_valid_def)
  qed
  obtain nc where nc: "planned p False t (c1, []) (c, newc) nc"
    "distinct (map (ckey p) records) \<Longrightarrow> distinct (map fst nc)" "list_all (capture_settled p t nc) records"
    by (rule plan_captures_planned [OF pc r64]) blast
  have eqs: "nb = newb" "nc = newc" using nb(1) nc(1) by (simp_all add: planned_def)
  show "list_all (body_settled p t newb) (iter bodies)" "list_all (capture_settled p t newc) records"
    "fst c \<le> PROJECT_ROWS" "snd c \<le> PROJECT_BYTES" using nb(3) nc(3) lim by (simp_all add: eqs)
  show "todo_ok p True t newb" "todo_ok p False t newc"
    using nb(1,2) nc(1,2) assms(3) by (simp_all add: eqs todo_ok_def planned_def)
  show "c = (inv_rows ledger + length newb + length newc, inv_bytes ledger + rows_bytes newb + rows_bytes newc)"
    using nb(1) nc(1) by (simp add: eqs planned_def prod_eq_iff)
qed

lemma discussion_store_run:
  assumes "store_review_discussions h p records s = Inr (w, t)"
  obtains bodies ledger c newb newc where "key_ok p" "length p \<le> 128"
    "list_all (batch_record h bodies) records" "distinct (map (ckey p) records)"
    "take_inventory h p (meta s) = Inr ledger" "accounted p (meta s)"
    "plan_store p (meta s) bodies records ledger = Inr (c, newb, newc)"
    "w = store_result bodies records ledger c newb newc"
    "t = (if newb = [] \<and> newc = [] then s else s\<lparr>meta := fmupd (quota_key p)
       (encode_quota c) (insert_all newc (insert_all newb (meta s)))\<rparr>)"
proof -
  from assms obtain bodies ledger c newb newc where vp: "key_ok p" and lp: "length p \<le> 128"
    and b: "check_batch h p records 0 [] fmempty = Inr bodies" and a: "audit_quota h p (meta s) = Inr ledger"
    and ps: "plan_store p (meta s) bodies records ledger = Inr (c, newb, newc)"
    and w: "w = store_result bodies records ledger c newb newc"
    and t: "t = (if newb = [] \<and> newc = [] then s else s\<lparr>meta := fmupd (quota_key p)
       (encode_quota c) (insert_all newc (insert_all newb (meta s)))\<rparr>)"
    by (auto simp: store_review_discussions_def Let_def split: if_splits)
  show thesis
    by (rule that [OF vp lp check_batch_sound(2,3) [OF b] audit_quota_Inr [OF a] ps w t])
qed

lemma todo_quota: "todo_ok p b t new \<Longrightarrow> map_of new (quota_key p) = None"
  using prefix_tiers(3) by (fastforce simp: todo_ok_def map_of_eq_None_iff)

lemma todo_fresh: "todo_ok p b t new \<Longrightarrow> map_of new k = Some v \<Longrightarrow> fmlookup t k = None \<and> prefix (tier_prefix p b) k"
  by (auto simp: todo_ok_def dest!: map_of_SomeD)

lemma tier_disjoint: "prefix (tier_prefix p b) k \<Longrightarrow> b \<noteq> c \<Longrightarrow> \<not> prefix (tier_prefix p c) k"
  by (cases b; cases c) (auto elim!: prefixE simp: tier_prefix_def RD_PREFIX_def RD_BODIES_def)

text \<open>The tables after the planned rows and the quota row are inserted.\<close>

lemma stored_tiers:
  fixes q :: bytes
  assumes "todo_ok p True t newb" "todo_ok p False t newc"
  defines "u \<equiv> fmupd (quota_key p) q (insert_all newc (insert_all newb t))"
  shows "tier_rows p False u = tier_rows p False t + length newc" "tier_bytes p False u = tier_bytes p False t + rows_bytes newc"
    "tier_rows p True u = tier_rows p True t + length newb" "tier_bytes p True u = tier_bytes p True t + rows_bytes newb"
proof -
  let ?tb = "insert_all newb t"
  have quota: "fmfilter (prefix (tier_prefix p b)) u = fmfilter (prefix (tier_prefix p b)) (insert_all newc ?tb)" for b
    unfolding u_def using prefix_tiers(3) [of p b] by (intro fmap_ext) auto
  have nb: "\<forall>(k, v) \<in> set newb. \<not> prefix (tier_prefix p False) k" and nc: "\<forall>(k, v) \<in> set newc. \<not> prefix (tier_prefix p True) k"
    using assms(1,2) tier_disjoint by (fastforce simp: todo_ok_def)+
  have fresh: "\<forall>(k, v) \<in> set newc. prefix (tier_prefix p False) k \<and> fmlookup ?tb k = None"
  proof (rule ballI)
    fix kv assume kv: "kv \<in> set newc"
    obtain k v where "kv = (k, v)" by (cases kv)
    with kv assms(2) have k: "prefix (tier_prefix p False) k" "fmlookup t k = None" by (auto simp: todo_ok_def)
    then have "map_of newb k = None" using nb by (force simp: map_of_eq_None_iff)
    with assms(1) k \<open>kv = (k, v)\<close> show "case kv of (k, v) \<Rightarrow> prefix (tier_prefix p False) k \<and> fmlookup ?tb k = None"
      by (simp add: insert_all_lookup todo_ok_def)
  qed
  have b: "fmfilter (prefix (tier_prefix p False)) ?tb = fmfilter (prefix (tier_prefix p False)) t"
    by (rule insert_all_outside [OF nb])
  have c: "fmfilter (prefix (tier_prefix p True)) (insert_all newc ?tb) = fmfilter (prefix (tier_prefix p True)) ?tb"
    by (rule insert_all_outside [OF nc])
  have db: "distinct (map fst newb)" "\<forall>(k, v) \<in> set newb. prefix (tier_prefix p True) k \<and> fmlookup t k = None"
    and dc: "distinct (map fst newc)" using assms(1,2) by (simp_all add: todo_ok_def)
  show "tier_rows p False u = tier_rows p False t + length newc" "tier_bytes p False u = tier_bytes p False t + rows_bytes newc"
    using insert_all_inside [OF fresh dc] unfolding tier_rows_def tier_bytes_def tier_def quota b by auto
  show "tier_rows p True u = tier_rows p True t + length newb" "tier_bytes p True u = tier_bytes p True t + rows_bytes newb"
    using insert_all_inside [OF db(2,1)] unfolding tier_rows_def tier_bytes_def tier_def quota c by auto
qed

lemma stored_lookup:
  assumes "todo_ok p True t newb" "todo_ok p False t newc"
  shows "fmlookup (fmupd (quota_key p) q (insert_all newc (insert_all newb t))) k
    = (if k = quota_key p then Some q
       else case map_of newc k of Some v \<Rightarrow> Some v | None \<Rightarrow> (case map_of newb k of Some v \<Rightarrow> Some v | None \<Rightarrow> fmlookup t k))"
proof -
  have d: "distinct (map fst newb)" "distinct (map fst newc)" using assms by (simp_all add: todo_ok_def)
  show ?thesis by (cases "map_of newc k") (simp_all add: insert_all_lookup [OF d(1)] insert_all_lookup [OF d(2)])
qed

lemma store_effect:
  assumes "store_review_discussions h p records s = Inr (w, t)"
  obtains newb newc bodies where "todo_ok p True (meta s) newb" "todo_ok p False (meta s) newc"
    "list_all (body_settled p (meta s) newb) (iter bodies)" "list_all (capture_settled p (meta s) newc) records"
    "list_all (batch_record h bodies) records" "key_ok p" "length p \<le> 128"
    "\<And>k. k \<noteq> quota_key p \<Longrightarrow> fmlookup (meta t) k = (case map_of newc k of Some v \<Rightarrow> Some v
        | None \<Rightarrow> (case map_of newb k of Some v \<Rightarrow> Some v | None \<Rightarrow> fmlookup (meta s) k))"
    "accounted p (meta t)" "dw_retained_records w = tier_rows p False (meta t) + tier_rows p True (meta t)"
    "dw_retained_bytes w = tier_bytes p False (meta t) + tier_bytes p True (meta t)"
    "dw_retained_captures w = tier_rows p False (meta t)" "dw_retained_payloads w = tier_rows p True (meta t)"
    "dw_retained_records w \<le> PROJECT_ROWS" "dw_retained_bytes w \<le> PROJECT_BYTES"
proof -
  obtain bodies ledger c newb newc where r: "key_ok p" "length p \<le> 128"
    "list_all (batch_record h bodies) records" "distinct (map (ckey p) records)"
    "take_inventory h p (meta s) = Inr ledger" "accounted p (meta s)"
    "plan_store p (meta s) bodies records ledger = Inr (c, newb, newc)"
    "w = store_result bodies records ledger c newb newc"
    "t = (if newb = [] \<and> newc = [] then s else s\<lparr>meta := fmupd (quota_key p)
       (encode_quota c) (insert_all newc (insert_all newb (meta s)))\<rparr>)"
    by (rule discussion_store_run [OF assms])
  note pl = plan_store_Inr [OF r(7,3,4)] and inv = take_inventory_counts [OF r(5)]
  have rows: "fst c = tier_rows p False (meta t) + tier_rows p True (meta t)"
    "snd c = tier_bytes p False (meta t) + tier_bytes p True (meta t)"
    "tier_rows p False (meta t) = inv_captures ledger + length newc" "tier_rows p True (meta t) = inv_bodies ledger + length newb"
    using stored_tiers [OF pl(1,2), of "encode_quota c"] inv by (simp_all add: r(9) pl(5))
  have "accounted p (meta t)"
  proof (cases "newb = [] \<and> newc = []")
    case True
    with r(6,9) show ?thesis by simp
  next
    case False
    then have "fmlookup (meta t) (quota_key p) = Some (encode_quota c)" using r(9) by auto
    with quota_encode [OF pl(6,7)] rows(1,2) show ?thesis by (simp add: accounted_def prod_eq_iff)
  qed
  moreover have "fmlookup (meta t) k = (case map_of newc k of Some v \<Rightarrow> Some v
        | None \<Rightarrow> (case map_of newb k of Some v \<Rightarrow> Some v | None \<Rightarrow> fmlookup (meta s) k))" if "k \<noteq> quota_key p" for k
    using stored_lookup [OF pl(1,2), of "encode_quota c" k] that that [symmetric] by (simp add: r(9))
  ultimately show thesis
    by (intro that [OF pl(1,2,3,4) r(3,1,2)]) (use rows pl(6,7) in \<open>simp_all add: r(8) store_result_def\<close>)
qed

section \<open>A concrete batch\<close>

text \<open>One record of short payloads, hashed with the constant digest.\<close>

definition sample_discussion :: discussion_record where
  "sample_discussion = \<lparr> review_id = ''PR'', thread_id = 7, capture_blake3 = sample_hash [], payload = ''m'',
     raw_payload_blake3 = sample_hash [], raw_payload = ''b'' \<rparr>"

lemma sample_hash_valid: "hash_valid (sample_hash bs)"
  by (simp add: hash_valid_def sample_hash_def list_all_iff is_lower_hex_def)

lemma store_intro:
  assumes "key_ok p" "length p \<le> 128" "length records \<le> BATCH_ROWS" "check_batch h p records 0 [] fmempty = Inr bodies"
    "audit_quota h p (meta s) = Inr ledger" "plan_store p (meta s) bodies records ledger = Inr (c, newb, newc)" "newb \<noteq> []"
  obtains w t where "store_review_discussions h p records s = Inr (w, t)"
  using assms by (simp add: store_review_discussions_def Let_def)

lemma sample_stored:
  obtains w t where "store_review_discussions sample_hash ''p'' [sample_discussion] empty_db = Inr (w, t)"
proof -
  have k: "capture_key ''p'' sample_discussion = Inr (ckey ''p'' sample_discussion)"
    unfolding capture_key_Inr by (simp add: record_ok_def key_ok_def sample_discussion_def sample_hash_valid)
  have b: "check_batch sample_hash ''p'' [sample_discussion] 0 [] fmempty = Inr (fmupd (sample_hash []) ''b'' fmempty)"
    using k by (simp add: sample_discussion_def sample_hash_def METADATA_BYTES_def BODY_BYTES_def BATCH_BYTES_def add3_def usize_add_def)
  have a: "audit_quota sample_hash ''p'' fmempty = Inr \<lparr> inv_rows = 0, inv_bytes = 0, inv_captures = 0, inv_bodies = 0 \<rparr>"
    by (simp add: audit_quota_def take_inventory_def Let_def)
  let ?bk = "bkey ''p'' (sample_hash [])"
  have bk: "body_key ''p'' (sample_hash []) = Inr ?bk" by (simp add: sample_hash_valid)
  have len: "length ?bk \<le> 100" "length (ckey ''p'' sample_discussion) \<le> 200"
    by (simp_all add: tier_prefix_def RD_BODIES_def RD_PREFIX_def sample_hash_def ckey_def sample_discussion_def)
  have pb: "plan_bodies ''p'' fmempty [(sample_hash [], ''b'')] ((0, 0), []) = Inr ((1, length ?bk + 1), [(?bk, ''b'')])"
    using bk len by (simp add: count_object_def add3_def usize_add_def)
  have pc: "plan_captures ''p'' fmempty [sample_discussion] ((1, length ?bk + 1), [])
      = Inr ((2, length ?bk + 1 + length (ckey ''p'' sample_discussion) + 72 + 1), [(ckey ''p'' sample_discussion, capture_value sample_discussion)])"
    using k len by (simp add: usize_add_def) (simp add: sample_discussion_def)
  have "plan_store ''p'' fmempty (fmupd (sample_hash []) ''b'' fmempty) [sample_discussion]
      \<lparr> inv_rows = 0, inv_bytes = 0, inv_captures = 0, inv_bodies = 0 \<rparr>
    = Inr ((2, length ?bk + 1 + length (ckey ''p'' sample_discussion) + 72 + 1), [(?bk, ''b'')],
       [(ckey ''p'' sample_discussion, capture_value sample_discussion)])"
    using pb pc len by (simp add: plan_store_def PROJECT_ROWS_def PROJECT_BYTES_def)
  then have ps: "plan_store ''p'' (meta empty_db) (fmupd (sample_hash []) ''b'' fmempty) [sample_discussion]
      \<lparr> inv_rows = 0, inv_bytes = 0, inv_captures = 0, inv_bodies = 0 \<rparr>
    = Inr ((2, length ?bk + 1 + length (ckey ''p'' sample_discussion) + 72 + 1), [(?bk, ''b'')],
       [(ckey ''p'' sample_discussion, capture_value sample_discussion)])" by (simp add: empty_db_def)
  have "audit_quota sample_hash ''p'' (meta empty_db) = Inr \<lparr> inv_rows = 0, inv_bytes = 0, inv_captures = 0, inv_bodies = 0 \<rparr>"
    using a by (simp add: empty_db_def)
  from _ _ _ b this ps show thesis by (rule store_intro) (simp_all add: key_ok_def BATCH_ROWS_def that)
qed

section \<open>Properties\<close>

text \<open>
  C39. The quota never drifts: after every successful store the quota row of the project states
  exactly the number and the bytes of its retained capture and body rows, the returned totals are
  these numbers, and they respect the limits of 4096 objects and 128 MiB.
\<close>

theorem discussion_quota_exact:
  assumes "store_review_discussions h p records s = Inr (w, t)"
  shows "accounted p (meta t)
    \<and> dw_retained_captures w = tier_rows p False (meta t) \<and> dw_retained_payloads w = tier_rows p True (meta t)
    \<and> dw_retained_records w = dw_retained_captures w + dw_retained_payloads w
    \<and> dw_retained_bytes w = tier_bytes p False (meta t) + tier_bytes p True (meta t)
    \<and> dw_retained_records w \<le> 4096 \<and> dw_retained_bytes w \<le> 128 * 1024 * 1024"
  by (rule store_effect [OF assms]) (simp add: PROJECT_ROWS_def PROJECT_BYTES_def)

theorem discussion_quota_exact_witness:
  "\<exists>w t. store_review_discussions sample_hash ''p'' [sample_discussion] empty_db = Inr (w, t) \<and> accounted ''p'' (meta t)
    \<and> dw_retained_records w \<le> 4096"
proof -
  obtain w t where s: "store_review_discussions sample_hash ''p'' [sample_discussion] empty_db = Inr (w, t)" by (rule sample_stored)
  from discussion_quota_exact [OF s] s show ?thesis by blast
qed

text \<open>
  Stored evidence is immutable: a store changes no existing row of the metadata table but the
  project's own quota row, whatever it adds, and touches no other table.
\<close>

theorem discussion_rows_immutable:
  assumes "store_review_discussions h p records s = Inr (w, t)"
    and "fmlookup (meta s) k = Some v" and "k \<noteq> quota_key p"
  shows "fmlookup (meta t) k = Some v \<and> t\<lparr>meta := meta s\<rparr> = s"
proof -
  obtain newb newc bodies where e: "todo_ok p True (meta s) newb" "todo_ok p False (meta s) newc"
    "\<And>k. k \<noteq> quota_key p \<Longrightarrow> fmlookup (meta t) k = (case map_of newc k of Some v \<Rightarrow> Some v
        | None \<Rightarrow> (case map_of newb k of Some v \<Rightarrow> Some v | None \<Rightarrow> fmlookup (meta s) k))"
    by (rule store_effect [OF assms(1)]) blast
  have "map_of newc k = None" "map_of newb k = None"
    using todo_fresh [OF e(1), of k] todo_fresh [OF e(2), of k] assms(2) by (metis option.distinct(1) not_Some_eq)+
  with e(3) [OF assms(3)] assms(2) have "fmlookup (meta t) k = Some v" by simp
  moreover have "t\<lparr>meta := meta s\<rparr> = s" by (rule discussion_store_run [OF assms(1)]) simp
  ultimately show ?thesis ..
qed

theorem discussion_rows_immutable_witness:
  "\<exists>w t. store_review_discussions sample_hash ''q'' [] (empty_db\<lparr>meta := fmupd ''k'' ''v'' fmempty\<rparr>) = Inr (w, t)
    \<and> fmlookup (meta t) ''k'' = Some ''v''"
proof -
  let ?s = "empty_db\<lparr>meta := fmupd ''k'' ''v'' fmempty\<rparr>"
  have scan: "prefix_scan (tier_prefix ''q'' b) (fmupd ''k'' ''v'' fmempty) = []" for b
    by (simp add: prefix_scan_filter tier_prefix_def)
  have "key_ok ''q''" by (simp add: key_ok_def)
  then obtain w t where s: "store_review_discussions sample_hash ''q'' [] ?s = Inr (w, t)"
    by (simp add: store_review_discussions_def audit_quota_def take_inventory_def plan_store_def empty_db_def scan
        quota_key_def RD_QUOTA_def BATCH_ROWS_def)
  moreover have "fmlookup (meta ?s) ''k'' = Some ''v''" "''k'' \<noteq> quota_key ''q''" by (simp_all add: quota_key_def)
  ultimately show ?thesis using discussion_rows_immutable [OF s] by blast
qed

text \<open>
  C40. What was stored is read back: every record of a stored batch is found by its review, thread
  and capture hash, and the reader receives exactly its metadata and its raw body.
\<close>

theorem discussion_roundtrip:
  assumes "store_review_discussions h p records s = Inr (w, t)" and "r \<in> set records"
  shows "inspect_review_discussion h p (review_id r) (thread_id r) (capture_blake3 r) inspect t
    = inspect (payload r) (raw_payload r)"
proof -
  obtain newb newc bodies where e: "todo_ok p True (meta s) newb" "todo_ok p False (meta s) newc"
    "list_all (body_settled p (meta s) newb) (iter bodies)" "list_all (capture_settled p (meta s) newc) records"
    "list_all (batch_record h bodies) records" "key_ok p" "length p \<le> 128"
    "\<And>k. k \<noteq> quota_key p \<Longrightarrow> fmlookup (meta t) k = (case map_of newc k of Some v \<Rightarrow> Some v
        | None \<Rightarrow> (case map_of newb k of Some v \<Rightarrow> Some v | None \<Rightarrow> fmlookup (meta s) k))"
    by (rule store_effect [OF assms(1)]) blast
  have b: "batch_record h bodies r" and c: "capture_settled p (meta s) newc r"
    using e(4,5) assms(2) by (simp_all add: list_all_iff)
  then have bs: "body_settled p (meta s) newb (raw_payload_blake3 r, raw_payload r)"
    using e(3) by (simp add: list_all_iff batch_record_def set_iter)
  then have hv: "hash_valid (raw_payload_blake3 r)" by (simp add: body_settled_def)
  have kq: "bkey p (raw_payload_blake3 r) \<noteq> quota_key p" "ckey p r \<noteq> quota_key p"
    using prefix_tiers(3) [of p] prefix_ckey [of p r] by (metis prefixI)+
  have db: "distinct (map fst newb)" and dc: "distinct (map fst newc)" using e(1,2) by (simp_all add: todo_ok_def)
  have body: "fmlookup (meta t) (bkey p (raw_payload_blake3 r)) = Some (raw_payload r)"
  proof -
    have "map_of newc (bkey p (raw_payload_blake3 r)) = None"
      using todo_fresh [OF e(2)] tier_disjoint [of p False _ True] by (metis not_Some_eq prefixI)
    with bs db e(8) [OF kq(1)] todo_fresh [OF e(1)] show ?thesis
      by (cases "map_of newb (bkey p (raw_payload_blake3 r))")
        (auto simp: body_settled_def dest: eq_key_imp_eq_value)
  qed
  have len: "length (payload r) \<le> METADATA_BYTES" using b by (simp add: batch_record_def)
  have "\<exists>v. fmlookup (meta t) (ckey p r) = Some v \<and> unpack v = Inr (raw_payload_blake3 r, payload r)"
  proof (cases "map_of newc (ckey p r)")
    case (Some v)
    then have "fmlookup (meta s) (ckey p r) = None" using todo_fresh [OF e(2)] by blast
    with c have "(ckey p r, capture_value r) \<in> set newc" by (simp add: capture_settled_def)
    with Some dc have "v = capture_value r" by simp
    with Some e(8) [OF kq(2)] unpack_capture_value [OF hv len] show ?thesis by simp
  next
    case None
    then have "(ckey p r, capture_value r) \<notin> set newc" by (auto simp: map_of_eq_None_iff image_iff)
    with c obtain v where v: "fmlookup (meta s) (ckey p r) = Some v" "unpack v = Inr (raw_payload_blake3 r, payload r)"
      by (auto simp: capture_settled_def)
    then have "map_of newb (ckey p r) = None" using todo_fresh [OF e(1)] by (metis not_Some_eq)
    with None v e(8) [OF kq(2)] show ?thesis by simp
  qed
  then obtain v where v: "fmlookup (meta t) (ckey p r) = Some v" "unpack v = Inr (raw_payload_blake3 r, payload r)" by blast
  have key: "capture_key p r = Inr (ckey p r)" using c e(6,7) by (auto simp: capture_key_Inr capture_settled_def)
  then obtain sc sx where k: "scope p (review_id r) = Inr sc" "suffix (thread_id r) (capture_blake3 r) = Inr sx" "sc @ sx = ckey p r"
    by (auto simp: capture_key_def)
  have "body_key p (raw_payload_blake3 r) = Inr (bkey p (raw_payload_blake3 r))" using hv by simp
  with k v body b show ?thesis by (simp add: inspect_review_discussion_def batch_record_def)
qed

theorem discussion_roundtrip_witness:
  "\<exists>w t. store_review_discussions sample_hash ''p'' [sample_discussion] empty_db = Inr (w, t)
    \<and> inspect_review_discussion sample_hash ''p'' ''PR'' 7 (sample_hash []) (\<lambda>m b. Inr (m, b)) t = Inr (''m'', ''b'')"
proof -
  obtain w t where s: "store_review_discussions sample_hash ''p'' [sample_discussion] empty_db = Inr (w, t)" by (rule sample_stored)
  have "sample_discussion \<in> set [sample_discussion]" by simp
  from discussion_roundtrip [OF s this, of "\<lambda>m b. Inr (m, b)"] s show ?thesis by (auto simp: sample_discussion_def)
qed

end
