(* ===== verification/Graph_Data.thy ===== *)
theory Graph_Data
  imports U64
begin

text \<open>
  The edge kinds of the project graph and its node and edge rows (\<open>engram_graph/src/store.rs\<close>).
  The JSON metadata of a row is kept as the text it is stored as (\<open>optional_json_string\<close>). The tables
  that hold the rows are modelled in \<open>Graph_Store\<close>.
\<close>

section \<open>Edge kinds\<close>

datatype edge_kind =
    CoOccurrence | TemporalCoupling | Insight | Calls | Dependency | AntiPattern | Contains | Imports
  | SqlCalls | HasColumn | ForeignKey | QueriesTable | ReadsState | WritesState | DataBinding
  | RegistersControl | IncludesFile | UnresolvedStateRead | UnresolvedStateWrite | ExposesWebService
  | ExposesHttpHandler | ExposesWcfService | ContainsUi | UiLayoutNeighbor | ReadsColumn | RegistersModule
  | RegistersHandler | ManipulatesDom | TriggersPostback | ApiCall | ParameterBinding | SpatialCall
  | StateAffinity | InjectsScript | CallsStoredProcedure | StoredProcReadsTable | StoredProcWritesTable
  | FillsRegion | ObservedRuntimeControl | ObservedRuntimeSql | ReadsSetting | InheritsFrom | Implements
  | TestOracle

definition ALL_KINDS :: "edge_kind list" where
  "ALL_KINDS =
    [CoOccurrence, TemporalCoupling, Insight, Calls, Dependency, AntiPattern, Contains, Imports, SqlCalls,
    HasColumn, ForeignKey, QueriesTable, ReadsState, WritesState, DataBinding, RegistersControl,
    IncludesFile, UnresolvedStateRead, UnresolvedStateWrite, ExposesWebService, ExposesHttpHandler,
    ExposesWcfService, ContainsUi, UiLayoutNeighbor, ReadsColumn, RegistersModule, RegistersHandler,
    ManipulatesDom, TriggersPostback, ApiCall, ParameterBinding, SpatialCall, StateAffinity, InjectsScript,
    CallsStoredProcedure, StoredProcReadsTable, StoredProcWritesTable, FillsRegion, ObservedRuntimeControl,
    ObservedRuntimeSql, ReadsSetting, InheritsFrom, Implements, TestOracle]"

primrec as_str_kind :: "edge_kind \<Rightarrow> string" where
  "as_str_kind CoOccurrence = ''co_occurrence''"
| "as_str_kind TemporalCoupling = ''temporal_coupling''"
| "as_str_kind Insight = ''insight''"
| "as_str_kind Calls = ''calls''"
| "as_str_kind Dependency = ''dependency''"
| "as_str_kind AntiPattern = ''anti_pattern''"
| "as_str_kind Contains = ''contains''"
| "as_str_kind Imports = ''imports''"
| "as_str_kind SqlCalls = ''sql_calls''"
| "as_str_kind HasColumn = ''has_column''"
| "as_str_kind ForeignKey = ''foreign_key''"
| "as_str_kind QueriesTable = ''queries_table''"
| "as_str_kind ReadsState = ''reads_state''"
| "as_str_kind WritesState = ''writes_state''"
| "as_str_kind DataBinding = ''data_binding''"
| "as_str_kind RegistersControl = ''registers_control''"
| "as_str_kind IncludesFile = ''includes_file''"
| "as_str_kind UnresolvedStateRead = ''unresolved_state_read''"
| "as_str_kind UnresolvedStateWrite = ''unresolved_state_write''"
| "as_str_kind ExposesWebService = ''exposes_web_service''"
| "as_str_kind ExposesHttpHandler = ''exposes_http_handler''"
| "as_str_kind ExposesWcfService = ''exposes_wcf_service''"
| "as_str_kind ContainsUi = ''contains_ui''"
| "as_str_kind UiLayoutNeighbor = ''ui_layout_neighbor''"
| "as_str_kind ReadsColumn = ''reads_column''"
| "as_str_kind RegistersModule = ''registers_module''"
| "as_str_kind RegistersHandler = ''registers_handler''"
| "as_str_kind ManipulatesDom = ''manipulates_dom''"
| "as_str_kind TriggersPostback = ''triggers_postback''"
| "as_str_kind ApiCall = ''api_call''"
| "as_str_kind ParameterBinding = ''parameter_binding''"
| "as_str_kind SpatialCall = ''spatial_call''"
| "as_str_kind StateAffinity = ''state_affinity''"
| "as_str_kind InjectsScript = ''injects_script''"
| "as_str_kind CallsStoredProcedure = ''calls_stored_procedure''"
| "as_str_kind StoredProcReadsTable = ''stored_proc_reads_table''"
| "as_str_kind StoredProcWritesTable = ''stored_proc_writes_table''"
| "as_str_kind FillsRegion = ''fills_region''"
| "as_str_kind ObservedRuntimeControl = ''observed_runtime_control''"
| "as_str_kind ObservedRuntimeSql = ''observed_runtime_sql''"
| "as_str_kind ReadsSetting = ''reads_setting''"
| "as_str_kind InheritsFrom = ''inherits_from''"
| "as_str_kind Implements = ''implements_interface''"
| "as_str_kind TestOracle = ''test_oracle''"

text \<open>The arms of the match, tried in order.\<close>

definition kind_arms :: "(string \<times> edge_kind) list" where
  "kind_arms =
    [(''co_occurrence'', CoOccurrence), (''temporal_coupling'', TemporalCoupling), (''insight'', Insight),
    (''calls'', Calls), (''dependency'', Dependency), (''anti_pattern'', AntiPattern),
    (''contains'', Contains), (''imports'', Imports), (''sql_calls'', SqlCalls), (''has_column'', HasColumn),
    (''foreign_key'', ForeignKey), (''queries_table'', QueriesTable), (''reads_state'', ReadsState),
    (''writes_state'', WritesState), (''data_binding'', DataBinding),
    (''registers_control'', RegistersControl), (''includes_file'', IncludesFile),
    (''unresolved_state_read'', UnresolvedStateRead), (''unresolved_state_write'', UnresolvedStateWrite),
    (''exposes_web_service'', ExposesWebService), (''exposes_http_handler'', ExposesHttpHandler),
    (''exposes_wcf_service'', ExposesWcfService), (''contains_ui'', ContainsUi),
    (''ui_layout_neighbor'', UiLayoutNeighbor), (''reads_column'', ReadsColumn),
    (''registers_module'', RegistersModule), (''registers_handler'', RegistersHandler),
    (''manipulates_dom'', ManipulatesDom), (''triggers_postback'', TriggersPostback),
    (''api_call'', ApiCall), (''parameter_binding'', ParameterBinding), (''spatial_call'', SpatialCall),
    (''state_affinity'', StateAffinity), (''injects_script'', InjectsScript),
    (''calls_stored_procedure'', CallsStoredProcedure), (''stored_proc_reads_table'', StoredProcReadsTable),
    (''stored_proc_writes_table'', StoredProcWritesTable), (''fills_region'', FillsRegion),
    (''observed_runtime_control'', ObservedRuntimeControl), (''observed_runtime_sql'', ObservedRuntimeSql),
    (''reads_setting'', ReadsSetting), (''inherits_from'', InheritsFrom),
    (''implements_interface'', Implements), (''test_oracle'', TestOracle)]"

definition parse_kind :: "string \<Rightarrow> edge_kind option" where
  "parse_kind s = map_of kind_arms s"

section \<open>Rows\<close>

record graph_node =
  node_id :: string
  node_type :: string
  gnode_name :: string
  gnode_namespace :: string
  gnode_language :: string
  file_path :: string
  gnode_start_line :: "32 word"
  gnode_end_line :: "32 word"
  gnode_generation :: u64
  gnode_metadata :: "string option"

record graph_edge =
  source_id :: string
  target_id :: string
  gedge_namespace :: string
  gedge_language :: string
  gedge_kind :: edge_kind
  gedge_weight :: "32 word"
  gedge_generation :: u64
  gedge_metadata :: "string option"
  gedge_updated_at_ms :: u64

section \<open>The names of the kinds\<close>

lemma ALL_KINDS_complete: "k \<in> set ALL_KINDS"
  by (cases k) (simp_all add: ALL_KINDS_def)

lemma kind_arms_names: "map (\<lambda>k. (as_str_kind k, k)) ALL_KINDS = kind_arms"
  by (simp add: ALL_KINDS_def kind_arms_def)

lemma distinct_kind_names: "distinct (map as_str_kind ALL_KINDS)"
  by code_simp

text \<open>
  The name of an edge kind parses back to the kind, and no other text parses to it; the
  list of all kinds has every kind once.
\<close>

theorem kind_names_roundtrip:
  "parse_kind s = Some k \<longleftrightarrow> s = as_str_kind k" and "set ALL_KINDS = UNIV" and "distinct ALL_KINDS"
proof -
  have arms: "map fst kind_arms = map as_str_kind ALL_KINDS"
    unfolding kind_arms_names [symmetric] by (simp add: comp_def)
  then have d: "distinct (map fst kind_arms)" using distinct_kind_names by (simp only: arms)
  have "parse_kind s = Some k \<longleftrightarrow> (s, k) \<in> set kind_arms"
    unfolding parse_kind_def by (rule map_of_eq_Some_iff [OF d])
  also have "\<dots> \<longleftrightarrow> s = as_str_kind k"
    unfolding kind_arms_names [symmetric] using ALL_KINDS_complete by auto
  finally show "parse_kind s = Some k \<longleftrightarrow> s = as_str_kind k" .
  show "set ALL_KINDS = UNIV" using ALL_KINDS_complete by auto
  show "distinct ALL_KINDS" using distinct_kind_names by (simp only: distinct_map)
qed

end
