(* ===== verification/Migration_Order.thy ===== *)
theory Migration_Order
  imports Graph_Data Security
begin

text \<open>
  The migration order planner (\<open>engram_server/src/services/migration_order_service.rs\<close>): the
  dependency lists of the file nodes, Kahn's algorithm in waves with a depth-first cycle finder
  that breaks stalls, and the plan built from the waves. Node identifiers and paths are UTF-8
  bytes. The set of remaining files is kept as a sorted list; \<open>order\<close> is the iteration order of
  a hash set, a function of its elements here. Loops that the code does not bound are partial
  functions on \<open>option\<close>, where \<open>None\<close> is a call that does not return.
\<close>

section \<open>The plan\<close>

record wave_file =
  wf_path :: string
  wf_file_type :: string
  wf_node_type :: string
  dependency_count :: nat
  dependent_count :: nat
  wf_reason :: string
  estimated_complexity :: string

record migration_wave =
  wave_number :: "32 word"
  theme :: string
  wave_files :: "wave_file list"
  prerequisites :: "string list"
  strangler_fig_checkpoint :: bool

record bottleneck_file =
  bf_path :: string
  blocks_count :: nat
  suggestion :: string

record migration_order_plan =
  mp_project_id :: string
  total_files :: nat
  plan_waves :: "migration_wave list"
  circular_dependencies :: "string list list"
  bottleneck_files :: "bottleneck_file list"
  plan_summary :: string

section \<open>Labels\<close>

definition DEP_KINDS :: "edge_kind list" where
  "DEP_KINDS = [Dependency, Imports, RegistersControl, IncludesFile]"

text \<open>\<open>Path::extension\<close> of a file name: the part behind the last dot, unless that dot is the first byte.\<close>

definition name_extension :: "string \<Rightarrow> string option" where
  "name_extension name =
     (let after = rev (takeWhile (\<lambda>c. c \<noteq> CHR ''.'') (rev name));
          before = take (length name - length after - 1) name
      in if CHR ''.'' \<notin> set name \<or> before = [] then None else Some after)"

definition file_type_from_path :: "(string \<Rightarrow> string) \<Rightarrow> string \<Rightarrow> string" where
  "file_type_from_path to_lowercase path =
     (let lower = to_lowercase path in
      if suffix ''.aspx.vb'' lower \<or> suffix ''.aspx.cs'' lower then ''code-behind''
      else if suffix ''.ascx.vb'' lower \<or> suffix ''.ascx.cs'' lower then ''control-code-behind''
      else
        let ext = to_lowercase (case Option.bind (file_name (components path)) name_extension of None \<Rightarrow> '''' | Some e \<Rightarrow> e) in
        if ext \<in> {''aspx'', ''ascx'', ''master'', ''vb'', ''cs'', ''asmx'', ''ashx'', ''svc'', ''asax'', ''config'', ''asp''} then ext
        else if ext \<in> {''rdlc'', ''rdl'', ''rpt''} then ''report''
        else if ext \<in> {''js'', ''css''} then ext
        else ''other'')"

text \<open>\<open>Iterator::max_by_key\<close>: the last of several maxima.\<close>

fun last_max :: "('a \<Rightarrow> nat) \<Rightarrow> 'a list \<Rightarrow> 'a option" where
  "last_max f [] = None"
| "last_max f (x # xs) = Some (foldl (\<lambda>b y. if f b \<le> f y then y else b) x xs)"

definition count_type :: "wave_file list \<Rightarrow> string \<Rightarrow> nat" where
  "count_type files t = length (filter (\<lambda>f. wf_file_type f = t) files)"

text \<open>\<open>order\<close> is the iteration order of the hash map of counts, whose keys are the types present.\<close>

definition dominant_type :: "(string list \<Rightarrow> string list) \<Rightarrow> wave_file list \<Rightarrow> string" where
  "dominant_type order files =
     (case last_max (count_type files) (order (remdups (map wf_file_type files))) of None \<Rightarrow> ''other'' | Some t \<Rightarrow> t)"

definition theme_for_wave :: "(string list \<Rightarrow> string list) \<Rightarrow> wave_file list \<Rightarrow> string" where
  "theme_for_wave order files =
     (let dominant = dominant_type order files in
      if dominant = ''config'' then ''Configuration: app settings and connection strings''
      else if dominant \<in> {''ascx'', ''control-code-behind''} then ''Components: shared user controls''
      else if dominant = ''master'' then ''Layout: master pages and templates''
      else if dominant \<in> {''asmx'', ''ashx'', ''svc''} then ''Services: web services and handlers''
      else if dominant \<in> {''aspx'', ''code-behind''} then ''Pages: application pages''
      else if dominant = ''asp'' then ''Classic ASP: legacy script pages''
      else if dominant \<in> {''report'', ''rdlc'', ''rdl'', ''rpt''} then ''Reports: reporting components''
      else if dominant = ''asax'' then ''Application: global infrastructure''
      else if dominant \<in> {''vb'', ''cs''} then
        (if count_type files ''code-behind'' > 0 \<or> count_type files ''vb'' + count_type files ''cs'' = 0
         then ''Mixed: application code'' else ''Foundation: shared libraries and utilities'')
      else ''Mixed: application code'')"

definition estimate_complexity :: "nat \<Rightarrow> string" where
  "estimate_complexity total_edges =
     (if total_edges \<le> 3 then ''Low'' else if total_edges \<le> 8 then ''Medium'' else ''High'')"

section \<open>Finding a cycle\<close>

text \<open>The call stack has its top first; \<open>stack\<close> is in the order of the vector.\<close>

record dfs_state =
  visited :: "string set"
  stack :: "string list"
  on_stack :: "string set"
  call_stack :: "(string \<times> nat) list"

definition back_edge_cycle :: "string \<Rightarrow> string list \<Rightarrow> string list" where
  "back_edge_cycle next stk = (if next \<in> set stk then dropWhile (\<lambda>n. n \<noteq> next) stk else stk)"

text \<open>One turn of the \<open>while let\<close> loop: \<open>Inl\<close> returns the cycle, \<open>Inr\<close> goes on.\<close>

definition dfs_step :: "string set \<Rightarrow> (string \<Rightarrow> string list) \<Rightarrow> string \<Rightarrow> nat \<Rightarrow> (string \<times> nat) list \<Rightarrow> dfs_state \<Rightarrow> string list + dfs_state" where
  "dfs_step remaining adj node idx rest d =
     (if idx = 0 \<and> node \<in> visited d then Inr (d\<lparr>call_stack := rest\<rparr>)
      else
        let d1 = (if idx = 0
                  then d\<lparr>visited := insert node (visited d), on_stack := insert node (on_stack d), stack := stack d @ [node]\<rparr>
                  else d);
            neighbors = adj node
        in if idx < length neighbors then
             let next = neighbors ! idx; d2 = d1\<lparr>call_stack := (node, idx + 1) # rest\<rparr> in
             if next \<notin> remaining then Inr d2
             else if next \<in> on_stack d1 then Inl (back_edge_cycle next (stack d1))
             else if next \<notin> visited d1 then Inr (d2\<lparr>call_stack := (next, 0) # call_stack d2\<rparr>)
             else Inr d2
           else Inr (d1\<lparr>on_stack := on_stack d1 - {node}, stack := butlast (stack d1), call_stack := rest\<rparr>))"

partial_function (option) dfs_loop ::
  "string set \<Rightarrow> (string \<Rightarrow> string list) \<Rightarrow> dfs_state \<Rightarrow> (string list + dfs_state) option" where
  "dfs_loop remaining adj d =
     (case call_stack d of [] \<Rightarrow> Some (Inr d)
      | frame # rest \<Rightarrow>
          (case dfs_step remaining adj (fst frame) (snd frame) rest d of
             Inl cycle \<Rightarrow> Some (Inl cycle)
           | Inr d' \<Rightarrow> dfs_loop remaining adj d'))"

fun dfs_starts :: "string set \<Rightarrow> (string \<Rightarrow> string list) \<Rightarrow> string list \<Rightarrow> dfs_state \<Rightarrow> string list option option" where
  "dfs_starts remaining adj [] d = Some None"
| "dfs_starts remaining adj (start # starts) d =
     (if start \<in> visited d then dfs_starts remaining adj starts d
      else case dfs_loop remaining adj (d\<lparr>call_stack := [(start, 0)]\<rparr>) of
             None \<Rightarrow> None
           | Some (Inl cycle) \<Rightarrow> Some (Some cycle)
           | Some (Inr d') \<Rightarrow> dfs_starts remaining adj starts d')"

definition find_cycle :: "(string list \<Rightarrow> string list) \<Rightarrow> string list \<Rightarrow> (string \<Rightarrow> string list) \<Rightarrow> string list option option" where
  "find_cycle order remaining adj =
     dfs_starts (set remaining) adj (order remaining) \<lparr> visited = {}, stack = [], on_stack = {}, call_stack = [] \<rparr>"

section \<open>The dependency lists\<close>

text \<open>Keys and values of the map from identifiers to nodes; a repeated identifier keeps the last node.\<close>

definition node_by_id :: "graph_node list \<Rightarrow> string \<Rightarrow> graph_node option" where
  "node_by_id nodes = map_of (rev (map (\<lambda>n. (node_id n, n)) nodes))"

definition all_ids :: "graph_node list \<Rightarrow> string list" where
  "all_ids nodes = sort (remdups (map node_id nodes))"

definition internal_edges :: "string list \<Rightarrow> graph_edge list \<Rightarrow> graph_edge list" where
  "internal_edges ids edges = filter (\<lambda>e. source_id e \<in> set ids \<and> target_id e \<in> set ids) edges"

definition deps_of :: "string list \<Rightarrow> graph_edge list \<Rightarrow> string \<Rightarrow> string list" where
  "deps_of ids edges i = remdups_adj (sort (map target_id (filter (\<lambda>e. source_id e = i) (internal_edges ids edges))))"

definition dependents_of :: "string list \<Rightarrow> graph_edge list \<Rightarrow> string \<Rightarrow> string list" where
  "dependents_of ids edges i = remdups_adj (sort (map source_id (filter (\<lambda>e. target_id e = i) (internal_edges ids edges))))"

definition total_edges_for :: "string list \<Rightarrow> graph_edge list \<Rightarrow> string \<Rightarrow> nat" where
  "total_edges_for ids edges i =
     (if i \<in> set ids then length (filter (\<lambda>e. source_id e = i) edges) + length (filter (\<lambda>e. target_id e = i) edges) else 0)"

section \<open>The waves\<close>

record kahn_state =
  remaining :: "string list"
  in_degree :: "string \<Rightarrow> nat"
  waves :: "string list list"
  cycles :: "string list list"

definition kahn_start :: "string list \<Rightarrow> (string \<Rightarrow> string list) \<Rightarrow> kahn_state" where
  "kahn_start ids deps = \<lparr> remaining = ids, in_degree = (\<lambda>i. length (deps i)), waves = [], cycles = [] \<rparr>"

definition zero_in_degree :: "(string list \<Rightarrow> string list) \<Rightarrow> kahn_state \<Rightarrow> string list" where
  "zero_in_degree order st = filter (\<lambda>i. in_degree st i = 0) (order (remaining st))"

text \<open>\<open>min_by\<close>: the smallest in-degree, then the smallest identifier.\<close>

definition prefers :: "(string \<Rightarrow> nat) \<Rightarrow> string \<Rightarrow> string \<Rightarrow> bool" where
  "prefers deg a b \<longleftrightarrow> deg a < deg b \<or> deg a = deg b \<and> a < b"

fun break_node :: "(string \<Rightarrow> nat) \<Rightarrow> string list \<Rightarrow> string option" where
  "break_node deg [] = None"
| "break_node deg (x # xs) = Some (foldl (\<lambda>b y. if prefers deg y b then y else b) x xs)"

text \<open>A stall: the nodes to release, the cycles recorded so far and the nodes that remain.\<close>

definition stalled ::
  "(string list \<Rightarrow> string list) \<Rightarrow> (string \<Rightarrow> string) \<Rightarrow> (string \<Rightarrow> string list) \<Rightarrow> kahn_state
     \<Rightarrow> (string list \<times> string list list \<times> string list) option" where
  "stalled order path_of deps st =
     (case find_cycle order (remaining st) deps of
        None \<Rightarrow> None
      | Some (Some cycle) \<Rightarrow>
          let cs = cycles st @ [map path_of cycle] in
          (case break_node (in_degree st) (filter (\<lambda>i. i \<in> set (remaining st)) cycle) of
             Some bn \<Rightarrow> Some ([bn], cs, remaining st)
           | None \<Rightarrow> Some (if remaining st = [] then [] else [Min (set (remaining st))], cs, remaining st))
      | Some None \<Rightarrow> Some (sort (remaining st), cycles st, []))"

fun decrement :: "string set \<Rightarrow> string list \<Rightarrow> (string \<Rightarrow> nat) \<Rightarrow> string \<Rightarrow> nat" where
  "decrement rem [] deg = deg"
| "decrement rem (d # ds) deg = decrement rem ds (if d \<in> rem then deg(d := deg d - 1) else deg)"

fun release_wave :: "string set \<Rightarrow> (string \<Rightarrow> string list) \<Rightarrow> string list \<Rightarrow> (string \<Rightarrow> nat) \<Rightarrow> string \<Rightarrow> nat" where
  "release_wave rem dependents [] deg = deg"
| "release_wave rem dependents (i # is) deg = release_wave rem dependents is (decrement rem (dependents i) deg)"

definition place_wave :: "(string \<Rightarrow> string list) \<Rightarrow> string list \<Rightarrow> string list list \<Rightarrow> string list \<Rightarrow> kahn_state \<Rightarrow> kahn_state" where
  "place_wave dependents zero cs rem st =
     (let wave = sort zero; rem' = filter (\<lambda>i. i \<notin> set wave) rem in
      \<lparr> remaining = rem', in_degree = release_wave (set rem') dependents wave (in_degree st),
        waves = waves st @ [wave], cycles = cs \<rparr>)"

partial_function (option) kahn_loop ::
  "(string list \<Rightarrow> string list) \<Rightarrow> (string \<Rightarrow> string) \<Rightarrow> (string \<Rightarrow> string list) \<Rightarrow> (string \<Rightarrow> string list)
     \<Rightarrow> kahn_state \<Rightarrow> kahn_state option" where
  "kahn_loop order path_of deps dependents st =
     (if zero_in_degree order st = [] \<and> remaining st = [] then Some st
      else case (if zero_in_degree order st = [] then stalled order path_of deps st
                 else Some (zero_in_degree order st, cycles st, remaining st)) of
             None \<Rightarrow> None
           | Some z \<Rightarrow>
               if fst z = [] then Some (st\<lparr>cycles := fst (snd z), remaining := snd (snd z)\<rparr>)
               else kahn_loop order path_of deps dependents (place_wave dependents (fst z) (fst (snd z)) (snd (snd z)) st))"

section \<open>The entries of the plan\<close>

definition wave_reason :: "nat \<Rightarrow> nat \<Rightarrow> nat \<Rightarrow> string" where
  "wave_reason number dep_count dependents =
     (if number = 1 then ''No unmigrated dependencies '' @ [CHR 0xE2, CHR 0x80, CHR 0x94] @ '' leaf node''
      else if dependents > 5 then ''Blocks '' @ show_nat dependents @ '' downstream files''
      else ''Depends on '' @ show_nat dep_count @ '' files from earlier waves'')"

definition wave_entry ::
  "(string \<Rightarrow> string) \<Rightarrow> (string \<Rightarrow> string list) \<Rightarrow> (string \<Rightarrow> string list) \<Rightarrow> (string \<Rightarrow> nat) \<Rightarrow> nat
     \<Rightarrow> string \<Rightarrow> graph_node \<Rightarrow> wave_file" where
  "wave_entry to_lowercase deps dependents total_edges number i node =
     \<lparr> wf_path = file_path node, wf_file_type = file_type_from_path to_lowercase (file_path node),
       wf_node_type = node_type node, dependency_count = length (deps i), dependent_count = length (dependents i),
       wf_reason = wave_reason number (length (deps i)) (length (dependents i)),
       estimated_complexity = estimate_complexity (total_edges i) \<rparr>"

definition entries_of_wave ::
  "(string \<Rightarrow> string) \<Rightarrow> (string \<Rightarrow> graph_node option) \<Rightarrow> (string \<Rightarrow> string list) \<Rightarrow> (string \<Rightarrow> string list)
     \<Rightarrow> (string \<Rightarrow> nat) \<Rightarrow> nat \<Rightarrow> string list \<Rightarrow> wave_file list" where
  "entries_of_wave to_lowercase nodes deps dependents total_edges number ids =
     sort_key wf_path (List.map_filter
       (\<lambda>i. map_option (wave_entry to_lowercase deps dependents total_edges number i) (nodes i)) ids)"

text \<open>
  The loop over the waves: \<open>cumulative\<close> are the paths of the earlier waves, \<open>previous\<close> the theme of
  the wave before. Wave numbers are 32-bit.
\<close>

fun build_waves ::
  "(nat \<Rightarrow> string list \<Rightarrow> string list) \<Rightarrow> (nat \<Rightarrow> string list \<Rightarrow> wave_file list) \<Rightarrow> nat \<Rightarrow> string list \<Rightarrow> string option
     \<Rightarrow> string list list \<Rightarrow> migration_wave list" where
  "build_waves theme_order entry idx cumulative previous [] = []"
| "build_waves theme_order entry idx cumulative previous (ids # rest) =
     (let number = word_of_nat (idx + 1);
          files = entry (unat (number :: 32 word)) ids;
          th = theme_for_wave (theme_order idx) files;
          changed = (case previous of None \<Rightarrow> False | Some prev \<Rightarrow> prev \<noteq> th) in
      \<lparr> wave_number = number, theme = th, wave_files = files, prerequisites = cumulative,
        strangler_fig_checkpoint = (number mod 3 = 0 \<or> changed) \<rparr>
      # build_waves theme_order entry (idx + 1) (cumulative @ map wf_path files) (Some th) rest)"

fun dedup_by_path :: "wave_file list \<Rightarrow> wave_file list" where
  "dedup_by_path (f # g # fs) = (if wf_path f = wf_path g then dedup_by_path (f # fs) else f # dedup_by_path (g # fs))"
| "dedup_by_path fs = fs"

definition QUOTE :: string where "QUOTE = [CHR 0x27]"
definition NL :: string where "NL = [CHR 0x0A]"

definition bottleneck_of :: "wave_file \<Rightarrow> bottleneck_file" where
  "bottleneck_of f = \<lparr> bf_path = wf_path f, blocks_count = dependent_count f,
     suggestion = ''Extract shared logic from '' @ QUOTE @ wf_path f @ QUOTE
       @ '' into a separate library module to reduce coupling and allow parallel migration of the ''
       @ show_nat (dependent_count f) @ '' dependent file(s).'' \<rparr>"

definition bottlenecks :: "migration_wave list \<Rightarrow> bottleneck_file list" where
  "bottlenecks ws =
     map bottleneck_of (filter (\<lambda>f. dependent_count f > 0)
       (take 5 (dedup_by_path (sort_key (\<lambda>f. - int (dependent_count f)) (concat (map wave_files ws))))))"

section \<open>The summary\<close>

text \<open>\<open>{:>2}\<close>: padded on the left to two characters.\<close>

definition pad2 :: "string \<Rightarrow> string" where
  "pad2 s = replicate (2 - length s) CHR '' '' @ s"

definition show_u32 :: "32 word \<Rightarrow> string" where
  "show_u32 n = show_nat (unat n)"

definition flow_line :: "migration_wave \<Rightarrow> string" where
  "flow_line w = ''Wave '' @ pad2 (show_u32 (wave_number w)) @ '': ['' @ theme w @ ''] ('' @ show_nat (length (wave_files w)) @ '' files)''
     @ (if strangler_fig_checkpoint w then '' '' @ [CHR 0xE2, CHR 0x86, CHR 0x90] @ '' Strangler-Fig Checkpoint'' else []) @ NL"

definition file_row :: "wave_file \<Rightarrow> string" where
  "file_row f = ''| `'' @ wf_path f @ ''` | '' @ wf_file_type f @ '' | '' @ estimated_complexity f @ '' | '' @ wf_reason f @ '' |'' @ NL"

definition wave_section :: "migration_wave \<Rightarrow> string" where
  "wave_section w =
     ''### Wave '' @ show_u32 (wave_number w) @ '': '' @ theme w @ NL @ NL
     @ (if prerequisites w = [] then [] else ''_Prerequisites: '' @ show_nat (length (prerequisites w)) @ '' earlier files_'' @ NL @ NL)
     @ ''| File | Type | Complexity | Reason |'' @ NL @ ''|------|------|------------|--------|'' @ NL
     @ concat (map file_row (wave_files w))
     @ (if strangler_fig_checkpoint w
        then NL @ ''> **Strangler-Fig Checkpoint** '' @ [CHR 0xE2, CHR 0x80, CHR 0x94] @ '' validate integration before proceeding.'' @ NL
        else [])
     @ NL"

definition bottleneck_row :: "bottleneck_file \<Rightarrow> string" where
  "bottleneck_row b = ''| `'' @ bf_path b @ ''` | '' @ show_nat (blocks_count b) @ '' | '' @ suggestion b @ '' |'' @ NL"

text \<open>\<open>join\<close> with an arrow between the paths.\<close>

fun join_arrow :: "string list \<Rightarrow> string" where
  "join_arrow [] = []"
| "join_arrow [p] = p"
| "join_arrow (p # q # ps) = p @ '' '' @ [CHR 0xE2, CHR 0x86, CHR 0x92] @ '' '' @ join_arrow (q # ps)"

fun cycle_rows :: "nat \<Rightarrow> string list list \<Rightarrow> string" where
  "cycle_rows i [] = []"
| "cycle_rows i (c # cs) = show_nat i @ ''. `'' @ join_arrow c @ ''`'' @ NL @ cycle_rows (i + 1) cs"

definition build_summary :: "string \<Rightarrow> migration_wave list \<Rightarrow> bottleneck_file list \<Rightarrow> string list list \<Rightarrow> string" where
  "build_summary project ws bs cs =
     ''# Migration Order Plan: '' @ project @ NL @ NL
     @ ''**'' @ show_nat (sum_list (map (length \<circ> wave_files) ws)) @ '' files** across **'' @ show_nat (length ws) @ '' waves**'' @ NL @ NL
     @ (if ws = [] then []
        else ''## Dependency Flow'' @ NL @ NL @ ''```'' @ NL @ concat (map flow_line ws) @ ''```'' @ NL @ NL)
     @ ''## Waves'' @ NL @ NL @ concat (map wave_section ws)
     @ (if bs = [] then []
        else ''## Bottleneck Files'' @ NL @ NL @ ''| File | Blocks | Suggestion |'' @ NL @ ''|------|--------|------------|'' @ NL
          @ concat (map bottleneck_row bs) @ NL)
     @ (if cs = [] then []
        else ''## Circular Dependencies Detected'' @ NL @ NL
          @ ''> Cycles were automatically broken by removing the weakest back-edge,'' @ NL
          @ ''> but manual refactoring is recommended.'' @ NL @ NL @ cycle_rows 0 cs @ NL)"

section \<open>The entry point\<close>

text \<open>
  The graph queries are parameters: \<open>file_nodes\<close> is the result of \<open>query_nodes\<close>, \<open>edges_by_kind\<close>
  that of \<open>list_edges_by_kind\<close>; both can fail. \<open>plan_of\<close> is the part after the waves.
\<close>

definition path_of :: "graph_node list \<Rightarrow> string \<Rightarrow> string" where
  "path_of nodes i = (case node_by_id nodes i of None \<Rightarrow> i | Some n \<Rightarrow> file_path n)"

definition plan_of ::
  "(nat \<Rightarrow> string list \<Rightarrow> string list) \<Rightarrow> (string \<Rightarrow> string) \<Rightarrow> string \<Rightarrow> graph_node list \<Rightarrow> graph_edge list \<Rightarrow> graph_edge list
     \<Rightarrow> kahn_state \<Rightarrow> migration_order_plan" where
  "plan_of theme_order to_lowercase project nodes dep_edges all_edges st =
     (let ids = all_ids nodes;
          entry = entries_of_wave to_lowercase (node_by_id nodes) (deps_of ids dep_edges) (dependents_of ids dep_edges)
            (total_edges_for ids all_edges);
          ws = build_waves theme_order entry 0 [] None (waves st);
          bs = bottlenecks ws
      in \<lparr> mp_project_id = project, total_files = length nodes, plan_waves = ws, circular_dependencies = cycles st,
           bottleneck_files = bs, plan_summary = build_summary project ws bs (cycles st) \<rparr>)"

definition empty_plan :: "string \<Rightarrow> migration_order_plan" where
  "empty_plan project = \<lparr> mp_project_id = project, total_files = 0, plan_waves = [], circular_dependencies = [],
     bottleneck_files = [],
     plan_summary = ''# Migration Order: '' @ project @ NL @ NL @ ''No file nodes found in the graph.'' \<rparr>"

definition suggest_migration_order ::
  "(string list \<Rightarrow> string list) \<Rightarrow> (nat \<Rightarrow> string list \<Rightarrow> string list) \<Rightarrow> (string \<Rightarrow> string)
     \<Rightarrow> (string \<Rightarrow> graph_node list res) \<Rightarrow> (string \<Rightarrow> edge_kind \<Rightarrow> graph_edge list res) \<Rightarrow> string
     \<Rightarrow> migration_order_plan res option" where
  "suggest_migration_order order theme_order to_lowercase file_nodes edges_by_kind project =
     (case file_nodes project of Inl e \<Rightarrow> Some (Inl e)
      | Inr nodes \<Rightarrow>
          if nodes = [] then Some (Inr (empty_plan project))
          else (case bindR (traverseR (edges_by_kind project) DEP_KINDS) (\<lambda>dep_rows.
                     bindR (traverseR (edges_by_kind project) ALL_KINDS) (\<lambda>all_rows.
                     Inr (concat dep_rows, concat all_rows))) of
                  Inl e \<Rightarrow> Some (Inl e)
                | Inr (dep_edges, all_edges) \<Rightarrow>
                    let ids = all_ids nodes in
                    map_option (\<lambda>st. Inr (plan_of theme_order to_lowercase project nodes dep_edges all_edges st))
                      (kahn_loop order (path_of nodes) (deps_of ids dep_edges) (dependents_of ids dep_edges)
                         (kahn_start ids (deps_of ids dep_edges)))))"

end
