(* ===== verification/Migration_Lemmas.thy ===== *)
theory Migration_Lemmas
  imports Migration_Order
begin

text \<open>
  The correctness of the cycle finder and of the wave loop of the migration planner: invariants of
  both loops, the measures that make them return, and what holds of their results.
\<close>

section \<open>Dependency orders and dependency cycles\<close>

text \<open>A list in which every node comes before its dependencies, the last entry first to be migrated.\<close>

fun dependency_order :: "string set \<Rightarrow> (string \<Rightarrow> string list) \<Rightarrow> string list \<Rightarrow> bool" where
  "dependency_order nodes adj [] \<longleftrightarrow> True"
| "dependency_order nodes adj (a # bs) \<longleftrightarrow>
     a \<notin> set bs \<and> (\<forall>b \<in> set (adj a). b \<in> nodes \<longrightarrow> b \<in> set bs) \<and> dependency_order nodes adj bs"

text \<open>A cycle: distinct nodes, each of which depends on the next, the last one on the first.\<close>

definition dependency_cycle :: "string set \<Rightarrow> (string \<Rightarrow> string list) \<Rightarrow> string list \<Rightarrow> bool" where
  "dependency_cycle nodes adj c \<longleftrightarrow> c \<noteq> [] \<and> distinct c \<and> set c \<subseteq> nodes
     \<and> (\<forall>k < length c. c ! (Suc k mod length c) \<in> set (adj (c ! k)))"

lemma cycle_successor:
  assumes "dependency_cycle nodes adj c" and "a \<in> set c"
  shows "\<exists>b \<in> set c. b \<in> set (adj a)"
proof -
  obtain k where k: "k < length c" "c ! k = a" using assms(2) by (auto simp: in_set_conv_nth)
  have "Suc k mod length c < length c" by (rule mod_less_divisor) (use k in auto)
  with k assms(1) show ?thesis by (auto simp: dependency_cycle_def intro!: bexI [of _ "c ! (Suc k mod length c)"])
qed

text \<open>A set of nodes has a cycle or a complete dependency order, never both.\<close>

lemma order_excludes_cycle:
  assumes "dependency_order nodes adj bs" and "dependency_cycle nodes adj c"
  shows "set c \<inter> set bs = {}"
  using assms(1)
proof (induction bs)
  case (Cons a bs)
  then have none: "set c \<inter> set bs = {}" by simp
  have "a \<notin> set c"
  proof
    assume "a \<in> set c"
    with cycle_successor [OF assms(2)] obtain b where "b \<in> set c" "b \<in> set (adj a)" by blast
    moreover have "b \<in> nodes" using \<open>b \<in> set c\<close> assms(2) by (auto simp: dependency_cycle_def)
    ultimately show False using Cons.prems none by auto
  qed
  with none show ?case by simp
qed simp

section \<open>The invariant of the search\<close>

text \<open>
  The frames below the node \<open>child\<close>: each has just passed on to the node above it, and its earlier
  neighbours are finished.
\<close>

fun frames_ok :: "string set \<Rightarrow> (string \<Rightarrow> string list) \<Rightarrow> string set \<Rightarrow> string \<Rightarrow> (string \<times> nat) list \<Rightarrow> bool" where
  "frames_ok nodes adj done child [] \<longleftrightarrow> True"
| "frames_ok nodes adj done child ((a, i) # rest) \<longleftrightarrow>
     0 < i \<and> i \<le> length (adj a) \<and> adj a ! (i - 1) = child
     \<and> (\<forall>j < i - 1. adj a ! j \<in> nodes \<longrightarrow> adj a ! j \<in> done) \<and> frames_ok nodes adj done a rest"

definition finished :: "dfs_state \<Rightarrow> string set" where
  "finished d = visited d - on_stack d"

definition dfs_sets :: "string set \<Rightarrow> (string \<Rightarrow> string list) \<Rightarrow> dfs_state \<Rightarrow> bool" where
  "dfs_sets nodes adj d \<longleftrightarrow> distinct (stack d) \<and> on_stack d = set (stack d) \<and> on_stack d \<subseteq> visited d \<and> visited d \<subseteq> nodes
     \<and> (\<exists>bs. set bs = finished d \<and> dependency_order nodes adj bs)"

text \<open>The node \<open>a\<close> is on top of the stack and its first \<open>i\<close> neighbours are finished.\<close>

definition dfs_core :: "string set \<Rightarrow> (string \<Rightarrow> string list) \<Rightarrow> dfs_state \<Rightarrow> string \<Rightarrow> nat \<Rightarrow> (string \<times> nat) list \<Rightarrow> bool" where
  "dfs_core nodes adj d a i act \<longleftrightarrow> dfs_sets nodes adj d \<and> stack d = rev (map fst act) @ [a] \<and> i \<le> length (adj a)
     \<and> (\<forall>j < i. adj a ! j \<in> nodes \<longrightarrow> adj a ! j \<in> finished d) \<and> frames_ok nodes adj (finished d) a act"

definition dfs_inv :: "string set \<Rightarrow> (string \<Rightarrow> string list) \<Rightarrow> dfs_state \<Rightarrow> bool" where
  "dfs_inv nodes adj d \<longleftrightarrow> (case call_stack d of
       [] \<Rightarrow> dfs_sets nodes adj d \<and> stack d = []
     | (a, i) # act \<Rightarrow>
         if i = 0 then dfs_sets nodes adj d \<and> stack d = rev (map fst act) \<and> a \<in> nodes \<and> a \<notin> visited d
           \<and> frames_ok nodes adj (finished d) a act
         else dfs_core nodes adj d a i act)"

lemma frames_mono:
  "frames_ok nodes adj B a act \<Longrightarrow> B \<subseteq> C \<Longrightarrow> frames_ok nodes adj C a act"
proof (induction act arbitrary: a)
  case (Cons f act)
  obtain b i where f: "f = (b, i)" by (cases f)
  with Cons.prems have "frames_ok nodes adj B b act" by simp
  from Cons.IH [OF this Cons.prems(2)] Cons.prems f show ?case by (simp add: subset_eq)
qed simp

lemma frames_chain:
  "frames_ok nodes adj B a act \<Longrightarrow> successively (\<lambda>x y. x \<in> set (adj y)) (a # map fst act)"
proof (induction act arbitrary: a)
  case (Cons f act)
  obtain b i where f: "f = (b, i)" by (cases f)
  with Cons.prems have "a = adj b ! (i - 1)" "i - 1 < length (adj b)" "frames_ok nodes adj B b act" by auto
  with Cons.IH [of b] f show ?case by auto
qed simp

text \<open>A back edge closes the part of the stack above its target to a cycle.\<close>

lemma back_edge_cycle:
  assumes core: "dfs_core nodes adj d a i act" and next_node: "n \<in> set (adj a)" "n \<in> on_stack d"
  shows "dependency_cycle nodes adj (back_edge_cycle n (stack d))"
proof -
  let ?c = "dropWhile (\<lambda>x. x \<noteq> n) (stack d)"
  have "dfs_sets nodes adj d" and stk: "stack d = rev (a # map fst act)" and fr: "frames_ok nodes adj (finished d) a act"
    using core by (simp_all add: dfs_core_def)
  then have sets: "distinct (stack d)" "on_stack d = set (stack d)" "set (stack d) \<subseteq> nodes"
    unfolding dfs_sets_def by blast+
  have n: "n \<in> set (stack d)" using next_node(2) sets(2) by simp
  have chain: "successively (\<lambda>x y. y \<in> set (adj x)) (stack d)"
    unfolding stk successively_rev using frames_chain [OF fr] by simp
  then have "successively (\<lambda>x y. y \<in> set (adj x)) (takeWhile (\<lambda>x. x \<noteq> n) (stack d) @ ?c)" by simp
  then have chain: "successively (\<lambda>x y. y \<in> set (adj x)) ?c" by (simp only: successively_append_iff)
  have ne: "?c \<noteq> []" using n by (simp add: dropWhile_eq_Nil_conv)
  have hd: "?c ! 0 = n" using hd_dropWhile [of "\<lambda>x. x \<noteq> n" "stack d"] n ne by (simp add: hd_conv_nth)
  have "last (takeWhile (\<lambda>x. x \<noteq> n) (stack d) @ ?c) = last ?c" by (rule last_appendR [OF ne])
  then have last: "?c ! (length ?c - 1) = a" using ne stk by (simp add: last_conv_nth)
  have "?c ! (Suc k mod length ?c) \<in> set (adj (?c ! k))" if k: "k < length ?c" for k
  proof (cases "Suc k = length ?c")
    case True
    then have "?c ! k = a" using last by (simp add: True [symmetric])
    with True hd next_node(1) show ?thesis by simp
  next
    case False
    with k have "Suc k < length ?c" by simp
    with chain show ?thesis by (simp add: successively_conv_nth)
  qed
  moreover have "distinct ?c" "set ?c \<subseteq> nodes"
    using sets(1,3) by (auto simp: distinct_dropWhile dest: set_dropWhileD)
  ultimately have "dependency_cycle nodes adj ?c" using ne by (simp add: dependency_cycle_def)
  then show ?thesis using n by (simp add: back_edge_cycle_def)
qed

section \<open>The steps of the search\<close>

text \<open>The measure: what is left to do at unvisited nodes and in the frames.\<close>

definition frame_weight :: "(string \<Rightarrow> string list) \<Rightarrow> string \<times> nat \<Rightarrow> nat" where
  "frame_weight adj f = (if snd f = 0 then 1 else 2 * (length (adj (fst f)) - snd f) + 1)"

definition dfs_measure :: "string set \<Rightarrow> (string \<Rightarrow> string list) \<Rightarrow> dfs_state \<Rightarrow> nat" where
  "dfs_measure nodes adj d =
     (\<Sum>n \<in> nodes - visited d. 2 * length (adj n) + 3) + sum_list (map (frame_weight adj) (call_stack d))"

definition seen :: "dfs_state \<Rightarrow> string set" where
  "seen d = visited d \<union> fst ` set (call_stack d)"

lemma core_not_finished:
  assumes "dfs_core nodes adj d a i act"
  shows "a \<notin> finished d" "a \<in> visited d" "a \<in> nodes" "a \<in> on_stack d"
  using assms by (auto simp: dfs_core_def dfs_sets_def finished_def)

lemma call_stack_irrelevant [simp]:
  "finished (d\<lparr>call_stack := cs\<rparr>) = finished d" "dfs_sets nodes adj (d\<lparr>call_stack := cs\<rparr>) = dfs_sets nodes adj d"
  "dfs_core nodes adj (d\<lparr>call_stack := cs\<rparr>) a i act = dfs_core nodes adj d a i act"
  by (simp_all add: dfs_core_def dfs_sets_def finished_def)

text \<open>A neighbour that needs no visit: the frame goes on to the next one.\<close>

lemma core_skip:
  assumes "dfs_core nodes adj d a i act" and "i < length (adj a)" and "adj a ! i \<in> nodes \<Longrightarrow> adj a ! i \<in> finished d"
  shows "dfs_core nodes adj (d\<lparr>call_stack := cs\<rparr>) a (Suc i) act"
  using assms unfolding call_stack_irrelevant dfs_core_def by (simp add: less_Suc_eq)

text \<open>A new neighbour: a fresh frame on top.\<close>

lemma core_push:
  assumes "dfs_core nodes adj d a i act" and "i < length (adj a)" and "adj a ! i \<in> nodes" and "adj a ! i \<notin> visited d"
  shows "dfs_inv nodes adj (d\<lparr>call_stack := (adj a ! i, 0) # (a, Suc i) # act\<rparr>)"
  using assms by (simp add: dfs_inv_def) (simp add: dfs_core_def)

text \<open>The last neighbour is done: the node is finished.\<close>

lemma core_finish:
  assumes core: "dfs_core nodes adj d a i act" and fin: "\<not> i < length (adj a)"
  shows "dfs_inv nodes adj (d\<lparr>on_stack := on_stack d - {a}, stack := butlast (stack d), call_stack := act\<rparr>)"
proof -
  let ?d = "d\<lparr>on_stack := on_stack d - {a}, stack := butlast (stack d), call_stack := act\<rparr>"
  have sets: "dfs_sets nodes adj d" and stk: "stack d = rev (map fst act) @ [a]" and i: "i = length (adj a)"
    and nb: "\<forall>j < i. adj a ! j \<in> nodes \<longrightarrow> adj a ! j \<in> finished d" and fr: "frames_ok nodes adj (finished d) a act"
    using core fin by (auto simp: dfs_core_def)
  note a = core_not_finished [OF core]
  have fin_d: "finished (d\<lparr>on_stack := on_stack d - {a}, stack := butlast (stack d)\<rparr>) = insert a (finished d)" using a by (auto simp: finished_def)
  have base: "distinct (stack d)" "on_stack d = set (stack d)" "on_stack d \<subseteq> visited d" "visited d \<subseteq> nodes"
    using sets unfolding dfs_sets_def by blast+
  obtain bs where bs: "set bs = finished d" "dependency_order nodes adj bs" using sets by (auto simp: dfs_sets_def)
  have "dependency_order nodes adj (a # bs)"
    using bs a nb i by (auto simp: in_set_conv_nth)
  then have "\<exists>bs. set bs = finished ?d \<and> dependency_order nodes adj bs" using bs(1) by (intro exI [of _ "a # bs"]) (simp add: fin_d)
  with base stk have sets': "dfs_sets nodes adj ?d" by (auto simp: dfs_sets_def)
  show ?thesis
  proof (cases act)
    case Nil
    with sets' stk show ?thesis by (simp add: dfs_inv_def)
  next
    case (Cons f rest)
    obtain b k where f: "f = (b, k)" by (cases f)
    with fr Cons have k: "0 < k" "k \<le> length (adj b)" "adj b ! (k - 1) = a"
      and old: "\<forall>j < k - 1. adj b ! j \<in> nodes \<longrightarrow> adj b ! j \<in> finished d" and rest: "frames_ok nodes adj (finished d) b rest"
      by simp_all
    have "\<forall>j < k. adj b ! j \<in> nodes \<longrightarrow> adj b ! j \<in> finished ?d"
    proof (intro allI impI)
      fix j assume "j < k" "adj b ! j \<in> nodes"
      with old k show "adj b ! j \<in> finished ?d" by (cases "j = k - 1") (auto simp: fin_d)
    qed
    moreover have "frames_ok nodes adj (finished ?d) b rest" by (rule frames_mono [OF rest]) (auto simp: fin_d)
    ultimately have "dfs_core nodes adj ?d b k rest"
      using sets' k(2) stk Cons f by (simp add: dfs_core_def butlast_append)
    then show ?thesis using Cons f k(1) by (simp add: dfs_inv_def)
  qed
qed

text \<open>Visiting a fresh node puts it on top of the stack.\<close>

lemma visit_core:
  assumes inv: "dfs_inv nodes adj d" and cs: "call_stack d = (a, 0) # act"
  shows "dfs_core nodes adj (d\<lparr>visited := insert a (visited d), on_stack := insert a (on_stack d), stack := stack d @ [a]\<rparr>) a 0 act"
proof -
  have sets: "dfs_sets nodes adj d" and "stack d = rev (map fst act)" and a: "a \<in> nodes" "a \<notin> visited d"
    and fr: "frames_ok nodes adj (finished d) a act"
    using inv by (simp_all add: dfs_inv_def cs)
  moreover have "finished (d\<lparr>visited := insert a (visited d), on_stack := insert a (on_stack d), stack := stack d @ [a]\<rparr>) = finished d"
    using a sets by (auto simp: finished_def dfs_sets_def)
  ultimately show ?thesis by (auto simp: dfs_core_def dfs_sets_def)
qed

text \<open>The part of a step behind the visit.\<close>

definition dfs_next :: "string set \<Rightarrow> (string \<Rightarrow> string list) \<Rightarrow> string \<Rightarrow> nat \<Rightarrow> (string \<times> nat) list \<Rightarrow> dfs_state \<Rightarrow> string list + dfs_state" where
  "dfs_next nodes adj a i act d =
     (if i < length (adj a) then
        if adj a ! i \<notin> nodes then Inr (d\<lparr>call_stack := (a, Suc i) # act\<rparr>)
        else if adj a ! i \<in> on_stack d then Inl (back_edge_cycle (adj a ! i) (stack d))
        else if adj a ! i \<notin> visited d then Inr (d\<lparr>call_stack := (adj a ! i, 0) # (a, Suc i) # act\<rparr>)
        else Inr (d\<lparr>call_stack := (a, Suc i) # act\<rparr>)
      else Inr (d\<lparr>on_stack := on_stack d - {a}, stack := butlast (stack d), call_stack := act\<rparr>))"

lemma dfs_step_next:
  "dfs_step nodes adj a i act d = (if i = 0 \<and> a \<in> visited d then Inr (d\<lparr>call_stack := act\<rparr>)
     else dfs_next nodes adj a i act (if i = 0
       then d\<lparr>visited := insert a (visited d), on_stack := insert a (on_stack d), stack := stack d @ [a]\<rparr> else d))"
  by (simp add: dfs_step_def dfs_next_def Let_def)

definition todo :: "(string \<Rightarrow> string list) \<Rightarrow> dfs_state \<Rightarrow> nat" where
  "todo adj d = sum_list (map (frame_weight adj) (call_stack d))"

lemma dfs_next_cycle:
  assumes "dfs_core nodes adj d a i act" and "dfs_next nodes adj a i act d = Inl c"
  shows "dependency_cycle nodes adj c"
  using assms(2) back_edge_cycle [OF assms(1), of "adj a ! i"] by (auto simp: dfs_next_def split: if_splits)

lemma dfs_next_inv:
  assumes core: "dfs_core nodes adj d a i act" and cs: "call_stack d = (a, i) # act" and r: "dfs_next nodes adj a i act d = Inr d'"
  shows "dfs_inv nodes adj d'" and "visited d' = visited d" and "seen d \<subseteq> seen d'"
    and "todo adj d' < 2 * (length (adj a) - i) + 1 + sum_list (map (frame_weight adj) act)"
proof -
  have skip: "dfs_inv nodes adj (d\<lparr>call_stack := (a, Suc i) # act\<rparr>)"
    if "i < length (adj a)" "adj a ! i \<in> nodes \<Longrightarrow> adj a ! i \<in> visited d \<and> adj a ! i \<notin> on_stack d"
    using core_skip [OF core that(1), of "(a, Suc i) # act"] that(2) by (simp add: dfs_inv_def finished_def)
  have a: "a \<in> visited d" using core_not_finished [OF core] by simp
  show "dfs_inv nodes adj d'"
    using r skip core_push [OF core] core_finish [OF core] by (auto simp: dfs_next_def split: if_splits)
  show "visited d' = visited d" "seen d \<subseteq> seen d'"
    using r cs a by (auto simp: dfs_next_def seen_def split: if_splits)
  show "todo adj d' < 2 * (length (adj a) - i) + 1 + sum_list (map (frame_weight adj) act)"
    using r by (auto simp: dfs_next_def todo_def frame_weight_def split: if_splits)
qed

lemma dfs_step_cycle:
  assumes inv: "dfs_inv nodes adj d" and cs: "call_stack d = (a, i) # act" and r: "dfs_step nodes adj a i act d = Inl c"
  shows "dependency_cycle nodes adj c"
proof (cases "i = 0")
  case True
  with cs have cs0: "call_stack d = (a, 0) # act" by simp
  have "a \<notin> visited d" using inv by (simp add: dfs_inv_def cs0)
  with r True show ?thesis by (intro dfs_next_cycle [OF visit_core [OF inv cs0]]) (simp add: dfs_step_next)
next
  case False
  with inv cs have "dfs_core nodes adj d a i act" by (simp add: dfs_inv_def)
  with r False show ?thesis by (simp add: dfs_step_next dfs_next_cycle)
qed

lemma sum_visit:
  assumes "finite nodes" and "a \<in> nodes" and "a \<notin> v"
  shows "sum w (nodes - v) = w a + sum w (nodes - insert a v)"
proof -
  have "nodes - insert a v = (nodes - v) - {a}" by blast
  with assms sum.remove [of "nodes - v" a w] show ?thesis by simp
qed

lemma dfs_step_inv:
  assumes inv: "dfs_inv nodes adj d" and cs: "call_stack d = (a, i) # act" and r: "dfs_step nodes adj a i act d = Inr d'"
    and fin: "finite nodes"
  shows "dfs_inv nodes adj d'" and "seen d \<subseteq> seen d'" and "dfs_measure nodes adj d' < dfs_measure nodes adj d"
proof -
  have "dfs_inv nodes adj d' \<and> seen d \<subseteq> seen d' \<and> dfs_measure nodes adj d' < dfs_measure nodes adj d"
  proof (cases "i = 0")
    case True
    with cs have cs0: "call_stack d = (a, 0) # act" by simp
    have a: "a \<notin> visited d" "a \<in> nodes" using inv by (simp_all add: dfs_inv_def cs0)
    let ?d = "d\<lparr>visited := insert a (visited d), on_stack := insert a (on_stack d), stack := stack d @ [a]\<rparr>"
    have nx: "dfs_next nodes adj a 0 act ?d = Inr d'" using r True a by (simp add: dfs_step_next)
    have csd: "call_stack ?d = (a, 0) # act" using cs0 by simp
    note next_inv = dfs_next_inv [OF visit_core [OF inv cs0] csd nx]
    have "(\<Sum>n \<in> nodes - visited d. 2 * length (adj n) + 3)
        = 2 * length (adj a) + 3 + (\<Sum>n \<in> nodes - insert a (visited d). 2 * length (adj n) + 3)"
      by (rule sum_visit [OF fin a(2,1)])
    moreover have "visited d' = insert a (visited d)" using next_inv(2) by simp
    moreover have "seen d \<subseteq> seen ?d" by (auto simp: seen_def)
    then have "seen d \<subseteq> seen d'" using next_inv(3) by (rule order_trans)
    ultimately show ?thesis using next_inv(1,4) cs0 by (simp add: dfs_measure_def todo_def frame_weight_def)
  next
    case False
    with inv cs have core: "dfs_core nodes adj d a i act" by (simp add: dfs_inv_def)
    have "dfs_next nodes adj a i act d = Inr d'" using r False by (simp add: dfs_step_next)
    with dfs_next_inv [OF core cs this] cs False show ?thesis
      by (simp add: dfs_measure_def todo_def frame_weight_def)
  qed
  then show "dfs_inv nodes adj d'" "seen d \<subseteq> seen d'" "dfs_measure nodes adj d' < dfs_measure nodes adj d" by simp_all
qed

section \<open>The search returns, and its result is right\<close>

lemma dfs_loop_returns:
  assumes "finite nodes" and "dfs_inv nodes adj d"
  shows "(\<exists>c. dfs_loop nodes adj d = Some (Inl c) \<and> dependency_cycle nodes adj c)
    \<or> (\<exists>d'. dfs_loop nodes adj d = Some (Inr d') \<and> dfs_inv nodes adj d' \<and> call_stack d' = [] \<and> seen d \<subseteq> visited d')"
  using assms(2)
proof (induction "dfs_measure nodes adj d" arbitrary: d rule: less_induct)
  case less
  show ?case
  proof (cases "call_stack d")
    case Nil
    with less.prems show ?thesis by (subst (1 2) dfs_loop.simps) (simp add: seen_def)
  next
    case (Cons f act)
    obtain a i where f: "f = (a, i)" by (cases f)
    with Cons have cs: "call_stack d = (a, i) # act" by simp
    show ?thesis
    proof (cases "dfs_step nodes adj a i act d")
      case (Inl c)
      then have "dfs_loop nodes adj d = Some (Inl c)" by (subst dfs_loop.simps) (simp add: cs)
      with dfs_step_cycle [OF less.prems cs Inl] show ?thesis by blast
    next
      case (Inr d1)
      then have "dfs_loop nodes adj d = dfs_loop nodes adj d1" by (subst dfs_loop.simps) (simp add: cs)
      moreover note step = dfs_step_inv [OF less.prems cs Inr assms(1)]
      ultimately show ?thesis using less.hyps [OF step(3,1)] step(2) by auto
    qed
  qed
qed

lemma dfs_starts_returns:
  assumes "finite nodes" and "dfs_inv nodes adj d" and "call_stack d = []" and "set starts \<subseteq> nodes"
  shows "(\<exists>c. dfs_starts nodes adj starts d = Some (Some c) \<and> dependency_cycle nodes adj c)
    \<or> (dfs_starts nodes adj starts d = Some None
        \<and> (\<exists>bs. dependency_order nodes adj bs \<and> visited d \<union> set starts \<subseteq> set bs \<and> set bs \<subseteq> nodes))"
  using assms(2-4)
proof (induction starts arbitrary: d)
  case Nil
  then obtain bs where "dependency_order nodes adj bs" "set bs = visited d" "visited d \<subseteq> nodes"
    by (auto simp: dfs_inv_def dfs_sets_def finished_def)
  then show ?case by auto
next
  case (Cons start starts)
  show ?case
  proof (cases "start \<in> visited d")
    case True
    with Cons.IH [OF Cons.prems(1,2)] Cons.prems(3) show ?thesis by auto
  next
    case False
    let ?d = "d\<lparr>call_stack := [(start, 0)]\<rparr>"
    have inv: "dfs_inv nodes adj ?d" using Cons.prems False by (simp add: dfs_inv_def)
    from dfs_loop_returns [OF assms(1) inv] show ?thesis
    proof (elim disjE exE conjE)
      fix c assume "dfs_loop nodes adj ?d = Some (Inl c)" "dependency_cycle nodes adj c"
      with False show ?thesis by simp
    next
      fix d' assume d': "dfs_loop nodes adj ?d = Some (Inr d')" "dfs_inv nodes adj d'" "call_stack d' = []" "seen ?d \<subseteq> visited d'"
      have "dfs_starts nodes adj (start # starts) d = dfs_starts nodes adj starts d'" using False d'(1) by simp
      moreover have "insert start (visited d) \<subseteq> visited d'" using d'(4) by (simp add: seen_def)
      ultimately show ?thesis using Cons.IH [OF d'(2,3)] Cons.prems(3) by auto
    qed
  qed
qed

lemma find_cycle_returns:
  assumes "set (order nodes) = set nodes"
  shows "(\<exists>c. find_cycle order nodes adj = Some (Some c) \<and> dependency_cycle (set nodes) adj c)
    \<or> (find_cycle order nodes adj = Some None \<and> (\<exists>bs. dependency_order (set nodes) adj bs \<and> set bs = set nodes))"
proof -
  let ?d = "\<lparr> visited = {}, stack = [], on_stack = {}, call_stack = [] \<rparr>"
  have "dfs_inv (set nodes) adj ?d" by (auto simp: dfs_inv_def dfs_sets_def finished_def intro: exI [of _ "[]"])
  from dfs_starts_returns [OF _ this, of "order nodes"] assms show ?thesis
    by (auto simp: find_cycle_def)
qed

end
