(* ===== verification/Migration_Waves.thy ===== *)
theory Migration_Waves
  imports Migration_Lemmas "HOL-Library.Multiset"
begin

text \<open>
  The wave loop of the migration planner: the in-degrees count the dependencies that remain, a stall
  always has a cycle to break, and every turn places at least one file.
\<close>

section \<open>Counting down the in-degrees\<close>

lemma decrement_nth:
  "distinct ds \<Longrightarrow> decrement rem ds deg j = deg j - (if j \<in> rem \<and> j \<in> set ds then 1 else 0)"
  by (induction ds arbitrary: deg) auto

lemma release_nth:
  assumes "\<And>i. distinct (dependents i)" and "distinct is"
  shows "release_wave rem dependents is deg j = deg j - (if j \<in> rem then card {i \<in> set is. j \<in> set (dependents i)} else 0)"
  using assms(2)
proof (induction "is" arbitrary: deg)
  case (Cons i "is")
  have "card {k \<in> set (i # is). j \<in> set (dependents k)}
      = (if j \<in> set (dependents i) then 1 else 0) + card {k \<in> set is. j \<in> set (dependents k)}"
  proof (cases "j \<in> set (dependents i)")
    case True
    have "{k \<in> set (i # is). j \<in> set (dependents k)} = insert i {k \<in> set is. j \<in> set (dependents k)}" using True by auto
    with Cons.prems True show ?thesis by simp
  next
    case False
    then have "{k \<in> set (i # is). j \<in> set (dependents k)} = {k \<in> set is. j \<in> set (dependents k)}" by auto
    with False show ?thesis by simp
  qed
  with Cons show ?case by (simp add: decrement_nth [OF assms(1)])
qed simp

section \<open>The invariant of the waves\<close>

text \<open>The two lists of a node describe one graph.\<close>

definition dep_graph :: "string list \<Rightarrow> (string \<Rightarrow> string list) \<Rightarrow> (string \<Rightarrow> string list) \<Rightarrow> bool" where
  "dep_graph ids deps dependents \<longleftrightarrow> distinct ids \<and> (\<forall>i. distinct (deps i) \<and> distinct (dependents i) \<and> set (deps i) \<subseteq> set ids)
     \<and> (\<forall>i j. j \<in> set (dependents i) \<longleftrightarrow> i \<in> set (deps j))"

text \<open>
  A node of a wave has its dependencies in the waves before it, or it is released alone from a
  recorded cycle.
\<close>

definition wave_ok ::
  "string list \<Rightarrow> (string \<Rightarrow> string list) \<Rightarrow> (string \<Rightarrow> string) \<Rightarrow> string list list
     \<Rightarrow> string list \<Rightarrow> string list \<Rightarrow> bool" where
  "wave_ok ids deps name_of cs before w \<longleftrightarrow> w \<noteq> [] \<and> (\<forall>i \<in> set w. set (deps i) \<subseteq> set before
     \<or> w = [i] \<and> (\<exists>p. dependency_cycle (set ids) deps p \<and> i \<in> set p \<and> map name_of p \<in> set cs))"

definition kahn_inv :: "string list \<Rightarrow> (string \<Rightarrow> string list) \<Rightarrow> (string \<Rightarrow> string) \<Rightarrow> kahn_state \<Rightarrow> bool" where
  "kahn_inv ids deps name_of st \<longleftrightarrow>
     mset ids = mset (concat (waves st)) + mset (remaining st)
     \<and> (\<forall>i \<in> set (remaining st). in_degree st i = card (set (deps i) \<inter> set (remaining st)))
     \<and> (\<forall>k < length (waves st). wave_ok ids deps name_of (cycles st) (concat (take k (waves st))) (waves st ! k))
     \<and> (\<forall>c \<in> set (cycles st). \<exists>p. dependency_cycle (set ids) deps p \<and> c = map name_of p)"

lemma wave_ok_mono:
  "wave_ok ids deps name_of cs before w \<Longrightarrow> set cs \<subseteq> set cs' \<Longrightarrow> wave_ok ids deps name_of cs' before w"
  unfolding wave_ok_def by blast

lemma dependency_cycle_mono:
  "dependency_cycle A deps c \<Longrightarrow> A \<subseteq> B \<Longrightarrow> dependency_cycle B deps c"
  unfolding dependency_cycle_def by blast

lemma dep_graphD:
  assumes "dep_graph ids deps dependents"
  shows "distinct ids" "distinct (deps i)" "distinct (dependents i)" "set (deps i) \<subseteq> set ids"
    "j \<in> set (dependents i) \<longleftrightarrow> i \<in> set (deps j)"
  using assms by (simp_all add: dep_graph_def)

lemma kahn_inv_sets:
  assumes "kahn_inv ids deps name_of st" and "distinct ids"
  shows "distinct (remaining st)" "set ids = set (concat (waves st)) \<union> set (remaining st)"
    "set (concat (waves st)) \<inter> set (remaining st) = {}" "distinct (concat (waves st))"
proof -
  have m: "mset ids = mset (concat (waves st) @ remaining st)" using assms(1) by (simp add: kahn_inv_def)
  have d: "distinct (concat (waves st) @ remaining st)" using assms(2) mset_eq_imp_distinct_iff [OF m] by simp
  then show "distinct (remaining st)" "set (concat (waves st)) \<inter> set (remaining st) = {}" "distinct (concat (waves st))"
    by simp_all
  show "set ids = set (concat (waves st)) \<union> set (remaining st)" using mset_eq_setD [OF m] by simp
qed

lemma kahn_inv_start:
  assumes "dep_graph ids deps dependents"
  shows "kahn_inv ids deps name_of (kahn_start ids deps)"
proof -
  have "length (deps i) = card (set (deps i) \<inter> set ids)" for i
    using dep_graphD(2,4) [OF assms, where i = i] by (simp add: distinct_card Int_absorb2)
  then show ?thesis by (simp add: kahn_inv_def kahn_start_def)
qed

text \<open>Placing a wave keeps the invariant when the wave is acceptable.\<close>

lemma place_wave_inv:
  assumes g: "dep_graph ids deps dependents" and inv: "kahn_inv ids deps name_of st"
    and zero: "distinct zero" "set zero \<subseteq> set (remaining st)"
    and ok: "wave_ok ids deps name_of cs (concat (waves st)) (sort zero)"
    and cs: "set (cycles st) \<subseteq> set cs" "\<forall>c \<in> set cs. \<exists>p. dependency_cycle (set ids) deps p \<and> c = map name_of p"
  shows "kahn_inv ids deps name_of (place_wave dependents zero cs (remaining st) st)"
proof -
  let ?rem = "filter (\<lambda>i. i \<notin> set zero) (remaining st)"
  let ?st = "place_wave dependents zero cs (remaining st) st"
  note sets = kahn_inv_sets [OF inv dep_graphD(1) [OF g]]
  have sel: "remaining ?st = ?rem" "waves ?st = waves st @ [sort zero]" "cycles ?st = cs"
    "in_degree ?st = release_wave (set ?rem) dependents (sort zero) (in_degree st)"
    by (simp_all add: place_wave_def Let_def)
  have "mset (filter (\<lambda>i. i \<in> set zero) (remaining st)) = mset zero"
    using sets(1) zero by (intro set_eq_iff_mset_eq_distinct [THEN iffD1]) auto
  then have "mset zero + mset ?rem = mset (remaining st)"
    by (metis mset_filter multiset_partition)
  then have "mset ids = mset (concat (waves ?st)) + mset (remaining ?st)"
    using inv by (simp add: kahn_inv_def sel add.assoc)
  moreover have "in_degree ?st j = card (set (deps j) \<inter> set (remaining ?st))" if "j \<in> set (remaining ?st)" for j
  proof -
    have j: "j \<in> set ?rem" "j \<in> set (remaining st)" using that by (simp_all add: sel)
    have "{i \<in> set (sort zero). j \<in> set (dependents i)} = set (deps j) \<inter> set zero"
      using dep_graphD(5) [OF g] by auto
    then have "in_degree ?st j = in_degree st j - card (set (deps j) \<inter> set zero)"
      using release_nth [of dependents "sort zero", OF dep_graphD(3) [OF g]] zero(1) j by (simp add: sel)
    moreover have "in_degree st j = card (set (deps j) \<inter> set (remaining st))" using inv j by (simp add: kahn_inv_def)
    moreover have "set (deps j) \<inter> set (remaining st) = (set (deps j) \<inter> set zero) \<union> (set (deps j) \<inter> set ?rem)"
      using zero(2) by auto
    then have "card (set (deps j) \<inter> set (remaining st)) = card (set (deps j) \<inter> set zero) + card (set (deps j) \<inter> set ?rem)"
      by (simp only:) (rule card_Un_disjoint; auto)
    ultimately show ?thesis by (simp add: sel)
  qed
  moreover have "wave_ok ids deps name_of cs (concat (take k (waves ?st))) (waves ?st ! k)" if "k < length (waves ?st)" for k
  proof (cases "k < length (waves st)")
    case True
    with inv have "wave_ok ids deps name_of (cycles st) (concat (take k (waves st))) (waves st ! k)" by (simp add: kahn_inv_def)
    from wave_ok_mono [OF this cs(1)] True show ?thesis by (simp add: sel nth_append)
  next
    case False
    with that have "k = length (waves st)" by (simp add: sel)
    with ok show ?thesis by (simp add: sel)
  qed
  ultimately show ?thesis using cs(2) by (simp add: kahn_inv_def sel)
qed

section \<open>Choosing a wave\<close>

definition permutes_lists :: "(string list \<Rightarrow> string list) \<Rightarrow> bool" where
  "permutes_lists order \<longleftrightarrow> (\<forall>xs. mset (order xs) = mset xs)"

lemma permutes_listsD:
  assumes "permutes_lists order"
  shows "set (order xs) = set xs" "distinct (order xs) = distinct xs"
proof -
  have m: "mset (order xs) = mset xs" using assms by (simp add: permutes_lists_def)
  show "set (order xs) = set xs" by (rule mset_eq_setD [OF m])
  show "distinct (order xs) = distinct xs" by (rule mset_eq_imp_distinct_iff [OF m])
qed

text \<open>The nodes of in-degree zero have no dependency left.\<close>

lemma zero_in_degree_wave:
  assumes g: "dep_graph ids deps dependents" and inv: "kahn_inv ids deps name_of st" and ord: "permutes_lists order"
  shows "distinct (zero_in_degree order st)" "set (zero_in_degree order st) \<subseteq> set (remaining st)"
    and "zero_in_degree order st \<noteq> [] \<Longrightarrow> wave_ok ids deps name_of cs (concat (waves st)) (sort (zero_in_degree order st))"
    and "i \<in> set (remaining st) \<Longrightarrow> i \<notin> set (zero_in_degree order st) \<Longrightarrow> set (deps i) \<inter> set (remaining st) \<noteq> {}"
proof -
  note sets = kahn_inv_sets [OF inv dep_graphD(1) [OF g]]
  have zero: "set (zero_in_degree order st) = {i \<in> set (remaining st). set (deps i) \<inter> set (remaining st) = {}}"
    using inv permutes_listsD(1) [OF ord] by (auto simp: zero_in_degree_def kahn_inv_def)
  show "distinct (zero_in_degree order st)" using sets(1) permutes_listsD(2) [OF ord] by (simp add: zero_in_degree_def)
  show "set (zero_in_degree order st) \<subseteq> set (remaining st)"
    "i \<in> set (remaining st) \<Longrightarrow> i \<notin> set (zero_in_degree order st) \<Longrightarrow> set (deps i) \<inter> set (remaining st) \<noteq> {}"
    unfolding zero by blast+
  assume ne: "zero_in_degree order st \<noteq> []"
  have "set (deps j) \<subseteq> set (concat (waves st))" if "j \<in> set (zero_in_degree order st)" for j
    using that dep_graphD(4) [OF g, where i = j] sets(2) unfolding zero by blast
  moreover have "sort (zero_in_degree order st) \<noteq> []" using ne by (metis set_empty set_sort)
  ultimately show "wave_ok ids deps name_of cs (concat (waves st)) (sort (zero_in_degree order st))"
    by (simp add: wave_ok_def)
qed

lemma order_has_leaf:
  assumes "dependency_order nodes adj bs" and "bs \<noteq> []" and "set bs = nodes"
  shows "\<exists>i \<in> nodes. set (adj i) \<inter> nodes = {}"
proof -
  have "dependency_order nodes adj (as @ [i]) \<Longrightarrow> set (adj i) \<inter> nodes = {}" for as i by (induction as) auto
  then show ?thesis using assms by (cases bs rule: rev_cases) auto
qed

lemma break_node_in:
  assumes "xs \<noteq> []"
  shows "\<exists>b. break_node deg xs = Some b \<and> b \<in> set xs"
proof -
  have "foldl (\<lambda>b y. if prefers deg y b then y else b) x ys \<in> insert x (set ys)" for x ys
    by (induction ys arbitrary: x) auto
  with assms show ?thesis by (cases xs) auto
qed

text \<open>A stall always finds a cycle and releases one of its nodes.\<close>

lemma stalled_releases:
  assumes g: "dep_graph ids deps dependents" and inv: "kahn_inv ids deps name_of st" and ord: "permutes_lists order"
    and stall: "zero_in_degree order st = []" "remaining st \<noteq> []"
  shows "\<exists>b p. stalled order name_of deps st = Some ([b], cycles st @ [map name_of p], remaining st)
    \<and> b \<in> set p \<and> dependency_cycle (set (remaining st)) deps p"
proof -
  have "\<not> (\<exists>bs. dependency_order (set (remaining st)) deps bs \<and> set bs = set (remaining st))"
  proof
    assume "\<exists>bs. dependency_order (set (remaining st)) deps bs \<and> set bs = set (remaining st)"
    then obtain bs where bs: "dependency_order (set (remaining st)) deps bs" "set bs = set (remaining st)" by blast
    with stall(2) have "bs \<noteq> []" by auto
    from order_has_leaf [OF bs(1) this bs(2)] obtain i
      where "i \<in> set (remaining st)" "set (deps i) \<inter> set (remaining st) = {}" by blast
    with zero_in_degree_wave(4) [OF g inv ord, of i] stall(1) show False by simp
  qed
  with find_cycle_returns [of order "remaining st" deps, OF permutes_listsD(1) [OF ord]]
  obtain p where p: "find_cycle order (remaining st) deps = Some (Some p)" "dependency_cycle (set (remaining st)) deps p"
    by blast
  then have same: "filter (\<lambda>i. i \<in> set (remaining st)) p = p" and "p \<noteq> []"
    by (auto simp: dependency_cycle_def filter_id_conv)
  from break_node_in [OF \<open>p \<noteq> []\<close>] obtain b where "break_node (in_degree st) p = Some b" "b \<in> set p" by blast
  with p same show ?thesis by (auto simp: stalled_def Let_def)
qed

section \<open>The loop returns with every file placed\<close>

lemma place_wave_shrinks:
  assumes "zero \<noteq> []" and "set zero \<subseteq> set (remaining st)"
  shows "length (remaining (place_wave dependents zero cs (remaining st) st)) < length (remaining st)"
proof -
  have "remaining (place_wave dependents zero cs (remaining st) st) = filter (\<lambda>i. i \<notin> set zero) (remaining st)"
    by (simp add: place_wave_def Let_def)
  moreover obtain z where "z \<in> set zero" "z \<in> set (remaining st)" using assms by (cases zero) auto
  ultimately show ?thesis using length_filter_less [of z "remaining st" "\<lambda>i. i \<notin> set zero"] by simp
qed

lemma kahn_loop_returns:
  assumes g: "dep_graph ids deps dependents" and ord: "permutes_lists order" and "kahn_inv ids deps name_of st"
  shows "\<exists>st'. kahn_loop order name_of deps dependents st = Some st' \<and> kahn_inv ids deps name_of st' \<and> remaining st' = []"
  using assms(3)
proof (induction "length (remaining st)" arbitrary: st rule: less_induct)
  case less
  note inv = less.prems
  let ?zero = "zero_in_degree order st"
  have step: ?case
    if z: "z \<noteq> []" "distinct z" "set z \<subseteq> set (remaining st)"
      and choice: "(if ?zero = [] then stalled order name_of deps st else Some (?zero, cycles st, remaining st)) = Some (z, cs, remaining st)"
      and ok: "wave_ok ids deps name_of cs (concat (waves st)) (sort z)"
      and cs: "set (cycles st) \<subseteq> set cs" "\<forall>c \<in> set cs. \<exists>p. dependency_cycle (set ids) deps p \<and> c = map name_of p" for z cs
  proof -
    let ?st = "place_wave dependents z cs (remaining st) st"
    have "remaining st \<noteq> []" using z by auto
    with choice z(1) have "kahn_loop order name_of deps dependents st = kahn_loop order name_of deps dependents ?st"
      by (subst kahn_loop.simps) simp
    then show ?thesis
      using less.hyps [OF place_wave_shrinks [OF z(1,3)] place_wave_inv [OF g inv z(2,3) ok cs]] by simp
  qed
  have old: "\<forall>c \<in> set (cycles st). \<exists>p. dependency_cycle (set ids) deps p \<and> c = map name_of p"
    using inv by (simp add: kahn_inv_def)
  show ?case
  proof (cases "?zero = []")
    case False
    note zero = zero_in_degree_wave [OF g inv ord]
    show ?thesis by (rule step [OF False zero(1,2) _ zero(3) [OF False] _ old]) (use False in simp_all)
  next
    case True
    show ?thesis
    proof (cases "remaining st = []")
      case True
      with \<open>?zero = []\<close> inv show ?thesis by (subst (1) kahn_loop.simps) simp
    next
      case False
      from stalled_releases [OF g inv ord True False] obtain b p
        where s: "stalled order name_of deps st = Some ([b], cycles st @ [map name_of p], remaining st)"
          and b: "b \<in> set p" and p: "dependency_cycle (set (remaining st)) deps p" by blast
      have sub: "set (remaining st) \<subseteq> set ids" using kahn_inv_sets(2) [OF inv dep_graphD(1) [OF g]] by blast
      note p' = dependency_cycle_mono [OF p sub]
      have b': "b \<in> set (remaining st)" using b p by (auto simp: dependency_cycle_def)
      show ?thesis
      proof (rule step [of "[b]" "cycles st @ [map name_of p]"])
        show "wave_ok ids deps name_of (cycles st @ [map name_of p]) (concat (waves st)) (sort [b])"
          using p' b by (auto simp: wave_ok_def)
        show "\<forall>c \<in> set (cycles st @ [map name_of p]). \<exists>p. dependency_cycle (set ids) deps p \<and> c = map name_of p"
          using old p' by auto
      qed (use True s b' in auto)
    qed
  qed
qed

text \<open>A cycle is reported exactly when there is one.\<close>

lemma waves_without_cycles:
  assumes inv: "kahn_inv ids deps name_of st" and none: "remaining st = []" "cycles st = []"
  shows "\<not> dependency_cycle (set ids) deps p"
proof
  assume p: "dependency_cycle (set ids) deps p"
  have "set p \<inter> set (concat (take k (waves st))) = {}" if "k \<le> length (waves st)" for k
    using that
  proof (induction k)
    case (Suc k)
    then have k: "k < length (waves st)" and IH: "set p \<inter> set (concat (take k (waves st))) = {}" by simp_all
    have "i \<notin> set p" if i: "i \<in> set (waves st ! k)" for i
    proof
      assume "i \<in> set p"
      with cycle_successor [OF p] obtain j where "j \<in> set p" "j \<in> set (deps i)" by blast
      moreover have "set (deps i) \<subseteq> set (concat (take k (waves st)))"
        using inv k i none(2) by (auto simp: kahn_inv_def wave_ok_def)
      ultimately show False using IH by blast
    qed
    with IH k show ?case by (auto simp: take_Suc_conv_app_nth)
  qed simp
  from this [of "length (waves st)"] have "set p \<inter> set (concat (waves st)) = {}" by simp
  moreover have "mset ids = mset (concat (waves st))" using inv none(1) by (simp add: kahn_inv_def)
  then have "set ids = set (concat (waves st))" by (rule mset_eq_setD)
  moreover have "set p \<subseteq> set ids" "p \<noteq> []" using p unfolding dependency_cycle_def by blast+
  ultimately show False by (metis inf.orderE set_empty)
qed

end
