(* ===== verification/Migration_Properties.thy ===== *)
theory Migration_Properties
  imports Migration_Waves
begin

text \<open>
  What the migration planner promises: it returns a plan in which every file stands in one wave,
  every dependency of a file is a prerequisite of its wave unless the file was released from a
  reported cycle, and cycles are reported exactly when there are some.
\<close>

section \<open>The dependency lists form a graph\<close>

lemma deps_of_set:
  "set (deps_of ids edges i) = target_id ` {e \<in> set edges. source_id e = i \<and> i \<in> set ids \<and> target_id e \<in> set ids}"
  "set (dependents_of ids edges i) = source_id ` {e \<in> set edges. target_id e = i \<and> i \<in> set ids \<and> source_id e \<in> set ids}"
  by (auto simp: deps_of_def dependents_of_def internal_edges_def)

lemma dep_graph_of:
  "dep_graph (all_ids nodes) (deps_of (all_ids nodes) edges) (dependents_of (all_ids nodes) edges)"
proof -
  have "distinct (deps_of (all_ids nodes) edges i)" "distinct (dependents_of (all_ids nodes) edges i)" for i
    by (simp_all add: deps_of_def dependents_of_def distinct_remdups_adj_sort)
  moreover have "distinct (all_ids nodes)" by (simp add: all_ids_def)
  ultimately show ?thesis by (auto simp: dep_graph_def deps_of_set)
qed

lemma node_by_id_Some:
  "node_by_id nodes i = Some n \<Longrightarrow> n \<in> set nodes \<and> node_id n = i"
  unfolding node_by_id_def by (auto dest!: map_of_SomeD)

lemma node_by_id_known:
  assumes "i \<in> set (all_ids nodes)"
  shows "\<exists>n. node_by_id nodes i = Some n \<and> n \<in> set nodes \<and> node_id n = i \<and> path_of nodes i = file_path n"
proof -
  have "i \<in> dom (node_by_id nodes)" using assms by (simp add: node_by_id_def dom_map_of_conv_image_fst all_ids_def image_image)
  then show ?thesis using node_by_id_Some by (fastforce simp: path_of_def)
qed

section \<open>The waves of the plan\<close>

text \<open>The plan's waves are the entries of the loop's waves, numbered from one.\<close>

lemma build_waves_nth:
  assumes "k < length ws"
  shows "k < length (build_waves theme_order entry idx cum prev ws)"
    and "wave_files (build_waves theme_order entry idx cum prev ws ! k) = entry (unat (word_of_nat (idx + k + 1) :: 32 word)) (ws ! k)"
    and "prerequisites (build_waves theme_order entry idx cum prev ws ! k)
      = cum @ map wf_path (concat (map wave_files (take k (build_waves theme_order entry idx cum prev ws))))"
proof -
  show "k < length (build_waves theme_order entry idx cum prev ws)"
    using assms by (induction ws arbitrary: k idx cum prev) (auto simp: Let_def less_Suc_eq_0_disj)
  show "wave_files (build_waves theme_order entry idx cum prev ws ! k) = entry (unat (word_of_nat (idx + k + 1) :: 32 word)) (ws ! k)"
    using assms
  proof (induction ws arbitrary: k idx cum prev)
    case (Cons w ws)
    show ?case by (cases k) (use Cons in \<open>simp_all add: Let_def del: of_nat_Suc of_nat_add\<close>)
  qed simp
  show "prerequisites (build_waves theme_order entry idx cum prev ws ! k)
      = cum @ map wf_path (concat (map wave_files (take k (build_waves theme_order entry idx cum prev ws))))"
    using assms
  proof (induction ws arbitrary: k idx cum prev)
    case (Cons w ws)
    show ?case by (cases k) (use Cons in \<open>simp_all add: Let_def\<close>)
  qed simp
qed

lemma build_waves_length [simp]: "length (build_waves theme_order entry idx cum prev ws) = length ws"
  by (induction ws arbitrary: idx cum prev) (simp_all add: Let_def)

lemma entries_paths:
  assumes "set ids \<subseteq> set (all_ids nodes)"
  shows "mset (map wf_path (entries_of_wave lower (node_by_id nodes) deps dependents tot number ids)) = mset (map (path_of nodes) ids)"
  using assms
proof (induction ids)
  case (Cons i ids)
  then obtain n where "node_by_id nodes i = Some n" "path_of nodes i = file_path n" using node_by_id_known [of i nodes] by auto
  with Cons show ?case by (simp add: entries_of_wave_def wave_entry_def List.map_filter_simps)
qed (simp add: entries_of_wave_def List.map_filter_simps)

lemma entries_member:
  assumes "f \<in> set (entries_of_wave lower (node_by_id nodes) deps dependents tot number ids)"
  shows "\<exists>i \<in> set ids. \<exists>n \<in> set nodes. node_id n = i \<and> path_of nodes i = file_path n \<and> wf_path f = file_path n"
proof -
  obtain i n where i: "i \<in> set ids" "node_by_id nodes i = Some n" "f = wave_entry lower deps dependents tot number i n"
    using assms by (auto simp: entries_of_wave_def List.map_filter_def)
  then have "n \<in> set nodes" "node_id n = i" "path_of nodes i = file_path n" "wf_path f = file_path n"
    using node_by_id_Some by (simp_all add: path_of_def wave_entry_def)
  with i(1) show ?thesis by blast
qed

section \<open>The plan of a call\<close>

text \<open>A plan comes from a finished wave loop, unless there are no files.\<close>

lemma suggest_plan:
  assumes ord: "permutes_lists order" and nodes: "file_nodes project = Inr nodes"
    and rows: "traverseR (edges_by_kind project) DEP_KINDS = Inr rows" "traverseR (edges_by_kind project) ALL_KINDS = Inr all_rows"
  shows "(nodes = [] \<and> suggest_migration_order order theme_order lower file_nodes edges_by_kind project = Some (Inr (empty_plan project)))
    \<or> (\<exists>st. suggest_migration_order order theme_order lower file_nodes edges_by_kind project
          = Some (Inr (plan_of theme_order lower project nodes (concat rows) (concat all_rows) st))
        \<and> kahn_inv (all_ids nodes) (deps_of (all_ids nodes) (concat rows)) (path_of nodes) st \<and> remaining st = [])"
proof (cases "nodes = []")
  case True
  with nodes show ?thesis by (simp add: suggest_migration_order_def)
next
  case False
  note g = dep_graph_of [of nodes "concat rows"]
  from kahn_loop_returns [OF g ord kahn_inv_start [OF g, of "path_of nodes"]] False nodes rows show ?thesis
    by (auto simp: suggest_migration_order_def Let_def)
qed

definition planned :: "string \<Rightarrow> graph_node list \<Rightarrow> graph_edge list \<Rightarrow> migration_order_plan \<Rightarrow> kahn_state \<Rightarrow> bool" where
  "planned project nodes edges plan st \<longleftrightarrow>
     kahn_inv (all_ids nodes) (deps_of (all_ids nodes) edges) (path_of nodes) st \<and> remaining st = []
     \<and> circular_dependencies plan = cycles st \<and> total_files plan = length nodes
     \<and> (\<exists>theme_order lower dependents tot. plan_waves plan = build_waves theme_order
          (entries_of_wave lower (node_by_id nodes) (deps_of (all_ids nodes) edges) dependents tot) 0 [] None (waves st))"

lemma plan_of_planned:
  assumes "kahn_inv (all_ids nodes) (deps_of (all_ids nodes) edges) (path_of nodes) st" and "remaining st = []"
  shows "planned project nodes edges (plan_of theme_order lower project nodes edges all_edges st) st"
  using assms unfolding planned_def plan_of_def Let_def by (simp only: migration_order_plan.simps) blast

lemma empty_planned:
  "planned project [] edges (empty_plan project) (kahn_start [] (deps_of [] edges))"
  by (auto simp: planned_def kahn_inv_def kahn_start_def empty_plan_def all_ids_def)

lemma suggest_planned:
  assumes "permutes_lists order" and "file_nodes project = Inr nodes"
    and "traverseR (edges_by_kind project) DEP_KINDS = Inr rows"
    and r: "suggest_migration_order order theme_order lower file_nodes edges_by_kind project = Some (Inr plan)"
  shows "\<exists>st. planned project nodes (concat rows) plan st"
proof (cases "nodes = []")
  case True
  with assms have "plan = empty_plan project" by (simp add: suggest_migration_order_def)
  with True empty_planned show ?thesis by blast
next
  case False
  with assms obtain all_rows where "traverseR (edges_by_kind project) ALL_KINDS = Inr all_rows"
    by (cases "traverseR (edges_by_kind project) ALL_KINDS") (auto simp: suggest_migration_order_def)
  from suggest_plan [of order file_nodes project nodes edges_by_kind rows all_rows theme_order lower, OF assms(1-3) this] False r
  obtain st where "plan = plan_of theme_order lower project nodes (concat rows) (concat all_rows) st"
    "kahn_inv (all_ids nodes) (deps_of (all_ids nodes) (concat rows)) (path_of nodes) st" "remaining st = []" by auto
  with plan_of_planned show ?thesis by blast
qed

text \<open>Each wave of the plan, seen through the identifiers of the loop's wave.\<close>

lemma planned_waves:
  assumes "planned project nodes edges plan st"
  shows "length (plan_waves plan) = length (waves st)" "set (concat (waves st)) = set (all_ids nodes)"
    and "k < length (waves st) \<Longrightarrow> mset (map wf_path (wave_files (plan_waves plan ! k))) = mset (map (path_of nodes) (waves st ! k))"
    and "k < length (waves st) \<Longrightarrow> f \<in> set (wave_files (plan_waves plan ! k)) \<Longrightarrow>
      \<exists>n \<in> set nodes. node_id n \<in> set (waves st ! k) \<and> path_of nodes (node_id n) = file_path n \<and> wf_path f = file_path n"
    and "k < length (waves st) \<Longrightarrow> prerequisites (plan_waves plan ! k) = map wf_path (concat (map wave_files (take k (plan_waves plan))))"
proof -
  obtain theme_order lower dependents tot where ws: "plan_waves plan = build_waves theme_order
      (entries_of_wave lower (node_by_id nodes) (deps_of (all_ids nodes) edges) dependents tot) 0 [] None (waves st)"
    using assms by (auto simp: planned_def)
  show "length (plan_waves plan) = length (waves st)" by (simp add: ws)
  have "mset (all_ids nodes) = mset (concat (waves st))" using assms by (simp add: planned_def kahn_inv_def)
  then show ids: "set (concat (waves st)) = set (all_ids nodes)" by (metis mset_eq_setD)
  assume k: "k < length (waves st)"
  note nth = build_waves_nth [OF k, where idx = 0 and cum = "[]" and prev = None and theme_order = theme_order
    and entry = "entries_of_wave lower (node_by_id nodes) (deps_of (all_ids nodes) edges) dependents tot"]
  have "set (waves st ! k) \<subseteq> set (all_ids nodes)" using ids k nth_mem [OF k] by auto
  then show "mset (map wf_path (wave_files (plan_waves plan ! k))) = mset (map (path_of nodes) (waves st ! k))"
    unfolding ws nth(2) by (rule entries_paths)
  show "prerequisites (plan_waves plan ! k) = map wf_path (concat (map wave_files (take k (plan_waves plan))))"
    unfolding ws nth(3) by simp
  assume "f \<in> set (wave_files (plan_waves plan ! k))"
  then show "\<exists>n \<in> set nodes. node_id n \<in> set (waves st ! k) \<and> path_of nodes (node_id n) = file_path n \<and> wf_path f = file_path n"
    unfolding ws nth(2) by (blast dest: entries_member)
qed

lemma planned_prerequisites:
  assumes p: "planned project nodes edges plan st" and k: "k < length (waves st)"
  shows "set (prerequisites (plan_waves plan ! k)) = path_of nodes ` set (concat (take k (waves st)))"
proof -
  have each: "wf_path ` set (wave_files (plan_waves plan ! j)) = path_of nodes ` set (waves st ! j)" if "j < length (waves st)" for j
    using mset_eq_setD [OF planned_waves(3) [OF p that]] by simp
  have "take k (plan_waves plan) = map (\<lambda>j. plan_waves plan ! j) [0..<k]" "take k (waves st) = map (\<lambda>j. waves st ! j) [0..<k]"
    using k planned_waves(1) [OF p] by (auto intro!: nth_equalityI)
  then show ?thesis unfolding planned_waves(5) [OF p k] using k each by (auto simp: image_UN)
qed

text \<open>An identifier of a wave, with the dependencies that stand in earlier waves.\<close>

lemma planned_dependencies:
  assumes st: "planned project nodes edges plan st" and k: "k < length (waves st)" and i: "i \<in> set (waves st ! k)"
  shows "(\<forall>e \<in> set edges. source_id e = i \<and> target_id e \<in> node_id ` set nodes
        \<longrightarrow> path_of nodes (target_id e) \<in> set (prerequisites (plan_waves plan ! k)))
     \<or> length (wave_files (plan_waves plan ! k)) = 1 \<and> (\<exists>c \<in> set (circular_dependencies plan). path_of nodes i \<in> set c)"
proof -
  let ?deps = "deps_of (all_ids nodes) edges"
  have "wave_ok (all_ids nodes) ?deps (path_of nodes) (cycles st) (concat (take k (waves st))) (waves st ! k)"
    using st k by (simp add: planned_def kahn_inv_def)
  then consider "set (?deps i) \<subseteq> set (concat (take k (waves st)))"
    | p where "waves st ! k = [i]" "i \<in> set p" "map (path_of nodes) p \<in> set (cycles st)"
    using i unfolding wave_ok_def by blast
  then show ?thesis
  proof cases
    case 1
    have "path_of nodes (target_id e) \<in> set (prerequisites (plan_waves plan ! k))"
      if "e \<in> set edges" "source_id e = i" "target_id e \<in> node_id ` set nodes" for e
    proof -
      have "i \<in> set (all_ids nodes)" using i nth_mem [OF k] planned_waves(2) [OF st] by auto
      then have "target_id e \<in> set (?deps i)" using that unfolding deps_of_set all_ids_def by auto
      with 1 show ?thesis unfolding planned_prerequisites [OF st k] by blast
    qed
    then show ?thesis by blast
  next
    case 2
    have "length (wave_files (plan_waves plan ! k)) = 1"
      using mset_eq_length [OF planned_waves(3) [OF st k]] 2(1) by simp
    moreover have "path_of nodes i \<in> set (map (path_of nodes) p)" using 2(2) by simp
    moreover have "circular_dependencies plan = cycles st" using st by (simp add: planned_def)
    ultimately show ?thesis using 2(3) by metis
  qed
qed

section \<open>The promises\<close>

text \<open>
  C28. The planner returns a plan whenever its graph queries succeed, whatever the graph and the
  iteration order of the hash set of remaining files: every file identifier stands in exactly one
  wave, with its path, and no wave is empty.
\<close>

theorem planner_places_every_file:
  assumes "permutes_lists order" and "file_nodes project = Inr nodes" and "\<And>k. \<exists>rows. edges_by_kind project k = Inr rows"
  shows "\<exists>plan. suggest_migration_order order theme_order lower file_nodes edges_by_kind project = Some (Inr plan)
    \<and> mset (concat (map (map wf_path \<circ> wave_files) (plan_waves plan))) = mset (map (path_of nodes) (all_ids nodes))
    \<and> (\<forall>w \<in> set (plan_waves plan). wave_files w \<noteq> []) \<and> total_files plan = length nodes"
proof -
  have all: "\<exists>rows. traverseR (edges_by_kind project) ks = Inr rows" for ks
  proof (induction ks)
    case (Cons k ks)
    with assms(3) [of k] show ?case by auto
  qed simp
  obtain rows all_rows where rows: "traverseR (edges_by_kind project) DEP_KINDS = Inr rows"
    "traverseR (edges_by_kind project) ALL_KINDS = Inr all_rows" using all by blast
  have "\<exists>plan. suggest_migration_order order theme_order lower file_nodes edges_by_kind project = Some (Inr plan)"
    using suggest_plan [of order file_nodes project nodes edges_by_kind rows all_rows theme_order lower, OF assms(1,2) rows] by auto
  then obtain plan where plan: "suggest_migration_order order theme_order lower file_nodes edges_by_kind project = Some (Inr plan)" ..
  from suggest_planned [OF assms(1,2) rows(1) plan] obtain st where st: "planned project nodes (concat rows) plan st" ..
  note waves = planned_waves [OF st]
  have "map (mset \<circ> (map wf_path \<circ> wave_files)) (plan_waves plan) = map (mset \<circ> map (path_of nodes)) (waves st)"
    by (rule nth_equalityI) (simp_all add: waves(1) waves(3) [unfolded mset_map])
  then have "mset (concat (map (map wf_path \<circ> wave_files) (plan_waves plan))) = mset (map (path_of nodes) (concat (waves st)))"
    by (simp add: mset_concat map_concat)
  moreover have ids: "mset (all_ids nodes) = mset (concat (waves st))" using st by (simp add: planned_def kahn_inv_def)
  ultimately have "mset (concat (map (map wf_path \<circ> wave_files) (plan_waves plan))) = mset (map (path_of nodes) (all_ids nodes))"
    by (simp only: mset_map ids)
  moreover have "wave_files (plan_waves plan ! k) \<noteq> []" if "k < length (waves st)" for k
  proof -
    have "waves st ! k \<noteq> []" using st that by (simp add: planned_def kahn_inv_def wave_ok_def)
    with waves(3) [OF that] show ?thesis by auto
  qed
  then have "\<forall>w \<in> set (plan_waves plan). wave_files w \<noteq> []" by (auto simp: in_set_conv_nth waves(1))
  ultimately show ?thesis using plan st by (auto simp: planned_def)
qed

text \<open>
  C26. A file of a wave has all its dependencies among the prerequisites of the wave, unless it is
  the only file of its wave and lies on a cycle that the plan reports.
\<close>

theorem planner_respects_dependencies:
  assumes "permutes_lists order" and "file_nodes project = Inr nodes"
    and "traverseR (edges_by_kind project) DEP_KINDS = Inr rows"
    and "suggest_migration_order order theme_order lower file_nodes edges_by_kind project = Some (Inr plan)"
    and "w \<in> set (plan_waves plan)" and "f \<in> set (wave_files w)"
  shows "\<exists>n \<in> set nodes. wf_path f = file_path n \<and>
    ((\<forall>e \<in> set (concat rows). source_id e = node_id n \<and> target_id e \<in> node_id ` set nodes
        \<longrightarrow> path_of nodes (target_id e) \<in> set (prerequisites w))
     \<or> length (wave_files w) = 1 \<and> (\<exists>c \<in> set (circular_dependencies plan). wf_path f \<in> set c))"
proof -
  from suggest_planned [OF assms(1-4)] obtain st where st: "planned project nodes (concat rows) plan st" ..
  obtain k where k: "k < length (waves st)" "w = plan_waves plan ! k"
    using assms(5) planned_waves(1) [OF st] by (auto simp: in_set_conv_nth)
  obtain n where n: "n \<in> set nodes" "node_id n \<in> set (waves st ! k)" "path_of nodes (node_id n) = file_path n" "wf_path f = file_path n"
    using planned_waves(4) [OF st k(1)] assms(6) k(2) by blast
  from planned_dependencies [OF st k(1) n(2)] n show ?thesis unfolding k(2) by metis
qed

text \<open>
  C29. The plan reports a cycle exactly when the files have a cyclic dependency, and every reported
  cycle is one: the paths of distinct files, each of which depends on the next and the last on the
  first.
\<close>

theorem planner_reports_cycles:
  assumes "permutes_lists order" and "file_nodes project = Inr nodes"
    and "traverseR (edges_by_kind project) DEP_KINDS = Inr rows"
    and "suggest_migration_order order theme_order lower file_nodes edges_by_kind project = Some (Inr plan)"
  shows "(circular_dependencies plan = []
      \<longleftrightarrow> \<not> (\<exists>p. dependency_cycle (set (all_ids nodes)) (deps_of (all_ids nodes) (concat rows)) p))
    \<and> (\<forall>c \<in> set (circular_dependencies plan).
      \<exists>p. dependency_cycle (set (all_ids nodes)) (deps_of (all_ids nodes) (concat rows)) p \<and> c = map (path_of nodes) p)"
proof -
  from suggest_planned [OF assms] obtain st where st: "planned project nodes (concat rows) plan st" ..
  then have c: "circular_dependencies plan = cycles st" "remaining st = []"
    and inv: "kahn_inv (all_ids nodes) (deps_of (all_ids nodes) (concat rows)) (path_of nodes) st"
    by (simp_all add: planned_def)
  have sound: "\<forall>c \<in> set (circular_dependencies plan).
      \<exists>p. dependency_cycle (set (all_ids nodes)) (deps_of (all_ids nodes) (concat rows)) p \<and> c = map (path_of nodes) p"
    using inv unfolding c(1) kahn_inv_def by blast
  moreover have "circular_dependencies plan = []
      \<longleftrightarrow> \<not> (\<exists>p. dependency_cycle (set (all_ids nodes)) (deps_of (all_ids nodes) (concat rows)) p)"
  proof (cases "cycles st")
    case Nil
    with waves_without_cycles [OF inv c(2)] show ?thesis by (simp add: c(1))
  next
    case (Cons x xs)
    with sound show ?thesis by (auto simp: c(1))
  qed
  ultimately show ?thesis by blast
qed

text \<open>
  C30. The depth-first search returns, and it finds a cycle exactly when there is one; what it
  finds is a cycle of the remaining nodes.
\<close>

theorem find_cycle_exact:
  assumes "permutes_lists order"
  shows "(find_cycle order nodes adj = Some None \<and> \<not> (\<exists>c. dependency_cycle (set nodes) adj c))
    \<or> (\<exists>c. find_cycle order nodes adj = Some (Some c) \<and> dependency_cycle (set nodes) adj c)"
proof -
  have "\<not> dependency_cycle (set nodes) adj c" if "dependency_order (set nodes) adj bs" "set bs = set nodes" for bs c
  proof
    assume c: "dependency_cycle (set nodes) adj c"
    with order_excludes_cycle [OF that(1) this] that(2) show False
      unfolding dependency_cycle_def by (metis inf.orderE set_empty)
  qed
  then show ?thesis using find_cycle_returns [of order nodes adj] permutes_listsD(1) [OF assms] by blast
qed

section \<open>A sample project\<close>

text \<open>
  Three files: \<open>a\<close> uses \<open>b\<close>, and \<open>b\<close> and \<open>c\<close> use each other.
\<close>

definition sample_file :: "string \<Rightarrow> graph_node" where
  "sample_file i = \<lparr> node_id = i, node_type = ''file'', gnode_name = i, gnode_namespace = ''p'', gnode_language = ''cs'',
     file_path = i @ ''.cs'', gnode_start_line = 1, gnode_end_line = 1, gnode_generation = 1,
     gnode_metadata = None \<rparr>"

definition sample_edge :: "string \<Rightarrow> string \<Rightarrow> graph_edge" where
  "sample_edge s t = \<lparr> source_id = s, target_id = t, gedge_namespace = ''p'', gedge_language = ''cs'', gedge_kind = Imports,
     gedge_weight = 1, gedge_generation = 1, gedge_metadata = None, gedge_updated_at_ms = 0 \<rparr>"

definition sample_nodes :: "graph_node list" where
  "sample_nodes = [sample_file ''c'', sample_file ''a'', sample_file ''b'']"

definition sample_edges :: "edge_kind \<Rightarrow> graph_edge list" where
  "sample_edges k = (if k = Imports then [sample_edge ''a'' ''b'', sample_edge ''b'' ''c'', sample_edge ''c'' ''b''] else [])"

abbreviation sample_plan :: "migration_order_plan res option" where
  "sample_plan \<equiv> suggest_migration_order id (\<lambda>_. id) id (\<lambda>_. Inr sample_nodes) (\<lambda>_ k. Inr (sample_edges k)) ''p''"

lemma sample_order: "permutes_lists id"
  by (simp add: permutes_lists_def)

lemma sample_rows:
  "traverseR (\<lambda>k. Inr (sample_edges k) :: graph_edge list res) DEP_KINDS = Inr [[], [sample_edge ''a'' ''b'', sample_edge ''b'' ''c'', sample_edge ''c'' ''b''], [], []]"
  by (simp add: DEP_KINDS_def sample_edges_def)

lemma sample_ids: "all_ids sample_nodes = [''a'', ''b'', ''c'']"
  by (simp add: all_ids_def sample_nodes_def sample_file_def)

theorem find_cycle_exact_witness:
  "find_cycle id [''b'', ''c''] (\<lambda>i. if i = ''b'' then [''c''] else [''b'']) \<noteq> Some None
    \<and> find_cycle id [''b'', ''c''] (\<lambda>i. if i = ''b'' then [''c''] else []) = Some None"
proof -
  have "dependency_cycle (set [''b'', ''c'']) (\<lambda>i. if i = ''b'' then [''c''] else [''b'']) [''b'', ''c'']"
    by (auto simp: dependency_cycle_def less_Suc_eq)
  moreover have "dependency_order (set [''b'', ''c'']) (\<lambda>i. if i = ''b'' then [''c''] else []) [''b'', ''c'']" by simp
  then have "\<not> dependency_cycle (set [''b'', ''c'']) (\<lambda>i. if i = ''b'' then [''c''] else []) c" for c
    using order_excludes_cycle [of "set [''b'', ''c'']" _ "[''b'', ''c'']" c]
    unfolding dependency_cycle_def by (metis inf.orderE set_empty)
  ultimately show ?thesis
    using find_cycle_exact [OF sample_order, of "[''b'', ''c'']" "\<lambda>i. if i = ''b'' then [''c''] else [''b'']"]
      find_cycle_exact [OF sample_order, of "[''b'', ''c'']" "\<lambda>i. if i = ''b'' then [''c''] else []"]
    by (metis option.inject option.distinct(1))
qed

theorem planner_places_every_file_witness:
  "\<exists>plan. sample_plan = Some (Inr plan)
    \<and> mset (concat (map (map wf_path \<circ> wave_files) (plan_waves plan))) = {#''a.cs'', ''b.cs'', ''c.cs''#}
    \<and> (\<forall>w \<in> set (plan_waves plan). wave_files w \<noteq> []) \<and> total_files plan = 3"
proof -
  have "mset (map (path_of sample_nodes) (all_ids sample_nodes)) = {#''a.cs'', ''b.cs'', ''c.cs''#}"
    unfolding sample_ids by (simp add: path_of_def node_by_id_def sample_nodes_def sample_file_def)
  moreover have "length sample_nodes = 3" by (simp add: sample_nodes_def)
  ultimately show ?thesis
    using planner_places_every_file [OF sample_order, of "\<lambda>_. Inr sample_nodes" "''p''" sample_nodes "\<lambda>_ k. Inr (sample_edges k)"
      "\<lambda>_. id" id] by simp
qed

lemma sample_plan_exists: "\<exists>plan. sample_plan = Some (Inr plan)"
proof -
  have "\<exists>rows. traverseR (\<lambda>k. Inr (sample_edges k) :: graph_edge list res) ks = Inr rows" for ks by (induction ks) auto
  then obtain all_rows where all: "traverseR (\<lambda>k. Inr (sample_edges k) :: graph_edge list res) ALL_KINDS = Inr all_rows" by blast
  show ?thesis
    using suggest_plan [of id "\<lambda>_. Inr sample_nodes" "''p''" sample_nodes "\<lambda>_ k. Inr (sample_edges k)" _ all_rows
      "\<lambda>_. id" id, OF sample_order refl sample_rows all] by blast
qed

lemma sample_cycle:
  "dependency_cycle (set (all_ids sample_nodes)) (deps_of (all_ids sample_nodes) (sample_edges Imports)) [''b'', ''c'']"
  unfolding sample_ids
  by (auto simp: dependency_cycle_def less_Suc_eq deps_of_def internal_edges_def sample_edges_def sample_edge_def)

theorem planner_reports_cycles_witness:
  "\<exists>plan. sample_plan = Some (Inr plan) \<and> circular_dependencies plan \<noteq> []
    \<and> (\<forall>c \<in> set (circular_dependencies plan). set c \<subseteq> {''a.cs'', ''b.cs'', ''c.cs''})"
proof -
  obtain plan where plan: "sample_plan = Some (Inr plan)" using sample_plan_exists ..
  have rows: "concat [[], [sample_edge ''a'' ''b'', sample_edge ''b'' ''c'', sample_edge ''c'' ''b''], [], []] = sample_edges Imports"
    by (simp add: sample_edges_def)
  note cycles = planner_reports_cycles [OF sample_order _ sample_rows plan, of sample_nodes, unfolded rows, OF refl]
  have "set c \<subseteq> {''a.cs'', ''b.cs'', ''c.cs''}" if c: "c \<in> set (circular_dependencies plan)" for c
  proof -
    obtain p where "set p \<subseteq> set (all_ids sample_nodes)" "c = map (path_of sample_nodes) p"
      using cycles c unfolding dependency_cycle_def by blast
    then show ?thesis unfolding sample_ids by (auto simp: path_of_def node_by_id_def sample_nodes_def sample_file_def)
  qed
  with cycles sample_cycle plan show ?thesis by blast
qed

theorem planner_respects_dependencies_witness:
  "\<exists>plan. sample_plan = Some (Inr plan)
    \<and> (\<forall>w \<in> set (plan_waves plan). ''a.cs'' \<in> wf_path ` set (wave_files w) \<longrightarrow>
        ''b.cs'' \<in> set (prerequisites w) \<or> length (wave_files w) = 1)"
proof -
  obtain plan where plan: "sample_plan = Some (Inr plan)" using sample_plan_exists ..
  have "''b.cs'' \<in> set (prerequisites w) \<or> length (wave_files w) = 1"
    if w: "w \<in> set (plan_waves plan)" "f \<in> set (wave_files w)" "wf_path f = ''a.cs''" for w f
    using planner_respects_dependencies [OF sample_order _ sample_rows plan w(1,2), of sample_nodes, OF refl] w(3)
    by (auto simp: sample_nodes_def sample_file_def sample_edge_def path_of_def node_by_id_def)
  with plan show ?thesis by fastforce
qed

end
