(* ===== verification/Graph_Store.thy ===== *)
theory Graph_Store
  imports Graph_Data Registry_Data Identity "HOL-Library.Product_Lexorder"
begin

text \<open>
  The graph database (\<open>engram_graph/src/store.rs\<close> and \<open>store/atomic_learning.rs\<close>): its keys and
  adjacency values, the writes of nodes and edges, weight increments, deletions and purges. An edge
  is stored three times, as a row of \<open>edges_v2\<close> and as a weight in the outgoing and the incoming
  adjacency table. Rows are encoded by \<open>bincode\<close>, a parameter here; its failures are \<open>JsonError\<close>,
  as those of the other serialiser. Every key of an adjacency table is a pair, ordered by its first
  component and then by its second.
\<close>

section \<open>Tables and keys\<close>

type_synonym adjacency = "(string \<times> string, bytes) fmap"

record graph_store =
  node_rows :: table
  edge_rows :: table
  adj_out :: adjacency
  adj_in :: adjacency
  graph_meta :: table
  centrality_rows :: table
  fingerprint_rows :: table

record graph_codecs =
  node_bin :: "graph_node codec"
  edge_bin :: "graph_edge codec"

definition graph_codecs_ok :: "graph_codecs \<Rightarrow> bool" where
  "graph_codecs_ok G \<longleftrightarrow> codec_ok (node_bin G) \<and> codec_ok (edge_bin G)"

type_synonym 'a gtx = "graph_store \<Rightarrow> ('a \<times> graph_store) res"

text \<open>An operation of several transactions: what is committed before a failure stays.\<close>

type_synonym 'a gop = "graph_store \<Rightarrow> 'a res \<times> graph_store"

definition commit :: "'a gtx \<Rightarrow> 'a gop" where
  "commit f g = (case f g of Inl e \<Rightarrow> (Inl e, g) | Inr (x, g') \<Rightarrow> (Inr x, g'))"

definition then_op :: "'a gop \<Rightarrow> ('a \<Rightarrow> 'b gop) \<Rightarrow> 'b gop" where
  "then_op f k g = (case f g of (Inl e, g') \<Rightarrow> (Inl e, g') | (Inr x, g') \<Rightarrow> k x g')"

definition encode_adj_value :: "32 word \<Rightarrow> u64 \<Rightarrow> bytes" where
  "encode_adj_value weight ts = nat_le_bytes 4 (unat weight) @ u64_to_le_bytes ts"

definition decode_adj_value :: "bytes \<Rightarrow> (32 word \<times> u64) res" where
  "decode_adj_value bs =
     bindR (ensure (12 \<le> length bs)
       (Bail (''decode_adj_value: expected 12 bytes, got '' @ show_nat (length bs) @ '' '' @ [CHR 0xE2, CHR 0x80, CHR 0x94]
          @ '' possible DB corruption''))) (\<lambda>_.
     Inr (of_nat (nat_of_le_bytes (take 4 bs)), u64_from_le_bytes (take 8 (drop 4 bs))))"

definition edge_key :: "string \<Rightarrow> edge_kind \<Rightarrow> string \<Rightarrow> string \<Rightarrow> string" where
  "edge_key p kind source target = p @ NUL # as_str_kind kind @ NUL # source @ NUL # target"

definition adj_key :: "string \<Rightarrow> edge_kind \<Rightarrow> string \<Rightarrow> string" where
  "adj_key p kind node = p @ NUL # as_str_kind kind @ NUL # node"

text \<open>\<open>k.splitn(n, '\0')\<close>\<close>

fun splitn :: "nat \<Rightarrow> string \<Rightarrow> string list" where
  "splitn 0 s = []"
| "splitn (Suc 0) s = [s]"
| "splitn (Suc (Suc n)) s =
     (if NUL \<in> set s then takeWhile (\<lambda>c. c \<noteq> NUL) s # splitn (Suc n) (tl (dropWhile (\<lambda>c. c \<noteq> NUL) s)) else [s])"

definition saturating_add32 :: "32 word \<Rightarrow> 32 word \<Rightarrow> 32 word" where
  "saturating_add32 a b = (if unat a + unat b < 2 ^ 32 then a + b else - 1)"

section \<open>Writing nodes and edges\<close>

text \<open>Absent metadata inherits the stored metadata; an unreadable stored row is an error.\<close>

definition inherited_metadata :: "graph_codecs \<Rightarrow> graph_node \<Rightarrow> bytes option \<Rightarrow> string option res" where
  "inherited_metadata G n stored =
     (if gnode_metadata n = None
      then bindR (transposeR (decode (node_bin G)) stored) (\<lambda>old. Inr (Option.bind old gnode_metadata))
      else Inr None)"

definition merged_node :: "graph_node \<Rightarrow> string option \<Rightarrow> graph_node" where
  "merged_node n inherited = (case inherited of Some m \<Rightarrow> n\<lparr>gnode_metadata := Some m\<rparr> | None \<Rightarrow> n)"

fun upsert_nodes_in_tx :: "graph_codecs \<Rightarrow> string \<Rightarrow> graph_node list \<Rightarrow> table \<Rightarrow> table res" where
  "upsert_nodes_in_tx G p [] t = Inr t"
| "upsert_nodes_in_tx G p (n # ns) t =
     bindR (vk ''node_id'' (node_id n)) (\<lambda>_.
     bindR (inherited_metadata G n (fmlookup t (composite p (node_id n)))) (\<lambda>inherited.
     upsert_nodes_in_tx G p ns (fmupd (composite p (node_id n)) (to_vec (node_bin G) (merged_node n inherited)) t)))"

definition upsert_nodes :: "graph_codecs \<Rightarrow> string \<Rightarrow> graph_node list \<Rightarrow> unit gtx" where
  "upsert_nodes G p nodes g =
     (if nodes = [] then Inr ((), g)
      else bindR (vk ''project_id'' p) (\<lambda>_.
           bindR (upsert_nodes_in_tx G p nodes (node_rows g)) (\<lambda>t.
           Inr ((), g\<lparr>node_rows := t\<rparr>))))"

text \<open>One edge under given endpoints: the row and both adjacency entries.\<close>

definition write_edge :: "graph_codecs \<Rightarrow> string \<Rightarrow> edge_kind \<Rightarrow> string \<Rightarrow> string \<Rightarrow> graph_edge \<Rightarrow> graph_store \<Rightarrow> graph_store" where
  "write_edge G p kind source target e g =
     (let val = encode_adj_value (gedge_weight e) (gedge_updated_at_ms e) in
      g\<lparr>edge_rows := fmupd (edge_key p kind source target) (to_vec (edge_bin G) e) (edge_rows g),
        adj_out := fmupd (adj_key p kind source, target) val (adj_out g),
        adj_in := fmupd (adj_key p kind target, source) val (adj_in g)\<rparr>)"

definition insert_edge :: "graph_codecs \<Rightarrow> string \<Rightarrow> graph_edge \<Rightarrow> graph_store \<Rightarrow> graph_store" where
  "insert_edge G p e = write_edge G p (gedge_kind e) (source_id e) (target_id e) e"

definition check_endpoints :: "graph_edge \<Rightarrow> unit res" where
  "check_endpoints e =
     bindR (vk ''source_id'' (source_id e)) (\<lambda>_. bindR (vk ''target_id'' (target_id e)) (\<lambda>_. Inr ()))"

definition upsert_nodes_and_edges :: "graph_codecs \<Rightarrow> string \<Rightarrow> graph_node list \<Rightarrow> graph_edge list \<Rightarrow> unit gtx" where
  "upsert_nodes_and_edges G p nodes edges g =
     (if nodes = [] \<and> edges = [] then Inr ((), g)
      else bindR (vk ''project_id'' p) (\<lambda>_.
           bindR (traverseR (\<lambda>n. vk ''node_id'' (node_id n)) nodes) (\<lambda>_.
           bindR (traverseR check_endpoints edges) (\<lambda>_.
           bindR (upsert_nodes_in_tx G p nodes (node_rows g)) (\<lambda>t.
           Inr ((), fold (insert_edge G p) edges (g\<lparr>node_rows := t\<rparr>)))))))"

definition upsert_edges :: "graph_codecs \<Rightarrow> string \<Rightarrow> graph_edge list \<Rightarrow> unit gtx" where
  "upsert_edges G p edges g =
     (if edges = [] then Inr ((), g)
      else bindR (vk ''project_id'' p) (\<lambda>_.
           bindR (traverseR check_endpoints edges) (\<lambda>_.
           Inr ((), fold (insert_edge G p) edges g))))"

definition key_of_edge :: "string \<Rightarrow> graph_edge \<Rightarrow> string" where
  "key_of_edge p e = edge_key p (gedge_kind e) (source_id e) (target_id e)"

definition remove_edge :: "string \<Rightarrow> edge_kind \<Rightarrow> string \<Rightarrow> string \<Rightarrow> graph_store \<Rightarrow> graph_store" where
  "remove_edge p kind source target g =
     g\<lparr>edge_rows := fmdrop (edge_key p kind source target) (edge_rows g),
       adj_out := fmdrop (adj_key p kind source, target) (adj_out g),
       adj_in := fmdrop (adj_key p kind target, source) (adj_in g)\<rparr>"

text \<open>An endpoint pair that another producer still holds is left alone.\<close>

definition insert_missing :: "graph_codecs \<Rightarrow> string \<Rightarrow> graph_edge \<Rightarrow> graph_store \<Rightarrow> graph_store" where
  "insert_missing G p e g = (if fmlookup (edge_rows g) (key_of_edge p e) \<noteq> None then g else insert_edge G p e g)"

definition replace_edge_snapshot :: "graph_codecs \<Rightarrow> string \<Rightarrow> graph_edge list \<Rightarrow> graph_edge list \<Rightarrow> unit gtx" where
  "replace_edge_snapshot G p expected replacements g =
     bindR (vk ''project_id'' p) (\<lambda>_.
     bindR (traverseR check_endpoints (expected @ replacements)) (\<lambda>_.
     bindR (traverseR (\<lambda>e. ensure (fmlookup (edge_rows g) (key_of_edge p e) = Some (to_vec (edge_bin G) e))
              (Bail ''edge snapshot changed during resolver refresh; retry'')) expected) (\<lambda>_.
     let g1 = fold (\<lambda>e. remove_edge p (gedge_kind e) (source_id e) (target_id e)) expected g in
     Inr ((), fold (insert_missing G p) replacements g1))))"

definition set_graph_meta :: "string \<Rightarrow> string \<Rightarrow> string \<Rightarrow> unit gtx" where
  "set_graph_meta p key value g =
     bindR (vk ''project_id'' p) (\<lambda>_. bindR (vk ''key'' key) (\<lambda>_.
     Inr ((), g\<lparr>graph_meta := fmupd (composite p key) value (graph_meta g)\<rparr>)))"

section \<open>Weight increments\<close>

definition incremented ::
  "string \<Rightarrow> string \<Rightarrow> edge_kind \<Rightarrow> string \<Rightarrow> string \<Rightarrow> 32 word \<Rightarrow> u64 \<Rightarrow> u64 \<Rightarrow> graph_edge option \<Rightarrow> graph_edge" where
  "incremented namespace language kind source target delta generation now existing =
     (case existing of
        Some e \<Rightarrow> e\<lparr>gedge_weight := saturating_add32 (gedge_weight e) delta, gedge_updated_at_ms := now,
                    gedge_generation := generation\<rparr>
      | None \<Rightarrow> \<lparr> source_id = source, target_id = target, gedge_namespace = namespace, gedge_language = language,
                  gedge_kind = kind, gedge_weight = delta, gedge_generation = generation, gedge_metadata = None,
                  gedge_updated_at_ms = now \<rparr>)"

text \<open>The single increment checks no key and replaces a row it cannot decode.\<close>

definition increment_edge ::
  "graph_codecs \<Rightarrow> u64 \<Rightarrow> string \<Rightarrow> string \<Rightarrow> string \<Rightarrow> edge_kind \<Rightarrow> string \<Rightarrow> string \<Rightarrow> 32 word \<Rightarrow> u64 \<Rightarrow> 32 word gtx" where
  "increment_edge G now p namespace language kind source target delta generation g =
     (let existing = Option.bind (fmlookup (edge_rows g) (edge_key p kind source target)) (from_slice (edge_bin G));
          e = incremented namespace language kind source target delta generation now existing
      in Inr (gedge_weight e, write_edge G p kind source target e g))"

type_synonym increment = "edge_kind \<times> string \<times> string \<times> 32 word"

fun increment_edges_in_tx ::
  "graph_codecs \<Rightarrow> u64 \<Rightarrow> string \<Rightarrow> string \<Rightarrow> string \<Rightarrow> u64 \<Rightarrow> increment list \<Rightarrow> graph_store \<Rightarrow> graph_store res" where
  "increment_edges_in_tx G now p namespace language generation [] g = Inr g"
| "increment_edges_in_tx G now p namespace language generation ((kind, source, target, delta) # is) g =
     bindR (transposeR (decode (edge_bin G)) (fmlookup (edge_rows g) (edge_key p kind source target))) (\<lambda>existing.
     increment_edges_in_tx G now p namespace language generation is
       (write_edge G p kind source target (incremented namespace language kind source target delta generation now existing) g))"

definition check_increment :: "increment \<Rightarrow> unit res" where
  "check_increment i = (case i of (kind, source, target, delta) \<Rightarrow>
     bindR (vk ''source_id'' source) (\<lambda>_. bindR (vk ''target_id'' target) (\<lambda>_. Inr ())))"

definition batch_increment_edges ::
  "graph_codecs \<Rightarrow> u64 \<Rightarrow> string \<Rightarrow> string \<Rightarrow> string \<Rightarrow> u64 \<Rightarrow> increment list \<Rightarrow> unit gtx" where
  "batch_increment_edges G now p namespace language generation increments g =
     (if increments = [] then Inr ((), g)
      else bindR (vk ''project_id'' p) (\<lambda>_.
           bindR (traverseR check_increment increments) (\<lambda>_.
           bindR (increment_edges_in_tx G now p namespace language generation increments g) (\<lambda>g'.
           Inr ((), g')))))"

fun directed :: "increment list \<Rightarrow> increment list" where
  "directed [] = []"
| "directed ((kind, a, b, delta) # ps) =
     (if a = b then directed ps else (kind, a, b, delta) # (kind, b, a, delta) # directed ps)"

definition batch_increment_undirected_edges ::
  "graph_codecs \<Rightarrow> u64 \<Rightarrow> string \<Rightarrow> string \<Rightarrow> string \<Rightarrow> u64 \<Rightarrow> increment list \<Rightarrow> unit gtx" where
  "batch_increment_undirected_edges G now p namespace language generation pairs =
     batch_increment_edges G now p namespace language generation (directed pairs)"

definition increment_undirected_edge ::
  "graph_codecs \<Rightarrow> u64 \<Rightarrow> string \<Rightarrow> string \<Rightarrow> string \<Rightarrow> edge_kind \<Rightarrow> string \<Rightarrow> string \<Rightarrow> 32 word \<Rightarrow> u64 \<Rightarrow> unit gtx" where
  "increment_undirected_edge G now p namespace language kind a b delta generation g =
     (if a = b then Inr ((), g)
      else batch_increment_undirected_edges G now p namespace language generation [(kind, a, b, delta)] g)"

text \<open>A learning event: its endpoints and both directions of its pairs in one transaction.\<close>

definition upsert_nodes_and_increment_undirected_edges ::
  "graph_codecs \<Rightarrow> u64 \<Rightarrow> string \<Rightarrow> string \<Rightarrow> string \<Rightarrow> u64 \<Rightarrow> graph_node list \<Rightarrow> increment list \<Rightarrow> unit gtx" where
  "upsert_nodes_and_increment_undirected_edges G now p namespace language generation nodes pairs g =
     (if nodes = [] \<and> pairs = [] then Inr ((), g)
      else bindR (vk ''project_id'' p) (\<lambda>_.
           bindR (traverseR (\<lambda>n. vk ''node_id'' (node_id n)) nodes) (\<lambda>_.
           bindR (traverseR check_increment pairs) (\<lambda>_.
           bindR (upsert_nodes_in_tx G p nodes (node_rows g)) (\<lambda>t.
           bindR (increment_edges_in_tx G now p namespace language generation (directed pairs) (g\<lparr>node_rows := t\<rparr>)) (\<lambda>g'.
           Inr ((), g')))))))"

section \<open>Deletion\<close>

text \<open>
  The deleting loops collect the first keys under a prefix in one transaction and remove them in
  another, until none is left.
\<close>

definition adj_prefix_scan :: "string \<Rightarrow> adjacency \<Rightarrow> ((string \<times> string) \<times> bytes) list" where
  "adj_prefix_scan p t = takeWhile (\<lambda>kv. prefix p (fst (fst kv))) (range_from (p, []) t)"

partial_function (option) drain ::
  "nat \<Rightarrow> (('k, 'v) fmap \<Rightarrow> ('k \<times> 'v) list) \<Rightarrow> nat \<Rightarrow> ('k, 'v) fmap \<Rightarrow> (nat \<times> ('k, 'v) fmap) option" where
  "drain batch scan removed t =
     (let ks = map fst (take batch (scan t)) in
      if ks = [] then Some (removed, t) else drain batch scan (removed + length ks) (remove_keys ks t))"

definition kind_prefix :: "string \<Rightarrow> edge_kind \<Rightarrow> string" where
  "kind_prefix p kind = p @ NUL # as_str_kind kind @ [NUL]"

definition delete_edges_of_kind :: "string \<Rightarrow> edge_kind \<Rightarrow> graph_store \<Rightarrow> (nat \<times> graph_store) option" where
  "delete_edges_of_kind p kind g =
     Option.bind (drain 5000 (prefix_scan (kind_prefix p kind)) 0 (edge_rows g)) (\<lambda>(removed, edges).
     Option.bind (drain 5000 (adj_prefix_scan (kind_prefix p kind)) 0 (adj_out g)) (\<lambda>(_, outgoing).
     Option.bind (drain 5000 (adj_prefix_scan (kind_prefix p kind)) 0 (adj_in g)) (\<lambda>(_, incoming).
     Some (removed, g\<lparr>edge_rows := edges, adj_out := outgoing, adj_in := incoming\<rparr>))))"

definition delete_project_data :: "string \<Rightarrow> graph_store \<Rightarrow> graph_store option" where
  "delete_project_data p g =
     (let prefix = p @ [NUL];
          rows = (\<lambda>t. map_option snd (drain 2000 (prefix_scan prefix) 0 t));
          adjacent = (\<lambda>t. map_option snd (drain 2000 (adj_prefix_scan prefix) 0 t))
      in Option.bind (rows (node_rows g)) (\<lambda>nodes.
         Option.bind (rows (edge_rows g)) (\<lambda>edges.
         Option.bind (rows (graph_meta g)) (\<lambda>metadata.
         Option.bind (rows (centrality_rows g)) (\<lambda>centrality.
         Option.bind (rows (fingerprint_rows g)) (\<lambda>fingerprints.
         Option.bind (adjacent (adj_out g)) (\<lambda>outgoing.
         Option.bind (adjacent (adj_in g)) (\<lambda>incoming.
         Some \<lparr> node_rows = nodes, edge_rows = edges, adj_out = outgoing, adj_in = incoming, graph_meta = metadata,
                centrality_rows = centrality, fingerprint_rows = fingerprints \<rparr>))))))))"

section \<open>Purges\<close>

text \<open>
  A purge collects the keys of the stale rows of one table and removes them in batches; a row that
  cannot be decoded ends it. The key of an edge row is parsed to find its adjacency entries.
\<close>

definition stale_keys :: "'a codec \<Rightarrow> ('a \<Rightarrow> bool) \<Rightarrow> string \<Rightarrow> table \<Rightarrow> string list res" where
  "stale_keys c stale p t =
     bindR (traverseR (\<lambda>(k, v). bindR (decode c v) (\<lambda>x. Inr (k, x))) (prefix_scan (p @ [NUL]) t)) (\<lambda>rows.
     Inr (map fst (filter (\<lambda>(k, x). stale x) rows)))"

definition remove_edge_key :: "string \<Rightarrow> string \<Rightarrow> graph_store \<Rightarrow> graph_store" where
  "remove_edge_key p k g =
     (let parts = splitn 4 k;
          g1 = (if length parts = 4
                then (case parse_kind (parts ! 1) of
                        Some kind \<Rightarrow> g\<lparr>adj_out := fmdrop (adj_key p kind (parts ! 2), parts ! 3) (adj_out g),
                                      adj_in := fmdrop (adj_key p kind (parts ! 3), parts ! 2) (adj_in g)\<rparr>
                      | None \<Rightarrow> g)
                else g)
      in g1\<lparr>edge_rows := fmdrop k (edge_rows g1)\<rparr>)"

definition purge_where :: "graph_codecs \<Rightarrow> string \<Rightarrow> (string \<Rightarrow> u64 \<Rightarrow> bool) \<Rightarrow> (nat \<times> nat) gop" where
  "purge_where G p is_stale g =
     (case stale_keys (node_bin G) (\<lambda>n. is_stale (gnode_namespace n) (gnode_generation n)) p (node_rows g) of
        Inl e \<Rightarrow> (Inl e, g)
      | Inr node_keys \<Rightarrow>
          let g1 = g\<lparr>node_rows := remove_keys node_keys (node_rows g)\<rparr> in
          (case stale_keys (edge_bin G) (\<lambda>e. is_stale (gedge_namespace e) (gedge_generation e)) p (edge_rows g1) of
             Inl e \<Rightarrow> (Inl e, g1)
           | Inr edge_keys \<Rightarrow> (Inr (length node_keys, length edge_keys), fold (remove_edge_key p) edge_keys g1)))"

definition stale_before :: "u64 \<Rightarrow> string \<Rightarrow> u64 \<Rightarrow> bool" where
  "stale_before baseline namespace generation =
     (case get_policy namespace of
        Inr policy \<Rightarrow> (case retention policy of
            KeepLatestOnly \<Rightarrow> generation < baseline
          | KeepLastGenerations n \<Rightarrow> generation < saturating_sub baseline (ucast n - 1)
          | KeepForever \<Rightarrow> False)
      | Inl _ \<Rightarrow> False)"

definition stale_unless :: "u64 \<Rightarrow> string \<Rightarrow> u64 \<Rightarrow> bool" where
  "stale_unless active namespace generation =
     (case get_policy namespace of
        Inr policy \<Rightarrow> (case retention policy of
            KeepLatestOnly \<Rightarrow> generation \<noteq> active
          | KeepLastGenerations n \<Rightarrow> generation < saturating_sub active (ucast n - 1)
          | KeepForever \<Rightarrow> False)
      | Inl _ \<Rightarrow> False)"

definition purge_generations_below :: "graph_codecs \<Rightarrow> string \<Rightarrow> u64 \<Rightarrow> (nat \<times> nat) gop" where
  "purge_generations_below G p baseline = purge_where G p (stale_before baseline)"

definition purge_old_generations :: "graph_codecs \<Rightarrow> string \<Rightarrow> u64 \<Rightarrow> unit gop" where
  "purge_old_generations G p active = then_op (purge_where G p (stale_unless active)) (\<lambda>_ g. (Inr (), g))"

section \<open>Insights\<close>

definition insight_node :: "string \<Rightarrow> string \<Rightarrow> string \<Rightarrow> u64 \<Rightarrow> graph_node" where
  "insight_node metadata insight title generation =
     \<lparr> node_id = insight, node_type = ''insight'', gnode_name = title, gnode_namespace = NAMESPACE_INSIGHTS,
       gnode_language = ''text'', file_path = '''', gnode_start_line = 0, gnode_end_line = 0, gnode_generation = generation,
       gnode_metadata = Some metadata \<rparr>"

definition insight_edge :: "u64 \<Rightarrow> u64 \<Rightarrow> string \<Rightarrow> string \<Rightarrow> graph_edge" where
  "insight_edge now generation source target =
     \<lparr> source_id = source, target_id = target, gedge_namespace = NAMESPACE_INSIGHTS, gedge_language = ''text'',
       gedge_kind = Insight, gedge_weight = 1, gedge_generation = generation, gedge_metadata = None,
       gedge_updated_at_ms = now \<rparr>"

definition insight_edges :: "u64 \<Rightarrow> u64 \<Rightarrow> string \<Rightarrow> string list \<Rightarrow> graph_edge list" where
  "insight_edges now generation insight sources =
     concat (map (\<lambda>s. [insight_edge now generation insight s, insight_edge now generation s insight]) sources)"

definition set_insight_fingerprint :: "string \<Rightarrow> string \<Rightarrow> unit gtx" where
  "set_insight_fingerprint p fingerprint g =
     Inr ((), g\<lparr>fingerprint_rows := fmupd (composite p fingerprint) ''1'' (fingerprint_rows g)\<rparr>)"

text \<open>\<open>metadata\<close> is the JSON text of the insight's fields, with the clock read that it contains.\<close>

definition create_insight ::
  "graph_codecs \<Rightarrow> (string \<Rightarrow> string list \<Rightarrow> string list option \<Rightarrow> string option \<Rightarrow> string) \<Rightarrow> u64 \<Rightarrow> string \<Rightarrow> string \<Rightarrow> string
     \<Rightarrow> string \<Rightarrow> string list \<Rightarrow> string list option \<Rightarrow> string option \<Rightarrow> u64 \<Rightarrow> unit gop" where
  "create_insight G metadata now p insight title summary sources evidence fingerprint generation =
     then_op (commit (upsert_nodes G p [insight_node (metadata summary sources evidence fingerprint) insight title generation]))
       (\<lambda>_. then_op (commit (upsert_edges G p (insight_edges now generation insight sources)))
       (\<lambda>_. (case fingerprint of
               Some fp \<Rightarrow> if fp \<noteq> [] then commit (set_insight_fingerprint p fp) else (\<lambda>g. (Inr (), g))
             | None \<Rightarrow> (\<lambda>g. (Inr (), g)))))"

end
