(* ===== verification/Graph_Queries.thy ===== *)
theory Graph_Queries
  imports Graph_Store
begin

text \<open>
  The reads of the graph database (\<open>engram_graph/src/store.rs\<close>): node and edge lookups, weighted
  neighbours over the adjacency tables, the edges that touch a node, and the one-hop sweep of a
  component. All scans stop at the first key outside their prefix.
\<close>

section \<open>Neighbours\<close>

text \<open>The rows of an adjacency table under one first component, by the second.\<close>

definition adj_scan :: "string \<Rightarrow> adjacency \<Rightarrow> ((string \<times> string) \<times> bytes) list" where
  "adj_scan p t = takeWhile (\<lambda>kv. fst (fst kv) = p) (range_from (p, []) t)"

definition weighted_row :: "(string \<times> string) \<times> bytes \<Rightarrow> (string \<times> 32 word) res" where
  "weighted_row row = bindR (decode_adj_value (snd row)) (\<lambda>(w, _). Inr (snd (fst row), w))"

definition by_weight :: "('a \<Rightarrow> 32 word) \<Rightarrow> 'a list \<Rightarrow> 'a list" where
  "by_weight w = sort_key (\<lambda>x. - int (unat (w x)))"

definition neighbors :: "string \<Rightarrow> edge_kind \<Rightarrow> string \<Rightarrow> nat \<Rightarrow> graph_store \<Rightarrow> (string \<times> 32 word) list res" where
  "neighbors p kind source limit g =
     bindR (traverseR weighted_row (adj_scan (adj_key p kind source) (adj_out g))) (\<lambda>out.
     Inr (take limit (by_weight snd out)))"

definition kind_row :: "edge_kind \<Rightarrow> (string \<times> string) \<times> bytes \<Rightarrow> (string \<times> edge_kind \<times> 32 word) res" where
  "kind_row kind row = bindR (weighted_row row) (\<lambda>(n, w). Inr (n, kind, w))"

definition find_incoming_edges_with_kinds ::
  "string \<Rightarrow> edge_kind list \<Rightarrow> string \<Rightarrow> nat \<Rightarrow> graph_store \<Rightarrow> (string \<times> edge_kind \<times> 32 word) list res" where
  "find_incoming_edges_with_kinds p kinds target limit g =
     bindR (traverseR (\<lambda>kind. traverseR (kind_row kind) (adj_scan (adj_key p kind target) (adj_in g))) kinds) (\<lambda>out.
     Inr (take limit (by_weight (snd \<circ> snd) (concat out))))"

definition find_incoming_edges_with_kind ::
  "string \<Rightarrow> edge_kind option \<Rightarrow> string \<Rightarrow> nat \<Rightarrow> graph_store \<Rightarrow> (string \<times> edge_kind \<times> 32 word) list res" where
  "find_incoming_edges_with_kind p kind target limit =
     find_incoming_edges_with_kinds p (case kind of Some k \<Rightarrow> [k] | None \<Rightarrow> ALL_KINDS) target limit"

definition find_incoming_edges ::
  "string \<Rightarrow> edge_kind option \<Rightarrow> string \<Rightarrow> nat \<Rightarrow> graph_store \<Rightarrow> (string \<times> 32 word) list res" where
  "find_incoming_edges p kind target limit g =
     bindR (find_incoming_edges_with_kind p kind target limit g) (\<lambda>rows. Inr (map (\<lambda>(n, _, w). (n, w)) rows))"

text \<open>At most \<open>limit\<close> sources in key order, and whether there are more.\<close>

definition incoming_edge_prefix ::
  "string \<Rightarrow> edge_kind \<Rightarrow> string \<Rightarrow> nat \<Rightarrow> graph_store \<Rightarrow> ((string \<times> edge_kind \<times> 32 word) list \<times> bool) res" where
  "incoming_edge_prefix p kind target limit g =
     (let rows = adj_scan (adj_key p kind target) (adj_in g) in
      bindR (traverseR (kind_row kind) (take limit rows)) (\<lambda>out. Inr (out, limit < length rows)))"

section \<open>Edge lists\<close>

text \<open>The limit is checked after a row is taken, so a limit of zero still takes one.\<close>

definition list_edges_by_kind :: "graph_codecs \<Rightarrow> string \<Rightarrow> edge_kind \<Rightarrow> nat \<Rightarrow> graph_store \<Rightarrow> graph_edge list res" where
  "list_edges_by_kind G p kind limit g =
     traverseR (decode (edge_bin G)) (map snd (take (max 1 limit) (prefix_scan (kind_prefix p kind) (edge_rows g))))"

definition source_prefix :: "string \<Rightarrow> edge_kind \<Rightarrow> string \<Rightarrow> string" where
  "source_prefix p kind source = p @ NUL # as_str_kind kind @ NUL # source @ [NUL]"

definition outgoing_edges_of_kind ::
  "graph_codecs \<Rightarrow> string \<Rightarrow> edge_kind \<Rightarrow> string \<Rightarrow> nat \<Rightarrow> graph_store \<Rightarrow> (graph_edge list \<times> bool) res" where
  "outgoing_edges_of_kind G p kind source limit g =
     bindR (traverseR (decode (edge_bin G)) (map snd (prefix_scan (source_prefix p kind source) (edge_rows g)))) (\<lambda>out.
     Inr (take limit (by_weight gedge_weight out), limit < length out))"

definition structural_kinds :: "edge_kind list" where
  "structural_kinds = filter (\<lambda>k. k \<noteq> TemporalCoupling \<and> k \<noteq> CoOccurrence) ALL_KINDS"

text \<open>
  One direction of the edges that touch a node: the rows of a kind, \<open>None\<close> for an adjacency entry
  without an edge row, under a budget shared by all kinds. The flag says that a row was left out.
\<close>

fun touching_rows :: "graph_edge codec \<Rightarrow> nat \<Rightarrow> bytes option list \<Rightarrow> nat \<Rightarrow> (graph_edge list \<times> bool) res" where
  "touching_rows c limit [] count = Inr ([], False)"
| "touching_rows c limit (row # rows) count =
     (if limit \<le> count then Inr ([], True)
      else case row of
             None \<Rightarrow> touching_rows c limit rows count
           | Some v \<Rightarrow> bindR (decode c v) (\<lambda>e.
                       bindR (touching_rows c limit rows (count + 1)) (\<lambda>(es, truncated).
                       Inr (e # es, truncated))))"

definition outgoing_rows :: "string \<Rightarrow> string \<Rightarrow> graph_store \<Rightarrow> edge_kind \<Rightarrow> bytes option list" where
  "outgoing_rows p node g kind = map (Some \<circ> snd) (prefix_scan (source_prefix p kind node) (edge_rows g))"

definition incoming_rows :: "string \<Rightarrow> string \<Rightarrow> graph_store \<Rightarrow> edge_kind \<Rightarrow> bytes option list" where
  "incoming_rows p node g kind =
     map (\<lambda>row. fmlookup (edge_rows g) (edge_key p kind (snd (fst row)) node)) (adj_scan (adj_key p kind node) (adj_in g))"

definition edges_touching_with_coverage ::
  "graph_codecs \<Rightarrow> string \<Rightarrow> string \<Rightarrow> nat \<Rightarrow> graph_store \<Rightarrow> (graph_edge list \<times> bool) res" where
  "edges_touching_with_coverage G p node limit g =
     bindR (touching_rows (edge_bin G) limit (concat (map (outgoing_rows p node g) structural_kinds)) 0) (\<lambda>(out, cut_out).
     bindR (touching_rows (edge_bin G) limit (concat (map (incoming_rows p node g) structural_kinds)) 0) (\<lambda>(inc, cut_in).
     Inr (out @ inc, cut_out \<or> cut_in)))"

definition edges_touching :: "graph_codecs \<Rightarrow> string \<Rightarrow> string \<Rightarrow> nat \<Rightarrow> graph_store \<Rightarrow> graph_edge list res" where
  "edges_touching G p node limit g = bindR (edges_touching_with_coverage G p node limit g) (\<lambda>(es, _). Inr es)"

definition list_edges :: "graph_codecs \<Rightarrow> string \<Rightarrow> edge_kind option \<Rightarrow> graph_store \<Rightarrow> graph_edge list res" where
  "list_edges G p kind g =
     bindR (traverseR (decode (edge_bin G)) (map snd (prefix_scan (p @ [NUL]) (edge_rows g)))) (\<lambda>edges.
     Inr (filter (\<lambda>e. case kind of None \<Rightarrow> True | Some k \<Rightarrow> gedge_kind e = k) edges))"

text \<open>A visitor folds over the edges; what it saw before an unreadable row stays seen.\<close>

fun visit_rows :: "graph_edge codec \<Rightarrow> ('s \<Rightarrow> graph_edge \<Rightarrow> 's) \<Rightarrow> 's \<Rightarrow> bytes list \<Rightarrow> unit res \<times> 's" where
  "visit_rows c f s [] = (Inr (), s)"
| "visit_rows c f s (v # vs) = (case decode c v of Inl e \<Rightarrow> (Inl e, s) | Inr e \<Rightarrow> visit_rows c f (f s e) vs)"

definition visit_edges :: "graph_codecs \<Rightarrow> string \<Rightarrow> ('s \<Rightarrow> graph_edge \<Rightarrow> 's) \<Rightarrow> 's \<Rightarrow> graph_store \<Rightarrow> unit res \<times> 's" where
  "visit_edges G p f s g = visit_rows (edge_bin G) f s (map snd (prefix_scan (p @ [NUL]) (edge_rows g)))"

definition fold_edges_by_kind ::
  "graph_codecs \<Rightarrow> string \<Rightarrow> edge_kind \<Rightarrow> ('s \<Rightarrow> graph_edge \<Rightarrow> 's) \<Rightarrow> 's \<Rightarrow> graph_store \<Rightarrow> unit res \<times> 's" where
  "fold_edges_by_kind G p kind f s g = visit_rows (edge_bin G) f s (map snd (prefix_scan (kind_prefix p kind) (edge_rows g)))"

definition get_edges_by_endpoints ::
  "graph_codecs \<Rightarrow> string \<Rightarrow> (string \<times> edge_kind \<times> string) list \<Rightarrow> graph_store \<Rightarrow> graph_edge list res" where
  "get_edges_by_endpoints G p endpoints g =
     traverseR (decode (edge_bin G))
       (List.map_filter (\<lambda>(source, kind, target). fmlookup (edge_rows g) (edge_key p kind source target)) endpoints)"

definition USIZE_MAX :: nat where
  "USIZE_MAX = 2 ^ 64 - 1"

definition list_structural_edges :: "graph_codecs \<Rightarrow> string \<Rightarrow> graph_store \<Rightarrow> graph_edge list res" where
  "list_structural_edges G p g =
     bindR (traverseR (\<lambda>kind. list_edges_by_kind G p kind USIZE_MAX g) structural_kinds) (\<lambda>out. Inr (concat out))"

definition count_edges :: "string \<Rightarrow> graph_store \<Rightarrow> nat" where
  "count_edges p g = length (prefix_scan (p @ [NUL]) (edge_rows g))"

text \<open>The kind segment of an edge key: what follows the prefix, up to the next separator.\<close>

definition kind_segment :: "string \<Rightarrow> string \<Rightarrow> string" where
  "kind_segment p k = takeWhile (\<lambda>c. c \<noteq> NUL) (drop (length p + 1) k)"

definition count_edges_by_kind :: "string \<Rightarrow> graph_store \<Rightarrow> string \<Rightarrow> nat" where
  "count_edges_by_kind p g name =
     length (filter (\<lambda>(k, _). kind_segment p k = name) (prefix_scan (p @ [NUL]) (edge_rows g)))"

section \<open>Nodes\<close>

definition get_node :: "graph_codecs \<Rightarrow> string \<Rightarrow> string \<Rightarrow> graph_store \<Rightarrow> graph_node option res" where
  "get_node G p node g = transposeR (decode (node_bin G)) (fmlookup (node_rows g) (composite p node))"

text \<open>The map of \<open>get_nodes\<close>, as its entries in the order of insertion.\<close>

fun get_nodes_loop ::
  "graph_codecs \<Rightarrow> string \<Rightarrow> string list \<Rightarrow> graph_store \<Rightarrow> (string \<times> graph_node option) list \<Rightarrow> (string \<times> graph_node option) list res" where
  "get_nodes_loop G p [] g out = Inr out"
| "get_nodes_loop G p (i # is) g out =
     (if i \<in> fst ` set out then get_nodes_loop G p is g out
      else bindR (get_node G p i g) (\<lambda>n. get_nodes_loop G p is g (out @ [(i, n)])))"

definition get_nodes :: "graph_codecs \<Rightarrow> string \<Rightarrow> string list \<Rightarrow> graph_store \<Rightarrow> (string \<times> graph_node option) list res" where
  "get_nodes G p ids g = get_nodes_loop G p ids g []"

definition map_nodes :: "graph_codecs \<Rightarrow> string \<Rightarrow> (graph_node \<Rightarrow> 'a) \<Rightarrow> graph_store \<Rightarrow> 'a list res" where
  "map_nodes G p f g =
     traverseR (\<lambda>(_, v). bindR (decode (node_bin G) v) (\<lambda>n. Inr (f n))) (prefix_scan (p @ [NUL]) (node_rows g))"

definition count_nodes :: "string \<Rightarrow> graph_store \<Rightarrow> nat" where
  "count_nodes p g = length (prefix_scan (p @ [NUL]) (node_rows g))"

text \<open>Rows that cannot be decoded are not counted by type.\<close>

definition count_nodes_by_type :: "graph_codecs \<Rightarrow> string \<Rightarrow> graph_store \<Rightarrow> string \<Rightarrow> nat" where
  "count_nodes_by_type G p g t =
     length (filter (\<lambda>n. node_type n = t) (List.map_filter (\<lambda>(_, v). from_slice (node_bin G) v) (prefix_scan (p @ [NUL]) (node_rows g))))"

definition get_graph_meta :: "(bytes \<Rightarrow> string) \<Rightarrow> string \<Rightarrow> string \<Rightarrow> graph_store \<Rightarrow> string option" where
  "get_graph_meta lossy p key g = map_option lossy (fmlookup (graph_meta g) (composite p key))"

text \<open>The members of a file, with the exact path compared before the cap.\<close>

fun member_rows :: "graph_codecs \<Rightarrow> string \<Rightarrow> string \<Rightarrow> nat \<Rightarrow> (string \<times> bytes) list \<Rightarrow> string list \<Rightarrow> (string list \<times> bool) res" where
  "member_rows G path file cap [] members = Inr (members, False)"
| "member_rows G path file cap ((_, v) # rows) members =
     bindR (decode (node_bin G) v) (\<lambda>n.
     if node_id n = file \<or> file_path n \<noteq> path then member_rows G path file cap rows members
     else if cap \<le> length members then Inr (members, True)
     else member_rows G path file cap rows (members @ [node_id n]))"

definition file_component_members ::
  "graph_codecs \<Rightarrow> string \<Rightarrow> string \<Rightarrow> string \<Rightarrow> nat \<Rightarrow> graph_store \<Rightarrow> (string list \<times> bool) res" where
  "file_component_members G p path file cap g =
     bindR (member_rows G path file cap (prefix_scan (p @ [NUL]) (node_rows g)) []) (\<lambda>(members, truncated).
     Inr (remdups_adj (sort members), truncated))"

fun bounded_members ::
  "graph_codecs \<Rightarrow> string \<Rightarrow> string \<Rightarrow> nat \<Rightarrow> table \<Rightarrow> ((string \<times> string) \<times> bytes) list \<Rightarrow> nat \<Rightarrow> nat \<Rightarrow> graph_node list
     \<Rightarrow> graph_node list res" where
  "bounded_members G p path limit nodes [] inspected used result = Inr result"
| "bounded_members G p path limit nodes (((_, i), _) # rows) inspected used result =
     bindR (ensure (inspected + 1 \<le> limit * 2) (Bail (''File declaration adjacency exceeds limit: '' @ path))) (\<lambda>_.
     if \<not> prefix ''sym:'' i then bounded_members G p path limit nodes rows (inspected + 1) used result
     else
       bindR (ensure (length result < limit) (Bail (''File member inventory exceeds limit: '' @ path))) (\<lambda>_.
       bindR (ok_or (fmlookup nodes (composite p i)) (Bail (''Missing file member: '' @ i))) (\<lambda>v.
       bindR (ensure (length v \<le> 256 * 1024 \<and> used + length v \<le> 8 * 1024 * 1024) (Bail ''File member metadata exceeds limit'')) (\<lambda>_.
       bindR (decode (node_bin G) v) (\<lambda>n.
       bindR (ensure (file_path n = path) (Bail (''Foreign file member: '' @ i))) (\<lambda>_.
       bounded_members G p path limit nodes rows (inspected + 1) (used + length v) (result @ [n])))))))"

definition file_members_bounded :: "graph_codecs \<Rightarrow> string \<Rightarrow> string \<Rightarrow> nat \<Rightarrow> graph_store \<Rightarrow> graph_node list res" where
  "file_members_bounded G p path limit g =
     bindR (ensure (0 < limit \<and> limit \<le> 4096) (Bail ''Invalid file-member budget'')) (\<lambda>_.
     bounded_members G p path limit (node_rows g) (adj_scan (adj_key p Contains (node_file path)) (adj_out g)) 0 0 [])"

section \<open>The one-hop sweep of a component\<close>

record component_adjacency =
  incoming :: "(string \<times> edge_kind \<times> 32 word \<times> string) list"
  outgoing :: "(string \<times> edge_kind \<times> 32 word \<times> string) list"
  truncated_in :: "(edge_kind \<times> string) list"
  truncated_out :: "(edge_kind \<times> string) list"
  internal_skipped :: nat

text \<open>
  One kind at one endpoint: the accepted neighbours, whether one was left out behind the cap, and
  how many rows inside the component were passed.
\<close>

fun sweep_rows ::
  "string set \<Rightarrow> nat \<Rightarrow> ((string \<times> string) \<times> bytes) list \<Rightarrow> nat \<Rightarrow> ((string \<times> 32 word) list \<times> bool \<times> nat) res" where
  "sweep_rows members cap [] accepted = Inr ([], False, 0)"
| "sweep_rows members cap (row # rows) accepted =
     (if snd (fst row) \<in> members
      then bindR (sweep_rows members cap rows accepted) (\<lambda>(out, cut, skipped). Inr (out, cut, skipped + 1))
      else if cap \<le> accepted then Inr ([], True, 0)
      else bindR (weighted_row row) (\<lambda>x.
           bindR (sweep_rows members cap rows (accepted + 1)) (\<lambda>(out, cut, skipped).
           Inr (x # out, cut, skipped))))"

definition sweep_in :: "string \<Rightarrow> string set \<Rightarrow> edge_kind \<Rightarrow> nat \<Rightarrow> string \<Rightarrow> graph_store \<Rightarrow> component_adjacency \<Rightarrow> component_adjacency res" where
  "sweep_in p members kind cap ep g r =
     (if cap = 0 then Inr r
      else bindR (sweep_rows members cap (adj_scan (adj_key p kind ep) (adj_in g)) 0) (\<lambda>(out, cut, skipped).
           Inr (r\<lparr>incoming := incoming r @ map (\<lambda>(n, w). (n, kind, w, ep)) out,
                  truncated_in := truncated_in r @ (if cut then [(kind, ep)] else []),
                  internal_skipped := internal_skipped r + skipped\<rparr>)))"

definition sweep_out :: "string \<Rightarrow> string set \<Rightarrow> edge_kind \<Rightarrow> nat \<Rightarrow> string \<Rightarrow> graph_store \<Rightarrow> component_adjacency \<Rightarrow> component_adjacency res" where
  "sweep_out p members kind cap ep g r =
     (if cap = 0 then Inr r
      else bindR (sweep_rows members cap (adj_scan (adj_key p kind ep) (adj_out g)) 0) (\<lambda>(out, cut, skipped).
           Inr (r\<lparr>outgoing := outgoing r @ map (\<lambda>(n, w). (n, kind, w, ep)) out,
                  truncated_out := truncated_out r @ (if cut then [(kind, ep)] else [])\<rparr>)))"

fun sweep_endpoints ::
  "string \<Rightarrow> string set \<Rightarrow> edge_kind \<Rightarrow> nat \<Rightarrow> nat \<Rightarrow> string list \<Rightarrow> graph_store \<Rightarrow> component_adjacency \<Rightarrow> component_adjacency res" where
  "sweep_endpoints p members kind cin cout [] g r = Inr r"
| "sweep_endpoints p members kind cin cout (ep # eps) g r =
     bindR (sweep_in p members kind cin ep g r) (\<lambda>r1.
     bindR (sweep_out p members kind cout ep g r1) (\<lambda>r2.
     sweep_endpoints p members kind cin cout eps g r2))"

fun sweep_kinds ::
  "string \<Rightarrow> string set \<Rightarrow> (edge_kind \<Rightarrow> nat) \<Rightarrow> (edge_kind \<Rightarrow> nat) \<Rightarrow> edge_kind list \<Rightarrow> string list \<Rightarrow> graph_store
     \<Rightarrow> component_adjacency \<Rightarrow> component_adjacency res" where
  "sweep_kinds p members cap_in cap_out [] eps g r = Inr r"
| "sweep_kinds p members cap_in cap_out (kind # kinds) eps g r =
     (if cap_in kind = 0 \<and> cap_out kind = 0 then sweep_kinds p members cap_in cap_out kinds eps g r
      else bindR (sweep_endpoints p members kind (cap_in kind) (cap_out kind) eps g r) (\<lambda>r1.
           sweep_kinds p members cap_in cap_out kinds eps g r1))"

definition component_sweep ::
  "string \<Rightarrow> string list \<Rightarrow> string set \<Rightarrow> (edge_kind \<Rightarrow> nat) \<Rightarrow> (edge_kind \<Rightarrow> nat) \<Rightarrow> graph_store \<Rightarrow> component_adjacency res" where
  "component_sweep p endpoints members cap_in cap_out g =
     (let eps = remdups_adj (sort endpoints) in
      sweep_kinds p (members \<union> set eps) cap_in cap_out ALL_KINDS eps g
        \<lparr> incoming = [], outgoing = [], truncated_in = [], truncated_out = [], internal_skipped = 0 \<rparr>)"

section \<open>Insight lookups\<close>

fun cluster_has_insight :: "string \<Rightarrow> string list \<Rightarrow> nat \<Rightarrow> graph_store \<Rightarrow> bool res" where
  "cluster_has_insight p [] limit g = Inr False"
| "cluster_has_insight p (n # ns) limit g =
     bindR (neighbors p Insight n limit g) (\<lambda>neigh.
     if neigh \<noteq> [] then Inr True else cluster_has_insight p ns limit g)"

text \<open>\<open>fingerprint_of\<close> reads the fingerprint field of a node's JSON metadata.\<close>

fun insight_scan :: "graph_codecs \<Rightarrow> (string \<Rightarrow> string option) \<Rightarrow> string \<Rightarrow> (string \<times> bytes) list \<Rightarrow> bool res" where
  "insight_scan G fingerprint_of fingerprint [] = Inr False"
| "insight_scan G fingerprint_of fingerprint ((_, v) # rows) =
     bindR (decode (node_bin G) v) (\<lambda>n.
     if node_type n = ''insight'' \<and> Option.bind (gnode_metadata n) fingerprint_of = Some fingerprint then Inr True
     else insight_scan G fingerprint_of fingerprint rows)"

text \<open>A hit of the fallback scan is written to the index.\<close>

definition fingerprint_has_insight ::
  "graph_codecs \<Rightarrow> (string \<Rightarrow> string option) \<Rightarrow> string \<Rightarrow> string \<Rightarrow> bool gop" where
  "fingerprint_has_insight G fingerprint_of p fingerprint g =
     (if fmlookup (fingerprint_rows g) (composite p fingerprint) \<noteq> None then (Inr True, g)
      else case insight_scan G fingerprint_of fingerprint (prefix_scan (p @ [NUL]) (node_rows g)) of
             Inl e \<Rightarrow> (Inl e, g)
           | Inr False \<Rightarrow> (Inr False, g)
           | Inr True \<Rightarrow> then_op (commit (set_insight_fingerprint p fingerprint)) (\<lambda>_ g'. (Inr True, g')) g)"

end
