(* ===== verification/Graph_Search.thy ===== *)
theory Graph_Search
  imports Graph_Queries Utf8
begin

text \<open>
  Searching the graph (\<open>engram_graph/src/store.rs\<close>): node queries by type, name and path, the
  resolution of a symbol a user names, the bounded breadth-first traversal and the search for paths
  from a user interface node to the database. Unicode lower-casing, the JSON fields of a row's
  metadata and the strict \<open>bincode\<close> decoders, which refuse trailing bytes, are parameters.
\<close>

record graph_env =
  lower_of :: "string \<Rightarrow> string"
  fqn_of :: "string \<Rightarrow> string option"
  unbound_of :: "string \<Rightarrow> bool"
  strict_node :: "bytes \<Rightarrow> graph_node option"
  strict_edge :: "bytes \<Rightarrow> graph_edge option"

section \<open>Text\<close>

text \<open>\<open>slice::windows\<close>, and \<open>eq_ignore_ascii_case\<close> on bytes.\<close>

definition byte_windows :: "nat \<Rightarrow> string \<Rightarrow> string list" where
  "byte_windows n s = map (\<lambda>i. take n (drop i s)) [0..<Suc (length s) - n]"

definition ascii_lower :: "char \<Rightarrow> char" where
  "ascii_lower c = (if 65 \<le> byte c \<and> byte c \<le> 90 then char_of (byte c + 32) else c)"

definition contains_case_insensitive :: "string \<Rightarrow> string \<Rightarrow> bool" where
  "contains_case_insensitive haystack needle \<longleftrightarrow>
     needle = [] \<or> list_ex (\<lambda>w. map ascii_lower w = map ascii_lower needle) (byte_windows (length needle) haystack)"

definition contains_case_insensitive_path :: "string \<Rightarrow> string \<Rightarrow> bool" where
  "contains_case_insensitive_path haystack needle \<longleftrightarrow>
     needle = [] \<or> list_ex (\<lambda>w. list_all2 (\<lambda>h n. ascii_lower (if h = CHR 0x5C then CHR ''/'' else h) = ascii_lower n) w needle)
       (byte_windows (length needle) haystack)"

definition slashes :: "string \<Rightarrow> string" where
  "slashes = map (\<lambda>c. if c = CHR 0x5C then CHR ''/'' else c)"

text \<open>\<open>str::trim_end\<close>: the encodings of the characters that Unicode calls white space.\<close>

definition white_space :: "string list" where
  "white_space = map (\<lambda>c. [char_of c]) [9, 10, 11, 12, 13, 32 :: nat]
     @ [[CHR 0xC2, CHR 0x85], [CHR 0xC2, CHR 0xA0], [CHR 0xE1, CHR 0x9A, CHR 0x80]]
     @ map (\<lambda>c. [CHR 0xE2, CHR 0x80, char_of c]) ([128..<139] @ [168, 169, 175 :: nat])
     @ [[CHR 0xE2, CHR 0x81, CHR 0x9F], [CHR 0xE3, CHR 0x80, CHR 0x80]]"

fun trim_end_steps :: "nat \<Rightarrow> string \<Rightarrow> string" where
  "trim_end_steps 0 s = s"
| "trim_end_steps (Suc n) s = (case find (\<lambda>w. suffix w s) white_space of
     None \<Rightarrow> s | Some w \<Rightarrow> trim_end_steps n (take (length s - length w) s))"

definition trim_end :: "string \<Rightarrow> string" where
  "trim_end s = trim_end_steps (length s) s"

section \<open>Node queries\<close>

datatype node_path_match = Substring | ExactFile | FileOrDirectory

definition path_selected :: "graph_env \<Rightarrow> node_path_match \<Rightarrow> string \<Rightarrow> string \<Rightarrow> bool" where
  "path_selected E m q path = (case m of
     ExactFile \<Rightarrow> lower_of E (slashes path) = q
   | FileOrDirectory \<Rightarrow>
       let stored = lower_of E (slashes path); scope = rev (dropWhile (\<lambda>c. c = CHR ''/'') (rev q))
       in stored = scope \<or> prefix (scope @ ''/'') stored
   | Substring \<Rightarrow> q = [] \<or> contains_case_insensitive_path path q)"

text \<open>
  \<open>skip_other_type\<close> decodes and validates the whole row before it passes over it, so a row of another
  type that cannot be read still fails the query.
\<close>

definition node_selected ::
  "graph_env \<Rightarrow> string option \<Rightarrow> string option \<Rightarrow> string option \<Rightarrow> node_path_match \<Rightarrow> graph_node \<Rightarrow> bool" where
  "node_selected E wanted name_pattern path m n \<longleftrightarrow>
     (case wanted of None \<Rightarrow> True | Some ty \<Rightarrow> ty = [] \<or> node_type n = ty)
     \<and> (case name_pattern of None \<Rightarrow> True | Some s \<Rightarrow> lower_of E s = [] \<or> contains_case_insensitive (gnode_name n) (lower_of E s))
     \<and> (case path of None \<Rightarrow> True | Some s \<Rightarrow> path_selected E m (lower_of E (slashes s)) (file_path n))"

text \<open>The limit is checked after a node is taken; rows behind the last one taken are not decoded.\<close>

fun query_rows :: "graph_codecs \<Rightarrow> (graph_node \<Rightarrow> bool) \<Rightarrow> nat \<Rightarrow> (string \<times> bytes) list \<Rightarrow> graph_node list \<Rightarrow> graph_node list res" where
  "query_rows G selected limit [] out = Inr out"
| "query_rows G selected limit ((_, v) # rows) out =
     bindR (decode (node_bin G) v) (\<lambda>n.
     if \<not> selected n then query_rows G selected limit rows out
     else if limit \<le> length out + 1 then Inr (out @ [n])
     else query_rows G selected limit rows (out @ [n]))"

definition query_nodes_with_path_match ::
  "graph_env \<Rightarrow> graph_codecs \<Rightarrow> string \<Rightarrow> string option \<Rightarrow> string option \<Rightarrow> string option \<Rightarrow> nat \<Rightarrow> node_path_match \<Rightarrow> graph_store
     \<Rightarrow> graph_node list res" where
  "query_nodes_with_path_match E G p wanted name_pattern path limit m g =
     query_rows G (node_selected E wanted name_pattern path m) limit (prefix_scan (p @ [NUL]) (node_rows g)) []"

definition query_nodes ::
  "graph_env \<Rightarrow> graph_codecs \<Rightarrow> string \<Rightarrow> string option \<Rightarrow> string option \<Rightarrow> string option \<Rightarrow> nat \<Rightarrow> graph_store \<Rightarrow> graph_node list res" where
  "query_nodes E G p wanted name_pattern path limit g =
     query_nodes_with_path_match E G p wanted name_pattern path limit Substring g"

definition query_nodes_in_file ::
  "graph_env \<Rightarrow> graph_codecs \<Rightarrow> string \<Rightarrow> string option \<Rightarrow> string \<Rightarrow> nat \<Rightarrow> graph_store \<Rightarrow> graph_node list res" where
  "query_nodes_in_file E G p wanted path limit g =
     query_nodes_with_path_match E G p wanted None (Some path) limit ExactFile g"

definition query_nodes_in_scope ::
  "graph_env \<Rightarrow> graph_codecs \<Rightarrow> string \<Rightarrow> string option \<Rightarrow> string \<Rightarrow> nat \<Rightarrow> graph_store \<Rightarrow> graph_node list res" where
  "query_nodes_in_scope E G p wanted scope limit g =
     query_nodes_with_path_match E G p wanted None (Some scope) limit FileOrDirectory g"

definition symbol_selected :: "graph_env \<Rightarrow> string \<Rightarrow> string option \<Rightarrow> graph_node \<Rightarrow> bool" where
  "symbol_selected E needle scope n \<longleftrightarrow>
     (let name = lower_of E (gnode_name n) in
      name = needle \<or> suffix (''.'' @ needle) name \<or> suffix (''::'' @ needle) name \<or> suffix ('':'' @ needle) (lower_of E (node_id n)))
     \<and> (case scope of None \<Rightarrow> True | Some s \<Rightarrow>
          let within = lower_of E (slashes s); path = lower_of E (slashes (file_path n))
          in within = [] \<or> path = within \<or> prefix (within @ ''/'') path)"

definition query_nodes_by_symbol_name ::
  "graph_env \<Rightarrow> graph_codecs \<Rightarrow> string \<Rightarrow> string \<Rightarrow> string option \<Rightarrow> nat \<Rightarrow> graph_store \<Rightarrow> graph_node list res" where
  "query_nodes_by_symbol_name E G p symbol scope limit g =
     (let needle = lower_of E symbol in
      if needle = [] \<or> limit = 0 then Inr []
      else query_rows G (symbol_selected E needle scope) limit (prefix_scan (p @ [NUL]) (node_rows g)) [])"

definition list_node_ids :: "graph_codecs \<Rightarrow> string \<Rightarrow> string option \<Rightarrow> graph_store \<Rightarrow> string list res" where
  "list_node_ids G p wanted g =
     bindR (traverseR (decode (node_bin G)) (map snd (prefix_scan (p @ [NUL]) (node_rows g)))) (\<lambda>ns.
     Inr (map node_id (filter (\<lambda>n. case wanted of None \<Rightarrow> True | Some ty \<Rightarrow> node_type n = ty) ns)))"

definition get_node_bounded :: "graph_env \<Rightarrow> string \<Rightarrow> string \<Rightarrow> nat \<Rightarrow> graph_store \<Rightarrow> (graph_node \<times> nat) option res" where
  "get_node_bounded E p i max_bytes g =
     bindR (ensure (0 < max_bytes \<and> max_bytes \<le> 256 * 1024 \<and> length i \<le> 2048) (Bail ''Invalid bounded node lookup'')) (\<lambda>_.
     case fmlookup (node_rows g) (composite p i) of
       None \<Rightarrow> Inr None
     | Some v \<Rightarrow>
         bindR (ensure (length v \<le> max_bytes) (Bail ''Graph node exceeds bounded lookup byte limit'')) (\<lambda>_.
         bindR (ok_or (strict_node E v) JsonError) (\<lambda>n.
         bindR (ensure (node_id n = i) (Bail ''Graph node disagrees with its lookup key'')) (\<lambda>_.
         Inr (Some (n, length v))))))"

section \<open>Resolving a symbol\<close>

datatype resolve_result = Unique graph_node | Ambiguous "graph_node list" | NotFound

definition UNBOUND_RECEIVER_PREFIX :: string where
  "UNBOUND_RECEIVER_PREFIX = ''::receiver_unbound:''"

definition DIRECT_PREFIXES :: "string list" where
  "DIRECT_PREFIXES = [''sym:'', ''file:'', ''page:'', ''control:'', ''table:'', ''column:'', ''state:'', ''gis_config:'',
     ''binding_field:'', ''ui_container:'', ''sql:'']"

text \<open>One step of the ladder: a single candidate, the preferred one of several, or all of them.\<close>

definition chosen :: "string option \<Rightarrow> graph_node list \<Rightarrow> resolve_result option" where
  "chosen prefer ns = (case ns of
     [] \<Rightarrow> None
   | [n] \<Rightarrow> Some (Unique n)
   | _ \<Rightarrow> (case Option.bind prefer (\<lambda>path. find (\<lambda>n. file_path n = path) ns) of
             Some n \<Rightarrow> Some (Unique n)
           | None \<Rightarrow> Some (Ambiguous ns)))"

definition step_of :: "string option \<Rightarrow> (graph_node \<Rightarrow> bool) \<Rightarrow> graph_node list res \<Rightarrow> resolve_result option" where
  "step_of prefer matches found = (case found of Inl _ \<Rightarrow> None | Inr ns \<Rightarrow> chosen prefer (filter matches ns))"

definition looks_like_path :: "string \<Rightarrow> bool" where
  "looks_like_path input \<longleftrightarrow> CHR ''/'' \<in> set input \<or> CHR 0x5C \<in> set input"

definition last_segment :: "string \<Rightarrow> string" where
  "last_segment input = rev (takeWhile (\<lambda>c. c \<noteq> CHR ''.'') (rev input))"

text \<open>A step whose query fails is passed over.\<close>

definition resolve_by_name ::
  "graph_env \<Rightarrow> graph_codecs \<Rightarrow> string \<Rightarrow> string \<Rightarrow> string option \<Rightarrow> string option \<Rightarrow> graph_store \<Rightarrow> resolve_result" where
  "resolve_by_name E G p input wanted prefer g =
     (case step_of prefer (\<lambda>n. gnode_name n = input) (query_nodes E G p wanted (Some input) None 100 g) of
        Some r \<Rightarrow> r
      | None \<Rightarrow>
     (case step_of prefer (\<lambda>n. Option.bind (gnode_metadata n) (fqn_of E) = Some input) (query_nodes E G p wanted None None 5000 g) of
        Some r \<Rightarrow> r
      | None \<Rightarrow>
     (let short = last_segment input in
      if looks_like_path input then NotFound
      else case step_of prefer (\<lambda>n. (case wanted of None \<Rightarrow> True | Some ty \<Rightarrow> node_type n = ty)
                  \<and> (gnode_name n = short \<or> suffix (''.'' @ short) (gnode_name n)))
                (query_nodes_by_symbol_name E G p short None 500 g) of
             Some r \<Rightarrow> r
           | None \<Rightarrow> NotFound)))"

definition resolve_symbol ::
  "graph_env \<Rightarrow> graph_codecs \<Rightarrow> string \<Rightarrow> string \<Rightarrow> string option \<Rightarrow> string option \<Rightarrow> graph_store \<Rightarrow> resolve_result res" where
  "resolve_symbol E G p input wanted prefer g =
     (if prefix UNBOUND_RECEIVER_PREFIX input then Inr NotFound
      else
        bindR (if list_ex (\<lambda>q. prefix q input) DIRECT_PREFIXES then get_node G p input g else Inr None) (\<lambda>direct.
        case direct of Some n \<Rightarrow> Inr (Unique n) | None \<Rightarrow>
        bindR (if looks_like_path input then get_node G p (''file:'' @ slashes input) g else Inr None) (\<lambda>file.
        case file of Some n \<Rightarrow> Inr (Unique n) | None \<Rightarrow> Inr (resolve_by_name E G p input wanted prefer g))))"

text \<open>An unresolved call target may be resolved by name, unless its edge says that its receiver is unbound.\<close>

definition call_admits_names :: "graph_env \<Rightarrow> string \<Rightarrow> string \<Rightarrow> string \<Rightarrow> graph_store \<Rightarrow> bool" where
  "call_admits_names E p source target g =
     (case fmlookup (edge_rows g) (edge_key p Calls source target) of
        None \<Rightarrow> True
      | Some v \<Rightarrow> length v \<le> 64 * 1024 \<and> (case strict_edge E v of
            None \<Rightarrow> False
          | Some e \<Rightarrow> source_id e = source \<and> target_id e = target \<and> gedge_kind e = Calls
              \<and> \<not> (case gedge_metadata e of None \<Rightarrow> False | Some m \<Rightarrow> unbound_of E m)))"

definition try_resolve_unresolved_target ::
  "graph_env \<Rightarrow> graph_codecs \<Rightarrow> string \<Rightarrow> string \<Rightarrow> string \<Rightarrow> graph_store \<Rightarrow> string option" where
  "try_resolve_unresolved_target E G p source target g =
     (if prefix UNBOUND_RECEIVER_PREFIX target \<or> \<not> prefix ''::'' target \<or> \<not> call_admits_names E p source target g then None
      else
        let name = trim_end (takeWhile (\<lambda>c. c \<noteq> CHR ''('') (drop 2 target));
            matches = (\<lambda>candidate. candidate = name \<or> suffix (''.'' @ name) candidate)
        in case resolve_symbol E G p name None None g of
             Inr (Unique n) \<Rightarrow>
               if CHR ''.'' \<in> set name \<and> \<not> matches (gnode_name n)
                    \<and> \<not> (case Option.bind (gnode_metadata n) (fqn_of E) of None \<Rightarrow> False | Some f \<Rightarrow> matches f)
               then None else Some (node_id n)
           | _ \<Rightarrow> None)"

section \<open>Traversal\<close>

definition incoming_ids :: "string \<Rightarrow> edge_kind list option \<Rightarrow> string \<Rightarrow> graph_store \<Rightarrow> string list res" where
  "incoming_ids p kinds here g = (case kinds of
     Some ks \<Rightarrow> bindR (traverseR (\<lambda>k. find_incoming_edges p (Some k) here 100 g) ks) (\<lambda>rows. Inr (map fst (concat rows)))
   | None \<Rightarrow> bindR (find_incoming_edges p None here 100 g) (\<lambda>rows. Inr (map fst rows)))"

definition outgoing_ids :: "string \<Rightarrow> edge_kind list option \<Rightarrow> string \<Rightarrow> graph_store \<Rightarrow> string list res" where
  "outgoing_ids p kinds here g =
     bindR (traverseR (\<lambda>k. neighbors p k here 100 g) (case kinds of Some ks \<Rightarrow> ks | None \<Rightarrow> ALL_KINDS)) (\<lambda>rows.
     Inr (map fst (concat rows)))"

definition hop_ids :: "string \<Rightarrow> edge_kind list option \<Rightarrow> string \<Rightarrow> string \<Rightarrow> graph_store \<Rightarrow> string list res" where
  "hop_ids p kinds direction here g =
     bindR (if direction = ''in'' \<or> direction = ''both'' then incoming_ids p kinds here g else Inr []) (\<lambda>inc.
     bindR (if direction = ''out'' \<or> direction = ''both'' then outgoing_ids p kinds here g else Inr []) (\<lambda>out.
     Inr (take 50 (remdups_adj (sort (inc @ out))))))"

definition resolved_id :: "graph_env \<Rightarrow> graph_codecs \<Rightarrow> string \<Rightarrow> graph_store \<Rightarrow> string \<Rightarrow> string \<Rightarrow> string" where
  "resolved_id E G p g here next =
     (case try_resolve_unresolved_target E G p here next g of Some i \<Rightarrow> i | None \<Rightarrow> next)"

fun push_new :: "(string \<Rightarrow> string) \<Rightarrow> nat \<Rightarrow> string list \<Rightarrow> string set \<Rightarrow> (string \<times> nat) list \<Rightarrow> string set \<times> (string \<times> nat) list" where
  "push_new r dist [] visited queue = (visited, queue)"
| "push_new r dist (n # ns) visited queue =
     (if r n \<in> visited then push_new r dist ns visited queue
      else push_new r dist ns (insert (r n) visited) (queue @ [(r n, dist)]))"

partial_function (option) traverse_loop ::
  "(string \<Rightarrow> graph_node option res) \<Rightarrow> (string \<Rightarrow> string list res) \<Rightarrow> (string \<Rightarrow> string \<Rightarrow> string) \<Rightarrow> nat
     \<Rightarrow> string set \<Rightarrow> (string \<times> nat) list \<Rightarrow> (graph_node \<times> nat) list \<Rightarrow> (graph_node \<times> nat) list res option" where
  "traverse_loop node hops r max_hops visited queue results =
     (case queue of
        [] \<Rightarrow> Some (Inr results)
      | (here, dist) # rest \<Rightarrow>
          if 500 \<le> length results then Some (Inr results)
          else case node here of
                 Inl e \<Rightarrow> Some (Inl e)
               | Inr found \<Rightarrow>
                   let results' = results @ (case found of Some n \<Rightarrow> [(n, dist)] | None \<Rightarrow> []) in
                   if max_hops \<le> dist then traverse_loop node hops r max_hops visited rest results'
                   else case hops here of
                          Inl e \<Rightarrow> Some (Inl e)
                        | Inr ns \<Rightarrow> traverse_loop node hops r max_hops (fst (push_new (r here) (dist + 1) ns visited rest))
                                     (snd (push_new (r here) (dist + 1) ns visited rest)) results')"

definition traverse ::
  "graph_env \<Rightarrow> graph_codecs \<Rightarrow> string \<Rightarrow> string \<Rightarrow> nat \<Rightarrow> edge_kind list option \<Rightarrow> string \<Rightarrow> graph_store
     \<Rightarrow> (graph_node \<times> nat) list res option" where
  "traverse E G p start max_hops kinds direction g =
     traverse_loop (\<lambda>i. get_node G p i g) (\<lambda>i. hop_ids p kinds direction i g) (resolved_id E G p g) max_hops
       {start} [(start, 0)] []"

section \<open>Paths from the user interface to the database\<close>

type_synonym bfs_entries = "(string \<times> nat option) list"

text \<open>The parent chain; a parent comes before its child, so the chain is at most as long as the list.\<close>

fun parent_chain :: "nat \<Rightarrow> bfs_entries \<Rightarrow> nat option \<Rightarrow> nat list" where
  "parent_chain 0 es i = []"
| "parent_chain (Suc n) es None = []"
| "parent_chain (Suc n) es (Some i) = i # parent_chain n es (snd (es ! i))"

definition bfs_depth :: "bfs_entries \<Rightarrow> nat \<Rightarrow> nat" where
  "bfs_depth es i = length (parent_chain (length es) es (snd (es ! i)))"

definition bfs_path_contains :: "bfs_entries \<Rightarrow> nat \<Rightarrow> string \<Rightarrow> bool" where
  "bfs_path_contains es i target = list_ex (\<lambda>j. fst (es ! j) = target) (parent_chain (length es) es (snd (es ! i)))"

definition bfs_reconstruct_path :: "bfs_entries \<Rightarrow> nat \<Rightarrow> string list" where
  "bfs_reconstruct_path es i = rev (map (\<lambda>j. fst (es ! j)) (parent_chain (length es) es (Some i)))"

definition is_database_terminal :: "graph_node \<Rightarrow> bool" where
  "is_database_terminal n \<longleftrightarrow> prefix ''sql:'' (node_id n) \<or> prefix ''table:'' (node_id n) \<or> prefix ''column:'' (node_id n)
     \<or> node_type n = ''inline_sql'' \<or> node_type n = ''stored_proc'' \<or> node_type n = ''db_table'' \<or> node_type n = ''db_column''"

definition UI_KINDS :: "edge_kind list" where
  "UI_KINDS = [Dependency, Contains, DataBinding, Calls, SqlCalls, QueriesTable, CallsStoredProcedure, StoredProcReadsTable,
     StoredProcWritesTable, ReadsColumn, HasColumn]"

record ui_state =
  ui_entries :: bfs_entries
  ui_queue :: "nat list"
  ui_paths :: "string list list"
  best_depth :: "string \<Rightarrow> nat option"

definition ui_push :: "graph_env \<Rightarrow> graph_codecs \<Rightarrow> string \<Rightarrow> graph_store \<Rightarrow> nat \<Rightarrow> string \<Rightarrow> ui_state \<Rightarrow> ui_state" where
  "ui_push E G p g idx n st =
     (let es = ui_entries st;
          next = resolved_id E G p g (fst (es ! idx)) n;
          in_path = (bfs_path_contains es idx next \<or> fst (es ! idx) = next)
      in if \<not> in_path \<or> prefix ''sql:'' next
         then st\<lparr>ui_entries := es @ [(next, Some idx)], ui_queue := ui_queue st @ [length es]\<rparr>
         else st)"

definition ui_neighbors :: "string \<Rightarrow> string \<Rightarrow> graph_store \<Rightarrow> string list res" where
  "ui_neighbors p here g =
     bindR (traverseR (\<lambda>k. neighbors p k here 100 g) UI_KINDS) (\<lambda>rows.
     Inr (take 30 (remdups_adj (sort (map fst (concat rows))))))"

text \<open>One entry taken from the queue: the next state, and whether the search stops there.\<close>

definition ui_step ::
  "graph_env \<Rightarrow> graph_codecs \<Rightarrow> string \<Rightarrow> string \<Rightarrow> nat \<Rightarrow> nat \<Rightarrow> graph_store \<Rightarrow> nat \<Rightarrow> ui_state \<Rightarrow> (ui_state \<times> bool) res" where
  "ui_step E G p start max_hops max_paths g idx st =
     (let es = ui_entries st; here = fst (es ! idx); depth = bfs_depth es idx in
      bindR (get_node G p here g) (\<lambda>found.
      case found of None \<Rightarrow> Inr (st, False) | Some n \<Rightarrow>
      if bfs_path_contains es idx here then Inr (st, False)
      else if is_database_terminal n
      then let st' = st\<lparr>ui_paths := ui_paths st @ [bfs_reconstruct_path es idx]\<rparr>
           in Inr (st', max_paths \<le> length (ui_paths st'))
      else if max_hops < depth then Inr (st, False)
      else if (case best_depth st here of Some prev \<Rightarrow> prev < depth \<and> here \<noteq> start | None \<Rightarrow> False) then Inr (st, False)
      else bindR (ui_neighbors p here g) (\<lambda>ns.
           Inr (fold (ui_push E G p g idx) ns (st\<lparr>best_depth := (best_depth st)(here \<mapsto> depth)\<rparr>), False))))"

text \<open>The code bounds the number of entries it takes from the queue, so the bound is the recursion's measure.\<close>

primrec ui_loop ::
  "graph_env \<Rightarrow> graph_codecs \<Rightarrow> string \<Rightarrow> string \<Rightarrow> nat \<Rightarrow> nat \<Rightarrow> graph_store \<Rightarrow> nat \<Rightarrow> ui_state \<Rightarrow> ui_state res" where
  "ui_loop E G p start max_hops max_paths g 0 st = Inr st"
| "ui_loop E G p start max_hops max_paths g (Suc ops) st =
     (case ui_queue st of
        [] \<Rightarrow> Inr st
      | idx # rest \<Rightarrow>
          bindR (ui_step E G p start max_hops max_paths g idx (st\<lparr>ui_queue := rest\<rparr>)) (\<lambda>(st', stop).
          if stop then Inr st' else ui_loop E G p start max_hops max_paths g ops st'))"

text \<open>The product wraps at the width of \<open>usize\<close>, as in a release build.\<close>

definition max_bfs_queue_ops :: "nat \<Rightarrow> nat \<Rightarrow> nat" where
  "max_bfs_queue_ops max_hops max_paths = min 50000 (max 5000 ((max_hops * max_paths * 100) mod 2 ^ 64))"

definition find_ui_paths ::
  "graph_env \<Rightarrow> graph_codecs \<Rightarrow> string \<Rightarrow> string \<Rightarrow> nat \<Rightarrow> nat \<Rightarrow> graph_store \<Rightarrow> graph_node list list res" where
  "find_ui_paths E G p start max_hops max_paths g =
     bindR (ui_loop E G p start max_hops max_paths g (max_bfs_queue_ops max_hops max_paths)
        \<lparr> ui_entries = [(start, None)], ui_queue = [0], ui_paths = [], best_depth = (\<lambda>_. None) \<rparr>) (\<lambda>st.
     traverseR (\<lambda>ids. bindR (traverseR (\<lambda>i. get_node G p i g) ids) (\<lambda>ns. Inr (List.map_filter id ns))) (ui_paths st))"

end
