(* ===== verification/Graph_Refinement.thy ===== *)
theory Graph_Refinement
  imports Graph_Queries Store_Refinement
begin

text \<open>
  The graph database as a map of nodes and a map of edges. Each of the four data tables is the image
  of one of the maps under its keys and encodings, so the edge rows and the two adjacency tables
  always hold the same edges; every write of the database acts on the maps as the update it names.
\<close>

section \<open>Tables as images of maps\<close>

text \<open>The rows of \<open>t\<close> are the entries of \<open>m\<close>, under the key \<open>f x\<close> and with the value \<open>h y\<close>.\<close>

definition image_of :: "('x \<Rightarrow> 'k) \<Rightarrow> ('y \<Rightarrow> 'v) \<Rightarrow> 'x set \<Rightarrow> ('x \<Rightarrow> 'y option) \<Rightarrow> ('k, 'v) fmap \<Rightarrow> bool" where
  "image_of f h D m t \<longleftrightarrow> inj_on f D \<and> dom m \<subseteq> D
     \<and> (\<forall>k v. fmlookup t k = Some v \<longleftrightarrow> (\<exists>x y. m x = Some y \<and> k = f x \<and> v = h y))"

lemma image_of_lookup:
  assumes "image_of f h D m t" and "x \<in> D"
  shows "fmlookup t (f x) = map_option h (m x)"
proof (cases "m x")
  case (Some y)
  with assms show ?thesis by (auto simp: image_of_def)
next
  case None
  have "fmlookup t (f x) \<noteq> Some v" for v
  proof
    assume "fmlookup t (f x) = Some v"
    with assms(1) obtain z y where z: "m z = Some y" "f x = f z" by (auto simp: image_of_def)
    with assms have "x = z" unfolding image_of_def by (blast dest: inj_onD)
    with z None show False by simp
  qed
  with None show ?thesis by (cases "fmlookup t (f x)") auto
qed

lemma image_of_intro:
  assumes "inj_on f D" and "dom m \<subseteq> D" and "\<And>x. x \<in> D \<Longrightarrow> fmlookup t (f x) = map_option h (m x)"
    and "\<And>k v. fmlookup t k = Some v \<Longrightarrow> \<exists>x \<in> D. k = f x"
  shows "image_of f h D m t"
  unfolding image_of_def
proof (intro conjI allI iffI)
  fix k v
  {
    assume kv: "fmlookup t k = Some v"
    with assms(4) obtain x where "x \<in> D" "k = f x" by blast
    with kv assms(3) show "\<exists>x y. m x = Some y \<and> k = f x \<and> v = h y" by force
  }
  assume "\<exists>x y. m x = Some y \<and> k = f x \<and> v = h y"
  with assms(2,3) show "fmlookup t k = Some v" by force
qed (use assms in auto)

lemma image_of_keys:
  assumes "image_of f h D m t" and "fmlookup t k = Some v"
  shows "\<exists>x \<in> D. k = f x"
  using assms unfolding image_of_def by blast

lemma image_of_empty: "inj_on f D \<Longrightarrow> image_of f h D (\<lambda>_. None) fmempty"
  by (rule image_of_intro) auto

lemma image_of_upd:
  assumes t: "image_of f h D m t" and x: "x \<in> D"
  shows "image_of f h D (m(x \<mapsto> y)) (fmupd (f x) (h y) t)"
proof (rule image_of_intro)
  show inj: "inj_on f D" and "dom (m(x \<mapsto> y)) \<subseteq> D" using assms by (auto simp: image_of_def)
  show "fmlookup (fmupd (f x) (h y) t) (f z) = map_option h ((m(x \<mapsto> y)) z)" if "z \<in> D" for z
    using image_of_lookup [OF t that] inj_on_eq_iff [OF inj that x] by auto
  show "\<exists>x \<in> D. k = f x" if "fmlookup (fmupd (f x) (h y) t) k = Some v" for k v
    using that image_of_keys [OF t] x by (auto split: if_splits)
qed

text \<open>Dropping the rows whose key satisfies \<open>P\<close> drops the entries that \<open>Q\<close> selects.\<close>

lemma image_of_filter:
  assumes t: "image_of f h D m t" and u: "\<And>k. fmlookup u k = (if P k then None else fmlookup t k)"
    and pq: "\<And>x. x \<in> D \<Longrightarrow> P (f x) \<longleftrightarrow> Q x"
  shows "image_of f h D (m |` {x. \<not> Q x}) u"
proof (rule image_of_intro)
  show "inj_on f D" "dom (m |` {x. \<not> Q x}) \<subseteq> D" using t by (auto simp: image_of_def)
  show "fmlookup u (f x) = map_option h ((m |` {x. \<not> Q x}) x)" if "x \<in> D" for x
    using image_of_lookup [OF t that] pq [OF that] by (simp add: u restrict_map_def)
  show "\<exists>x \<in> D. k = f x" if "fmlookup u k = Some v" for k v
    using that image_of_keys [OF t] by (auto simp: u split: if_splits)
qed

lemma image_of_drop:
  assumes t: "image_of f h D m t" and x: "x \<in> D"
  shows "image_of f h D (m(x := None)) (fmdrop (f x) t)"
proof -
  have inj: "inj_on f D" using t by (simp add: image_of_def)
  have "image_of f h D (m |` {z. \<not> (z = x)}) (fmdrop (f x) t)"
    by (rule image_of_filter [OF t, where P = "\<lambda>k. k = f x"]) (auto simp: inj_on_eq_iff [OF inj _ x])
  moreover have "m |` {z. \<not> (z = x)} = m(x := None)" by (auto simp: restrict_map_def fun_eq_iff)
  ultimately show ?thesis by simp
qed

section \<open>Keys of edges and nodes\<close>

type_synonym edge_id = "string \<times> edge_kind \<times> string \<times> string"

definition edge_ids :: "edge_id set" where
  "edge_ids = {(p, k, s, t). key_ok p \<and> key_ok s \<and> key_ok t}"

definition node_ids :: "(string \<times> string) set" where
  "node_ids = {(p, i). key_ok p \<and> key_ok i}"

definition row_key :: "edge_id \<Rightarrow> string" where
  "row_key = (\<lambda>(p, k, s, t). edge_key p k s t)"

definition out_key :: "edge_id \<Rightarrow> string \<times> string" where
  "out_key = (\<lambda>(p, k, s, t). (adj_key p k s, t))"

definition in_key :: "edge_id \<Rightarrow> string \<times> string" where
  "in_key = (\<lambda>(p, k, s, t). (adj_key p k t, s))"

definition node_key :: "string \<times> string \<Rightarrow> string" where
  "node_key = (\<lambda>(p, i). composite p i)"

lemma kind_name_ok: "key_ok (as_str_kind k)"
  by (cases k) (simp_all add: key_ok_def)

lemma kind_name_inj: "as_str_kind k = as_str_kind l \<longleftrightarrow> k = l"
  using kind_names_roundtrip(1) [of "as_str_kind k"] by (metis option.inject)

lemma no_NUL [simp]: "key_ok p \<Longrightarrow> NUL \<notin> set p"
  by (simp add: key_ok_def)

lemma adj_key_inj [simp]:
  assumes "key_ok p" "key_ok q"
  shows "adj_key p k n = adj_key q l m \<longleftrightarrow> p = q \<and> k = l \<and> n = m"
  using assms kind_name_ok [of k] kind_name_ok [of l] by (simp add: adj_key_def sep_append_inj kind_name_inj)

lemma edge_key_inj [simp]:
  assumes "key_ok p" "key_ok q" "key_ok s" "key_ok s'"
  shows "edge_key p k s t = edge_key q l s' t' \<longleftrightarrow> p = q \<and> k = l \<and> s = s' \<and> t = t'"
  using assms kind_name_ok [of k] kind_name_ok [of l] by (simp add: edge_key_def sep_append_inj kind_name_inj)

lemma inj_keys: "inj_on row_key edge_ids" "inj_on out_key edge_ids" "inj_on in_key edge_ids" "inj_on node_key node_ids"
  by (auto simp: inj_on_def row_key_def out_key_def in_key_def node_key_def edge_ids_def node_ids_def)

section \<open>The maps a database represents\<close>

definition adj_value :: "graph_edge \<Rightarrow> bytes" where
  "adj_value e = encode_adj_value (gedge_weight e) (gedge_updated_at_ms e)"

definition fits_id :: "edge_id \<Rightarrow> graph_edge \<Rightarrow> bool" where
  "fits_id x e \<longleftrightarrow> (case x of (p, k, s, t) \<Rightarrow> gedge_kind e = k \<and> source_id e = s \<and> target_id e = t)"

record graph_maps =
  node_map :: "string \<times> string \<Rightarrow> graph_node option"
  edge_map :: "edge_id \<Rightarrow> graph_edge option"

definition represents :: "graph_codecs \<Rightarrow> graph_maps \<Rightarrow> graph_store \<Rightarrow> bool" where
  "represents G M g \<longleftrightarrow>
     image_of node_key (to_vec (node_bin G)) node_ids (node_map M) (node_rows g)
     \<and> image_of row_key (to_vec (edge_bin G)) edge_ids (edge_map M) (edge_rows g)
     \<and> image_of out_key adj_value edge_ids (edge_map M) (adj_out g)
     \<and> image_of in_key adj_value edge_ids (edge_map M) (adj_in g)
     \<and> (\<forall>x e. edge_map M x = Some e \<longrightarrow> fits_id x e) \<and> (\<forall>p i n. node_map M (p, i) = Some n \<longrightarrow> node_id n = i)"

lemma representsD:
  assumes "represents G M g"
  shows "image_of node_key (to_vec (node_bin G)) node_ids (node_map M) (node_rows g)"
    and "image_of row_key (to_vec (edge_bin G)) edge_ids (edge_map M) (edge_rows g)"
    and "image_of out_key adj_value edge_ids (edge_map M) (adj_out g)"
    and "image_of in_key adj_value edge_ids (edge_map M) (adj_in g)"
    and "edge_map M x = Some e \<Longrightarrow> fits_id x e" and "node_map M (p, i) = Some n \<Longrightarrow> node_id n = i"
  using assms unfolding represents_def by blast+

lemma represents_rows:
  assumes "represents G M g"
  shows "key_ok p \<Longrightarrow> key_ok i \<Longrightarrow> fmlookup (node_rows g) (composite p i) = map_option (to_vec (node_bin G)) (node_map M (p, i))"
    and "key_ok p \<Longrightarrow> key_ok s \<Longrightarrow> key_ok t \<Longrightarrow> fmlookup (edge_rows g) (edge_key p k s t) = map_option (to_vec (edge_bin G)) (edge_map M (p, k, s, t))"
    and "key_ok p \<Longrightarrow> key_ok s \<Longrightarrow> key_ok t \<Longrightarrow> fmlookup (adj_out g) (adj_key p k s, t) = map_option adj_value (edge_map M (p, k, s, t))"
    and "key_ok p \<Longrightarrow> key_ok s \<Longrightarrow> key_ok t \<Longrightarrow> fmlookup (adj_in g) (adj_key p k t, s) = map_option adj_value (edge_map M (p, k, s, t))"
  using image_of_lookup [OF representsD(1) [OF assms], of "(p, i)"] image_of_lookup [OF representsD(2) [OF assms], of "(p, k, s, t)"]
    image_of_lookup [OF representsD(3) [OF assms], of "(p, k, s, t)"] image_of_lookup [OF representsD(4) [OF assms], of "(p, k, s, t)"]
  by (simp_all add: node_key_def row_key_def out_key_def in_key_def node_ids_def edge_ids_def)

definition empty_graph :: graph_store where
  "empty_graph = \<lparr> node_rows = fmempty, edge_rows = fmempty, adj_out = fmempty, adj_in = fmempty, graph_meta = fmempty,
     centrality_rows = fmempty, fingerprint_rows = fmempty \<rparr>"

definition no_maps :: graph_maps where
  "no_maps = \<lparr> node_map = \<lambda>_. None, edge_map = \<lambda>_. None \<rparr>"

lemma represents_empty: "represents G no_maps empty_graph"
  by (simp add: represents_def no_maps_def empty_graph_def image_of_empty inj_keys)

section \<open>The elementary writes\<close>

definition put_edge :: "edge_id \<Rightarrow> graph_edge \<Rightarrow> graph_maps \<Rightarrow> graph_maps" where
  "put_edge x e M = M\<lparr>edge_map := (edge_map M)(x \<mapsto> e)\<rparr>"

definition drop_edge :: "edge_id \<Rightarrow> graph_maps \<Rightarrow> graph_maps" where
  "drop_edge x M = M\<lparr>edge_map := (edge_map M)(x := None)\<rparr>"

lemma represents_write_edge:
  assumes "represents G M g" and "key_ok p" "key_ok s" "key_ok t" and "fits_id (p, k, s, t) e"
  shows "represents G (put_edge (p, k, s, t) e M) (write_edge G p k s t e g)"
proof -
  have x: "(p, k, s, t) \<in> edge_ids" using assms by (simp add: edge_ids_def)
  note upd = image_of_upd [OF _ x, where y = e]
  show ?thesis
    using upd [OF representsD(2) [OF assms(1)]] upd [OF representsD(3) [OF assms(1)]] upd [OF representsD(4) [OF assms(1)]]
      representsD(1,5,6) [OF assms(1)] assms(5)
    unfolding represents_def by (simp add: put_edge_def write_edge_def Let_def row_key_def out_key_def in_key_def adj_value_def)
qed

lemma represents_remove_edge:
  assumes "represents G M g" and "key_ok p" "key_ok s" "key_ok t"
  shows "represents G (drop_edge (p, k, s, t) M) (remove_edge p k s t g)"
proof -
  have x: "(p, k, s, t) \<in> edge_ids" using assms by (simp add: edge_ids_def)
  note drop = image_of_drop [OF _ x]
  show ?thesis
    using drop [OF representsD(2) [OF assms(1)]] drop [OF representsD(3) [OF assms(1)]] drop [OF representsD(4) [OF assms(1)]]
      representsD(1,5,6) [OF assms(1)]
    unfolding represents_def by (simp add: drop_edge_def remove_edge_def row_key_def out_key_def in_key_def)
qed

section \<open>Upserts and snapshots\<close>

definition edge_id :: "string \<Rightarrow> graph_edge \<Rightarrow> edge_id" where
  "edge_id p e = (p, gedge_kind e, source_id e, target_id e)"

definition add_edge :: "string \<Rightarrow> graph_edge \<Rightarrow> graph_maps \<Rightarrow> graph_maps" where
  "add_edge p e = put_edge (edge_id p e) e"

text \<open>A node without metadata keeps the metadata stored under its identifier.\<close>

definition inheriting :: "graph_node \<Rightarrow> graph_node option \<Rightarrow> graph_node" where
  "inheriting n old = (if gnode_metadata n = None then n\<lparr>gnode_metadata := Option.bind old gnode_metadata\<rparr> else n)"

lemma node_id_inheriting [simp]: "node_id (inheriting n old) = node_id n"
  by (simp add: inheriting_def)

definition add_node :: "string \<Rightarrow> graph_node \<Rightarrow> graph_maps \<Rightarrow> graph_maps" where
  "add_node p n M = M\<lparr>node_map := (node_map M)((p, node_id n) \<mapsto> inheriting n (node_map M (p, node_id n)))\<rparr>"

definition add_missing :: "string \<Rightarrow> graph_edge \<Rightarrow> graph_maps \<Rightarrow> graph_maps" where
  "add_missing p e M = (if edge_map M (edge_id p e) \<noteq> None then M else add_edge p e M)"

definition edge_ok :: "graph_edge \<Rightarrow> bool" where
  "edge_ok e \<longleftrightarrow> key_ok (source_id e) \<and> key_ok (target_id e)"

lemma check_endpoints_Inr [simp]: "check_endpoints e = Inr u \<longleftrightarrow> edge_ok e"
  by (auto simp: check_endpoints_def edge_ok_def)

lemma traverseR_units:
  "(\<exists>ys. traverseR f xs = Inr ys) \<longleftrightarrow> (\<forall>x \<in> set xs. \<exists>y. f x = Inr y)"
  by (induction xs) (auto split: sum.split)

lemma traverseR_cases:
  obtains (ok) ys where "traverseR f xs = Inr ys" "\<forall>x \<in> set xs. \<exists>y. f x = Inr y"
  | (failed) e where "traverseR f xs = Inl e" "\<not> (\<forall>x \<in> set xs. \<exists>y. f x = Inr y)"
  using traverseR_units [of f xs] by (cases "traverseR f xs") auto

lemma represents_insert_edge:
  "represents G M g \<Longrightarrow> key_ok p \<Longrightarrow> edge_ok e \<Longrightarrow> represents G (add_edge p e M) (insert_edge G p e g)"
  unfolding insert_edge_def add_edge_def edge_id_def
  by (rule represents_write_edge) (auto simp: edge_ok_def fits_id_def)

lemma represents_insert_edges:
  "represents G M g \<Longrightarrow> key_ok p \<Longrightarrow> \<forall>e \<in> set es. edge_ok e \<Longrightarrow>
     represents G (fold (add_edge p) es M) (fold (insert_edge G p) es g)"
  by (induction es arbitrary: M g) (auto intro: represents_insert_edge)

lemma represents_remove_edges:
  "represents G M g \<Longrightarrow> key_ok p \<Longrightarrow> \<forall>e \<in> set es. edge_ok e \<Longrightarrow>
     represents G (fold (\<lambda>e. drop_edge (edge_id p e)) es M)
       (fold (\<lambda>e. remove_edge p (gedge_kind e) (source_id e) (target_id e)) es g)"
  by (induction es arbitrary: M g) (auto simp: edge_ok_def edge_id_def intro: represents_remove_edge)

lemma represents_edge_row:
  assumes "represents G M g" and "key_ok p" and "edge_ok e"
  shows "fmlookup (edge_rows g) (key_of_edge p e) = map_option (to_vec (edge_bin G)) (edge_map M (edge_id p e))"
  using represents_rows(2) [OF assms(1)] assms(2,3) by (simp add: key_of_edge_def edge_id_def edge_ok_def)

lemma represents_insert_missing:
  "represents G M g \<Longrightarrow> key_ok p \<Longrightarrow> \<forall>e \<in> set es. edge_ok e \<Longrightarrow>
     represents G (fold (add_missing p) es M) (fold (insert_missing G p) es g)"
proof (induction es arbitrary: M g)
  case (Cons e es)
  have "represents G (add_missing p e M) (insert_missing G p e g)"
    using Cons.prems represents_edge_row [OF Cons.prems(1,2), of e] represents_insert_edge [OF Cons.prems(1,2), of e]
    by (auto simp: add_missing_def insert_missing_def)
  with Cons show ?case by simp
qed simp

lemma represents_node_row:
  assumes "represents G M g" and "key_ok p" and "key_ok (node_id n)"
  shows "represents G (M\<lparr>node_map := (node_map M)((p, node_id n) \<mapsto> n)\<rparr>)
    (g\<lparr>node_rows := fmupd (composite p (node_id n)) (to_vec (node_bin G) n) (node_rows g)\<rparr>)"
proof -
  have "(p, node_id n) \<in> node_ids" using assms by (simp add: node_ids_def)
  from image_of_upd [OF representsD(1) [OF assms(1)] this, of n] representsD(2-6) [OF assms(1)] show ?thesis
    unfolding represents_def by (simp add: node_key_def)
qed

lemma inherited_run:
  assumes "codec_ok (node_bin G)"
  shows "inherited_metadata G n (map_option (to_vec (node_bin G)) old)
    = Inr (if gnode_metadata n = None then Option.bind old gnode_metadata else None)"
  using assms by (cases old) (simp_all add: inherited_metadata_def)

lemma merged_run:
  "merged_node n (if gnode_metadata n = None then x else None) = (if gnode_metadata n = None then n\<lparr>gnode_metadata := x\<rparr> else n)"
  by (cases n; cases x) (auto simp: merged_node_def)

lemma upsert_nodes_run:
  assumes "graph_codecs_ok G" and "key_ok p"
  shows "represents G M g \<Longrightarrow> (\<forall>n \<in> set ns. key_ok (node_id n)) \<Longrightarrow>
    \<exists>t. upsert_nodes_in_tx G p ns (node_rows g) = Inr t \<and> represents G (fold (add_node p) ns M) (g\<lparr>node_rows := t\<rparr>)"
proof (induction ns arbitrary: M g)
  case (Cons n ns)
  have ok: "codec_ok (node_bin G)" using assms(1) by (simp add: graph_codecs_ok_def)
  let ?old = "node_map M (p, node_id n)"
  let ?n = "inheriting n ?old"
  have row: "fmlookup (node_rows g) (composite p (node_id n)) = map_option (to_vec (node_bin G)) ?old"
    using represents_rows(1) [OF Cons.prems(1) assms(2)] Cons.prems(2) by simp
  define inh where "inh = (if gnode_metadata n = None then Option.bind ?old gnode_metadata else None)"
  have inh: "inherited_metadata G n (fmlookup (node_rows g) (composite p (node_id n))) = Inr inh"
    unfolding row inh_def by (rule inherited_run [OF ok])
  have merged: "merged_node n inh = ?n" unfolding inh_def inheriting_def by (rule merged_run)
  have rep: "represents G (add_node p n M) (g\<lparr>node_rows := fmupd (composite p (node_id n)) (to_vec (node_bin G) ?n) (node_rows g)\<rparr>)"
    using represents_node_row [OF Cons.prems(1) assms(2), of ?n] Cons.prems(2) by (simp add: add_node_def)
  from Cons.IH [OF rep] Cons.prems(2) inh merged show ?case by auto
qed auto

lemma upsert_nodes_refused:
  assumes "\<not> (\<forall>n \<in> set ns. key_ok (node_id n))"
  shows "\<exists>e. upsert_nodes_in_tx G p ns t = Inl e"
proof -
  have "upsert_nodes_in_tx G p ns t = Inr u \<Longrightarrow> \<forall>n \<in> set ns. key_ok (node_id n)" for u
    by (induction ns arbitrary: t) auto
  with assms show ?thesis by (cases "upsert_nodes_in_tx G p ns t") auto
qed

section \<open>Increments\<close>

definition add_weight ::
  "u64 \<Rightarrow> string \<Rightarrow> string \<Rightarrow> string \<Rightarrow> u64 \<Rightarrow> increment \<Rightarrow> graph_maps \<Rightarrow> graph_maps" where
  "add_weight now p namespace language gen i M = (case i of (k, s, t, delta) \<Rightarrow>
     put_edge (p, k, s, t) (incremented namespace language k s t delta gen now (edge_map M (p, k, s, t))) M)"

definition increment_ok :: "increment \<Rightarrow> bool" where
  "increment_ok i \<longleftrightarrow> (case i of (k, s, t, delta) \<Rightarrow> key_ok s \<and> key_ok t)"

lemma check_increment_Inr [simp]: "check_increment i = Inr u \<longleftrightarrow> increment_ok i"
  by (cases i) (auto simp: check_increment_def increment_ok_def)

lemma fits_incremented:
  assumes "represents G M g"
  shows "fits_id (p, k, s, t) (incremented namespace language k s t delta gen now (edge_map M (p, k, s, t)))"
proof (cases "edge_map M (p, k, s, t)")
  case (Some e)
  from representsD(5) [OF assms Some] Some show ?thesis by (simp add: incremented_def fits_id_def)
qed (simp add: incremented_def fits_id_def)

lemma increments_run:
  assumes "graph_codecs_ok G" and "key_ok p"
  shows "represents G M g \<Longrightarrow> \<forall>i \<in> set is. increment_ok i \<Longrightarrow>
    \<exists>g'. increment_edges_in_tx G now p namespace language gen is g = Inr g'
      \<and> represents G (fold (add_weight now p namespace language gen) is M) g'"
proof (induction "is" arbitrary: M g)
  case (Cons i "is")
  obtain k s t d where i: "i = (k, s, t, d)" by (cases i)
  with Cons.prems have keys: "key_ok s" "key_ok t" by (auto simp: increment_ok_def)
  have ok: "codec_ok (edge_bin G)" using assms(1) by (simp add: graph_codecs_ok_def)
  have row: "transposeR (decode (edge_bin G)) (fmlookup (edge_rows g) (edge_key p k s t)) = Inr (edge_map M (p, k, s, t))"
    using represents_rows(2) [OF Cons.prems(1) assms(2) keys] ok by (cases "edge_map M (p, k, s, t)") auto
  from Cons.IH [OF represents_write_edge [OF Cons.prems(1) assms(2) keys fits_incremented [OF Cons.prems(1)]]] Cons.prems(2)
  show ?case by (simp add: i row add_weight_def)
qed simp

lemma increment_ok_directed: "\<forall>i \<in> set is. increment_ok i \<Longrightarrow> \<forall>i \<in> set (directed is). increment_ok i"
  by (induction "is" rule: directed.induct) (auto simp: increment_ok_def)

end
