(* ===== verification/Graph_Deletion.thy ===== *)
theory Graph_Deletion
  imports Graph_Refinement
begin

text \<open>
  The deleting operations of the graph database: the batched loops end with every row under their
  prefix gone, and the keys they select in the four data tables are the same nodes and edges.
\<close>

section \<open>Scans of adjacency tables\<close>

lemma adj_scans_filter:
  "adj_prefix_scan p t = filter (\<lambda>kv. prefix p (fst (fst kv))) (iter t)"
  "adj_scan p t = filter (\<lambda>kv. fst (fst kv) = p) (iter t)"
proof -
  have low: "p \<le> a" if "(p, []) \<le> (a, b)" for a b :: string
    using that by (auto simp: less_eq_prod_def)
  have sw: "sorted_wrt (\<lambda>x y. p \<le> fst (fst x) \<and> fst (fst x) \<le> fst (fst y)) (range_from (p, []) t)"
    unfolding range_from_filter
    by (rule sorted_wrt_mono_rel [OF _ sorted_wrt_filter [OF sorted_wrt_iter]]) (auto simp: less_eq_prod_def)
  have ge: "(p, []) \<le> k" if "prefix p (fst k)" for k :: "string \<times> string"
    using prefix_imp_le [OF that] by (auto simp: less_eq_prod_def)
  have "adj_prefix_scan p t = filter (\<lambda>kv. prefix p (fst (fst kv))) (range_from (p, []) t)"
    unfolding adj_prefix_scan_def by (rule takeWhile_eq_filter_sorted [OF sw]) (auto intro: prefix_convex)
  also have "\<dots> = filter (\<lambda>kv. prefix p (fst (fst kv))) (iter t)"
    unfolding range_from_filter filter_filter by (rule filter_cong) (auto intro: ge)
  finally show "adj_prefix_scan p t = filter (\<lambda>kv. prefix p (fst (fst kv))) (iter t)" .
  have "adj_scan p t = filter (\<lambda>kv. fst (fst kv) = p) (range_from (p, []) t)"
    unfolding adj_scan_def by (rule takeWhile_eq_filter_sorted [OF sw]) auto
  also have "\<dots> = filter (\<lambda>kv. fst (fst kv) = p) (iter t)"
    unfolding range_from_filter filter_filter by (rule filter_cong) (auto intro: ge)
  finally show "adj_scan p t = filter (\<lambda>kv. fst (fst kv) = p) (iter t)" .
qed

section \<open>Batched deletion\<close>

lemma filter_not_taken:
  assumes "distinct (map fst xs)"
  shows "filter (\<lambda>kv. fst kv \<notin> set (map fst (take n xs))) xs = drop n xs"
proof -
  have d: "distinct (map fst (take n xs @ drop n xs))" using assms by simp
  have "filter (\<lambda>kv. fst kv \<notin> set (map fst (take n xs))) (take n xs @ drop n xs) = drop n xs"
    unfolding filter_append using d unfolding map_append distinct_append
    by (auto simp: filter_empty_conv filter_id_conv)
  then show ?thesis by simp
qed

lemma drain_returns:
  fixes t :: "('k::linorder, 'v) fmap"
  assumes scan: "\<And>t. scan t = filter (\<lambda>kv. P (fst kv)) (iter t)" and batch: "0 < batch"
  shows "\<exists>u. drain batch scan n t = Some (n + length (scan t), u) \<and> (\<forall>k. fmlookup u k = (if P k then None else fmlookup t k))"
proof (induction "length (scan t)" arbitrary: t n rule: less_induct)
  case less
  let ?ks = "map fst (take batch (scan t))"
  show ?case
  proof (cases "scan t = []")
    case True
    then have "\<not> P k \<or> fmlookup t k = None" for k
      using set_iter [of k _ t] by (cases "fmlookup t k") (force simp: scan filter_empty_conv)+
    with True show ?thesis by (subst drain.simps) (auto simp: Let_def)
  next
    case False
    have d: "distinct (map fst (scan t))" by (simp add: scan distinct_map_filter)
    have "scan (remove_keys ?ks t) = filter (\<lambda>kv. P (fst kv)) (iter (remove_keys ?ks t))" by (rule scan)
    also have "\<dots> = filter (\<lambda>kv. fst kv \<notin> set ?ks) (filter (\<lambda>kv. P (fst kv)) (iter t))"
      unfolding iter_remove_keys filter_filter by (rule filter_cong) auto
    also have "filter (\<lambda>kv. P (fst kv)) (iter t) = scan t" by (rule scan [symmetric])
    finally have "scan (remove_keys ?ks t) = filter (\<lambda>kv. fst kv \<notin> set ?ks) (scan t)" .
    then have rest: "scan (remove_keys ?ks t) = drop batch (scan t)" by (simp only: filter_not_taken [OF d])
    from False batch have ne: "?ks \<noteq> []" by simp
    have "length (scan (remove_keys ?ks t)) < length (scan t)" using False batch by (simp add: rest)
    from less.hyps [OF this, of "n + length ?ks"] obtain u where
      u: "drain batch scan (n + length ?ks) (remove_keys ?ks t) = Some (n + length ?ks + length (drop batch (scan t)), u)"
      "\<And>k. fmlookup u k = (if P k then None else fmlookup (remove_keys ?ks t) k)" by (auto simp: rest)
    have "drain batch scan n t = Some (n + length ?ks + length (drop batch (scan t)), u)"
      using ne u(1) by (subst drain.simps) (simp add: Let_def)
    moreover have "length ?ks + length (drop batch (scan t)) = length (scan t)" by simp
    moreover have "P k" if "k \<in> set ?ks" for k using that by (auto simp: scan dest: in_set_takeD)
    ultimately show ?thesis using u(2) by (intro exI [of _ u]) (auto simp: add.assoc)
  qed
qed

text \<open>The four data tables lose the same entries when the same keys are dropped.\<close>

lemma represents_restrict:
  assumes g: "represents G M g"
    and rows: "\<And>k. fmlookup (node_rows g') k = (if P k then None else fmlookup (node_rows g) k)"
      "\<And>k. fmlookup (edge_rows g') k = (if Q k then None else fmlookup (edge_rows g) k)"
      "\<And>k. fmlookup (adj_out g') k = (if R k then None else fmlookup (adj_out g) k)"
      "\<And>k. fmlookup (adj_in g') k = (if S k then None else fmlookup (adj_in g) k)"
    and keys: "\<And>x. x \<in> node_ids \<Longrightarrow> P (node_key x) \<longleftrightarrow> A x" "\<And>x. x \<in> edge_ids \<Longrightarrow> Q (row_key x) \<longleftrightarrow> B x"
      "\<And>x. x \<in> edge_ids \<Longrightarrow> R (out_key x) \<longleftrightarrow> B x" "\<And>x. x \<in> edge_ids \<Longrightarrow> S (in_key x) \<longleftrightarrow> B x"
  shows "represents G \<lparr> node_map = node_map M |` {x. \<not> A x}, edge_map = edge_map M |` {x. \<not> B x} \<rparr> g'"
  using image_of_filter [OF representsD(1) [OF g] rows(1) keys(1)] image_of_filter [OF representsD(2) [OF g] rows(2) keys(2)]
    image_of_filter [OF representsD(3) [OF g] rows(3) keys(3)] image_of_filter [OF representsD(4) [OF g] rows(4) keys(4)]
    representsD(5,6) [OF g]
  unfolding represents_def by (simp add: restrict_map_def)

lemma prefix_sep:
  assumes "c \<notin> set p" and "c \<notin> set q"
  shows "prefix (p @ c # x) (q @ c # y) \<longleftrightarrow> p = q \<and> prefix x y"
  using sep_append_inj [OF assms(2,1)] by (auto simp: prefix_def)

lemma kind_prefix_keys:
  assumes "key_ok p"
  shows "x \<in> edge_ids \<Longrightarrow> prefix (kind_prefix p k) (row_key x) \<longleftrightarrow> fst x = p \<and> fst (snd x) = k"
    and "x \<in> edge_ids \<Longrightarrow> prefix (kind_prefix p k) (fst (out_key x)) \<longleftrightarrow> fst x = p \<and> fst (snd x) = k"
    and "x \<in> edge_ids \<Longrightarrow> prefix (kind_prefix p k) (fst (in_key x)) \<longleftrightarrow> fst x = p \<and> fst (snd x) = k"
proof -
  have "prefix (kind_prefix p k) (q @ NUL # as_str_kind l @ NUL # r) \<longleftrightarrow> p = q \<and> k = l" if "key_ok q" for q l r
    using assms that kind_name_ok [of k] kind_name_ok [of l]
    by (simp add: kind_prefix_def prefix_sep kind_name_inj sep_prefix_iff)
  then show "x \<in> edge_ids \<Longrightarrow> prefix (kind_prefix p k) (row_key x) \<longleftrightarrow> fst x = p \<and> fst (snd x) = k"
    "x \<in> edge_ids \<Longrightarrow> prefix (kind_prefix p k) (fst (out_key x)) \<longleftrightarrow> fst x = p \<and> fst (snd x) = k"
    "x \<in> edge_ids \<Longrightarrow> prefix (kind_prefix p k) (fst (in_key x)) \<longleftrightarrow> fst x = p \<and> fst (snd x) = k"
    by (auto simp: edge_ids_def row_key_def out_key_def in_key_def edge_key_def adj_key_def)
qed

lemma project_prefix_keys:
  assumes "key_ok p"
  shows "x \<in> node_ids \<Longrightarrow> prefix (p @ [NUL]) (node_key x) \<longleftrightarrow> fst x = p"
    and "y \<in> edge_ids \<Longrightarrow> prefix (p @ [NUL]) (row_key y) \<longleftrightarrow> fst y = p"
    and "y \<in> edge_ids \<Longrightarrow> prefix (p @ [NUL]) (fst (out_key y)) \<longleftrightarrow> fst y = p"
    and "y \<in> edge_ids \<Longrightarrow> prefix (p @ [NUL]) (fst (in_key y)) \<longleftrightarrow> fst y = p"
  using assms by (auto simp: node_ids_def edge_ids_def node_key_def row_key_def out_key_def in_key_def edge_key_def adj_key_def
      composite_def sep_prefix_iff)

definition drop_edges_of :: "(edge_id \<Rightarrow> bool) \<Rightarrow> graph_maps \<Rightarrow> graph_maps" where
  "drop_edges_of B M = M\<lparr>edge_map := edge_map M |` {x. \<not> B x}\<rparr>"

lemma delete_edges_of_kind_run:
  assumes g: "represents G M g" and p: "key_ok p"
  shows "\<exists>g'. delete_edges_of_kind p kind g = Some (length (prefix_scan (kind_prefix p kind) (edge_rows g)), g')
    \<and> represents G (drop_edges_of (\<lambda>x. fst x = p \<and> fst (snd x) = kind) M) g'"
proof -
  note scans = drain_returns [where scan = "prefix_scan (kind_prefix p kind)", OF prefix_scan_filter]
    drain_returns [where scan = "adj_prefix_scan (kind_prefix p kind)", OF adj_scans_filter(1)]
  obtain u where u: "drain 5000 (prefix_scan (kind_prefix p kind)) 0 (edge_rows g) = Some (0 + length (prefix_scan (kind_prefix p kind) (edge_rows g)), u)"
    "\<And>k. fmlookup u k = (if prefix (kind_prefix p kind) k then None else fmlookup (edge_rows g) k)"
    using scans(1) [of 5000 0 "edge_rows g"] by auto
  obtain v where v: "drain 5000 (adj_prefix_scan (kind_prefix p kind)) 0 (adj_out g) = Some (0 + length (adj_prefix_scan (kind_prefix p kind) (adj_out g)), v)"
    "\<And>k. fmlookup v k = (if prefix (kind_prefix p kind) (fst k) then None else fmlookup (adj_out g) k)"
    using scans(2) [of 5000 0 "adj_out g"] by auto
  obtain w where w: "drain 5000 (adj_prefix_scan (kind_prefix p kind)) 0 (adj_in g) = Some (0 + length (adj_prefix_scan (kind_prefix p kind) (adj_in g)), w)"
    "\<And>k. fmlookup w k = (if prefix (kind_prefix p kind) (fst k) then None else fmlookup (adj_in g) k)"
    using scans(2) [of 5000 0 "adj_in g"] by auto
  have "represents G \<lparr> node_map = node_map M |` {x. \<not> False}, edge_map = edge_map M |` {x. \<not> (fst x = p \<and> fst (snd x) = kind)} \<rparr>
      (g\<lparr>edge_rows := u, adj_out := v, adj_in := w\<rparr>)"
    by (rule represents_restrict [OF g, where P = "\<lambda>_. False" and Q = "prefix (kind_prefix p kind)"
          and R = "\<lambda>k. prefix (kind_prefix p kind) (fst k)" and S = "\<lambda>k. prefix (kind_prefix p kind) (fst k)"])
      (simp_all add: u(2) v(2) w(2) kind_prefix_keys [OF p])
  moreover have "drop_edges_of B M = \<lparr> node_map = node_map M |` {x. \<not> False}, edge_map = edge_map M |` {x. \<not> B x} \<rparr>" for B
    by (cases M) (simp add: drop_edges_of_def restrict_map_def)
  ultimately show ?thesis using u(1) v(1) w(1)
    by (auto simp: delete_edges_of_kind_def)
qed

lemma drain_rows:
  fixes t :: "('k::linorder, 'v) fmap"
  assumes "\<And>t :: ('k, 'v) fmap. scan t = filter (\<lambda>kv. P (fst kv)) (iter t)"
  shows "\<exists>u. map_option snd (drain 2000 scan 0 t) = Some u \<and> (\<forall>k. fmlookup u k = (if P k then None else fmlookup t k))"
  using drain_returns [where scan = scan and batch = 2000 and n = 0 and t = t, OF assms] by auto

definition drop_project :: "string \<Rightarrow> graph_maps \<Rightarrow> graph_maps" where
  "drop_project p M = \<lparr> node_map = node_map M |` {x. \<not> fst x = p}, edge_map = edge_map M |` {x. \<not> fst x = p} \<rparr>"

lemma delete_project_data_run:
  assumes g: "represents G M g" and p: "key_ok p"
  shows "\<exists>g'. delete_project_data p g = Some g' \<and> represents G (drop_project p M) g'
    \<and> (\<forall>k. fmlookup (graph_meta g') k = (if prefix (p @ [NUL]) k then None else fmlookup (graph_meta g) k))
    \<and> (\<forall>k. fmlookup (centrality_rows g') k = (if prefix (p @ [NUL]) k then None else fmlookup (centrality_rows g) k))
    \<and> (\<forall>k. fmlookup (fingerprint_rows g') k = (if prefix (p @ [NUL]) k then None else fmlookup (fingerprint_rows g) k))"
proof -
  note rows = drain_rows [where scan = "prefix_scan (p @ [NUL])", OF prefix_scan_filter]
    and adjacent = drain_rows [where scan = "adj_prefix_scan (p @ [NUL])", OF adj_scans_filter(1)]
  obtain u1 where u1: "map_option snd (drain 2000 (prefix_scan (p @ [NUL])) 0 (node_rows g)) = Some u1"
    "\<And>k. fmlookup u1 k = (if prefix (p @ [NUL]) k then None else fmlookup (node_rows g) k)"
    using rows [of "node_rows g"] by blast
  obtain u2 where u2: "map_option snd (drain 2000 (prefix_scan (p @ [NUL])) 0 (edge_rows g)) = Some u2"
    "\<And>k. fmlookup u2 k = (if prefix (p @ [NUL]) k then None else fmlookup (edge_rows g) k)"
    using rows [of "edge_rows g"] by blast
  obtain u3 where u3: "map_option snd (drain 2000 (prefix_scan (p @ [NUL])) 0 (graph_meta g)) = Some u3"
    "\<And>k. fmlookup u3 k = (if prefix (p @ [NUL]) k then None else fmlookup (graph_meta g) k)"
    using rows [of "graph_meta g"] by blast
  obtain u4 where u4: "map_option snd (drain 2000 (prefix_scan (p @ [NUL])) 0 (centrality_rows g)) = Some u4"
    "\<And>k. fmlookup u4 k = (if prefix (p @ [NUL]) k then None else fmlookup (centrality_rows g) k)"
    using rows [of "centrality_rows g"] by blast
  obtain u5 where u5: "map_option snd (drain 2000 (prefix_scan (p @ [NUL])) 0 (fingerprint_rows g)) = Some u5"
    "\<And>k. fmlookup u5 k = (if prefix (p @ [NUL]) k then None else fmlookup (fingerprint_rows g) k)"
    using rows [of "fingerprint_rows g"] by blast
  obtain u6 where u6: "map_option snd (drain 2000 (adj_prefix_scan (p @ [NUL])) 0 (adj_out g)) = Some u6"
    "\<And>k. fmlookup u6 k = (if prefix (p @ [NUL]) (fst k) then None else fmlookup (adj_out g) k)"
    using adjacent [of "adj_out g"] by blast
  obtain u7 where u7: "map_option snd (drain 2000 (adj_prefix_scan (p @ [NUL])) 0 (adj_in g)) = Some u7"
    "\<And>k. fmlookup u7 k = (if prefix (p @ [NUL]) (fst k) then None else fmlookup (adj_in g) k)"
    using adjacent [of "adj_in g"] by blast
  let ?g = "\<lparr> node_rows = u1, edge_rows = u2, adj_out = u6, adj_in = u7, graph_meta = u3, centrality_rows = u4, fingerprint_rows = u5 \<rparr>"
  have "represents G (drop_project p M) ?g"
    unfolding drop_project_def
    by (rule represents_restrict [OF g, where P = "prefix (p @ [NUL])" and Q = "prefix (p @ [NUL])"
          and R = "\<lambda>k. prefix (p @ [NUL]) (fst k)" and S = "\<lambda>k. prefix (p @ [NUL]) (fst k)"])
      (simp_all add: u1(2) u2(2) u6(2) u7(2) project_prefix_keys [OF p])
  moreover have "delete_project_data p g = Some ?g"
    by (simp only: delete_project_data_def Let_def u1(1) u2(1) u3(1) u4(1) u5(1) u6(1) u7(1) bind.bind_lunit)
  ultimately show ?thesis using u3(2) u4(2) u5(2) by simp
qed

section \<open>Purges\<close>

lemma splitn_sep: "NUL \<notin> set p \<Longrightarrow> splitn (Suc (Suc n)) (p @ NUL # q) = p # splitn (Suc n) q"
proof -
  assume "NUL \<notin> set p"
  then have "takeWhile (\<lambda>c. c \<noteq> NUL) (p @ NUL # q) = p" "dropWhile (\<lambda>c. c \<noteq> NUL) (p @ NUL # q) = NUL # q"
    by (induction p) auto
  then show ?thesis by simp
qed

lemma splitn_edge_key:
  assumes "key_ok p" "key_ok s"
  shows "splitn 4 (edge_key p k s t) = [p, as_str_kind k, s, t]"
  using assms kind_name_ok [of k] splitn_sep [of p 2] splitn_sep [of "as_str_kind k" 1] splitn_sep [of s 0]
  by (simp add: edge_key_def numeral_eq_Suc)

lemma remove_edge_key_eq:
  assumes "key_ok p" "key_ok s"
  shows "remove_edge_key p (edge_key p k s t) g = remove_edge p k s t g"
  using splitn_edge_key [OF assms, of k t] kind_names_roundtrip(1) [of "as_str_kind k" k]
  by (simp add: remove_edge_key_def remove_edge_def Let_def)

text \<open>The keys a purge collects in a table of a represented graph: those of the stale entries.\<close>

lemma stale_keys_run:
  assumes t: "image_of f (to_vec c) D m t" and c: "codec_ok c"
    and keys: "\<And>x. x \<in> D \<Longrightarrow> prefix (p @ [NUL]) (f x) \<longleftrightarrow> fst x = p"
  shows "\<exists>ks. stale_keys c stale p t = Inr ks \<and> distinct ks
    \<and> set ks = f ` {x. fst x = p \<and> (\<exists>y. m x = Some y \<and> stale y)}"
proof -
  let ?rows = "prefix_scan (p @ [NUL]) t"
  let ?dec = "\<lambda>(k, v). (k, the (from_slice c v))"
  let ?ks = "map fst (filter (\<lambda>(k, x). stale x) (map ?dec ?rows))"
  have row: "\<exists>x y. m x = Some y \<and> k = f x \<and> v = to_vec c y \<and> fst x = p" if "(k, v) \<in> set ?rows" for k v
  proof -
    from that have kv: "fmlookup t k = Some v" "prefix (p @ [NUL]) k" by (simp_all add: set_prefix_scan)
    with t obtain x y where xy: "m x = Some y" "k = f x" "v = to_vec c y" by (auto simp: image_of_def)
    with t have "x \<in> D" by (auto simp: image_of_def)
    with keys [of x] kv(2) xy(2) have "fst x = p" by simp
    with xy show ?thesis by blast
  qed
  have dec: "from_slice c (to_vec c y) = Some y" for y using c by (simp add: codec_ok_def)
  have "traverseR (\<lambda>(k, v). bindR (decode c v) (\<lambda>x. Inr (k, x))) ?rows = Inr (map ?dec ?rows)"
    by (rule traverseR_map_Inr) (use row dec in \<open>force simp: decode_def\<close>)
  then have "stale_keys c stale p t = Inr ?ks" by (simp add: stale_keys_def)
  moreover have "map fst (map ?dec ?rows) = map fst ?rows" by (simp add: case_prod_beta)
  then have "distinct ?ks" using distinct_prefix_scan [of "p @ [NUL]" t] by (metis distinct_map_filter)
  moreover have "set ?ks = f ` {x. fst x = p \<and> (\<exists>y. m x = Some y \<and> stale y)}" (is "_ = f ` ?X")
  proof (intro set_eqI iffI)
    fix k assume "k \<in> set ?ks"
    then obtain v where v: "(k, v) \<in> set ?rows" "stale (the (from_slice c v))" by auto
    with row dec show "k \<in> f ` ?X" by fastforce
  next
    fix k assume "k \<in> f ` ?X"
    then obtain x y where xy: "k = f x" "fst x = p" "m x = Some y" "stale y" by auto
    with t have "x \<in> D" by (auto simp: image_of_def)
    with keys [of x] xy image_of_lookup [OF t] have "(k, to_vec c y) \<in> set ?rows" by (simp add: set_prefix_scan)
    with xy(4) dec show "k \<in> set ?ks" by force
  qed
  ultimately show ?thesis by blast
qed

definition stale_nodes :: "(string \<Rightarrow> u64 \<Rightarrow> bool) \<Rightarrow> string \<Rightarrow> graph_maps \<Rightarrow> (string \<times> string) set" where
  "stale_nodes stale p M = {x. fst x = p \<and> (\<exists>n. node_map M x = Some n \<and> stale (gnode_namespace n) (gnode_generation n))}"

definition stale_edges :: "(string \<Rightarrow> u64 \<Rightarrow> bool) \<Rightarrow> string \<Rightarrow> graph_maps \<Rightarrow> edge_id set" where
  "stale_edges stale p M = {x. fst x = p \<and> (\<exists>e. edge_map M x = Some e \<and> stale (gedge_namespace e) (gedge_generation e))}"

definition purged :: "(string \<Rightarrow> u64 \<Rightarrow> bool) \<Rightarrow> string \<Rightarrow> graph_maps \<Rightarrow> graph_maps" where
  "purged stale p M =
     \<lparr> node_map = node_map M |` {x. x \<notin> stale_nodes stale p M}, edge_map = edge_map M |` {x. x \<notin> stale_edges stale p M} \<rparr>"

lemma represents_drop_edges:
  "represents G M g \<Longrightarrow> set xs \<subseteq> {x \<in> edge_ids. fst x = p} \<Longrightarrow>
     represents G (fold drop_edge xs M) (fold (remove_edge_key p) (map row_key xs) g)"
proof (induction xs arbitrary: M g)
  case (Cons x xs)
  obtain k s t where x: "x = (p, k, s, t)" using Cons.prems(2) by (cases x) auto
  with Cons.prems have keys: "key_ok p" "key_ok s" "key_ok t" by (auto simp: edge_ids_def)
  have "represents G (drop_edge x M) (remove_edge_key p (row_key x) g)"
    using represents_remove_edge [OF Cons.prems(1) keys] keys by (simp add: x row_key_def remove_edge_key_eq)
  from Cons.IH [OF this] Cons.prems(2) show ?case by simp
qed simp

lemma fold_drop_edge: "fold drop_edge xs M = M\<lparr>edge_map := edge_map M |` {x. x \<notin> set xs}\<rparr>"
proof (induction xs arbitrary: M)
  case (Cons x xs)
  have upd: "(f(x := None)) |` {z. z \<notin> set xs} = f |` {z. z \<notin> set (x # xs)}" for f :: "edge_id \<Rightarrow> graph_edge option"
    by (auto simp: restrict_map_def fun_eq_iff)
  have "fold drop_edge (x # xs) M = (drop_edge x M)\<lparr>edge_map := edge_map (drop_edge x M) |` {z. z \<notin> set xs}\<rparr>"
    by (simp only: fold_simps Cons.IH)
  also have "\<dots> = M\<lparr>edge_map := ((edge_map M)(x := None)) |` {z. z \<notin> set xs}\<rparr>"
    unfolding drop_edge_def by simp
  finally show ?case by (simp only: upd)
qed (cases M, simp add: restrict_map_def)

lemma represents_dom:
  assumes "represents G M g"
  shows "dom (node_map M) \<subseteq> node_ids" and "dom (edge_map M) \<subseteq> edge_ids"
  using representsD(1,2) [OF assms] by (simp_all add: image_of_def)

lemma purge_where_run:
  assumes g: "represents G M g" and G: "graph_codecs_ok G" and p: "key_ok p"
  shows "\<exists>g'. purge_where G p stale g = (Inr (card (stale_nodes stale p M), card (stale_edges stale p M)), g')
    \<and> represents G (purged stale p M) g'"
proof -
  define N where "N = stale_nodes stale p M"
  define E where "E = stale_edges stale p M"
  have c: "codec_ok (node_bin G)" "codec_ok (edge_bin G)" using G by (simp_all add: graph_codecs_ok_def)
  have stale: "N = {x. fst x = p \<and> (\<exists>n. node_map M x = Some n \<and> stale (gnode_namespace n) (gnode_generation n))}"
    "E = {x. fst x = p \<and> (\<exists>e. edge_map M x = Some e \<and> stale (gedge_namespace e) (gedge_generation e))}"
    by (simp_all only: N_def stale_nodes_def E_def stale_edges_def)
  obtain ns where ns: "stale_keys (node_bin G) (\<lambda>n. stale (gnode_namespace n) (gnode_generation n)) p (node_rows g) = Inr ns"
    "distinct ns" "set ns = node_key ` N"
    using stale_keys_run [OF representsD(1) [OF g] c(1) project_prefix_keys(1) [OF p],
        of "\<lambda>n. stale (gnode_namespace n) (gnode_generation n)"] unfolding stale(1) [symmetric] by iprover
  obtain es where es: "stale_keys (edge_bin G) (\<lambda>e. stale (gedge_namespace e) (gedge_generation e)) p (edge_rows g) = Inr es"
    "distinct es" "set es = row_key ` E"
    using stale_keys_run [OF representsD(2) [OF g] c(2) project_prefix_keys(2) [OF p],
        of "\<lambda>e. stale (gedge_namespace e) (gedge_generation e)"] unfolding stale(2) [symmetric] by iprover
  have doms: "N \<subseteq> dom (node_map M)" "E \<subseteq> dom (edge_map M)" unfolding stale by auto
  have fstE: "x \<in> E \<Longrightarrow> fst x = p" for x unfolding stale by simp
  note N = subset_trans [OF doms(1) represents_dom(1) [OF g]] and E = subset_trans [OF doms(2) represents_dom(2) [OF g]]
  note inj = inj_on_subset [OF inj_keys(4) N] inj_on_subset [OF inj_keys(1) E]
  define g1 where "g1 = g\<lparr>node_rows := remove_keys ns (node_rows g)\<rparr>"
  define M1 where "M1 = \<lparr> node_map = node_map M |` {x. x \<notin> N}, edge_map = edge_map M \<rparr>"
  have key: "node_key x \<in> set ns \<longleftrightarrow> x \<in> N" if "x \<in> node_ids" for x
    unfolding ns(3) by (rule inj_on_image_mem_iff [OF inj_keys(4) that N])
  have "image_of node_key (to_vec (node_bin G)) node_ids (node_map M |` {x. \<not> x \<in> N}) (remove_keys ns (node_rows g))"
    by (rule image_of_filter [OF representsD(1) [OF g], where P = "\<lambda>k. k \<in> set ns"]) (use key in auto)
  then have g1: "represents G M1 g1"
    using representsD(2-6) [OF g] unfolding represents_def by (simp add: restrict_map_def g1_def M1_def)
  define xs where "xs = map (inv_into E row_key) es"
  have xs: "map row_key xs = es"
    unfolding xs_def map_map by (rule map_idI) (simp add: es(3) f_inv_into_f)
  have set_xs: "set xs = E"
    unfolding xs_def set_map es(3) by (rule inv_into_image_cancel [OF inj(2) order_refl])
  have "represents G (fold drop_edge xs M1) (fold (remove_edge_key p) es g1)"
    unfolding xs [symmetric] by (rule represents_drop_edges [OF g1]) (use set_xs E fstE in auto)
  moreover have "fold drop_edge xs M1 = purged stale p M"
    unfolding fold_drop_edge set_xs by (simp add: M1_def purged_def N_def E_def)
  moreover have "length ns = card N" "length es = card E"
    using distinct_card [OF ns(2)] distinct_card [OF es(2)] card_image [OF inj(1)] card_image [OF inj(2)] by (simp_all add: ns(3) es(3))
  ultimately show ?thesis using ns(1) es(1) by (simp add: purge_where_def Let_def g1_def N_def E_def)
qed

end
