(* ===== verification/Graph_Calls.thy ===== *)
theory Graph_Calls
  imports Graph_Deletion
begin

text \<open>
  The writing calls of the graph database, one after the other. Each acts on the maps of nodes and
  edges as its specification says; a call that is refused changes nothing, and the batched
  deletions return.
\<close>

section \<open>Calls\<close>

datatype graph_call =
    UpsertNodes string "graph_node list"
  | UpsertBoth string "graph_node list" "graph_edge list"
  | UpsertEdges string "graph_edge list"
  | ReplaceSnapshot string "graph_edge list" "graph_edge list"
  | IncrementOne u64 string string string edge_kind string string "32 word" u64
  | IncrementBatch u64 string string string u64 "increment list"
  | IncrementUndirected u64 string string string u64 "increment list"
  | Learn u64 string string string u64 "graph_node list" "increment list"
  | CreateInsight string u64 string string string "string list" "string option" u64
  | SetMeta string string string
  | DeleteKind string edge_kind
  | DeleteProject string
  | PurgeBelow string u64
  | PurgeOld string u64

text \<open>The state a call leaves; \<open>None\<close> if it does not return.\<close>

primrec run_graph :: "graph_codecs \<Rightarrow> graph_call \<Rightarrow> graph_store \<Rightarrow> graph_store option" where
  "run_graph G (UpsertNodes p nodes) g = Some (snd (commit (upsert_nodes G p nodes) g))"
| "run_graph G (UpsertBoth p nodes edges) g = Some (snd (commit (upsert_nodes_and_edges G p nodes edges) g))"
| "run_graph G (UpsertEdges p edges) g = Some (snd (commit (upsert_edges G p edges) g))"
| "run_graph G (ReplaceSnapshot p xs ys) g = Some (snd (commit (replace_edge_snapshot G p xs ys) g))"
| "run_graph G (IncrementOne now p ns l k s t d gen) g = Some (snd (commit (increment_edge G now p ns l k s t d gen) g))"
| "run_graph G (IncrementBatch now p ns l gen is) g = Some (snd (commit (batch_increment_edges G now p ns l gen is) g))"
| "run_graph G (IncrementUndirected now p ns l gen is) g =
     Some (snd (commit (batch_increment_undirected_edges G now p ns l gen is) g))"
| "run_graph G (Learn now p ns l gen nodes is) g =
     Some (snd (commit (upsert_nodes_and_increment_undirected_edges G now p ns l gen nodes is) g))"
| "run_graph G (CreateInsight md now p i t sources fp gen) g =
     Some (snd (create_insight G (\<lambda>_ _ _ _. md) now p i t [] sources None fp gen g))"
| "run_graph G (SetMeta p k v) g = Some (snd (commit (set_graph_meta p k v) g))"
| "run_graph G (DeleteKind p k) g = map_option snd (delete_edges_of_kind p k g)"
| "run_graph G (DeleteProject p) g = delete_project_data p g"
| "run_graph G (PurgeBelow p baseline) g = Some (snd (purge_generations_below G p baseline g))"
| "run_graph G (PurgeOld p active) g = Some (snd (purge_old_generations G p active g))"

definition nodes_ok :: "graph_node list \<Rightarrow> bool" where
  "nodes_ok ns \<longleftrightarrow> (\<forall>n \<in> set ns. key_ok (node_id n))"

definition edges_ok :: "graph_edge list \<Rightarrow> bool" where
  "edges_ok es \<longleftrightarrow> (\<forall>e \<in> set es. edge_ok e)"

definition increments_ok :: "increment list \<Rightarrow> bool" where
  "increments_ok is \<longleftrightarrow> (\<forall>i \<in> set is. increment_ok i)"

primrec graph_spec :: "graph_call \<Rightarrow> graph_maps \<Rightarrow> graph_maps" where
  "graph_spec (UpsertNodes p nodes) M = (if key_ok p \<and> nodes_ok nodes then fold (add_node p) nodes M else M)"
| "graph_spec (UpsertBoth p nodes edges) M =
     (if key_ok p \<and> nodes_ok nodes \<and> edges_ok edges then fold (add_edge p) edges (fold (add_node p) nodes M) else M)"
| "graph_spec (UpsertEdges p edges) M = (if key_ok p \<and> edges_ok edges then fold (add_edge p) edges M else M)"
| "graph_spec (ReplaceSnapshot p xs ys) M =
     (if key_ok p \<and> edges_ok (xs @ ys) \<and> (\<forall>e \<in> set xs. edge_map M (edge_id p e) = Some e)
      then fold (add_missing p) ys (fold (\<lambda>e. drop_edge (edge_id p e)) xs M) else M)"
| "graph_spec (IncrementOne now p ns l k s t d gen) M = add_weight now p ns l gen (k, s, t, d) M"
| "graph_spec (IncrementBatch now p ns l gen is) M =
     (if key_ok p \<and> increments_ok is then fold (add_weight now p ns l gen) is M else M)"
| "graph_spec (IncrementUndirected now p ns l gen is) M =
     (if key_ok p \<and> increments_ok (directed is) then fold (add_weight now p ns l gen) (directed is) M else M)"
| "graph_spec (Learn now p ns l gen nodes is) M =
     (if key_ok p \<and> nodes_ok nodes \<and> increments_ok is
      then fold (add_weight now p ns l gen) (directed is) (fold (add_node p) nodes M) else M)"
| "graph_spec (CreateInsight md now p i t sources fp gen) M =
     (if key_ok p \<and> key_ok i
      then (if list_all key_ok sources then fold (add_edge p) (insight_edges now gen i sources) else id)
             (add_node p (insight_node md i t gen) M)
      else M)"
| "graph_spec (SetMeta p k v) M = M"
| "graph_spec (DeleteKind p k) M = drop_edges_of (\<lambda>x. fst x = p \<and> fst (snd x) = k) M"
| "graph_spec (DeleteProject p) M = drop_project p M"
| "graph_spec (PurgeBelow p baseline) M = purged (stale_before baseline) p M"
| "graph_spec (PurgeOld p active) M = purged (stale_unless active) p M"

text \<open>The calls that validate no key are made with keys that were validated before.\<close>

primrec graph_call_ok :: "graph_call \<Rightarrow> bool" where
  "graph_call_ok (UpsertNodes p nodes) = True"
| "graph_call_ok (UpsertBoth p nodes edges) = True"
| "graph_call_ok (UpsertEdges p edges) = True"
| "graph_call_ok (ReplaceSnapshot p xs ys) = True"
| "graph_call_ok (IncrementOne now p ns l k s t d gen) = (key_ok p \<and> key_ok s \<and> key_ok t)"
| "graph_call_ok (IncrementBatch now p ns l gen is) = True"
| "graph_call_ok (IncrementUndirected now p ns l gen is) = True"
| "graph_call_ok (Learn now p ns l gen nodes is) = True"
| "graph_call_ok (CreateInsight md now p i t sources fp gen) = True"
| "graph_call_ok (SetMeta p k v) = True"
| "graph_call_ok (DeleteKind p k) = key_ok p"
| "graph_call_ok (DeleteProject p) = key_ok p"
| "graph_call_ok (PurgeBelow p baseline) = key_ok p"
| "graph_call_ok (PurgeOld p active) = key_ok p"

section \<open>Each call\<close>

lemma guard_key: "bindR (vk n v) (\<lambda>_. r) = (if key_ok v then r else Inl (projl (vk n v)))"
  using vk_fails [of v n] by (cases "key_ok v") auto

lemma guard_units:
  "bindR (traverseR f xs) (\<lambda>_. r) = (if \<forall>x \<in> set xs. \<exists>y. f x = Inr y then r else Inl (projl (traverseR f xs)))"
  by (rule traverseR_cases [of f xs]) auto

lemma commit_simps [simp]:
  "f g = Inr (x, g') \<Longrightarrow> commit f g = (Inr x, g')" "f g = Inl e \<Longrightarrow> commit f g = (Inl e, g)"
  by (simp_all add: commit_def)

lemma guard_checks:
  "bindR (traverseR (\<lambda>n. vk c (node_id n)) ns) (\<lambda>_. r)
     = (if nodes_ok ns then r else Inl (projl (traverseR (\<lambda>n. vk c (node_id n)) ns)))"
  "bindR (traverseR check_endpoints es) (\<lambda>_. r) = (if edges_ok es then r else Inl (projl (traverseR check_endpoints es)))"
  "bindR (traverseR check_increment is) (\<lambda>_. r) = (if increments_ok is then r else Inl (projl (traverseR check_increment is)))"
  unfolding guard_units by (simp_all add: nodes_ok_def edges_ok_def increments_ok_def)

lemma guard_ensure: "bindR (traverseR (\<lambda>e. ensure (b e) x) xs) (\<lambda>_. r) = (if \<forall>e \<in> set xs. b e then r else Inl x)"
proof (induction xs)
  case (Cons e es)
  then show ?case by (cases "b e"; cases "traverseR (\<lambda>e. ensure (b e) x) es") (auto split: if_splits)
qed simp

lemma checks_Nil [simp]: "nodes_ok []" "edges_ok []" "increments_ok []"
  by (simp_all add: nodes_ok_def edges_ok_def increments_ok_def)

lemma run_upsert_nodes:
  assumes G: "graph_codecs_ok G" and g: "represents G M g"
  shows "represents G (graph_spec (UpsertNodes p nodes) M) (snd (commit (upsert_nodes G p nodes) g))"
proof (cases "nodes = [] \<or> \<not> key_ok p \<or> \<not> nodes_ok nodes")
  case True
  then consider "nodes = []" | "\<not> key_ok p" | e where "key_ok p" "\<not> nodes_ok nodes" "upsert_nodes_in_tx G p nodes (node_rows g) = Inl e"
    using upsert_nodes_refused [of nodes G p "node_rows g"] by (auto simp: nodes_ok_def)
  then show ?thesis using g by cases (auto simp: commit_def upsert_nodes_def guard_key)
next
  case False
  then have ns: "\<forall>n \<in> set nodes. key_ok (node_id n)" by (simp add: nodes_ok_def)
  from False upsert_nodes_run [OF G _ g ns, of p] show ?thesis
    by (auto simp: commit_def upsert_nodes_def guard_key)
qed

lemma run_upsert_both:
  assumes G: "graph_codecs_ok G" and g: "represents G M g"
  shows "represents G (graph_spec (UpsertBoth p nodes edges) M) (snd (commit (upsert_nodes_and_edges G p nodes edges) g))"
proof (cases "key_ok p \<and> nodes_ok nodes \<and> edges_ok edges")
  case True
  then have ns: "\<forall>n \<in> set nodes. key_ok (node_id n)" and es: "\<forall>e \<in> set edges. edge_ok e" and p: "key_ok p"
    by (simp_all add: nodes_ok_def edges_ok_def)
  from upsert_nodes_run [OF G p g ns] obtain t where t: "upsert_nodes_in_tx G p nodes (node_rows g) = Inr t"
    "represents G (fold (add_node p) nodes M) (g\<lparr>node_rows := t\<rparr>)" by blast
  from True t(1) represents_insert_edges [OF t(2) p es] g show ?thesis
    by (auto simp: commit_def upsert_nodes_and_edges_def guard_key guard_checks)
next
  case False
  with g show ?thesis by (auto simp: commit_def upsert_nodes_and_edges_def guard_key guard_checks)
qed

lemma run_upsert_edges:
  assumes g: "represents G M g"
  shows "represents G (graph_spec (UpsertEdges p edges) M) (snd (commit (upsert_edges G p edges) g))"
  using g represents_insert_edges [OF g, of p edges]
  by (auto simp: commit_def upsert_edges_def guard_key guard_checks) (simp_all add: edges_ok_def)

lemma run_replace:
  assumes G: "graph_codecs_ok G" and g: "represents G M g"
  shows "represents G (graph_spec (ReplaceSnapshot p xs ys) M) (snd (commit (replace_edge_snapshot G p xs ys) g))"
proof (cases "key_ok p \<and> edges_ok (xs @ ys)")
  case True
  then have p: "key_ok p" and es: "\<forall>e \<in> set xs. edge_ok e" "\<forall>e \<in> set ys. edge_ok e" by (auto simp: edges_ok_def)
  have inj: "to_vec (edge_bin G) x = to_vec (edge_bin G) y \<longleftrightarrow> x = y" for x y
    using G by (metis codec_ok_def graph_codecs_ok_def option.inject)
  have row: "fmlookup (edge_rows g) (key_of_edge p e) = Some (to_vec (edge_bin G) e) \<longleftrightarrow> edge_map M (edge_id p e) = Some e"
    if "e \<in> set xs" for e
    using represents_edge_row [OF g p, of e] es(1) that by (auto simp: inj)
  have "replace_edge_snapshot G p xs ys g =
      (if \<forall>e \<in> set xs. edge_map M (edge_id p e) = Some e
       then Inr ((), fold (insert_missing G p) ys (fold (\<lambda>e. remove_edge p (gedge_kind e) (source_id e) (target_id e)) xs g))
       else replace_edge_snapshot G p xs ys g)" (is "_ = (if ?c then ?r else _)")
    using True row by (simp add: replace_edge_snapshot_def guard_key guard_checks guard_ensure)
  moreover have "\<exists>e. replace_edge_snapshot G p xs ys g = Inl e" if "\<not> ?c"
    using True row that by (auto simp: replace_edge_snapshot_def guard_key guard_checks guard_ensure)
  ultimately show ?thesis
    using True g represents_insert_missing [OF represents_remove_edges [OF g p es(1)] p es(2)]
    by (cases ?c) (auto simp: commit_def)
next
  case False
  with g show ?thesis by (auto simp: commit_def replace_edge_snapshot_def guard_key guard_checks)
qed

lemma run_increment_one:
  assumes G: "graph_codecs_ok G" and g: "represents G M g" and keys: "key_ok p" "key_ok s" "key_ok t"
  shows "represents G (graph_spec (IncrementOne now p ns l k s t d gen) M) (snd (commit (increment_edge G now p ns l k s t d gen) g))"
proof -
  have "Option.bind (fmlookup (edge_rows g) (edge_key p k s t)) (from_slice (edge_bin G)) = edge_map M (p, k, s, t)"
    using represents_rows(2) [OF g keys] G by (cases "edge_map M (p, k, s, t)") (simp_all add: graph_codecs_ok_def codec_ok_def)
  with represents_write_edge [OF g keys fits_incremented [OF g]] show ?thesis
    by (simp add: commit_def increment_edge_def Let_def add_weight_def)
qed

lemma run_increments:
  assumes G: "graph_codecs_ok G" and g: "represents G M g"
  shows "represents G (graph_spec (IncrementBatch now p ns l gen is) M) (snd (commit (batch_increment_edges G now p ns l gen is) g))"
proof (cases "key_ok p \<and> increments_ok is")
  case True
  then have p: "key_ok p" and "is": "\<forall>i \<in> set is. increment_ok i" by (simp_all add: increments_ok_def)
  from increments_run [OF G p g "is", of now ns l gen] True g show ?thesis
    by (auto simp: commit_def batch_increment_edges_def guard_key guard_checks)
next
  case False
  with g show ?thesis by (auto simp: commit_def batch_increment_edges_def guard_key guard_checks)
qed

lemma run_learn:
  assumes G: "graph_codecs_ok G" and g: "represents G M g"
  shows "represents G (graph_spec (Learn now p ns l gen nodes is) M)
    (snd (commit (upsert_nodes_and_increment_undirected_edges G now p ns l gen nodes is) g))"
proof (cases "key_ok p \<and> nodes_ok nodes \<and> increments_ok is")
  case True
  then have nodes: "\<forall>n \<in> set nodes. key_ok (node_id n)" and p: "key_ok p" by (simp_all add: nodes_ok_def)
  have "is": "\<forall>i \<in> set (directed is). increment_ok i" using True by (intro increment_ok_directed) (simp add: increments_ok_def)
  from upsert_nodes_run [OF G p g nodes] obtain t where t: "upsert_nodes_in_tx G p nodes (node_rows g) = Inr t"
    "represents G (fold (add_node p) nodes M) (g\<lparr>node_rows := t\<rparr>)" by blast
  from increments_run [OF G p t(2) "is", of now ns l gen] True t(1) g show ?thesis
    by (auto simp: commit_def upsert_nodes_and_increment_undirected_edges_def guard_key guard_checks)
next
  case False
  with g show ?thesis by (auto simp: commit_def upsert_nodes_and_increment_undirected_edges_def guard_key guard_checks)
qed

lemma represents_other_tables [simp]:
  "represents G M (g\<lparr>fingerprint_rows := f\<rparr>) = represents G M g"
  "represents G M (g\<lparr>graph_meta := m\<rparr>) = represents G M g"
  by (simp_all add: represents_def)

lemma insight_edges_ok: "key_ok i \<Longrightarrow> edges_ok (insight_edges now gen i sources) \<longleftrightarrow> list_all key_ok sources"
  by (induction sources) (auto simp: insight_edges_def insight_edge_def edges_ok_def edge_ok_def)

lemma run_insight:
  assumes G: "graph_codecs_ok G" and g: "represents G M g"
  shows "represents G (graph_spec (CreateInsight md now p i t sources fp gen) M)
    (snd (create_insight G (\<lambda>_ _ _ _. md) now p i t [] sources None fp gen g))"
proof -
  let ?n = "insight_node md i t gen"
  let ?es = "insight_edges now gen i sources"
  have n: "node_id ?n = i" by (simp add: insight_node_def)
  let ?edges = "commit (upsert_edges G p ?es)"
  let ?fp = "\<lambda>_::unit. case fp of Some fp \<Rightarrow> if fp \<noteq> [] then commit (set_insight_fingerprint p fp) else (\<lambda>g. (Inr (), g)) | None \<Rightarrow> (\<lambda>g. (Inr (), g))"
  have last: "represents G N (snd (?fp u h)) = represents G N h" for N h u
    by (simp add: set_insight_fingerprint_def split: option.split)
  have rest: "represents G N (snd (then_op ?edges ?fp h)) = represents G N (snd (?edges h))" for N h
    by (cases "?edges h"; cases "fst (?edges h)") (simp_all add: then_op_def last)
  obtain r g1 where r: "commit (upsert_nodes G p [?n]) g = (r, g1)" by force
  have r_ok: "r = Inr () \<longleftrightarrow> key_ok p \<and> key_ok i" "\<And>x. r = Inr x \<Longrightarrow> key_ok p \<and> key_ok i" "\<And>e. r = Inl e \<Longrightarrow> \<not> (key_ok p \<and> key_ok i)"
    using r upsert_nodes_run [OF G _ g, of p "[?n]"] n
    by (auto simp: commit_def upsert_nodes_def guard_key split: sum.splits if_splits)
  have g1: "represents G (graph_spec (UpsertNodes p [?n]) M) g1"
    using run_upsert_nodes [OF G g, of p "[?n]"] r by simp
  show ?thesis
  proof (cases r)
    case (Inl e)
    with r_ok(3) have no: "\<not> (key_ok p \<and> key_ok i)" by simp
    with g1 n have "represents G M g1" by (auto simp: nodes_ok_def split: if_splits)
    with no Inl show ?thesis by (auto simp: create_insight_def then_op_def [of "commit (upsert_nodes G p [?n])"] r)
  next
    case (Inr x)
    with r_ok(2) have keys: "key_ok p" "key_ok i" by simp_all
    with g1 n have "represents G (add_node p ?n M) g1" by (simp add: nodes_ok_def)
    from run_upsert_edges [OF this, of p ?es] keys Inr show ?thesis
      by (simp add: create_insight_def then_op_def [of "commit (upsert_nodes G p [?n])"] r rest insight_edges_ok split: if_splits)
  qed
qed

lemma run_set_meta:
  assumes "represents G M g"
  shows "represents G M (snd (commit (set_graph_meta p k v) g))"
  using assms by (simp add: commit_def set_graph_meta_def guard_key)

text \<open>Every allowed call returns and acts on the maps as its specification.\<close>

lemma run_graph_represents:
  assumes G: "graph_codecs_ok G" and g: "represents G M g" and c: "graph_call_ok c"
  shows "\<exists>g'. run_graph G c g = Some g' \<and> represents G (graph_spec c M) g'"
proof (cases c)
  case (PurgeBelow p baseline)
  with c purge_where_run [OF g G, of p "stale_before baseline"] show ?thesis
    by (auto simp: purge_generations_below_def)
next
  case (PurgeOld p active)
  with c purge_where_run [OF g G, of p "stale_unless active"] show ?thesis
    by (auto simp: purge_old_generations_def then_op_def)
next
  case (DeleteKind p k)
  with c delete_edges_of_kind_run [OF g, of p k] show ?thesis by auto
next
  case (DeleteProject p)
  with c delete_project_data_run [OF g, of p] show ?thesis by auto
next
  case (IncrementUndirected now p ns l gen "is")
  with run_increments [OF G g, of now p ns l gen "directed is"] show ?thesis
    by (simp add: batch_increment_undirected_edges_def)
qed (use c in \<open>simp_all add: run_upsert_nodes [OF G g, simplified] run_upsert_both [OF G g, simplified] run_upsert_edges [OF g, simplified]
    run_replace [OF G g, simplified] run_increment_one [OF G g, simplified] run_increments [OF G g, simplified]
    run_learn [OF G g, simplified] run_insight [OF G g, simplified] run_set_meta [OF g]\<close>)

section \<open>Sequences of calls\<close>

definition run_graph_calls :: "graph_codecs \<Rightarrow> graph_call list \<Rightarrow> graph_store \<Rightarrow> graph_store option" where
  "run_graph_calls G cs g = fold (\<lambda>c s. Option.bind s (run_graph G c)) cs (Some g)"

interpretation graph: call_relation "\<lambda>c s. Option.bind s (run_graph G c)" graph_spec
  "\<lambda>M s. graph_codecs_ok G \<and> (\<exists>g. s = Some g \<and> represents G M g)" graph_call_ok for G
  by unfold_locales (auto dest: run_graph_represents)

lemma run_graph_calls_represents:
  assumes "graph_codecs_ok G" and "represents G M g" and "list_all graph_call_ok cs"
  shows "\<exists>g'. run_graph_calls G cs g = Some g' \<and> represents G (fold graph_spec cs M) g'"
  unfolding run_graph_calls_def using graph.rel_calls [of G "Some g" M cs] assms by auto

end
