(* ===== verification/Graph_Reads.thy ===== *)
theory Graph_Reads
  imports Graph_Calls
begin

text \<open>
  The reads of a represented graph database: what each scan finds of the map of edges, in which
  order, so that the queries over the adjacency tables and those over the edge rows can be compared.
\<close>

section \<open>Scans of tables that are images\<close>

text \<open>
  A scan that selects the rows of one family of entries, whose keys are ordered as its parameter,
  finds exactly the entries of the family, in that order.
\<close>

lemma scan_rows:
  fixes t :: "('k::linorder, 'v) fmap" and c :: "string \<Rightarrow> 'x"
  assumes t: "image_of f h D m t" and P: "\<And>x. x \<in> D \<Longrightarrow> P (f x) \<longleftrightarrow> (\<exists>i. x = c i)"
    and mono: "\<And>i j. f (c i) \<le> f (c j) \<longleftrightarrow> i \<le> j"
  shows "finite {i. m (c i) \<noteq> None}"
    and "filter (\<lambda>kv. P (fst kv)) (iter t) = map (\<lambda>i. (f (c i), h (the (m (c i))))) (sorted_list_of_set {i. m (c i) \<noteq> None})"
proof -
  let ?I = "{i. m (c i) \<noteq> None}"
  let ?xs = "filter (\<lambda>kv. P (fst kv)) (iter t)"
  let ?ys = "map (\<lambda>i. (f (c i), h (the (m (c i))))) (sorted_list_of_set ?I)"
  have inj: "inj (\<lambda>i. f (c i))" by (rule injI) (metis mono order_antisym order_refl)
  have D: "c i \<in> D" if "i \<in> ?I" for i using t that by (auto simp: image_of_def)
  have look: "fmlookup t (f (c i)) = map_option h (m (c i))" if "i \<in> ?I" for i
    by (rule image_of_lookup [OF t D [OF that]])
  have sub: "(\<lambda>i. f (c i)) ` ?I \<subseteq> fset (fmdom t)" using look by (force intro: fmdomI)
  show fin: "finite ?I"
    by (rule finite_imageD [OF finite_subset [OF sub finite_fset] inj_on_subset [OF inj subset_UNIV]])
  have "set ?xs = set ?ys"
  proof (intro set_eqI iffI)
    fix kv assume xs: "kv \<in> set ?xs"
    obtain k v where kv: "kv = (k, v)" by (cases kv)
    with xs have kv: "kv = (k, v)" "fmlookup t k = Some v" "P k" by (simp_all add: set_iter)
    with t obtain x y where x: "m x = Some y" "k = f x" "v = h y" by (auto simp: image_of_def)
    with t have "x \<in> D" by (auto simp: image_of_def)
    with P kv(3) x(2) obtain i where "x = c i" by blast
    with x kv(1) fin show "kv \<in> set ?ys" by force
  next
    fix kv assume "kv \<in> set ?ys"
    with fin obtain i where i: "i \<in> ?I" "kv = (f (c i), h (the (m (c i))))" by auto
    with look [OF i(1)] P [OF D [OF i(1)]] show "kv \<in> set ?xs" by (auto simp: set_iter)
  qed
  moreover have keys: "map fst ?ys = map (\<lambda>i. f (c i)) (sorted_list_of_set ?I)" by simp
  have dys: "distinct (map fst ?ys)"
    unfolding keys distinct_map using inj by (auto intro: inj_on_subset)
  have sys: "sorted (map fst ?ys)"
    unfolding keys sorted_map using mono sorted_sorted_list_of_set [of ?I] by simp
  have dxs: "distinct (map fst ?xs)" by (simp add: distinct_map_filter)
  have sxs: "sorted (map fst ?xs)"
    using sorted_wrt_filter [OF sorted_wrt_iter [of t], of "\<lambda>kv. P (fst kv)"] by (simp add: sorted_map)
  ultimately have "map_of ?xs = map_of ?ys" using map_of_inject_set [OF dxs dys] by simp
  with sxs dxs sys dys show "?xs = ?ys" by (rule pair_list_eqI)
qed

lemma append_le_append: "(x @ a :: string) \<le> x @ b \<longleftrightarrow> a \<le> b"
  by (induction x) auto

lemma source_prefix_keys:
  assumes "key_ok p" "key_ok s" and "x \<in> edge_ids"
  shows "prefix (source_prefix p k s) (row_key x) \<longleftrightarrow> (\<exists>t. x = (p, k, s, t))"
proof -
  obtain q l u v where x: "x = (q, l, u, v)" by (cases x)
  with assms(3) have "key_ok q" "key_ok u" by (simp_all add: edge_ids_def)
  with assms(1,2) show ?thesis
    using kind_name_ok [of k] kind_name_ok [of l]
    by (auto simp: x source_prefix_def row_key_def edge_key_def prefix_sep kind_name_inj sep_prefix_iff)
qed

lemma adjacency_keys:
  assumes "key_ok p" and "x \<in> edge_ids"
  shows "fst (out_key x) = adj_key p k s \<longleftrightarrow> (\<exists>t. x = (p, k, s, t))"
    and "fst (in_key x) = adj_key p k t \<longleftrightarrow> (\<exists>s. x = (p, k, s, t))"
  using assms by (auto simp: edge_ids_def out_key_def in_key_def)

section \<open>The edges at a node\<close>

definition edges_from :: "graph_maps \<Rightarrow> string \<Rightarrow> edge_kind \<Rightarrow> string \<Rightarrow> graph_edge list" where
  "edges_from M p k s = map (\<lambda>t. the (edge_map M (p, k, s, t))) (sorted_list_of_set {t. edge_map M (p, k, s, t) \<noteq> None})"

definition edges_to :: "graph_maps \<Rightarrow> string \<Rightarrow> edge_kind \<Rightarrow> string \<Rightarrow> graph_edge list" where
  "edges_to M p k t = map (\<lambda>s. the (edge_map M (p, k, s, t))) (sorted_list_of_set {s. edge_map M (p, k, s, t) \<noteq> None})"

lemma out_scan:
  assumes g: "represents G M g" and p: "key_ok p"
  shows "finite {t. edge_map M (p, k, s, t) \<noteq> None}"
    and "adj_scan (adj_key p k s) (adj_out g) = map (\<lambda>e. ((adj_key p k s, target_id e), adj_value e)) (edges_from M p k s)"
proof -
  have mono: "out_key (p, k, s, i) \<le> out_key (p, k, s, j) \<longleftrightarrow> i \<le> j" for i j
    by (simp add: out_key_def less_eq_prod_def)
  note rows = scan_rows [OF representsD(3) [OF g], where P = "\<lambda>x. fst x = adj_key p k s", OF adjacency_keys(1) [OF p] mono]
  show fin: "finite {t. edge_map M (p, k, s, t) \<noteq> None}" by (rule rows(1))
  have fits: "fits_id (p, k, s, t) (the (edge_map M (p, k, s, t)))" if "edge_map M (p, k, s, t) \<noteq> None" for t
    using representsD(5) [OF g] that by auto
  show "adj_scan (adj_key p k s) (adj_out g) = map (\<lambda>e. ((adj_key p k s, target_id e), adj_value e)) (edges_from M p k s)"
    unfolding adj_scans_filter(2) edges_from_def map_map
    by (subst rows(2), assumption, rule map_cong [OF refl])
      (use fits in \<open>simp_all only: set_sorted_list_of_set [OF fin]\<close>, use fits in \<open>simp_all add: out_key_def fits_id_def\<close>)
qed

lemma in_scan:
  assumes g: "represents G M g" and p: "key_ok p"
  shows "finite {s. edge_map M (p, k, s, t) \<noteq> None}"
    and "adj_scan (adj_key p k t) (adj_in g) = map (\<lambda>e. ((adj_key p k t, source_id e), adj_value e)) (edges_to M p k t)"
proof -
  have mono: "in_key (p, k, i, t) \<le> in_key (p, k, j, t) \<longleftrightarrow> i \<le> j" for i j
    by (simp add: in_key_def less_eq_prod_def)
  note rows = scan_rows [OF representsD(4) [OF g], where P = "\<lambda>x. fst x = adj_key p k t", OF adjacency_keys(2) [OF p] mono]
  show fin: "finite {s. edge_map M (p, k, s, t) \<noteq> None}" by (rule rows(1))
  have fits: "fits_id (p, k, s, t) (the (edge_map M (p, k, s, t)))" if "edge_map M (p, k, s, t) \<noteq> None" for s
    using representsD(5) [OF g] that by auto
  show "adj_scan (adj_key p k t) (adj_in g) = map (\<lambda>e. ((adj_key p k t, source_id e), adj_value e)) (edges_to M p k t)"
    unfolding adj_scans_filter(2) edges_to_def map_map
    by (subst rows(2), assumption, rule map_cong [OF refl])
      (use fits in \<open>simp_all only: set_sorted_list_of_set [OF fin]\<close>, use fits in \<open>simp_all add: in_key_def fits_id_def\<close>)
qed

lemma source_scan:
  assumes g: "represents G M g" and p: "key_ok p" "key_ok s"
  shows "map snd (prefix_scan (source_prefix p k s) (edge_rows g)) = map (to_vec (edge_bin G)) (edges_from M p k s)"
proof -
  have mono: "row_key (p, k, s, i) \<le> row_key (p, k, s, j) \<longleftrightarrow> i \<le> j" for i j
    by (simp add: row_key_def edge_key_def append_le_append)
  show ?thesis
    unfolding prefix_scan_filter edges_from_def
    by (subst scan_rows(2) [OF representsD(2) [OF g], where P = "prefix (source_prefix p k s)", OF source_prefix_keys [OF p] mono]) simp_all
qed

lemma set_edges_at:
  assumes g: "represents G M g" and p: "key_ok p"
  shows "set (edges_from M p k s) = {e. edge_map M (edge_id p e) = Some e \<and> gedge_kind e = k \<and> source_id e = s}"
    and "set (edges_to M p k t) = {e. edge_map M (edge_id p e) = Some e \<and> gedge_kind e = k \<and> target_id e = t}"
proof -
  have fits: "edge_id p e = (p, k, s, t) \<and> gedge_kind e = k \<and> source_id e = s \<and> target_id e = t"
    if "edge_map M (p, k, s, t) = Some e" for e k s t
    using representsD(5) [OF g that] by (simp add: fits_id_def edge_id_def)
  have "set (edges_from M p k s) = {e. \<exists>t. edge_map M (p, k, s, t) = Some e}"
    using out_scan(1) [OF g p, of k s] by (force simp: edges_from_def)
  also have "\<dots> = {e. edge_map M (edge_id p e) = Some e \<and> gedge_kind e = k \<and> source_id e = s}"
    using fits by (auto simp: edge_id_def)
  finally show "set (edges_from M p k s) = \<dots>" .
  have "set (edges_to M p k t) = {e. \<exists>s. edge_map M (p, k, s, t) = Some e}"
    using in_scan(1) [OF g p, of k t] by (force simp: edges_to_def)
  also have "\<dots> = {e. edge_map M (edge_id p e) = Some e \<and> gedge_kind e = k \<and> target_id e = t}"
    using fits by (auto simp: edge_id_def)
  finally show "set (edges_to M p k t) = \<dots>" .
qed

section \<open>Queries\<close>

lemma decode_adj [simp]: "decode_adj_value (adj_value e) = Inr (gedge_weight e, gedge_updated_at_ms e)"
proof -
  have "unat (gedge_weight e) < 256 ^ 4" using unsigned_less [of "gedge_weight e"] by simp
  then have "nat_of_le_bytes (nat_le_bytes 4 (unat (gedge_weight e))) = unat (gedge_weight e)"
    by (rule nat_of_le_bytes_le_bytes)
  then show ?thesis
    by (simp add: decode_adj_value_def adj_value_def encode_adj_value_def del: nat_le_bytes.simps)
qed

lemma insort_key_map: "insort_key f (h x) (map h xs) = map h (insort_key (\<lambda>a. f (h a)) x xs)"
  by (induction xs) auto

lemma by_weight_map: "by_weight w (map h xs) = map h (by_weight (w \<circ> h) xs)"
proof -
  have "sort_key f (map h ys) = map h (sort_key (\<lambda>a. f (h a)) ys)" for f :: "_ \<Rightarrow> int" and ys
    by (induction ys) (simp_all add: insort_key_map)
  then show ?thesis by (simp add: by_weight_def comp_def)
qed

lemma set_by_weight [simp]: "set (by_weight w xs) = set xs" "length (by_weight w xs) = length xs"
  by (simp_all add: by_weight_def)

lemma weighted_rows:
  "traverseR weighted_row (map (\<lambda>e. ((a, f e), adj_value e)) es) = Inr (map (\<lambda>e. (f e, gedge_weight e)) es)"
  by (induction es) (simp_all add: weighted_row_def)

lemma kind_rows:
  "traverseR (kind_row k) (map (\<lambda>e. ((a, f e), adj_value e)) es) = Inr (map (\<lambda>e. (f e, k, gedge_weight e)) es)"
  by (induction es) (simp_all add: kind_row_def weighted_row_def)

lemma decode_rows: "codec_ok c \<Longrightarrow> traverseR (decode c) (map (to_vec c) xs) = Inr xs"
  by (induction xs) auto

lemma neighbors_run:
  assumes g: "represents G M g" and p: "key_ok p"
  shows "neighbors p k s limit g
    = Inr (map (\<lambda>e. (target_id e, gedge_weight e)) (take limit (by_weight gedge_weight (edges_from M p k s))))"
  by (simp add: neighbors_def out_scan(2) [OF g p] weighted_rows by_weight_map take_map comp_def)

lemma outgoing_run:
  assumes g: "represents G M g" and G: "graph_codecs_ok G" and p: "key_ok p" "key_ok s"
  shows "outgoing_edges_of_kind G p k s limit g
    = Inr (take limit (by_weight gedge_weight (edges_from M p k s)), limit < length (edges_from M p k s))"
  using G by (simp add: outgoing_edges_of_kind_def source_scan [OF g p] decode_rows graph_codecs_ok_def)

lemma incoming_run:
  assumes g: "represents G M g" and p: "key_ok p"
  shows "find_incoming_edges_with_kinds p kinds t limit g
    = Inr (map (\<lambda>e. (source_id e, gedge_kind e, gedge_weight e))
             (take limit (by_weight gedge_weight (concat (map (\<lambda>k. edges_to M p k t) kinds)))))"
proof -
  let ?row = "\<lambda>e. (source_id e, gedge_kind e, gedge_weight e)"
  have k: "map (\<lambda>e. (source_id e, k, gedge_weight e)) (edges_to M p k t) = map ?row (edges_to M p k t)" for k
    using set_edges_at(2) [OF g p, of k t] by (intro map_cong) auto
  have "traverseR (\<lambda>k. traverseR (kind_row k) (adj_scan (adj_key p k t) (adj_in g))) kinds
      = Inr (map (\<lambda>k. map ?row (edges_to M p k t)) kinds)"
    by (induction kinds) (simp_all add: in_scan(2) [OF g p] kind_rows k)
  moreover have "concat (map (\<lambda>k. map ?row (edges_to M p k t)) kinds) = map ?row (concat (map (\<lambda>k. edges_to M p k t) kinds))"
    by (simp add: map_concat comp_def)
  ultimately show ?thesis
    by (simp add: find_incoming_edges_with_kinds_def by_weight_map take_map comp_def)
qed

text \<open>Under a budget the rows that are there are taken in order, and a rest is reported.\<close>

lemma touching_run:
  assumes "codec_ok c"
  shows "touching_rows c limit (map (\<lambda>e. Some (to_vec c e)) es) n = Inr (take (limit - n) es, limit - n < length es)"
proof (induction es arbitrary: n)
  case (Cons e es)
  then show ?case
  proof (cases "limit \<le> n")
    case False
    then obtain m where m: "limit - n = Suc m" by (cases "limit - n") auto
    then have "limit - (n + 1) = m" by simp
    with False assms Cons m show ?thesis by simp
  qed simp
qed simp

definition touching_out :: "graph_maps \<Rightarrow> string \<Rightarrow> string \<Rightarrow> graph_edge list" where
  "touching_out M p node = concat (map (\<lambda>k. edges_from M p k node) structural_kinds)"

definition touching_in :: "graph_maps \<Rightarrow> string \<Rightarrow> string \<Rightarrow> graph_edge list" where
  "touching_in M p node = concat (map (\<lambda>k. edges_to M p k node) structural_kinds)"

lemma coverage_run:
  assumes g: "represents G M g" and G: "graph_codecs_ok G" and p: "key_ok p" "key_ok node"
  shows "edges_touching_with_coverage G p node limit g
    = Inr (take limit (touching_out M p node) @ take limit (touching_in M p node),
           limit < length (touching_out M p node) \<or> limit < length (touching_in M p node))"
proof -
  let ?enc = "\<lambda>e. Some (to_vec (edge_bin G) e)"
  have c: "codec_ok (edge_bin G)" using G by (simp add: graph_codecs_ok_def)
  have out: "outgoing_rows p node g k = map ?enc (edges_from M p k node)" for k
    using source_scan [OF g p, of k] unfolding outgoing_rows_def map_map [symmetric] by (simp add: comp_def)
  have "fmlookup (edge_rows g) (edge_key p k (source_id e) node) = ?enc e" if "e \<in> set (edges_to M p k node)" for k e
  proof -
    from that set_edges_at(2) [OF g p(1)] have e: "edge_map M (edge_id p e) = Some e" "gedge_kind e = k" "target_id e = node" by auto
    then have "edge_id p e \<in> edge_ids" using represents_dom(2) [OF g] by auto
    then have "edge_ok e" by (simp add: edge_ids_def edge_id_def edge_ok_def)
    from represents_edge_row [OF g p(1) this] e show ?thesis by (simp add: key_of_edge_def)
  qed
  then have inc: "incoming_rows p node g k = map ?enc (edges_to M p k node)" for k
    unfolding incoming_rows_def in_scan(2) [OF g p(1)] by simp
  have "concat (map (\<lambda>k. map ?enc (es k)) ks) = map ?enc (concat (map es ks))" for es :: "edge_kind \<Rightarrow> graph_edge list" and ks
    by (simp add: map_concat comp_def)
  moreover have "outgoing_rows p node g = (\<lambda>k. map ?enc (edges_from M p k node))"
    "incoming_rows p node g = (\<lambda>k. map ?enc (edges_to M p k node))" by (simp_all add: fun_eq_iff out inc)
  ultimately show ?thesis
    by (simp add: edges_touching_with_coverage_def touching_run [OF c] touching_out_def touching_in_def)
qed

lemma set_touching:
  assumes "represents G M g" and "key_ok p"
  shows "set (touching_out M p node) = {e. edge_map M (edge_id p e) = Some e \<and> gedge_kind e \<in> set structural_kinds \<and> source_id e = node}"
    and "set (touching_in M p node) = {e. edge_map M (edge_id p e) = Some e \<and> gedge_kind e \<in> set structural_kinds \<and> target_id e = node}"
  using set_edges_at [OF assms] by (auto simp: touching_out_def touching_in_def)

section \<open>The sweep of a component\<close>

lemma sweep_rows_run:
  "\<exists>skipped. sweep_rows members cap (map (\<lambda>e. ((a, f e), adj_value e)) es) n
    = Inr (map (\<lambda>e. (f e, gedge_weight e)) (take (cap - n) (filter (\<lambda>e. f e \<notin> members) es)),
           cap - n < length (filter (\<lambda>e. f e \<notin> members) es), skipped)"
proof (induction es arbitrary: n)
  case (Cons e es)
  consider "f e \<in> members" | "f e \<notin> members" "cap \<le> n" | m where "f e \<notin> members" "\<not> cap \<le> n" "cap - n = Suc m"
    by (cases "f e \<in> members"; cases "cap \<le> n"; cases "cap - n") auto
  then show ?case
  proof cases
    case 1
    with Cons.IH [of n] show ?thesis by auto
  next
    case 3
    then have "cap - (n + 1) = m" by simp
    with 3 Cons.IH [of "n + 1"] show ?thesis by (auto simp: weighted_row_def)
  qed simp
qed simp

text \<open>What one kind contributes at one endpoint, and what a sweep adds to a result.\<close>

definition swept :: "string set \<Rightarrow> (graph_edge \<Rightarrow> string) \<Rightarrow> nat \<Rightarrow> edge_kind \<Rightarrow> string \<Rightarrow> graph_edge list
    \<Rightarrow> (string \<times> edge_kind \<times> 32 word \<times> string) list" where
  "swept members f cap kind ep es = map (\<lambda>e. (f e, kind, gedge_weight e, ep)) (take cap (filter (\<lambda>e. f e \<notin> members) es))"

definition sweep_cut :: "string set \<Rightarrow> (graph_edge \<Rightarrow> string) \<Rightarrow> nat \<Rightarrow> edge_kind \<Rightarrow> string \<Rightarrow> graph_edge list \<Rightarrow> (edge_kind \<times> string) list" where
  "sweep_cut members f cap kind ep es = (if 0 < cap \<and> cap < length (filter (\<lambda>e. f e \<notin> members) es) then [(kind, ep)] else [])"

definition extended :: "component_adjacency \<Rightarrow> (string \<times> edge_kind \<times> 32 word \<times> string) list \<Rightarrow> (edge_kind \<times> string) list
    \<Rightarrow> (string \<times> edge_kind \<times> 32 word \<times> string) list \<Rightarrow> (edge_kind \<times> string) list \<Rightarrow> component_adjacency \<Rightarrow> bool" where
  "extended r ins ci outs co r' \<longleftrightarrow> incoming r' = incoming r @ ins \<and> truncated_in r' = truncated_in r @ ci
     \<and> outgoing r' = outgoing r @ outs \<and> truncated_out r' = truncated_out r @ co"

lemma sweep_in_run:
  assumes g: "represents G M g" and p: "key_ok p"
  shows "\<exists>r'. sweep_in p members kind cap ep g r = Inr r'
    \<and> extended r (swept members source_id cap kind ep (edges_to M p kind ep)) (sweep_cut members source_id cap kind ep (edges_to M p kind ep)) [] [] r'"
proof (cases "cap = 0")
  case False
  obtain skipped where rows: "sweep_rows members cap (adj_scan (adj_key p kind ep) (adj_in g)) 0
      = Inr (map (\<lambda>e. (source_id e, gedge_weight e)) (take cap (filter (\<lambda>e. source_id e \<notin> members) (edges_to M p kind ep))),
             cap < length (filter (\<lambda>e. source_id e \<notin> members) (edges_to M p kind ep)), skipped)"
    using sweep_rows_run [of members cap "adj_key p kind ep" source_id "edges_to M p kind ep" 0] by (auto simp: in_scan(2) [OF g p])
  with False have "sweep_in p members kind cap ep g r = Inr (r\<lparr>
      incoming := incoming r @ swept members source_id cap kind ep (edges_to M p kind ep),
      truncated_in := truncated_in r @ sweep_cut members source_id cap kind ep (edges_to M p kind ep),
      internal_skipped := internal_skipped r + skipped\<rparr>)"
    by (simp add: sweep_in_def swept_def sweep_cut_def comp_def)
  then show ?thesis by (simp add: extended_def)
qed (simp add: sweep_in_def extended_def swept_def sweep_cut_def)

lemma sweep_out_run:
  assumes g: "represents G M g" and p: "key_ok p"
  shows "\<exists>r'. sweep_out p members kind cap ep g r = Inr r'
    \<and> extended r [] [] (swept members target_id cap kind ep (edges_from M p kind ep)) (sweep_cut members target_id cap kind ep (edges_from M p kind ep)) r'"
proof (cases "cap = 0")
  case False
  obtain skipped where rows: "sweep_rows members cap (adj_scan (adj_key p kind ep) (adj_out g)) 0
      = Inr (map (\<lambda>e. (target_id e, gedge_weight e)) (take cap (filter (\<lambda>e. target_id e \<notin> members) (edges_from M p kind ep))),
             cap < length (filter (\<lambda>e. target_id e \<notin> members) (edges_from M p kind ep)), skipped)"
    using sweep_rows_run [of members cap "adj_key p kind ep" target_id "edges_from M p kind ep" 0] by (auto simp: out_scan(2) [OF g p])
  with False have "sweep_out p members kind cap ep g r = Inr (r\<lparr>
      outgoing := outgoing r @ swept members target_id cap kind ep (edges_from M p kind ep),
      truncated_out := truncated_out r @ sweep_cut members target_id cap kind ep (edges_from M p kind ep)\<rparr>)"
    by (simp add: sweep_out_def swept_def sweep_cut_def comp_def)
  then show ?thesis by (simp add: extended_def)
qed (simp add: sweep_out_def extended_def swept_def sweep_cut_def)

definition all_pairs :: "edge_kind list \<Rightarrow> string list \<Rightarrow> (edge_kind \<Rightarrow> string \<Rightarrow> 'a list) \<Rightarrow> 'a list" where
  "all_pairs kinds eps h = concat (map (\<lambda>k. concat (map (h k) eps)) kinds)"

lemma all_pairs_simps [simp]:
  "all_pairs [] eps h = []" "all_pairs (k # ks) eps h = concat (map (h k) eps) @ all_pairs ks eps h"
  "set (all_pairs ks eps h) = (\<Union>k \<in> set ks. \<Union>ep \<in> set eps. set (h k ep))"
  by (simp_all add: all_pairs_def)

lemma sweep_endpoints_run:
  assumes g: "represents G M g" and p: "key_ok p"
  shows "\<exists>r'. sweep_endpoints p members kind cin cout eps g r = Inr r' \<and> extended r
    (concat (map (\<lambda>ep. swept members source_id cin kind ep (edges_to M p kind ep)) eps))
    (concat (map (\<lambda>ep. sweep_cut members source_id cin kind ep (edges_to M p kind ep)) eps))
    (concat (map (\<lambda>ep. swept members target_id cout kind ep (edges_from M p kind ep)) eps))
    (concat (map (\<lambda>ep. sweep_cut members target_id cout kind ep (edges_from M p kind ep)) eps)) r'"
proof (induction eps arbitrary: r)
  case (Cons ep eps)
  obtain r1 where r1: "sweep_in p members kind cin ep g r = Inr r1"
    "extended r (swept members source_id cin kind ep (edges_to M p kind ep)) (sweep_cut members source_id cin kind ep (edges_to M p kind ep)) [] [] r1"
    using sweep_in_run [OF g p] by blast
  obtain r2 where r2: "sweep_out p members kind cout ep g r1 = Inr r2"
    "extended r1 [] [] (swept members target_id cout kind ep (edges_from M p kind ep)) (sweep_cut members target_id cout kind ep (edges_from M p kind ep)) r2"
    using sweep_out_run [OF g p] by blast
  from Cons.IH [of r2] r1 r2 show ?case by (auto simp: extended_def)
qed (simp add: extended_def)

lemma no_cap [simp]: "swept members f 0 kind ep es = []" "sweep_cut members f 0 kind ep es = []"
  by (simp_all add: swept_def sweep_cut_def)

lemma sweep_kinds_run:
  assumes g: "represents G M g" and p: "key_ok p"
  shows "\<exists>r'. sweep_kinds p members cap_in cap_out kinds eps g r = Inr r' \<and> extended r
    (all_pairs kinds eps (\<lambda>k ep. swept members source_id (cap_in k) k ep (edges_to M p k ep)))
    (all_pairs kinds eps (\<lambda>k ep. sweep_cut members source_id (cap_in k) k ep (edges_to M p k ep)))
    (all_pairs kinds eps (\<lambda>k ep. swept members target_id (cap_out k) k ep (edges_from M p k ep)))
    (all_pairs kinds eps (\<lambda>k ep. sweep_cut members target_id (cap_out k) k ep (edges_from M p k ep))) r'"
proof (induction kinds arbitrary: r)
  case (Cons k ks)
  have nil: "concat (map (\<lambda>ep. []) eps) = ([] :: 'a list)" for eps :: "string list" by (induction eps) auto
  show ?case
  proof (cases "cap_in k = 0 \<and> cap_out k = 0")
    case True
    with Cons.IH [of r] show ?thesis by (simp add: nil)
  next
    case False
    obtain r1 where r1: "sweep_endpoints p members k (cap_in k) (cap_out k) eps g r = Inr r1" "extended r
      (concat (map (\<lambda>ep. swept members source_id (cap_in k) k ep (edges_to M p k ep)) eps))
      (concat (map (\<lambda>ep. sweep_cut members source_id (cap_in k) k ep (edges_to M p k ep)) eps))
      (concat (map (\<lambda>ep. swept members target_id (cap_out k) k ep (edges_from M p k ep)) eps))
      (concat (map (\<lambda>ep. sweep_cut members target_id (cap_out k) k ep (edges_from M p k ep)) eps)) r1"
      using sweep_endpoints_run [OF g p] by blast
    from Cons.IH [of r1] r1 False show ?thesis by (auto simp: extended_def)
  qed
qed (simp add: extended_def)

end
