(* ===== verification/Graph_Properties.thy ===== *)
theory Graph_Properties
  imports Graph_Reads Wire
begin

text \<open>
  What the graph database promises: it stores the maps its calls describe, consistently in all its
  tables; its queries agree with each other and say when they left something out; learning events
  add up without wrapping around; purges remove exactly the stale generations.
\<close>

section \<open>Weights\<close>

definition weight_in :: "graph_maps \<Rightarrow> edge_id \<Rightarrow> nat" where
  "weight_in M x = (case edge_map M x of None \<Rightarrow> 0 | Some e \<Rightarrow> unat (gedge_weight e))"

definition stored_weight :: "graph_codecs \<Rightarrow> string \<Rightarrow> edge_kind \<Rightarrow> string \<Rightarrow> string \<Rightarrow> graph_store \<Rightarrow> nat" where
  "stored_weight G p k s t g = (case Option.bind (fmlookup (edge_rows g) (edge_key p k s t)) (from_slice (edge_bin G)) of
     None \<Rightarrow> 0 | Some e \<Rightarrow> unat (gedge_weight e))"

definition MAX_WEIGHT :: nat where
  "MAX_WEIGHT = 2 ^ 32 - 1"

text \<open>The sum of the increments of an edge in a list, in one direction and in both.\<close>

definition added :: "edge_kind \<Rightarrow> string \<Rightarrow> string \<Rightarrow> increment list \<Rightarrow> nat" where
  "added k s t is = sum_list (map (\<lambda>(l, a, b, d). if l = k \<and> a = s \<and> b = t then unat d else 0) is)"

definition added_between :: "edge_kind \<Rightarrow> string \<Rightarrow> string \<Rightarrow> increment list \<Rightarrow> nat" where
  "added_between k s t is = sum_list (map (\<lambda>(l, a, b, d). if l = k \<and> (a = s \<and> b = t \<or> a = t \<and> b = s) then unat d else 0) is)"

lemma stored_weight_represents:
  assumes "represents G M g" and "graph_codecs_ok G" and "key_ok p" "key_ok s" "key_ok t"
  shows "stored_weight G p k s t g = weight_in M (p, k, s, t)"
  using represents_rows(2) [OF assms(1,3,4,5), of k] assms(2)
  by (cases "edge_map M (p, k, s, t)") (simp_all add: stored_weight_def weight_in_def graph_codecs_ok_def codec_ok_def)

lemma unat_saturating_add32: "unat (saturating_add32 a b) = min MAX_WEIGHT (unat a + unat b)"
proof (cases "unat a + unat b < 2 ^ 32")
  case True
  then have "unat (a + b) = unat a + unat b" using unat_add_lem [of a b] by simp
  with True show ?thesis by (simp add: saturating_add32_def MAX_WEIGHT_def)
next
  case False
  then show ?thesis by (simp add: saturating_add32_def MAX_WEIGHT_def unsigned_minus_1_eq_mask mask_eq_exp_minus_1)
qed

lemma weight_le_max: "unat (w :: 32 word) \<le> MAX_WEIGHT"
proof -
  have "unat w < 2 ^ 32" using unsigned_less [of w] by simp
  then show ?thesis by (simp add: MAX_WEIGHT_def)
qed

lemma weight_incremented:
  "weight_in (add_weight now p ns l gen (k, s, t, d) M) x = (if x = (p, k, s, t) then min MAX_WEIGHT (weight_in M x + unat d) else weight_in M x)"
  by (auto simp: weight_in_def add_weight_def put_edge_def incremented_def unat_saturating_add32 weight_le_max min_absorb2 split: option.split)

lemma weight_increments:
  "weight_in (fold (add_weight now p ns l gen) is M) (p, k, s, t) = min MAX_WEIGHT (weight_in M (p, k, s, t) + added k s t is)"
proof (induction "is" arbitrary: M)
  case Nil
  show ?case by (simp add: added_def weight_in_def weight_le_max min_absorb2 split: option.split)
next
  case (Cons i "is")
  obtain l' a b d where i: "i = (l', a, b, d)" by (cases i)
  show ?case by (simp add: i Cons.IH weight_incremented added_def) (auto simp: min_def)
qed

lemma weight_nodes [simp]: "weight_in (fold (add_node p) ns M) x = weight_in M x"
  by (induction ns arbitrary: M) (simp_all add: weight_in_def add_node_def)

lemma added_Cons:
  "added k s t ((l, a, b, d) # is) = (if l = k \<and> a = s \<and> b = t then unat d else 0) + added k s t is"
  "added_between k s t ((l, a, b, d) # is) = (if l = k \<and> (a = s \<and> b = t \<or> a = t \<and> b = s) then unat d else 0) + added_between k s t is"
  by (simp_all add: added_def added_between_def)

lemma added_directed: "added k s t (directed is) = (if s = t then 0 else added_between k s t is)"
proof (induction "is" rule: directed.induct)
  case (2 l a b d ps)
  show ?case
  proof (cases "a = b")
    case True
    with 2(1) show ?thesis by (cases "s = t"; cases "b = s") (simp_all add: added_Cons)
  next
    case False
    with 2(2) show ?thesis
      by (cases "s = t"; cases "a = s \<and> b = t"; cases "a = t \<and> b = s") (simp_all add: added_Cons, metis+)
  qed
qed (simp add: added_def added_between_def)

section \<open>Sample data\<close>

definition kind_w :: "edge_kind wire" where
  "kind_w = map_w as_str_kind (\<lambda>s. the (parse_kind s)) string_w"

definition node_w :: "graph_node wire" where
  "node_w = map_w
     (\<lambda>n. (node_id n, node_type n, gnode_name n, gnode_namespace n, gnode_language n, file_path n, gnode_start_line n,
           gnode_end_line n, gnode_generation n, gnode_metadata n))
     (\<lambda>(i, ty, nm, ns, l, f, a, b, g, m). \<lparr> node_id = i, node_type = ty, gnode_name = nm, gnode_namespace = ns,
        gnode_language = l, file_path = f, gnode_start_line = a, gnode_end_line = b, gnode_generation = g, gnode_metadata = m \<rparr>)
     (pair_w string_w (pair_w string_w (pair_w string_w (pair_w string_w (pair_w string_w (pair_w string_w
       (pair_w word_w (pair_w word_w (pair_w u64_w (option_w string_w))))))))))"

definition edge_w :: "graph_edge wire" where
  "edge_w = map_w
     (\<lambda>e. (source_id e, target_id e, gedge_namespace e, gedge_language e, gedge_kind e, gedge_weight e, gedge_generation e,
           gedge_metadata e, gedge_updated_at_ms e))
     (\<lambda>(s, t, ns, l, k, w, g, m, u). \<lparr> source_id = s, target_id = t, gedge_namespace = ns, gedge_language = l,
        gedge_kind = k, gedge_weight = w, gedge_generation = g, gedge_metadata = m, gedge_updated_at_ms = u \<rparr>)
     (pair_w string_w (pair_w string_w (pair_w string_w (pair_w string_w (pair_w kind_w
       (pair_w word_w (pair_w u64_w (pair_w (option_w string_w) u64_w))))))))"

definition wire_graph :: graph_codecs where
  "wire_graph = \<lparr> node_bin = wire_codec node_w, edge_bin = wire_codec edge_w \<rparr>"

lemma wire_graph_ok [simp]: "graph_codecs_ok wire_graph"
proof -
  have "wire_ok kind_w" unfolding kind_w_def
    by (rule map_w_ok) (simp_all add: kind_names_roundtrip(1) [THEN iffD2, OF refl])
  then have "wire_ok edge_w" unfolding edge_w_def by (intro map_w_ok) simp_all
  moreover have "wire_ok node_w" unfolding node_w_def by (intro map_w_ok) simp_all
  ultimately show ?thesis by (simp add: graph_codecs_ok_def wire_graph_def)
qed

text \<open>Two learning events about \<open>a\<close> and \<open>b\<close>, a call edge, a stale edge and a purge.\<close>

definition call_edge :: "string \<Rightarrow> string \<Rightarrow> u64 \<Rightarrow> graph_edge" where
  "call_edge s t gen = \<lparr> source_id = s, target_id = t, gedge_namespace = NAMESPACE_MEMORY, gedge_language = ''rust'',
     gedge_kind = Calls, gedge_weight = 1, gedge_generation = gen, gedge_metadata = None, gedge_updated_at_ms = 5 \<rparr>"

definition sample_calls :: "graph_call list" where
  "sample_calls =
     [Learn 7 ''p'' ''n'' ''l'' 1 [] [(CoOccurrence, ''a'', ''b'', 3)],
      IncrementUndirected 8 ''p'' ''n'' ''l'' 1 [(CoOccurrence, ''b'', ''a'', - 2)],
      UpsertEdges ''p'' [call_edge ''a'' ''b'' 4, call_edge ''a'' ''c'' 4, call_edge ''c'' ''b'' 2],
      UpsertEdges ''p'' [call_edge ''a'' [] 4],
      PurgeBelow ''p'' 4]"

section \<open>Databases that calls have built\<close>

definition built :: "graph_codecs \<Rightarrow> graph_store \<Rightarrow> bool" where
  "built G g \<longleftrightarrow> graph_codecs_ok G \<and> (\<exists>cs. list_all graph_call_ok cs \<and> run_graph_calls G cs empty_graph = Some g)"

lemma built_represents: "built G g \<Longrightarrow> graph_codecs_ok G \<and> (\<exists>M. represents G M g)"
  unfolding built_def using run_graph_calls_represents [OF _ represents_empty, of G] by fastforce

lemma built_calls: "graph_codecs_ok G \<Longrightarrow> list_all graph_call_ok cs \<Longrightarrow> run_graph_calls G cs empty_graph = Some g \<Longrightarrow> built G g"
  by (auto simp: built_def)

text \<open>An edge is stored if it is read back under its own identity.\<close>

definition stored :: "graph_codecs \<Rightarrow> string \<Rightarrow> graph_store \<Rightarrow> graph_edge \<Rightarrow> bool" where
  "stored G p g e \<longleftrightarrow> get_edges_by_endpoints G p [(source_id e, gedge_kind e, target_id e)] g = Inr [e]"

lemma read_node:
  assumes "represents G M g" and "graph_codecs_ok G" and "key_ok p" "key_ok i"
  shows "get_node G p i g = Inr (node_map M (p, i))"
  using represents_rows(1) [OF assms(1,3,4)] assms(2) by (cases "node_map M (p, i)") (simp_all add: get_node_def graph_codecs_ok_def)

lemma read_edge:
  assumes "represents G M g" and "graph_codecs_ok G" and "key_ok p" "key_ok s" "key_ok t"
  shows "get_edges_by_endpoints G p [(s, k, t)] g = Inr (case edge_map M (p, k, s, t) of None \<Rightarrow> [] | Some e \<Rightarrow> [e])"
  using represents_rows(2) [OF assms(1,3,4,5), of k] assms(2)
  by (cases "edge_map M (p, k, s, t)") (simp_all add: get_edges_by_endpoints_def map_filter_simps graph_codecs_ok_def)

lemma stored_represents:
  assumes g: "represents G M g" and G: "graph_codecs_ok G" and p: "key_ok p"
  shows "stored G p g e \<longleftrightarrow> edge_map M (edge_id p e) = Some e"
proof
  assume e: "edge_map M (edge_id p e) = Some e"
  then have "edge_id p e \<in> edge_ids" using represents_dom(2) [OF g] by auto
  then have "key_ok (source_id e)" "key_ok (target_id e)" by (simp_all add: edge_ids_def edge_id_def)
  from read_edge [OF g G p this] e show "stored G p g e" by (simp add: stored_def edge_id_def)
next
  assume "stored G p g e"
  then obtain v where v: "fmlookup (edge_rows g) (edge_key p (gedge_kind e) (source_id e) (target_id e)) = Some v"
    "decode (edge_bin G) v = Inr e"
    by (cases "fmlookup (edge_rows g) (edge_key p (gedge_kind e) (source_id e) (target_id e))")
      (auto simp: stored_def get_edges_by_endpoints_def map_filter_simps split: sum.splits)
  with representsD(2) [OF g] obtain x y where x: "edge_map M x = Some y" "v = to_vec (edge_bin G) y"
    "edge_key p (gedge_kind e) (source_id e) (target_id e) = row_key x" unfolding image_of_def by metis
  with v(2) G have y: "y = e" by (simp add: graph_codecs_ok_def codec_ok_def)
  obtain q where q: "x = edge_id q e" "key_ok q"
    using representsD(5) [OF g x(1)] represents_dom(2) [OF g] x(1) y by (cases x) (auto simp: fits_id_def edge_id_def edge_ids_def)
  with x(3) p have "p = q" by (simp add: edge_id_def row_key_def edge_key_def sep_append_inj)
  with q x(1) y show "edge_map M (edge_id p e) = Some e" by simp
qed

section \<open>The database is a map\<close>

text \<open>
  C16. Whatever allowed calls are made, refused ones included, every call returns, and the database
  then reads as the maps that the same updates give: the node and edge rows and both adjacency
  tables hold exactly the nodes and edges of the maps, each under its key.
\<close>

theorem graph_refines_maps:
  assumes "graph_codecs_ok G" and "list_all graph_call_ok cs"
  shows "\<exists>g. run_graph_calls G cs empty_graph = Some g \<and> represents G (fold graph_spec cs no_maps) g
    \<and> (\<forall>p i. key_ok p \<and> key_ok i \<longrightarrow> get_node G p i g = Inr (node_map (fold graph_spec cs no_maps) (p, i)))
    \<and> (\<forall>p e. key_ok p \<longrightarrow> (stored G p g e \<longleftrightarrow> edge_map (fold graph_spec cs no_maps) (edge_id p e) = Some e))"
  using run_graph_calls_represents [OF assms(1) represents_empty assms(2)] read_node [OF _ assms(1)]
    stored_represents [OF _ assms(1)] by blast

section \<open>Queries\<close>

text \<open>
  C17. The two ways to read the edges of one kind that leave a node, over the adjacency table and over
  the edge rows, give the same edges in the same order under every limit; and an edge that leaves
  a node is found, with the same weight, among the edges that enter its target, unless a limit was
  reached.
\<close>

theorem neighbors_agree:
  assumes "built G g" and "key_ok p" "key_ok s" "key_ok t"
  shows "(\<exists>es cut. outgoing_edges_of_kind G p k s limit g = Inr (es, cut)
      \<and> neighbors p k s limit g = Inr (map (\<lambda>e. (target_id e, gedge_weight e)) es))
    \<and> (\<exists>xs ys. neighbors p k s n g = Inr xs \<and> find_incoming_edges p (Some k) t m g = Inr ys
      \<and> (length xs < n \<and> length ys < m \<longrightarrow> ((t, w) \<in> set xs \<longleftrightarrow> (s, w) \<in> set ys)))"
proof -
  obtain M where G: "graph_codecs_ok G" and g: "represents G M g" using built_represents [OF assms(1)] by blast
  let ?xs = "map (\<lambda>e. (target_id e, gedge_weight e)) (by_weight gedge_weight (edges_from M p k s))"
  let ?ys = "map (\<lambda>e. (source_id e, gedge_weight e)) (by_weight gedge_weight (edges_to M p k t))"
  have xs: "neighbors p k s n g = Inr (take n ?xs)" by (simp add: neighbors_run [OF g assms(2)] take_map)
  have ys: "find_incoming_edges p (Some k) t m g = Inr (take m ?ys)"
    by (simp add: find_incoming_edges_def find_incoming_edges_with_kind_def incoming_run [OF g assms(2)] take_map comp_def)
  have "(t, w) \<in> set ?xs \<longleftrightarrow> (s, w) \<in> set ?ys"
    unfolding set_map set_by_weight set_edges_at [OF g assms(2)] by auto
  then have "length (take n ?xs) < n \<and> length (take m ?ys) < m \<longrightarrow> ((t, w) \<in> set (take n ?xs) \<longleftrightarrow> (s, w) \<in> set (take m ?ys))"
    by (simp add: min_def split: if_splits)
  with xs ys neighbors_run [OF g assms(2)] outgoing_run [OF g G assms(2,3)] show ?thesis by auto
qed

text \<open>
  C18. The edges that touch a node, with a budget per direction: only structural edges of the node are
  returned, and all of them unless the coverage flag says that some were left out.
\<close>

theorem touching_edges_complete:
  assumes "built G g" and "key_ok p" "key_ok node"
  shows "\<exists>es cut. edges_touching_with_coverage G p node limit g = Inr (es, cut) \<and> length es \<le> 2 * limit
    \<and> (cut \<longrightarrow> limit \<le> length es)
    \<and> set es \<subseteq> {e. stored G p g e \<and> gedge_kind e \<notin> {TemporalCoupling, CoOccurrence} \<and> (source_id e = node \<or> target_id e = node)}
    \<and> (\<not> cut \<longrightarrow> set es = {e. stored G p g e \<and> gedge_kind e \<notin> {TemporalCoupling, CoOccurrence} \<and> (source_id e = node \<or> target_id e = node)})"
proof -
  obtain M where G: "graph_codecs_ok G" and g: "represents G M g" using built_represents [OF assms(1)] by blast
  have kinds: "set structural_kinds = {k. k \<noteq> TemporalCoupling \<and> k \<noteq> CoOccurrence}"
    using ALL_KINDS_complete by (auto simp: structural_kinds_def)
  let ?o = "touching_out M p node" and ?i = "touching_in M p node"
  have all: "set ?o \<union> set ?i = {e. stored G p g e \<and> gedge_kind e \<notin> {TemporalCoupling, CoOccurrence} \<and> (source_id e = node \<or> target_id e = node)}"
    unfolding set_touching [OF g assms(2)] kinds stored_represents [OF g G assms(2)] by auto
  have "set (take limit ?o @ take limit ?i) \<subseteq> set ?o \<union> set ?i" by (auto dest: in_set_takeD)
  then show ?thesis
    unfolding all [symmetric] by (auto simp: coverage_run [OF g G assms(2,3)] min_def)
qed

text \<open>
  C19. The one-hop sweep of a component: per kind and endpoint it reports neighbours outside the
  component only, each with the weight of a stored edge, and, where the kind has a budget and the
  endpoint is not reported as truncated, all of them.
\<close>

theorem component_sweep_complete:
  assumes "built G g" and "key_ok p" and "ep \<in> set endpoints"
  shows "\<exists>r. component_sweep p endpoints members cap_in cap_out g = Inr r
    \<and> {(n, w). (n, k, w, ep) \<in> set (incoming r)} \<subseteq> {(n, w). n \<notin> members \<union> set endpoints
        \<and> (\<exists>e. stored G p g e \<and> gedge_kind e = k \<and> source_id e = n \<and> target_id e = ep \<and> gedge_weight e = w)}
    \<and> {(n, w). (n, k, w, ep) \<in> set (outgoing r)} \<subseteq> {(n, w). n \<notin> members \<union> set endpoints
        \<and> (\<exists>e. stored G p g e \<and> gedge_kind e = k \<and> source_id e = ep \<and> target_id e = n \<and> gedge_weight e = w)}
    \<and> (0 < cap_in k \<and> (k, ep) \<notin> set (truncated_in r) \<longrightarrow>
        {(n, w). (n, k, w, ep) \<in> set (incoming r)} = {(n, w). n \<notin> members \<union> set endpoints
          \<and> (\<exists>e. stored G p g e \<and> gedge_kind e = k \<and> source_id e = n \<and> target_id e = ep \<and> gedge_weight e = w)})
    \<and> (0 < cap_out k \<and> (k, ep) \<notin> set (truncated_out r) \<longrightarrow>
        {(n, w). (n, k, w, ep) \<in> set (outgoing r)} = {(n, w). n \<notin> members \<union> set endpoints
          \<and> (\<exists>e. stored G p g e \<and> gedge_kind e = k \<and> source_id e = ep \<and> target_id e = n \<and> gedge_weight e = w)})"
proof -
  obtain M where G: "graph_codecs_ok G" and g: "represents G M g" using built_represents [OF assms(1)] by blast
  define inside where "inside = members \<union> set endpoints"
  have eps: "set (remdups_adj (sort endpoints)) = set endpoints" by simp
  have swept: "{(n, w). (n, k, w, ep) \<in> set (swept inside f cap k ep es)} \<subseteq> {(n, w). n \<notin> inside \<and> (\<exists>e \<in> set es. f e = n \<and> gedge_weight e = w)}"
    "(k, ep) \<notin> set (sweep_cut inside f cap k ep es) \<Longrightarrow> 0 < cap \<Longrightarrow>
      {(n, w). (n, k, w, ep) \<in> set (swept inside f cap k ep es)} = {(n, w). n \<notin> inside \<and> (\<exists>e \<in> set es. f e = n \<and> gedge_weight e = w)}" for f cap es
    by (auto simp: swept_def sweep_cut_def dest!: in_set_takeD split: if_splits)
  have at: "(n, k, w, ep) \<in> set (all_pairs ALL_KINDS eps (\<lambda>k ep. swept inside f (cap k) k ep (es k ep)))
      \<longleftrightarrow> ep \<in> set eps \<and> (n, k, w, ep) \<in> set (swept inside f (cap k) k ep (es k ep))" for f cap es n w eps
    using ALL_KINDS_complete by (auto simp: swept_def)
  have cut: "(k, ep) \<in> set (all_pairs ALL_KINDS eps (\<lambda>k ep. sweep_cut inside f (cap k) k ep (es k ep)))
      \<longleftrightarrow> ep \<in> set eps \<and> (k, ep) \<in> set (sweep_cut inside f (cap k) k ep (es k ep))" for f cap es eps
    using ALL_KINDS_complete by (auto simp: sweep_cut_def)
  obtain r where r: "component_sweep p endpoints members cap_in cap_out g = Inr r" "extended
      \<lparr> incoming = [], outgoing = [], truncated_in = [], truncated_out = [], internal_skipped = 0 \<rparr>
      (all_pairs ALL_KINDS (remdups_adj (sort endpoints)) (\<lambda>k ep. swept inside source_id (cap_in k) k ep (edges_to M p k ep)))
      (all_pairs ALL_KINDS (remdups_adj (sort endpoints)) (\<lambda>k ep. sweep_cut inside source_id (cap_in k) k ep (edges_to M p k ep)))
      (all_pairs ALL_KINDS (remdups_adj (sort endpoints)) (\<lambda>k ep. swept inside target_id (cap_out k) k ep (edges_from M p k ep)))
      (all_pairs ALL_KINDS (remdups_adj (sort endpoints)) (\<lambda>k ep. sweep_cut inside target_id (cap_out k) k ep (edges_from M p k ep))) r"
    using sweep_kinds_run [OF g assms(2), of inside cap_in cap_out ALL_KINDS "remdups_adj (sort endpoints)"]
    unfolding component_sweep_def Let_def eps inside_def by blast
  have sets: "{(n, w). n \<notin> inside \<and> (\<exists>e \<in> set (edges_to M p k ep). source_id e = n \<and> gedge_weight e = w)}
      = {(n, w). n \<notin> inside \<and> (\<exists>e. stored G p g e \<and> gedge_kind e = k \<and> source_id e = n \<and> target_id e = ep \<and> gedge_weight e = w)}"
    "{(n, w). n \<notin> inside \<and> (\<exists>e \<in> set (edges_from M p k ep). target_id e = n \<and> gedge_weight e = w)}
      = {(n, w). n \<notin> inside \<and> (\<exists>e. stored G p g e \<and> gedge_kind e = k \<and> source_id e = ep \<and> target_id e = n \<and> gedge_weight e = w)}"
    unfolding set_edges_at [OF g assms(2)] stored_represents [OF g G assms(2)] by auto
  have res: "incoming r = all_pairs ALL_KINDS (remdups_adj (sort endpoints)) (\<lambda>k ep. swept inside source_id (cap_in k) k ep (edges_to M p k ep))"
    "truncated_in r = all_pairs ALL_KINDS (remdups_adj (sort endpoints)) (\<lambda>k ep. sweep_cut inside source_id (cap_in k) k ep (edges_to M p k ep))"
    "outgoing r = all_pairs ALL_KINDS (remdups_adj (sort endpoints)) (\<lambda>k ep. swept inside target_id (cap_out k) k ep (edges_from M p k ep))"
    "truncated_out r = all_pairs ALL_KINDS (remdups_adj (sort endpoints)) (\<lambda>k ep. sweep_cut inside target_id (cap_out k) k ep (edges_from M p k ep))"
    using r(2) by (simp_all add: extended_def)
  show ?thesis
    unfolding inside_def [symmetric] sets [symmetric]
    by (rule exI [of _ r], simp only: r(1) res at cut eps assms(3) simp_thms, intro conjI impI; (elim conjE)?)
      (use swept in blast)+
qed

section \<open>Learning\<close>

text \<open>
  C20. A learning event adds its increments to both directions of every pair it names, saturating at
  the greatest weight; it leaves every other weight of the project alone, and a weight that was the same
  in both directions stays so.
\<close>

theorem learning_adds_weights:
  assumes "built G g" and "key_ok p" "key_ok a" "key_ok b"
    and "upsert_nodes_and_increment_undirected_edges G now p namespace language gen nodes pairs g = Inr ((), g')"
  shows "stored_weight G p k a b g' =
      (if a = b then stored_weight G p k a b g else min MAX_WEIGHT (stored_weight G p k a b g + added_between k a b pairs))
    \<and> (stored_weight G p k a b g = stored_weight G p k b a g \<longrightarrow> stored_weight G p k a b g' = stored_weight G p k b a g')"
proof -
  obtain M where G: "graph_codecs_ok G" and g: "represents G M g" using built_represents [OF assms(1)] by blast
  let ?M = "graph_spec (Learn now p namespace language gen nodes pairs) M"
  have g': "represents G ?M g'"
    using run_learn [OF G g, of now p namespace language gen nodes pairs] assms(5) by simp
  have keep: "weight_in M x = min MAX_WEIGHT (weight_in M x)" for x
    by (simp add: weight_in_def weight_le_max min_absorb2 split: option.split)
  have "nodes = [] \<and> pairs = [] \<or> nodes_ok nodes \<and> increments_ok pairs"
    using assms(5) by (auto simp: upsert_nodes_and_increment_undirected_edges_def guard_key guard_checks split: if_splits)
  then have "?M = fold (add_weight now p namespace language gen) (directed pairs) (fold (add_node p) nodes M)"
    using assms(2) by auto
  then have w: "weight_in ?M (p, k, s, t) = min MAX_WEIGHT (weight_in M (p, k, s, t) + (if s = t then 0 else added_between k s t pairs))" for s t
    by (simp only: weight_increments weight_nodes added_directed)
  have sym: "added_between k b a pairs = added_between k a b pairs"
    unfolding added_between_def by (intro arg_cong [where f = sum_list] map_cong) auto
  note sw = stored_weight_represents [OF g G assms(2)] stored_weight_represents [OF g' G assms(2)]
  show ?thesis
    unfolding sw(1) [OF assms(3,4)] sw(2) [OF assms(3,4)] sw(1) [OF assms(4,3)] sw(2) [OF assms(4,3)] w
    using keep [of "(p, k, a, b)"] by (auto simp: sym)
qed

section \<open>Purges and deletions\<close>

lemma stale_before_iff: "stale_before baseline namespace gen \<longleftrightarrow> namespace = NAMESPACE_MEMORY \<and> gen < baseline"
  by (auto simp: stale_before_def get_policy_def namespace_names)

text \<open>The stale entries of the maps, counted by what is read.\<close>

lemma card_stale_nodes:
  assumes g: "represents G M g" and G: "graph_codecs_ok G" and p: "key_ok p"
  shows "card (stale_nodes stale p M)
    = card {i. key_ok i \<and> (\<exists>n. get_node G p i g = Inr (Some n) \<and> stale (gnode_namespace n) (gnode_generation n))}"
    (is "_ = card ?R")
proof -
  have "stale_nodes stale p M = Pair p ` ?R"
  proof (intro set_eqI iffI)
    fix x assume "x \<in> stale_nodes stale p M"
    then obtain i n where x: "x = (p, i)" "node_map M x = Some n" "stale (gnode_namespace n) (gnode_generation n)"
      by (cases x) (auto simp: stale_nodes_def)
    then have "key_ok i" using represents_dom(1) [OF g] by (auto simp: node_ids_def)
    with x read_node [OF g G p this] show "x \<in> Pair p ` ?R" by simp
  next
    fix x assume "x \<in> Pair p ` ?R"
    then obtain i n where "x = (p, i)" "key_ok i" "get_node G p i g = Inr (Some n)" "stale (gnode_namespace n) (gnode_generation n)" by blast
    then have "x = (p, i)" "node_map M (p, i) = Some n" "stale (gnode_namespace n) (gnode_generation n)"
      using read_node [OF g G p, of i] by simp_all
    then show "x \<in> stale_nodes stale p M" by (simp add: stale_nodes_def)
  qed
  then show ?thesis by (simp add: card_image inj_on_def)
qed

lemma card_stale_edges:
  assumes g: "represents G M g" and G: "graph_codecs_ok G" and p: "key_ok p"
  shows "card (stale_edges stale p M) = card {e. stored G p g e \<and> stale (gedge_namespace e) (gedge_generation e)}"
    (is "_ = card ?R")
proof -
  note st = stored_represents [OF g G p]
  have "stale_edges stale p M = edge_id p ` ?R"
  proof (intro set_eqI iffI)
    fix x assume "x \<in> stale_edges stale p M"
    then obtain e where e: "fst x = p" "edge_map M x = Some e" "stale (gedge_namespace e) (gedge_generation e)"
      by (auto simp: stale_edges_def)
    then have "x = edge_id p e" using representsD(5) [OF g e(2)] by (cases x) (auto simp: fits_id_def edge_id_def)
    with e st [of e] show "x \<in> edge_id p ` ?R" by simp
  next
    fix x assume "x \<in> edge_id p ` ?R"
    then obtain e where "x = edge_id p e" "stored G p g e" "stale (gedge_namespace e) (gedge_generation e)" by blast
    with st [of e] show "x \<in> stale_edges stale p M" by (simp add: stale_edges_def edge_id_def)
  qed
  moreover have "inj_on (edge_id p) ?R"
  proof (rule inj_onI)
    fix d e assume "d \<in> ?R" "e \<in> ?R" "edge_id p d = edge_id p e"
    with st [of d] st [of e] show "d = e" by simp
  qed
  ultimately show ?thesis by (simp only: card_image)
qed

lemma built_step:
  assumes "built G g" and "graph_call_ok c" and "run_graph G c g = Some g'"
  shows "built G g'"
proof -
  obtain cs where "list_all graph_call_ok cs" "run_graph_calls G cs empty_graph = Some g" using assms(1) by (auto simp: built_def)
  with assms(2,3) have "list_all graph_call_ok (cs @ [c])" "run_graph_calls G (cs @ [c]) empty_graph = Some g'"
    by (simp_all add: run_graph_calls_def)
  with assms(1) show ?thesis unfolding built_def by blast
qed

text \<open>
  C21. A purge below a generation removes exactly the project's nodes and edges of earlier generations
  in the one namespace that keeps only the latest, reports how many there were, and leaves all other
  nodes and edges, those of the persistent namespaces and of other projects included, as they were.
\<close>

theorem purge_removes_exactly_stale:
  assumes "built G g" and "key_ok p"
  shows "\<exists>g'. purge_generations_below G p baseline g =
      (Inr (card {i. key_ok i \<and> (\<exists>n. get_node G p i g = Inr (Some n) \<and> gnode_namespace n = NAMESPACE_MEMORY \<and> gnode_generation n < baseline)},
            card {e. stored G p g e \<and> gedge_namespace e = NAMESPACE_MEMORY \<and> gedge_generation e < baseline}), g')
    \<and> built G g'
    \<and> (\<forall>q i n. key_ok q \<and> key_ok i \<longrightarrow> (get_node G q i g' = Inr (Some n) \<longleftrightarrow> get_node G q i g = Inr (Some n)
        \<and> \<not> (q = p \<and> gnode_namespace n = NAMESPACE_MEMORY \<and> gnode_generation n < baseline)))
    \<and> (\<forall>q e. key_ok q \<longrightarrow> (stored G q g' e \<longleftrightarrow> stored G q g e
        \<and> \<not> (q = p \<and> gedge_namespace e = NAMESPACE_MEMORY \<and> gedge_generation e < baseline)))"
proof -
  obtain M where G: "graph_codecs_ok G" and g: "represents G M g" using built_represents [OF assms(1)] by blast
  let ?stale = "stale_before baseline"
  obtain g' where g': "purge_where G p ?stale g = (Inr (card (stale_nodes ?stale p M), card (stale_edges ?stale p M)), g')"
    "represents G (purged ?stale p M) g'" using purge_where_run [OF g G assms(2)] by blast
  have b: "built G g'"
    by (rule built_step [OF assms(1), where c = "PurgeBelow p baseline"]) (use assms(2) g'(1) in \<open>simp_all add: purge_generations_below_def\<close>)
  have n: "get_node G q i g' = Inr (Some n) \<longleftrightarrow> get_node G q i g = Inr (Some n) \<and> \<not> (q = p \<and> ?stale (gnode_namespace n) (gnode_generation n))"
    if "key_ok q" "key_ok i" for q i n
    by (auto simp: read_node [OF g'(2) G that] read_node [OF g G that] purged_def stale_nodes_def restrict_map_def)
  have e: "stored G q g' e \<longleftrightarrow> stored G q g e \<and> \<not> (q = p \<and> ?stale (gedge_namespace e) (gedge_generation e))" if "key_ok q" for q e
    by (auto simp: stored_represents [OF g'(2) G that] stored_represents [OF g G that] purged_def stale_edges_def restrict_map_def edge_id_def)
  show ?thesis
  proof (intro exI [of _ g'] conjI allI impI)
    show "purge_generations_below G p baseline g =
      (Inr (card {i. key_ok i \<and> (\<exists>n. get_node G p i g = Inr (Some n) \<and> gnode_namespace n = NAMESPACE_MEMORY \<and> gnode_generation n < baseline)},
            card {e. stored G p g e \<and> gedge_namespace e = NAMESPACE_MEMORY \<and> gedge_generation e < baseline}), g')"
      using g'(1) by (simp only: card_stale_nodes [OF g G assms(2)] card_stale_edges [OF g G assms(2)] purge_generations_below_def stale_before_iff)
  qed (simp_all only: b n e stale_before_iff)
qed

text \<open>The rows under the prefix of a kind are the stored edges of the kind, each in one row.\<close>

lemma stored_kind_rows:
  assumes g: "represents G M g" and G: "graph_codecs_ok G" and p: "key_ok p"
  shows "(key, v) \<in> set (prefix_scan (kind_prefix p k) (edge_rows g)) \<longleftrightarrow>
    (\<exists>e. stored G p g e \<and> gedge_kind e = k \<and> key = row_key (edge_id p e) \<and> v = to_vec (edge_bin G) e)"
proof
  assume "(key, v) \<in> set (prefix_scan (kind_prefix p k) (edge_rows g))"
  then have r: "fmlookup (edge_rows g) key = Some v" "prefix (kind_prefix p k) key" by (simp_all add: set_prefix_scan)
  with representsD(2) [OF g] obtain x e where x: "edge_map M x = Some e" "key = row_key x" "v = to_vec (edge_bin G) e"
    unfolding image_of_def by metis
  then have "x \<in> edge_ids" using represents_dom(2) [OF g] by auto
  with r(2) x(2) have "fst x = p" "fst (snd x) = k" using kind_prefix_keys(1) [OF p] by auto
  with representsD(5) [OF g x(1)] have "x = edge_id p e" "gedge_kind e = k" by (cases x; auto simp: fits_id_def edge_id_def)+
  with x stored_represents [OF g G p, of e]
  show "\<exists>e. stored G p g e \<and> gedge_kind e = k \<and> key = row_key (edge_id p e) \<and> v = to_vec (edge_bin G) e" by blast
next
  assume "\<exists>e. stored G p g e \<and> gedge_kind e = k \<and> key = row_key (edge_id p e) \<and> v = to_vec (edge_bin G) e"
  then obtain e where e: "edge_map M (edge_id p e) = Some e" "gedge_kind e = k" "key = row_key (edge_id p e)"
    "v = to_vec (edge_bin G) e" using stored_represents [OF g G p] by blast
  then have "edge_id p e \<in> edge_ids" using represents_dom(2) [OF g] by auto
  with e kind_prefix_keys(1) [OF p this, of k] image_of_lookup [OF representsD(2) [OF g] this]
  show "(key, v) \<in> set (prefix_scan (kind_prefix p k) (edge_rows g))" by (simp add: set_prefix_scan edge_id_def)
qed

lemma card_kind_edges:
  assumes g: "represents G M g" and G: "graph_codecs_ok G" and p: "key_ok p"
  shows "length (prefix_scan (kind_prefix p k) (edge_rows g)) = card {e. stored G p g e \<and> gedge_kind e = k}"
    (is "length ?scan = card ?R")
proof -
  let ?row = "\<lambda>e. (row_key (edge_id p e), to_vec (edge_bin G) e)"
  have "codec_ok (edge_bin G)" using G by (simp add: graph_codecs_ok_def)
  then have "inj_on ?row ?R" by (intro inj_onI) (metis codec_ok_def option.inject prod.inject)
  moreover have "set ?scan = ?row ` ?R"
  proof (intro set_eqI iffI)
    fix r assume "r \<in> set ?scan"
    then obtain e where "stored G p g e" "gedge_kind e = k" "r = ?row e"
      using stored_kind_rows [OF g G p, of "fst r" "snd r" k] by (auto simp: prod_eq_iff)
    then show "r \<in> ?row ` ?R" by blast
  next
    fix r assume "r \<in> ?row ` ?R"
    then show "r \<in> set ?scan" using stored_kind_rows [OF g G p] by auto
  qed
  moreover have "distinct ?scan"
    using distinct_prefix_scan [of "kind_prefix p k" "edge_rows g"] by (simp add: distinct_map)
  ultimately show ?thesis using distinct_card [of ?scan] card_image [of ?row ?R] by simp
qed

text \<open>
  C22. The batched deletion of the edges of a kind returns, afterwards exactly the project's
  edges of that kind are gone, and the number that it reports is the number of those edges.
\<close>

theorem kind_deletion_returns:
  assumes "built G g" and "key_ok p"
  shows "\<exists>g'. delete_edges_of_kind p kind g = Some (card {e. stored G p g e \<and> gedge_kind e = kind}, g') \<and> built G g'
    \<and> (\<forall>q e. key_ok q \<longrightarrow> (stored G q g' e \<longleftrightarrow> stored G q g e \<and> \<not> (q = p \<and> gedge_kind e = kind)))
    \<and> (\<forall>q i. key_ok q \<and> key_ok i \<longrightarrow> get_node G q i g' = get_node G q i g)"
proof -
  obtain M where G: "graph_codecs_ok G" and g: "represents G M g" using built_represents [OF assms(1)] by blast
  obtain g' where g': "delete_edges_of_kind p kind g = Some (card {e. stored G p g e \<and> gedge_kind e = kind}, g')"
    "represents G (drop_edges_of (\<lambda>x. fst x = p \<and> fst (snd x) = kind) M) g'"
    using delete_edges_of_kind_run [OF g assms(2)] card_kind_edges [OF g G assms(2)] by auto
  have "built G g'"
    by (rule built_step [OF assms(1), where c = "DeleteKind p kind"]) (use assms(2) g'(1) in simp_all)
  moreover have "stored G q g' e \<longleftrightarrow> stored G q g e \<and> \<not> (q = p \<and> gedge_kind e = kind)" if "key_ok q" for q e
    by (auto simp: stored_represents [OF g'(2) G that] stored_represents [OF g G that] drop_edges_of_def restrict_map_def edge_id_def)
  moreover have "get_node G q i g' = get_node G q i g" if "key_ok q" "key_ok i" for q i
    by (simp add: read_node [OF g'(2) G that] read_node [OF g G that] drop_edges_of_def)
  ultimately show ?thesis using g'(1) by blast
qed

section \<open>The properties on the sample\<close>

abbreviation "G0 \<equiv> wire_graph"

lemma sample_keys [simp]: "key_ok ''p''" "key_ok ''a''" "key_ok ''b''" "key_ok ''c''" "\<not> key_ok []"
  by (simp_all add: key_ok_def)

lemma sample_calls_ok: "list_all graph_call_ok sample_calls"
  by (simp add: sample_calls_def)

text \<open>After the calls: the weight 3 plus the saturating increment, and the two fresh call edges.\<close>

lemma sample_edges_stored:
  "edge_map (fold graph_spec sample_calls no_maps) (''p'', Calls, ''a'', ''b'') = Some (call_edge ''a'' ''b'' 4)"
  "edge_map (fold graph_spec sample_calls no_maps) (''p'', Calls, ''c'', ''b'') = None"
  "map_option gedge_weight (edge_map (fold graph_spec sample_calls no_maps) (''p'', CoOccurrence, ''b'', ''a'')) = Some (- 1)"
proof -
  define M where "M = graph_spec (UpsertEdges ''p'' [call_edge ''a'' [] 4])
      (graph_spec (UpsertEdges ''p'' [call_edge ''a'' ''b'' 4, call_edge ''a'' ''c'' 4, call_edge ''c'' ''b'' 2])
      (graph_spec (IncrementUndirected 8 ''p'' ''n'' ''l'' 1 [(CoOccurrence, ''b'', ''a'', - 2)])
      (graph_spec (Learn 7 ''p'' ''n'' ''l'' 1 [] [(CoOccurrence, ''a'', ''b'', 3)]) no_maps)))"
  have M: "edge_map M (''p'', Calls, ''a'', ''b'') = Some (call_edge ''a'' ''b'' 4)"
    "edge_map M (''p'', Calls, ''c'', ''b'') = Some (call_edge ''c'' ''b'' 2)"
    "\<exists>e. edge_map M (''p'', CoOccurrence, ''b'', ''a'') = Some e \<and> gedge_namespace e = ''n'' \<and> gedge_weight e = - 1"
    by (simp_all add: M_def edges_ok_def edge_ok_def increments_ok_def increment_ok_def add_edge_def put_edge_def edge_id_def
        add_weight_def incremented_def saturating_add32_def no_maps_def call_edge_def)
  have run: "fold graph_spec sample_calls no_maps = purged (stale_before 4) ''p'' M"
    by (simp only: sample_calls_def fold_simps graph_spec.simps(13) M_def)
  show "edge_map (fold graph_spec sample_calls no_maps) (''p'', Calls, ''a'', ''b'') = Some (call_edge ''a'' ''b'' 4)"
    "edge_map (fold graph_spec sample_calls no_maps) (''p'', Calls, ''c'', ''b'') = None"
    "map_option gedge_weight (edge_map (fold graph_spec sample_calls no_maps) (''p'', CoOccurrence, ''b'', ''a'')) = Some (- 1)"
    unfolding run using M
    by (auto simp: purged_def stale_edges_def restrict_map_def stale_before_iff call_edge_def NAMESPACE_MEMORY_def)
qed

theorem graph_refines_maps_witness:
  "\<exists>g. run_graph_calls G0 sample_calls empty_graph = Some g
    \<and> stored G0 ''p'' g (call_edge ''a'' ''b'' 4) \<and> \<not> stored G0 ''p'' g (call_edge ''c'' ''b'' 2)"
proof -
  have ids: "edge_id ''p'' (call_edge ''a'' ''b'' 4) = (''p'', Calls, ''a'', ''b'')"
    "edge_id ''p'' (call_edge ''c'' ''b'' 2) = (''p'', Calls, ''c'', ''b'')" by (simp_all add: edge_id_def call_edge_def)
  obtain g where g: "run_graph_calls G0 sample_calls empty_graph = Some g"
    "\<forall>p e. key_ok p \<longrightarrow> (stored G0 p g e \<longleftrightarrow> edge_map (fold graph_spec sample_calls no_maps) (edge_id p e) = Some e)"
    using graph_refines_maps [OF wire_graph_ok sample_calls_ok] by blast
  have "stored G0 ''p'' g e \<longleftrightarrow> edge_map (fold graph_spec sample_calls no_maps) (edge_id ''p'' e) = Some e" for e
    using g(2) by simp
  with g(1) show ?thesis using sample_edges_stored(1,2) by (auto simp: ids)
qed

lemma sample_built: "\<exists>g. built G0 g \<and> represents G0 (fold graph_spec sample_calls no_maps) g"
  using run_graph_calls_represents [OF wire_graph_ok represents_empty sample_calls_ok] built_calls [OF wire_graph_ok sample_calls_ok] by blast

lemma sample_edge_stored: "represents G0 (fold graph_spec sample_calls no_maps) g \<Longrightarrow> stored G0 ''p'' g (call_edge ''a'' ''b'' 4)"
  using stored_represents [of G0 _ g "''p''"] sample_edges_stored(1) by (simp add: edge_id_def call_edge_def)

theorem neighbors_agree_witness:
  "\<exists>g xs ys. built G0 g \<and> neighbors ''p'' Calls ''a'' 9 g = Inr xs \<and> find_incoming_edges ''p'' (Some Calls) ''b'' 9 g = Inr ys
    \<and> ((''b'', 1) \<in> set xs \<or> 9 \<le> length xs \<or> 9 \<le> length ys \<or> (''a'', 1) \<notin> set ys)"
proof -
  obtain g where g: "built G0 g" using sample_built by blast
  from neighbors_agree [OF g sample_keys(1,2,3), where k = Calls and n = 9 and m = 9 and w = 1 and limit = 9]
  obtain xs ys where "neighbors ''p'' Calls ''a'' 9 g = Inr xs" "find_incoming_edges ''p'' (Some Calls) ''b'' 9 g = Inr ys"
    "length xs < 9 \<and> length ys < 9 \<longrightarrow> ((''b'', 1) \<in> set xs \<longleftrightarrow> (''a'', 1) \<in> set ys)" by blast
  with g show ?thesis by (intro exI [of _ g] exI [of _ xs] exI [of _ ys]) auto
qed

theorem touching_edges_complete_witness:
  "\<exists>g es cut. built G0 g \<and> edges_touching_with_coverage G0 ''p'' ''b'' 9 g = Inr (es, cut)
    \<and> (cut \<or> call_edge ''a'' ''b'' 4 \<in> set es)"
proof -
  obtain g where g: "built G0 g" "represents G0 (fold graph_spec sample_calls no_maps) g" using sample_built by blast
  have e: "stored G0 ''p'' g (call_edge ''a'' ''b'' 4)" by (rule sample_edge_stored [OF g(2)])
  from touching_edges_complete [OF g(1) sample_keys(1,3), of 9] obtain es cut where
    es: "edges_touching_with_coverage G0 ''p'' ''b'' 9 g = Inr (es, cut)"
    "\<not> cut \<longrightarrow> set es = {e. stored G0 ''p'' g e \<and> gedge_kind e \<notin> {TemporalCoupling, CoOccurrence} \<and> (source_id e = ''b'' \<or> target_id e = ''b'')}"
    by blast
  with e have "cut \<or> call_edge ''a'' ''b'' 4 \<in> set es" by (cases cut) (simp_all add: call_edge_def)
  with es(1) g(1) show ?thesis by blast
qed

theorem component_sweep_complete_witness:
  "\<exists>g r. built G0 g \<and> component_sweep ''p'' [''b''] {} (\<lambda>_. 3) (\<lambda>_. 0) g = Inr r
    \<and> ((''a'', Calls, 1, ''b'') \<in> set (incoming r) \<or> (Calls, ''b'') \<in> set (truncated_in r))"
proof -
  obtain g where g: "built G0 g" "represents G0 (fold graph_spec sample_calls no_maps) g" using sample_built by blast
  have e: "stored G0 ''p'' g (call_edge ''a'' ''b'' 4)" by (rule sample_edge_stored [OF g(2)])
  have "''b'' \<in> set [''b'']" by simp
  from component_sweep_complete [OF g(1) sample_keys(1) this, where k = Calls and members = "{}" and cap_in = "\<lambda>_. 3" and cap_out = "\<lambda>_. 0"]
  obtain r where r: "component_sweep ''p'' [''b''] {} (\<lambda>_. 3) (\<lambda>_. 0) g = Inr r"
    "0 < (3::nat) \<and> (Calls, ''b'') \<notin> set (truncated_in r) \<longrightarrow> {(n, w). (n, Calls, w, ''b'') \<in> set (incoming r)} = {(n, w). n \<notin> {} \<union> set [''b'']
        \<and> (\<exists>e. stored G0 ''p'' g e \<and> gedge_kind e = Calls \<and> source_id e = n \<and> target_id e = ''b'' \<and> gedge_weight e = w)}"
    by (elim exE conjE) (rule that; assumption)
  have e: "(''a'', 1) \<in> {(n, w). n \<notin> {} \<union> set [''b'']
        \<and> (\<exists>e. stored G0 ''p'' g e \<and> gedge_kind e = Calls \<and> source_id e = n \<and> target_id e = ''b'' \<and> gedge_weight e = w)}"
    using e by (auto simp: call_edge_def intro!: exI [of _ "call_edge ''a'' ''b'' 4"])
  have "(''a'', Calls, 1, ''b'') \<in> set (incoming r) \<or> (Calls, ''b'') \<in> set (truncated_in r)"
  proof (cases "(Calls, ''b'') \<in> set (truncated_in r)")
    case False
    then have "(''a'', 1) \<in> {(n, w). (n, Calls, w, ''b'') \<in> set (incoming r)}" by (subst r(2) [rule_format]) (use e in simp_all)
    then show ?thesis by simp
  qed simp
  with r(1) g(1) show ?thesis by blast
qed

theorem learning_adds_weights_witness:
  "\<exists>g. upsert_nodes_and_increment_undirected_edges G0 7 ''p'' ''n'' ''l'' 1 [] [(CoOccurrence, ''a'', ''b'', 3), (CoOccurrence, ''b'', ''a'', 4294967294)]
        empty_graph = Inr ((), g)
    \<and> stored_weight G0 ''p'' CoOccurrence ''b'' ''a'' g = MAX_WEIGHT \<and> stored_weight G0 ''p'' CoOccurrence ''a'' ''a'' g = 0"
proof -
  let ?is = "[(CoOccurrence, ''a'', ''b'', 3), (CoOccurrence, ''b'', ''a'', 4294967294)] :: increment list"
  have ok: "\<forall>i \<in> set (directed ?is). increment_ok i" by (simp add: increment_ok_def)
  obtain g where "increment_edges_in_tx G0 7 ''p'' ''n'' ''l'' 1 (directed ?is) empty_graph = Inr g"
    using increments_run [OF wire_graph_ok sample_keys(1) represents_empty ok] by blast
  moreover have "empty_graph\<lparr>node_rows := node_rows empty_graph\<rparr> = empty_graph" by simp
  ultimately have run: "upsert_nodes_and_increment_undirected_edges G0 7 ''p'' ''n'' ''l'' 1 [] ?is empty_graph = Inr ((), g)"
    by (simp only: upsert_nodes_and_increment_undirected_edges_def guard_key guard_checks)
      (simp add: increments_ok_def increment_ok_def)
  have built: "built G0 empty_graph" by (rule built_calls [OF wire_graph_ok, of "[]"]) (simp_all add: run_graph_calls_def)
  have zero: "stored_weight G0 p k s t empty_graph = 0" for p k s t by (simp add: stored_weight_def empty_graph_def)
  have "added_between CoOccurrence ''b'' ''a'' ?is = 4294967297" by (simp add: added_between_def)
  then have "min MAX_WEIGHT (added_between CoOccurrence ''b'' ''a'' ?is) = MAX_WEIGHT" by (simp add: MAX_WEIGHT_def)
  then show ?thesis
    using run learning_adds_weights [OF built sample_keys(1,3,2) run, of CoOccurrence] zero
      learning_adds_weights [OF built sample_keys(1,2,2) run, of CoOccurrence] by (intro exI [of _ g]) simp
qed

theorem purge_removes_exactly_stale_witness:
  "\<exists>g g' counts. built G0 g \<and> stored G0 ''p'' g (call_edge ''a'' ''b'' 4)
    \<and> purge_generations_below G0 ''p'' 5 g = (Inr counts, g') \<and> \<not> stored G0 ''p'' g' (call_edge ''a'' ''b'' 4)"
proof -
  obtain g where g: "built G0 g" "represents G0 (fold graph_spec sample_calls no_maps) g" using sample_built by blast
  obtain counts g' where g': "purge_generations_below G0 ''p'' 5 g = (Inr counts, g')"
    "\<forall>q e. key_ok q \<longrightarrow> (stored G0 q g' e \<longleftrightarrow> stored G0 q g e
        \<and> \<not> (q = ''p'' \<and> gedge_namespace e = NAMESPACE_MEMORY \<and> gedge_generation e < 5))"
    using purge_removes_exactly_stale [OF g(1) sample_keys(1), of 5] by (elim exE conjE) (rule that; assumption)
  have "\<not> stored G0 ''p'' g' (call_edge ''a'' ''b'' 4)"
    using g'(2) [rule_format, OF sample_keys(1)] by (simp add: call_edge_def)
  with g g'(1) sample_edge_stored [OF g(2)] show ?thesis by blast
qed

theorem kind_deletion_returns_witness:
  "\<exists>g g'. built G0 g \<and> stored G0 ''p'' g (call_edge ''a'' ''b'' 4)
    \<and> delete_edges_of_kind ''p'' Calls g = Some (card {e. stored G0 ''p'' g e \<and> gedge_kind e = Calls}, g')
    \<and> \<not> stored G0 ''p'' g' (call_edge ''a'' ''b'' 4)"
proof -
  obtain g where g: "built G0 g" "represents G0 (fold graph_spec sample_calls no_maps) g" using sample_built by blast
  obtain g' where g': "delete_edges_of_kind ''p'' Calls g = Some (card {e. stored G0 ''p'' g e \<and> gedge_kind e = Calls}, g')"
    "\<forall>q e. key_ok q \<longrightarrow> (stored G0 q g' e \<longleftrightarrow> stored G0 q g e \<and> \<not> (q = ''p'' \<and> gedge_kind e = Calls))"
    using kind_deletion_returns [OF g(1) sample_keys(1), of Calls] by (elim exE conjE) (rule that; assumption)
  have "\<not> stored G0 ''p'' g' (call_edge ''a'' ''b'' 4)"
    using g'(2) [rule_format, OF sample_keys(1)] by (simp add: call_edge_def)
  with g g'(1) sample_edge_stored [OF g(2)] show ?thesis by blast
qed

end
