(* ===== verification/Graph_Hops.thy ===== *)
theory Graph_Hops
  imports Graph_Search Graph_Properties
begin

text \<open>
  The hops of a traversal, described by the stored edges alone, and their relation to the
  identifiers that the code collects: it follows only such hops, and all of them at a node that at
  most 50 admitted edges touch, where none of its limits cuts anything off.
\<close>

section \<open>Hops along stored edges\<close>

definition admitted_kind :: "edge_kind list option \<Rightarrow> graph_edge \<Rightarrow> bool" where
  "admitted_kind kinds e \<longleftrightarrow> (case kinds of None \<Rightarrow> True | Some ks \<Rightarrow> gedge_kind e \<in> set ks)"

text \<open>The edges that a traversal may follow from a node, and the node at their other end.\<close>

definition admitted_edges ::
  "graph_codecs \<Rightarrow> string \<Rightarrow> edge_kind list option \<Rightarrow> string \<Rightarrow> graph_store \<Rightarrow> string \<Rightarrow> graph_edge set" where
  "admitted_edges G p kinds direction g a = {e. stored G p g e \<and> admitted_kind kinds e
     \<and> ((direction = ''in'' \<or> direction = ''both'') \<and> target_id e = a
        \<or> (direction = ''out'' \<or> direction = ''both'') \<and> source_id e = a)}"

definition other_end :: "string \<Rightarrow> graph_edge \<Rightarrow> string" where
  "other_end a e = (if source_id e = a then target_id e else source_id e)"

definition edge_hop ::
  "graph_env \<Rightarrow> graph_codecs \<Rightarrow> string \<Rightarrow> edge_kind list option \<Rightarrow> string \<Rightarrow> graph_store \<Rightarrow> string \<Rightarrow> string \<Rightarrow> bool" where
  "edge_hop E G p kinds direction g a b \<longleftrightarrow>
     (\<exists>e \<in> admitted_edges G p kinds direction g a. b = resolved_id E G p g a (other_end a e))"

definition narrow_node ::
  "graph_codecs \<Rightarrow> string \<Rightarrow> edge_kind list option \<Rightarrow> string \<Rightarrow> graph_store \<Rightarrow> string \<Rightarrow> bool" where
  "narrow_node G p kinds direction g a \<longleftrightarrow> card (admitted_edges G p kinds direction g a) \<le> 50"

section \<open>The edges at a node are distinct\<close>

lemma distinct_edges_at:
  assumes g: "represents G M g" and p: "key_ok p"
  shows "distinct (edges_from M p k s)" and "distinct (edges_to M p k t)"
proof -
  have fits: "fits_id (p, k, s, t) (the (edge_map M (p, k, s, t)))" if "edge_map M (p, k, s, t) \<noteq> None" for s t
    using representsD(5) [OF g] that by auto
  have "map target_id (edges_from M p k s) = map id (sorted_list_of_set {t. edge_map M (p, k, s, t) \<noteq> None})"
    unfolding edges_from_def map_map
    by (rule map_cong [OF refl]) (simp_all only: set_sorted_list_of_set [OF out_scan(1) [OF g p]], use fits in \<open>simp add: fits_id_def\<close>)
  then show "distinct (edges_from M p k s)" by (metis distinct_map distinct_sorted_list_of_set list.map_id)
  have "map source_id (edges_to M p k t) = map id (sorted_list_of_set {s. edge_map M (p, k, s, t) \<noteq> None})"
    unfolding edges_to_def map_map
    by (rule map_cong [OF refl]) (simp_all only: set_sorted_list_of_set [OF in_scan(1) [OF g p]], use fits in \<open>simp add: fits_id_def\<close>)
  then show "distinct (edges_to M p k t)" by (metis distinct_map distinct_sorted_list_of_set list.map_id)
qed

lemma distinct_concat_kinds:
  assumes "distinct ks" and "\<And>k. distinct (f k)" and "\<And>k e. e \<in> set (f k) \<Longrightarrow> gedge_kind e = k"
  shows "distinct (concat (map f ks))"
  using assms(1)
proof (induction ks)
  case (Cons k ks)
  have "set (f k) \<inter> set (concat (map f ks)) = {}" using assms(3) Cons.prems by auto
  with Cons assms(2) show ?case by simp
qed simp

section \<open>The collected identifiers\<close>

definition hop_in :: "graph_maps \<Rightarrow> string \<Rightarrow> edge_kind list option \<Rightarrow> string \<Rightarrow> graph_edge list" where
  "hop_in M p kinds a = (case kinds of
     Some ks \<Rightarrow> concat (map (\<lambda>k. take 100 (by_weight gedge_weight (edges_to M p k a))) ks)
   | None \<Rightarrow> take 100 (by_weight gedge_weight (concat (map (\<lambda>k. edges_to M p k a) ALL_KINDS))))"

definition hop_out :: "graph_maps \<Rightarrow> string \<Rightarrow> edge_kind list option \<Rightarrow> string \<Rightarrow> graph_edge list" where
  "hop_out M p kinds a = concat (map (\<lambda>k. take 100 (by_weight gedge_weight (edges_from M p k a)))
     (case kinds of Some ks \<Rightarrow> ks | None \<Rightarrow> ALL_KINDS))"

lemma hop_ids_run:
  assumes g: "represents G M g" and p: "key_ok p"
  shows "hop_ids p kinds direction a g = Inr (take 50 (remdups_adj (sort
    ((if direction = ''in'' \<or> direction = ''both'' then map source_id (hop_in M p kinds a) else [])
      @ (if direction = ''out'' \<or> direction = ''both'' then map target_id (hop_out M p kinds a) else [])))))"
proof -
  have one: "find_incoming_edges p (Some k) a 100 g
      = Inr (map (\<lambda>e. (source_id e, gedge_weight e)) (take 100 (by_weight gedge_weight (edges_to M p k a))))" for k
    by (simp add: find_incoming_edges_def find_incoming_edges_with_kind_def incoming_run [OF g p] comp_def)
  have all: "find_incoming_edges p None a 100 g
      = Inr (map (\<lambda>e. (source_id e, gedge_weight e)) (take 100 (by_weight gedge_weight (concat (map (\<lambda>k. edges_to M p k a) ALL_KINDS)))))"
    by (simp add: find_incoming_edges_def find_incoming_edges_with_kind_def incoming_run [OF g p] comp_def)
  have ones: "traverseR (\<lambda>k. find_incoming_edges p (Some k) a 100 g) ks
      = Inr (map (\<lambda>k. map (\<lambda>e. (source_id e, gedge_weight e)) (take 100 (by_weight gedge_weight (edges_to M p k a)))) ks)" for ks
    by (rule traverseR_map_Inr) (rule one)
  have outs: "traverseR (\<lambda>k. neighbors p k a 100 g) ks
      = Inr (map (\<lambda>k. map (\<lambda>e. (target_id e, gedge_weight e)) (take 100 (by_weight gedge_weight (edges_from M p k a)))) ks)" for ks
    by (rule traverseR_map_Inr) (rule neighbors_run [OF g p])
  have "incoming_ids p kinds a g = Inr (map source_id (hop_in M p kinds a))"
    by (cases kinds) (simp_all add: incoming_ids_def hop_in_def all ones map_concat comp_def)
  moreover have "outgoing_ids p kinds a g = Inr (map target_id (hop_out M p kinds a))"
    by (cases kinds) (simp_all add: outgoing_ids_def hop_out_def outs map_concat comp_def)
  ultimately show ?thesis by (simp add: hop_ids_def)
qed

lemma set_take_all: "length xs \<le> n \<Longrightarrow> set (take n xs) = set xs"
  by simp

text \<open>The incoming and the outgoing edges of a node: a limit cuts only where there are more than 100 edges.\<close>

lemma hop_edges:
  fixes kinds :: "edge_kind list option" and a :: string
  assumes g: "represents G M g" and G: "graph_codecs_ok G" and p: "key_ok p"
  defines "I \<equiv> {e. stored G p g e \<and> admitted_kind kinds e \<and> target_id e = a}"
    and "U \<equiv> {e. stored G p g e \<and> admitted_kind kinds e \<and> source_id e = a}"
  shows "finite I" and "set (hop_in M p kinds a) \<subseteq> I" and "card I \<le> 100 \<Longrightarrow> set (hop_in M p kinds a) = I"
    and "finite U" and "set (hop_out M p kinds a) \<subseteq> U" and "card U \<le> 100 \<Longrightarrow> set (hop_out M p kinds a) = U"
proof -
  note st = stored_represents [OF g G p] and at = set_edges_at [OF g p]
  have fin: "finite {e. stored G p g e \<and> target_id e = a}" "finite {e. stored G p g e \<and> source_id e = a}"
  proof -
    have "{e. stored G p g e \<and> target_id e = a} = (\<Union>k \<in> set ALL_KINDS. set (edges_to M p k a))"
      "{e. stored G p g e \<and> source_id e = a} = (\<Union>k \<in> set ALL_KINDS. set (edges_from M p k a))"
      using ALL_KINDS_complete by (auto simp: st at)
    then show "finite {e. stored G p g e \<and> target_id e = a}" "finite {e. stored G p g e \<and> source_id e = a}" by simp_all
  qed
  show fI: "finite I" by (rule finite_subset [OF _ fin(1)]) (auto simp: I_def)
  show fU: "finite U" by (rule finite_subset [OF _ fin(2)]) (auto simp: U_def)
  have kI: "set (edges_to M p k a) \<subseteq> I" "length (edges_to M p k a) \<le> card I" if "\<forall>ks. kinds = Some ks \<longrightarrow> k \<in> set ks" for k
  proof -
    show s: "set (edges_to M p k a) \<subseteq> I" using that by (auto simp: I_def st at admitted_kind_def split: option.split)
    show "length (edges_to M p k a) \<le> card I"
      using card_mono [OF fI s] distinct_card [OF distinct_edges_at(2) [OF g p, of k a]] by simp
  qed
  have kU: "set (edges_from M p k a) \<subseteq> U" "length (edges_from M p k a) \<le> card U" if "\<forall>ks. kinds = Some ks \<longrightarrow> k \<in> set ks" for k
  proof -
    show s: "set (edges_from M p k a) \<subseteq> U" using that by (auto simp: U_def st at admitted_kind_def split: option.split)
    show "length (edges_from M p k a) \<le> card U"
      using card_mono [OF fU s] distinct_card [OF distinct_edges_at(1) [OF g p, of k a]] by simp
  qed
  let ?ks = "case kinds of Some ks \<Rightarrow> ks | None \<Rightarrow> ALL_KINDS"
  have ks: "\<forall>ks. kinds = Some ks \<longrightarrow> k \<in> set ks" if "k \<in> set ?ks" for k using that by (cases kinds) auto
  have member: "gedge_kind e \<in> set ?ks \<longleftrightarrow> admitted_kind kinds e" for e
    using ALL_KINDS_complete by (cases kinds) (auto simp: admitted_kind_def)
  have I: "I = (\<Union>k \<in> set ?ks. set (edges_to M p k a))" by (auto simp: I_def st at simp flip: member)
  have U: "U = (\<Union>k \<in> set ?ks. set (edges_from M p k a))" by (auto simp: U_def st at simp flip: member)
  show "set (hop_out M p kinds a) \<subseteq> U"
    using kU(1) [OF ks] by (fastforce simp: hop_out_def dest: in_set_takeD)
  show "set (hop_out M p kinds a) = U" if c: "card U \<le> 100"
  proof -
    have "set (take 100 (by_weight gedge_weight (edges_from M p k a))) = set (edges_from M p k a)" if "k \<in> set ?ks" for k
      using kU(2) [OF ks [OF that]] c by (simp add: set_take_all)
    then show ?thesis unfolding U by (simp add: hop_out_def)
  qed
  show "set (hop_in M p kinds a) \<subseteq> I"
  proof (cases kinds)
    case None
    then show ?thesis using I by (auto simp: hop_in_def dest!: in_set_takeD)
  next
    case (Some l)
    then show ?thesis using I by (auto simp: hop_in_def dest!: in_set_takeD)
  qed
  show "set (hop_in M p kinds a) = I" if c: "card I \<le> 100"
  proof (cases kinds)
    case None
    have "distinct (concat (map (\<lambda>k. edges_to M p k a) ALL_KINDS))"
      by (rule distinct_concat_kinds) (use distinct_kind_names distinct_edges_at(2) [OF g p] at(2) in \<open>auto simp: distinct_map\<close>)
    then have "length (concat (map (\<lambda>k. edges_to M p k a) ALL_KINDS)) = card I"
      using I None by (simp add: distinct_card [symmetric])
    then show ?thesis using I None c by (simp add: hop_in_def set_take_all)
  next
    case (Some l)
    have "set (take 100 (by_weight gedge_weight (edges_to M p k a))) = set (edges_to M p k a)" if "k \<in> set l" for k
      using kI(2) [of k] that Some c by (simp add: set_take_all)
    then show ?thesis using I Some by (simp add: hop_in_def)
  qed
qed

lemma admitted_ends:
  "other_end a ` admitted_edges G p kinds direction g a
     = (if direction = ''in'' \<or> direction = ''both'' then source_id ` {e. stored G p g e \<and> admitted_kind kinds e \<and> target_id e = a} else {})
     \<union> (if direction = ''out'' \<or> direction = ''both'' then target_id ` {e. stored G p g e \<and> admitted_kind kinds e \<and> source_id e = a} else {})"
  (is "?L = ?R")
proof (intro set_eqI iffI)
  fix x assume "x \<in> ?L"
  then obtain e where e: "e \<in> admitted_edges G p kinds direction g a" "x = other_end a e" by blast
  then show "x \<in> ?R" by (cases "source_id e = a") (auto simp: admitted_edges_def other_end_def)
next
  fix x assume x: "x \<in> ?R"
  then consider e where "direction = ''in'' \<or> direction = ''both''" "stored G p g e" "admitted_kind kinds e" "target_id e = a" "x = source_id e"
    | e where "direction = ''out'' \<or> direction = ''both''" "stored G p g e" "admitted_kind kinds e" "source_id e = a" "x = target_id e"
    by (auto split: if_splits)
  then show "x \<in> ?L"
  proof cases
    case (1 e)
    then have "e \<in> admitted_edges G p kinds direction g a" "x = other_end a e" by (auto simp: admitted_edges_def other_end_def)
    then show ?thesis by blast
  next
    case (2 e)
    then have "e \<in> admitted_edges G p kinds direction g a" "x = other_end a e" by (auto simp: admitted_edges_def other_end_def)
    then show ?thesis by blast
  qed
qed

lemma hop_ids_edges:
  assumes g: "represents G M g" and G: "graph_codecs_ok G" and p: "key_ok p"
  shows "\<exists>ns. hop_ids p kinds direction a g = Inr ns \<and> set ns \<subseteq> other_end a ` admitted_edges G p kinds direction g a
    \<and> (narrow_node G p kinds direction g a \<longrightarrow> set ns = other_end a ` admitted_edges G p kinds direction g a)"
proof -
  let ?I = "{e. stored G p g e \<and> admitted_kind kinds e \<and> target_id e = a}"
    and ?U = "{e. stored G p g e \<and> admitted_kind kinds e \<and> source_id e = a}"
    and ?A = "admitted_edges G p kinds direction g a"
  let ?in = "direction = ''in'' \<or> direction = ''both''" and ?out = "direction = ''out'' \<or> direction = ''both''"
  let ?L = "(if ?in then map source_id (hop_in M p kinds a) else []) @ (if ?out then map target_id (hop_out M p kinds a) else [])"
  note E = hop_edges [OF g G p, of kinds a]
  have sub: "set ?L \<subseteq> other_end a ` ?A" unfolding admitted_ends using E(2,5) by auto
  have fin: "finite ?A" by (rule finite_subset [of _ "?I \<union> ?U"]) (use E(1,4) in \<open>auto simp: admitted_edges_def\<close>)
  have "set (take 50 (remdups_adj (sort ?L))) = other_end a ` ?A" if n: "narrow_node G p kinds direction g a"
  proof -
    have c: "card ?A \<le> 50" using n by (simp add: narrow_node_def)
    have "set (hop_in M p kinds a) = ?I" if ?in
    proof (rule E(3))
      have "?I \<subseteq> ?A" using that by (auto simp: admitted_edges_def)
      with card_mono [OF fin this] c show "card ?I \<le> 100" by simp
    qed
    moreover have "set (hop_out M p kinds a) = ?U" if ?out
    proof (rule E(6))
      have "?U \<subseteq> ?A" using that by (auto simp: admitted_edges_def)
      with card_mono [OF fin this] c show "card ?U \<le> 100" by simp
    qed
    ultimately have L: "set ?L = other_end a ` ?A" unfolding admitted_ends by auto
    have "length (remdups_adj (sort ?L)) = card (set ?L)"
      using distinct_card [OF distinct_remdups_adj_sort [of ?L]] by simp
    also have "\<dots> \<le> 50" unfolding L using card_image_le [OF fin, of "other_end a"] c by simp
    finally show ?thesis using L by (simp add: set_take_all)
  qed
  moreover have "set (take 50 (remdups_adj (sort ?L))) \<subseteq> other_end a ` ?A"
    by (rule subset_trans [OF set_take_subset]) (use sub in \<open>simp only: remdups_adj_set set_sort\<close>)
  ultimately show ?thesis unfolding hop_ids_run [OF g p] by blast
qed

end
