(* ===== verification/Graph_Search_Properties.thy ===== *)
theory Graph_Search_Properties
  imports Graph_Hops
begin

text \<open>
  The searches over a represented graph: node queries return the first selected nodes in key order,
  and the traversal returns, within its hop bound, only nodes that it can reach by that many hops
  along stored edges, and all of them where its limits cut nothing off.
\<close>

section \<open>Nodes of a project\<close>

definition nodes_of :: "graph_maps \<Rightarrow> string \<Rightarrow> graph_node list" where
  "nodes_of M p = map (\<lambda>i. the (node_map M (p, i))) (sorted_list_of_set {i. node_map M (p, i) \<noteq> None})"

lemma node_scan:
  assumes g: "represents G M g" and p: "key_ok p"
  shows "finite {i. node_map M (p, i) \<noteq> None}"
    and "prefix_scan (p @ [NUL]) (node_rows g) = map (\<lambda>n. (composite p (node_id n), to_vec (node_bin G) n)) (nodes_of M p)"
proof -
  have mono: "node_key (p, i) \<le> node_key (p, j) \<longleftrightarrow> i \<le> j" for i j
    by (simp add: node_key_def composite_def append_le_append)
  have keys: "x \<in> node_ids \<Longrightarrow> prefix (p @ [NUL]) (node_key x) \<longleftrightarrow> (\<exists>i. x = (p, i))" for x
    using project_prefix_keys(1) [OF p, of x] by (cases x) auto
  note rows = scan_rows [OF representsD(1) [OF g], where P = "prefix (p @ [NUL])", OF keys mono]
  show fin: "finite {i. node_map M (p, i) \<noteq> None}" by (rule rows(1))
  have id: "node_id (the (node_map M (p, i))) = i" if "node_map M (p, i) \<noteq> None" for i
    using representsD(6) [OF g] that by auto
  show "prefix_scan (p @ [NUL]) (node_rows g) = map (\<lambda>n. (composite p (node_id n), to_vec (node_bin G) n)) (nodes_of M p)"
    unfolding prefix_scan_filter nodes_of_def map_map
    by (subst rows(2), assumption, rule map_cong [OF refl])
      (simp_all only: set_sorted_list_of_set [OF fin], simp add: id node_key_def)
qed

lemma set_nodes_of:
  assumes g: "represents G M g" and p: "key_ok p"
  shows "set (nodes_of M p) = {n. node_map M (p, node_id n) = Some n}" and "distinct (map node_id (nodes_of M p))"
proof -
  have id: "node_id (the (node_map M (p, i))) = i" if "node_map M (p, i) \<noteq> None" for i
    using representsD(6) [OF g] that by auto
  show "set (nodes_of M p) = {n. node_map M (p, node_id n) = Some n}"
    unfolding nodes_of_def set_map set_sorted_list_of_set [OF node_scan(1) [OF g p]]
  proof (intro set_eqI iffI)
    fix n assume "n \<in> (\<lambda>i. the (node_map M (p, i))) ` {i. node_map M (p, i) \<noteq> None}"
    then obtain i where "n = the (node_map M (p, i))" "node_map M (p, i) \<noteq> None" by blast
    with id [of i] show "n \<in> {n. node_map M (p, node_id n) = Some n}" by simp
  next
    fix n assume "n \<in> {n. node_map M (p, node_id n) = Some n}"
    then have "n = the (node_map M (p, node_id n))" "node_map M (p, node_id n) \<noteq> None" by simp_all
    then show "n \<in> (\<lambda>i. the (node_map M (p, i))) ` {i. node_map M (p, i) \<noteq> None}" by blast
  qed
  have "map node_id (nodes_of M p) = map id (sorted_list_of_set {i. node_map M (p, i) \<noteq> None})"
    unfolding nodes_of_def map_map
    by (rule map_cong [OF refl]) (simp_all only: set_sorted_list_of_set [OF node_scan(1) [OF g p]], simp add: id)
  then show "distinct (map node_id (nodes_of M p))" by simp
qed

lemma query_rows_run:
  assumes "codec_ok (node_bin G)"
  shows "query_rows G selected limit (map (\<lambda>n. (k n, to_vec (node_bin G) n)) ns) out
    = Inr (out @ take (max 1 (limit - length out)) (filter selected ns))"
proof (induction ns arbitrary: out)
  case (Cons n ns)
  have "max 1 (limit - length out) = Suc (max 1 (limit - length (out @ [n])))" if "\<not> limit \<le> length out + 1"
    using that by (auto simp: max_def)
  moreover have "max 1 (limit - length out) = 1" if "limit \<le> length out + 1" using that by simp
  ultimately show ?case using assms Cons.IH by (cases "selected n"; cases "limit \<le> length out + 1") simp_all
qed simp

lemma query_run:
  assumes g: "represents G M g" and G: "graph_codecs_ok G" and p: "key_ok p"
  shows "query_nodes_with_path_match E G p wanted name_pattern path limit m g
    = Inr (take (max 1 limit) (filter (node_selected E wanted name_pattern path m) (nodes_of M p)))"
  unfolding query_nodes_with_path_match_def node_scan(2) [OF g p]
  using G by (subst query_rows_run) (simp_all add: graph_codecs_ok_def)

section \<open>Traversal\<close>

text \<open>
  The identifiers a traversal can ever visit are finitely many, so every visited one leaves the
  queue once and the loop ends.
\<close>

definition hop_rel :: "(string \<Rightarrow> string list res) \<Rightarrow> (string \<Rightarrow> string \<Rightarrow> string) \<Rightarrow> string \<Rightarrow> string \<Rightarrow> bool" where
  "hop_rel hops r i j \<longleftrightarrow> (\<exists>ns n. hops i = Inr ns \<and> n \<in> set ns \<and> j = r i n)"

fun hop_walk :: "(string \<Rightarrow> string \<Rightarrow> bool) \<Rightarrow> nat \<Rightarrow> string \<Rightarrow> string \<Rightarrow> bool" where
  "hop_walk R 0 i j \<longleftrightarrow> i = j"
| "hop_walk R (Suc d) i j \<longleftrightarrow> (\<exists>k. hop_walk R d i k \<and> R k j)"

lemma push_new_visited: "fst (push_new f d ns visited q) = visited \<union> f ` set ns"
  by (induction f d ns visited q rule: push_new.induct) auto

lemma push_new_queue:
  "\<exists>xs. snd (push_new f d ns visited q) = q @ map (\<lambda>i. (i, d)) xs \<and> set xs = f ` set ns - visited \<and> distinct xs"
proof (induction f d ns visited q rule: push_new.induct)
  case (2 f d n ns visited q)
  show ?case
  proof (cases "f n \<in> visited")
    case True
    with 2 show ?thesis by auto
  next
    case False
    with 2(2) obtain xs where "snd (push_new f d ns (insert (f n) visited) (q @ [(f n, d)])) = (q @ [(f n, d)]) @ map (\<lambda>i. (i, d)) xs"
      "set xs = f ` set ns - insert (f n) visited" "distinct xs" by blast
    with False show ?thesis by (intro exI [of _ "f n # xs"]) auto
  qed
qed auto

text \<open>
  The state of a traversal that has processed \<open>P\<close>: processed and queued entries are sorted by
  distance, which spans at most two values in the queue, and every processed entry below the bound has
  all its hops among them, at most one further away.
\<close>

definition found_nodes :: "(string \<Rightarrow> graph_node option res) \<Rightarrow> (string \<times> nat) list \<Rightarrow> (graph_node \<times> nat) list" where
  "found_nodes node P = List.map_filter (\<lambda>(i, d). case node i of Inr (Some n) \<Rightarrow> Some (n, d) | _ \<Rightarrow> None) P"

definition traversed ::
  "(string \<Rightarrow> string \<Rightarrow> bool) \<Rightarrow> (string \<Rightarrow> graph_node option res) \<Rightarrow> nat \<Rightarrow> string \<Rightarrow> (string \<times> nat) list \<Rightarrow> (string \<times> nat) list
     \<Rightarrow> string set \<Rightarrow> (graph_node \<times> nat) list \<Rightarrow> bool" where
  "traversed R node m start P q visited results \<longleftrightarrow>
     visited = fst ` set (P @ q) \<and> distinct (map fst (P @ q)) \<and> sorted (map snd (P @ q)) \<and> (q \<noteq> [] \<longrightarrow> (\<forall>x \<in> set (P @ q). snd x \<le> snd (hd q) + 1))
     \<and> (\<forall>(i, d) \<in> set (P @ q). d \<le> m \<and> hop_walk R d start i)
     \<and> (\<forall>(i, d) \<in> set P. d < m \<longrightarrow> (\<forall>j. R i j \<longrightarrow> (\<exists>e \<le> d + 1. (j, e) \<in> set (P @ q))))
     \<and> (start, 0) \<in> set (P @ q) \<and> results = found_nodes node P \<and> length results \<le> 500"

lemma found_nodes_snoc:
  assumes "node i = Inr found"
  shows "found_nodes node (P @ [(i, d)]) = found_nodes node P @ (case found of Some n \<Rightarrow> [(n, d)] | None \<Rightarrow> [])"
  using assms by (cases found) (simp_all add: found_nodes_def List.map_filter_def)

lemma traversed_drop:
  assumes t: "traversed R node m start P ((i, d) # rest) visited results" and "m \<le> d" and "node i = Inr found" and "length results < 500"
  shows "traversed R node m start (P @ [(i, d)]) rest visited (results @ (case found of Some n \<Rightarrow> [(n, d)] | None \<Rightarrow> []))"
proof -
  have sorted: "sorted (map snd (P @ (i, d) # rest))" and le: "\<forall>x \<in> set (P @ (i, d) # rest). snd x \<le> d + 1"
    using t by (simp_all add: traversed_def)
  have "d \<le> snd (hd rest)" if "rest \<noteq> []" using sorted that by (cases rest) (auto simp: sorted_append)
  then have "\<forall>x \<in> set (P @ (i, d) # rest). snd x \<le> snd (hd rest) + 1" if "rest \<noteq> []" using le that by fastforce
  with t assms(2-) show ?thesis
    by (simp add: traversed_def found_nodes_snoc) (auto split: option.splits)
qed

lemma traversed_push:
  assumes t: "traversed R node m start P ((i, d) # rest) visited results" and "d < m" and "node i = Inr found" and "length results < 500"
    and R: "\<And>j. R i j \<longleftrightarrow> j \<in> J" and xs: "set xs = J - visited" "distinct xs"
  shows "traversed R node m start (P @ [(i, d)]) (rest @ map (\<lambda>j. (j, d + 1)) xs) (visited \<union> J)
    (results @ (case found of Some n \<Rightarrow> [(n, d)] | None \<Rightarrow> []))"
proof -
  let ?L = "P @ (i, d) # rest" and ?new = "map (\<lambda>j. (j, d + 1)) xs"
  have sorted: "sorted (map snd ?L)" and le: "\<forall>x \<in> set ?L. snd x \<le> d + 1" and vis: "visited = fst ` set ?L"
    and walks: "\<forall>(i, e) \<in> set ?L. e \<le> m \<and> hop_walk R e start i" and start: "(start, 0) \<in> set ?L"
    and closed: "\<forall>(i, e) \<in> set P. e < m \<longrightarrow> (\<forall>j. R i j \<longrightarrow> (\<exists>e' \<le> e + 1. (j, e') \<in> set ?L))"
    and res: "results = found_nodes node P"
    using t by (simp_all add: traversed_def)
  have eq: "(P @ [(i, d)]) @ rest @ ?new = ?L @ ?new" by simp
  have new: "map snd ?new = replicate (length xs) (d + 1)" by (simp add: comp_def map_replicate_const)
  have "sorted (map snd ?L @ map snd ?new)"
    unfolding new by (rule sorted_append [THEN iffD2]) (use sorted le in \<open>simp add: sorted_replicate, fastforce\<close>)
  then have s: "sorted (map snd (?L @ ?new))" by (simp only: map_append)
  have v: "visited \<union> J = fst ` set (?L @ ?new)"
  proof -
    have "fst ` set ?new = set xs" by (simp add: image_image)
    then have "fst ` set (?L @ ?new) = fst ` set ?L \<union> (J - visited)" unfolding set_append [of ?L ?new] image_Un by (simp only: xs(1))
    then have "fst ` set (?L @ ?new) = visited \<union> (J - visited)" by (simp only: vis)
    then show ?thesis by blast
  qed
  have "distinct (map fst ?L @ xs)" using t xs vis by (auto simp: traversed_def)
  then have dist: "distinct (map fst (?L @ ?new))" by (simp add: comp_def)
  have near: "snd x \<le> snd (hd (rest @ ?new)) + 1" if "rest @ ?new \<noteq> []" "x \<in> set (?L @ ?new)" for x
  proof -
    have "d \<le> snd (hd (rest @ ?new))" using sorted that(1) by (cases rest; cases xs) (auto simp: sorted_append)
    moreover have "snd x \<le> d + 1" using that(2) le by auto
    ultimately show ?thesis by simp
  qed
  have w: "\<forall>(j, e) \<in> set (?L @ ?new). e \<le> m \<and> hop_walk R e start j"
  proof -
    have "hop_walk R (d + 1) start j" if "j \<in> set xs" for j using that xs(1) walks R by auto
    with walks assms(2) show ?thesis by auto
  qed
  have c: "\<exists>e' \<le> e + 1. (j', e') \<in> set (?L @ ?new)" if "(j, e) \<in> set (P @ [(i, d)])" "e < m" "R j j'" for j e j'
  proof (cases "(j, e) \<in> set P")
    case True
    with closed that(2,3) show ?thesis by fastforce
  next
    case False
    with that have je: "j = i" "e = d" "j' \<in> J" using R by auto
    show ?thesis
    proof (cases "j' \<in> visited")
      case True
      then obtain x where x: "x \<in> set ?L" "j' = fst x" unfolding vis by blast
      then have "(j', snd x) \<in> set (?L @ ?new)" by auto
      moreover have "snd x \<le> e + 1" using le x(1) je(2) by blast
      ultimately show ?thesis by blast
    next
      case False
      with xs(1) je show ?thesis by (intro exI [of _ "d + 1"]) auto
    qed
  qed
  show ?thesis
    unfolding traversed_def eq
  proof (intro conjI impI)
    show "visited \<union> J = fst ` set (?L @ ?new)" "distinct (map fst (?L @ ?new))" "sorted (map snd (?L @ ?new))" by (rule v, rule dist, rule s)
    show "\<forall>x \<in> set (?L @ ?new). snd x \<le> snd (hd (rest @ ?new)) + 1" if "rest @ ?new \<noteq> []" using near [OF that] by blast
    show "\<forall>(j, e) \<in> set (?L @ ?new). e \<le> m \<and> hop_walk R e start j" by (rule w)
    show "\<forall>(i, d) \<in> set (P @ [(i, d)]). d < m \<longrightarrow> (\<forall>j. R i j \<longrightarrow> (\<exists>e \<le> d + 1. (j, e) \<in> set (?L @ ?new)))" using c by blast
    show "(start, 0) \<in> set (?L @ ?new)" using start by auto
    show "results @ (case found of Some n \<Rightarrow> [(n, d)] | None \<Rightarrow> []) = found_nodes node (P @ [(i, d)])"
      by (simp add: found_nodes_snoc [of node i found P d, OF assms(3)] res)
    show "length (results @ (case found of Some n \<Rightarrow> [(n, d)] | None \<Rightarrow> [])) \<le> 500" using assms(4) by (cases found) simp_all
  qed
qed

lemma traverse_loop_returns:
  assumes U: "finite U" and hops: "\<And>i. \<exists>ns. hops i = Inr ns \<and> r i ` set ns \<subseteq> U" and node: "\<And>i. \<exists>x. node i = Inr x"
  shows "traversed (hop_rel hops r) node m start P q visited results \<Longrightarrow> visited \<subseteq> U \<Longrightarrow>
    \<exists>P' q' visited' res. traverse_loop node hops r m visited q results = Some (Inr res)
      \<and> traversed (hop_rel hops r) node m start P' q' visited' res \<and> (q' = [] \<or> 500 \<le> length res)"
proof (induction "card (U - visited) + length q" arbitrary: P visited q results rule: less_induct)
  case less
  show ?case
  proof (cases q)
    case Nil
    with less.prems show ?thesis by (subst traverse_loop.simps) auto
  next
    case (Cons x rest)
    obtain i d where x: "x = (i, d)" by (cases x)
    obtain found where found: "node i = Inr found" using node by blast
    obtain ns where ns: "hops i = Inr ns" "r i ` set ns \<subseteq> U" using hops by blast
    let ?results = "results @ (case found of Some n \<Rightarrow> [(n, d)] | None \<Rightarrow> [])"
    note t = less.prems(1) [unfolded Cons x]
    consider "500 \<le> length results" | "length results < 500" "m \<le> d" | "length results < 500" "d < m" by linarith
    then show ?thesis
    proof cases
      case 1
      with Cons x less.prems(1) show ?thesis by (subst traverse_loop.simps) auto
    next
      case 2
      have "card (U - visited) + length rest < card (U - visited) + length q" by (simp add: Cons)
      from less.hyps [OF this traversed_drop [OF t 2(2) found 2(1)] less.prems(2)] show ?thesis
        using 2 found Cons x by (subst traverse_loop.simps) simp
    next
      case 3
      obtain xs where xs: "snd (push_new (r i) (d + 1) ns visited rest) = rest @ map (\<lambda>j. (j, d + 1)) xs"
        "set xs = r i ` set ns - visited" "distinct xs" using push_new_queue [of "r i" "d + 1" ns visited rest] by blast
      let ?v = "visited \<union> r i ` set ns"
      have v: "?v \<subseteq> U" using less.prems(2) ns(2) by blast
      have "set xs = (U - visited) - (U - ?v)" using xs(2) v by blast
      then have "length xs = card ((U - visited) - (U - ?v))" using xs(3) by (metis distinct_card)
      also have "\<dots> = card (U - visited) - card (U - ?v)" by (rule card_Diff_subset) (use U in auto)
      finally have "length xs + card (U - ?v) \<le> card (U - visited)"
        using card_mono [of "U - visited" "U - ?v"] U by fastforce
      then have smaller: "card (U - ?v) + length (rest @ map (\<lambda>j. (j, d + 1)) xs) < card (U - visited) + length q" by (simp add: Cons)
      have R: "hop_rel hops r i j \<longleftrightarrow> j \<in> r i ` set ns" for j using ns(1) by (auto simp: hop_rel_def)
      from less.hyps [OF smaller traversed_push [OF t 3(2) found 3(1) R xs(2,3)] v] show ?thesis
        using 3 found ns(1) Cons x by (subst traverse_loop.simps) (simp add: push_new_visited xs(1) [simplified])
    qed
  qed
qed

text \<open>A finished traversal has found every node within the bound, at its least distance.\<close>

lemma traversed_complete:
  assumes t: "traversed R node m start P [] visited res"
  shows "d \<le> m \<Longrightarrow> hop_walk R d start j \<Longrightarrow> \<exists>e \<le> d. (j, e) \<in> set P"
proof (induction d arbitrary: j)
  case 0
  with t show ?case by (auto simp: traversed_def)
next
  case (Suc d)
  then obtain k where k: "hop_walk R d start k" "R k j" by auto
  with Suc obtain e where e: "e \<le> d" "(k, e) \<in> set P" by fastforce
  with Suc.prems(1) k(2) t obtain e' where "e' \<le> e + 1" "(j, e') \<in> set P" by (fastforce simp: traversed_def)
  with e(1) show ?case by (intro exI [of _ e']) simp
qed

section \<open>The identifiers a traversal can meet\<close>

lemma traverseR_members:
  assumes "traverseR f xs = Inr ys" and "y \<in> set ys"
  shows "\<exists>x \<in> set xs. f x = Inr y"
  using assms by (induction xs arbitrary: ys) (auto split: sum.splits)

lemma scanned_id:
  assumes "row \<in> set (adj_scan a t)"
  shows "snd (fst row) \<in> snd ` fset (fmdom t)"
proof -
  obtain k v where row: "row = (k, v)" by (cases row)
  with assms have "fmlookup t k = Some v" by (simp add: adj_scans_filter(2) set_iter del: in_set_conv_decomp)
  then have "k \<in> fset (fmdom t)" by (rule fmdomI)
  with row show ?thesis by simp
qed

lemma weighted_ids:
  assumes r: "traverseR weighted_row (adj_scan a t) = Inr rows"
  shows "fst ` set rows \<subseteq> snd ` fset (fmdom t)"
proof
  have w: "weighted_row row = Inr x \<Longrightarrow> fst x = snd (fst row)" for row x by (auto simp: weighted_row_def)
  fix i assume "i \<in> fst ` set rows"
  then obtain x where "x \<in> set rows" "i = fst x" by blast
  with traverseR_members [OF r] w scanned_id show "i \<in> snd ` fset (fmdom t)" by metis
qed

lemma kind_ids:
  assumes r: "traverseR (kind_row k) (adj_scan a t) = Inr rows"
  shows "fst ` set rows \<subseteq> snd ` fset (fmdom t)"
proof
  have w: "kind_row k row = Inr x \<Longrightarrow> fst x = snd (fst row)" for row x by (auto simp: kind_row_def weighted_row_def)
  fix i assume "i \<in> fst ` set rows"
  then obtain x where "x \<in> set rows" "i = fst x" by blast
  with traverseR_members [OF r] w scanned_id show "i \<in> snd ` fset (fmdom t)" by metis
qed

lemma concat_ids:
  assumes "\<And>r. r \<in> set rows \<Longrightarrow> fst ` set r \<subseteq> D"
  shows "fst ` set (concat rows) \<subseteq> D"
  using assms by fastforce

lemma set_take_by_weight: "set (take n (by_weight w xs)) \<subseteq> set xs"
  using set_take_subset [of n "by_weight w xs"] by simp

lemma neighbor_ids:
  assumes "neighbors p k s limit g = Inr rows"
  shows "fst ` set rows \<subseteq> snd ` fset (fmdom (adj_out g))"
proof -
  from assms obtain out where out: "traverseR weighted_row (adj_scan (adj_key p k s) (adj_out g)) = Inr out" "rows = take limit (by_weight snd out)"
    by (auto simp: neighbors_def)
  have "fst ` set rows \<subseteq> fst ` set out" unfolding out(2) by (rule image_mono [OF set_take_by_weight])
  with weighted_ids [OF out(1)] show ?thesis by (rule subset_trans [rotated])
qed

lemma found_ids:
  assumes "find_incoming_edges p k t limit g = Inr rows"
  shows "fst ` set rows \<subseteq> snd ` fset (fmdom (adj_in g))"
proof -
  from assms obtain kinds out where out: "traverseR (\<lambda>kind. traverseR (kind_row kind) (adj_scan (adj_key p kind t) (adj_in g))) kinds = Inr out"
    "rows = map (\<lambda>(n, _, w). (n, w)) (take limit (by_weight (snd \<circ> snd) (concat out)))"
    by (auto simp: find_incoming_edges_def find_incoming_edges_with_kind_def find_incoming_edges_with_kinds_def)
  have "fst ` set rows = fst ` set (take limit (by_weight (snd \<circ> snd) (concat out)))"
    unfolding out(2) set_map image_image by (rule image_cong) auto
  also have "\<dots> \<subseteq> fst ` set (concat out)" by (rule image_mono [OF set_take_by_weight])
  also have "\<dots> \<subseteq> snd ` fset (fmdom (adj_in g))"
    by (rule concat_ids) (use traverseR_members [OF out(1)] kind_ids in blast)
  finally show ?thesis .
qed

lemma hop_ids_known:
  assumes "hop_ids p kinds direction i g = Inr ns"
  shows "set ns \<subseteq> snd ` fset (fmdom (adj_in g)) \<union> snd ` fset (fmdom (adj_out g))" (is "_ \<subseteq> ?I \<union> ?O")
proof -
  have inc: "set xs \<subseteq> ?I" if xs: "incoming_ids p kinds i g = Inr xs" for xs
  proof (cases kinds)
    case None
    with xs obtain rows where "find_incoming_edges p None i 100 g = Inr rows" "xs = map fst rows" by (auto simp: incoming_ids_def)
    with found_ids [OF this(1)] show ?thesis by simp
  next
    case (Some ks)
    with xs obtain rows where rows: "traverseR (\<lambda>k. find_incoming_edges p (Some k) i 100 g) ks = Inr rows" "xs = map fst (concat rows)"
      by (auto simp: incoming_ids_def)
    show ?thesis unfolding rows(2) set_map by (rule concat_ids) (use traverseR_members [OF rows(1)] found_ids in blast)
  qed
  have out: "set xs \<subseteq> ?O" if xs: "outgoing_ids p kinds i g = Inr xs" for xs
  proof -
    from xs obtain ks rows where rows: "traverseR (\<lambda>k. neighbors p k i 100 g) ks = Inr rows" "xs = map fst (concat rows)"
      by (auto simp: outgoing_ids_def)
    show ?thesis unfolding rows(2) set_map by (rule concat_ids) (use traverseR_members [OF rows(1)] neighbor_ids in blast)
  qed
  obtain xs ys where "(if direction = ''in'' \<or> direction = ''both'' then incoming_ids p kinds i g else Inr []) = Inr xs"
    "(if direction = ''out'' \<or> direction = ''both'' then outgoing_ids p kinds i g else Inr []) = Inr ys"
    and ns: "ns = take 50 (remdups_adj (sort (xs @ ys)))"
    using assms unfolding hop_ids_def bindR_eq_Inr by blast
  then have xs: "xs = [] \<or> incoming_ids p kinds i g = Inr xs" and ys: "ys = [] \<or> outgoing_ids p kinds i g = Inr ys"
    by (auto split: if_splits)
  have "set ns \<subseteq> set xs \<union> set ys" unfolding ns using set_take_subset [of 50 "remdups_adj (sort (xs @ ys))"] by simp
  moreover have "set xs \<subseteq> ?I" using xs inc by auto
  moreover have "set ys \<subseteq> ?O" using ys out by auto
  ultimately show ?thesis by blast
qed

text \<open>A resolved target is the identifier of a node row.\<close>

lemma query_rows_members:
  "query_rows G selected limit rows out = Inr ns \<Longrightarrow> set ns \<subseteq> set out \<union> {n. \<exists>(k, v) \<in> set rows. from_slice (node_bin G) v = Some n}"
proof (induction rows arbitrary: out)
  case (Cons row rows)
  obtain k v where row: "row = (k, v)" by (cases row)
  with Cons.prems obtain n where n: "from_slice (node_bin G) v = Some n" by (auto simp: decode_def split: option.splits)
  let ?D = "{n. \<exists>(k, v) \<in> set (row # rows). from_slice (node_bin G) v = Some n}"
  have D: "n \<in> ?D" "{n. \<exists>(k, v) \<in> set rows. from_slice (node_bin G) v = Some n} \<subseteq> ?D" using n row by auto
  from n have d: "decode (node_bin G) v = Inr n" by (simp add: decode_def)
  show ?case
  proof (cases "selected n \<and> limit \<le> length out + 1")
    case True
    with Cons.prems d row have "ns = out @ [n]" by simp
    with D(1) show ?thesis by auto
  next
    case False
    with Cons.prems d row have "query_rows G selected limit rows out = Inr ns \<or> query_rows G selected limit rows (out @ [n]) = Inr ns"
      by (auto split: if_splits)
    with Cons.IH [of out] Cons.IH [of "out @ [n]"] D show ?thesis by auto
  qed
qed simp

definition row_nodes :: "graph_codecs \<Rightarrow> graph_store \<Rightarrow> graph_node set" where
  "row_nodes G g = {n. \<exists>k v. fmlookup (node_rows g) k = Some v \<and> from_slice (node_bin G) v = Some n}"

lemma finite_row_nodes: "finite (row_nodes G g)"
proof (rule finite_subset)
  show "row_nodes G g \<subseteq> (\<lambda>k. the (from_slice (node_bin G) (the (fmlookup (node_rows g) k)))) ` fset (fmdom (node_rows g))"
  proof
    fix n assume "n \<in> row_nodes G g"
    then obtain k v where "fmlookup (node_rows g) k = Some v" "from_slice (node_bin G) v = Some n" by (auto simp: row_nodes_def)
    then show "n \<in> (\<lambda>k. the (from_slice (node_bin G) (the (fmlookup (node_rows g) k)))) ` fset (fmdom (node_rows g))"
      by (intro image_eqI [of _ _ k]) (simp_all add: fmdomI)
  qed
qed simp

lemma query_members:
  assumes "query_nodes E G p wanted pat path limit g = Inr ns \<or> query_nodes_by_symbol_name E G p symbol scope limit g = Inr ns"
  shows "set ns \<subseteq> row_nodes G g"
proof -
  obtain selected where "ns = [] \<or> query_rows G selected limit (prefix_scan (p @ [NUL]) (node_rows g)) [] = Inr ns"
    using assms by (auto simp: query_nodes_def query_nodes_with_path_match_def query_nodes_by_symbol_name_def Let_def split: if_splits)
  then have "set ns \<subseteq> {n. \<exists>(k, v) \<in> set (prefix_scan (p @ [NUL]) (node_rows g)). from_slice (node_bin G) v = Some n}"
    using query_rows_members [of G selected limit "prefix_scan (p @ [NUL]) (node_rows g)" "[]" ns] by auto
  also have "\<dots> \<subseteq> row_nodes G g" unfolding row_nodes_def using set_prefix_scan by fast
  finally show ?thesis .
qed

lemma chosen_member: "chosen prefer ns = Some (Unique n) \<Longrightarrow> n \<in> set ns"
proof (cases ns rule: remdups_adj.cases)
  case (3 x y zs)
  assume c: "chosen prefer ns = Some (Unique n)"
  show ?thesis
  proof (cases "Option.bind prefer (\<lambda>path. find (\<lambda>n. file_path n = path) ns)")
    case None
    with c 3 show ?thesis by (simp add: chosen_def)
  next
    case (Some m)
    with c 3 have "m = n" by (simp add: chosen_def)
    with Some show ?thesis by (auto simp: Option.bind_eq_Some_conv dest: find_SomeD)
  qed
qed (simp_all add: chosen_def)

lemma step_member: "step_of prefer P found = Some (Unique n) \<Longrightarrow> \<exists>ns. found = Inr ns \<and> n \<in> set ns"
  using chosen_member by (cases found) (fastforce simp: step_of_def)+

lemma read_row: "get_node G p i g = Inr (Some n) \<Longrightarrow> n \<in> row_nodes G g"
  by (cases "fmlookup (node_rows g) (composite p i)") (auto simp: get_node_def row_nodes_def decode_def split: option.splits)

lemma step_row:
  assumes "step_of prefer P (query_nodes E G p wanted pat path limit g) = Some (Unique n)
    \<or> step_of prefer P (query_nodes_by_symbol_name E G p symbol scope limit g) = Some (Unique n)"
  shows "n \<in> row_nodes G g"
proof -
  obtain ns where "query_nodes E G p wanted pat path limit g = Inr ns \<or> query_nodes_by_symbol_name E G p symbol scope limit g = Inr ns" "n \<in> set ns"
    using assms step_member by metis
  with query_members show ?thesis by blast
qed

lemma named_row:
  assumes "resolve_by_name E G p input wanted prefer g = Unique n"
  shows "n \<in> row_nodes G g"
proof (cases "step_of prefer (\<lambda>n. gnode_name n = input) (query_nodes E G p wanted (Some input) None 100 g)")
  case (Some r)
  with assms show ?thesis by (intro step_row [OF disjI1]) (simp add: resolve_by_name_def)
next
  case name: None
  show ?thesis
  proof (cases "step_of prefer (\<lambda>n. Option.bind (gnode_metadata n) (fqn_of E) = Some input) (query_nodes E G p wanted None None 5000 g)")
    case (Some r)
    with assms name show ?thesis by (intro step_row [OF disjI1]) (simp add: resolve_by_name_def)
  next
    case None
    with assms name show ?thesis
      by (intro step_row [OF disjI2]) (simp add: resolve_by_name_def Let_def split: if_splits option.splits)
  qed
qed

lemma resolved_row:
  assumes "resolve_symbol E G p input wanted prefer g = Inr (Unique n)"
  shows "n \<in> row_nodes G g"
  using assms named_row read_row unfolding resolve_symbol_def by (auto split: if_splits option.splits)

lemma target_row:
  assumes "try_resolve_unresolved_target E G p i target g = Some j"
  shows "j \<in> node_id ` row_nodes G g"
  using assms resolved_row unfolding try_resolve_unresolved_target_def Let_def
  by (auto split: if_splits sum.splits resolve_result.splits)

section \<open>The traversal of a graph\<close>

definition graph_hop ::
  "graph_env \<Rightarrow> graph_codecs \<Rightarrow> string \<Rightarrow> edge_kind list option \<Rightarrow> string \<Rightarrow> graph_store \<Rightarrow> string \<Rightarrow> string \<Rightarrow> bool" where
  "graph_hop E G p kinds direction g = hop_rel (\<lambda>i. hop_ids p kinds direction i g) (resolved_id E G p g)"

lemma hop_ids_total:
  assumes g: "represents G M g" and p: "key_ok p"
  shows "\<exists>ns. hop_ids p kinds direction i g = Inr ns"
proof -
  have found: "\<exists>rows. find_incoming_edges p k i 100 g = Inr rows" for k
    by (simp add: find_incoming_edges_def find_incoming_edges_with_kind_def incoming_run [OF g p])
  have near: "\<exists>rows. neighbors p k i 100 g = Inr rows" for k by (simp add: neighbors_run [OF g p])
  have "\<exists>rows. traverseR (\<lambda>k. find_incoming_edges p (Some k) i 100 g) ks = Inr rows" for ks
    using traverseR_units [of "\<lambda>k. find_incoming_edges p (Some k) i 100 g" ks] found by blast
  then have "\<exists>xs. incoming_ids p kinds i g = Inr xs" using found by (cases kinds) (auto simp: incoming_ids_def)
  moreover have "\<exists>rows. traverseR (\<lambda>k. neighbors p k i 100 g) ks = Inr rows" for ks
    using traverseR_units [of "\<lambda>k. neighbors p k i 100 g" ks] near by blast
  then have "\<exists>xs. outgoing_ids p kinds i g = Inr xs" by (auto simp: outgoing_ids_def)
  ultimately show ?thesis by (auto simp: hop_ids_def)
qed

lemma get_node_map:
  assumes g: "represents G M g" and G: "graph_codecs_ok G" and p: "key_ok p"
  shows "\<exists>x. get_node G p i g = Inr x \<and> (\<forall>n. x = Some n \<longrightarrow> node_id n = i \<and> node_map M (p, i) = Some n)"
proof (cases "fmlookup (node_rows g) (composite p i)")
  case (Some v)
  with representsD(1) [OF g] obtain x n where x: "node_map M x = Some n" "composite p i = node_key x" "v = to_vec (node_bin G) n"
    unfolding image_of_def by metis
  then have "x \<in> node_ids" using represents_dom(1) [OF g] by auto
  with x(2) p have "x = (p, i)" by (cases x) (simp add: node_key_def node_ids_def composite_def sep_append_inj)
  with x(1) representsD(6) [OF g] have "node_id n = i" by simp
  with \<open>x = (p, i)\<close> Some x(1,3) G show ?thesis by (simp add: get_node_def graph_codecs_ok_def)
qed (simp add: get_node_def)

lemma get_node_total:
  assumes "represents G M g" and "graph_codecs_ok G" and "key_ok p"
  shows "\<exists>x. get_node G p i g = Inr x \<and> (\<forall>n. x = Some n \<longrightarrow> node_id n = i)"
  using get_node_map [OF assms, of i] by blast

lemma hops_bounded:
  "hop_ids p kinds direction i g = Inr ns \<Longrightarrow> resolved_id E G p g i ` set ns
    \<subseteq> snd ` fset (fmdom (adj_in g)) \<union> snd ` fset (fmdom (adj_out g)) \<union> node_id ` row_nodes G g"
  using hop_ids_known [of p kinds direction i g ns] target_row by (fastforce simp: resolved_id_def split: option.splits)

text \<open>The reported nodes are processed ones, each once.\<close>

lemma found_nodes_Cons:
  "found_nodes node [] = []"
  "found_nodes node ((i, d) # P) = (case node i of Inr (Some n) \<Rightarrow> [(n, d)] | _ \<Rightarrow> []) @ found_nodes node P"
  by (simp_all add: found_nodes_def List.map_filter_def split: sum.split option.split)

lemma found_nodes_step:
  "found_nodes node ((i, d) # P) = found_nodes node P
    \<or> (\<exists>n. node i = Inr (Some n) \<and> found_nodes node ((i, d) # P) = (n, d) # found_nodes node P)"
  by (simp add: found_nodes_Cons split: sum.split option.split)

lemma found_nodes_ids:
  assumes "\<And>i n. node i = Inr (Some n) \<Longrightarrow> node_id n = i"
  shows "set (map (\<lambda>x. node_id (fst x)) (found_nodes node P)) \<subseteq> fst ` set P"
    and "distinct (map fst P) \<Longrightarrow> distinct (map (\<lambda>x. node_id (fst x)) (found_nodes node P))"
proof -
  show s: "set (map (\<lambda>x. node_id (fst x)) (found_nodes node P)) \<subseteq> fst ` set P" for P :: "(string \<times> nat) list"
  proof (induction P)
    case (Cons x P)
    obtain i d where x: "x = (i, d)" by (cases x)
    from found_nodes_step [of node i d P] consider "found_nodes node (x # P) = found_nodes node P"
      | n where "node i = Inr (Some n)" "found_nodes node (x # P) = (n, d) # found_nodes node P"
      unfolding x by blast
    then show ?case
    proof cases
      case (2 n)
      with assms [OF 2(1)] Cons.IH x show ?thesis by (simp add: subset_insertI2)
    qed (use Cons.IH in \<open>simp add: subset_insertI2\<close>)
  qed (simp add: found_nodes_Cons)
  show "distinct (map fst P) \<Longrightarrow> distinct (map (\<lambda>x. node_id (fst x)) (found_nodes node P))"
  proof (induction P)
    case (Cons x P)
    obtain i d where x: "x = (i, d)" by (cases x)
    from found_nodes_step [of node i d P] consider "found_nodes node (x # P) = found_nodes node P"
      | n where "node i = Inr (Some n)" "found_nodes node (x # P) = (n, d) # found_nodes node P"
      unfolding x by blast
    then show ?case
    proof cases
      case (2 n)
      have "node_id n \<notin> set (map (\<lambda>x. node_id (fst x)) (found_nodes node P))"
        using s [of P] assms [OF 2(1)] Cons.prems x by auto
      with 2(2) Cons show ?thesis by simp
    qed (use Cons in simp)
  qed (simp add: found_nodes_Cons)
qed

lemma hop_walk_mono: "hop_walk R d i j \<Longrightarrow> (\<And>a b. R a b \<Longrightarrow> R' a b) \<Longrightarrow> hop_walk R' d i j"
  by (induction d arbitrary: j) auto

lemma hop_walk_narrow:
  assumes "\<And>c k b. c < m \<Longrightarrow> hop_walk R c i k \<Longrightarrow> R k b \<Longrightarrow> R' k b"
  shows "d \<le> m \<Longrightarrow> hop_walk R d i j \<Longrightarrow> hop_walk R' d i j"
proof (induction d arbitrary: j)
  case (Suc d)
  then obtain k where "hop_walk R d i k" "R k j" by auto
  with Suc assms [of d k j] show ?case by auto
qed simp

text \<open>The hops of the code are hops along stored edges, and at a narrow node they are all of them.\<close>

lemma graph_hop_edges:
  assumes g: "represents G M g" and G: "graph_codecs_ok G" and p: "key_ok p"
  shows "graph_hop E G p kinds direction g a b \<Longrightarrow> edge_hop E G p kinds direction g a b"
    and "narrow_node G p kinds direction g a \<Longrightarrow> edge_hop E G p kinds direction g a b \<Longrightarrow> graph_hop E G p kinds direction g a b"
proof -
  obtain ns where ns: "hop_ids p kinds direction a g = Inr ns"
    "set ns \<subseteq> other_end a ` admitted_edges G p kinds direction g a"
    "narrow_node G p kinds direction g a \<longrightarrow> set ns = other_end a ` admitted_edges G p kinds direction g a"
    using hop_ids_edges [OF g G p] by blast
  show "graph_hop E G p kinds direction g a b \<Longrightarrow> edge_hop E G p kinds direction g a b"
    using ns(1,2) unfolding graph_hop_def hop_rel_def edge_hop_def by auto
  show "narrow_node G p kinds direction g a \<Longrightarrow> edge_hop E G p kinds direction g a b \<Longrightarrow> graph_hop E G p kinds direction g a b"
    using ns(1,3) unfolding graph_hop_def hop_rel_def edge_hop_def by blast
qed

text \<open>
  C23. The breadth-first traversal returns on every graph that calls have built, cyclic ones included. Its
  result names at most 500 nodes and none twice; each is stored, within the hop bound, and reached
  from the start by exactly as many hops as it is reported with, where a hop follows a stored edge
  of an admitted kind in an admitted direction to its other end, resolved to a symbol if it is an
  unresolved name. The code cuts the hops of a node at 50; so unless the result is full, and if at
  most 50 admitted edges touch each node that fewer hops than the bound reach, every stored node
  within the bound is reported, with no more hops than any way to it has.
\<close>

theorem traverse_returns_reachable:
  assumes "built G g" and "key_ok p"
  shows "\<exists>res. traverse E G p start max_hops kinds direction g = Some (Inr res) \<and> length res \<le> 500
    \<and> distinct (map (\<lambda>x. node_id (fst x)) res)
    \<and> (\<forall>(n, d) \<in> set res. d \<le> max_hops \<and> hop_walk (edge_hop E G p kinds direction g) d start (node_id n)
        \<and> get_node G p (node_id n) g = Inr (Some n))
    \<and> (length res < 500
        \<and> (\<forall>d i. d < max_hops \<and> hop_walk (edge_hop E G p kinds direction g) d start i \<longrightarrow> narrow_node G p kinds direction g i)
       \<longrightarrow> (\<forall>d i n. d \<le> max_hops \<and> hop_walk (edge_hop E G p kinds direction g) d start i
             \<and> get_node G p i g = Inr (Some n) \<longrightarrow> (\<exists>e \<le> d. (n, e) \<in> set res)))"
proof -
  obtain M where G: "graph_codecs_ok G" and g: "represents G M g" using built_represents [OF assms(1)] by blast
  let ?node = "\<lambda>i. get_node G p i g" and ?hops = "\<lambda>i. hop_ids p kinds direction i g" and ?r = "resolved_id E G p g"
  let ?U = "insert start (snd ` fset (fmdom (adj_in g)) \<union> snd ` fset (fmdom (adj_out g)) \<union> node_id ` row_nodes G g)"
  have U: "finite ?U" using finite_row_nodes by simp
  have hops: "\<exists>ns. ?hops i = Inr ns \<and> ?r i ` set ns \<subseteq> ?U" for i
    using hop_ids_total [OF g assms(2)] hops_bounded by (metis subset_insertI2)
  have node: "\<exists>x. ?node i = Inr x" for i using get_node_total [OF g G assms(2)] by blast
  have "traversed (hop_rel ?hops ?r) ?node max_hops start [] [(start, 0)] {start} []"
    by (simp add: traversed_def found_nodes_def List.map_filter_def)
  from traverse_loop_returns [where hops = ?hops and r = ?r and U = ?U, OF U hops node this] obtain P q v res where
    run: "traverse E G p start max_hops kinds direction g = Some (Inr res)"
      "traversed (graph_hop E G p kinds direction g) ?node max_hops start P q v res" "q = [] \<or> 500 \<le> length res"
    unfolding traverse_def graph_hop_def by auto
  have res: "res = found_nodes ?node P" "length res \<le> 500" using run(2) unfolding traversed_def by blast+
  have member: "(n, d) \<in> set res \<longleftrightarrow> (\<exists>i. (i, d) \<in> set P \<and> ?node i = Inr (Some n))" for n d
    unfolding res(1) found_nodes_def List.map_filter_def by (force split: sum.splits option.splits)
  note hop = graph_hop_edges [OF g G assms(2)]
  have ids: "node_id n = i" if "?node i = Inr (Some n)" for i n
    using get_node_total [OF g G assms(2), of i] that by auto
  have "distinct (map fst P)" using run(2) by (simp add: traversed_def)
  with found_nodes_ids(2) [of ?node P] ids have "distinct (map (\<lambda>x. node_id (fst x)) res)" unfolding res(1) by blast
  moreover have "d \<le> max_hops \<and> hop_walk (edge_hop E G p kinds direction g) d start (node_id n) \<and> ?node (node_id n) = Inr (Some n)"
    if nd: "(n, d) \<in> set res" for n d
  proof -
    obtain i where i: "(i, d) \<in> set P" "?node i = Inr (Some n)" using nd member by blast
    have "hop_walk (graph_hop E G p kinds direction g) d start i" "d \<le> max_hops"
      using i(1) run(2) by (auto simp: traversed_def)
    moreover from this(1) have "hop_walk (edge_hop E G p kinds direction g) d start i" by (rule hop_walk_mono) (rule hop(1))
    ultimately show ?thesis using ids [OF i(2)] i(2) by blast
  qed
  moreover have "\<exists>e \<le> d. (n, e) \<in> set res"
    if "length res < 500" "d \<le> max_hops" "hop_walk (edge_hop E G p kinds direction g) d start i" "?node i = Inr (Some n)"
      and narrow: "\<forall>d i. d < max_hops \<and> hop_walk (edge_hop E G p kinds direction g) d start i \<longrightarrow> narrow_node G p kinds direction g i" for d i n
  proof -
    have "q = []" using run(3) that(1) by simp
    have "hop_walk (graph_hop E G p kinds direction g) d start i"
      by (rule hop_walk_narrow [OF _ that(2,3)]) (use narrow hop(2) in blast)
    from traversed_complete [OF run(2) [unfolded \<open>q = []\<close>] that(2) this] that(4) member show ?thesis by blast
  qed
  ultimately show ?thesis using run(1) res(2) by blast
qed

section \<open>A traversal of a small graph\<close>

definition sample_env :: graph_env where
  "sample_env = \<lparr> lower_of = id, fqn_of = (\<lambda>_. None), unbound_of = (\<lambda>_. False), strict_node = from_slice (node_bin G0),
     strict_edge = from_slice (edge_bin G0) \<rparr>"

definition sample_symbol :: "string \<Rightarrow> graph_node" where
  "sample_symbol i = \<lparr> node_id = i, node_type = ''function'', gnode_name = i, gnode_namespace = NAMESPACE_MEMORY, gnode_language = ''rust'',
     file_path = ''m.rs'', gnode_start_line = 1, gnode_end_line = 2, gnode_generation = 4, gnode_metadata = None \<rparr>"

definition hop_calls :: "graph_call list" where
  "hop_calls = [UpsertNodes ''p'' [sample_symbol ''a'', sample_symbol ''b''], UpsertEdges ''p'' [call_edge ''a'' ''b'' 1]]"

lemma hop_calls_run:
  "list_all graph_call_ok hop_calls"
  "node_map (fold graph_spec hop_calls no_maps)
     = (\<lambda>_. None) ((''p'', ''a'') \<mapsto> sample_symbol ''a'', (''p'', ''b'') \<mapsto> sample_symbol ''b'')"
  "edge_map (fold graph_spec hop_calls no_maps) = (\<lambda>_. None) ((''p'', Calls, ''a'', ''b'') \<mapsto> call_edge ''a'' ''b'' 1)"
proof -
  show "list_all graph_call_ok hop_calls" by (simp add: hop_calls_def)
  show "node_map (fold graph_spec hop_calls no_maps)
     = (\<lambda>_. None) ((''p'', ''a'') \<mapsto> sample_symbol ''a'', (''p'', ''b'') \<mapsto> sample_symbol ''b'')"
    "edge_map (fold graph_spec hop_calls no_maps) = (\<lambda>_. None) ((''p'', Calls, ''a'', ''b'') \<mapsto> call_edge ''a'' ''b'' 1)"
    by (simp_all add: hop_calls_def sample_symbol_def call_edge_def nodes_ok_def edges_ok_def edge_ok_def
      add_node_def inheriting_def add_edge_def put_edge_def edge_id_def no_maps_def fun_eq_iff)
qed

text \<open>Two stored nodes and the call between them: the traversal from the caller reports the callee.\<close>

theorem traverse_returns_reachable_witness:
  "\<exists>g res d. run_graph_calls G0 hop_calls empty_graph = Some g
    \<and> traverse sample_env G0 ''p'' ''a'' 2 None ''out'' g = Some (Inr res) \<and> d \<le> 1 \<and> (sample_symbol ''b'', d) \<in> set res"
proof -
  obtain g where g: "run_graph_calls G0 hop_calls empty_graph = Some g" "represents G0 (fold graph_spec hop_calls no_maps) g"
    using run_graph_calls_represents [OF wire_graph_ok represents_empty hop_calls_run(1)] by blast
  have nodes: "get_node G0 ''p'' i g = Inr (Some n) \<longleftrightarrow> n = sample_symbol i \<and> (i = ''a'' \<or> i = ''b'')" if "key_ok i" for i n
    using that by (auto simp: read_node [OF g(2) wire_graph_ok] hop_calls_run(2))
  have st: "stored G0 ''p'' g e \<longleftrightarrow> e = call_edge ''a'' ''b'' 1" for e
    by (auto simp: stored_represents [OF g(2) wire_graph_ok sample_keys(1)] hop_calls_run(3) edge_id_def call_edge_def)
  let ?hop = "edge_hop sample_env G0 ''p'' None ''out'' g" and ?narrow = "narrow_node G0 ''p'' None ''out'' g"
  have narrow: "?narrow i" for i
  proof -
    have "admitted_edges G0 ''p'' None ''out'' g i \<subseteq> {call_edge ''a'' ''b'' 1}" by (auto simp: admitted_edges_def st)
    from card_mono [OF _ this] show ?thesis by (simp add: narrow_node_def)
  qed
  have "call_edge ''a'' ''b'' 1 \<in> admitted_edges G0 ''p'' None ''out'' g ''a''"
    by (simp add: admitted_edges_def st admitted_kind_def call_edge_def)
  moreover have "resolved_id sample_env G0 ''p'' g ''a'' (other_end ''a'' (call_edge ''a'' ''b'' 1)) = ''b''"
    by (simp add: resolved_id_def try_resolve_unresolved_target_def other_end_def call_edge_def)
  ultimately have "?hop ''a'' ''b''" unfolding edge_hop_def by metis
  then have walk: "hop_walk ?hop 1 ''a'' ''b''" by simp
  have start: "get_node G0 ''p'' ''b'' g = Inr (Some (sample_symbol ''b''))" using nodes [of "''b''"] by simp
  obtain res where res: "traverse sample_env G0 ''p'' ''a'' 2 None ''out'' g = Some (Inr res)"
      "distinct (map (\<lambda>x. node_id (fst x)) res)"
      "\<forall>(n, d) \<in> set res. d \<le> 2 \<and> hop_walk ?hop d ''a'' (node_id n) \<and> get_node G0 ''p'' (node_id n) g = Inr (Some n)"
    and complete: "length res < 500 \<and> (\<forall>d i. d < 2 \<and> hop_walk ?hop d ''a'' i \<longrightarrow> ?narrow i)
      \<longrightarrow> (\<forall>d i n. d \<le> 2 \<and> hop_walk ?hop d ''a'' i \<and> get_node G0 ''p'' i g = Inr (Some n) \<longrightarrow> (\<exists>e \<le> d. (n, e) \<in> set res))"
    using traverse_returns_reachable [OF built_calls [OF wire_graph_ok hop_calls_run(1) g(1)] sample_keys(1), of sample_env "''a''" 2 None "''out''"]
    by (elim exE conjE) (rule that; assumption)
  have ids: "set (map (\<lambda>x. node_id (fst x)) res) \<subseteq> {''a'', ''b''}"
  proof
    fix i assume "i \<in> set (map (\<lambda>x. node_id (fst x)) res)"
    then obtain n d where "(n, d) \<in> set res" "i = node_id n" by auto
    with res(3) have "get_node G0 ''p'' i g = Inr (Some n)" by blast
    then have "node_map (fold graph_spec hop_calls no_maps) (''p'', i) = Some n"
      using get_node_map [OF g(2) wire_graph_ok sample_keys(1), of i] by auto
    then show "i \<in> {''a'', ''b''}" by (auto simp: hop_calls_run(2) split: if_splits)
  qed
  have "length res = card (set (map (\<lambda>x. node_id (fst x)) res))" using distinct_card [OF res(2)] by simp
  also have "\<dots> \<le> 2" using card_mono [OF _ ids] by simp
  finally have "length res < 500" by simp
  with complete narrow have "\<exists>e \<le> 1. (sample_symbol ''b'', e) \<in> set res" using walk start by (metis one_le_numeral)
  with g(1) res(1) show ?thesis by blast
qed

end
