(* ===== verification/Migration_Graph.thy ===== *)
theory Migration_Graph
  imports Migration_Properties Graph_Search_Properties
begin

text \<open>
  The migration order planner on the graph database: its two queries are \<open>query_nodes\<close> for the file
  nodes and \<open>list_edges_by_kind\<close> for the edges, with the limits of \<open>migration_order_service.rs\<close>.
  While the project stays below the limits, the plan orders the files by the dependencies that are
  stored in the graph.
\<close>

section \<open>The planner's queries\<close>

definition stored_files :: "graph_env \<Rightarrow> graph_codecs \<Rightarrow> graph_store \<Rightarrow> string \<Rightarrow> graph_node list res" where
  "stored_files E G g p = query_nodes E G p (Some ''file'') None None 50000 g"

definition stored_edges :: "graph_codecs \<Rightarrow> graph_store \<Rightarrow> string \<Rightarrow> edge_kind \<Rightarrow> graph_edge list res" where
  "stored_edges G g p kind = list_edges_by_kind G p kind 200000 g"

definition plan_stored_graph ::
  "(string list \<Rightarrow> string list) \<Rightarrow> (nat \<Rightarrow> string list \<Rightarrow> string list) \<Rightarrow> graph_env \<Rightarrow> graph_codecs \<Rightarrow> graph_store \<Rightarrow> string
     \<Rightarrow> migration_order_plan res option" where
  "plan_stored_graph order theme_order E G g p =
     suggest_migration_order order theme_order (lower_of E) (stored_files E G g) (stored_edges G g) p"

lemma file_rows:
  assumes g: "represents G M g" and G: "graph_codecs_ok G" and p: "key_ok p" and few: "count_nodes_by_type G p g ''file'' \<le> 50000"
  shows "stored_files E G g p = Inr (filter (\<lambda>n. node_type n = ''file'') (nodes_of M p))"
proof -
  have sel: "node_selected E (Some ''file'') None None Substring = (\<lambda>n. node_type n = ''file'')"
    by (simp add: node_selected_def fun_eq_iff)
  have "count_nodes_by_type G p g ''file'' = length (filter (\<lambda>n. node_type n = ''file'') (nodes_of M p))"
  proof -
    have "List.map_filter (\<lambda>(_, v). from_slice (node_bin G) v) (map (\<lambda>n. (composite p (node_id n), to_vec (node_bin G) n)) ns) = ns" for ns
      using G by (induction ns) (simp_all add: graph_codecs_ok_def codec_ok_def List.map_filter_simps)
    then show ?thesis by (simp add: count_nodes_by_type_def node_scan(2) [OF g p])
  qed
  with few show ?thesis by (simp add: stored_files_def query_nodes_def query_run [OF g G p] sel)
qed

text \<open>The rows of one kind are the edges of the kind, and they are what the code counts.\<close>

lemma kind_edges:
  assumes g: "represents G M g" and G: "graph_codecs_ok G" and p: "key_ok p"
  shows "\<exists>es. traverseR (decode (edge_bin G)) (map snd (prefix_scan (kind_prefix p k) (edge_rows g))) = Inr es
    \<and> set es = {e. edge_map M (edge_id p e) = Some e \<and> gedge_kind e = k}"
proof -
  let ?c = "edge_bin G"
  have c: "codec_ok ?c" using G by (simp add: graph_codecs_ok_def)
  have dec: "from_slice ?c (to_vec ?c e) = Some e" for e using c by (simp add: codec_ok_def)
  have row: "(key, v) \<in> set (prefix_scan (kind_prefix p k) (edge_rows g)) \<longleftrightarrow>
      (\<exists>e. edge_map M (edge_id p e) = Some e \<and> gedge_kind e = k \<and> key = row_key (edge_id p e) \<and> v = to_vec ?c e)" for key v
    by (simp add: stored_kind_rows [OF g G p] stored_represents [OF g G p])
  let ?es = "map (\<lambda>v. the (from_slice ?c v)) (map snd (prefix_scan (kind_prefix p k) (edge_rows g)))"
  have "traverseR (decode ?c) (map snd (prefix_scan (kind_prefix p k) (edge_rows g))) = Inr ?es"
    by (rule traverseR_map_Inr) (use row dec in \<open>force simp: decode_def\<close>)
  moreover have "set ?es = {e. edge_map M (edge_id p e) = Some e \<and> gedge_kind e = k}"
  proof (intro set_eqI iffI)
    fix e assume "e \<in> set ?es"
    then obtain key v where kv: "(key, v) \<in> set (prefix_scan (kind_prefix p k) (edge_rows g))" "e = the (from_slice ?c v)" by force
    then show "e \<in> {e. edge_map M (edge_id p e) = Some e \<and> gedge_kind e = k}" using row dec by auto
  next
    fix e assume "e \<in> {e. edge_map M (edge_id p e) = Some e \<and> gedge_kind e = k}"
    then have "(row_key (edge_id p e), to_vec ?c e) \<in> set (prefix_scan (kind_prefix p k) (edge_rows g))" using row by blast
    then have "the (from_slice ?c (snd (row_key (edge_id p e), to_vec ?c e))) \<in> set ?es" unfolding set_map by blast
    then show "e \<in> set ?es" by (simp only: snd_conv dec option.sel)
  qed
  ultimately show ?thesis by blast
qed

lemma kind_count:
  assumes g: "represents G M g" and p: "key_ok p"
  shows "count_edges_by_kind p g (as_str_kind k) = length (prefix_scan (kind_prefix p k) (edge_rows g))"
proof -
  have "(prefix (p @ [NUL]) key \<and> kind_segment p key = as_str_kind k) = prefix (kind_prefix p k) key"
    if row: "(key, v) \<in> set (iter (edge_rows g))" for key v
  proof -
    have "fmlookup (edge_rows g) key = Some v" using row by (simp add: set_iter)
    from image_of_keys [OF representsD(2) [OF g] this] obtain x where x: "x \<in> edge_ids" "key = row_key x" by blast
    obtain q l s t where q: "x = (q, l, s, t)" by (cases x)
    have "kind_segment p key = as_str_kind l" if "q = p"
    proof -
      have "NUL \<notin> set (as_str_kind l)" using kind_name_ok by simp
      then have "takeWhile (\<lambda>c. c \<noteq> NUL) (as_str_kind l @ NUL # r) = as_str_kind l" for r
        by (subst takeWhile_append2) auto
      then show ?thesis using that by (simp add: x(2) q row_key_def edge_key_def kind_segment_def)
    qed
    then show ?thesis
      using project_prefix_keys(2) [OF p x(1)] kind_prefix_keys(1) [OF p x(1), of k] by (auto simp: x(2) q kind_name_inj)
  qed
  then have "(prefix (p @ [NUL]) (fst kv) \<and> kind_segment p (fst kv) = as_str_kind k) = prefix (kind_prefix p k) (fst kv)"
    if "kv \<in> set (iter (edge_rows g))" for kv using that by (metis prod.collapse)
  then have "filter (\<lambda>kv. prefix (p @ [NUL]) (fst kv) \<and> kind_segment p (fst kv) = as_str_kind k) (iter (edge_rows g))
      = filter (\<lambda>kv. prefix (kind_prefix p k) (fst kv)) (iter (edge_rows g))"
    by (intro filter_cong refl)
  moreover have "count_edges_by_kind p g (as_str_kind k)
      = length (filter (\<lambda>kv. prefix (p @ [NUL]) (fst kv) \<and> kind_segment p (fst kv) = as_str_kind k) (iter (edge_rows g)))"
    by (simp add: count_edges_by_kind_def prefix_scan_filter case_prod_beta conj_commute)
  ultimately show ?thesis by (simp only: prefix_scan_filter)
qed

lemma kind_rows_all:
  assumes g: "represents G M g" and G: "graph_codecs_ok G" and p: "key_ok p" and few: "count_edges_by_kind p g (as_str_kind k) \<le> 200000"
  shows "\<exists>es. stored_edges G g p k = Inr es \<and> set es = {e. edge_map M (edge_id p e) = Some e \<and> gedge_kind e = k}"
  using kind_edges [OF g G p, of k] few unfolding kind_count [OF g p] by (simp add: stored_edges_def list_edges_by_kind_def)

section \<open>The plan of a stored graph\<close>

lemma path_of_stored:
  assumes "distinct (map node_id nodes)" and "n \<in> set nodes"
  shows "path_of nodes (node_id n) = file_path n"
proof -
  have "node_by_id nodes (node_id n) = Some n"
    unfolding node_by_id_def
    by (rule map_of_is_SomeI) (use assms in \<open>simp_all add: comp_def rev_map [symmetric] distinct_rev image_iff\<close>)
  then show ?thesis by (simp add: path_of_def)
qed

lemma traverseR_row: "traverseR f xs = Inr ys \<Longrightarrow> x \<in> set xs \<Longrightarrow> f x = Inr y \<Longrightarrow> y \<in> set ys"
  by (induction xs arbitrary: ys) (auto split: sum.splits)

text \<open>A planned file follows the files of \<open>nodes\<close> it depends on, unless it stands alone on a cycle.\<close>

lemma planned_file:
  assumes st: "planned p nodes edges plan st" and d: "distinct (map node_id nodes)" and n: "n \<in> set nodes"
  shows "\<exists>w \<in> set (plan_waves plan). file_path n \<in> wf_path ` set (wave_files w) \<and>
    ((\<forall>e \<in> set edges. \<forall>m \<in> set nodes. source_id e = node_id n \<and> target_id e = node_id m \<longrightarrow> file_path m \<in> set (prerequisites w))
     \<or> length (wave_files w) = 1 \<and> (\<exists>c \<in> set (circular_dependencies plan). file_path n \<in> set c))"
proof -
  have "node_id n \<in> set (concat (waves st))" unfolding planned_waves(2) [OF st] using n by (simp add: all_ids_def)
  then obtain ws where "ws \<in> set (waves st)" "node_id n \<in> set ws" by auto
  then obtain k where k: "k < length (waves st)" "node_id n \<in> set (waves st ! k)" by (metis in_set_conv_nth)
  let ?w = "plan_waves plan ! k"
  have "wf_path ` set (wave_files ?w) = path_of nodes ` set (waves st ! k)"
    using mset_eq_setD [OF planned_waves(3) [OF st k(1)]] by simp
  then have f: "file_path n \<in> wf_path ` set (wave_files ?w)" using imageI [OF k(2), of "path_of nodes"] by (simp add: path_of_stored [OF d n])
  have pre: "file_path m \<in> set (prerequisites ?w)"
    if "\<forall>e \<in> set edges. source_id e = node_id n \<and> target_id e \<in> node_id ` set nodes \<longrightarrow> path_of nodes (target_id e) \<in> set (prerequisites ?w)"
      and "e \<in> set edges" "m \<in> set nodes" "source_id e = node_id n" "target_id e = node_id m" for e m
    using that(1) [rule_format, OF that(2)] that(3-5) by (simp add: path_of_stored [OF d that(3)])
  show ?thesis
  proof (rule bexI [where x = ?w], rule conjI [OF f])
    show "?w \<in> set (plan_waves plan)" using k(1) planned_waves(1) [OF st] by simp
    show "(\<forall>e \<in> set edges. \<forall>m \<in> set nodes. source_id e = node_id n \<and> target_id e = node_id m \<longrightarrow> file_path m \<in> set (prerequisites ?w))
      \<or> length (wave_files ?w) = 1 \<and> (\<exists>c \<in> set (circular_dependencies plan). file_path n \<in> set c)"
      using planned_dependencies [OF st k] unfolding path_of_stored [OF d n] by (rule disj_forward) (use pre in blast)+
  qed
qed

text \<open>
  C27. While a project has at most 50,000 file nodes and 200,000 edges of a kind, the planner returns a
  plan for its graph. In it every stored file stands in a wave whose prerequisites contain all
  files that stored dependency edges lead to, or it is alone in its wave and on a reported cycle.
\<close>

theorem planner_orders_stored_graph:
  assumes "built G g" and "key_ok p" and "permutes_lists order"
    and "count_nodes_by_type G p g ''file'' \<le> 50000" and "\<And>k. count_edges_by_kind p g (as_str_kind k) \<le> 200000"
  shows "\<exists>plan. plan_stored_graph order theme_order E G g p = Some (Inr plan)
    \<and> (\<forall>n. get_node G p (node_id n) g = Inr (Some n) \<and> key_ok (node_id n) \<and> node_type n = ''file'' \<longrightarrow>
        (\<exists>w \<in> set (plan_waves plan). file_path n \<in> wf_path ` set (wave_files w) \<and>
          ((\<forall>e m. stored G p g e \<and> gedge_kind e \<in> set DEP_KINDS \<and> source_id e = node_id n \<and> target_id e = node_id m
              \<and> get_node G p (node_id m) g = Inr (Some m) \<and> key_ok (node_id m) \<and> node_type m = ''file''
              \<longrightarrow> file_path m \<in> set (prerequisites w))
           \<or> length (wave_files w) = 1 \<and> (\<exists>c \<in> set (circular_dependencies plan). file_path n \<in> set c))))"
proof -
  obtain M where G: "graph_codecs_ok G" and g: "represents G M g" using built_represents [OF assms(1)] by (elim conjE exE) (rule that; assumption)
  define nodes where "nodes = filter (\<lambda>n. node_type n = ''file'') (nodes_of M p)"
  have files: "stored_files E G g p = Inr nodes" unfolding nodes_def by (rule file_rows [OF g G assms(2,4)])
  have in_nodes: "n \<in> set nodes \<longleftrightarrow> get_node G p (node_id n) g = Inr (Some n) \<and> node_type n = ''file''" if "key_ok (node_id n)" for n
    by (simp add: nodes_def read_node [OF g G assms(2) that] set_nodes_of(1) [OF g assms(2)] conj_commute)
  have d: "distinct (map node_id nodes)" unfolding nodes_def using set_nodes_of(2) [OF g assms(2)] by (rule distinct_map_filter)
  note kind = kind_rows_all [OF g G assms(2,5)]
  have "\<exists>es. stored_edges G g p k = Inr es" for k using kind [of k] by (elim exE conjE) (rule exI)
  then have rows: "\<exists>rows. traverseR (stored_edges G g p) ks = Inr rows" for ks by (simp only: traverseR_units simp_thms ball_triv)
  obtain dep_rows where r1: "traverseR (stored_edges G g p) DEP_KINDS = Inr dep_rows" using rows [of DEP_KINDS] ..
  obtain all_rows where r2: "traverseR (stored_edges G g p) ALL_KINDS = Inr all_rows" using rows [of ALL_KINDS] ..
  have dep: "e \<in> set (concat dep_rows)" if e: "stored G p g e" "gedge_kind e \<in> set DEP_KINDS" for e
  proof -
    obtain es where es: "stored_edges G g p (gedge_kind e) = Inr es" "set es = {d. edge_map M (edge_id p d) = Some d \<and> gedge_kind d = gedge_kind e}"
      using kind [of "gedge_kind e"] by (elim exE conjE) (rule that; assumption)
    have "e \<in> set es" using e(1) by (simp add: es(2) stored_represents [OF g G assms(2)])
    with traverseR_row [OF r1 e(2) es(1)] show ?thesis by (simp only: set_concat) (rule UN_I)
  qed
  from suggest_plan [of order "stored_files E G g" p nodes "stored_edges G g" dep_rows all_rows theme_order "lower_of E", OF assms(3) files r1 r2, folded plan_stored_graph_def]
  obtain plan where plan: "plan_stored_graph order theme_order E G g p = Some (Inr plan)"
    by (elim disjE exE conjE) (rule that; assumption)+
  obtain st where st: "planned p nodes (concat dep_rows) plan st"
    using suggest_planned [OF assms(3) files r1 plan [unfolded plan_stored_graph_def]] ..
  show ?thesis
  proof (intro exI conjI allI impI, rule plan, elim conjE)
    fix n assume n: "get_node G p (node_id n) g = Inr (Some n)" "key_ok (node_id n)" "node_type n = ''file''"
    have "n \<in> set nodes" using n(1,3) by (simp add: in_nodes [OF n(2)])
    from planned_file [OF st d this] obtain w where w: "w \<in> set (plan_waves plan)" "file_path n \<in> wf_path ` set (wave_files w)"
      and c: "(\<forall>e \<in> set (concat dep_rows). \<forall>m \<in> set nodes. source_id e = node_id n \<and> target_id e = node_id m \<longrightarrow> file_path m \<in> set (prerequisites w))
        \<or> length (wave_files w) = 1 \<and> (\<exists>c \<in> set (circular_dependencies plan). file_path n \<in> set c)"
      by (elim bexE conjE) (rule that; assumption)
    have pre: "file_path m \<in> set (prerequisites w)"
      if all: "\<forall>e \<in> set (concat dep_rows). \<forall>m \<in> set nodes. source_id e = node_id n \<and> target_id e = node_id m \<longrightarrow> file_path m \<in> set (prerequisites w)"
        and e: "stored G p g e \<and> gedge_kind e \<in> set DEP_KINDS \<and> source_id e = node_id n \<and> target_id e = node_id m
          \<and> get_node G p (node_id m) g = Inr (Some m) \<and> key_ok (node_id m) \<and> node_type m = ''file''" for e m
    proof -
      have "m \<in> set nodes" using e in_nodes [of m] by simp
      moreover have "e \<in> set (concat dep_rows)" by (rule dep) (use e in simp_all)
      ultimately show ?thesis using all e by blast
    qed
    show "\<exists>w \<in> set (plan_waves plan). file_path n \<in> wf_path ` set (wave_files w) \<and>
          ((\<forall>e m. stored G p g e \<and> gedge_kind e \<in> set DEP_KINDS \<and> source_id e = node_id n \<and> target_id e = node_id m
              \<and> get_node G p (node_id m) g = Inr (Some m) \<and> key_ok (node_id m) \<and> node_type m = ''file''
              \<longrightarrow> file_path m \<in> set (prerequisites w))
           \<or> length (wave_files w) = 1 \<and> (\<exists>c \<in> set (circular_dependencies plan). file_path n \<in> set c))"
      by (rule bexI [OF _ w(1)], rule conjI [OF w(2)], rule disj_forward [OF c], intro allI impI, erule pre, assumption, assumption)
  qed
qed

section \<open>The plan of a small graph\<close>

text \<open>Below the limits: the rows of a query are no more than the entries of the map.\<close>

lemma count_nodes_bound:
  assumes g: "represents G M g" and p: "key_ok p" and i: "\<And>i. node_map M (p, i) \<noteq> None \<Longrightarrow> i \<in> set is"
  shows "count_nodes_by_type G p g t \<le> length is"
proof -
  have len: "length (filter P (List.map_filter f xs)) \<le> length xs" for P and f :: "'a \<Rightarrow> 'b option" and xs
    by (induction xs) (auto simp: List.map_filter_simps split: option.splits intro: le_SucI)
  have "length (prefix_scan (p @ [NUL]) (node_rows g)) = card {i. node_map M (p, i) \<noteq> None}"
    by (simp add: node_scan(2) [OF g p] nodes_of_def)
  also have "\<dots> \<le> card (set is)" by (rule card_mono) (use i in auto)
  also have "\<dots> \<le> length is" by (rule card_length)
  finally show ?thesis unfolding count_nodes_by_type_def by (rule order_trans [OF len])
qed

lemma count_edges_bound:
  assumes g: "represents G M g" and e: "\<And>x. edge_map M x \<noteq> None \<Longrightarrow> x \<in> set xs"
  shows "count_edges_by_kind p g name \<le> length xs"
proof -
  have "fmdom' (edge_rows g) \<subseteq> row_key ` set xs"
    using image_of_keys [OF representsD(2) [OF g]] representsD(2) [OF g] e unfolding image_of_def
    by (fastforce simp: fmdom'_alt_def fmlookup_dom_iff)
  then have "card (fmdom' (edge_rows g)) \<le> card (row_key ` set xs)" by (intro card_mono) simp_all
  also have "\<dots> \<le> length xs" using card_image_le [of "set xs" row_key] card_length [of xs] by simp
  finally have "length (iter (edge_rows g)) \<le> length xs" by (simp add: length_iter fcard.rep_eq fmdom'_alt_def)
  moreover have "count_edges_by_kind p g name \<le> length (iter (edge_rows g))"
    unfolding count_edges_by_kind_def prefix_scan_filter by (rule order_trans [OF length_filter_le length_filter_le])
  ultimately show ?thesis by simp
qed

definition file_calls :: "graph_call list" where
  "file_calls = [UpsertNodes ''p'' [sample_file ''a'', sample_file ''b''], UpsertEdges ''p'' [sample_edge ''a'' ''b'']]"

lemma file_calls_run:
  "list_all graph_call_ok file_calls"
  "node_map (fold graph_spec file_calls no_maps) = (\<lambda>_. None) ((''p'', ''a'') \<mapsto> sample_file ''a'', (''p'', ''b'') \<mapsto> sample_file ''b'')"
  "edge_map (fold graph_spec file_calls no_maps) = (\<lambda>_. None) ((''p'', Imports, ''a'', ''b'') \<mapsto> sample_edge ''a'' ''b'')"
  by (simp_all add: file_calls_def sample_file_def sample_edge_def nodes_ok_def edges_ok_def edge_ok_def
      add_node_def inheriting_def add_edge_def put_edge_def edge_id_def no_maps_def fun_eq_iff)

theorem planner_orders_stored_graph_witness:
  "\<exists>g plan. run_graph_calls G0 file_calls empty_graph = Some g
    \<and> plan_stored_graph id (\<lambda>_ xs. xs) sample_env G0 g ''p'' = Some (Inr plan)
    \<and> (\<exists>w \<in> set (plan_waves plan). ''a.cs'' \<in> wf_path ` set (wave_files w)
        \<and> (''b.cs'' \<in> set (prerequisites w) \<or> length (wave_files w) = 1))"
proof -
  obtain g where g: "run_graph_calls G0 file_calls empty_graph = Some g" "represents G0 (fold graph_spec file_calls no_maps) g"
    using run_graph_calls_represents [OF wire_graph_ok represents_empty file_calls_run(1)] by blast
  have "count_nodes_by_type G0 ''p'' g ''file'' \<le> length [''a'', ''b'']"
    by (rule count_nodes_bound [OF g(2) sample_keys(1)]) (simp add: file_calls_run(2) split: if_splits)
  then have nodes: "count_nodes_by_type G0 ''p'' g ''file'' \<le> 50000" by simp
  have "count_edges_by_kind ''p'' g (as_str_kind k) \<le> length [(''p'', Imports, ''a'', ''b'')]" for k
    by (rule count_edges_bound [OF g(2)]) (simp add: file_calls_run(3) split: if_splits)
  then have edges: "count_edges_by_kind ''p'' g (as_str_kind k) \<le> 200000" for k by (rule order_trans) simp
  have ids: "node_id (sample_file i) = i" "file_path (sample_file i) = i @ ''.cs''" "node_type (sample_file i) = ''file''" for i
    by (simp_all add: sample_file_def)
  have read: "get_node G0 ''p'' ''a'' g = Inr (Some (sample_file ''a''))" "get_node G0 ''p'' ''b'' g = Inr (Some (sample_file ''b''))"
    by (simp_all add: read_node [OF g(2) wire_graph_ok] file_calls_run(2))
  have stored: "stored G0 ''p'' g (sample_edge ''a'' ''b'')"
    using stored_represents [OF g(2) wire_graph_ok sample_keys(1)] by (simp add: file_calls_run(3) edge_id_def sample_edge_def)
  obtain plan where plan: "plan_stored_graph id (\<lambda>_ xs. xs) sample_env G0 g ''p'' = Some (Inr plan)"
    and all: "\<forall>n. get_node G0 ''p'' (node_id n) g = Inr (Some n) \<and> key_ok (node_id n) \<and> node_type n = ''file'' \<longrightarrow>
        (\<exists>w \<in> set (plan_waves plan). file_path n \<in> wf_path ` set (wave_files w) \<and>
          ((\<forall>e m. stored G0 ''p'' g e \<and> gedge_kind e \<in> set DEP_KINDS \<and> source_id e = node_id n \<and> target_id e = node_id m
              \<and> get_node G0 ''p'' (node_id m) g = Inr (Some m) \<and> key_ok (node_id m) \<and> node_type m = ''file''
              \<longrightarrow> file_path m \<in> set (prerequisites w))
           \<or> length (wave_files w) = 1 \<and> (\<exists>c \<in> set (circular_dependencies plan). file_path n \<in> set c)))"
    using planner_orders_stored_graph [OF built_calls [OF wire_graph_ok file_calls_run(1) g(1)] sample_keys(1) sample_order nodes edges,
        of "\<lambda>_ xs. xs" sample_env]
    by (elim exE conjE) (rule that; assumption)
  obtain w where w: "w \<in> set (plan_waves plan)" "''a.cs'' \<in> wf_path ` set (wave_files w)"
    and dep: "(\<forall>e m. stored G0 ''p'' g e \<and> gedge_kind e \<in> set DEP_KINDS \<and> source_id e = ''a'' \<and> target_id e = node_id m
              \<and> get_node G0 ''p'' (node_id m) g = Inr (Some m) \<and> key_ok (node_id m) \<and> node_type m = ''file''
              \<longrightarrow> file_path m \<in> set (prerequisites w)) \<or> length (wave_files w) = 1"
    using all [rule_format, of "sample_file ''a''"] by (simp add: ids read) blast
  have "''b.cs'' \<in> set (prerequisites w) \<or> length (wave_files w) = 1"
    using dep
  proof (rule disj_forward)
    assume a: "\<forall>e m. stored G0 ''p'' g e \<and> gedge_kind e \<in> set DEP_KINDS \<and> source_id e = ''a'' \<and> target_id e = node_id m
              \<and> get_node G0 ''p'' (node_id m) g = Inr (Some m) \<and> key_ok (node_id m) \<and> node_type m = ''file''
              \<longrightarrow> file_path m \<in> set (prerequisites w)"
    show "''b.cs'' \<in> set (prerequisites w)"
      using a [rule_format, of "sample_edge ''a'' ''b''" "sample_file ''b''"] stored
      by (simp add: ids read sample_edge_def DEP_KINDS_def)
  qed
  with g(1) plan w show ?thesis by blast
qed

end
