(* ===== verification/Graph_Paths.thy ===== *)
theory Graph_Paths
  imports Graph_Search_Properties
begin

text \<open>
  The search for paths from a user interface node to the database. Every entry of the search stands
  at the end of a walk along stored edges, which its parent chain spells; the paths that are
  reported are such walks that repeat no node and end at their first database node.
\<close>

section \<open>Trimming\<close>

text \<open>The steps that \<open>trim_end\<close> may take are enough: what it returns ends in no white space.\<close>

lemma trim_end_trims: "w \<in> set white_space \<Longrightarrow> \<not> suffix w (trim_end s)"
proof -
  assume w: "w \<in> set white_space"
  have ne: "v \<noteq> []" if "v \<in> set white_space" for v using that by (auto simp: white_space_def)
  have "\<not> suffix w (trim_end_steps n s)" if "length s \<le> n" for n
    using that
  proof (induction n arbitrary: s)
    case (Suc n)
    show ?case
    proof (cases "find (\<lambda>v. suffix v s) white_space")
      case None
      then have "\<not> suffix w s" using w by (auto simp: find_None_iff)
      then show ?thesis by (simp add: None)
    next
      case (Some v)
      then have "v \<in> set white_space" "suffix v s" by (auto simp: find_Some_iff)
      then have "0 < length v" "length v \<le> length s" using ne suffix_length_le by blast+
      then have "length (take (length s - length v) s) \<le> n" using Suc.prems unfolding length_take by arith
      with Some Suc.IH show ?thesis by simp
    qed
  qed (use ne [OF w] in simp)
  then show ?thesis by (simp add: trim_end_def)
qed

section \<open>Parent chains\<close>

text \<open>The walk from the root of the entries to an entry.\<close>

inductive entry_path :: "bfs_entries \<Rightarrow> nat \<Rightarrow> string list \<Rightarrow> bool" for es where
  root: "i < length es \<Longrightarrow> snd (es ! i) = None \<Longrightarrow> entry_path es i [fst (es ! i)]"
| child: "i < length es \<Longrightarrow> snd (es ! i) = Some j \<Longrightarrow> j < i \<Longrightarrow> entry_path es j path \<Longrightarrow> entry_path es i (path @ [fst (es ! i)])"

lemma parent_chain_None [simp]: "parent_chain n es None = []"
  by (cases n) simp_all

text \<open>A parent stands before its child, so a chain that may visit \<open>i + 1\<close> entries is the whole chain of entry \<open>i\<close>.\<close>

lemma entry_chain:
  "entry_path es i path \<Longrightarrow> i < n \<Longrightarrow> map (\<lambda>j. fst (es ! j)) (parent_chain n es (Some i)) = rev path"
proof (induction arbitrary: n rule: entry_path.induct)
  case (root i)
  then show ?case by (cases n) simp_all
next
  case (child i j path)
  then obtain m where "n = Suc m" "j < m" by (cases n) auto
  with child show ?case by simp
qed

lemma entry_path_facts:
  assumes "entry_path es i path"
  shows "i < length es" "path \<noteq> []" "last path = fst (es ! i)"
  using assms by (induction rule: entry_path.induct) simp_all

lemma entry_parents:
  assumes "entry_path es i path"
  shows "map (\<lambda>j. fst (es ! j)) (parent_chain (length es) es (snd (es ! i))) = rev (butlast path)"
  using assms by cases (simp_all add: entry_chain)

lemma entry_path_reads:
  assumes "entry_path es i path"
  shows "bfs_reconstruct_path es i = path" "bfs_depth es i = length path - 1" "bfs_path_contains es i t \<longleftrightarrow> t \<in> set (butlast path)"
proof -
  show "bfs_reconstruct_path es i = path"
    by (simp add: bfs_reconstruct_path_def entry_chain [OF assms entry_path_facts(1) [OF assms]])
  have "length (parent_chain (length es) es (snd (es ! i))) = length (rev (butlast path))"
    unfolding entry_parents [OF assms, symmetric] by simp
  then show "bfs_depth es i = length path - 1" by (simp add: bfs_depth_def)
  have "bfs_path_contains es i t \<longleftrightarrow> t \<in> set (map (\<lambda>j. fst (es ! j)) (parent_chain (length es) es (snd (es ! i))))"
    by (auto simp: bfs_path_contains_def list_ex_iff)
  then show "bfs_path_contains es i t \<longleftrightarrow> t \<in> set (butlast path)" unfolding entry_parents [OF assms] by simp
qed

lemma entry_path_append: "entry_path es i path \<Longrightarrow> entry_path (es @ xs) i path"
proof (induction rule: entry_path.induct)
  case (root i)
  then show ?case using entry_path.root [of i "es @ xs"] by (simp add: nth_append)
next
  case (child i j path)
  then show ?case using entry_path.child [of i "es @ xs" j path] by (simp add: nth_append)
qed

section \<open>The invariant of the search\<close>

definition walk_to :: "(string \<Rightarrow> graph_node option res) \<Rightarrow> (string \<Rightarrow> string \<Rightarrow> bool) \<Rightarrow> string \<Rightarrow> nat \<Rightarrow> string list \<Rightarrow> bool" where
  "walk_to node hop start m path \<longleftrightarrow> hd path = start \<and> successively hop path \<and> distinct (butlast path) \<and> length path \<le> m + 2
    \<and> (\<forall>i \<in> set (butlast path). \<exists>n. node i = Inr (Some n) \<and> \<not> is_database_terminal n)"

definition database_path :: "(string \<Rightarrow> graph_node option res) \<Rightarrow> (string \<Rightarrow> string \<Rightarrow> bool) \<Rightarrow> string \<Rightarrow> nat \<Rightarrow> string list \<Rightarrow> bool" where
  "database_path node hop start m path \<longleftrightarrow> path \<noteq> [] \<and> walk_to node hop start m path \<and> distinct path
    \<and> (\<exists>n. node (last path) = Inr (Some n) \<and> is_database_terminal n)"

definition ui_inv :: "(string \<Rightarrow> graph_node option res) \<Rightarrow> (string \<Rightarrow> string \<Rightarrow> bool) \<Rightarrow> string \<Rightarrow> nat \<Rightarrow> ui_state \<Rightarrow> bool" where
  "ui_inv node hop start m st \<longleftrightarrow>
     (\<forall>i < length (ui_entries st). \<exists>path. entry_path (ui_entries st) i path \<and> walk_to node hop start m path)
     \<and> (\<forall>i \<in> set (ui_queue st). i < length (ui_entries st))
     \<and> (\<forall>path \<in> set (ui_paths st). database_path node hop start m path)"

lemma ui_push_inv:
  assumes inv: "ui_inv node hop start m st" and path: "entry_path (ui_entries st) idx path" "walk_to node hop start m path"
    and d: "distinct path" and len: "length path \<le> m + 1" and n: "node (last path) = Inr (Some n)" "\<not> is_database_terminal n"
    and hop: "hop (last path) (resolved_id E G p g (last path) x)"
  shows "ui_inv node hop start m (ui_push E G p g idx x st) \<and> entry_path (ui_entries (ui_push E G p g idx x st)) idx path"
proof -
  let ?es = "ui_entries st" and ?next = "resolved_id E G p g (last path) x"
  let ?es' = "?es @ [(?next, Some idx)]"
  note f = entry_path_facts [OF path(1)]
  have new: "entry_path ?es' (length ?es) (path @ [?next])"
    using entry_path.child [of "length ?es" ?es' idx path] entry_path_append [OF path(1)] f(1) by simp
  have "set path = insert (last path) (set (butlast path))" using f(2) by (metis append_butlast_last_id set_append list.simps(15) Un_insert_right sup_bot_right list.set(1))
  then have w: "walk_to node hop start m (path @ [?next])"
    using path(2) d len n hop f(2) by (auto simp: walk_to_def successively_append_iff)
  have "\<exists>path. entry_path ?es' i path \<and> walk_to node hop start m path" if "i < length ?es'" for i
  proof (cases "i = length ?es")
    case True
    with new w show ?thesis by blast
  next
    case False
    with that have "i < length ?es" by simp
    from inv [unfolded ui_inv_def, THEN conjunct1, rule_format, OF this] show ?thesis using entry_path_append by blast
  qed
  then have "ui_inv node hop start m (st\<lparr>ui_entries := ?es', ui_queue := ui_queue st @ [length ?es]\<rparr>)"
    using inv by (auto simp: ui_inv_def less_Suc_eq)
  then show ?thesis
    using inv path(1) entry_path_append [OF path(1)] by (simp add: ui_push_def Let_def f(3) [symmetric])
qed

lemma ui_pushes_inv:
  assumes "entry_path (ui_entries st) idx path" "walk_to node hop start m path" "ui_inv node hop start m st"
    and "distinct path" "length path \<le> m + 1" "node (last path) = Inr (Some n)" "\<not> is_database_terminal n"
    and "\<And>x. x \<in> set xs \<Longrightarrow> hop (last path) (resolved_id E G p g (last path) x)"
  shows "ui_inv node hop start m (fold (ui_push E G p g idx) xs st)"
  using assms(1,3,8)
proof (induction xs arbitrary: st)
  case (Cons x xs)
  have "ui_inv node hop start m (ui_push E G p g idx x st) \<and> entry_path (ui_entries (ui_push E G p g idx x st)) idx path"
    by (rule ui_push_inv [OF Cons.prems(2,1) assms(2,4-7)]) (simp add: Cons.prems(3))
  then show ?case using Cons.IH Cons.prems(3) by simp
qed simp

section \<open>The search\<close>

lemma ui_step_inv:
  assumes inv: "ui_inv node hop start m st" and idx: "idx < length (ui_entries st)"
    and node: "node = (\<lambda>i. get_node G p i g)" "\<And>i. \<exists>x. node i = Inr x"
    and hops: "\<And>here. \<exists>ns. ui_neighbors p here g = Inr ns \<and> (\<forall>x \<in> set ns. hop here (resolved_id E G p g here x))"
    and few: "length (ui_paths st) < max 1 k"
  shows "\<exists>st' stop. ui_step E G p start m k g idx st = Inr (st', stop) \<and> ui_inv node hop start m st'
    \<and> length (ui_paths st') \<le> max 1 k \<and> (\<not> stop \<longrightarrow> length (ui_paths st') < max 1 k)"
proof -
  let ?here = "fst (ui_entries st ! idx)"
  obtain path where path: "entry_path (ui_entries st) idx path" "walk_to node hop start m path"
    using inv [unfolded ui_inv_def, THEN conjunct1, rule_format, OF idx] by blast
  note f = entry_path_facts [OF path(1)] and reads = entry_path_reads [OF path(1)]
  obtain found where found: "get_node G p ?here g = Inr found" using node by metis
  consider (missing) "found = None" | (seen) n where "found = Some n" "?here \<in> set (butlast path)"
    | (database) n where "found = Some n" "?here \<notin> set (butlast path)" "is_database_terminal n"
    | (far) n where "found = Some n" "?here \<notin> set (butlast path)" "\<not> is_database_terminal n" "m < length path - 1
        \<or> (case best_depth st ?here of Some prev \<Rightarrow> prev < length path - 1 \<and> ?here \<noteq> start | None \<Rightarrow> False)"
    | (near) n where "found = Some n" "?here \<notin> set (butlast path)" "\<not> is_database_terminal n" "length path - 1 \<le> m"
        "\<not> (case best_depth st ?here of Some prev \<Rightarrow> prev < length path - 1 \<and> ?here \<noteq> start | None \<Rightarrow> False)"
    by (metis not_le not_None_eq)
  then show ?thesis
  proof cases
    case missing
    with found inv few show ?thesis by (intro exI [of _ st] exI [of _ False]) (simp add: ui_step_def)
  next
    case seen
    with found inv few show ?thesis by (intro exI [of _ st] exI [of _ False]) (simp add: ui_step_def reads)
  next
    case database
    have "distinct path" using path(2) database(2) f(2,3) by (metis append_butlast_last_id distinct_append distinct_singleton walk_to_def
        disjoint_insert(1) inf_bot_right list.set)
    with path(2) f(2,3) database found node(1) have "database_path node hop start m path" by (auto simp: database_path_def)
    with inv have "ui_inv node hop start m (st\<lparr>ui_paths := ui_paths st @ [path]\<rparr>)" by (auto simp: ui_inv_def)
    with found database few show ?thesis
      by (intro exI [of _ "st\<lparr>ui_paths := ui_paths st @ [path]\<rparr>"] exI [of _ "k \<le> length (ui_paths st) + 1"]) (simp add: ui_step_def reads)
  next
    case far
    with found inv few show ?thesis
      by (intro exI [of _ st] exI [of _ False]) (cases "best_depth st ?here"; auto simp: ui_step_def reads Let_def)
  next
    case near
    obtain ns where ns: "ui_neighbors p ?here g = Inr ns" "\<forall>x \<in> set ns. hop ?here (resolved_id E G p g ?here x)" using hops by blast
    let ?st = "st\<lparr>best_depth := (best_depth st)(?here \<mapsto> length path - 1)\<rparr>"
    have d: "distinct path" using path(2) near(2) f(2,3) by (metis append_butlast_last_id distinct_append distinct_singleton walk_to_def
        disjoint_insert(1) inf_bot_right list.set)
    have "ui_inv node hop start m ?st" using inv by (simp add: ui_inv_def)
    then have "ui_inv node hop start m (fold (ui_push E G p g idx) ns ?st)"
      by (rule ui_pushes_inv [rotated 2]) (use path d near(1,3,4) found node(1) ns(2) f(2,3) in auto)
    moreover have "ui_paths (fold (ui_push E G p g idx) ns s) = ui_paths s" for s
      by (induction ns arbitrary: s) (simp_all add: ui_push_def Let_def)
    ultimately show ?thesis using found near ns(1) few
      by (intro exI [of _ "fold (ui_push E G p g idx) ns ?st"] exI [of _ False]) (cases "best_depth st ?here"; auto simp: ui_step_def reads Let_def)
  qed
qed

lemma ui_loop_inv:
  assumes node: "node = (\<lambda>i. get_node G p i g)" "\<And>i. \<exists>x. node i = Inr x"
    and hops: "\<And>here. \<exists>ns. ui_neighbors p here g = Inr ns \<and> (\<forall>x \<in> set ns. hop here (resolved_id E G p g here x))"
  shows "ui_inv node hop start m st \<Longrightarrow> length (ui_paths st) < max 1 k \<Longrightarrow>
    \<exists>st'. ui_loop E G p start m k g ops st = Inr st' \<and> ui_inv node hop start m st' \<and> length (ui_paths st') \<le> max 1 k"
proof (induction ops arbitrary: st)
  case (Suc ops)
  show ?case
  proof (cases "ui_queue st")
    case (Cons idx rest)
    have "ui_inv node hop start m (st\<lparr>ui_queue := rest\<rparr>)" "idx < length (ui_entries (st\<lparr>ui_queue := rest\<rparr>))"
      using Suc.prems(1) Cons by (simp_all add: ui_inv_def)
    from ui_step_inv [OF this node hops, where k = k] Suc.prems(2) obtain st' stop where
      step: "ui_step E G p start m k g idx (st\<lparr>ui_queue := rest\<rparr>) = Inr (st', stop)" "ui_inv node hop start m st'"
        "length (ui_paths st') \<le> max 1 k" "\<not> stop \<longrightarrow> length (ui_paths st') < max 1 k" by auto
    then show ?thesis using Cons Suc.IH [OF step(2)] by (cases stop) simp_all
  qed (use Suc.prems in simp)
qed simp

section \<open>Paths along stored edges\<close>

definition ui_hop :: "graph_env \<Rightarrow> graph_codecs \<Rightarrow> string \<Rightarrow> graph_store \<Rightarrow> string \<Rightarrow> string \<Rightarrow> bool" where
  "ui_hop E G p g a b \<longleftrightarrow>
     (\<exists>e. stored G p g e \<and> gedge_kind e \<in> set UI_KINDS \<and> source_id e = a \<and> b = resolved_id E G p g a (target_id e))"

lemma ui_neighbors_stored:
  assumes g: "represents G M g" and G: "graph_codecs_ok G" and p: "key_ok p"
  shows "\<exists>ns. ui_neighbors p here g = Inr ns \<and> (\<forall>x \<in> set ns. ui_hop E G p g here (resolved_id E G p g here x))"
proof -
  have "\<exists>rows. traverseR (\<lambda>k. neighbors p k here 100 g) UI_KINDS = Inr rows"
    by (simp only: traverseR_units neighbors_run [OF g p]) simp
  then obtain rows where rows: "traverseR (\<lambda>k. neighbors p k here 100 g) UI_KINDS = Inr rows" ..
  let ?ns = "take 30 (remdups_adj (sort (map fst (concat rows))))"
  have "ui_hop E G p g here (resolved_id E G p g here x)" if "x \<in> set ?ns" for x
  proof -
    from that obtain row w where row: "row \<in> set rows" "(x, w) \<in> set row" by (force dest: in_set_takeD)
    from traverseR_members [OF rows row(1)] obtain k where k: "k \<in> set UI_KINDS" "neighbors p k here 100 g = Inr row" by blast
    from k(2) row(2) obtain e where "e \<in> set (edges_from M p k here)" "x = target_id e"
      by (auto simp: neighbors_run [OF g p] dest!: in_set_takeD)
    then show ?thesis
      unfolding ui_hop_def stored_represents [OF g G p] set_edges_at(1) [OF g p] using k(1) by blast
  qed
  then show ?thesis by (simp add: ui_neighbors_def rows)
qed

lemma nodes_of_path:
  assumes "\<And>i. \<exists>x. get_node G p i g = Inr x \<and> (\<forall>n. x = Some n \<longrightarrow> node_id n = i)"
    and "\<forall>i \<in> set path. \<exists>n. get_node G p i g = Inr (Some n)"
  shows "\<exists>ns. bindR (traverseR (\<lambda>i. get_node G p i g) path) (\<lambda>xs. Inr (List.map_filter id xs)) = Inr ns \<and> map node_id ns = path
    \<and> (\<forall>n \<in> set ns. get_node G p (node_id n) g = Inr (Some n))"
  using assms(2)
proof (induction path)
  case (Cons i path)
  obtain n where n: "get_node G p i g = Inr (Some n)" using Cons.prems by auto
  then have "node_id n = i" using assms(1) [of i] by auto
  moreover have "\<forall>i \<in> set path. \<exists>n. get_node G p i g = Inr (Some n)" using Cons.prems by simp
  from Cons.IH [OF this] obtain ns where
    "bindR (traverseR (\<lambda>i. get_node G p i g) path) (\<lambda>xs. Inr (List.map_filter id xs)) = Inr ns" "map node_id ns = path"
    "\<forall>n \<in> set ns. get_node G p (node_id n) g = Inr (Some n)" by (elim exE conjE) (rule that; assumption)
  ultimately show ?case using n
    by (intro exI [of _ "n # ns"]) (auto simp: List.map_filter_simps id_def split: sum.splits)
qed (simp add: List.map_filter_simps)

text \<open>A database path, read back as the nodes on it.\<close>

lemma database_path_nodes:
  assumes total: "\<And>i. \<exists>x. get_node G p i g = Inr x \<and> (\<forall>n. x = Some n \<longrightarrow> node_id n = i)"
    and d: "database_path (\<lambda>i. get_node G p i g) (ui_hop E G p g) start m ids"
  shows "\<exists>ns. bindR (traverseR (\<lambda>i. get_node G p i g) ids) (\<lambda>xs. Inr (List.map_filter id xs)) = Inr ns
    \<and> ns \<noteq> [] \<and> node_id (hd ns) = start \<and> distinct (map node_id ns) \<and> length ns \<le> m + 2
    \<and> successively (\<lambda>a b. ui_hop E G p g (node_id a) (node_id b)) ns
    \<and> (\<forall>n \<in> set ns. get_node G p (node_id n) g = Inr (Some n))
    \<and> is_database_terminal (last ns) \<and> (\<forall>n \<in> set (butlast ns). \<not> is_database_terminal n)"
proof -
  let ?node = "\<lambda>i. get_node G p i g"
  have "set ids = set (butlast ids @ [last ids])" using d by (simp add: database_path_def)
  then have "\<forall>i \<in> set ids. \<exists>n. ?node i = Inr (Some n)" using d by (auto simp: database_path_def walk_to_def)
  from nodes_of_path [OF total this] obtain ns where run: "bindR (traverseR ?node ids) (\<lambda>xs. Inr (List.map_filter id xs)) = Inr ns"
    and ns: "map node_id ns = ids" "\<forall>n \<in> set ns. ?node (node_id n) = Inr (Some n)" by (elim exE conjE) (rule that; assumption)
  from d ns(1) have ne: "ns \<noteq> []" by (auto simp: database_path_def)
  have ids: "last ids = node_id (last ns)" "hd ids = node_id (hd ns)" "butlast ids = map node_id (butlast ns)"
    using ns(1) ne by (auto simp: last_map hd_map map_butlast)
  have inner: "\<not> is_database_terminal n" if n: "n \<in> set (butlast ns)" for n
  proof -
    have "node_id n \<in> set (butlast ids)" using n ids by simp
    with d obtain m where "?node (node_id n) = Inr (Some m)" "\<not> is_database_terminal m" unfolding database_path_def walk_to_def by blast
    with ns(2) in_set_butlastD [OF n] show ?thesis by simp
  qed
  have "?node (node_id (last ns)) = Inr (Some (last ns))" using ns(2) ne by simp
  with d ids have "is_database_terminal (last ns)" by (simp add: database_path_def)
  moreover have "successively (\<lambda>a b. ui_hop E G p g (node_id a) (node_id b)) ns" "distinct (map node_id ns)" "node_id (hd ns) = start" "length ns \<le> m + 2"
    using d ids unfolding ns(1) [symmetric] by (simp_all add: database_path_def walk_to_def successively_map)
  ultimately show ?thesis using run ne ns(2) inner by blast
qed

text \<open>
  C24. The search for database paths returns on every graph that calls have built. Each path it reports
  starts at the start node, follows stored edges of the admitted kinds (or the symbol that an
  unresolved target names), repeats no node, and ends at the first database node on it; it has at
  most one edge more than the hop bound. No more paths are reported than were asked for, except
  that a request for none still gets the first.
\<close>

theorem ui_paths_are_walks:
  assumes "built G g" and "key_ok p"
  shows "\<exists>paths. find_ui_paths E G p start max_hops max_paths g = Inr paths \<and> length paths \<le> max 1 max_paths
    \<and> (\<forall>ns \<in> set paths. ns \<noteq> [] \<and> node_id (hd ns) = start \<and> distinct (map node_id ns) \<and> length ns \<le> max_hops + 2
        \<and> successively (\<lambda>a b. ui_hop E G p g (node_id a) (node_id b)) ns
        \<and> (\<forall>n \<in> set ns. get_node G p (node_id n) g = Inr (Some n))
        \<and> is_database_terminal (last ns) \<and> (\<forall>n \<in> set (butlast ns). \<not> is_database_terminal n))"
proof -
  obtain M where G: "graph_codecs_ok G" and g: "represents G M g" using built_represents [OF assms(1)] by blast
  let ?node = "\<lambda>i. get_node G p i g" and ?hop = "ui_hop E G p g"
  let ?st = "\<lparr> ui_entries = [(start, None)], ui_queue = [0], ui_paths = [], best_depth = (\<lambda>_. None) \<rparr>"
  let ?get = "\<lambda>ids. bindR (traverseR ?node ids) (\<lambda>xs. Inr (List.map_filter id xs))"
  note node = get_node_total [OF g G assms(2)]
  have total: "\<exists>x. ?node i = Inr x" for i using node by blast
  have "entry_path [(start, None)] 0 [start]" using entry_path.root [of 0 "[(start, None)]"] by simp
  then have init: "ui_inv ?node ?hop start max_hops ?st" by (auto simp: ui_inv_def walk_to_def)
  have none: "length (ui_paths ?st) < max 1 max_paths" by simp
  obtain st where st: "ui_loop E G p start max_hops max_paths g (max_bfs_queue_ops max_hops max_paths) ?st = Inr st"
    "ui_inv ?node ?hop start max_hops st" "length (ui_paths st) \<le> max 1 max_paths"
    using ui_loop_inv [OF refl total ui_neighbors_stored [OF g G assms(2)] init none, of "max_bfs_queue_ops max_hops max_paths"]
    by (elim exE conjE) (rule that; assumption)
  have "\<forall>ids \<in> set (ui_paths st). database_path ?node ?hop start max_hops ids" using st(2) by (simp add: ui_inv_def)
  note path = database_path_nodes [OF node this [rule_format]]
  have "\<exists>paths. traverseR ?get (ui_paths st) = Inr paths" unfolding traverseR_units using path by blast
  then obtain paths where paths: "traverseR ?get (ui_paths st) = Inr paths" ..
  have "length paths = length (ui_paths st)" using paths unfolding traverseR_Inr_iff by (simp add: list_all2_lengthD)
  then have "length paths \<le> max 1 max_paths" using st(3) by simp
  moreover have "find_ui_paths E G p start max_hops max_paths g = Inr paths" unfolding find_ui_paths_def st(1) using paths by simp
  moreover have "ns \<noteq> [] \<and> node_id (hd ns) = start \<and> distinct (map node_id ns) \<and> length ns \<le> max_hops + 2
        \<and> successively (\<lambda>a b. ?hop (node_id a) (node_id b)) ns \<and> (\<forall>n \<in> set ns. ?node (node_id n) = Inr (Some n))
        \<and> is_database_terminal (last ns) \<and> (\<forall>n \<in> set (butlast ns). \<not> is_database_terminal n)" if "ns \<in> set paths" for ns
    using traverseR_members [OF paths that] path by (metis sum.inject(2))
  ultimately show ?thesis by blast
qed

section \<open>A path of a small graph\<close>

definition path_calls :: "graph_call list" where
  "path_calls = [UpsertNodes ''p'' [sample_symbol ''a'', sample_symbol ''sql:q''], UpsertEdges ''p'' [call_edge ''a'' ''sql:q'' 1]]"

lemma path_calls_run:
  "list_all graph_call_ok path_calls"
  "node_map (fold graph_spec path_calls no_maps)
     = (\<lambda>_. None) ((''p'', ''a'') \<mapsto> sample_symbol ''a'', (''p'', ''sql:q'') \<mapsto> sample_symbol ''sql:q'')"
  "edge_map (fold graph_spec path_calls no_maps) = (\<lambda>_. None) ((''p'', Calls, ''a'', ''sql:q'') \<mapsto> call_edge ''a'' ''sql:q'' 1)"
proof -
  have k: "key_ok ''sql:q''" by (simp add: key_ok_def)
  show "list_all graph_call_ok path_calls" by (simp add: path_calls_def)
  show "node_map (fold graph_spec path_calls no_maps)
     = (\<lambda>_. None) ((''p'', ''a'') \<mapsto> sample_symbol ''a'', (''p'', ''sql:q'') \<mapsto> sample_symbol ''sql:q'')"
    "edge_map (fold graph_spec path_calls no_maps) = (\<lambda>_. None) ((''p'', Calls, ''a'', ''sql:q'') \<mapsto> call_edge ''a'' ''sql:q'' 1)"
    using k by (simp_all add: path_calls_def sample_symbol_def call_edge_def nodes_ok_def edges_ok_def edge_ok_def
      add_node_def inheriting_def add_edge_def put_edge_def edge_id_def no_maps_def fun_eq_iff)
qed

lemma path_neighbors:
  assumes g: "represents G0 (fold graph_spec path_calls no_maps) g"
  shows "ui_neighbors ''p'' ''a'' g = Inr [''sql:q'']"
proof -
  let ?M = "fold graph_spec path_calls no_maps"
  have "{t. edge_map ?M (''p'', k, ''a'', t) \<noteq> None} = (if k = Calls then {''sql:q''} else {})" for k
    by (auto simp: path_calls_run(3))
  then have "edges_from ?M ''p'' k ''a'' = (if k = Calls then [call_edge ''a'' ''sql:q'' 1] else [])" for k
    by (simp add: edges_from_def path_calls_run(3))
  then have "neighbors ''p'' k ''a'' 100 g = Inr (if k = Calls then [(''sql:q'', 1)] else [])" for k
    by (simp add: neighbors_run [OF g sample_keys(1)] by_weight_def call_edge_def)
  then show ?thesis by (simp add: ui_neighbors_def UI_KINDS_def)
qed

lemma path_search:
  assumes a: "get_node G0 ''p'' ''a'' g = Inr (Some (sample_symbol ''a''))"
    and q: "get_node G0 ''p'' ''sql:q'' g = Inr (Some (sample_symbol ''sql:q''))"
    and n: "ui_neighbors ''p'' ''a'' g = Inr [''sql:q'']"
  shows "find_ui_paths sample_env G0 ''p'' ''a'' 0 1 g = Inr [[sample_symbol ''a'', sample_symbol ''sql:q'']]"
proof -
  have terminal: "\<not> is_database_terminal (sample_symbol ''a'')" "is_database_terminal (sample_symbol ''sql:q'')"
    by (simp_all add: is_database_terminal_def sample_symbol_def)
  have r: "resolved_id sample_env G0 ''p'' g ''a'' ''sql:q'' = ''sql:q''" by (simp add: resolved_id_def try_resolve_unresolved_target_def)
  obtain ops where "max_bfs_queue_ops 0 1 = Suc (Suc ops)" by (rule that [of 4998]) (simp add: max_bfs_queue_ops_def)
  then show ?thesis
    by (simp add: find_ui_paths_def ui_step_def a q n terminal ui_push_def r Let_def bfs_depth_def bfs_path_contains_def bfs_reconstruct_path_def
        List.map_filter_simps)
qed

theorem ui_paths_are_walks_witness:
  "\<exists>g. run_graph_calls G0 path_calls empty_graph = Some g
    \<and> find_ui_paths sample_env G0 ''p'' ''a'' 0 1 g = Inr [[sample_symbol ''a'', sample_symbol ''sql:q'']]
    \<and> ui_hop sample_env G0 ''p'' g ''a'' ''sql:q'' \<and> is_database_terminal (sample_symbol ''sql:q'')"
proof -
  obtain g where g: "run_graph_calls G0 path_calls empty_graph = Some g" "represents G0 (fold graph_spec path_calls no_maps) g"
    using run_graph_calls_represents [OF wire_graph_ok represents_empty path_calls_run(1)] by blast
  have k: "key_ok ''sql:q''" by (simp add: key_ok_def)
  have "get_node G0 ''p'' ''a'' g = Inr (Some (sample_symbol ''a''))" "get_node G0 ''p'' ''sql:q'' g = Inr (Some (sample_symbol ''sql:q''))"
    using k by (simp_all add: read_node [OF g(2) wire_graph_ok] path_calls_run(2))
  from path_search [OF this path_neighbors [OF g(2)]]
  have found: "find_ui_paths sample_env G0 ''p'' ''a'' 0 1 g = Inr [[sample_symbol ''a'', sample_symbol ''sql:q'']]" .
  from ui_paths_are_walks [OF built_calls [OF wire_graph_ok path_calls_run(1) g(1)] sample_keys(1), of sample_env "''a''" 0 1]
  have "ui_hop sample_env G0 ''p'' g (node_id (sample_symbol ''a'')) (node_id (sample_symbol ''sql:q''))"
    "is_database_terminal (sample_symbol ''sql:q'')" unfolding found by auto
  with g(1) found show ?thesis by (intro exI [of _ g]) (simp add: sample_symbol_def)
qed

end
