(* ===== verification/Spec2Isabelle.thy ===== *)
theory Spec2Isabelle
  imports Token_Properties Registry_Properties Registry_Typed Store_Properties Checkpoint Card_Cache_Properties Memory
    Security Identity Rule_Properties Chunking Review_Properties Migration_Graph Graph_Paths
begin

text \<open>
  A model of the core of the Engram MCP server, a Rust workspace under \<open>src/crates\<close>, with the
  theorems that its callers rely on.

  \<^bold>\<open>The program.\<close> The server keeps what it knows of a code project in an embedded key-value store,
  the registry (\<open>engram_core/src/registry.rs\<close> and \<open>registry/*.rs\<close>): projects, sections of a memory
  bank, repository rules, watches, jobs and metadata rows, each operation one redb transaction. On
  the metadata rest the pending reindex reasons, the source head that says which indexed generation
  readers may trust, the receipts of rule sources, the change-card cache and the captured review
  discussions. Beside it stand a store of job checkpoints, a process-wide memory budget, the path
  validation that every file access passes, the identifiers, the chunker that cuts sources for the
  index, the graph database of symbols and their relations (\<open>engram_graph/src/store.rs\<close>), and services
  over it, of which the migration order planner is modelled.

  \<^bold>\<open>Foundations.\<close> \<open>Prelude\<close> has byte strings, the error values and the result monad of Rust's question
  mark; \<open>U64\<close> the checked, saturating and wrapping operations on 64-bit words; \<open>Utf8\<close> the validity
  of byte strings; \<open>Table\<close> the redb tables, finite maps whose iteration is in ascending key order.
  An operation maps a database to an error, or to a result and the new database; an error leaves the
  database as it was, as a dropped transaction does.

  \<^bold>\<open>The registry.\<close> \<open>Registry_Data\<close> has the records and the database state, \<open>Registry\<close> the operations
  on projects, memory bank, watches, jobs and metadata, \<open>Reindex\<close> the recovery reasons with their
  revision-checked settlement (\<open>registry/reindex.rs\<close>), \<open>Source_Head\<close> capture, publication,
  attestation and recovery of the head (\<open>registry/source_head.rs\<close>). \<open>Registry_Steps\<close> makes them one
  step relation with its invariant. \<open>Ratchet\<close> states once, as a locale, why a token that carries a
  revision is never current again after it is superseded; the locale is interpreted for the head,
  the identity epoch and each recovery reason, and \<open>Tokens\<close> and \<open>Token_Properties\<close> draw the
  consequences: a repair token that was captured before its reason is required again never settles,
  a token from before a deletion or a publication never publishes, a current one does. \<open>Registry_Lemmas\<close> and \<open>Registry_Properties\<close> show
  what deletion of a project leaves, and the budgets of the paged metadata reader.
  \<open>Store_Refinement\<close> has a locale of simulations, interpreted for the memory bank and for the job
  table: every sequence of calls, with refused ones among them, acts on the encoded, composite-keyed
  rows as the same updates act on a partial map; \<open>Store_Properties\<close> says so for the reads.
  \<open>Registry_Typed\<close> takes all writes of the registry and shows that the listings of all five typed
  tables never fail; \<open>Registry_Rows\<close> has the part on watch and rule rows, some of which are rewritten
  as raw objects.

  \<^bold>\<open>Rules.\<close> \<open>Rule_Data\<close>, \<open>Rule_Receipt\<close>, \<open>Rules\<close>, \<open>Rule_Ownership\<close>, \<open>Rule_Adoption\<close> and
  \<open>Rule_Alias_Review\<close> follow \<open>registry/rule_*.rs\<close>: receipts and the guard of every mutation, the
  publication of a source, the bounded ownership inventory, the reviewed adoption of legacy rows and
  the review of their aliases. \<open>Rule_Lemmas\<close> has the shared facts, \<open>Rule_Properties\<close> the ownership
  discipline: manual edits and publications touch only what they own, an adoption changes provenance
  alone, a review removes exactly what it retires and keeps every alias that was not selected. The
  stale-snapshot guards of the last two compare digests; their theorems name what that rests on: the
  serialised stream determines what it encodes (\<open>streams_ok\<close>), and the hash does not collide on the
  two streams compared (\<open>basis_collision_free\<close>, \<open>snapshot_collision_free\<close>).

  \<^bold>\<open>Caches and stores.\<close> \<open>Card_Cache\<close> and \<open>Card_Cache_Properties\<close>: the change-card cache with its
  exact books and FIFO eviction (\<open>registry/change_card_cache.rs\<close>). \<open>Review_Discussion\<close> and
  \<open>Review_Properties\<close>: immutable captures with an audited quota (\<open>registry/review_discussion.rs\<close>).
  \<open>Checkpoint\<close>: resumable jobs (\<open>engram_core/src/checkpoint.rs\<close>).

  \<^bold>\<open>The rest.\<close> \<open>Memory\<close> models the budget of \<open>engram_core/src/memory.rs\<close> twice, as functions and as a
  step relation that interleaves the atomic accesses of any number of threads. \<open>Security\<close> has the
  lexical and symbolic-link checks of \<open>engram_core/src/security.rs\<close>; \<open>Identity\<close> paths, hashes and
  keys (\<open>paths.rs\<close>, \<open>ids.rs\<close>, \<open>namespaces.rs\<close>); \<open>Chunking\<close> the line loop of
  \<open>engram_index/src/chunking.rs\<close>.

  \<^bold>\<open>Graph database.\<close> \<open>Graph_Data\<close> has the edge kinds and rows, \<open>Graph_Store\<close> the four data tables with
  every write, deletion and purge, \<open>Graph_Queries\<close> the scans and neighbour queries, \<open>Graph_Search\<close> the
  text queries, the resolution of a symbol, the bounded traversal and the search for database paths.
  \<open>Graph_Refinement\<close> relates the tables to a map of nodes and a map of edges, of which each table is
  the image under its keys; \<open>Graph_Deletion\<close> does so for the batched deletions, \<open>Graph_Calls\<close> for any
  sequence of calls, as an interpretation of the locale of related calls in \<open>Store_Refinement\<close>, and
  \<open>Graph_Reads\<close> for the reads. \<open>Graph_Properties\<close> states what callers rely on over databases that
  calls have \<open>built\<close>: the tables mirror each other, queries are complete or say that they are not,
  learned weights saturate, purges remove exactly what is stale, and the batched deletion counts what
  it removes. \<open>Graph_Hops\<close> describes the hops of a traversal by the stored edges alone, and
  \<open>Graph_Search_Properties\<close> shows that the traversal returns, follows only such hops, and finds
  everything in reach where the branching cap of 50 and the result cap of 500 cut nothing off;
  \<open>Graph_Paths\<close> shows that the database paths are walks
  along stored edges to their first database node.

  \<^bold>\<open>Migration planner.\<close> \<open>Migration_Order\<close> is the whole of
  \<open>engram_server/src/services/migration_order_service.rs\<close>. \<open>Migration_Lemmas\<close> shows that the iterative depth-first search returns and finds a cycle exactly
  when there is one, \<open>Migration_Waves\<close> that the wave loop returns, that in-degrees count the
  dependencies that remain and that a stall always has a cycle to break (the two fallbacks of the
  code are never taken), and \<open>Migration_Properties\<close> what follows for the plan. \<open>Migration_Graph\<close> puts
  the planner on the graph database: below the limits of its queries the plan respects the stored
  dependencies.

  \<^bold>\<open>Termination and bounds.\<close> Loops that the code does not bound by its data (\<open>chunk_loop\<close>, \<open>dfs_loop\<close>,
  \<open>kahn_loop\<close>, \<open>drain\<close>, \<open>traverse_loop\<close>) are partial functions on \<open>option\<close>; that they return is proved,
  and for chunking also when they do not. The counter of \<open>ui_loop\<close> is the bound that the code has.
  Fuel is used where a chain gets shorter with each step, and is its length: \<open>parent_chain\<close> (it
  suffices by \<open>entry_chain\<close>) and \<open>trim_end\<close> (by \<open>trim_end_trims\<close>). 64-bit and 32-bit integers are words; sizes and counts in
  memory (\<open>usize\<close>) are words where the code lets them wrap and naturals where a list bounds them.

  \<^bold>\<open>Parameters.\<close> What is not under \<open>src\<close> is an argument: the JSON encoders (\<open>codecs\<close>,
  \<open>rule_codecs\<close>, with the hypotheses that a value decodes from its own encoding, \<open>rule_codecs_ok\<close>, and
  a watch object with replaced fields to the watch with these values, \<open>watch_fields_ok\<close>), the \<open>bincode\<close> encoders
  of graph rows (\<open>graph_codecs\<close>), the readers of row metadata (\<open>graph_env\<close>), the BLAKE3 hash, the
  clock, Unicode lower-casing, the file system of the path checks, the iteration order of hash sets
  and maps. \<open>Wire\<close>, \<open>Rule_Wire\<close> and \<open>Graph_Properties\<close> have executable encoders that satisfy the
  hypotheses; \<open>Sample_Run\<close>, \<open>Rule_Samples\<close> and \<open>Rule_Review_Samples\<close> run
  the model on them.

  \<^bold>\<open>Not modelled.\<close> Opening and migrating the database files; logging and metrics; the bounded queue
  of \<open>memory.rs\<close> (a tokio channel); the Windows branch of the path checks and canonicalisation by the
  operating system; of the graph database its migrations, the resolvers that rewrite placeholder
  targets, the impact walk, the metadata projections and the floating-point analyses; the lexical, vector and hybrid indexes (Tantivy, LanceDB, ripgrep); the extractors (regular
  expressions and tree-sitter grammars); Git (libgit2) and language-model access; the tool handlers
  and the other services, which parse requests and render text over these parts.
\<close>

end
